(* ===== verification/Rosary_Prelude.thy ===== *)
theory Rosary_Prelude
  imports
    Complex_Main
    "HOL-Library.Char_ord"
    "HOL-Library.List_Lexorder"
    "HOL-Library.Product_Lexorder"
    "HOL-Library.Option_ord"
    "HOL-Library.Multiset"
    "HOL-Library.Word"
    "HOL-Library.Countable"
begin

text \<open>
  The prelude of the development: the text operations of the Rust standard library that the
  program uses, JSON values, ordered maps (Rust's \<open>BTreeMap\<close>), the interface of a keyed store
  and the generic facts on them that the component theories share.

  Text is modelled as a list of bytes (HOL \<open>string\<close>). On ASCII text the operations below are
  Rust's (\<open>trim\<close>, \<open>to_lowercase\<close>, \<open>split_whitespace\<close>, \<open>starts_with\<close>, \<open>ends_with\<close>,
  \<open>contains\<close>, \<open>len\<close>); on other text Rust folds case and recognises white space by the
  Unicode tables, which are not modelled. Strings are ordered lexicographically by byte, tuples
  lexicographically, and \<open>None\<close> is below every \<open>Some\<close>, as the derived \<open>Ord\<close> instances do.
\<close>

named_theorems text_simps
named_theorems bt_simps
named_theorems map_simps

section \<open>Text\<close>

definition is_whitespace :: "char \<Rightarrow> bool" where
  "is_whitespace c \<longleftrightarrow> (let n = (of_char c :: nat) in n = 32 \<or> (9 \<le> n \<and> n \<le> 13))"

definition is_ascii_digit :: "char \<Rightarrow> bool" where
  "is_ascii_digit c \<longleftrightarrow> (let n = (of_char c :: nat) in 48 \<le> n \<and> n \<le> 57)"

definition is_ascii_hexdigit :: "char \<Rightarrow> bool" where
  "is_ascii_hexdigit c \<longleftrightarrow>
     (let n = (of_char c :: nat)
      in (48 \<le> n \<and> n \<le> 57) \<or> (65 \<le> n \<and> n \<le> 70) \<or> (97 \<le> n \<and> n \<le> 102))"

definition is_alphabetic :: "char \<Rightarrow> bool" where
  "is_alphabetic c \<longleftrightarrow>
     (let n = (of_char c :: nat) in (65 \<le> n \<and> n \<le> 90) \<or> (97 \<le> n \<and> n \<le> 122))"

definition lower_char :: "char \<Rightarrow> char" where
  "lower_char c =
     (let n = (of_char c :: nat) in if 65 \<le> n \<and> n \<le> 90 then char_of (n + 32) else c)"

definition to_lowercase :: "string \<Rightarrow> string" where
  "to_lowercase s = map lower_char s"

definition trim_start :: "string \<Rightarrow> string" where
  "trim_start s = dropWhile is_whitespace s"

definition trim :: "string \<Rightarrow> string" where
  "trim s = rev (dropWhile is_whitespace (rev (trim_start s)))"

definition starts_with :: "string \<Rightarrow> string \<Rightarrow> bool" where
  "starts_with s p \<longleftrightarrow> take (length p) s = p"

definition ends_with :: "string \<Rightarrow> string \<Rightarrow> bool" where
  "ends_with s p \<longleftrightarrow> starts_with (rev s) (rev p)"

definition strip_prefix :: "string \<Rightarrow> string \<Rightarrow> string option" where
  "strip_prefix s p = (if starts_with s p then Some (drop (length p) s) else None)"

fun contains_str :: "string \<Rightarrow> string \<Rightarrow> bool" where
  "contains_str [] p \<longleftrightarrow> p = []"
| "contains_str (c # s) p \<longleftrightarrow> starts_with (c # s) p \<or> contains_str s p"

text \<open>\<open>split_ws_acc cur s\<close> continues a token whose reversed start is \<open>cur\<close>.\<close>

fun split_ws_acc :: "string \<Rightarrow> string \<Rightarrow> string list" where
  "split_ws_acc cur [] = (if cur = [] then [] else [rev cur])"
| "split_ws_acc cur (c # s) =
     (if is_whitespace c
      then (if cur = [] then split_ws_acc [] s else rev cur # split_ws_acc [] s)
      else split_ws_acc (c # cur) s)"

definition split_whitespace :: "string \<Rightarrow> string list" where
  "split_whitespace s = split_ws_acc [] s"

fun split_once :: "char \<Rightarrow> string \<Rightarrow> (string \<times> string) option" where
  "split_once d [] = None"
| "split_once d (c # s) =
     (if c = d then Some ([], s)
      else (case split_once d s of None \<Rightarrow> None | Some (a, b) \<Rightarrow> Some (c # a, b)))"

definition rsplit_once :: "char \<Rightarrow> string \<Rightarrow> (string \<times> string) option" where
  "rsplit_once d s =
     (case split_once d (rev s) of None \<Rightarrow> None | Some (b, a) \<Rightarrow> Some (rev a, rev b))"

definition digit_value :: "char \<Rightarrow> nat" where
  "digit_value c = (of_char c :: nat) - 48"

text \<open>Rust's \<open>str::parse\<close> at an unsigned type with \<open>bound\<close> values: digits only (one leading
  plus sign is accepted), and a value that does not fit is an error.\<close>

definition parse_unsigned :: "nat \<Rightarrow> string \<Rightarrow> nat option" where
  "parse_unsigned bound s =
     (let ds = (case s of [] \<Rightarrow> [] | c # cs \<Rightarrow> if c = CHR ''+'' then cs else s);
          n = foldl (\<lambda>a c. 10 * a + digit_value c) 0 ds
      in if ds \<noteq> [] \<and> list_all is_ascii_digit ds \<and> n < bound then Some n else None)"

lemma starts_with_iff [text_simps]: "starts_with s p \<longleftrightarrow> (\<exists>t. s = p @ t)"
  unfolding starts_with_def by (metis append_eq_conv_conj)

lemma ends_with_iff [text_simps]: "ends_with s p \<longleftrightarrow> (\<exists>t. s = t @ p)"
  unfolding ends_with_def starts_with_iff
  by (metis rev_append rev_rev_ident)

lemma starts_with_refl [simp]: "starts_with s s"
  by (simp add: starts_with_def)

lemma strip_prefix_Some [text_simps]: "strip_prefix s p = Some t \<longleftrightarrow> s = p @ t"
  by (auto simp: strip_prefix_def starts_with_iff)

lemma split_once_Some:
  "split_once d s = Some (a, b) \<longleftrightarrow> s = a @ d # b \<and> d \<notin> set a"
proof (induction s arbitrary: a)
  case Nil
  then show ?case by simp
next
  case (Cons c s)
  show ?case
  proof (cases "c = d")
    case True
    then show ?thesis by (cases a) auto
  next
    case False
    show ?thesis
    proof (cases a)
      case Nil
      then show ?thesis using False by (simp split: option.splits prod.splits)
    next
      case (Cons x a')
      then show ?thesis using False Cons.IH [of a']
        by (auto split: option.splits prod.splits)
    qed
  qed
qed

lemma split_once_None: "split_once d s = None \<longleftrightarrow> d \<notin> set s"
  by (induction s) (auto split: option.splits)

lemma rsplit_once_Some:
  "rsplit_once d s = Some (a, b) \<longleftrightarrow> s = a @ d # b \<and> d \<notin> set b"
proof -
  have "rsplit_once d s = Some (a, b) \<longleftrightarrow> split_once d (rev s) = Some (rev b, rev a)"
    by (auto simp: rsplit_once_def split: option.splits)
  then show ?thesis
    by (simp add: split_once_Some) (metis append.assoc append_Cons append_Nil rev.simps(2) rev_append rev_rev_ident)
qed

text \<open>Printing numbers in decimal.\<close>

fun show_nat :: "nat \<Rightarrow> string" where
  "show_nat n = (if n < 10 then [char_of (48 + n)] else show_nat (n div 10) @ [char_of (48 + n mod 10)])"

declare show_nat.simps [simp del]

definition show_int :: "int \<Rightarrow> string" where
  "show_int i = (if i < 0 then CHR ''-'' # show_nat (nat (- i)) else show_nat (nat i))"

lemma of_char_digit: "d < 10 \<Longrightarrow> of_char (char_of (48 + d :: nat) :: char) = (48 + d :: nat)"
  by (simp add: of_char_of)

lemma digit_char:
  assumes "d < 10"
  shows "is_ascii_digit (char_of (48 + d :: nat))" "digit_value (char_of (48 + d :: nat)) = d"
    "char_of (48 + d :: nat) \<noteq> CHR ''-''" "char_of (48 + d :: nat) \<noteq> CHR ''+''"
proof -
  have n: "(of_char (char_of (48 + d :: nat) :: char) :: nat) = 48 + d"
    using assms by (rule of_char_digit)
  show "is_ascii_digit (char_of (48 + d :: nat))"
    using assms by (simp add: is_ascii_digit_def Let_def n)
  show "digit_value (char_of (48 + d :: nat)) = d" by (simp only: digit_value_def n)
  have "(of_char (CHR ''-'') :: nat) = 45" "(of_char (CHR ''+'') :: nat) = 43" by simp_all
  moreover have "(of_char (char_of (48 + d :: nat) :: char) :: nat) \<noteq> 45"
    "(of_char (char_of (48 + d :: nat) :: char) :: nat) \<noteq> 43"
    unfolding n by simp_all
  ultimately show "char_of (48 + d :: nat) \<noteq> CHR ''-''" "char_of (48 + d :: nat) \<noteq> CHR ''+''"
    by metis+
qed

lemma show_nat_digits: "list_all is_ascii_digit (show_nat n) \<and> show_nat n \<noteq> []
    \<and> CHR ''-'' \<notin> set (show_nat n) \<and> CHR ''+'' \<notin> set (show_nat n)"
proof (induction n rule: show_nat.induct)
  case (1 n)
  show ?case
  proof (cases "n < 10")
    case True
    then show ?thesis using digit_char [of n] by (subst (1 2 3 4) show_nat.simps) auto
  next
    case False
    then show ?thesis using 1 digit_char [of "n mod 10"]
      by (subst (1 2 3 4) show_nat.simps) auto
  qed
qed

lemma show_nat_value: "foldl (\<lambda>a c. 10 * a + digit_value c) 0 (show_nat n) = n"
proof (induction n rule: show_nat.induct)
  case (1 n)
  show ?case
  proof (cases "n < 10")
    case True
    then show ?thesis by (subst show_nat.simps) (simp add: digit_char(2))
  next
    case False
    then show ?thesis using 1 digit_char(2) [of "n mod 10"] by (subst show_nat.simps) simp
  qed
qed

lemma parse_show_nat [text_simps]:
  "parse_unsigned b (show_nat n) = (if n < b then Some n else None)"
proof -
  obtain c cs where s: "show_nat n = c # cs" using show_nat_digits [of n] by (cases "show_nat n") auto
  then have "c \<noteq> CHR ''+''" using show_nat_digits [of n] by auto
  then have "parse_unsigned b (show_nat n) =
      (let ds = show_nat n; m = foldl (\<lambda>a c. 10 * a + digit_value c) 0 ds
       in if ds \<noteq> [] \<and> list_all is_ascii_digit ds \<and> m < b then Some m else None)"
    by (simp add: parse_unsigned_def s)
  then show ?thesis using show_nat_digits [of n] by (simp add: show_nat_value Let_def)
qed

section \<open>JSON values\<close>

text \<open>\<open>serde_json::Value\<close>. Numbers are integers here: the program reads none but those. An
  object is its list of members in key order, the map \<open>serde_json\<close> keeps.\<close>

datatype json =
    JNull
  | JBool bool
  | JNum int
  | JStr string
  | JArr "json list"
  | JObj "(string \<times> json) list"

fun json_get :: "json \<Rightarrow> string \<Rightarrow> json option" where
  "json_get (JObj ms) k = map_of ms k"
| "json_get _ k = None"

fun as_str :: "json \<Rightarrow> string option" where
  "as_str (JStr s) = Some s"
| "as_str _ = None"

fun as_u64 :: "json \<Rightarrow> nat option" where
  "as_u64 (JNum n) = (if 0 \<le> n \<and> n < 2 ^ 64 then Some (nat n) else None)"
| "as_u64 _ = None"

fun as_array :: "json \<Rightarrow> json list option" where
  "as_array (JArr xs) = Some xs"
| "as_array _ = None"

section \<open>Ordered maps\<close>

text \<open>
  A \<open>BTreeMap\<close> is the list of its entries in strictly ascending key order, which is also the
  order in which it is iterated. Two such lists with the same lookup function are equal
  (\<open>bt_ext\<close>): what a map holds determines how it is iterated.
\<close>

fun bt_insert :: "'k::linorder \<Rightarrow> 'v \<Rightarrow> ('k \<times> 'v) list \<Rightarrow> ('k \<times> 'v) list" where
  "bt_insert k v [] = [(k, v)]"
| "bt_insert k v ((k', v') # m) =
     (if k < k' then (k, v) # (k', v') # m
      else if k = k' then (k, v) # m
      else (k', v') # bt_insert k v m)"

definition bt_ok :: "('k::linorder \<times> 'v) list \<Rightarrow> bool" where
  "bt_ok m \<longleftrightarrow> sorted_wrt (<) (map fst m)"

lemma bt_get_insert [bt_simps]: "map_of (bt_insert k v m) = (map_of m)(k \<mapsto> v)"
  by (induction m) (auto simp: fun_eq_iff)

lemma bt_keys_insert [bt_simps]: "fst ` set (bt_insert k v m) = insert k (fst ` set m)"
  by (simp add: dom_map_of_conv_image_fst [symmetric] bt_get_insert)

lemma bt_ok_Nil [simp]: "bt_ok []"
  by (simp add: bt_ok_def)

lemma bt_ok_Cons [bt_simps]:
  "bt_ok ((k, v) # m) \<longleftrightarrow> bt_ok m \<and> (\<forall>k' \<in> fst ` set m. k < k')"
  by (auto simp: bt_ok_def)

lemma bt_ok_insert [bt_simps, intro]: "bt_ok m \<Longrightarrow> bt_ok (bt_insert k v m)"
  by (induction k v m rule: bt_insert.induct) (auto simp: bt_ok_Cons bt_keys_insert)

lemma bt_ok_distinct: "bt_ok m \<Longrightarrow> distinct (map fst m)"
  unfolding bt_ok_def
  by (metis strict_sorted_iff)

lemma bt_head_least:
  assumes "bt_ok ((k, v) # m)" "map_of ((k, v) # m) k' = Some w"
  shows "k \<le> k'"
proof -
  have "k' \<in> fst ` set ((k, v) # m)"
    using assms(2) by (metis domI dom_map_of_conv_image_fst)
  then show ?thesis using assms(1) by (auto simp: bt_ok_Cons)
qed

lemma bt_tail_get: "bt_ok ((k, v) # m) \<Longrightarrow> map_of m = (map_of ((k, v) # m))(k := None)"
proof -
  assume ok: "bt_ok ((k, v) # m)"
  then have "k \<notin> fst ` set m" by (auto simp: bt_ok_Cons)
  then have "map_of m k = None" by (simp add: map_of_eq_None_iff)
  then show ?thesis by (auto simp: fun_eq_iff)
qed

lemma bt_ext: "bt_ok m \<Longrightarrow> bt_ok m' \<Longrightarrow> map_of m = map_of m' \<Longrightarrow> m = m'"
proof (induction m arbitrary: m')
  case Nil
  then show ?case by (cases m') (auto simp: fun_eq_iff dest: spec split: if_splits)
next
  case (Cons e m)
  obtain k v where e: "e = (k, v)" by force
  have some: "map_of m' k = Some v" using Cons.prems(3) e by (metis map_of_Cons_code(2))
  then obtain k' v' n where m': "m' = (k', v') # n" by (cases m') auto
  have "k' \<le> k" using bt_head_least [of k' v' n k v] Cons.prems(2) some m' by simp
  moreover have "k \<le> k'"
  proof (rule bt_head_least [of k v m k' v'])
    show "bt_ok ((k, v) # m)" using Cons.prems(1) e by simp
    show "map_of ((k, v) # m) k' = Some v'" using Cons.prems(3) e m' by (metis map_of_Cons_code(2))
  qed
  ultimately have k: "k' = k" by simp
  then have v: "v' = v" using some m' by simp
  have "map_of m = (map_of (e # m))(k := None)"
    using bt_tail_get [of k v m] Cons.prems(1) e by simp
  also have "\<dots> = (map_of m')(k := None)" by (simp only: Cons.prems(3))
  also have "\<dots> = map_of n" using bt_tail_get [of k v' n] Cons.prems(2) m' k by simp
  finally have "map_of m = map_of n" .
  moreover have "bt_ok m" "bt_ok n" using Cons.prems e m' by (auto simp: bt_ok_Cons)
  ultimately have "m = n" using Cons.IH by blast
  then show ?case using e m' k v by simp
qed

text \<open>Keeping, per key, a greatest element: the first one seen among equals.\<close>

definition bt_keep_max :: "('x \<Rightarrow> 'k::linorder) \<Rightarrow> ('x \<Rightarrow> 'r::linorder) \<Rightarrow> ('k \<times> 'x) list \<Rightarrow> 'x
    \<Rightarrow> ('k \<times> 'x) list" where
  "bt_keep_max key rank m x =
     (case map_of m (key x) of
        None \<Rightarrow> bt_insert (key x) x m
      | Some y \<Rightarrow> if rank y < rank x then bt_insert (key x) x m else m)"

lemma bt_keep_max_ok: "bt_ok m \<Longrightarrow> bt_ok (bt_keep_max key rank m x)"
  by (simp add: bt_keep_max_def bt_ok_insert split: option.splits)

lemma bt_keep_max_run:
  "bt_ok (foldl (bt_keep_max key rank) [] xs)
   \<and> (map_of (foldl (bt_keep_max key rank) [] xs) k = None \<longleftrightarrow> k \<notin> key ` set xs)
   \<and> (\<forall>y. map_of (foldl (bt_keep_max key rank) [] xs) k = Some y \<longrightarrow>
        y \<in> set xs \<and> key y = k \<and> (\<forall>x \<in> set xs. key x = k \<longrightarrow> rank x \<le> rank y))"
proof (induction xs rule: rev_induct)
  case Nil
  then show ?case by simp
next
  case (snoc x xs)
  let ?m = "foldl (bt_keep_max key rank) [] xs"
  show ?case
  proof (cases "key x = k")
    case False
    then have "map_of (bt_keep_max key rank ?m x) k = map_of ?m k"
      by (auto simp: bt_keep_max_def bt_get_insert split: option.splits)
    then show ?thesis using snoc.IH False by (auto simp: bt_keep_max_ok)
  next
    case True
    show ?thesis
    proof (cases "map_of ?m k")
      case None
      then have "map_of (bt_keep_max key rank ?m x) k = Some x"
        using True by (auto simp: bt_keep_max_def bt_get_insert)
      then show ?thesis using snoc.IH None True by (auto simp: bt_keep_max_ok image_iff)
    next
      case (Some y)
      then have "map_of (bt_keep_max key rank ?m x) k = Some (if rank y < rank x then x else y)"
        using True by (auto simp: bt_keep_max_def bt_get_insert)
      then show ?thesis using snoc.IH Some True
        by (auto simp: bt_keep_max_ok dest: order.strict_trans1 less_imp_le)
    qed
  qed
qed

section \<open>The interface of a keyed store\<close>

text \<open>
  What the append-only logs need from the map they are kept in: inserting a key is visible and
  nothing else is, and what a well-formed store answers determines the store. The clients add
  an entry only where its key is free (\<open>ins_absent\<close>), so the first write of a key wins.
\<close>

definition ins_absent ::
  "('m \<Rightarrow> 'k \<Rightarrow> 'v option) \<Rightarrow> ('k \<Rightarrow> 'v \<Rightarrow> 'm \<Rightarrow> 'm) \<Rightarrow> 'm \<Rightarrow> 'k \<times> 'v \<Rightarrow> 'm" where
  "ins_absent get ins m e =
     (case get m (fst e) of None \<Rightarrow> ins (fst e) (snd e) m | Some _ \<Rightarrow> m)"

locale keyed_store =
  fixes emp :: "'m"
    and ins :: "'k \<Rightarrow> 'v \<Rightarrow> 'm \<Rightarrow> 'm"
    and get :: "'m \<Rightarrow> 'k \<Rightarrow> 'v option"
    and ok :: "'m \<Rightarrow> bool"
  assumes get_emp: "get emp = (\<lambda>_. None)"
    and get_ins: "ok m \<Longrightarrow> get (ins k v m) = (get m)(k \<mapsto> v)"
    and ok_emp: "ok emp"
    and ok_ins: "ok m \<Longrightarrow> ok (ins k v m)"
    and store_ext: "ok m \<Longrightarrow> ok m' \<Longrightarrow> get m = get m' \<Longrightarrow> m = m'"
begin

lemma absent_ok: "ok m \<Longrightarrow> ok (ins_absent get ins m e)"
  by (simp add: ins_absent_def ok_ins split: option.splits)

lemma absent_get:
  "ok m \<Longrightarrow> get (ins_absent get ins m e) =
     (if get m (fst e) = None then (get m)(fst e \<mapsto> snd e) else get m)"
  by (auto simp: ins_absent_def get_ins split: option.splits)

lemma fold_ok: "ok m \<Longrightarrow> ok (foldl (ins_absent get ins) m es)"
  by (induction es arbitrary: m) (auto simp: absent_ok)

lemma fold_get:
  "ok m \<Longrightarrow> get (foldl (ins_absent get ins) m es) k =
     (case get m k of Some v \<Rightarrow> Some v | None \<Rightarrow> map_of es k)"
proof (induction es arbitrary: m)
  case Nil
  then show ?case by (simp split: option.splits)
next
  case (Cons e es)
  then show ?case
    by (cases e) (auto simp: absent_ok absent_get split: option.splits)
qed

text \<open>First write wins: the entries, read as an association list, are what the log answers.\<close>

lemma log_get: "get (foldl (ins_absent get ins) emp es) k = map_of es k"
  by (simp add: fold_get ok_emp get_emp)

lemma log_eqI:
  assumes "map_of es = map_of es'"
  shows "foldl (ins_absent get ins) emp es = foldl (ins_absent get ins) emp es'"
proof (rule store_ext)
  show "get (foldl (ins_absent get ins) emp es) = get (foldl (ins_absent get ins) emp es')"
    using assms by (simp add: log_get fun_eq_iff)
qed (simp_all add: fold_ok ok_emp)

lemma replay_noop: "ok m \<Longrightarrow> get m (fst e) \<noteq> None \<Longrightarrow> ins_absent get ins m e = m"
  by (auto simp: ins_absent_def)

end

interpretation btm: keyed_store "[]" bt_insert map_of bt_ok
  by unfold_locales (auto simp: bt_simps intro: bt_ext)

section \<open>Association lists without conflicts\<close>

definition consistent :: "('k \<times> 'v) list \<Rightarrow> bool" where
  "consistent es \<longleftrightarrow> list_all (\<lambda>e. list_all (\<lambda>e'. fst e = fst e' \<longrightarrow> snd e = snd e') es) es"

lemma consistentD:
  "consistent es \<Longrightarrow> (k, v) \<in> set es \<Longrightarrow> (k, v') \<in> set es \<Longrightarrow> v = v'"
  by (fastforce simp: consistent_def list_all_iff)

lemma consistent_map_of:
  assumes c: "consistent es"
  shows "map_of es k = Some v \<longleftrightarrow> (k, v) \<in> set es"
proof
  assume "map_of es k = Some v"
  then show "(k, v) \<in> set es" by (rule map_of_SomeD)
next
  assume v: "(k, v) \<in> set es"
  then have "k \<in> fst ` set es" by force
  then obtain w where w: "map_of es k = Some w"
    by (metis domD dom_map_of_conv_image_fst)
  then have "w = v" using consistentD [OF c map_of_SomeD [OF w] v] by simp
  then show "map_of es k = Some v" using w by simp
qed

lemma consistent_cong: "consistent es \<Longrightarrow> set es = set es' \<Longrightarrow> consistent es'"
  by (simp only: consistent_def list_all_iff)

lemma consistent_same_map:
  assumes "consistent es" "set es = set es'"
  shows "map_of es = map_of es'"
proof
  fix k
  have "consistent es'" using assms consistent_cong by blast
  then show "map_of es k = map_of es' k"
    using assms consistent_map_of by (metis (no_types, lifting) not_None_eq)
qed

section \<open>Sorting\<close>

text \<open>Rust's \<open>sort\<close> and \<open>sort_by\<close> are stable; so is HOL's \<open>sort_key\<close>. With distinct keys the
  result depends on the set of elements only.\<close>

lemma sort_key_set_cong:
  assumes "set xs = set ys" "distinct xs" "distinct ys" "inj_on f (set xs)"
  shows "sort_key f xs = sort_key f ys"
proof -
  have "mset xs = mset ys" using assms(1-3) set_eq_iff_mset_eq_distinct by blast
  then show ?thesis using assms(1,4) by (intro sort_key_inj_key_eq) auto
qed

lemma mem_filter_map_of [map_simps]: "x \<in> set (List.map_filter f xs) \<longleftrightarrow> (\<exists>y \<in> set xs. f y = Some x)"
  by (force simp: List.map_filter_def)

end
