(* ===== verification/Provenance.thy ===== *)
theory Provenance
  imports Rosary_Prelude
begin

text \<open>
  Where a bead comes from (\<open>crates/bdr/src/provenance.rs\<close>), and the JSON form of it: an object tagged
  with the kind, as the derived implementations of \<open>serde\<close> write and read it.
\<close>

datatype provenance_ref =
    FromAdr string
  | FromDoc string
  | FromSlackThread string "string option"
  | FromMeeting string "string option"
  | FromManual string
  | FromSession string "string option"
  | FromCode string string "string option"

text \<open>The members are in key order; an option that is absent is left out.\<close>

definition opt_member :: "string \<Rightarrow> string option \<Rightarrow> (string \<times> json) list" where
  "opt_member k v = (case v of None \<Rightarrow> [] | Some s \<Rightarrow> [(k, JStr s)])"

fun prov_to_json :: "provenance_ref \<Rightarrow> json" where
  "prov_to_json (FromAdr i) = JObj [(''id'', JStr i), (''kind'', JStr ''adr'')]"
| "prov_to_json (FromDoc p) = JObj [(''kind'', JStr ''doc''), (''path'', JStr p)]"
| "prov_to_json (FromSlackThread u s) =
     JObj ((''kind'', JStr ''slack_thread'') # opt_member ''summary'' s @ [(''url'', JStr u)])"
| "prov_to_json (FromMeeting t d) = JObj (opt_member ''date'' d @ [(''kind'', JStr ''meeting''), (''title'', JStr t)])"
| "prov_to_json (FromManual n) = JObj [(''kind'', JStr ''manual''), (''note'', JStr n)]"
| "prov_to_json (FromSession p s) =
     JObj ((''kind'', JStr ''session'') # opt_member ''summary'' s @ [(''transcript_path'', JStr p)])"
| "prov_to_json (FromCode r p s) =
     JObj ([(''kind'', JStr ''code''), (''path'', JStr p), (''repo'', JStr r)] @ opt_member ''symbol'' s)"

text \<open>A member that must be text; one that may be absent or null.\<close>

definition req_str :: "json \<Rightarrow> string \<Rightarrow> string option" where
  "req_str v k = Option.bind (json_get v k) as_str"

fun opt_str :: "json option \<Rightarrow> string option option" where
  "opt_str None = Some None"
| "opt_str (Some JNull) = Some None"
| "opt_str (Some (JStr s)) = Some (Some s)"
| "opt_str _ = None"

definition prov_of_json :: "json \<Rightarrow> provenance_ref option" where
  "prov_of_json v =
     (let kind = req_str v ''kind'' in
      if kind = Some ''adr'' then map_option FromAdr (req_str v ''id'')
      else if kind = Some ''doc'' then map_option FromDoc (req_str v ''path'')
      else if kind = Some ''slack_thread'' then
        (case (req_str v ''url'', opt_str (json_get v ''summary'')) of
           (Some u, Some s) \<Rightarrow> Some (FromSlackThread u s) | _ \<Rightarrow> None)
      else if kind = Some ''meeting'' then
        (case (req_str v ''title'', opt_str (json_get v ''date'')) of
           (Some t, Some d) \<Rightarrow> Some (FromMeeting t d) | _ \<Rightarrow> None)
      else if kind = Some ''manual'' then map_option FromManual (req_str v ''note'')
      else if kind = Some ''session'' then
        (case (req_str v ''transcript_path'', opt_str (json_get v ''summary'')) of
           (Some p, Some s) \<Rightarrow> Some (FromSession p s) | _ \<Rightarrow> None)
      else if kind = Some ''code'' then
        (case (req_str v ''repo'', req_str v ''path'', opt_str (json_get v ''symbol'')) of
           (Some r, Some p, Some s) \<Rightarrow> Some (FromCode r p s) | _ \<Rightarrow> None)
      else None)"

text \<open>A list is read when every element is.\<close>

fun read_all :: "('a \<Rightarrow> 'b option) \<Rightarrow> 'a list \<Rightarrow> 'b list option" where
  "read_all f [] = Some []"
| "read_all f (x # xs) =
     (case f x of None \<Rightarrow> None | Some y \<Rightarrow> (case read_all f xs of None \<Rightarrow> None | Some ys \<Rightarrow> Some (y # ys)))"

definition provs_of_json :: "json \<Rightarrow> provenance_ref list option" where
  "provs_of_json v = Option.bind (as_array v) (read_all prov_of_json)"

lemma read_all_total: "(\<And>r. r \<in> set rs \<Longrightarrow> f r \<noteq> None) \<Longrightarrow> read_all f rs = Some (map (\<lambda>r. the (f r)) rs)"
  by (induction rs) (auto split: option.splits)

lemma read_all_map: "(\<And>x. x \<in> set xs \<Longrightarrow> f (g x) = Some x) \<Longrightarrow> read_all f (map g xs) = Some xs"
  by (induction xs) auto

lemma prov_round_trip [simp]: "prov_of_json (prov_to_json r) = Some r"
  by (cases r) (auto simp: prov_of_json_def req_str_def opt_member_def split: option.splits)

lemma provs_round_trip [simp]: "provs_of_json (JArr (map prov_to_json rs)) = Some rs"
  by (simp add: provs_of_json_def read_all_map)

end
