(* ===== verification/Bead_Model.thy ===== *)
theory Bead_Model
  imports Provenance
begin

text \<open>
  The work item: the lifecycle states of a bead and their transition system, the bead record and
  its predicates (\<open>src/bead.rs\<close>), and the close-condition rules (\<open>src/bead_close_condition.rs\<close>).

  Times are integers, issue types, statuses and identifiers are text, as in the code. The field
  \<open>derived_from\<close> of the record is left out: none of the operations modelled here reads it. SHA-256,
  the parser of RFC 3339 times and the reader of JSON text are parameters.
\<close>

section \<open>Lifecycle states\<close>

datatype bead_state =
    Backlog | Open | Queued | Dispatched | Verifying | PrOpen | Done | Rejected | Blocked
  | Stale | DeadLetter

fun valid_transitions :: "bead_state \<Rightarrow> bead_state list" where
  "valid_transitions Backlog = [Open]"
| "valid_transitions Open = [Queued, Dispatched]"
| "valid_transitions Queued = [Dispatched]"
| "valid_transitions Dispatched = [Verifying, Open, DeadLetter]"
| "valid_transitions Verifying = [Done, Rejected, Blocked, PrOpen, Open, DeadLetter]"
| "valid_transitions PrOpen = [Done]"
| "valid_transitions Rejected = [Open]"
| "valid_transitions Blocked = [Open]"
| "valid_transitions Done = []"
| "valid_transitions Stale = [Open]"
| "valid_transitions DeadLetter = [Open, Done]"

definition can_transition_to :: "bead_state \<Rightarrow> bead_state \<Rightarrow> bool" where
  "can_transition_to s t \<longleftrightarrow> t \<in> set (valid_transitions s)"

definition is_terminal :: "bead_state \<Rightarrow> bool" where
  "is_terminal s \<longleftrightarrow> valid_transitions s = []"

fun to_linear_type :: "bead_state \<Rightarrow> string \<times> string" where
  "to_linear_type Backlog = (''backlog'', ''Backlog'')"
| "to_linear_type Open = (''unstarted'', ''Todo'')"
| "to_linear_type Rejected = (''unstarted'', ''Todo'')"
| "to_linear_type Stale = (''unstarted'', ''Todo'')"
| "to_linear_type Queued = (''unstarted'', ''Todo'')"
| "to_linear_type Dispatched = (''started'', ''In Progress'')"
| "to_linear_type Verifying = (''started'', ''In Review'')"
| "to_linear_type PrOpen = (''started'', ''In Review'')"
| "to_linear_type Done = (''completed'', ''Done'')"
| "to_linear_type Blocked = (''backlog'', ''Backlog'')"
| "to_linear_type DeadLetter = (''canceled'', ''Dead Letter'')"

definition from_linear_type :: "string \<Rightarrow> string \<Rightarrow> bead_state" where
  "from_linear_type state_type state_name =
     (if state_type = ''completed'' then Done
      else if state_type = ''canceled'' then
        (let lowered = to_lowercase state_name
         in if contains_str lowered ''dead letter'' \<or> contains_str lowered ''dead_letter''
            then DeadLetter else Done)
      else if state_type = ''started'' then
        (if contains_str (to_lowercase state_name) ''review'' then Verifying else Dispatched)
      else if state_type = ''backlog'' then Backlog
      else if state_type = ''unstarted'' then Open
      else Open)"

fun state_display :: "bead_state \<Rightarrow> string" where
  "state_display Backlog = ''backlog''"
| "state_display Open = ''open''"
| "state_display Queued = ''queued''"
| "state_display Dispatched = ''dispatched''"
| "state_display Verifying = ''verifying''"
| "state_display PrOpen = ''pr_open''"
| "state_display Done = ''done''"
| "state_display Rejected = ''rejected''"
| "state_display Blocked = ''blocked''"
| "state_display Stale = ''stale''"
| "state_display DeadLetter = ''dead_letter''"

definition state_of_str :: "string \<Rightarrow> bead_state" where
  "state_of_str s =
     (if s = ''backlog'' then Backlog
      else if s = ''open'' then Open
      else if s = ''queued'' then Queued
      else if s = ''dispatched'' then Dispatched
      else if s = ''verifying'' then Verifying
      else if s = ''done'' \<or> s = ''closed'' then Done
      else if s = ''rejected'' then Rejected
      else if s = ''blocked'' then Blocked
      else if s = ''stale'' then Stale
      else if s = ''pr_open'' then PrOpen
      else if s = ''in_progress'' then Dispatched
      else if s = ''dead_letter'' \<or> s = ''deadletter'' then DeadLetter
      else Open)"

section \<open>Close conditions\<close>

definition requires_close_condition :: "string \<Rightarrow> bool" where
  "requires_close_condition issue_type \<longleftrightarrow>
     List.member [''bug'', ''feature'', ''task'', ''chore''] issue_type"

definition test_command_patterns :: "string list" where
  "test_command_patterns =
     [''cargo test'', ''cargo check'', ''cargo build'', ''pytest'', ''npm test'',
      ''npm run test'', ''pnpm test'', ''yarn test'', ''go test'', ''make test'',
      ''task test'', ''just test'']"

definition looks_like_test_command :: "string \<Rightarrow> bool" where
  "looks_like_test_command text =
     (let lower = to_lowercase text
      in list_ex (\<lambda>p. contains_str lower p) test_command_patterns)"

definition has_close_condition :: "string \<Rightarrow> string \<Rightarrow> string list \<Rightarrow> string \<Rightarrow> bool" where
  "has_close_condition issue_type description test_files acceptance_criteria \<longleftrightarrow>
     \<not> requires_close_condition issue_type
     \<or> trim acceptance_criteria \<noteq> []
     \<or> test_files \<noteq> []
     \<or> looks_like_test_command description"

text \<open>The dash of the default condition is U+2014, three bytes.\<close>

definition DEFAULT_PR_MERGE_CLOSE_CONDITION :: string where
  "DEFAULT_PR_MERGE_CLOSE_CONDITION =
     ''Resolved when the linked PR merges '' @ [CHR 0xE2, CHR 0x80, CHR 0x94]
     @ '' rosary'' @ [CHR 0x27] @ ''s default close signal ''
     @ ''(the GitHub merge webhook advances the bead). ''
     @ ''Set a specific acceptance_criteria to override.''"

definition merge_alone_satisfies_close :: "string \<Rightarrow> bool" where
  "merge_alone_satisfies_close acceptance_criteria =
     (let ac = trim acceptance_criteria in ac = [] \<or> ac = DEFAULT_PR_MERGE_CLOSE_CONDITION)"

definition resolve_acceptance_criteria ::
  "string \<Rightarrow> string \<Rightarrow> string list \<Rightarrow> string \<Rightarrow> bool \<Rightarrow> string" where
  "resolve_acceptance_criteria issue_type description test_files acceptance_criteria force =
     (if trim acceptance_criteria \<noteq> [] then acceptance_criteria
      else if force \<or> has_close_condition issue_type description test_files [] then []
      else DEFAULT_PR_MERGE_CLOSE_CONDITION)"

datatype close_error = NoCloseCondition string

definition ensure_close_condition ::
  "string \<Rightarrow> string \<Rightarrow> string list \<Rightarrow> string \<Rightarrow> bool \<Rightarrow> close_error + unit" where
  "ensure_close_condition issue_type description test_files acceptance_criteria force =
     (if force \<or> has_close_condition issue_type description test_files acceptance_criteria
      then Inr () else Inl (NoCloseCondition issue_type))"

section \<open>Issue types and work modes\<close>

definition VALID_ISSUE_TYPES :: "string list" where
  "VALID_ISSUE_TYPES =
     [''bug'', ''feature'', ''task'', ''chore'', ''review'', ''epic'', ''design'', ''research'']"

definition VALID_WORK_MODES :: "string list" where
  "VALID_WORK_MODES =
     [''implementation'', ''procedural'', ''investigation'', ''discovery'', ''synthesis'',
      ''adversarial'', ''audit'', ''validation'', ''architecture'', ''policy'', ''cleanup'',
      ''coordination'']"

definition is_valid_work_mode :: "string \<Rightarrow> bool" where
  "is_valid_work_mode work_mode = List.member VALID_WORK_MODES work_mode"

definition default_issue_type_for_work_mode :: "string \<Rightarrow> string option" where
  "default_issue_type_for_work_mode work_mode =
     (if work_mode = ''implementation'' then Some ''task''
      else if List.member [''procedural'', ''coordination'', ''cleanup''] work_mode then Some ''task''
      else if List.member [''investigation'', ''discovery'', ''synthesis''] work_mode
        then Some ''research''
      else if List.member [''adversarial'', ''audit'', ''validation''] work_mode then Some ''review''
      else if List.member [''architecture'', ''policy''] work_mode then Some ''design''
      else None)"

definition requires_files :: "string \<Rightarrow> bool" where
  "requires_files issue_type \<longleftrightarrow> \<not> List.member [''epic'', ''design'', ''research''] issue_type"

section \<open>The bead record\<close>

record bead =
  b_id :: string
  b_title :: string
  b_description :: string
  b_status :: string
  b_priority :: nat
  b_issue_type :: string
  b_owner :: "string option"
  b_repo :: string
  b_created_at :: int
  b_updated_at :: int
  b_dependency_count :: nat
  b_dependent_count :: nat
  b_comment_count :: nat
  b_branch :: "string option"
  b_pr_url :: "string option"
  b_jj_change_id :: "string option"
  b_external_ref :: "string option"
  b_files :: "string list"
  b_test_files :: "string list"
  b_created_by :: "string option"
  b_scope :: string
  b_derived_from :: "provenance_ref list"
  b_acceptance_criteria :: string

definition bead_state_of :: "bead \<Rightarrow> bead_state" where
  "bead_state_of b = state_of_str (b_status b)"

definition is_ready :: "bead \<Rightarrow> bool" where
  "is_ready b \<longleftrightarrow> b_status b = ''open'' \<and> b_dependency_count b = 0"

definition has_bounded_scope :: "bead \<Rightarrow> bool" where
  "has_bounded_scope b \<longleftrightarrow> \<not> requires_files (b_issue_type b) \<or> b_files b \<noteq> []"

definition is_blocked :: "bead \<Rightarrow> bool" where
  "is_blocked b \<longleftrightarrow>
     b_status b = ''blocked'' \<or> (b_status b = ''open'' \<and> b_dependency_count b > 0)"

definition needs_refinement :: "bead \<Rightarrow> bool" where
  "needs_refinement b \<longleftrightarrow>
     List.member [''bug'', ''feature'', ''task'', ''chore''] (b_issue_type b)
     \<and> length (trim (b_description b)) < 50"

definition is_dispatchable :: "bead \<Rightarrow> bool" where
  "is_dispatchable b \<longleftrightarrow>
     is_ready b
     \<and> has_close_condition (b_issue_type b) (b_description b) (b_test_files b)
         (b_acceptance_criteria b)
     \<and> has_bounded_scope b
     \<and> \<not> needs_refinement b"

definition has_verifiable_test_command :: "bead \<Rightarrow> bool" where
  "has_verifiable_test_command b =
     has_close_condition (b_issue_type b) (b_description b) (b_test_files b)
       (b_acceptance_criteria b)"

text \<open>What is hashed: identifier, title and description, each closed by a zero byte, then the
  priority as one byte.\<close>

definition generation_input :: "bead \<Rightarrow> string" where
  "generation_input b =
     b_id b @ [CHR 0x00] @ b_title b @ [CHR 0x00] @ b_description b @ [CHR 0x00]
     @ [char_of (b_priority b)]"

definition generation :: "(string \<Rightarrow> nat) \<Rightarrow> bead \<Rightarrow> nat" where
  "generation sha256_u64 b = sha256_u64 (generation_input b)"

record bead_update =
  u_title :: "string option"
  u_description :: "string option"
  u_priority :: "nat option"
  u_issue_type :: "string option"
  u_owner :: "string option"
  u_files :: "string list option"
  u_test_files :: "string list option"
  u_acceptance_criteria :: "string option"

definition update_is_empty :: "bead_update \<Rightarrow> bool" where
  "update_is_empty u \<longleftrightarrow>
     u_title u = None \<and> u_description u = None \<and> u_priority u = None \<and> u_issue_type u = None
     \<and> u_owner u = None \<and> u_files u = None \<and> u_test_files u = None
     \<and> u_acceptance_criteria u = None"

section \<open>Reading a bead from JSON\<close>

definition get_str :: "json \<Rightarrow> string \<Rightarrow> string option" where
  "get_str v k = Option.bind (json_get v k) as_str"

definition get_u32 :: "json \<Rightarrow> string \<Rightarrow> nat" where
  "get_u32 v k = (case Option.bind (json_get v k) as_u64 of None \<Rightarrow> 0 | Some n \<Rightarrow> n mod 2 ^ 32)"

definition get_strings :: "json \<Rightarrow> string \<Rightarrow> string list" where
  "get_strings v k =
     (case Option.bind (json_get v k) as_array of None \<Rightarrow> [] | Some xs \<Rightarrow> List.map_filter as_str xs)"

definition parse_datetime :: "(string \<Rightarrow> int option) \<Rightarrow> json option \<Rightarrow> int" where
  "parse_datetime parse_rfc3339 v =
     (case Option.bind (Option.bind v as_str) parse_rfc3339 of None \<Rightarrow> 0 | Some t \<Rightarrow> t)"

definition bead_from_json :: "(string \<Rightarrow> int option) \<Rightarrow> json \<Rightarrow> string \<Rightarrow> bead option" where
  "bead_from_json parse_rfc3339 v repo =
     (case (get_str v ''id'', get_str v ''title'', get_str v ''status'',
            Option.bind (json_get v ''priority'') as_u64) of
        (Some i, Some t, Some s, Some p) \<Rightarrow>
          Some \<lparr> b_id = i, b_title = t,
                 b_description = (case get_str v ''description'' of None \<Rightarrow> [] | Some d \<Rightarrow> d),
                 b_status = s,
                 b_priority = p mod 256,
                 b_issue_type = (case get_str v ''issue_type'' of None \<Rightarrow> ''task'' | Some y \<Rightarrow> y),
                 b_owner = get_str v ''owner'',
                 b_repo = repo,
                 b_created_at = parse_datetime parse_rfc3339 (json_get v ''created_at''),
                 b_updated_at = parse_datetime parse_rfc3339 (json_get v ''updated_at''),
                 b_dependency_count = get_u32 v ''dependency_count'',
                 b_dependent_count = get_u32 v ''dependent_count'',
                 b_comment_count = get_u32 v ''comment_count'',
                 b_branch = get_str v ''branch'',
                 b_pr_url = get_str v ''pr_url'',
                 b_jj_change_id = get_str v ''jj_change_id'',
                 b_external_ref = get_str v ''external_ref'',
                 b_files = get_strings v ''files'',
                 b_test_files = get_strings v ''test_files'',
                 b_created_by = None,
                 b_scope = [],
                 b_derived_from = [],
                 b_acceptance_criteria =
                   (case get_str v ''acceptance_criteria'' of None \<Rightarrow> [] | Some a \<Rightarrow> a) \<rparr>
      | _ \<Rightarrow> None)"

section \<open>Runs of the lifecycle\<close>

text \<open>\<open>lifecycle_run s us t\<close>: the transition system takes \<open>s\<close> to \<open>t\<close>, and \<open>us\<close> are the states
  entered on the way, \<open>t\<close> included.\<close>

inductive lifecycle_run :: "bead_state \<Rightarrow> bead_state list \<Rightarrow> bead_state \<Rightarrow> bool" where
  run_stop: "lifecycle_run s [] s"
| run_step: "can_transition_to s u \<Longrightarrow> lifecycle_run u us t \<Longrightarrow> lifecycle_run s (u # us) t"

inductive_cases run_NilE: "lifecycle_run s [] t"
inductive_cases run_ConsE: "lifecycle_run s (u # us) t"

lemma run_append:
  "lifecycle_run s us t \<Longrightarrow> lifecycle_run t vs v \<Longrightarrow> lifecycle_run s (us @ vs) v"
  by (induction rule: lifecycle_run.induct) (auto intro: lifecycle_run.intros)

lemma run_one: "can_transition_to s t \<Longrightarrow> lifecycle_run s [t] t"
  by (intro lifecycle_run.intros)

definition unfinished :: "bead_state \<Rightarrow> bool" where
  "unfinished s \<longleftrightarrow> s \<noteq> Done \<and> s \<noteq> PrOpen \<and> s \<noteq> Verifying \<and> s \<noteq> DeadLetter"

lemma unfinished_step:
  "unfinished s \<Longrightarrow> can_transition_to s t \<Longrightarrow> t \<noteq> Verifying \<Longrightarrow> t \<noteq> DeadLetter \<Longrightarrow> unfinished t"
  by (cases s) (auto simp: unfinished_def can_transition_to_def)

lemma run_unfinished:
  "lifecycle_run s us t \<Longrightarrow> unfinished s \<Longrightarrow> Verifying \<notin> set us \<Longrightarrow> DeadLetter \<notin> set us \<Longrightarrow>
   unfinished t"
  by (induction rule: lifecycle_run.induct) (auto intro: unfinished_step)

lemma run_to_Done: "\<exists>us. lifecycle_run s us Done"
proof -
  have dl: "lifecycle_run DeadLetter [Done] Done"
    by (rule run_one) (simp add: can_transition_to_def)
  have disp: "lifecycle_run Dispatched [DeadLetter, Done] Done"
    by (rule run_step [OF _ dl]) (simp add: can_transition_to_def)
  have op: "lifecycle_run Open [Dispatched, DeadLetter, Done] Done"
    by (rule run_step [OF _ disp]) (simp add: can_transition_to_def)
  show ?thesis
  proof (cases s)
    case Done
    then show ?thesis by (auto intro: run_stop)
  next
    case DeadLetter
    then show ?thesis using dl by blast
  next
    case Dispatched
    then show ?thesis using disp by blast
  next
    case Open
    then show ?thesis using op by blast
  next
    case Queued
    then show ?thesis using run_step [OF _ disp, of Queued] by (auto simp: can_transition_to_def)
  next
    case PrOpen
    then show ?thesis using run_one [of PrOpen Done] by (auto simp: can_transition_to_def)
  next
    case Verifying
    then show ?thesis using run_one [of Verifying Done] by (auto simp: can_transition_to_def)
  next
    case Backlog
    then show ?thesis using run_step [OF _ op, of Backlog] by (auto simp: can_transition_to_def)
  next
    case Rejected
    then show ?thesis using run_step [OF _ op, of Rejected] by (auto simp: can_transition_to_def)
  next
    case Blocked
    then show ?thesis using run_step [OF _ op, of Blocked] by (auto simp: can_transition_to_def)
  next
    case Stale
    then show ?thesis using run_step [OF _ op, of Stale] by (auto simp: can_transition_to_def)
  qed
qed

lemma run_from_Done: "lifecycle_run Done us t \<Longrightarrow> us = [] \<and> t = Done"
  by (erule lifecycle_run.cases) (auto simp: can_transition_to_def)

text \<open>
  C23. No bead is stuck and none is finished without being checked: every state of the lifecycle
  can reach \<open>Done\<close>, \<open>Done\<close> is the only terminal state (nothing leaves it), and a run from the
  states an unworked bead has (backlog, open, queued, dispatched, rejected, blocked, stale) reaches
  \<open>Done\<close> or \<open>PrOpen\<close> only through \<open>Verifying\<close> or \<open>DeadLetter\<close>.
\<close>

theorem lifecycle_completes_through_verification:
  "(\<exists>us. lifecycle_run s us Done)
   \<and> (is_terminal s \<longleftrightarrow> s = Done)
   \<and> (lifecycle_run Done us t \<longrightarrow> us = [] \<and> t = Done)
   \<and> (List.member [Backlog, Open, Queued, Dispatched, Rejected, Blocked, Stale] s \<longrightarrow>
      lifecycle_run s us t \<longrightarrow> t = Done \<or> t = PrOpen \<longrightarrow>
      Verifying \<in> set us \<or> DeadLetter \<in> set us)"
proof (intro conjI impI)
  show "\<exists>us. lifecycle_run s us Done" by (rule run_to_Done)
  show "is_terminal s \<longleftrightarrow> s = Done" by (cases s) (auto simp: is_terminal_def)
  show "us = []" "t = Done" if "lifecycle_run Done us t" using run_from_Done [OF that] by auto
next
  assume "List.member [Backlog, Open, Queued, Dispatched, Rejected, Blocked, Stale] s"
    and r: "lifecycle_run s us t" and t: "t = Done \<or> t = PrOpen"
  then have "unfinished s" by (auto simp: unfinished_def)
  then show "Verifying \<in> set us \<or> DeadLetter \<in> set us"
    using run_unfinished [OF r] t by (auto simp: unfinished_def)
qed

theorem lifecycle_completes_through_verification_witness:
  "lifecycle_run Open [Dispatched, Verifying, Done] Done
   \<and> (Verifying \<in> set [Dispatched, Verifying, Done] \<or> DeadLetter \<in> set [Dispatched, Verifying, Done])
   \<and> [] = ([] :: bead_state list)"
proof -
  have "lifecycle_run Open [Dispatched, Verifying, Done] Done"
    by (intro lifecycle_run.intros) (simp_all add: can_transition_to_def)
  then show ?thesis
    using lifecycle_completes_through_verification [of Open "[Dispatched, Verifying, Done]" Done]
      lifecycle_completes_through_verification [of Done "[]" Done] run_stop [of Done]
    by simp
qed

section \<open>States as text and as Linear states\<close>

text \<open>
  Writing a state and reading it back gives the state, so the stored text never loses one;
  pushing a state to Linear and reading the Linear state back is idempotent after the first trip,
  keeps a finished bead finished and a dead letter a dead letter, and changes exactly the states
  that Linear does not tell apart (queued, rejected and stale come back open, blocked comes back
  as backlog, an open pull request as verifying).
\<close>

theorem state_text_and_linear_roundtrip:
  "state_of_str (state_display s) = s
   \<and> (let back = (\<lambda>x. case to_linear_type x of (ty, nm) \<Rightarrow> from_linear_type ty nm)
      in back (back s) = back s
         \<and> (back s = Done \<longleftrightarrow> s = Done) \<and> (back s = DeadLetter \<longleftrightarrow> s = DeadLetter)
         \<and> (back s = s \<longleftrightarrow> List.member [Backlog, Open, Dispatched, Verifying, Done, DeadLetter] s)
         \<and> (List.member [Queued, Rejected, Stale] s \<longrightarrow> back s = Open)
         \<and> (s = Blocked \<longrightarrow> back s = Backlog) \<and> (s = PrOpen \<longrightarrow> back s = Verifying))"
  by (cases s)
    (simp_all add: state_of_str_def from_linear_type_def to_lowercase_def lower_char_def
      starts_with_def char_of_def bit_simps)

theorem state_text_and_linear_roundtrip_witness:
  "(case to_linear_type Blocked of (ty, nm) \<Rightarrow> from_linear_type ty nm) = Backlog
   \<and> (case to_linear_type PrOpen of (ty, nm) \<Rightarrow> from_linear_type ty nm) = Verifying
   \<and> (case to_linear_type Queued of (ty, nm) \<Rightarrow> from_linear_type ty nm) = Open"
  using state_text_and_linear_roundtrip [of Blocked] state_text_and_linear_roundtrip [of PrOpen]
    state_text_and_linear_roundtrip [of Queued]
  by (simp add: Let_def)

section \<open>Authoring always gives a close condition\<close>

lemma trim_default: "trim DEFAULT_PR_MERGE_CLOSE_CONDITION = DEFAULT_PR_MERGE_CLOSE_CONDITION"
  by (simp add: trim_def trim_start_def DEFAULT_PR_MERGE_CLOSE_CONDITION_def is_whitespace_def)

text \<open>
  A bead authored without \<open>force\<close> can always be closed: whatever the type, description, test
  files and criteria given, the criteria that are stored make the close-condition gate and the
  dispatch guard pass; an explicit condition is stored as given; and a merged pull request by
  itself closes the bead exactly when no explicit condition other than the default was given.
\<close>

theorem authoring_gives_close_condition:
  defines "stored ty d tf ac f \<equiv> resolve_acceptance_criteria ty d tf ac f"
  shows "has_close_condition ty d tf (stored ty d tf ac False)
    \<and> ensure_close_condition ty d tf (stored ty d tf ac False) False = Inr ()
    \<and> (trim ac \<noteq> [] \<longrightarrow> stored ty d tf ac f = ac)
    \<and> (merge_alone_satisfies_close (stored ty d tf ac f) \<longleftrightarrow>
        trim ac = [] \<or> trim ac = DEFAULT_PR_MERGE_CLOSE_CONDITION)"
proof -
  have ne: "DEFAULT_PR_MERGE_CLOSE_CONDITION \<noteq> []" by (simp add: DEFAULT_PR_MERGE_CLOSE_CONDITION_def)
  have nil: "trim [] = []" by (simp add: trim_def trim_start_def)
  have hc: "has_close_condition ty d tf (stored ty d tf ac False)"
    using ne trim_default
    by (auto simp: stored_def resolve_acceptance_criteria_def has_close_condition_def nil)
  then show ?thesis
    using ne trim_default
    by (auto simp: stored_def resolve_acceptance_criteria_def ensure_close_condition_def
        merge_alone_satisfies_close_def nil)
qed

theorem authoring_gives_close_condition_witness:
  "resolve_acceptance_criteria ''task'' [] [] ''cargo test -p foo'' False = ''cargo test -p foo''"
proof -
  have "trim ''cargo test -p foo'' \<noteq> []" by (simp add: trim_def trim_start_def is_whitespace_def)
  then show ?thesis using authoring_gives_close_condition [of "''task''" "[]" "[]"] by blast
qed

section \<open>Dispatchable beads\<close>

lemma ready_facts: "is_ready b \<Longrightarrow> bead_state_of b = Open \<and> \<not> is_blocked b"
  by (simp add: is_ready_def bead_state_of_def state_of_str_def is_blocked_def)

text \<open>
  Dispatchable is stronger than ready: a dispatchable bead is open in the lifecycle (so it may
  move to \<open>Dispatched\<close>), is not blocked, passes the dispatch guard without \<open>force\<close>, and, when it is
  an implementation bead, declares files and has a description of at least 50 bytes and a
  verifiable way to close.
\<close>

theorem dispatchable_is_safe:
  assumes "is_dispatchable b"
  shows "is_ready b \<and> bead_state_of b = Open \<and> can_transition_to (bead_state_of b) Dispatched
    \<and> \<not> is_blocked b
    \<and> ensure_close_condition (b_issue_type b) (b_description b) (b_test_files b)
        (b_acceptance_criteria b) False = Inr ()
    \<and> (requires_close_condition (b_issue_type b) \<longrightarrow>
        b_files b \<noteq> [] \<and> 50 \<le> length (trim (b_description b)) \<and> has_verifiable_test_command b)"
proof -
  have r: "is_ready b" using assms by (simp add: is_dispatchable_def)
  have files: "b_files b \<noteq> []" if "requires_close_condition (b_issue_type b)"
    using assms that
    by (auto simp: is_dispatchable_def has_bounded_scope_def requires_files_def
        requires_close_condition_def)
  have len: "50 \<le> length (trim (b_description b))" if "requires_close_condition (b_issue_type b)"
    using assms that
    by (auto simp: is_dispatchable_def needs_refinement_def requires_close_condition_def)
  show ?thesis
    using r ready_facts [OF r] files len assms
    by (simp add: can_transition_to_def ensure_close_condition_def is_dispatchable_def
        has_verifiable_test_command_def)
qed

definition sample_bead :: bead where
  "sample_bead =
     \<lparr> b_id = ''rsry-1'', b_title = ''Fix login'',
       b_description = ''The login handler drops the session cookie after a redirect.'',
       b_status = ''open'', b_priority = 1, b_issue_type = ''bug'', b_owner = None,
       b_repo = ''app'', b_created_at = 0, b_updated_at = 0, b_dependency_count = 0,
       b_dependent_count = 0, b_comment_count = 0, b_branch = None, b_pr_url = None,
       b_jj_change_id = None, b_external_ref = None, b_files = [''src/auth.rs''],
       b_test_files = [], b_created_by = None, b_scope = [],
       b_derived_from = [], b_acceptance_criteria = ''cargo test'' \<rparr>"

lemma sample_dispatchable: "is_dispatchable sample_bead"
  by (simp add: sample_bead_def is_dispatchable_def is_ready_def has_close_condition_def
      has_bounded_scope_def needs_refinement_def trim_def trim_start_def is_whitespace_def)

theorem dispatchable_is_safe_witness:
  "is_dispatchable sample_bead \<and> can_transition_to (bead_state_of sample_bead) Dispatched"
  using sample_dispatchable dispatchable_is_safe [OF sample_dispatchable] by blast

section \<open>Generation and JSON\<close>

lemma generation_input_inj:
  assumes nul: "CHR 0x00 \<notin> set (b_id a @ b_title a @ b_description a)"
      "CHR 0x00 \<notin> set (b_id b @ b_title b @ b_description b)"
    and eq: "generation_input a = generation_input b"
  shows "b_id a = b_id b \<and> b_title a = b_title b \<and> b_description a = b_description b
    \<and> b_priority a mod 256 = b_priority b mod 256"
proof -
  have split: "x = y \<and> r = s" if "x @ CHR 0x00 # r = y @ CHR 0x00 # s"
    "CHR 0x00 \<notin> set x" "CHR 0x00 \<notin> set y" for x y r s :: string
    using that by (metis split_once_Some option.inject prod.inject)
  from eq have e: "b_id a @ CHR 0x00 # (b_title a @ CHR 0x00 # (b_description a @ CHR 0x00 #
      [char_of (b_priority a)])) = b_id b @ CHR 0x00 # (b_title b @ CHR 0x00 #
      (b_description b @ CHR 0x00 # [char_of (b_priority b)]))"
    by (simp add: generation_input_def)
  have i: "b_id a = b_id b" and e1: "b_title a @ CHR 0x00 # (b_description a @ CHR 0x00 #
      [char_of (b_priority a)]) = b_title b @ CHR 0x00 # (b_description b @ CHR 0x00 #
      [char_of (b_priority b)])"
    using split [OF e] nul by auto
  have t: "b_title a = b_title b" and e2: "b_description a @ CHR 0x00 # [char_of (b_priority a)]
      = b_description b @ CHR 0x00 # [char_of (b_priority b)]"
    using split [OF e1] nul by auto
  have d: "b_description a = b_description b"
    and p: "[char_of (b_priority a)] = [char_of (b_priority b) :: char]"
    using split [OF e2] nul by auto
  have "(of_char (char_of (b_priority a)) :: nat) = of_char (char_of (b_priority b))"
    using p by simp
  then show ?thesis using i t d by simp
qed

text \<open>
  The generation is the hash of exactly the semantic content: two beads with NUL-free texts
  feed the hash the same bytes if and only if identifier, title, description and priority (a byte)
  agree, so nothing else (status, times, counters, files) can trigger a new dispatch, and a change
  of these four does, unless the hash happens to collide on the two contents.
\<close>

theorem generation_tracks_semantic_content:
  assumes "CHR 0x00 \<notin> set (b_id a @ b_title a @ b_description a)"
    and "CHR 0x00 \<notin> set (b_id b @ b_title b @ b_description b)"
    and "b_priority a < 256" and "b_priority b < 256"
    and "inj_on h {generation_input a, generation_input b}"
  shows "generation h a = generation h b \<longleftrightarrow>
    b_id a = b_id b \<and> b_title a = b_title b \<and> b_description a = b_description b
    \<and> b_priority a = b_priority b"
proof
  assume "generation h a = generation h b"
  then have "generation_input a = generation_input b"
    using assms(5) by (auto simp: generation_def dest: inj_onD)
  then show "b_id a = b_id b \<and> b_title a = b_title b \<and> b_description a = b_description b
    \<and> b_priority a = b_priority b"
    using generation_input_inj [of a b] assms by simp
next
  assume "b_id a = b_id b \<and> b_title a = b_title b \<and> b_description a = b_description b
    \<and> b_priority a = b_priority b"
  then show "generation h a = generation h b" by (simp add: generation_def generation_input_def)
qed

theorem generation_tracks_semantic_content_witness:
  "generation to_nat sample_bead = generation to_nat (sample_bead\<lparr>b_status := ''done''\<rparr>)
   \<and> generation to_nat sample_bead \<noteq> generation to_nat (sample_bead\<lparr>b_priority := 0\<rparr>)"
proof -
  have n: "CHR 0x00 \<notin> set (b_id sample_bead @ b_title sample_bead @ b_description sample_bead)"
    by (simp add: sample_bead_def)
  have p: "b_priority sample_bead < 256" by (simp add: sample_bead_def)
  have i: "inj_on (to_nat :: string \<Rightarrow> nat) X" for X by (rule inj_on_subset [OF inj_to_nat subset_UNIV])
  have s: "generation to_nat sample_bead = generation to_nat (sample_bead\<lparr>b_status := ''done''\<rparr>)"
    by (rule generation_tracks_semantic_content [OF n _ p _ i, THEN iffD2]) (use n p in simp_all)
  have d: "generation to_nat sample_bead \<noteq> generation to_nat (sample_bead\<lparr>b_priority := 0\<rparr>)"
    by (subst generation_tracks_semantic_content [OF n _ p _ i])
      (use n in \<open>simp_all add: sample_bead_def\<close>)
  from s d show ?thesis ..
qed

lemma bead_from_json_Some:
  "bead_from_json pr v repo = Some b \<Longrightarrow>
   get_str v ''id'' = Some (b_id b) \<and> get_str v ''title'' = Some (b_title b)
   \<and> get_str v ''status'' = Some (b_status b)
   \<and> (\<exists>p. Option.bind (json_get v ''priority'') as_u64 = Some p \<and> b_priority b = p mod 256)
   \<and> b_repo b = repo"
  by (auto simp: bead_from_json_def split: option.splits)

text \<open>
  A bead read from JSON has its identifier, title, status and priority from the record, and a
  record that lacks one of them, or has one of the wrong type, gives no bead. The priority is cut
  to its low byte, not checked: a record with priority 256 becomes a bead of the highest urgency.
\<close>

theorem bead_from_json_required:
  "(bead_from_json pr v repo = None \<longleftrightarrow>
      get_str v ''id'' = None \<or> get_str v ''title'' = None \<or> get_str v ''status'' = None
      \<or> Option.bind (json_get v ''priority'') as_u64 = None)
   \<and> map_option b_priority (bead_from_json pr
        (JObj [(''id'', JStr ''x''), (''priority'', JNum 256), (''status'', JStr ''open''),
               (''title'', JStr ''t'')]) repo) = Some 0"
  by (auto simp: bead_from_json_def get_str_def split: option.splits)

end
