(* ===== verification/Store_Types.thy ===== *)
theory Store_Types
  imports Bead_Model
begin

text \<open>
  The data the backend stores exchange with the orchestrator (\<open>src/store.rs\<close>): references to work,
  the persistent pipeline state, dispatch records, run events and cross-repository dependencies with
  their evidence tiers; and the verdicts of agent runs with the status derived from them
  (\<open>src/dolt/observations.rs\<close>). The store traits themselves are interfaces to databases; what the
  model uses of them are parameters of the operations and the effects they list.
\<close>

section \<open>Work references\<close>

datatype work_ref = WorkRef (wr_repo: string) (wr_scope: string) (wr_bead_id: string)

definition wr_key :: "work_ref \<Rightarrow> string \<times> string \<times> string" where
  "wr_key w = (wr_repo w, wr_scope w, wr_bead_id w)"

lemma wr_key_inj: "wr_key v = wr_key w \<longleftrightarrow> v = w"
  by (cases v; cases w) (auto simp: wr_key_def)

instantiation work_ref :: linorder
begin

definition less_eq_work_ref :: "work_ref \<Rightarrow> work_ref \<Rightarrow> bool" where
  "less_eq_work_ref v w \<longleftrightarrow> wr_key v \<le> wr_key w"

definition less_work_ref :: "work_ref \<Rightarrow> work_ref \<Rightarrow> bool" where
  "less_work_ref v w \<longleftrightarrow> wr_key v < wr_key w"

instance
proof
  fix x y z :: work_ref
  show "(x < y) = (x \<le> y \<and> \<not> y \<le> x)"
    by (simp only: less_eq_work_ref_def less_work_ref_def less_le_not_le)
  show "x \<le> x" by (simp add: less_eq_work_ref_def)
  show "x \<le> y \<Longrightarrow> y \<le> z \<Longrightarrow> x \<le> z" unfolding less_eq_work_ref_def by (rule order_trans)
  show "x \<le> y \<Longrightarrow> y \<le> x \<Longrightarrow> x = y"
    unfolding less_eq_work_ref_def by (metis antisym wr_key_inj)
  show "x \<le> y \<or> y \<le> x" unfolding less_eq_work_ref_def by (rule linear)
qed

end

section \<open>Pipeline state, dispatches and run events\<close>

record pipeline_state =
  ps_bead_ref :: work_ref
  ps_pipeline_phase :: nat
  ps_pipeline_agent :: string
  ps_phase_status :: string
  ps_retries :: nat
  ps_consecutive_reverts :: nat
  ps_highest_verify_tier :: "nat option"
  ps_last_generation :: nat
  ps_backoff_until :: "int option"

record agent_run_event =
  re_id :: string
  re_dispatch_id :: string
  re_bead_ref :: work_ref
  re_session_ref :: "(string \<times> string) option"
  re_event_type :: string
  re_summary :: string
  re_payload :: json
  re_created_at :: int

section \<open>Evidence tiers of cross-repository dependencies\<close>

datatype evidence_tier = Conjectured | Derived | Asserted

definition blocks_dispatch :: "evidence_tier \<Rightarrow> bool" where
  "blocks_dispatch t \<longleftrightarrow> t = Asserted \<or> t = Derived"

fun tier_as_str :: "evidence_tier \<Rightarrow> string" where
  "tier_as_str Asserted = ''asserted''"
| "tier_as_str Derived = ''derived''"
| "tier_as_str Conjectured = ''conjectured''"

definition tier_from_str :: "string \<Rightarrow> string + evidence_tier" where
  "tier_from_str s =
     (if s = ''asserted'' then Inr Asserted
      else if s = ''derived'' then Inr Derived
      else if s = ''conjectured'' then Inr Conjectured
      else Inl (''unknown evidence tier: '' @ s))"

record cross_repo_dep =
  cd_from :: work_ref
  cd_to :: work_ref
  cd_dep_type :: string
  cd_evidence_tier :: evidence_tier
  cd_source :: string
  cd_observed_at :: int

lemma tier_roundtrip: "tier_from_str (tier_as_str t) = Inr t"
  by (cases t) (simp_all add: tier_from_str_def)

lemma tier_from_str_Inr: "tier_from_str s = Inr t \<longleftrightarrow> s = tier_as_str t"
  by (cases t) (auto simp: tier_from_str_def)

section \<open>Verdicts and the status derived from them\<close>

datatype verdict =
    VDispatched | VVerifying | VPass | VFail | VPrOpen | VDone | VDeadletter

fun lattice_rank :: "verdict \<Rightarrow> nat option" where
  "lattice_rank VDispatched = Some 1"
| "lattice_rank VVerifying = Some 2"
| "lattice_rank VPass = Some 3"
| "lattice_rank VPrOpen = Some 4"
| "lattice_rank VDone = Some 5"
| "lattice_rank VFail = None"
| "lattice_rank VDeadletter = None"

fun verdict_as_str :: "verdict \<Rightarrow> string" where
  "verdict_as_str VDispatched = ''dispatched''"
| "verdict_as_str VVerifying = ''verifying''"
| "verdict_as_str VPass = ''pass''"
| "verdict_as_str VFail = ''fail''"
| "verdict_as_str VPrOpen = ''pr_open''"
| "verdict_as_str VDone = ''done''"
| "verdict_as_str VDeadletter = ''deadletter''"

definition verdict_from_str :: "string \<Rightarrow> verdict" where
  "verdict_from_str s =
     (if s = ''dispatched'' then VDispatched
      else if s = ''verifying'' then VVerifying
      else if s = ''pass'' then VPass
      else if s = ''fail'' then VFail
      else if s = ''pr_open'' then VPrOpen
      else if s = ''done'' then VDone
      else if s = ''deadletter'' then VDeadletter
      else VDispatched)"

record agent_observation =
  ao_bead_id :: string
  ao_agent :: string
  ao_phase :: nat
  ao_verdict :: verdict
  ao_detail :: string
  ao_content_hash :: string
  ao_created_at :: int

record derived_status =
  ds_status :: string
  ds_observation_count :: nat
  ds_is_deadlettered :: bool
  ds_last_observed :: "int option"

text \<open>\<open>Iterator::max_by_key\<close>: of several greatest elements the last one is returned.\<close>

fun max_by_key :: "('a \<Rightarrow> 'k::linorder) \<Rightarrow> 'a list \<Rightarrow> 'a option" where
  "max_by_key k [] = None"
| "max_by_key k (x # xs) =
     (case max_by_key k xs of
        None \<Rightarrow> Some x
      | Some y \<Rightarrow> if k y < k x then Some x else Some y)"

definition ranked_verdicts :: "agent_observation list \<Rightarrow> (nat \<times> verdict) list" where
  "ranked_verdicts os =
     List.map_filter (\<lambda>o1. case lattice_rank (ao_verdict o1) of
        None \<Rightarrow> None | Some r \<Rightarrow> Some (r, ao_verdict o1)) os"

text \<open>\<open>derive_status\<close> on the observations in the order the store returns them (oldest first).\<close>

definition derive_status :: "agent_observation list \<Rightarrow> derived_status" where
  "derive_status os =
     (if os = [] then
        \<lparr> ds_status = ''open'', ds_observation_count = 0, ds_is_deadlettered = False,
          ds_last_observed = None \<rparr>
      else
        (let dead = list_ex (\<lambda>o1. ao_verdict o1 = VDeadletter) os;
             max_verdict = map_option snd (max_by_key fst (ranked_verdicts os))
         in \<lparr> ds_status = (if dead then ''blocked''
                else case max_verdict of None \<Rightarrow> ''open'' | Some v \<Rightarrow> verdict_as_str v),
              ds_observation_count = length os, ds_is_deadlettered = dead,
              ds_last_observed = Some (ao_created_at (last os)) \<rparr>))"

lemma verdict_roundtrip: "verdict_from_str (verdict_as_str v) = v"
  by (cases v) (simp_all add: verdict_from_str_def)

lemma verdict_as_str_inj: "verdict_as_str v = verdict_as_str w \<longleftrightarrow> v = w"
  by (metis verdict_roundtrip)

lemma lattice_rank_inj: "lattice_rank v = Some r \<Longrightarrow> lattice_rank w = Some r \<Longrightarrow> v = w"
  by (cases v; cases w) auto

lemma max_by_key_None [simp]: "max_by_key k xs = None \<longleftrightarrow> xs = []"
  by (cases xs) (auto split: option.splits)

lemma max_by_key_Some:
  "max_by_key k xs = Some y \<Longrightarrow> y \<in> set xs \<and> (\<forall>x \<in> set xs. k x \<le> k y)"
  by (induction xs arbitrary: y) (fastforce split: option.splits if_splits)+

lemma max_by_key_inj:
  assumes "inj_on k (set xs)" "set xs = set ys"
  shows "max_by_key k xs = max_by_key k ys"
proof (cases "xs = []")
  case True
  then show ?thesis using assms(2) by simp
next
  case False
  then have "ys \<noteq> []" using assms(2) by auto
  then obtain x y where xy: "max_by_key k xs = Some x" "max_by_key k ys = Some y"
    using False by (meson max_by_key_None not_Some_eq)
  then have "k x = k y"
    using max_by_key_Some [OF xy(1)] max_by_key_Some [OF xy(2)] assms(2) by (auto intro: antisym)
  then have "x = y"
    using max_by_key_Some [OF xy(1)] max_by_key_Some [OF xy(2)] assms by (metis inj_onD)
  then show ?thesis using xy by simp
qed

lemma ranked_verdicts_set:
  "set (ranked_verdicts os) =
     {(r, v). v \<in> ao_verdict ` set os \<and> lattice_rank v = Some r}"
proof (rule set_eqI)
  fix e :: "nat \<times> verdict"
  show "e \<in> set (ranked_verdicts os) \<longleftrightarrow>
      e \<in> {(r, v). v \<in> ao_verdict ` set os \<and> lattice_rank v = Some r}"
    by (cases e) (force simp: ranked_verdicts_def map_simps image_iff split: option.splits)
qed

lemma ranked_inj: "inj_on fst (set (ranked_verdicts os))"
  by (auto simp: inj_on_def ranked_verdicts_set dest: lattice_rank_inj)

text \<open>
  The status derived from a bead's observations is a join: it depends only on the set of verdicts
  seen, not on their order or repetition; one dead-letter verdict blocks the bead whatever else was
  seen; otherwise the furthest stage reached decides, and failures never move it back.
\<close>

theorem derived_status_is_join:
  "(ao_verdict ` set os = ao_verdict ` set os' \<longrightarrow>
      ds_status (derive_status os) = ds_status (derive_status os'))
   \<and> (VDeadletter \<in> ao_verdict ` set os \<longleftrightarrow> ds_status (derive_status os) = ''blocked'')
   \<and> (VDeadletter \<notin> ao_verdict ` set os \<longrightarrow> v \<in> ao_verdict ` set os \<longrightarrow> lattice_rank v = Some r \<longrightarrow>
        (\<exists>w s. w \<in> ao_verdict ` set os \<and> lattice_rank w = Some s \<and> r \<le> s
           \<and> ds_status (derive_status os) = verdict_as_str w))
   \<and> (VDeadletter \<notin> ao_verdict ` set os \<longrightarrow>
        ds_status (derive_status (os @ [o1\<lparr> ao_verdict := VFail \<rparr>]))
          = ds_status (derive_status os))"
proof -
  let ?D = "\<lambda>os. VDeadletter \<in> ao_verdict ` set os"
  have st: "ds_status (derive_status os) =
      (if ?D os then ''blocked''
       else case max_by_key fst (ranked_verdicts os) of None \<Rightarrow> ''open'' | Some e \<Rightarrow> verdict_as_str (snd e))"
    for os
  proof (cases "os = []")
    case True
    then show ?thesis by (simp add: derive_status_def ranked_verdicts_def List.map_filter_def)
  next
    case False
    have "list_ex (\<lambda>o1. ao_verdict o1 = VDeadletter) os \<longleftrightarrow> ?D os"
      unfolding list_ex_iff image_iff by metis
    then show ?thesis using False by (simp add: derive_status_def split: option.splits)
  qed
  have perm: "ds_status (derive_status os) = ds_status (derive_status os')"
    if "ao_verdict ` set os = ao_verdict ` set os'" for os os'
  proof -
    have "set (ranked_verdicts os) = set (ranked_verdicts os')"
      using that by (simp add: ranked_verdicts_set)
    then have "max_by_key fst (ranked_verdicts os) = max_by_key fst (ranked_verdicts os')"
      using ranked_inj by (intro max_by_key_inj)
    then show ?thesis using that by (simp add: st)
  qed
  have no_blocked: "verdict_as_str w \<noteq> ''blocked''" for w by (cases w) simp_all
  have furthest: "\<exists>w s. w \<in> ao_verdict ` set os \<and> lattice_rank w = Some s \<and> r \<le> s
           \<and> ds_status (derive_status os) = verdict_as_str w"
    if "\<not> ?D os" "v \<in> ao_verdict ` set os" "lattice_rank v = Some r"
  proof -
    have mem: "(r, v) \<in> set (ranked_verdicts os)" using that by (simp add: ranked_verdicts_set)
    then obtain e where e: "max_by_key fst (ranked_verdicts os) = Some e"
      by (metis max_by_key_None list.set(1) empty_iff not_Some_eq)
    then show ?thesis
      using max_by_key_Some [OF e] mem that(1)
      by (intro exI [of _ "snd e"] exI [of _ "fst e"]) (force simp: st ranked_verdicts_set)
  qed
  have "ranked_verdicts (os @ [o1\<lparr> ao_verdict := VFail \<rparr>]) = ranked_verdicts os"
    by (simp add: ranked_verdicts_def List.map_filter_def)
  then have fail: "ds_status (derive_status (os @ [o1\<lparr> ao_verdict := VFail \<rparr>]))
          = ds_status (derive_status os)" if "\<not> ?D os"
    using that by (simp add: st)
  have blocked: "?D os \<longleftrightarrow> ds_status (derive_status os) = ''blocked''"
    using no_blocked by (simp add: st split: option.splits)
  show ?thesis
    using perm [of os os'] blocked furthest fail by (intro conjI impI)
qed

definition run_seen :: "verdict \<Rightarrow> int \<Rightarrow> agent_observation" where
  "run_seen v t = \<lparr> ao_bead_id = ''b'', ao_agent = ''dev-agent'', ao_phase = 0, ao_verdict = v,
     ao_detail = [], ao_content_hash = [], ao_created_at = t \<rparr>"

theorem derived_status_is_join_witness:
  "ds_status (derive_status [run_seen VPrOpen 1, run_seen VDispatched 2])
     = ds_status (derive_status [run_seen VDispatched 2, run_seen VPrOpen 1])
   \<and> ds_status (derive_status ([run_seen VPrOpen 1, run_seen VDispatched 2] @ [(run_seen VPass 3)\<lparr> ao_verdict := VFail \<rparr>]))
       = ds_status (derive_status [run_seen VPrOpen 1, run_seen VDispatched 2])"
proof -
  have s: "ao_verdict ` set [run_seen VPrOpen 1, run_seen VDispatched 2] = {VPrOpen, VDispatched}"
    "ao_verdict ` set [run_seen VDispatched 2, run_seen VPrOpen 1] = {VPrOpen, VDispatched}"
    by (auto simp: run_seen_def)
  show ?thesis
    using derived_status_is_join [of "[run_seen VPrOpen 1, run_seen VDispatched 2]"
        "[run_seen VDispatched 2, run_seen VPrOpen 1]" VPrOpen 4 "run_seen VPass 3"]
    unfolding s by blast
qed

end
