(* ===== verification/Pipeline.thy ===== *)
theory Pipeline
  imports Store_Types
begin

text \<open>
  The pipeline engine (\<open>src/pipeline.rs\<close>): which agents work on a bead and in which order, what
  happens when one of them finishes, the identifiers of dispatches and the feedback contract; and
  the classification of failed runs (\<open>src/dispatch/provenance.rs\<close>).

  The engine's optional backend store is represented by what its calls return: \<open>None\<close> for no store,
  \<open>Some None\<close> for a failed query. Chrono's conversion from milliseconds and its time zone lookup are
  parameters; instants are nanoseconds.
\<close>

section \<open>Completion decisions\<close>

definition MAX_CONSECUTIVE_REVERTS :: nat where
  "MAX_CONSECUTIVE_REVERTS = 3"

datatype completion_action =
    Advance (next_agent_of: string) (phase_of: nat)
  | Terminal
  | Retry
  | Deadletter

definition make_dispatch_id :: "string \<Rightarrow> int \<Rightarrow> string" where
  "make_dispatch_id bead_id start_millis = bead_id @ CHR ''-'' # show_int start_millis"

text \<open>After the last dash there is no minus sign, so the signed parser reads digits only.\<close>

definition parse_dispatch_start_millis :: "(int \<Rightarrow> int option) \<Rightarrow> string \<Rightarrow> int option" where
  "parse_dispatch_start_millis from_timestamp_millis dispatch_id =
     (case rsplit_once (CHR ''-'') dispatch_id of
        None \<Rightarrow> None
      | Some (_, ms) \<Rightarrow>
          (case parse_unsigned (2 ^ 63) ms of
             None \<Rightarrow> None
           | Some n \<Rightarrow> from_timestamp_millis (int n)))"

record pipeline_engine =
  pe_definitions :: "string \<Rightarrow> string list option"
  pe_max_depth :: nat

definition DEFAULT_AGENT :: string where
  "DEFAULT_AGENT = ''dev-agent''"

definition agents_for :: "pipeline_engine \<Rightarrow> string \<Rightarrow> string list" where
  "agents_for e issue_type =
     (let agents = (case pe_definitions e issue_type of
                      Some a \<Rightarrow> a | None \<Rightarrow> [DEFAULT_AGENT])
      in if pe_max_depth e > 0 then take (pe_max_depth e) agents else agents)"

definition default_agent :: "pipeline_engine \<Rightarrow> string \<Rightarrow> string" where
  "default_agent e issue_type =
     (case agents_for e issue_type of [] \<Rightarrow> DEFAULT_AGENT | a # _ \<Rightarrow> a)"

text \<open>\<open>Iterator::position\<close>: the index of the first occurrence.\<close>

fun position :: "'a \<Rightarrow> 'a list \<Rightarrow> nat option" where
  "position a [] = None"
| "position a (x # xs) = (if x = a then Some 0 else map_option Suc (position a xs))"

definition next_agent :: "pipeline_engine \<Rightarrow> string \<Rightarrow> string \<Rightarrow> string option" where
  "next_agent e issue_type current =
     (let agents = agents_for e issue_type
      in case position current agents of
           None \<Rightarrow> None
         | Some idx \<Rightarrow> if idx + 1 < length agents then Some (agents ! (idx + 1)) else None)"

definition decide :: "pipeline_engine \<Rightarrow> string \<Rightarrow> string option \<Rightarrow> bool \<Rightarrow> bool option
    \<Rightarrow> nat \<Rightarrow> nat \<Rightarrow> nat \<Rightarrow> completion_action" where
  "decide e issue_type current_agent exit_success verify_passed retries max_retries reverts =
     (let exhausted = retries \<ge> max_retries \<or> reverts \<ge> MAX_CONSECUTIVE_REVERTS
      in if \<not> exit_success then (if exhausted then Deadletter else Retry)
         else if verify_passed = Some False then (if exhausted then Deadletter else Retry)
         else (case current_agent of
                 None \<Rightarrow> Terminal
               | Some agent \<Rightarrow>
                   (case next_agent e issue_type agent of
                      None \<Rightarrow> Terminal
                    | Some next \<Rightarrow>
                        Advance next
                          ((case position next (agents_for e issue_type) of
                              Some i \<Rightarrow> i | None \<Rightarrow> 0) mod 256))))"

definition initial_state :: "pipeline_engine \<Rightarrow> work_ref \<Rightarrow> string \<Rightarrow> pipeline_state" where
  "initial_state e bead_ref issue_type =
     \<lparr> ps_bead_ref = bead_ref, ps_pipeline_phase = 0,
       ps_pipeline_agent = default_agent e issue_type, ps_phase_status = ''executing'',
       ps_retries = 0, ps_consecutive_reverts = 0, ps_highest_verify_tier = None,
       ps_last_generation = 0, ps_backoff_until = None \<rparr>"

definition dispatch_left_feedback :: "(int \<Rightarrow> int option) \<Rightarrow> agent_run_event list option option
    \<Rightarrow> string \<Rightarrow> bool" where
  "dispatch_left_feedback from_timestamp_millis store dispatch_id =
     (case store of
        None \<Rightarrow> True
      | Some None \<Rightarrow> True
      | Some (Some events) \<Rightarrow>
          list_ex (\<lambda>ev. re_event_type ev = ''feedback'' \<and>
              (case parse_dispatch_start_millis from_timestamp_millis dispatch_id of
                 None \<Rightarrow> True | Some since \<Rightarrow> since \<le> re_created_at ev)) events)"

text \<open>Reads from the store: no store and a failed query both answer "nothing".\<close>

definition get_state :: "pipeline_state option option option \<Rightarrow> pipeline_state option" where
  "get_state store = (case store of Some (Some state) \<Rightarrow> state | _ \<Rightarrow> None)"

definition list_active :: "pipeline_state list option option \<Rightarrow> pipeline_state list" where
  "list_active store = (case store of Some (Some states) \<Rightarrow> states | _ \<Rightarrow> [])"

section \<open>Why a run failed\<close>

datatype failure_class =
    FOk | FAuth | FSkew | FConfig | FMissingBinary | FTimeout | FSessionLimit | FUnknown

fun failure_slug :: "failure_class \<Rightarrow> string" where
  "failure_slug FOk = ''ok''"
| "failure_slug FAuth = ''auth''"
| "failure_slug FSkew = ''skew''"
| "failure_slug FConfig = ''config''"
| "failure_slug FMissingBinary = ''missing-binary''"
| "failure_slug FTimeout = ''timeout''"
| "failure_slug FSessionLimit = ''session-limit''"
| "failure_slug FUnknown = ''unknown''"

definition qualify :: "failure_class \<Rightarrow> string \<Rightarrow> string" where
  "qualify c base =
     (if c = FOk \<or> c = FUnknown then base else base @ CHR '':'' # failure_slug c)"

definition classify :: "bool \<Rightarrow> string \<Rightarrow> failure_class" where
  "classify exit_success stderr_tail =
     (let t = to_lowercase stderr_tail; any_of = list_ex (\<lambda>p. contains_str t p)
      in if any_of [''no such file or directory'', ''command not found'',
                    ''executable file not found'', ''os error 2''] then FMissingBinary
         else if any_of [''session limit'', ''usage limit''] then FSessionLimit
         else if any_of [''not logged in'', ''invalid api key'', ''authentication_error'',
                         ''unauthorized'', ''401'', ''oauth token'',
                         ''please run '' @ [CHR 0x60] @ ''claude login'' @ [CHR 0x60],
                         ''please log in''] then FAuth
         else if any_of [''invalid permissions.defaultmode'', ''unknown permission mode'',
                         ''unrecognized permission mode'', ''unsupported protocol version'']
              then FSkew
         else if any_of [''failed to parse config'', ''invalid config'', ''unknown setting'',
                         ''invalid argument''] then FConfig
         else if any_of [''timed out'', ''timeout'', ''deadline exceeded''] then FTimeout
         else if exit_success then FOk else FUnknown)"

text \<open>The two spellings of the apostrophe: U+0027, and U+2019 in its three bytes.\<close>

definition session_limit_notices :: "string list" where
  "session_limit_notices =
     [''you'' @ [CHR 0x27] @ ''ve hit your session limit'',
      ''you'' @ [CHR 0xE2, CHR 0x80, CHR 0x99] @ ''ve hit your session limit'',
      ''you'' @ [CHR 0x27] @ ''ve hit your usage limit'',
      ''you'' @ [CHR 0xE2, CHR 0x80, CHR 0x99] @ ''ve hit your usage limit'',
      ''claude usage limit reached'', ''claude ai usage limit reached'']"

definition is_session_limit_notice :: "string \<Rightarrow> bool" where
  "is_session_limit_notice result =
     (let r = to_lowercase (trim_start result)
      in list_ex (\<lambda>n. starts_with r n) session_limit_notices)"

text \<open>\<open>str::find\<close> with the rest of the text from the match on.\<close>

fun find_from :: "string \<Rightarrow> string \<Rightarrow> string option" where
  "find_from [] p = (if p = [] then Some [] else None)"
| "find_from (c # s) p = (if starts_with (c # s) p then Some (c # s) else find_from s p)"

definition NANOS_PER_MINUTE :: int where
  "NANOS_PER_MINUTE = 60 * 10 ^ 9"

definition NANOS_PER_DAY :: int where
  "NANOS_PER_DAY = 86400 * 10 ^ 9"

text \<open>
  The wall-clock time in the notice as hour and minute. The hour is a \<open>u32\<close>: \<open>hour += 12\<close> wraps in
  a release build.
\<close>

definition meridiem_hour :: "nat \<Rightarrow> string \<Rightarrow> nat option" where
  "meridiem_hour hour r =
     (if starts_with r ''pm'' then Some (if hour \<noteq> 12 then (hour + 12) mod 2 ^ 32 else hour)
      else if starts_with r ''am'' then Some (if hour = 12 then 0 else hour)
      else None)"

definition minute_and_rest :: "string \<Rightarrow> (nat \<times> string) option" where
  "minute_and_rest k =
     (case k of
        [] \<Rightarrow> Some (0, [])
      | c # r \<Rightarrow>
          if c = CHR '':'' then
            (case parse_unsigned (2 ^ 32) (takeWhile is_ascii_digit r) of
               None \<Rightarrow> None
             | Some m \<Rightarrow> Some (m, dropWhile is_ascii_digit r))
          else Some (0, k))"

definition reset_clock :: "string \<Rightarrow> (nat \<times> nat) option" where
  "reset_clock text =
     (case find_from (to_lowercase text) ''reset'' of
        None \<Rightarrow> None
      | Some tail \<Rightarrow>
          (let b = dropWhile (\<lambda>c. \<not> is_ascii_digit c) tail
           in case parse_unsigned (2 ^ 32) (takeWhile is_ascii_digit b) of
                None \<Rightarrow> None
              | Some hour \<Rightarrow>
                  (case minute_and_rest (dropWhile is_ascii_digit b) of
                     None \<Rightarrow> None
                   | Some (minute, k) \<Rightarrow>
                       (case meridiem_hour hour (dropWhile (\<lambda>c. c = CHR '' '') k) of
                          None \<Rightarrow> None
                        | Some h \<Rightarrow> if h < 24 \<and> minute < 60 then Some (h, minute) else None))))"

text \<open>
  \<open>today_at h m\<close> is the instant of that wall-clock time today, \<open>None\<close> if the zone has no such time or
  makes it ambiguous.
\<close>

definition session_limit_reset :: "(nat \<Rightarrow> nat \<Rightarrow> int option) \<Rightarrow> int \<Rightarrow> string \<Rightarrow> int option" where
  "session_limit_reset today_at now text =
     (case reset_clock text of
        None \<Rightarrow> None
      | Some (h, minute) \<Rightarrow>
          (case today_at h minute of
             None \<Rightarrow> None
           | Some target \<Rightarrow>
               if now < target then Some (target - now)
               else if now - target < NANOS_PER_MINUTE then None
               else if 0 \<le> target + NANOS_PER_DAY - now then Some (target + NANOS_PER_DAY - now)
               else None))"

section \<open>Positions in a list\<close>

lemma position_None: "position a xs = None \<longleftrightarrow> a \<notin> set xs"
  by (induction xs) auto

lemma position_Some:
  "position a xs = Some i \<longleftrightarrow> i < length xs \<and> xs ! i = a \<and> a \<notin> set (take i xs)"
proof (induction xs arbitrary: i)
  case Nil
  then show ?case by simp
next
  case (Cons x xs)
  then show ?case by (cases i) auto
qed

lemma position_distinct: "distinct xs \<Longrightarrow> i < length xs \<Longrightarrow> position (xs ! i) xs = Some i"
  by (auto simp: position_Some in_set_conv_nth nth_eq_iff_index_eq)

lemma next_agent_at:
  assumes "position a (agents_for e ty) = Some i" "Suc i < length (agents_for e ty)"
  shows "next_agent e ty a = Some (agents_for e ty ! Suc i)"
  using assms by (simp add: next_agent_def)

lemma next_agent_last:
  assumes "position a (agents_for e ty) = Some i" "Suc i = length (agents_for e ty)"
  shows "next_agent e ty a = None"
  using assms by (simp add: next_agent_def)

section \<open>What a decision means\<close>

lemma decide_failed:
  "\<not> ok \<or> v = Some False \<Longrightarrow> decide e ty a ok v n m r =
     (if n \<ge> m \<or> r \<ge> MAX_CONSECUTIVE_REVERTS then Deadletter else Retry)"
  by (auto simp: decide_def Let_def)

lemma decide_passed_budget:
  "ok \<Longrightarrow> v \<noteq> Some False \<Longrightarrow> decide e ty a ok v n m r = decide e ty a True None 0 1 0"
  by (auto simp: decide_def Let_def)

lemma decide_passed:
  "decide e ty a True None 0 1 0 =
     (case a of None \<Rightarrow> Terminal
      | Some agent \<Rightarrow> (case next_agent e ty agent of None \<Rightarrow> Terminal
          | Some nx \<Rightarrow> Advance nx ((case position nx (agents_for e ty) of
                Some i \<Rightarrow> i | None \<Rightarrow> 0) mod 256)))"
  by (simp add: decide_def Let_def)

text \<open>
  The agents that work on a bead when every run passes, from the current agent on; \<open>None\<close> when the
  fuel runs out before a decision is terminal.
\<close>

fun pipeline_run :: "nat \<Rightarrow> pipeline_engine \<Rightarrow> string \<Rightarrow> string \<Rightarrow> string list option" where
  "pipeline_run 0 e ty agent = None"
| "pipeline_run (Suc n) e ty agent =
     (case decide e ty (Some agent) True (Some True) 0 1 0 of
        Advance nx _ \<Rightarrow> map_option ((#) agent) (pipeline_run n e ty nx)
      | _ \<Rightarrow> Some [agent])"

lemma run_step:
  "pipeline_run (Suc n) e ty a =
     (case next_agent e ty a of None \<Rightarrow> Some [a]
      | Some nx \<Rightarrow> map_option ((#) a) (pipeline_run n e ty nx))"
proof -
  have "decide e ty (Some a) True (Some True) 0 1 0 =
      (case next_agent e ty a of None \<Rightarrow> Terminal
          | Some nx \<Rightarrow> Advance nx ((case position nx (agents_for e ty) of
                Some i \<Rightarrow> i | None \<Rightarrow> 0) mod 256))"
    by (simp add: decide_def)
  then show ?thesis by (cases "next_agent e ty a") simp_all
qed

declare pipeline_run.simps(2) [simp del]

lemma run_from:
  assumes d: "distinct (agents_for e ty)"
  shows "i < length (agents_for e ty) \<Longrightarrow> length (agents_for e ty) - i \<le> n \<Longrightarrow>
    pipeline_run n e ty (agents_for e ty ! i) = Some (drop i (agents_for e ty))"
proof (induction n arbitrary: i)
  case 0
  then show ?case by simp
next
  case (Suc n)
  let ?L = "agents_for e ty"
  have p: "position (?L ! i) ?L = Some i" using d Suc.prems(1) by (rule position_distinct)
  show ?case
  proof (cases "Suc i < length ?L")
    case True
    then have "pipeline_run n e ty (?L ! Suc i) = Some (drop (Suc i) ?L)"
      using Suc.prems by (intro Suc.IH) auto
    then show ?thesis
      using next_agent_at [OF p True] Suc.prems(1) by (simp add: run_step Cons_nth_drop_Suc)
  next
    case False
    then have l: "Suc i = length ?L" using Suc.prems(1) by simp
    then show ?thesis
      using next_agent_last [OF p l] Suc.prems(1)
      by (simp add: run_step Cons_nth_drop_Suc [symmetric])
  qed
qed

text \<open>Once an agent occurs a second time, at index \<open>i\<close>, the agents before it follow each other forever.\<close>

lemma run_loops:
  assumes i: "i < length (agents_for e ty)" "agents_for e ty ! i \<in> set (take i (agents_for e ty))"
  shows "a \<in> set (take i (agents_for e ty)) \<Longrightarrow> pipeline_run n e ty a = None"
proof (induction n arbitrary: a)
  case 0
  then show ?case by simp
next
  case (Suc n)
  let ?L = "agents_for e ty"
  obtain p where p: "position a ?L = Some p"
    using Suc.prems by (metis in_set_takeD not_None_eq position_None)
  have "p < i"
  proof (rule ccontr)
    assume "\<not> p < i"
    then have "set (take i ?L) \<subseteq> set (take p ?L)" by (simp add: set_take_subset_set_take)
    then show False using p Suc.prems by (auto simp: position_Some)
  qed
  then have nx: "next_agent e ty a = Some (?L ! Suc p)"
    using p i(1) by (intro next_agent_at) auto
  have "?L ! Suc p \<in> set (take i ?L)"
  proof (cases "Suc p = i")
    case True
    then show ?thesis using i(2) by simp
  next
    case False
    then have "Suc p < i" using \<open>p < i\<close> by simp
    then show ?thesis using i(1) by (metis in_set_conv_nth length_take min.absorb4 nth_take)
  qed
  then show ?case using Suc.IH nx by (simp add: run_step)
qed

lemma not_distinct_nth:
  "\<not> distinct xs \<Longrightarrow> \<exists>i < length xs. xs ! i \<in> set (take i xs)"
proof (induction xs rule: rev_induct)
  case Nil
  then show ?case by simp
next
  case (snoc x xs)
  show ?case
  proof (cases "distinct xs")
    case True
    then have "x \<in> set xs" using snoc.prems by simp
    then show ?thesis by (intro exI [of _ "length xs"]) simp
  next
    case False
    then obtain i where "i < length xs" "xs ! i \<in> set (take i xs)" using snoc.IH by blast
    then show ?thesis by (intro exI [of _ i]) (simp add: nth_append)
  qed
qed

text \<open>
  C22. A pipeline whose agents are pairwise distinct is run to its end: starting from the default
  agent and passing every time, each agent works exactly once, in the configured order, and the
  pipeline is then terminal; as many decisions as agents are enough. A maximum depth cuts the
  sequence there. If an agent is named twice the pipeline never becomes terminal, however long it
  runs, because the engine finds its place by the agent's name.
\<close>

theorem pipeline_runs_each_agent_once:
  "(distinct (agents_for e ty) \<longrightarrow> agents_for e ty \<noteq> [] \<longrightarrow> length (agents_for e ty) \<le> n \<longrightarrow>
      pipeline_run n e ty (default_agent e ty) = Some (agents_for e ty))
   \<and> (\<not> distinct (agents_for e ty) \<longrightarrow> pipeline_run n e ty (default_agent e ty) = None)
   \<and> (pe_max_depth e > 0 \<longrightarrow> length (agents_for e ty) \<le> pe_max_depth e)"
proof (intro conjI impI)
  let ?L = "agents_for e ty"
  assume d: "distinct ?L" "?L \<noteq> []" "length ?L \<le> n"
  have "default_agent e ty = ?L ! 0" using d(2) by (cases ?L) (simp_all add: default_agent_def)
  then show "pipeline_run n e ty (default_agent e ty) = Some ?L"
    using run_from [OF d(1), of 0 n] d by simp
next
  let ?L = "agents_for e ty"
  assume "\<not> distinct ?L"
  then obtain i where i: "i < length ?L" "?L ! i \<in> set (take i ?L)"
    using not_distinct_nth by blast
  then have "i > 0" by (cases i) auto
  then have "default_agent e ty \<in> set (take i ?L)"
    using i(1) by (cases ?L) (auto simp: default_agent_def take_Cons')
  then show "pipeline_run n e ty (default_agent e ty) = None" by (rule run_loops [OF i])
qed (simp add: agents_for_def Let_def)

definition bug_engine :: pipeline_engine where
  "bug_engine = \<lparr> pe_definitions = [''bug'' \<mapsto> [''scoping-agent'', ''dev-agent'', ''staging-agent''],
                                    ''task'' \<mapsto> [''dev-agent'', ''staging-agent'', ''dev-agent'']],
                  pe_max_depth = 0 \<rparr>"

theorem pipeline_runs_each_agent_once_witness:
  "pipeline_run 3 bug_engine ''bug'' ''scoping-agent''
     = Some [''scoping-agent'', ''dev-agent'', ''staging-agent'']
   \<and> pipeline_run 100 bug_engine ''task'' ''dev-agent'' = None"
  using pipeline_runs_each_agent_once [of bug_engine "''bug''" 3]
    pipeline_runs_each_agent_once [of bug_engine "''task''" 100]
  by (simp add: bug_engine_def agents_for_def default_agent_def)

section \<open>Dispatch identifiers and the feedback contract\<close>

lemma parse_make_dispatch_id:
  "0 \<le> ms \<Longrightarrow> ms < 2 ^ 63 \<Longrightarrow> parse_dispatch_start_millis f (make_dispatch_id bead ms) = f ms"
proof -
  assume ms: "0 \<le> ms" "ms < 2 ^ 63"
  have "rsplit_once (CHR ''-'') (make_dispatch_id bead ms) = Some (bead, show_nat (nat ms))"
    using ms(1) show_nat_digits [of "nat ms"]
    by (auto simp: make_dispatch_id_def rsplit_once_Some show_int_def)
  then show ?thesis
    using ms by (simp add: parse_dispatch_start_millis_def parse_show_nat nat_less_iff)
qed

text \<open>
  A dispatch identifier carries the start of its run whatever dashes the bead's own identifier
  has, so the feedback contract asks for a feedback event of this run: it is met exactly when such
  an event was recorded no earlier than the start, events of an earlier attempt do not count, and
  nothing is enforced when there is no store to ask.
\<close>

theorem dispatch_feedback_contract:
  assumes "0 \<le> ms" "ms < 2 ^ 63" "from_ms ms = Some start"
  shows "(parse_dispatch_start_millis from_ms (make_dispatch_id bead ms) = Some start)
     \<and> (dispatch_left_feedback from_ms (Some (Some evs)) (make_dispatch_id bead ms)
       \<longleftrightarrow> (\<exists>ev \<in> set evs. re_event_type ev = ''feedback'' \<and> start \<le> re_created_at ev))
     \<and> (dispatch_left_feedback from_ms None (make_dispatch_id bead ms))
     \<and> (dispatch_left_feedback from_ms (Some None) (make_dispatch_id bead ms))"
  using assms parse_make_dispatch_id [of ms from_ms bead]
  by (auto simp: dispatch_left_feedback_def list_ex_iff)

definition feedback_event :: "int \<Rightarrow> agent_run_event" where
  "feedback_event t = \<lparr> re_id = ''e'', re_dispatch_id = ''d'', re_bead_ref = WorkRef ''r'' [] ''b-1'', re_session_ref = None,
     re_event_type = ''feedback'', re_summary = [], re_payload = JNull, re_created_at = t \<rparr>"

theorem dispatch_feedback_contract_witness:
  "parse_dispatch_start_millis (\<lambda>ms. Some (ms * 10 ^ 6)) (make_dispatch_id ''b-1'' 1700) = Some (1700 * 10 ^ 6)
   \<and> dispatch_left_feedback (\<lambda>ms. Some (ms * 10 ^ 6)) (Some (Some [feedback_event (1800 * 10 ^ 6)]))
        (make_dispatch_id ''b-1'' 1700)
   \<and> \<not> dispatch_left_feedback (\<lambda>ms. Some (ms * 10 ^ 6)) (Some (Some [feedback_event (1600 * 10 ^ 6)]))
        (make_dispatch_id ''b-1'' 1700)"
  using dispatch_feedback_contract [THEN conjunct1, of 1700 "\<lambda>ms. Some (ms * 10 ^ 6)" "1700 * 10 ^ 6" "''b-1''"]
    dispatch_feedback_contract [THEN conjunct2, THEN conjunct1, of 1700 "\<lambda>ms. Some (ms * 10 ^ 6)" "1700 * 10 ^ 6" _ "''b-1''"]
  by (simp add: feedback_event_def)

section \<open>Failures are classified, and a limit waits for its reset\<close>

lemma classify_failed: "classify False t \<noteq> FOk"
  by (simp add: classify_def Let_def)

lemma failure_slug_inj: "failure_slug c = failure_slug d \<longleftrightarrow> c = d"
  by (cases c; cases d) simp_all

text \<open>A time of twelve hours as notices have it: hour, two digits of minutes or none, spaces, am or pm.\<close>

definition two_digits :: "nat \<Rightarrow> string" where
  "two_digits m = (if m < 10 then CHR ''0'' # show_nat m else show_nat m)"

definition clock12 :: "nat \<Rightarrow> nat option \<Rightarrow> nat \<Rightarrow> bool \<Rightarrow> string" where
  "clock12 h minute spaces pm =
     show_nat h @ (case minute of None \<Rightarrow> [] | Some m \<Rightarrow> CHR '':'' # two_digits m)
     @ replicate spaces (CHR '' '') @ (if pm then ''pm'' else ''am'')"

definition hour24 :: "nat \<Rightarrow> bool \<Rightarrow> nat" where
  "hour24 h pm = (if pm then if h = 12 then 12 else h + 12 else if h = 12 then 0 else h)"

lemma length_reset: "length ''reset'' = 5"
  by simp

lemma find_from_first:
  assumes "find_from (pre @ ''rese'') ''reset'' = None"
  shows "find_from (pre @ ''reset'' @ rest) ''reset'' = Some (''reset'' @ rest)"
  using assms
proof (induction pre)
  case Nil
  then show ?case by (simp add: starts_with_def)
next
  case (Cons c pre)
  have "take 5 (c # pre @ ''reset'' @ rest) = take 5 (c # pre @ ''rese'')" by (simp add: take_Cons')
  then have "starts_with (c # pre @ ''reset'' @ rest) ''reset'' = starts_with (c # pre @ ''rese'') ''reset''"
    unfolding starts_with_def by (simp only: length_reset)
  then show ?case using Cons by (simp split: if_splits)
qed

lemma digits_split:
  assumes "list_all is_ascii_digit ds" "\<not> is_ascii_digit c"
  shows "takeWhile is_ascii_digit (ds @ c # s) = ds" "dropWhile is_ascii_digit (ds @ c # s) = c # s"
  using assms by (induction ds) auto

lemma parse_two_digits: "m < 100 \<Longrightarrow> parse_unsigned (2 ^ 32) (two_digits m) = Some m"
proof (cases "m < 10")
  case True
  have z: "CHR ''0'' \<noteq> CHR ''+''" "digit_value CHR ''0'' = 0" "is_ascii_digit CHR ''0''"
    by (simp_all add: digit_value_def is_ascii_digit_def)
  then show ?thesis using True show_nat_digits [of m]
    by (simp add: two_digits_def parse_unsigned_def z show_nat_value)
qed (simp add: two_digits_def parse_show_nat)

lemma two_digits_ok: "list_all is_ascii_digit (two_digits m) \<and> two_digits m \<noteq> []"
  using show_nat_digits [of m] by (auto simp: two_digits_def is_ascii_digit_def)

lemma meridiem_of: "dropWhile (\<lambda>c. c = CHR '' '') (replicate n (CHR '' '') @ (if pm then ''pm'' else ''am'') @ post)
    = (if pm then ''pm'' else ''am'') @ post"
  by (induction n) auto

lemma not_digits: "\<not> is_ascii_digit CHR '':''" "\<not> is_ascii_digit CHR '' ''" "\<not> is_ascii_digit CHR ''a''"
    "\<not> is_ascii_digit CHR ''p''" "\<not> is_ascii_digit CHR ''r''" "\<not> is_ascii_digit CHR ''e''" "\<not> is_ascii_digit CHR ''s''"
    "\<not> is_ascii_digit CHR ''t''"
  by (simp_all add: is_ascii_digit_def)

lemma rest_of_clock:
  obtains c s where "replicate n (CHR '' '') @ (if pm then ''pm'' else ''am'') @ post = c # s" "\<not> is_ascii_digit c" "c \<noteq> CHR '':''"
  using not_digits by (cases n; cases pm) auto

lemma reset_clock_reads:
  assumes "to_lowercase text = pre @ ''reset'' @ mid @ clock12 h minute spaces pm @ post"
    and "find_from (pre @ ''rese'') ''reset'' = None" "\<forall>c \<in> set mid. \<not> is_ascii_digit c"
    and "h < 2 ^ 32 - 12" "\<forall>m. minute = Some m \<longrightarrow> m < 100"
  shows "reset_clock text =
    (if hour24 h pm < 24 \<and> (case minute of None \<Rightarrow> 0 | Some m \<Rightarrow> m) < 60
     then Some (hour24 h pm, case minute of None \<Rightarrow> 0 | Some m \<Rightarrow> m) else None)"
proof -
  let ?mer = "if pm then ''pm'' else ''am''" and ?m = "case minute of None \<Rightarrow> 0 | Some m \<Rightarrow> m"
  let ?tl = "replicate spaces (CHR '' '') @ ?mer @ post"
  let ?rest = "(case minute of None \<Rightarrow> [] | Some m \<Rightarrow> CHR '':'' # two_digits m) @ ?tl"
  obtain c s where c: "?tl = c # s" "\<not> is_ascii_digit c" "c \<noteq> CHR '':''" by (rule rest_of_clock)
  obtain c2 s2 where c2: "?rest = c2 # s2" "\<not> is_ascii_digit c2"
    using c not_digits by (cases minute) auto
  obtain d ds where d: "show_nat h = d # ds" "is_ascii_digit d" using show_nat_digits [of h] by (cases "show_nat h") auto
  have f: "find_from (to_lowercase text) ''reset'' = Some (''reset'' @ mid @ show_nat h @ ?rest)"
    using find_from_first [OF assms(2), of "mid @ show_nat h @ ?rest"] assms(1) by (simp add: clock12_def)
  have b: "dropWhile (\<lambda>c. \<not> is_ascii_digit c) (''reset'' @ mid @ show_nat h @ ?rest) = show_nat h @ ?rest"
    using assms(3) not_digits d by (simp add: dropWhile_append2)
  have h: "takeWhile is_ascii_digit (show_nat h @ ?rest) = show_nat h" "dropWhile is_ascii_digit (show_nat h @ ?rest) = ?rest"
    using digits_split [of "show_nat h" c2 s2] show_nat_digits c2 by simp_all
  have m: "minute_and_rest ?rest = Some (?m, ?tl)"
  proof (cases minute)
    case None
    then show ?thesis using c by (simp add: minute_and_rest_def)
  next
    case (Some m)
    then show ?thesis
      using digits_split [of "two_digits m" c s] two_digits_ok [of m] parse_two_digits [of m] assms(5) c
      by (simp add: minute_and_rest_def)
  qed
  have k: "dropWhile (\<lambda>c. c = CHR '' '') ?tl = ?mer @ post" by (rule meridiem_of)
  have mer: "meridiem_hour h (?mer @ post) = Some (hour24 h pm)"
    using assms(4) by (simp add: meridiem_hour_def starts_with_def hour24_def)
  have p: "parse_unsigned (2 ^ 32) (show_nat h) = Some h" using assms(4) by (simp add: parse_show_nat)
  show ?thesis unfolding reset_clock_def f option.case Let_def b h p m k mer prod.case by simp
qed

text \<open>
  C40. The wait read from a limit notice is the one until the reset it names. For a notice that, in whatever
  case of letters, after its first "reset" and text without digits has a time of twelve hours with or
  without minutes: there is a wait exactly when the time is one of the day (12am is hour 0, 12pm hour 12)
  that the clock has today and is not within the minute after it. It ends at that time when it is still to
  come, and one day later when it has passed by a minute or more and that is not in the past.
\<close>

theorem session_limit_wait_ends_at_the_reset:
  assumes "to_lowercase text = pre @ ''reset'' @ mid @ clock12 h minute spaces pm @ post"
    and "find_from (pre @ ''rese'') ''reset'' = None" "\<forall>c \<in> set mid. \<not> is_ascii_digit c"
    and "h < 2 ^ 32 - 12" "\<forall>m. minute = Some m \<longrightarrow> m < 100"
    and "H = (if pm then if h = 12 then 12 else h + 12 else if h = 12 then 0 else h)"
    and "M = (case minute of None \<Rightarrow> 0 | Some m \<Rightarrow> m)"
  shows "session_limit_reset today_at now text = Some w \<longleftrightarrow>
    H < 24 \<and> M < 60 \<and> 0 \<le> w
    \<and> (\<exists>t. today_at H M = Some t
        \<and> (now < t \<and> now + w = t \<or> t + 60 * 10 ^ 9 \<le> now \<and> now + w = t + 24 * 3600 * 10 ^ 9))"
proof -
  have "H = hour24 h pm" using assms(6) by (simp add: hour24_def)
  then have "reset_clock text = (if H < 24 \<and> M < 60 then Some (H, M) else None)"
    using reset_clock_reads [OF assms(1-5)] assms(7) by simp
  then show ?thesis
    by (auto simp: session_limit_reset_def NANOS_PER_MINUTE_def NANOS_PER_DAY_def split: option.splits)
qed

definition noon_clock :: "nat \<Rightarrow> nat \<Rightarrow> int option" where
  "noon_clock h m = (if h < 24 \<and> m < 60
     then Some ((int h * 60 + int m - 720) * NANOS_PER_MINUTE) else None)"

theorem session_limit_wait_ends_at_the_reset_witness:
  "session_limit_reset noon_clock 0 ''Limit hit, Resets 3:40PM'' = Some (220 * 60 * 10 ^ 9)
   \<and> session_limit_reset noon_clock 0 ''Limit hit, Resets 3:40PM'' \<noteq> Some (220 * 60 * 10 ^ 9 + 12 * 3600 * 10 ^ 9)"
proof -
  have t: "to_lowercase ''Limit hit, Resets 3:40PM'' = ''limit hit, '' @ ''reset'' @ ''s '' @ clock12 3 (Some 40) 0 True @ []"
    by code_simp
  have f: "find_from (''limit hit, '' @ ''rese'') ''reset'' = None" by code_simp
  have mid: "\<forall>c \<in> set ''s ''. \<not> is_ascii_digit c" by (simp add: is_ascii_digit_def)
  note e = session_limit_wait_ends_at_the_reset [OF t f mid _ _ refl refl, of noon_clock 0]
  show ?thesis by (simp add: e noon_clock_def NANOS_PER_MINUTE_def)
qed

end
