(* ===== verification/Work_Queue.thy ===== *)
theory Work_Queue
  imports Bead_Model
begin

text \<open>
  The priority work queue of the reconciler (\<open>src/queue.rs\<close>): a binary heap of entries, the set of
  queued keys that keeps it free of duplicates, and the exponential backoff of failed beads; and the
  triage scores.

  An \<open>Instant\<close> and a \<open>Duration\<close> are natural numbers of nanoseconds. Scores are real numbers where
  the code has \<open>f64\<close>: rounding is not modelled, and no score is NaN. \<open>BinaryHeap::pop\<close> removes a
  greatest entry; which of several equal ones is not documented, so what is proved about \<open>dequeue\<close>
  is proved in the locale \<open>max_heap\<close>, for every heap that keeps this promise.
\<close>

section \<open>Entries and their order\<close>

record queue_entry =
  q_bead_id :: string
  q_repo :: string
  q_score :: real
  q_enqueued_at :: nat
  q_retries :: nat
  q_generation :: nat

datatype ordering = Less | Equal | Greater

definition compare :: "'a::linorder \<Rightarrow> 'a \<Rightarrow> ordering" where
  "compare a b = (if a < b then Less else if a = b then Equal else Greater)"

text \<open>Higher score first, then earlier enqueue time.\<close>

definition entry_cmp :: "queue_entry \<Rightarrow> queue_entry \<Rightarrow> ordering" where
  "entry_cmp a b =
     (case compare (q_score a) (q_score b) of
        Equal \<Rightarrow> compare (q_enqueued_at b) (q_enqueued_at a)
      | r \<Rightarrow> r)"

definition entry_less :: "queue_entry \<Rightarrow> queue_entry \<Rightarrow> bool" where
  "entry_less a b \<longleftrightarrow> entry_cmp a b = Less"

lemma entry_less_iff:
  "entry_less a b \<longleftrightarrow> q_score a < q_score b \<or>
     q_score a = q_score b \<and> q_enqueued_at b < q_enqueued_at a"
  by (auto simp: entry_less_def entry_cmp_def compare_def)

definition key_of :: "queue_entry \<Rightarrow> string \<times> string" where
  "key_of e = (q_repo e, q_bead_id e)"

section \<open>The heap\<close>

fun heap_max :: "queue_entry \<Rightarrow> queue_entry list \<Rightarrow> queue_entry" where
  "heap_max m [] = m"
| "heap_max m (e # es) = heap_max (if entry_less m e then e else m) es"

definition heap_pop :: "queue_entry list \<Rightarrow> (queue_entry \<times> queue_entry list) option" where
  "heap_pop h =
     (case h of [] \<Rightarrow> None
      | e # es \<Rightarrow> (let m = heap_max e es in Some (m, remove1 m h)))"

definition heap_push :: "queue_entry \<Rightarrow> queue_entry list \<Rightarrow> queue_entry list" where
  "heap_push e h = h @ [e]"

text \<open>
  The loop of \<open>dequeue\<close>: pop until an entry is not held back, keeping the held ones aside. Every
  turn pops one entry, so a turn per entry and one for the empty heap are enough fuel
  (\<open>drain_total\<close>); \<open>None\<close> would be running out of it.
\<close>

fun drain :: "('h \<Rightarrow> ('e \<times> 'h) option) \<Rightarrow> ('e \<Rightarrow> bool) \<Rightarrow> nat \<Rightarrow> 'h \<Rightarrow> 'e list
    \<Rightarrow> ('e option \<times> 'e list \<times> 'h) option" where
  "drain pop held 0 h deferred = None"
| "drain pop held (Suc n) h deferred =
     (case pop h of
        None \<Rightarrow> Some (None, deferred, h)
      | Some (e, h') \<Rightarrow>
          if held e then drain pop held n h' (deferred @ [e])
          else Some (Some e, deferred, h'))"

locale max_heap =
  fixes pop :: "'h \<Rightarrow> ('e \<times> 'h) option"
    and push :: "'e \<Rightarrow> 'h \<Rightarrow> 'h"
    and elems :: "'h \<Rightarrow> 'e multiset"
    and lt :: "'e \<Rightarrow> 'e \<Rightarrow> bool"
  assumes pop_None: "pop h = None \<longleftrightarrow> elems h = {#}"
    and pop_elems: "pop h = Some (e, h') \<Longrightarrow> elems h = add_mset e (elems h')"
    and pop_max: "pop h = Some (e, h') \<Longrightarrow> x \<in># elems h \<Longrightarrow> \<not> lt e x"
    and push_elems: "elems (push e h) = add_mset e (elems h)"
begin

lemma drain_total: "size (elems h) < n \<Longrightarrow> drain pop held n h d \<noteq> None"
proof (induction n arbitrary: h d)
  case 0
  then show ?case by simp
next
  case (Suc n)
  show ?case
  proof (cases "pop h")
    case None
    then show ?thesis by simp
  next
    case (Some r)
    obtain e h' where r: "r = (e, h')" by force
    have "size (elems h') < n" using Suc.prems pop_elems [of h e h'] Some r by simp
    then show ?thesis using Suc.IH Some r by simp
  qed
qed

lemma drain_None:
  "drain pop held n h d = Some (None, d', h') \<Longrightarrow>
   elems h' = {#} \<and> mset d' = mset d + elems h \<and> (\<forall>x \<in># elems h. held x)"
proof (induction n arbitrary: h d)
  case 0
  then show ?case by simp
next
  case (Suc n)
  show ?case
  proof (cases "pop h")
    case None
    then show ?thesis using Suc.prems pop_None [of h] by auto
  next
    case (Some r)
    obtain e h1 where r: "r = (e, h1)" by force
    have held: "held e" "drain pop held n h1 (d @ [e]) = Some (None, d', h')"
      using Suc.prems Some r by (auto split: if_splits)
    show ?thesis using Suc.IH [OF held(2)] held(1) pop_elems [of h e h1] Some r by simp
  qed
qed

lemma drain_Some:
  "drain pop held n h d = Some (Some e, d', h') \<Longrightarrow>
   \<not> held e \<and> elems h + mset d = add_mset e (elems h' + mset d')
   \<and> (\<forall>x \<in># elems h. \<not> held x \<longrightarrow> \<not> lt e x)"
proof (induction n arbitrary: h d)
  case 0
  then show ?case by simp
next
  case (Suc n)
  show ?case
  proof (cases "pop h")
    case None
    then show ?thesis using Suc.prems by simp
  next
    case (Some r)
    obtain x h1 where r: "r = (x, h1)" by force
    have el: "elems h = add_mset x (elems h1)" using pop_elems [of h x h1] Some r by simp
    show ?thesis
    proof (cases "held x")
      case True
      then have "drain pop held n h1 (d @ [x]) = Some (Some e, d', h')"
        using Suc.prems Some r by simp
      note ih = Suc.IH [OF this]
      have "elems h + mset d = elems h1 + mset (d @ [x])" using el by simp
      then show ?thesis using ih True by (simp add: el)
    next
      case False
      then have eq: "e = x" "d' = d" "h' = h1" using Suc.prems Some r by auto
      have "\<forall>y \<in># elems h. \<not> lt e y" using pop_max [of h x h1] Some r eq by blast
      then show ?thesis using False el eq by simp
    qed
  qed
qed

lemma push_all: "elems (foldl (\<lambda>h e. push e h) h es) = elems h + mset es"
  by (induction es arbitrary: h) (auto simp: push_elems)

end

lemma heap_max_mem: "heap_max m es \<in> insert m (set es)"
  by (induction m es rule: heap_max.induct) auto

lemma heap_pop_Some:
  "heap_pop h = Some (e, h') \<longleftrightarrow>
     (\<exists>m es. h = m # es \<and> e = heap_max m es \<and> h' = remove1 e h)"
  by (auto simp: heap_pop_def Let_def split: list.splits)

lemma heap_max_ge: "x \<in> insert m (set es) \<Longrightarrow> \<not> entry_less (heap_max m es) x"
proof (induction m es arbitrary: x rule: heap_max.induct)
  case (1 m)
  then show ?case by (auto simp: entry_less_iff)
next
  case (2 m e es)
  show ?case
  proof (cases "x \<in> insert (if entry_less m e then e else m) (set es)")
    case True
    then show ?thesis using "2.IH" by simp
  next
    case False
    have ge: "\<not> entry_less (heap_max (if entry_less m e then e else m) es)
        (if entry_less m e then e else m)"
      by (rule "2.IH") simp
    have "x = m \<or> x = e" using "2.prems" False by auto
    then show ?thesis using False ge
      by (auto simp: entry_less_iff split: if_splits)
  qed
qed

interpretation qh: max_heap heap_pop heap_push mset entry_less
proof unfold_locales
  fix h :: "queue_entry list" and e x h'
  show "heap_pop h = None \<longleftrightarrow> mset h = {#}"
    by (auto simp: heap_pop_def Let_def split: list.splits)
  show "mset h = add_mset e (mset h')" if "heap_pop h = Some (e, h')"
  proof -
    from that obtain m es where "h = m # es" "e = heap_max m es" "h' = remove1 e h"
      by (auto simp: heap_pop_Some)
    then show ?thesis using heap_max_mem [of m es] by (simp del: remove1.simps)
  qed
  show "\<not> entry_less e x" if "heap_pop h = Some (e, h')" "x \<in># mset h"
    using that heap_max_ge by (auto simp: heap_pop_Some)
  show "mset (heap_push e h) = add_mset e (mset h)"
    by (simp add: heap_push_def)
qed

section \<open>Backoff\<close>

definition DURATION_MAX :: nat where
  "DURATION_MAX = 2 ^ 64 * 10 ^ 9 - 1"

definition DEFAULT_BACKOFF_BASE :: nat where
  "DEFAULT_BACKOFF_BASE = 30 * 10 ^ 9"

definition BACKOFF_MAX :: nat where
  "BACKOFF_MAX = 30 * 60 * 10 ^ 9"

record backoff_state =
  bo_retries :: nat
  bo_next_eligible :: nat

definition saturating_mul :: "nat \<Rightarrow> nat \<Rightarrow> nat" where
  "saturating_mul d k = min (d * k) DURATION_MAX"

definition backoff_delay :: "nat \<Rightarrow> nat \<Rightarrow> nat" where
  "backoff_delay retries base = min (saturating_mul base (2 ^ min retries 10)) BACKOFF_MAX"

definition backoff_new :: "nat \<Rightarrow> nat \<Rightarrow> nat \<Rightarrow> backoff_state" where
  "backoff_new retries now base =
     \<lparr> bo_retries = retries, bo_next_eligible = now + backoff_delay retries base \<rparr>"

definition is_eligible :: "backoff_state \<Rightarrow> nat \<Rightarrow> bool" where
  "is_eligible s now \<longleftrightarrow> bo_next_eligible s \<le> now"

section \<open>The queue\<close>

record work_queue =
  wq_heap :: "queue_entry list"
  wq_in_queue :: "(string \<times> string) set"
  wq_backoff :: "string \<times> string \<Rightarrow> backoff_state option"
  wq_min_priority :: nat
  wq_backoff_base :: nat

definition with_backoff_base :: "nat \<Rightarrow> work_queue" where
  "with_backoff_base base =
     \<lparr> wq_heap = [], wq_in_queue = {}, wq_backoff = (\<lambda>_. None), wq_min_priority = 2,
       wq_backoff_base = base \<rparr>"

definition enqueue :: "queue_entry \<Rightarrow> work_queue \<Rightarrow> bool \<times> work_queue" where
  "enqueue e q =
     (if key_of e \<in> wq_in_queue q then (False, q)
      else (True, q\<lparr> wq_in_queue := insert (key_of e) (wq_in_queue q),
                     wq_heap := heap_push e (wq_heap q) \<rparr>))"

definition held_back :: "work_queue \<Rightarrow> nat \<Rightarrow> queue_entry \<Rightarrow> bool" where
  "held_back q now e =
     (case wq_backoff q (key_of e) of None \<Rightarrow> False | Some s \<Rightarrow> \<not> is_eligible s now)"

definition dequeue :: "nat \<Rightarrow> work_queue \<Rightarrow> queue_entry option \<times> work_queue" where
  "dequeue now q =
     (case drain heap_pop (held_back q now) (Suc (length (wq_heap q))) (wq_heap q) [] of
        None \<Rightarrow> (None, q)
      | Some (r, deferred, h) \<Rightarrow>
          (r, q\<lparr> wq_heap := foldl (\<lambda>h e. heap_push e h) h deferred,
                 wq_in_queue := (case r of None \<Rightarrow> wq_in_queue q
                                 | Some e \<Rightarrow> wq_in_queue q - {key_of e}) \<rparr>))"

definition record_backoff :: "string \<Rightarrow> string \<Rightarrow> nat \<Rightarrow> nat \<Rightarrow> work_queue \<Rightarrow> work_queue" where
  "record_backoff repo bead_id retries now q =
     q\<lparr> wq_backoff := (wq_backoff q)((repo, bead_id) \<mapsto>
          backoff_new retries now (wq_backoff_base q)) \<rparr>"

definition defer_until :: "string \<Rightarrow> string \<Rightarrow> nat \<Rightarrow> work_queue \<Rightarrow> work_queue" where
  "defer_until repo bead_id until q =
     (case wq_backoff q (repo, bead_id) of
        None \<Rightarrow> q
      | Some s \<Rightarrow>
          if bo_next_eligible s < until
          then q\<lparr> wq_backoff := (wq_backoff q)((repo, bead_id) \<mapsto> s\<lparr> bo_next_eligible := until \<rparr>) \<rparr>
          else q)"

definition queue_retries :: "string \<Rightarrow> string \<Rightarrow> work_queue \<Rightarrow> nat" where
  "queue_retries repo bead_id q =
     (case wq_backoff q (repo, bead_id) of None \<Rightarrow> 0 | Some s \<Rightarrow> bo_retries s)"

definition queue_len :: "work_queue \<Rightarrow> nat" where
  "queue_len q = length (wq_heap q)"

definition queue_contains :: "string \<Rightarrow> string \<Rightarrow> work_queue \<Rightarrow> bool" where
  "queue_contains repo bead_id q \<longleftrightarrow> (repo, bead_id) \<in> wq_in_queue q"

definition has_backoff :: "string \<Rightarrow> string \<Rightarrow> work_queue \<Rightarrow> bool" where
  "has_backoff repo bead_id q \<longleftrightarrow> wq_backoff q (repo, bead_id) \<noteq> None"

definition clear_backoff :: "string \<Rightarrow> string \<Rightarrow> work_queue \<Rightarrow> work_queue" where
  "clear_backoff repo bead_id q = q\<lparr> wq_backoff := (wq_backoff q)((repo, bead_id) := None) \<rparr>"

section \<open>Triage scores\<close>

definition age_hours :: "bead \<Rightarrow> int \<Rightarrow> int" where
  "age_hours b now = max 0 ((now - b_created_at b) div (3600 * 10 ^ 9))"

definition triage_score :: "bead \<Rightarrow> nat \<Rightarrow> int \<Rightarrow> real" where
  "triage_score b retries now =
     (let priority_score = 1 - real (b_priority b) / 5;
          dependency_score = (if b_dependency_count b = 0 then 1 else 0);
          age_score = min (real_of_int (age_hours b now) / 168) 1;
          retry_penalty = 1 / (1 + real retries)
      in 4 / 10 * priority_score + 3 / 10 * dependency_score + 2 / 10 * age_score
         + 1 / 10 * retry_penalty)"

definition type_modifier :: "string \<Rightarrow> real" where
  "type_modifier ty =
     (if ty = ''bug'' then 3 / 10
      else if ty = ''chore'' then 25 / 100
      else if ty = ''task'' then 1 / 10
      else if ty = ''feature'' then - 1 / 10
      else if ty = ''epic'' then - 5 / 10
      else if List.member [''design'', ''research'', ''review''] ty then - 3 / 10
      else 0)"

definition triage_score_overnight :: "bead \<Rightarrow> nat \<Rightarrow> int \<Rightarrow> real" where
  "triage_score_overnight b retries now =
     (let s = triage_score b retries now + type_modifier (b_issue_type b)
      in if s < 0 then 0 else if s > 1 then 1 else s)"

definition passes_severity_floor :: "bead \<Rightarrow> nat \<Rightarrow> bool" where
  "passes_severity_floor b lowest \<longleftrightarrow> b_priority b \<le> lowest"

section \<open>The queue never holds a bead twice\<close>

definition wq_ok :: "work_queue \<Rightarrow> bool" where
  "wq_ok q \<longleftrightarrow> distinct (map key_of (wq_heap q)) \<and> wq_in_queue q = set (map key_of (wq_heap q))"

lemma dequeue_cases:
  "(\<exists>d h. drain heap_pop (held_back q now) (Suc (length (wq_heap q))) (wq_heap q) [] = Some (None, d, h)
      \<and> mset (wq_heap (snd (dequeue now q))) = mset (wq_heap q)
      \<and> fst (dequeue now q) = None \<and> wq_in_queue (snd (dequeue now q)) = wq_in_queue q
      \<and> (\<forall>x \<in> set (wq_heap q). held_back q now x))
   \<or> (\<exists>e. fst (dequeue now q) = Some e \<and> \<not> held_back q now e
      \<and> mset (wq_heap q) = add_mset e (mset (wq_heap (snd (dequeue now q))))
      \<and> wq_in_queue (snd (dequeue now q)) = wq_in_queue q - {key_of e}
      \<and> (\<forall>x \<in> set (wq_heap q). \<not> held_back q now x \<longrightarrow> \<not> entry_less e x))"
proof -
  let ?run = "drain heap_pop (held_back q now) (Suc (length (wq_heap q))) (wq_heap q) []"
  have "?run \<noteq> None" by (rule qh.drain_total) simp
  then obtain r d h where run: "?run = Some (r, d, h)" by (metis not_None_eq prod_cases3)
  show ?thesis
  proof (cases r)
    case None
    note f = qh.drain_None [OF run [unfolded None]]
    then show ?thesis
      using run None by (simp add: dequeue_def qh.push_all del: drain.simps)
  next
    case (Some e)
    note f = qh.drain_Some [OF run [unfolded Some]]
    then show ?thesis
      using run Some by (simp add: dequeue_def qh.push_all del: drain.simps)
  qed
qed

lemma wq_ok_new: "wq_ok (with_backoff_base b)"
  by (simp add: wq_ok_def with_backoff_base_def)

lemma wq_ok_enqueue: "wq_ok q \<Longrightarrow> wq_ok (snd (enqueue e q))"
  by (auto simp: wq_ok_def enqueue_def heap_push_def)

lemma distinct_keys_mset:
  "mset h = mset h' \<Longrightarrow> distinct (map key_of h) \<longleftrightarrow> distinct (map key_of h')"
  by (metis mset_eq_imp_distinct_iff mset_map)

lemma wq_ok_dequeue: "wq_ok q \<Longrightarrow> wq_ok (snd (dequeue now q))"
proof -
  assume ok: "wq_ok q"
  from dequeue_cases [of q now] show ?thesis
  proof (elim disjE exE conjE)
    fix d h
    assume m: "mset (wq_heap (snd (dequeue now q))) = mset (wq_heap q)"
      and i: "wq_in_queue (snd (dequeue now q)) = wq_in_queue q"
    then show ?thesis
      using ok distinct_keys_mset [OF m] mset_eq_setD [OF m] by (simp add: wq_ok_def)
  next
    fix e
    let ?h = "wq_heap (snd (dequeue now q))"
    assume m: "mset (wq_heap q) = add_mset e (mset ?h)"
      and i: "wq_in_queue (snd (dequeue now q)) = wq_in_queue q - {key_of e}"
    have m': "mset (wq_heap q) = mset (e # ?h)" using m by simp
    have "distinct (map key_of (e # ?h))" using ok distinct_keys_mset [OF m'] by (simp add: wq_ok_def)
    moreover have "set (wq_heap q) = set (e # ?h)" using mset_eq_setD [OF m'] .
    ultimately show ?thesis using ok i by (auto simp: wq_ok_def)
  qed
qed

lemma wq_ok_backoff:
  "wq_ok q \<Longrightarrow> wq_ok (record_backoff r b n now q)"
  "wq_ok q \<Longrightarrow> wq_ok (defer_until r b u q)"
  "wq_ok q \<Longrightarrow> wq_ok (clear_backoff r b q)"
  by (simp_all add: wq_ok_def record_backoff_def defer_until_def clear_backoff_def split: option.splits)

datatype queue_op =
    Enqueue queue_entry
  | Dequeue nat
  | RecordBackoff string string nat nat
  | DeferUntil string string nat
  | ClearBackoff string string

fun queue_step :: "work_queue \<Rightarrow> queue_op \<Rightarrow> work_queue" where
  "queue_step q (Enqueue e) = snd (enqueue e q)"
| "queue_step q (Dequeue now) = snd (dequeue now q)"
| "queue_step q (RecordBackoff r b n now) = record_backoff r b n now q"
| "queue_step q (DeferUntil r b u) = defer_until r b u q"
| "queue_step q (ClearBackoff r b) = clear_backoff r b q"

lemma wq_ok_step: "wq_ok q \<Longrightarrow> wq_ok (queue_step q op)"
  by (cases op) (simp_all add: wq_ok_enqueue wq_ok_dequeue wq_ok_backoff)

lemma wq_ok_run: "wq_ok q \<Longrightarrow> wq_ok (foldl queue_step q ops)"
  by (induction ops arbitrary: q) (simp_all add: wq_ok_step)

text \<open>
  C10. Whatever sequence of enqueues, dequeues and backoff updates a fresh queue goes through, no
  bead is queued twice and the key set is exactly the set of queued beads, so \<open>contains\<close> tells the
  truth; enqueueing answers true exactly when the bead was not queued, and then adds that one entry.
\<close>

theorem queue_never_holds_duplicates:
  assumes q_def: "q = foldl queue_step (with_backoff_base base) ops"
  shows "distinct (map key_of (wq_heap q))
    \<and> (\<forall>repo b. queue_contains repo b q \<longleftrightarrow> (\<exists>e \<in> set (wq_heap q). key_of e = (repo, b)))
    \<and> (fst (enqueue e q) \<longleftrightarrow> key_of e \<notin> key_of ` set (wq_heap q))
    \<and> mset (wq_heap (snd (enqueue e q))) =
        mset (wq_heap q) + (if fst (enqueue e q) then {#e#} else {#})"
proof -
  have ok: "wq_ok q" unfolding q_def by (rule wq_ok_run [OF wq_ok_new])
  then have K: "wq_in_queue q = key_of ` set (wq_heap q)" by (simp add: wq_ok_def)
  have c: "queue_contains repo b q \<longleftrightarrow> (\<exists>e \<in> set (wq_heap q). key_of e = (repo, b))" for repo b
    by (auto simp: queue_contains_def K image_iff) metis
  show ?thesis using ok K c by (simp add: wq_ok_def enqueue_def heap_push_def)
qed

definition entry_a :: queue_entry where
  "entry_a = \<lparr> q_bead_id = ''a'', q_repo = ''r'', q_score = 1 / 2, q_enqueued_at = 1,
    q_retries = 0, q_generation = 0 \<rparr>"

definition entry_b :: queue_entry where
  "entry_b = \<lparr> q_bead_id = ''b'', q_repo = ''r'', q_score = 3 / 4, q_enqueued_at = 2,
    q_retries = 0, q_generation = 0 \<rparr>"

theorem queue_never_holds_duplicates_witness:
  "\<not> fst (enqueue entry_a (foldl queue_step (with_backoff_base 1) [Enqueue entry_a]))"
  using queue_never_holds_duplicates [OF refl, of 1 "[Enqueue entry_a]" entry_a]
  by (simp add: enqueue_def with_backoff_base_def heap_push_def)

text \<open>
  C6. Dequeueing terminates and picks right: it returns nothing exactly when every queued bead is
  held back by its backoff, and then loses no entry; otherwise it returns a queued bead that is not
  held back and that no other such bead beats on score (or, at equal score, on waiting longer), and
  removes that one entry and its key and nothing else. Backoff records are untouched.
\<close>

theorem dequeue_picks_best_eligible:
  "wq_backoff (snd (dequeue now q)) = wq_backoff q
   \<and> (case fst (dequeue now q) of
        None \<Rightarrow> (\<forall>x \<in> set (wq_heap q). held_back q now x)
              \<and> mset (wq_heap (snd (dequeue now q))) = mset (wq_heap q)
              \<and> wq_in_queue (snd (dequeue now q)) = wq_in_queue q
      | Some e \<Rightarrow> e \<in> set (wq_heap q) \<and> \<not> held_back q now e
              \<and> (\<forall>x \<in> set (wq_heap q). \<not> held_back q now x \<longrightarrow>
                   q_score x \<le> q_score e
                   \<and> (q_score x = q_score e \<longrightarrow> q_enqueued_at e \<le> q_enqueued_at x))
              \<and> mset (wq_heap q) = add_mset e (mset (wq_heap (snd (dequeue now q))))
              \<and> wq_in_queue (snd (dequeue now q)) = wq_in_queue q - {key_of e})"
proof -
  have b: "wq_backoff (snd (dequeue now q)) = wq_backoff q"
    by (simp add: dequeue_def split: option.splits)
  from dequeue_cases [of q now] show ?thesis
  proof (elim disjE exE conjE)
    fix d h
    assume "fst (dequeue now q) = None" "\<forall>x \<in> set (wq_heap q). held_back q now x"
      "mset (wq_heap (snd (dequeue now q))) = mset (wq_heap q)"
      "wq_in_queue (snd (dequeue now q)) = wq_in_queue q"
    then show ?thesis using b by simp
  next
    fix e
    assume f: "fst (dequeue now q) = Some e" and m: "mset (wq_heap q) =
        add_mset e (mset (wq_heap (snd (dequeue now q))))"
      and r: "\<not> held_back q now e" "wq_in_queue (snd (dequeue now q)) = wq_in_queue q - {key_of e}"
      and best: "\<forall>x \<in> set (wq_heap q). \<not> held_back q now x \<longrightarrow> \<not> entry_less e x"
    have "e \<in> set (wq_heap q)" using m by (metis set_mset_mset union_single_eq_member)
    moreover have "q_score x \<le> q_score e \<and> (q_score x = q_score e \<longrightarrow>
        q_enqueued_at e \<le> q_enqueued_at x)" if "x \<in> set (wq_heap q)" "\<not> held_back q now x" for x
      using best that by (fastforce simp: entry_less_iff)
    ultimately show ?thesis using b f m r by simp
  qed
qed

definition two_queued :: work_queue where
  "two_queued = foldl queue_step (with_backoff_base 1) [Enqueue entry_a, Enqueue entry_b]"

lemma two_queued_facts: "wq_heap two_queued = [entry_a, entry_b]" "wq_backoff two_queued = (\<lambda>_. None)"
  by (simp_all add: two_queued_def enqueue_def with_backoff_base_def heap_push_def key_of_def
      entry_a_def entry_b_def)

lemma two_queued_dequeue: "fst (dequeue 5 two_queued) = Some entry_b"
  by (simp add: dequeue_def two_queued_facts heap_pop_def held_back_def entry_less_iff
      entry_a_def entry_b_def)

theorem dequeue_picks_best_eligible_witness:
  "fst (dequeue 5 two_queued) = Some entry_b \<and> q_score entry_a \<le> q_score entry_b"
  using dequeue_picks_best_eligible [of 5 two_queued] two_queued_dequeue
  by (simp add: two_queued_facts held_back_def)

section \<open>Backoff grows, is capped, and is never shortened by a deferral\<close>

lemma backoff_delay_mono: "r \<le> r' \<Longrightarrow> backoff_delay r base \<le> backoff_delay r' base"
  unfolding backoff_delay_def saturating_mul_def
  by (intro min.mono mult_le_mono power_increasing) auto

lemma backoff_delay_exact:
  "r \<le> 10 \<Longrightarrow> base * 2 ^ r \<le> BACKOFF_MAX \<Longrightarrow> backoff_delay r base = base * 2 ^ r"
  by (simp add: backoff_delay_def saturating_mul_def BACKOFF_MAX_def DURATION_MAX_def)

lemma backoff_delay_default: "6 \<le> r \<Longrightarrow> backoff_delay r DEFAULT_BACKOFF_BASE = BACKOFF_MAX"
proof -
  assume "6 \<le> r"
  moreover have "backoff_delay 6 DEFAULT_BACKOFF_BASE = BACKOFF_MAX"
    by (simp add: backoff_delay_def saturating_mul_def BACKOFF_MAX_def DURATION_MAX_def
        DEFAULT_BACKOFF_BASE_def)
  ultimately show ?thesis
    using backoff_delay_mono [of 6 r DEFAULT_BACKOFF_BASE]
    by (simp add: backoff_delay_def)
qed

text \<open>
  The retry schedule: the delay never shrinks with the retry count, is the base doubled per
  retry until it reaches the cap of thirty minutes and never exceeds it (with the default base the
  cap holds from the sixth retry on), a bead whose failure is recorded at \<open>now\<close> is held back exactly
  until that delay has passed, and deferring it to a named instant can only hold it longer, never
  release it earlier, and does nothing to a bead without a backoff record.
\<close>

theorem backoff_schedule:
  "(r \<le> r' \<longrightarrow> backoff_delay r base \<le> backoff_delay r' base)
   \<and> backoff_delay r base \<le> BACKOFF_MAX
   \<and> (r \<le> 10 \<longrightarrow> base * 2 ^ r \<le> BACKOFF_MAX \<longrightarrow> backoff_delay r base = base * 2 ^ r)
   \<and> (6 \<le> r \<longrightarrow> backoff_delay r DEFAULT_BACKOFF_BASE = BACKOFF_MAX)
   \<and> (held_back (record_backoff (q_repo e) (q_bead_id e) r now q) t e
        \<longleftrightarrow> t < now + backoff_delay r (wq_backoff_base q))
   \<and> (held_back (defer_until repo b u q) t e
        \<longleftrightarrow> held_back q t e \<or> (has_backoff repo b q \<and> key_of e = (repo, b) \<and> t < u))"
proof -
  have cap: "backoff_delay r base \<le> BACKOFF_MAX" by (simp add: backoff_delay_def)
  have rec: "held_back (record_backoff (q_repo e) (q_bead_id e) r now q) t e
      \<longleftrightarrow> t < now + backoff_delay r (wq_backoff_base q)"
    by (auto simp: held_back_def record_backoff_def key_of_def backoff_new_def is_eligible_def)
  have def: "held_back (defer_until repo b u q) t e
      \<longleftrightarrow> held_back q t e \<or> (has_backoff repo b q \<and> key_of e = (repo, b) \<and> t < u)"
    by (auto simp: held_back_def defer_until_def has_backoff_def is_eligible_def split: option.splits)
  show ?thesis using backoff_delay_mono backoff_delay_exact backoff_delay_default cap rec def by blast
qed

theorem backoff_schedule_witness:
  "backoff_delay 2 DEFAULT_BACKOFF_BASE = DEFAULT_BACKOFF_BASE * 2 ^ 2
   \<and> backoff_delay 7 DEFAULT_BACKOFF_BASE = BACKOFF_MAX
   \<and> backoff_delay 2 1 \<le> backoff_delay 3 1"
proof -
  have "DEFAULT_BACKOFF_BASE * 2 ^ 2 \<le> BACKOFF_MAX"
    by (simp add: DEFAULT_BACKOFF_BASE_def BACKOFF_MAX_def)
  then show ?thesis
    using backoff_schedule [of 2 3 DEFAULT_BACKOFF_BASE] backoff_schedule [of 7]
      backoff_schedule [of 2 3 1] by auto
qed

section \<open>Triage scores are bounded and ordered\<close>

lemma retry_penalty_mono: "(n::nat) \<le> m \<Longrightarrow> 1 / (1 + real m) \<le> 1 / (1 + real n)"
  by (intro divide_left_mono) auto

lemma weighted_bounds:
  "0 \<le> p \<Longrightarrow> p \<le> 1 \<Longrightarrow> 0 \<le> d \<Longrightarrow> d \<le> 1 \<Longrightarrow> 0 \<le> a \<Longrightarrow> a \<le> 1 \<Longrightarrow> 0 \<le> r \<Longrightarrow> r \<le> 1 \<Longrightarrow>
   0 \<le> 4 / 10 * p + 3 / 10 * d + 2 / 10 * a + 1 / 10 * r
   \<and> 4 / 10 * p + 3 / 10 * d + 2 / 10 * a + 1 / 10 * r \<le> (1 :: real)"
  by (intro conjI; linarith)

lemma age_score_bounds: "0 \<le> min (real_of_int (age_hours b now) / 168) 1"
  "min (real_of_int (age_hours b now) / 168) 1 \<le> 1"
  by (simp_all add: age_hours_def)

text \<open>
  Scores order work as documented: with one of the five priority levels the score lies between
  0 and 1 (overnight always does), one more retry never raises it, a more urgent priority, an older
  bead or a resolved dependency never lowers it, and an unblocked bead beats an otherwise equal
  blocked one by exactly 0.3.
\<close>

theorem triage_score_bounded_and_monotone:
  "(b_priority b \<le> 5 \<longrightarrow> 0 \<le> triage_score b n now \<and> triage_score b n now \<le> 1)
   \<and> 0 \<le> triage_score_overnight b n now \<and> triage_score_overnight b n now \<le> 1
   \<and> (n \<le> m \<longrightarrow> triage_score b m now \<le> triage_score b n now)
   \<and> (p \<le> b_priority b \<longrightarrow> triage_score b n now \<le> triage_score (b\<lparr>b_priority := p\<rparr>) n now)
   \<and> (c \<le> b_created_at b \<longrightarrow> triage_score b n now \<le> triage_score (b\<lparr>b_created_at := c\<rparr>) n now)
   \<and> (b_dependency_count b > 0 \<longrightarrow>
        triage_score (b\<lparr>b_dependency_count := 0\<rparr>) n now = triage_score b n now + 3 / 10)"
proof -
  have pen: "0 \<le> 1 / (1 + real n)" "1 / (1 + real n) \<le> 1" by simp_all
  have bound: "0 \<le> triage_score b n now \<and> triage_score b n now \<le> 1" if "b_priority b \<le> 5"
    using that pen age_score_bounds [of b now] unfolding triage_score_def Let_def
    by (intro weighted_bounds) auto
  have retr: "triage_score b m now \<le> triage_score b n now" if "n \<le> m"
    unfolding triage_score_def Let_def
    by (intro add_left_mono mult_left_mono retry_penalty_mono that) simp
  have prio: "triage_score b n now \<le> triage_score (b\<lparr>b_priority := p\<rparr>) n now"
    if "p \<le> b_priority b"
    using that by (simp add: triage_score_def age_hours_def)
  have age: "triage_score b n now \<le> triage_score (b\<lparr>b_created_at := c\<rparr>) n now"
    if "c \<le> b_created_at b"
  proof -
    have "age_hours b now \<le> age_hours (b\<lparr>b_created_at := c\<rparr>) now"
      using that by (simp add: age_hours_def zdiv_mono1 max.coboundedI2)
    then have "min (real_of_int (age_hours b now) / 168) 1
        \<le> min (real_of_int (age_hours (b\<lparr>b_created_at := c\<rparr>) now) / 168) 1"
      by (intro min.mono divide_right_mono) auto
    then show ?thesis by (simp add: triage_score_def)
  qed
  show ?thesis
    using bound retr prio age by (auto simp: triage_score_overnight_def triage_score_def age_hours_def Let_def)
qed

theorem triage_score_bounded_and_monotone_witness:
  "0 \<le> triage_score sample_bead 1 0 \<and> triage_score sample_bead 1 0 \<le> 1
   \<and> triage_score sample_bead 2 0 \<le> triage_score sample_bead 1 0
   \<and> triage_score sample_bead 1 0 \<le> triage_score (sample_bead\<lparr>b_priority := 0\<rparr>) 1 0"
  using triage_score_bounded_and_monotone [of sample_bead 1 0 2 0]
  by (simp add: sample_bead_def)

end
