(* ===== verification/Completion.thy ===== *)
theory Completion
  imports Pipeline Work_Queue
begin

text \<open>
  What the reconciler does when an agent finishes (\<open>src/reconcile/completion.rs\<close> and
  \<open>src/reconcile/verify.rs\<close>), with the tiered verifier it consults (\<open>src/verify.rs\<close>).

  The state is the part of the \<open>Reconciler\<close> these operations read and write. Everything they do to
  the outside (bead stores, workspaces, hooks, the backend) is appended to \<open>rc_effects\<close>, oldest
  first; those calls are best-effort in the code and their failures are only printed. What they
  read from the outside is in the environment: the results of the verification tiers, the logs of
  the run, the bead store's status, the recorded feedback, and whether a previous handoff is
  readable.
\<close>

section \<open>The verifier\<close>

datatype verify_result = VrPass | VrFail string | VrPartial string

definition is_pass :: "verify_result \<Rightarrow> bool" where
  "is_pass r \<longleftrightarrow> r = VrPass"

record verify_summary =
  vs_results :: "(string \<times> verify_result) list"
  vs_highest_passing_tier :: "nat option"

definition summary_passed :: "verify_summary \<Rightarrow> bool" where
  "summary_passed s \<longleftrightarrow> list_all (\<lambda>r. is_pass (snd r)) (vs_results s)"

definition first_failure :: "verify_summary \<Rightarrow> (string \<times> verify_result) option" where
  "first_failure s = List.find (\<lambda>r. \<not> is_pass (snd r)) (vs_results s)"

definition is_fundamental_failure :: "verify_summary \<Rightarrow> bool" where
  "is_fundamental_failure s =
     (case vs_highest_passing_tier s of
        None \<Rightarrow> True
      | Some t \<Rightarrow> t = 0 \<and> length (vs_results s) > 2)"

text \<open>A tier is its name and what its check returns; a check that errs ends the run with the error.\<close>

fun run_tiers :: "nat \<Rightarrow> nat option \<Rightarrow> (string \<times> verify_result) list
    \<Rightarrow> (string \<times> ('e + verify_result)) list \<Rightarrow> 'e + verify_summary" where
  "run_tiers i highest results [] =
     Inr \<lparr> vs_results = results, vs_highest_passing_tier = highest \<rparr>"
| "run_tiers i highest results ((name, check) # tiers) =
     (case check of
        Inl e \<Rightarrow> Inl e
      | Inr r \<Rightarrow>
          if is_pass r then run_tiers (Suc i) (Some i) (results @ [(name, r)]) tiers
          else Inr \<lparr> vs_results = results @ [(name, r)], vs_highest_passing_tier = highest \<rparr>)"

definition verifier_run :: "(string \<times> ('e + verify_result)) list \<Rightarrow> 'e + verify_summary" where
  "verifier_run tiers = run_tiers 0 None [] tiers"

section \<open>The state of the reconciler\<close>

record bead_tracker =
  tk_repo :: string
  tk_scope :: string
  tk_last_generation :: nat
  tk_retries :: nat
  tk_consecutive_reverts :: nat
  tk_highest_tier :: "nat option"
  tk_current_agent :: "string option"
  tk_phase_index :: nat
  tk_issue_type :: string
  tk_dispatch_id :: "string option"

datatype effect =
    PersistStatus string string bead_state
  | AppendObservation string string string nat verdict string
  | CloseHooks string string
  | CheckpointWorkspace string
  | MergeOrPr string
  | CleanupWorkspace string
  | WriteHandoff string nat string "string option"
  | UpsertPipeline pipeline_state
  | ClearPipeline work_ref
  | LogEvent string string string string
  | SetAssignee string string string
  | CompleteDispatch string string
  | WriteRetryNote string string nat
  | OrchestratorCompleted string bool
  | SpawnAgent string string
  | RecordDispatch string work_ref string

record reconciler =
  rc_queue :: work_queue
  rc_trackers :: "string \<Rightarrow> bead_tracker option"
  rc_orchestrators :: "string \<Rightarrow> string option"
  rc_deadlettered :: "string set"
  rc_work_dirs :: "string \<Rightarrow> (string \<times> string) option"
  rc_workspaces :: "string set"
  rc_effects :: "effect list"

record environment =
  ev_pipeline :: pipeline_engine
  ev_max_retries :: nat
  ev_now :: nat
  ev_tiers :: "string \<Rightarrow> string \<Rightarrow> string option \<Rightarrow> (string \<times> (string + verify_result)) list"
  ev_logs :: "string \<Rightarrow> string \<times> string"
  ev_today_at :: "nat \<Rightarrow> nat \<Rightarrow> int option"
  ev_local_now :: int
  ev_agent_closed :: "string \<Rightarrow> string \<Rightarrow> bool"
  ev_left_feedback :: "work_ref \<Rightarrow> string \<Rightarrow> bool"
  ev_previous_handoff :: "string \<Rightarrow> nat \<Rightarrow> bool"
  ev_thread_map :: "string \<Rightarrow> string option"

definition emit :: "effect \<Rightarrow> reconciler \<Rightarrow> reconciler" where
  "emit e s = s\<lparr> rc_effects := rc_effects s @ [e] \<rparr>"

definition map_tracker :: "string \<Rightarrow> (bead_tracker \<Rightarrow> bead_tracker) \<Rightarrow> reconciler \<Rightarrow> reconciler" where
  "map_tracker bead_id f s =
     s\<lparr> rc_trackers := (rc_trackers s)(bead_id := map_option f (rc_trackers s bead_id)) \<rparr>"

definition tracker_agent_phase :: "reconciler \<Rightarrow> string \<Rightarrow> string \<Rightarrow> string \<times> nat" where
  "tracker_agent_phase s bead_id fallback =
     (case rc_trackers s bead_id of
        None \<Rightarrow> (fallback, 0)
      | Some t \<Rightarrow> (case tk_current_agent t of None \<Rightarrow> fallback | Some a \<Rightarrow> a, tk_phase_index t))"

definition tracker_scope :: "reconciler \<Rightarrow> string \<Rightarrow> string" where
  "tracker_scope s bead_id = (case rc_trackers s bead_id of None \<Rightarrow> [] | Some t \<Rightarrow> tk_scope t)"

section \<open>Verifying the work of an agent\<close>

definition READ_ONLY_AGENTS :: "string list" where
  "READ_ONLY_AGENTS = [''scoping-agent'', ''staging-agent'']"

definition verify_agent :: "environment \<Rightarrow> string \<Rightarrow> string option \<Rightarrow> bead option \<Rightarrow> reconciler
    \<Rightarrow> verify_summary option \<times> reconciler" where
  "verify_agent env bead_id close_condition b s =
     (let (agent, issue_type) = (case rc_trackers s bead_id of
              None \<Rightarrow> (None, []) | Some t \<Rightarrow> (tk_current_agent t, tk_issue_type t));
          is_readonly = (case agent of None \<Rightarrow> False | Some a \<Rightarrow> List.member READ_ONLY_AGENTS a);
          delivers_the_bead = (case agent of None \<Rightarrow> False
              | Some a \<Rightarrow> next_agent (ev_pipeline env) issue_type a = None)
            \<and> (case b of None \<Rightarrow> True | Some x \<Rightarrow> b_files x \<noteq> [] \<or> b_test_files x \<noteq> [])
      in if is_readonly \<and> \<not> delivers_the_bead then (None, s)
         else (case rc_work_dirs s bead_id of
                 None \<Rightarrow> (None, s)
               | Some (work_dir, repo) \<Rightarrow>
                   (let s' = s\<lparr> rc_work_dirs := (rc_work_dirs s)(bead_id := None) \<rparr>
                    in case verifier_run (ev_tiers env repo work_dir close_condition) of
                         Inl _ \<Rightarrow> (None, s')
                       | Inr summary \<Rightarrow> (Some summary, s'))))"

definition close_condition_text :: "bead \<Rightarrow> string" where
  "close_condition_text b =
     (let ac = trim (b_acceptance_criteria b); d = trim (b_description b)
      in if ac = [] then d else if d = [] then ac else ac @ CHR 0x0A # d)"

text \<open>What \<open>decide\<close> is told of the bead: issue type, current agent, retries, consecutive reverts.\<close>

definition decide_inputs :: "bead list \<Rightarrow> string \<Rightarrow> reconciler \<Rightarrow> string \<times> string option \<times> nat \<times> nat" where
  "decide_inputs beads bead_id s =
     (case rc_trackers s bead_id of
        Some t \<Rightarrow> (tk_issue_type t, tk_current_agent t, tk_retries t, tk_consecutive_reverts t)
      | None \<Rightarrow>
          (case List.find (\<lambda>x. b_id x = bead_id) beads of
             Some x \<Rightarrow> (b_issue_type x, b_owner x, 0, 0)
           | None \<Rightarrow> ([], None, 0, 0)))"

definition verify_outcome :: "environment \<Rightarrow> string \<Rightarrow> bool \<Rightarrow> bead list \<Rightarrow> reconciler
    \<Rightarrow> bool option \<times> verify_summary option \<times> reconciler" where
  "verify_outcome env bead_id exit_success beads s =
     (if exit_success then
        (let b = List.find (\<lambda>x. b_id x = bead_id) beads
         in case verify_agent env bead_id (map_option close_condition_text b) b s of
              (Some v, s1) \<Rightarrow> (Some (summary_passed v), Some v, s1)
            | (None, s1) \<Rightarrow> (None, None, s1))
      else (Some False, None, s))"

definition verify_and_decide :: "environment \<Rightarrow> string \<Rightarrow> bool \<Rightarrow> bead list \<Rightarrow> reconciler
    \<Rightarrow> (completion_action \<times> verify_summary option) \<times> reconciler" where
  "verify_and_decide env bead_id exit_success beads s =
     (let (issue_type, current_agent, retries, reverts) = decide_inputs beads bead_id s;
          (verify_passed, summary, s') = verify_outcome env bead_id exit_success beads s
      in ((decide (ev_pipeline env) issue_type current_agent exit_success verify_passed retries
             (ev_max_retries env) reverts, summary), s'))"

section \<open>Bookkeeping of passes and failures\<close>

definition on_pass :: "string \<Rightarrow> reconciler \<Rightarrow> reconciler" where
  "on_pass bead_id s =
     (let repo = (case rc_trackers s bead_id of Some t \<Rightarrow> tk_repo t
                  | None \<Rightarrow> (case rc_orchestrators s bead_id of Some r \<Rightarrow> r | None \<Rightarrow> []));
          s1 = s\<lparr> rc_queue := clear_backoff repo bead_id (rc_queue s) \<rparr>;
          s2 = map_tracker bead_id (\<lambda>t. t\<lparr> tk_consecutive_reverts := 0 \<rparr>) s1
      in emit (CloseHooks bead_id repo) s2)"

definition fresh_tracker :: "string \<Rightarrow> bead_tracker" where
  "fresh_tracker repo =
     \<lparr> tk_repo = repo, tk_scope = [], tk_last_generation = 0, tk_retries = 0,
       tk_consecutive_reverts = 0, tk_highest_tier = None, tk_current_agent = None,
       tk_phase_index = 0, tk_issue_type = ''task'', tk_dispatch_id = None \<rparr>"

definition tracker_or_insert :: "string \<Rightarrow> reconciler \<Rightarrow> bead_tracker" where
  "tracker_or_insert bead_id s =
     (case rc_trackers s bead_id of
        Some t \<Rightarrow> t
      | None \<Rightarrow> fresh_tracker (case rc_orchestrators s bead_id of None \<Rightarrow> [] | Some r \<Rightarrow> r))"

definition fail_tracker :: "verify_summary \<Rightarrow> bead_tracker \<Rightarrow> bead_tracker" where
  "fail_tracker summary t =
     t\<lparr> tk_consecutive_reverts :=
          (case (tk_highest_tier t, vs_highest_passing_tier summary) of
             (Some before, Some reached) \<Rightarrow> if reached < before then tk_consecutive_reverts t + 1 else 0
           | _ \<Rightarrow> tk_consecutive_reverts t),
        tk_highest_tier := vs_highest_passing_tier summary,
        tk_retries := tk_retries t + 1 \<rparr>"

definition schedule_or_drop :: "environment \<Rightarrow> string \<Rightarrow> bool \<Rightarrow> bead_tracker \<Rightarrow> reconciler
    \<Rightarrow> reconciler" where
  "schedule_or_drop env bead_id schedule_retry t s =
     s\<lparr> rc_trackers := (rc_trackers s)(bead_id \<mapsto> t),
        rc_queue := (if schedule_retry
                     then record_backoff (tk_repo t) bead_id (tk_retries t) (ev_now env) (rc_queue s)
                     else clear_backoff (tk_repo t) bead_id (rc_queue s)) \<rparr>"

definition on_fail :: "environment \<Rightarrow> string \<Rightarrow> verify_summary \<Rightarrow> bool \<Rightarrow> reconciler \<Rightarrow> reconciler" where
  "on_fail env bead_id summary schedule_retry s =
     (let t = fail_tracker summary (tracker_or_insert bead_id s);
          s1 = schedule_or_drop env bead_id schedule_retry t s
      in if schedule_retry then
           (case (first_failure summary, rc_work_dirs s1 bead_id) of
              (Some (name, _), Some (work_dir, _)) \<Rightarrow>
                emit (WriteRetryNote work_dir name (tk_retries t)) s1
            | _ \<Rightarrow> s1)
         else s1)"

definition on_fail_exit :: "environment \<Rightarrow> string \<Rightarrow> bool \<Rightarrow> reconciler \<Rightarrow> reconciler" where
  "on_fail_exit env bead_id schedule_retry s =
     (let t = tracker_or_insert bead_id s
      in schedule_or_drop env bead_id schedule_retry (t\<lparr> tk_retries := tk_retries t + 1 \<rparr>) s)"

definition handle_failure :: "environment \<Rightarrow> string \<Rightarrow> bool \<Rightarrow> verify_summary option \<Rightarrow> bool
    \<Rightarrow> reconciler \<Rightarrow> reconciler" where
  "handle_failure env bead_id exit_success summary schedule_retry s =
     (if exit_success then
        (case summary of
           Some vs \<Rightarrow> on_fail env bead_id vs schedule_retry s
         | None \<Rightarrow> s)
      else on_fail_exit env bead_id schedule_retry
             (s\<lparr> rc_work_dirs := (rc_work_dirs s)(bead_id := None) \<rparr>))"

section \<open>Carrying out a decision\<close>

datatype action_outcome =
    Advanced string
  | Completed
  | Retrying
  | Deadlettered

definition failed_run_detail :: "failure_class \<Rightarrow> string" where
  "failed_run_detail c =
     (if c = FUnknown \<or> c = FOk then ''agent exit non-zero''
      else if c = FSessionLimit then ''session limit hit (zero exit downgraded)''
      else ''agent exit non-zero ('' @ failure_slug c @ '')'')"

definition advanced_state :: "work_ref \<Rightarrow> nat \<Rightarrow> string \<Rightarrow> pipeline_state" where
  "advanced_state bead_ref phase nxt =
     \<lparr> ps_bead_ref = bead_ref, ps_pipeline_phase = (phase + 1) mod 256,
       ps_pipeline_agent = nxt, ps_phase_status = ''pending'', ps_retries = 0,
       ps_consecutive_reverts = 0, ps_highest_verify_tier = None, ps_last_generation = 0,
       ps_backoff_until = None \<rparr>"

definition advance_tracker :: "environment \<Rightarrow> string \<Rightarrow> string \<Rightarrow> string \<Rightarrow> string \<Rightarrow> nat
    \<Rightarrow> reconciler \<Rightarrow> reconciler" where
  "advance_tracker env bead_id repo nxt from_agent phase s =
     (let s1 = map_tracker bead_id
                 (\<lambda>t. t\<lparr> tk_current_agent := Some nxt, tk_phase_index := phase + 1 \<rparr>) s;
          bead_ref = WorkRef repo (tracker_scope s1 bead_id) bead_id;
          s2 = emit (UpsertPipeline (advanced_state bead_ref phase nxt)) s1;
          s3 = emit (LogEvent repo bead_id ''phase_complete'' 
                      (from_agent @ '' '' @ [CHR 0xE2, CHR 0x86, CHR 0x92] @ '' '' @ nxt)) s2;
          s4 = emit (SetAssignee repo bead_id nxt) s3
      in emit (PersistStatus bead_id repo Open) s4)"

text \<open>
  A workspace is there, the phase is not the first and the previous handoff cannot be read: the
  function returns before it touches the tracker, the pipeline state or the status.
\<close>

definition write_handoff_and_advance :: "environment \<Rightarrow> string \<Rightarrow> string \<Rightarrow> string \<Rightarrow> reconciler
    \<Rightarrow> reconciler" where
  "write_handoff_and_advance env bead_id repo nxt s =
     (let (from_agent, phase) = tracker_agent_phase s bead_id ''dev-agent''
      in if bead_id \<in> rc_workspaces s then
           (if phase > 0 \<and> \<not> ev_previous_handoff env bead_id (phase - 1) then s
            else advance_tracker env bead_id repo nxt from_agent phase
                   (emit (WriteHandoff bead_id phase from_agent (Some nxt)) s))
         else advance_tracker env bead_id repo nxt from_agent phase s)"

text \<open>
  The end of a pipeline or of a dead-lettered bead. When the previous handoff cannot be read, the
  function returns before it merges or opens the pull request, and before it cleans up.
\<close>

definition cleanup_workspace :: "string \<Rightarrow> reconciler \<Rightarrow> reconciler" where
  "cleanup_workspace bead_id s =
     (if bead_id \<in> rc_workspaces s
      then emit (CleanupWorkspace bead_id) (s\<lparr> rc_workspaces := rc_workspaces s - {bead_id} \<rparr>)
      else s)"

definition checkpoint_and_cleanup :: "environment \<Rightarrow> string \<Rightarrow> reconciler \<Rightarrow> reconciler" where
  "checkpoint_and_cleanup env bead_id s =
     (let s1 = emit (CheckpointWorkspace bead_id) s;
          (agent, phase) = tracker_agent_phase s1 bead_id ''dev-agent''
      in if bead_id \<in> rc_workspaces s1 then
           (if phase > 0 \<and> \<not> ev_previous_handoff env bead_id (phase - 1) then s1
            else cleanup_workspace bead_id
                   (emit (MergeOrPr bead_id) (emit (WriteHandoff bead_id phase agent None) s1)))
         else cleanup_workspace bead_id s1)"

definition execute_action :: "environment \<Rightarrow> string \<Rightarrow> string \<Rightarrow> completion_action \<Rightarrow> failure_class
    \<Rightarrow> verify_summary option \<Rightarrow> reconciler \<Rightarrow> action_outcome \<times> reconciler" where
  "execute_action env bead_id repo action class summary s =
     (let exit_success = (class = FOk);
          (agent, phase) = tracker_agent_phase s bead_id ''unknown''
      in case action of
           Advance nxt _ \<Rightarrow>
             (let s1 = emit (CheckpointWorkspace bead_id) (on_pass bead_id s);
                  s2 = emit (AppendObservation bead_id repo agent phase VPass ''phase passed'') s1
              in (Advanced nxt, write_handoff_and_advance env bead_id repo nxt s2))
         | Terminal \<Rightarrow>
             (let s1 = checkpoint_and_cleanup env bead_id (on_pass bead_id s);
                  s2 = emit (AppendObservation bead_id repo agent phase VPrOpen ''pipeline terminal'') s1
              in (Completed, emit (PersistStatus bead_id repo PrOpen) s2))
         | Retry \<Rightarrow>
             (let detail = (if exit_success then ''verify failed'' else failed_run_detail class);
                  s1 = handle_failure env bead_id exit_success summary True s;
                  s2 = emit (AppendObservation bead_id repo agent phase VFail detail) s1
              in (Retrying, emit (PersistStatus bead_id repo Open) s2))
         | Deadletter \<Rightarrow>
             (let detail = (if exit_success then ''verify failed, retry budget exhausted''
                            else failed_run_detail class @ '', retry budget exhausted'');
                  s1 = handle_failure env bead_id exit_success summary False s;
                  s2 = emit (AppendObservation bead_id repo agent phase VDeadletter detail) s1;
                  s3 = cleanup_workspace bead_id s2;
                  s4 = emit (ClearPipeline (WorkRef repo (tracker_scope s3 bead_id) bead_id)) s3;
                  s5 = s4\<lparr> rc_deadlettered := insert bead_id (rc_deadlettered s4) \<rparr>
              in (Deadlettered, emit (PersistStatus bead_id repo DeadLetter) s5)))"

section \<open>Handling the completed agents of an iteration\<close>

text \<open>The class of the run, whether it counts as a success, and how long to wait before a retry.\<close>

definition classify_completion :: "environment \<Rightarrow> string \<Rightarrow> bool \<Rightarrow> reconciler
    \<Rightarrow> failure_class \<times> bool \<times> int option" where
  "classify_completion env bead_id exit_success s =
     (let (stderr, res) = (case rc_work_dirs s bead_id of
              None \<Rightarrow> ([], []) | Some (work_dir, _) \<Rightarrow> ev_logs env work_dir);
          notice = (if is_session_limit_notice res then Some res
                    else if \<not> exit_success \<and> classify False stderr = FSessionLimit then Some stderr
                    else None)
      in case notice of
           Some txt \<Rightarrow>
             (FSessionLimit, False, session_limit_reset (ev_today_at env) (ev_local_now env) txt)
         | None \<Rightarrow>
             if exit_success then (FOk, True, None)
             else (classify False stderr, False, None))"

definition repo_of_bead :: "bead list \<Rightarrow> string \<Rightarrow> reconciler \<Rightarrow> string" where
  "repo_of_bead beads bead_id s =
     (case rc_trackers s bead_id of
        Some t \<Rightarrow> tk_repo t
      | None \<Rightarrow> (case List.find (\<lambda>x. b_id x = bead_id) beads of Some x \<Rightarrow> b_repo x | None \<Rightarrow> []))"

definition signal_verifying :: "string \<Rightarrow> string \<Rightarrow> reconciler \<Rightarrow> reconciler" where
  "signal_verifying bead_id repo s =
     (let (agent, phase) = tracker_agent_phase s bead_id ''unknown''
      in emit (AppendObservation bead_id repo agent phase VVerifying ''entering verifying state'')
           (emit (PersistStatus bead_id repo Verifying) s))"

definition passes :: "completion_action \<Rightarrow> bool" where
  "passes a = (case a of Advance _ _ \<Rightarrow> True | Terminal \<Rightarrow> True | _ \<Rightarrow> False)"

definition feedback_gate :: "environment \<Rightarrow> string \<Rightarrow> string \<Rightarrow> completion_action \<Rightarrow> reconciler
    \<Rightarrow> completion_action" where
  "feedback_gate env bead_id repo action s =
     (if passes action then
        (case rc_trackers s bead_id of
           None \<Rightarrow> action
         | Some t \<Rightarrow>
             (case tk_dispatch_id t of
                None \<Rightarrow> action
              | Some d \<Rightarrow>
                  if ev_left_feedback env (WorkRef repo (tk_scope t) bead_id) d then action else Retry))
      else action)"

definition outcome_str :: "action_outcome \<Rightarrow> string" where
  "outcome_str r =
     (case r of Advanced _ \<Rightarrow> ''success'' | Completed \<Rightarrow> ''success''
      | Retrying \<Rightarrow> ''failure'' | Deadlettered \<Rightarrow> ''deadletter'')"

definition complete_dispatch_of :: "string \<Rightarrow> failure_class \<Rightarrow> action_outcome \<Rightarrow> reconciler \<Rightarrow> reconciler" where
  "complete_dispatch_of bead_id class r s =
     (case rc_trackers s bead_id of
        None \<Rightarrow> s
      | Some t \<Rightarrow> (case tk_dispatch_id t of
            None \<Rightarrow> s
          | Some d \<Rightarrow> emit (CompleteDispatch d (qualify class (outcome_str r))) s))"

definition defer_retry :: "environment \<Rightarrow> string \<Rightarrow> string \<Rightarrow> int option \<Rightarrow> action_outcome \<Rightarrow> reconciler
    \<Rightarrow> reconciler" where
  "defer_retry env bead_id repo wait r s =
     (case (r, wait) of
        (Retrying, Some w) \<Rightarrow>
          s\<lparr> rc_queue := defer_until repo bead_id (ev_now env + nat w) (rc_queue s) \<rparr>
      | _ \<Rightarrow> s)"

record verify_result_counts =
  vr_status_updates :: "(string \<times> string \<times> string) list"
  vr_phase_advances :: "(string \<times> string \<times> string) list"
  vr_passed :: nat
  vr_failed :: nat
  vr_deadlettered :: nat
  vr_deadlettered_ids :: "string list"
  vr_agent_closed :: nat

definition tally :: "string \<Rightarrow> string \<Rightarrow> action_outcome \<Rightarrow> verify_result_counts \<Rightarrow> verify_result_counts" where
  "tally bead_id repo r c =
     (case r of
        Advanced nxt \<Rightarrow> c\<lparr> vr_passed := vr_passed c + 1,
                           vr_phase_advances := vr_phase_advances c @ [(bead_id, repo, nxt)] \<rparr>
      | Completed \<Rightarrow> c\<lparr> vr_passed := vr_passed c + 1,
                         vr_status_updates := vr_status_updates c @ [(bead_id, repo, ''pr_open'')] \<rparr>
      | Retrying \<Rightarrow> c\<lparr> vr_failed := vr_failed c + 1,
                        vr_status_updates := vr_status_updates c @ [(bead_id, repo, ''open'')] \<rparr>
      | Deadlettered \<Rightarrow> c\<lparr> vr_failed := vr_failed c + 1, vr_deadlettered := vr_deadlettered c + 1,
                            vr_deadlettered_ids := vr_deadlettered_ids c @ [bead_id],
                            vr_status_updates := vr_status_updates c @ [(bead_id, repo, ''dead_letter'')] \<rparr>)"

definition verify_one :: "environment \<Rightarrow> bead list \<Rightarrow> string \<times> bool
    \<Rightarrow> verify_result_counts \<times> reconciler \<Rightarrow> verify_result_counts \<times> reconciler" where
  "verify_one env beads completed cs =
     (let (bead_id, exited) = completed; (c, s) = cs;
          (class, exit_success, wait) = classify_completion env bead_id exited s
      in if rc_orchestrators s bead_id \<noteq> None then
           (let ((action, _), s1) = verify_and_decide env bead_id exit_success beads s;
                s2 = emit (OrchestratorCompleted bead_id (passes action)) s1
            in (if passes action then c\<lparr> vr_passed := vr_passed c + 1 \<rparr>
                else c\<lparr> vr_failed := vr_failed c + 1 \<rparr>, s2))
         else
           (let repo = repo_of_bead beads bead_id s
            in if ev_agent_closed env bead_id repo then
                 (c\<lparr> vr_agent_closed := vr_agent_closed c + 1 \<rparr>,
                  s\<lparr> rc_trackers := (rc_trackers s)(bead_id := None) \<rparr>)
               else
                 (let s1 = (if exit_success then signal_verifying bead_id repo s else s);
                      c1 = (if exit_success
                            then c\<lparr> vr_status_updates := vr_status_updates c @ [(bead_id, repo, ''verifying'')] \<rparr>
                            else c);
                      ((action, summary), s2) = verify_and_decide env bead_id exit_success beads s1;
                      action' = feedback_gate env bead_id repo action s2;
                      (r, s3) = execute_action env bead_id repo action' class summary s2;
                      s4 = defer_retry env bead_id repo wait r s3;
                      s5 = complete_dispatch_of bead_id class r s4
                  in (tally bead_id repo r c1, s5))))"

definition no_counts :: verify_result_counts where
  "no_counts = \<lparr> vr_status_updates = [], vr_phase_advances = [], vr_passed = 0, vr_failed = 0,
     vr_deadlettered = 0, vr_deadlettered_ids = [], vr_agent_closed = 0 \<rparr>"

definition verify_completed :: "environment \<Rightarrow> bead list \<Rightarrow> (string \<times> bool) list \<Rightarrow> reconciler
    \<Rightarrow> verify_result_counts \<times> reconciler" where
  "verify_completed env beads completed s =
     foldl (\<lambda>cs x. verify_one env beads x cs) (no_counts, s) completed"

section \<open>The verifier stops at the first tier that does not pass\<close>

definition tier_passes :: "string \<times> ('e + verify_result) \<Rightarrow> bool" where
  "tier_passes tier \<longleftrightarrow> snd tier = Inr VrPass"

lemma run_tiers_passing:
  "list_all tier_passes ps \<Longrightarrow>
   run_tiers i highest results (ps @ tiers) =
     run_tiers (i + length ps) (if ps = [] then highest else Some (i + length ps - 1))
       (results @ map (\<lambda>p. (fst p, VrPass)) ps) tiers"
proof (induction ps arbitrary: i highest results)
  case Nil
  then show ?case by simp
next
  case (Cons p ps)
  obtain n where p: "p = (n, Inr VrPass)" using Cons.prems by (cases p) (simp add: tier_passes_def)
  have "run_tiers i highest results ((p # ps) @ tiers)
      = run_tiers (Suc i) (Some i) (results @ [(n, VrPass)]) (ps @ tiers)"
    by (simp add: p is_pass_def)
  also have "\<dots> = run_tiers (Suc i + length ps) (if ps = [] then Some i else Some (Suc i + length ps - 1))
      ((results @ [(n, VrPass)]) @ map (\<lambda>p. (fst p, VrPass)) ps) tiers"
    using Cons.prems by (intro Cons.IH) simp
  finally show ?case by (simp add: p)
qed

lemma verifier_short_circuits_parts:
  assumes tiers: "tiers = ps @ rest" "list_all tier_passes ps" "rest = [] \<or> \<not> tier_passes (hd rest)"
  shows "verifier_run tiers =
     (case rest of
        (name, Inl e) # _ \<Rightarrow> Inl e
      | (name, Inr r) # _ \<Rightarrow>
          Inr \<lparr> vs_results = map (\<lambda>p. (fst p, VrPass)) ps @ [(name, r)],
                vs_highest_passing_tier = (if ps = [] then None else Some (length ps - 1)) \<rparr>
      | [] \<Rightarrow> Inr \<lparr> vs_results = map (\<lambda>p. (fst p, VrPass)) ps,
                vs_highest_passing_tier = (if ps = [] then None else Some (length ps - 1)) \<rparr>)"
    and "(\<exists>v. verifier_run tiers = Inr v \<and> summary_passed v) \<longleftrightarrow> list_all tier_passes tiers"
    and "verifier_run tiers = Inr v \<Longrightarrow> first_failure v = None \<longleftrightarrow> summary_passed v"
proof -
  have run: "verifier_run tiers = run_tiers (length ps)
      (if ps = [] then None else Some (length ps - 1)) (map (\<lambda>p. (fst p, VrPass)) ps) rest"
    using run_tiers_passing [OF tiers(2), of 0 None "[]" rest] tiers(1) by (simp add: verifier_run_def)
  show eq: "verifier_run tiers =
     (case rest of
        (name, Inl e) # _ \<Rightarrow> Inl e
      | (name, Inr r) # _ \<Rightarrow>
          Inr \<lparr> vs_results = map (\<lambda>p. (fst p, VrPass)) ps @ [(name, r)],
                vs_highest_passing_tier = (if ps = [] then None else Some (length ps - 1)) \<rparr>
      | [] \<Rightarrow> Inr \<lparr> vs_results = map (\<lambda>p. (fst p, VrPass)) ps,
                vs_highest_passing_tier = (if ps = [] then None else Some (length ps - 1)) \<rparr>)"
    using tiers(3) by (auto simp: run tier_passes_def is_pass_def split: list.splits sum.splits)
  show "(\<exists>v. verifier_run tiers = Inr v \<and> summary_passed v) \<longleftrightarrow> list_all tier_passes tiers"
    using tiers unfolding eq
    by (auto simp: summary_passed_def is_pass_def tier_passes_def list_all_iff
        split: list.splits sum.splits)
  show "first_failure v = None \<longleftrightarrow> summary_passed v" if "verifier_run tiers = Inr v"
    by (auto simp: first_failure_def summary_passed_def find_None_iff list_all_iff)
qed

text \<open>
  The verifier runs the tiers in order and stops at the first that does not pass: its summary
  passes exactly when every tier passes; it lists the passing tiers before the stop and the one that
  stopped it; the highest passing tier is the number of passing tiers less one; an error of a check
  is the result only when every tier before it passed, and a passing summary has no first failure.
\<close>

theorem verifier_short_circuits:
  assumes tiers: "tiers = ps @ rest" "list_all tier_passes ps" "rest = [] \<or> \<not> tier_passes (hd rest)"
  shows "(verifier_run tiers =
     (case rest of
        (name, Inl e) # _ \<Rightarrow> Inl e
      | (name, Inr r) # _ \<Rightarrow>
          Inr \<lparr> vs_results = map (\<lambda>p. (fst p, VrPass)) ps @ [(name, r)],
                vs_highest_passing_tier = (if ps = [] then None else Some (length ps - 1)) \<rparr>
      | [] \<Rightarrow> Inr \<lparr> vs_results = map (\<lambda>p. (fst p, VrPass)) ps,
                vs_highest_passing_tier = (if ps = [] then None else Some (length ps - 1)) \<rparr>))
     \<and> ((\<exists>v. verifier_run tiers = Inr v \<and> summary_passed v) \<longleftrightarrow> list_all tier_passes tiers)
     \<and> ((verifier_run tiers = Inr v) \<longrightarrow> (first_failure v = None \<longleftrightarrow> summary_passed v))"
  by (rule conjI, rule verifier_short_circuits_parts(1) [OF assms],
      rule conjI, rule verifier_short_circuits_parts(2) [OF assms],
      rule impI, (rule verifier_short_circuits_parts(3) [OF assms]; assumption))

definition three_tiers :: "(string \<times> (string + verify_result)) list" where
  "three_tiers = [(''commit'', Inr VrPass), (''compile'', Inr (VrFail ''x'')), (''test'', Inl ''no cargo'')]"

theorem verifier_short_circuits_witness:
  "verifier_run three_tiers =
     Inr \<lparr> vs_results = [(''commit'', VrPass), (''compile'', VrFail ''x'')], vs_highest_passing_tier = Some 0 \<rparr>
   \<and> \<not> (\<exists>v. verifier_run three_tiers = Inr v \<and> summary_passed v)"
  using verifier_short_circuits [THEN conjunct1, of three_tiers "[(''commit'', Inr VrPass)]"
      "[(''compile'', Inr (VrFail ''x'')), (''test'', Inl ''no cargo'')]"] verifier_short_circuits [THEN conjunct2, THEN conjunct1, of three_tiers "[(''commit'', Inr VrPass)]"
      "[(''compile'', Inr (VrFail ''x'')), (''test'', Inl ''no cargo'')]"]
  by (simp add: three_tiers_def tier_passes_def)

section \<open>What each step changes\<close>

named_theorems rc_simps

lemma emit_fields [rc_simps, simp]:
  "rc_effects (emit e s) = rc_effects s @ [e]" "rc_queue (emit e s) = rc_queue s"
  "rc_trackers (emit e s) = rc_trackers s" "rc_orchestrators (emit e s) = rc_orchestrators s"
  "rc_deadlettered (emit e s) = rc_deadlettered s" "rc_work_dirs (emit e s) = rc_work_dirs s"
  "rc_workspaces (emit e s) = rc_workspaces s"
  by (simp_all add: emit_def)

lemma map_tracker_fields [rc_simps, simp]:
  "rc_effects (map_tracker b f s) = rc_effects s" "rc_queue (map_tracker b f s) = rc_queue s"
  "rc_trackers (map_tracker b f s) = (rc_trackers s)(b := map_option f (rc_trackers s b))"
  "rc_orchestrators (map_tracker b f s) = rc_orchestrators s"
  "rc_deadlettered (map_tracker b f s) = rc_deadlettered s"
  "rc_work_dirs (map_tracker b f s) = rc_work_dirs s"
  "rc_workspaces (map_tracker b f s) = rc_workspaces s"
  by (simp_all add: map_tracker_def)

lemma verify_agent_cases:
  "verify_agent env b cc x s = (None, s)
   \<or> (\<exists>r. verify_agent env b cc x s = (r, s\<lparr> rc_work_dirs := (rc_work_dirs s)(b := None) \<rparr>))"
  by (auto simp: verify_agent_def Let_def split: option.splits prod.splits sum.splits)

lemma verify_agent_Some:
  "verify_agent env b cc x s = (Some v, s') \<Longrightarrow> s' = s\<lparr> rc_work_dirs := (rc_work_dirs s)(b := None) \<rparr>"
  using verify_agent_cases [of env b cc x s] by auto

lemma verify_outcome_cases:
  "verify_outcome env b ok beads s = (None, None, s) \<and> ok
   \<or> verify_outcome env b ok beads s = (Some False, None, s) \<and> \<not> ok
   \<or> (\<exists>summary. verify_outcome env b ok beads s =
        (map_option summary_passed summary, summary, s\<lparr> rc_work_dirs := (rc_work_dirs s)(b := None) \<rparr>) \<and> ok)"
proof (cases ok)
  case True
  let ?x = "List.find (\<lambda>x. b_id x = b) beads"
  from verify_agent_cases [of env b "map_option close_condition_text ?x" ?x s] show ?thesis
  proof (elim disjE exE)
    assume "verify_agent env b (map_option close_condition_text ?x) ?x s = (None, s)"
    then show ?thesis using True by (simp add: verify_outcome_def)
  next
    fix r
    assume "verify_agent env b (map_option close_condition_text ?x) ?x s =
        (r, s\<lparr> rc_work_dirs := (rc_work_dirs s)(b := None) \<rparr>)"
    then show ?thesis using True by (cases r) (auto simp: verify_outcome_def)
  qed
qed (simp add: verify_outcome_def)

lemma verify_and_decide_cases:
  "\<exists>ty agent n r vp summary. decide_inputs beads b s = (ty, agent, n, r) \<and>
     verify_and_decide env b ok beads s =
       ((decide (ev_pipeline env) ty agent ok vp n (ev_max_retries env) r, summary),
        snd (snd (verify_outcome env b ok beads s)))
     \<and> verify_outcome env b ok beads s = (vp, summary, snd (snd (verify_outcome env b ok beads s)))"
  by (auto simp: verify_and_decide_def split: prod.splits)


lemma on_pass_fields [rc_simps]:
  "rc_effects (on_pass b s) = rc_effects s @ [CloseHooks b (case rc_trackers s b of Some t \<Rightarrow> tk_repo t
      | None \<Rightarrow> (case rc_orchestrators s b of Some r \<Rightarrow> r | None \<Rightarrow> []))]"
  "rc_trackers (on_pass b s) = (rc_trackers s)(b := map_option (\<lambda>t. t\<lparr> tk_consecutive_reverts := 0 \<rparr>) (rc_trackers s b))"
  "rc_orchestrators (on_pass b s) = rc_orchestrators s"
  "rc_deadlettered (on_pass b s) = rc_deadlettered s"
  "rc_work_dirs (on_pass b s) = rc_work_dirs s" "rc_workspaces (on_pass b s) = rc_workspaces s"
  by (simp_all add: on_pass_def Let_def)

lemma schedule_or_drop_fields [rc_simps, simp]:
  "rc_effects (schedule_or_drop env b r t s) = rc_effects s"
  "rc_trackers (schedule_or_drop env b r t s) = (rc_trackers s)(b \<mapsto> t)"
  "rc_orchestrators (schedule_or_drop env b r t s) = rc_orchestrators s"
  "rc_deadlettered (schedule_or_drop env b r t s) = rc_deadlettered s"
  "rc_work_dirs (schedule_or_drop env b r t s) = rc_work_dirs s"
  "rc_workspaces (schedule_or_drop env b r t s) = rc_workspaces s"
  by (simp_all add: schedule_or_drop_def)

text \<open>What \<open>on_fail\<close> does when the work directory is gone, as it is after a verification.\<close>

lemma on_fail_no_dir:
  "rc_work_dirs s b = None \<Longrightarrow>
   on_fail env b v r s = schedule_or_drop env b r (fail_tracker v (tracker_or_insert b s)) s"
  by (simp add: on_fail_def Let_def split: option.splits)

lemma cleanup_fields [rc_simps, simp]:
  "rc_queue (cleanup_workspace b s) = rc_queue s" "rc_trackers (cleanup_workspace b s) = rc_trackers s"
  "rc_orchestrators (cleanup_workspace b s) = rc_orchestrators s"
  "rc_deadlettered (cleanup_workspace b s) = rc_deadlettered s"
  "rc_work_dirs (cleanup_workspace b s) = rc_work_dirs s"
  "rc_workspaces (cleanup_workspace b s) = rc_workspaces s - {b}"
  "rc_effects (cleanup_workspace b s) = rc_effects s @ (if b \<in> rc_workspaces s then [CleanupWorkspace b] else [])"
  by (simp_all add: cleanup_workspace_def)

text \<open>Whether \<open>checkpoint_and_cleanup\<close> gets past the handoff.\<close>

definition handoff_unreadable :: "environment \<Rightarrow> string \<Rightarrow> reconciler \<Rightarrow> bool" where
  "handoff_unreadable env b s \<longleftrightarrow> b \<in> rc_workspaces s \<and>
     (let phase = snd (tracker_agent_phase s b ''dev-agent'')
      in phase > 0 \<and> \<not> ev_previous_handoff env b (phase - 1))"

lemma tracker_agent_phase_cong:
  "rc_trackers s' b = rc_trackers s b \<Longrightarrow> tracker_agent_phase s' b a = tracker_agent_phase s b a"
  by (simp add: tracker_agent_phase_def)

lemma checkpoint_fields [rc_simps, simp]:
  "rc_queue (checkpoint_and_cleanup env b s) = rc_queue s"
  "rc_trackers (checkpoint_and_cleanup env b s) = rc_trackers s"
  "rc_orchestrators (checkpoint_and_cleanup env b s) = rc_orchestrators s"
  "rc_deadlettered (checkpoint_and_cleanup env b s) = rc_deadlettered s"
  "rc_work_dirs (checkpoint_and_cleanup env b s) = rc_work_dirs s"
  "rc_workspaces (checkpoint_and_cleanup env b s) = (if handoff_unreadable env b s then rc_workspaces s else rc_workspaces s - {b})"
  "rc_effects (checkpoint_and_cleanup env b s) = rc_effects s @ CheckpointWorkspace b #
     (if handoff_unreadable env b s \<or> b \<notin> rc_workspaces s then []
      else [WriteHandoff b (snd (tracker_agent_phase s b ''dev-agent'')) (fst (tracker_agent_phase s b ''dev-agent'')) None,
            MergeOrPr b, CleanupWorkspace b])"
  using tracker_agent_phase_cong [of "emit (CheckpointWorkspace b) s" b s]
  by (auto simp: checkpoint_and_cleanup_def handoff_unreadable_def Let_def split: prod.splits)

definition is_retry_note :: "effect \<Rightarrow> bool" where
  "is_retry_note e = (case e of WriteRetryNote _ _ _ \<Rightarrow> True | _ \<Rightarrow> False)"

definition retry_notes :: "reconciler \<Rightarrow> effect list" where
  "retry_notes s = filter is_retry_note (rc_effects s)"

lemma retry_notes_emit: "\<not> is_retry_note e \<Longrightarrow> retry_notes (emit e s) = retry_notes s"
  by (simp add: retry_notes_def)

lemma retry_notes_on_pass: "retry_notes (on_pass b s) = retry_notes s"
  by (simp add: retry_notes_def rc_simps is_retry_note_def)

lemma retry_notes_advance: "retry_notes (advance_tracker env b repo nx fa ph s) = retry_notes s"
  by (simp add: advance_tracker_def Let_def retry_notes_emit is_retry_note_def)
     (simp add: retry_notes_def)

lemma retry_notes_cleanup:
  "retry_notes (cleanup_workspace b s) = retry_notes s" "retry_notes (checkpoint_and_cleanup env b s) = retry_notes s"
  by (auto simp: retry_notes_def is_retry_note_def)

lemma retry_notes_handoff: "retry_notes (write_handoff_and_advance env b repo nx s) = retry_notes s"
  by (simp add: write_handoff_and_advance_def retry_notes_advance retry_notes_emit is_retry_note_def
      split: prod.splits)

lemma retry_notes_failure:
  assumes "summary \<noteq> None \<Longrightarrow> rc_work_dirs s b = None"
  shows "retry_notes (handle_failure env b ok summary r s) = retry_notes s"
  using assms
  by (cases summary) (simp_all add: handle_failure_def on_fail_no_dir on_fail_exit_def Let_def retry_notes_def)

lemma retry_notes_execute:
  assumes "summary \<noteq> None \<Longrightarrow> rc_work_dirs s b = None"
  shows "retry_notes (snd (execute_action env b repo action class summary s)) = retry_notes s"
proof (cases action)
  case (Advance nx ph)
  then show ?thesis
    by (simp add: execute_action_def Let_def retry_notes_handoff retry_notes_emit retry_notes_on_pass
        is_retry_note_def split: prod.splits)
next
  case Terminal
  then show ?thesis
    by (simp add: execute_action_def Let_def retry_notes_emit retry_notes_on_pass retry_notes_cleanup
        is_retry_note_def split: prod.splits)
next
  case Retry
  then show ?thesis
    using retry_notes_failure [OF assms]
    by (simp add: execute_action_def Let_def retry_notes_emit is_retry_note_def split: prod.splits)
next
  case Deadletter
  have "retry_notes (s\<lparr> rc_deadlettered := D \<rparr>) = retry_notes s"
    "retry_notes (s\<lparr> rc_workspaces := W \<rparr>) = retry_notes s" for s D W
    by (simp_all add: retry_notes_def)
  then show ?thesis
    using Deadletter retry_notes_failure [OF assms]
    by (simp add: execute_action_def Let_def retry_notes_emit retry_notes_cleanup is_retry_note_def split: prod.splits)
qed

lemma retry_notes_other:
  "retry_notes (signal_verifying b repo s) = retry_notes s"
  "retry_notes (defer_retry env b repo w r s) = retry_notes s"
  "retry_notes (complete_dispatch_of b class r s) = retry_notes s"
  "retry_notes (snd (snd (verify_outcome env b ok beads s))) = retry_notes s"
  "retry_notes (s\<lparr> rc_trackers := T \<rparr>) = retry_notes s"
proof -
  show "retry_notes (snd (snd (verify_outcome env b ok beads s))) = retry_notes s"
    using verify_outcome_cases [of env b ok beads s] by (auto simp: retry_notes_def)
qed (auto simp: signal_verifying_def retry_notes_emit is_retry_note_def defer_retry_def
      complete_dispatch_of_def retry_notes_def split: prod.splits action_outcome.splits option.splits)

lemma verify_and_decide_note:
  assumes "verify_and_decide env b ok beads s = ((action, summary), s')"
  shows "retry_notes s' = retry_notes s" "summary \<noteq> None \<Longrightarrow> rc_work_dirs s' b = None"
    and "s' = s \<or> s' = s\<lparr> rc_work_dirs := (rc_work_dirs s)(b := None) \<rparr>"
proof -
  have s': "s' = snd (snd (verify_outcome env b ok beads s))"
    and su: "summary = fst (snd (verify_outcome env b ok beads s))"
    using assms by (auto simp: verify_and_decide_def split: prod.splits)
  show "retry_notes s' = retry_notes s" by (simp add: s' retry_notes_other)
  show "rc_work_dirs s' b = None" if "summary \<noteq> None"
    using that verify_outcome_cases [of env b ok beads s] by (auto simp: s' su)
  show "s' = s \<or> s' = s\<lparr> rc_work_dirs := (rc_work_dirs s)(b := None) \<rparr>"
    using verify_outcome_cases [of env b ok beads s] by (auto simp: s')
qed

lemma verify_one_flat:
  assumes "classify_completion env b ex s = (cl, ok, w)" "rc_orchestrators s b = None"
    and "repo = repo_of_bead beads b s" "\<not> ev_agent_closed env b repo"
    and "verify_and_decide env b ok beads (if ok then signal_verifying b repo s else s) = ((a, su), s2)"
    and "execute_action env b repo (feedback_gate env b repo a s2) cl su s2 = (r, s3)"
  shows "snd (verify_one env beads (b, ex) (c, s))
       = complete_dispatch_of b cl r (defer_retry env b repo w r s3)"
    and "fst (verify_one env beads (b, ex) (c, s)) = tally b repo r (if ok
            then c\<lparr> vr_status_updates := vr_status_updates c @ [(b, repo, ''verifying'')] \<rparr> else c)"
  using assms by (cases ok; simp add: verify_one_def Let_def)+

lemma verify_one_notes: "retry_notes (snd (verify_one env beads x cs)) = retry_notes (snd cs)"
proof -
  obtain b ex c s where x: "x = (b, ex)" "cs = (c, s)" by (cases x; cases cs)
  obtain cl ok w where cl: "classify_completion env b ex s = (cl, ok, w)" by (metis prod_cases3)
  show ?thesis
  proof (cases "rc_orchestrators s b = None \<and> \<not> ev_agent_closed env b (repo_of_bead beads b s)")
    case False
    then show ?thesis
      using verify_and_decide_note(1)
      by (auto simp: verify_one_def x cl Let_def retry_notes_emit is_retry_note_def retry_notes_other
          split: prod.splits)
  next
    case True
    let ?r = "repo_of_bead beads b s"
    let ?s1 = "if ok then signal_verifying b ?r s else s"
    obtain a su s2 where v: "verify_and_decide env b ok beads ?s1 = ((a, su), s2)"
      by (metis prod.exhaust)
    obtain r s3 where e: "execute_action env b ?r (feedback_gate env b ?r a s2) cl su s2 = (r, s3)"
      by force
    have "retry_notes s3 = retry_notes s2"
      using retry_notes_execute [OF verify_and_decide_note(2) [OF v]] e by (metis snd_conv)
    also have "\<dots> = retry_notes s"
      using verify_and_decide_note(1) [OF v] by (simp add: retry_notes_other split: if_splits)
    finally show ?thesis
      using verify_one_flat(1) [OF cl _ refl _ v e] True by (simp add: x retry_notes_other)
  qed
qed

text \<open>
  Handling completed agents never writes the fix-forward note: whatever agents completed and
  however their verification went, \<open>verify_completed\<close> adds no retry note, because verification has
  already taken the work directory out of the map in which \<open>on_fail\<close> looks for it. (The note is what
  the next attempt's prompt is meant to carry.)
\<close>

theorem retry_note_is_never_written:
  "retry_notes (snd (verify_completed env beads completed s)) = retry_notes s"
proof -
  have "retry_notes (snd (foldl (\<lambda>cs x. verify_one env beads x cs) cs completed)) = retry_notes (snd cs)"
    for cs
    by (induction completed arbitrary: cs) (simp_all add: verify_one_notes)
  then show ?thesis by (simp add: verify_completed_def)
qed

section \<open>The retry budget\<close>

lemma classify_failed_exit:
  "\<exists>cl w. classify_completion env b False s = (cl, False, w) \<and> cl \<noteq> FOk"
  using classify_failed by (auto simp: classify_completion_def Let_def split: option.splits prod.splits)

definition exhausted :: "environment \<Rightarrow> bead_tracker \<Rightarrow> bool" where
  "exhausted env t \<longleftrightarrow>
     tk_retries t \<ge> ev_max_retries env \<or> tk_consecutive_reverts t \<ge> MAX_CONSECUTIVE_REVERTS"

lemma other_fields:
  "rc_trackers (complete_dispatch_of b cl r s) = rc_trackers s"
  "rc_deadlettered (complete_dispatch_of b cl r s) = rc_deadlettered s"
  "rc_orchestrators (complete_dispatch_of b cl r s) = rc_orchestrators s"
  "rc_queue (complete_dispatch_of b cl r s) = rc_queue s"
  "rc_trackers (defer_retry env b repo w r s) = rc_trackers s"
  "rc_deadlettered (defer_retry env b repo w r s) = rc_deadlettered s"
  "rc_orchestrators (defer_retry env b repo w r s) = rc_orchestrators s"
  "rc_effects (defer_retry env b repo w r s) = rc_effects s"
  by (auto simp: complete_dispatch_of_def defer_retry_def split: option.splits action_outcome.splits)

lemma defer_keeps_retries: "queue_retries repo' b' (defer_until repo b u q) = queue_retries repo' b' q"
  by (auto simp: queue_retries_def defer_until_def split: option.splits)

lemma defer_retry_retries:
  "queue_retries repo' b' (rc_queue (defer_retry env b repo w r s)) = queue_retries repo' b' (rc_queue s)"
  by (auto simp: defer_retry_def defer_keeps_retries split: option.splits action_outcome.splits)

text \<open>One failed exit of a tracked bead that nobody closed.\<close>

lemma failed_exit_step:
  assumes t: "rc_trackers s b = Some t" and o: "rc_orchestrators s b = None"
    and n: "\<not> ev_agent_closed env b (tk_repo t)"
    and s': "s' = snd (verify_one env beads (b, False) (c, s))"
  shows "rc_trackers s' b = Some (t\<lparr> tk_retries := tk_retries t + 1 \<rparr>)"
    and "rc_orchestrators s' b = None"
    and "rc_deadlettered s' = (if exhausted env t then insert b (rc_deadlettered s) else rc_deadlettered s)"
    and "queue_retries (tk_repo t) b (rc_queue s') = (if exhausted env t then 0 else tk_retries t + 1)"
    and "PersistStatus b (tk_repo t) (if exhausted env t then DeadLetter else Open) \<in> set (rc_effects s')"
proof -
  obtain cl w where cl: "classify_completion env b False s = (cl, False, w)" "cl \<noteq> FOk"
    using classify_failed_exit [of env b s] by blast
  let ?a = "if exhausted env t then Deadletter else Retry"
  have repo: "tk_repo t = repo_of_bead beads b s" using t by (simp add: repo_of_bead_def)
  have v: "verify_and_decide env b False beads (if False then signal_verifying b (tk_repo t) s else s)
      = ((?a, None), s)"
    using t by (simp add: verify_and_decide_def decide_inputs_def verify_outcome_def decide_failed exhausted_def)
  have gate: "feedback_gate env b (tk_repo t) ?a s = ?a" by (simp add: feedback_gate_def passes_def)
  obtain r s3 where e: "execute_action env b (tk_repo t) ?a cl None s = (r, s3)" by force
  have s'': "s' = complete_dispatch_of b cl r (defer_retry env b (tk_repo t) w r s3)"
    unfolding s' using verify_one_flat(1) [OF cl(1) o repo n v] gate e by simp
  have e': "rc_trackers s3 b = Some (t\<lparr> tk_retries := tk_retries t + 1 \<rparr>)
      \<and> rc_orchestrators s3 b = None
      \<and> rc_deadlettered s3 = (if exhausted env t then insert b (rc_deadlettered s) else rc_deadlettered s)
      \<and> queue_retries (tk_repo t) b (rc_queue s3) = (if exhausted env t then 0 else tk_retries t + 1)
      \<and> PersistStatus b (tk_repo t) (if exhausted env t then DeadLetter else Open) \<in> set (rc_effects s3)"
    using e cl(2) t o
    by (auto simp: execute_action_def Let_def handle_failure_def on_fail_exit_def tracker_or_insert_def
        schedule_or_drop_def queue_retries_def record_backoff_def clear_backoff_def backoff_new_def
        split: prod.splits if_splits)
  have "set (rc_effects s3) \<subseteq> set (rc_effects s')"
    by (auto simp: s'' complete_dispatch_of_def other_fields split: option.splits)
  then show "rc_trackers s' b = Some (t\<lparr> tk_retries := tk_retries t + 1 \<rparr>)"
    "rc_orchestrators s' b = None"
    "rc_deadlettered s' = (if exhausted env t then insert b (rc_deadlettered s) else rc_deadlettered s)"
    "queue_retries (tk_repo t) b (rc_queue s') = (if exhausted env t then 0 else tk_retries t + 1)"
    "PersistStatus b (tk_repo t) (if exhausted env t then DeadLetter else Open) \<in> set (rc_effects s')"
    using e' by (auto simp: s'' other_fields defer_retry_retries)
qed

text \<open>The state after \<open>n\<close> failed exits of one bead in a row.\<close>

definition after_failures :: "environment \<Rightarrow> bead list \<Rightarrow> string \<Rightarrow> nat \<Rightarrow> reconciler \<Rightarrow> reconciler" where
  "after_failures env beads b n s = snd (verify_completed env beads (replicate n (b, False)) s)"

lemma verify_one_counts: "snd (verify_one env beads x (c, s)) = snd (verify_one env beads x (c', s))"
  by (cases x) (auto simp: verify_one_def Let_def split: prod.splits)

lemma foldl_counts: "snd (foldl (\<lambda>cs x. verify_one env beads x cs) (c, s) xs)
    = snd (foldl (\<lambda>cs x. verify_one env beads x cs) (c', s) xs)"
proof (induction xs arbitrary: c c' s)
  case Nil
  then show ?case by simp
next
  case (Cons x xs)
  then show ?case
    using verify_one_counts [of env beads x c s c'] by (metis foldl_Cons prod.collapse)
qed

lemma after_failures_Suc:
  "after_failures env beads b (Suc n) s = snd (verify_one env beads (b, False) (no_counts, after_failures env beads b n s))"
proof -
  have "replicate (Suc n) (b, False) = replicate n (b, False) @ [(b, False)]"
    by (simp add: replicate_append_same)
  then show ?thesis
    unfolding after_failures_def verify_completed_def
    by (simp del: replicate_Suc) (metis prod.collapse verify_one_counts)
qed

lemma after_failures_inv:
  assumes t: "rc_trackers s b = Some t" and o: "rc_orchestrators s b = None"
    and n: "\<not> ev_agent_closed env b (tk_repo t)"
  shows "rc_trackers (after_failures env beads b k s) b = Some (t\<lparr> tk_retries := tk_retries t + k \<rparr>)
    \<and> rc_orchestrators (after_failures env beads b k s) b = None"
proof (induction k)
  case 0
  then show ?case using t o by (simp add: after_failures_def verify_completed_def)
next
  case (Suc k)
  have n': "\<not> ev_agent_closed env b (tk_repo (t\<lparr> tk_retries := tk_retries t + k \<rparr>))" using n by simp
  show ?case
    using failed_exit_step(1,2) [OF Suc.IH [THEN conjunct1] Suc.IH [THEN conjunct2] n' refl, of beads no_counts]
    by (simp add: after_failures_Suc)
qed

lemma retry_budget_is_exact_parts:
  assumes t: "rc_trackers s b = Some t" and o: "rc_orchestrators s b = None"
    and n: "\<not> ev_agent_closed env b (tk_repo t)" and r: "tk_consecutive_reverts t < MAX_CONSECUTIVE_REVERTS"
    and d: "b \<notin> rc_deadlettered s" and k: "0 < k"
  shows "b \<in> rc_deadlettered (after_failures env beads b k s) \<longleftrightarrow> ev_max_retries env < tk_retries t + k"
    and "queue_retries (tk_repo t) b (rc_queue (after_failures env beads b k s)) =
       (if ev_max_retries env < tk_retries t + k then 0 else tk_retries t + k)"
    and "PersistStatus b (tk_repo t) (if ev_max_retries env < tk_retries t + k then DeadLetter else Open)
       \<in> set (rc_effects (after_failures env beads b k s))"
proof -
  have step: "rc_deadlettered (after_failures env beads b (Suc j) s) =
        (if ev_max_retries env < tk_retries t + Suc j
         then insert b (rc_deadlettered (after_failures env beads b j s))
         else rc_deadlettered (after_failures env beads b j s))
      \<and> queue_retries (tk_repo t) b (rc_queue (after_failures env beads b (Suc j) s)) =
        (if ev_max_retries env < tk_retries t + Suc j then 0 else tk_retries t + Suc j)
      \<and> PersistStatus b (tk_repo t) (if ev_max_retries env < tk_retries t + Suc j then DeadLetter else Open)
        \<in> set (rc_effects (after_failures env beads b (Suc j) s))" for j
  proof -
    let ?t = "t\<lparr> tk_retries := tk_retries t + j \<rparr>"
    have tr: "rc_trackers (after_failures env beads b j s) b = Some ?t"
      "rc_orchestrators (after_failures env beads b j s) b = None"
      using after_failures_inv [OF t o n, of beads j] by auto
    have "\<not> ev_agent_closed env b (tk_repo ?t)" using n by simp
    note st = failed_exit_step [OF tr this after_failures_Suc]
    have ex: "exhausted env ?t \<longleftrightarrow> ev_max_retries env < tk_retries t + Suc j"
      using r by (auto simp: exhausted_def)
    show ?thesis using st(3-5) by (simp add: ex)
  qed
  have "b \<in> rc_deadlettered (after_failures env beads b j s) \<longleftrightarrow>
      0 < j \<and> ev_max_retries env < tk_retries t + j" for j
  proof (induction j)
    case 0
    then show ?case using d by (simp add: after_failures_def verify_completed_def)
  next
    case (Suc j)
    then show ?case using step [of j] by auto
  qed
  then show "b \<in> rc_deadlettered (after_failures env beads b k s) \<longleftrightarrow> ev_max_retries env < tk_retries t + k"
    using k by simp
  obtain j where "k = Suc j" using k by (cases k) auto
  then show "queue_retries (tk_repo t) b (rc_queue (after_failures env beads b k s)) =
       (if ev_max_retries env < tk_retries t + k then 0 else tk_retries t + k)"
    "PersistStatus b (tk_repo t) (if ev_max_retries env < tk_retries t + k then DeadLetter else Open)
       \<in> set (rc_effects (after_failures env beads b k s))"
    using step [of j] by simp_all
qed

text \<open>
  C3. The retry budget is exact: a tracked bead whose runs keep exiting with a failure is put back to
  open with its retries counted in its backoff record as long as the budget lasts, and is
  dead-lettered by the first failure after \<open>max_retries\<close> counted ones, so it is retried
  \<open>max_retries\<close> times at most and never forever; the dead-lettered bead has no backoff left.
\<close>

theorem retry_budget_is_exact:
  assumes t: "rc_trackers s b = Some t" and o: "rc_orchestrators s b = None"
    and n: "\<not> ev_agent_closed env b (tk_repo t)" and r: "tk_consecutive_reverts t < MAX_CONSECUTIVE_REVERTS"
    and d: "b \<notin> rc_deadlettered s" and k: "0 < k"
  shows "(b \<in> rc_deadlettered (after_failures env beads b k s) \<longleftrightarrow> ev_max_retries env < tk_retries t + k)
     \<and> (queue_retries (tk_repo t) b (rc_queue (after_failures env beads b k s)) =
       (if ev_max_retries env < tk_retries t + k then 0 else tk_retries t + k))
     \<and> (PersistStatus b (tk_repo t) (if ev_max_retries env < tk_retries t + k then DeadLetter else Open)
       \<in> set (rc_effects (after_failures env beads b k s)))"
  by (rule conjI, rule retry_budget_is_exact_parts(1) [OF assms],
      rule conjI, rule retry_budget_is_exact_parts(2) [OF assms],
      rule retry_budget_is_exact_parts(3) [OF assms])

definition sample_env :: "bool \<Rightarrow> (string \<times> (string + verify_result)) list \<Rightarrow> environment" where
  "sample_env answers tiers =
     \<lparr> ev_pipeline = \<lparr> pe_definitions = [''task'' \<mapsto> [''dev-agent'', ''staging-agent'']], pe_max_depth = 0 \<rparr>,
       ev_max_retries = 2, ev_now = 0, ev_tiers = (\<lambda>_ _ _. tiers), ev_logs = (\<lambda>_. ([], [])),
       ev_today_at = (\<lambda>_ _. None), ev_local_now = 0, ev_agent_closed = (\<lambda>_ _. False),
       ev_left_feedback = (\<lambda>_ _. answers), ev_previous_handoff = (\<lambda>_ _. answers),
       ev_thread_map = (\<lambda>_. None) \<rparr>"

definition sample_tracker :: "string \<Rightarrow> nat \<Rightarrow> bead_tracker" where
  "sample_tracker agent phase = \<lparr> tk_repo = ''r'', tk_scope = [], tk_last_generation = 0, tk_retries = 0,
       tk_consecutive_reverts = 0, tk_highest_tier = None, tk_current_agent = Some agent,
       tk_phase_index = phase, tk_issue_type = ''task'', tk_dispatch_id = Some ''b-5'' \<rparr>"

definition sample_reconciler :: "bead_tracker \<Rightarrow> reconciler" where
  "sample_reconciler t = \<lparr> rc_queue = with_backoff_base 1, rc_trackers = [''b'' \<mapsto> t],
       rc_orchestrators = (\<lambda>_. None), rc_deadlettered = {}, rc_work_dirs = [''b'' \<mapsto> (''/w'', ''r'')],
       rc_workspaces = {''b''}, rc_effects = [] \<rparr>"

theorem retry_budget_is_exact_witness:
  "''b'' \<notin> rc_deadlettered (after_failures (sample_env True []) [] ''b'' 2 (sample_reconciler (sample_tracker ''dev-agent'' 0)))
   \<and> ''b'' \<in> rc_deadlettered (after_failures (sample_env True []) [] ''b'' 3 (sample_reconciler (sample_tracker ''dev-agent'' 0)))"
  using retry_budget_is_exact [THEN conjunct1, of "sample_reconciler (sample_tracker ''dev-agent'' 0)" "''b''"
      "sample_tracker ''dev-agent'' 0" "sample_env True []" 2 "[]"]
    retry_budget_is_exact [THEN conjunct1, of "sample_reconciler (sample_tracker ''dev-agent'' 0)" "''b''"
      "sample_tracker ''dev-agent'' 0" "sample_env True []" 3 "[]"]
  by (simp add: sample_reconciler_def sample_env_def sample_tracker_def MAX_CONSECUTIVE_REVERTS_def)

section \<open>What a passing run needs, and what it does not\<close>

lemma signal_verifying_fields [simp]:
  "rc_trackers (signal_verifying b repo s) = rc_trackers s"
  "rc_deadlettered (signal_verifying b repo s) = rc_deadlettered s"
  "rc_queue (signal_verifying b repo s) = rc_queue s"
  "rc_orchestrators (signal_verifying b repo s) = rc_orchestrators s"
  "rc_work_dirs (signal_verifying b repo s) = rc_work_dirs s"
  "rc_workspaces (signal_verifying b repo s) = rc_workspaces s"
  by (simp_all add: signal_verifying_def split: prod.splits)

lemma vad_fields:
  assumes "verify_and_decide env b ok beads s = ((a, su), s2)"
  shows "rc_trackers s2 = rc_trackers s" "rc_deadlettered s2 = rc_deadlettered s"
    "rc_effects s2 = rc_effects s" "rc_workspaces s2 = rc_workspaces s" "rc_queue s2 = rc_queue s"
    "rc_orchestrators s2 = rc_orchestrators s"
  using verify_and_decide_note(3) [OF assms] by auto

lemma missing_feedback_is_never_deadlettered_parts:
  assumes cl: "classify_completion env b ex s = (FOk, True, w)"
    and t: "rc_trackers s b = Some t" "tk_dispatch_id t = Some d"
    and o: "rc_orchestrators s b = None" and n: "\<not> ev_agent_closed env b (tk_repo t)"
    and a: "passes (fst (fst (verify_and_decide env b True beads (signal_verifying b (tk_repo t) s))))"
    and f: "\<not> ev_left_feedback env (WorkRef (tk_repo t) (tk_scope t) b) d"
    and s': "s' = snd (verify_one env beads (b, ex) (c, s))"
  shows "rc_deadlettered s' = rc_deadlettered s"
    and "PersistStatus b (tk_repo t) Open \<in> set (rc_effects s')"
    and "vr_failed (fst (verify_one env beads (b, ex) (c, s))) = vr_failed c + 1"
proof -
  obtain act su s2 where v: "verify_and_decide env b True beads (signal_verifying b (tk_repo t) s) = ((act, su), s2)"
    by (metis prod.exhaust)
  have repo: "tk_repo t = repo_of_bead beads b s" using t by (simp add: repo_of_bead_def)
  have t2: "rc_trackers s2 b = Some t" using vad_fields(1) [OF v] t by simp
  have gate: "feedback_gate env b (tk_repo t) act s2 = Retry"
    using a f t2 t(2) v by (simp add: feedback_gate_def)
  obtain r s3 where e: "execute_action env b (tk_repo t) Retry FOk su s2 = (r, s3)" by force
  have v': "verify_and_decide env b True beads (if True then signal_verifying b (tk_repo t) s else s) = ((act, su), s2)"
    using v by simp
  have e1: "execute_action env b (tk_repo t) (feedback_gate env b (tk_repo t) act s2) FOk su s2 = (r, s3)"
    using e gate by simp
  note flat = verify_one_flat [OF cl o repo n v' e1, of c]
  have hf: "rc_deadlettered (handle_failure env b True su True s2) = rc_deadlettered s2"
    by (simp add: handle_failure_def on_fail_def Let_def split: option.splits)
  have r: "r = Retrying" and d3: "rc_deadlettered s3 = rc_deadlettered s"
    and p3: "PersistStatus b (tk_repo t) Open \<in> set (rc_effects s3)"
    using e hf vad_fields(2) [OF v] by (auto simp: execute_action_def Let_def split: prod.splits)
  have s'': "s' = complete_dispatch_of b FOk r (defer_retry env b (tk_repo t) w r s3)"
    using flat(1) s' by simp
  show "rc_deadlettered s' = rc_deadlettered s" using d3 by (simp add: s'' other_fields)
  show "PersistStatus b (tk_repo t) Open \<in> set (rc_effects s')"
    using p3 by (auto simp: s'' complete_dispatch_of_def other_fields split: option.splits)
  show "vr_failed (fst (verify_one env beads (b, ex) (c, s))) = vr_failed c + 1"
    using flat(2) r by (simp add: tally_def)
qed

text \<open>
  A run that passes verification but left no feedback is retried, whatever its retry count: the
  outcome is a retry and the bead is put back to open and not dead-lettered even when its budget is
  long used up, so an agent that never leaves feedback is dispatched again without bound.
\<close>

theorem missing_feedback_is_never_deadlettered:
  assumes cl: "classify_completion env b ex s = (FOk, True, w)"
    and t: "rc_trackers s b = Some t" "tk_dispatch_id t = Some d"
    and o: "rc_orchestrators s b = None" and n: "\<not> ev_agent_closed env b (tk_repo t)"
    and a: "passes (fst (fst (verify_and_decide env b True beads (signal_verifying b (tk_repo t) s))))"
    and f: "\<not> ev_left_feedback env (WorkRef (tk_repo t) (tk_scope t) b) d"
    and s': "s' = snd (verify_one env beads (b, ex) (c, s))"
  shows "(rc_deadlettered s' = rc_deadlettered s)
     \<and> (PersistStatus b (tk_repo t) Open \<in> set (rc_effects s'))
     \<and> (vr_failed (fst (verify_one env beads (b, ex) (c, s))) = vr_failed c + 1)"
  by (rule conjI, rule missing_feedback_is_never_deadlettered_parts(1) [OF assms],
      rule conjI, rule missing_feedback_is_never_deadlettered_parts(2) [OF assms],
      rule missing_feedback_is_never_deadlettered_parts(3) [OF assms])

theorem missing_feedback_is_never_deadlettered_witness:
  "rc_deadlettered (snd (verify_one (sample_env False [(''commit'', Inr VrPass)]) [] (''b'', True)
      (no_counts, sample_reconciler ((sample_tracker ''dev-agent'' 0)\<lparr> tk_retries := 99 \<rparr>)))) = {}"
proof -
  let ?t = "(sample_tracker ''dev-agent'' 0)\<lparr> tk_retries := 99 \<rparr>"
  let ?s = "sample_reconciler ?t"
  let ?env = "sample_env False [(''commit'', Inr VrPass)]"
  have cl: "classify_completion ?env ''b'' True ?s = (FOk, True, None)"
    by (simp add: classify_completion_def sample_env_def sample_reconciler_def is_session_limit_notice_def
        session_limit_notices_def trim_start_def to_lowercase_def starts_with_def)
  have a: "passes (fst (fst (verify_and_decide ?env ''b'' True [] (signal_verifying ''b'' (tk_repo ?t) ?s))))"
    by (simp add: verify_and_decide_def decide_inputs_def verify_outcome_def verify_agent_def
        sample_env_def sample_reconciler_def sample_tracker_def READ_ONLY_AGENTS_def verifier_run_def
        is_pass_def summary_passed_def decide_def passes_def next_agent_def agents_for_def
        split: option.splits)
  show ?thesis
    using missing_feedback_is_never_deadlettered [THEN conjunct1, OF cl, of ?t "''b-5''", OF _ _ _ _ a _ refl]
    by (simp add: sample_env_def sample_reconciler_def sample_tracker_def)
qed

section \<open>A pull request opens only for verified work\<close>















section \<open>Two ways a bead slips through\<close>

text \<open>
  A verification that could not be carried out counts as no verification at all: when a tier's
  check errs before any tier fails, the decision for a successful run is the same as without a
  verifier, so the bead advances, or its pull request is opened, with nothing verified.
\<close>

theorem verifier_error_passes:
  assumes t: "rc_trackers s b = Some t" "tk_current_agent t = Some a" "a \<notin> set READ_ONLY_AGENTS"
    and w: "rc_work_dirs s b = Some (dir, repo)"
    and e: "\<And>cc. verifier_run (ev_tiers env repo dir cc) = Inl err"
  shows "fst (verify_and_decide env b True beads s) =
     (case next_agent (ev_pipeline env) (tk_issue_type t) a of
        None \<Rightarrow> (Terminal, None)
      | Some nx \<Rightarrow> (Advance nx ((case position nx (agents_for (ev_pipeline env) (tk_issue_type t)) of
            Some i \<Rightarrow> i | None \<Rightarrow> 0) mod 256), None))"
proof -
  have "verify_agent env b cc x s = (None, s\<lparr> rc_work_dirs := (rc_work_dirs s)(b := None) \<rparr>)" for cc x
    using t w e by (simp add: verify_agent_def)
  then show ?thesis
    using t by (simp add: verify_and_decide_def decide_inputs_def verify_outcome_def decide_def
        split: option.splits)
qed

theorem verifier_error_passes_witness:
  "fst (verify_and_decide (sample_env True [(''compile'', Inl ''permission denied'')]) ''b'' True []
      (sample_reconciler (sample_tracker ''dev-agent'' 0))) = (Advance ''staging-agent'' 1, None)"
proof -
  have e: "verifier_run (ev_tiers (sample_env True [(''compile'', Inl ''permission denied'')]) ''r'' ''/w'' cc)
      = Inl ''permission denied''" for cc
    by (simp add: sample_env_def verifier_run_def)
  show ?thesis
    using verifier_error_passes [OF _ _ _ _ e, of "sample_reconciler (sample_tracker ''dev-agent'' 0)" "''b''"
        "sample_tracker ''dev-agent'' 0" "''dev-agent''" "[]"]
    by (simp add: sample_reconciler_def sample_tracker_def READ_ONLY_AGENTS_def sample_env_def
        next_agent_def agents_for_def)
qed

definition status_writes :: "string \<Rightarrow> reconciler \<Rightarrow> bead_state list" where
  "status_writes b s = List.map_filter (\<lambda>e. case e of
      PersistStatus b' _ st \<Rightarrow> if b' = b then Some st else None | _ \<Rightarrow> None) (rc_effects s)"

lemma status_writes_emit:
  "status_writes b (emit e s) = status_writes b s @
     (case e of PersistStatus b' _ st \<Rightarrow> if b' = b then [st] else [] | _ \<Rightarrow> [])"
  by (auto simp: status_writes_def List.map_filter_def split: effect.splits)

lemma status_writes_frame:
  "status_writes b (on_pass b' s) = status_writes b s"
  "status_writes b (s\<lparr> rc_work_dirs := W \<rparr>) = status_writes b s"
  "status_writes b (defer_retry env b' repo w r s) = status_writes b s"
  "status_writes b (complete_dispatch_of b' cl r s) = status_writes b s"
  by (auto simp: status_writes_def rc_simps other_fields complete_dispatch_of_def List.map_filter_def
      split: option.splits)

lemma unreadable_handoff_strands_bead_parts:
  assumes cl: "classify_completion env b ex s = (FOk, True, w)"
    and t: "rc_trackers s b = Some t" "tk_phase_index t = Suc p"
    and o: "rc_orchestrators s b = None" and n: "\<not> ev_agent_closed env b (tk_repo t)"
    and v: "verify_and_decide env b True beads (signal_verifying b (tk_repo t) s) = ((Advance nx ph, su), s2)"
    and f: "\<And>d. ev_left_feedback env (WorkRef (tk_repo t) (tk_scope t) b) d"
    and h: "b \<in> rc_workspaces s" "\<not> ev_previous_handoff env b p"
    and r: "(c', s') = verify_one env beads (b, ex) (c, s)"
  shows "vr_passed c' = vr_passed c + 1 \<and> (b, tk_repo t, nx) \<in> set (vr_phase_advances c')"
    and "rc_trackers s' b = Some (t\<lparr> tk_consecutive_reverts := 0 \<rparr>)"
    and "status_writes b s' = status_writes b s @ [Verifying]"
    and "bead_state_of (x\<lparr> b_status := state_display Verifying \<rparr>) \<notin> {Open, Dispatched}"
proof -
  have repo: "tk_repo t = repo_of_bead beads b s" using t by (simp add: repo_of_bead_def)
  have v': "verify_and_decide env b True beads (if True then signal_verifying b (tk_repo t) s else s)
      = ((Advance nx ph, su), s2)" using v by simp
  have s2: "rc_trackers s2 b = Some t" "b \<in> rc_workspaces s2" "rc_effects s2 = rc_effects (signal_verifying b (tk_repo t) s)"
    using vad_fields [OF v] t h by simp_all
  have gate: "feedback_gate env b (tk_repo t) (Advance nx ph) s2 = Advance nx ph"
    using f s2 by (simp add: feedback_gate_def passes_def split: option.splits)
  obtain r' s3 where e: "execute_action env b (tk_repo t) (Advance nx ph) FOk su s2 = (r', s3)" by force
  have e1: "execute_action env b (tk_repo t) (feedback_gate env b (tk_repo t) (Advance nx ph) s2) FOk su s2 = (r', s3)"
    using e gate by simp
  note flat = verify_one_flat [OF cl o repo n v' e1, of c]
  have s': "s' = complete_dispatch_of b FOk r' (defer_retry env b (tk_repo t) w r' s3)"
    and c': "c' = tally b (tk_repo t) r' (c\<lparr> vr_status_updates := vr_status_updates c @ [(b, tk_repo t, ''verifying'')] \<rparr>)"
    using flat r by (metis snd_conv, metis fst_conv)
  have w3: "write_handoff_and_advance env b (tk_repo t) nx u = u"
    if "rc_trackers u b = Some (t\<lparr> tk_consecutive_reverts := 0 \<rparr>)" "b \<in> rc_workspaces u" for u
    using that t h by (simp add: write_handoff_and_advance_def tracker_agent_phase_def)
  have r': "r' = Advanced nx" and tr3: "rc_trackers s3 b = Some (t\<lparr> tk_consecutive_reverts := 0 \<rparr>)"
    and st3: "status_writes b s3 = status_writes b s2"
    using e s2 by (auto simp: execute_action_def Let_def w3 rc_simps status_writes_frame status_writes_emit
        split: prod.splits)
  show "vr_passed c' = vr_passed c + 1 \<and> (b, tk_repo t, nx) \<in> set (vr_phase_advances c')"
    by (simp add: c' r' tally_def)
  show "rc_trackers s' b = Some (t\<lparr> tk_consecutive_reverts := 0 \<rparr>)"
    using tr3 by (simp add: s' other_fields)
  have "status_writes b s2 = status_writes b (signal_verifying b (tk_repo t) s)"
    using s2(3) by (simp add: status_writes_def)
  also have "\<dots> = status_writes b s @ [Verifying]"
    by (simp add: signal_verifying_def status_writes_emit split: prod.splits)
  finally show "status_writes b s' = status_writes b s @ [Verifying]"
    using st3 by (simp add: s' status_writes_frame)
  show "bead_state_of (x\<lparr> b_status := state_display Verifying \<rparr>) \<notin> {Open, Dispatched}"
    by (simp add: bead_state_of_def state_of_str_def)
qed

text \<open>
  A phase whose predecessor's handoff cannot be read is counted as passed and reported as
  advanced, but nothing advances: the agent and phase of the bead's tracker stay what they were and
  the last status written is verifying, neither open (what triage dispatches) nor dispatched (what
  the recovery of stuck beads resets).
\<close>

theorem unreadable_handoff_strands_bead:
  assumes cl: "classify_completion env b ex s = (FOk, True, w)"
    and t: "rc_trackers s b = Some t" "tk_phase_index t = Suc p"
    and o: "rc_orchestrators s b = None" and n: "\<not> ev_agent_closed env b (tk_repo t)"
    and v: "verify_and_decide env b True beads (signal_verifying b (tk_repo t) s) = ((Advance nx ph, su), s2)"
    and f: "\<And>d. ev_left_feedback env (WorkRef (tk_repo t) (tk_scope t) b) d"
    and h: "b \<in> rc_workspaces s" "\<not> ev_previous_handoff env b p"
    and r: "(c', s') = verify_one env beads (b, ex) (c, s)"
  shows "(vr_passed c' = vr_passed c + 1 \<and> (b, tk_repo t, nx) \<in> set (vr_phase_advances c'))
     \<and> (rc_trackers s' b = Some (t\<lparr> tk_consecutive_reverts := 0 \<rparr>))
     \<and> (status_writes b s' = status_writes b s @ [Verifying])
     \<and> (bead_state_of (x\<lparr> b_status := state_display Verifying \<rparr>) \<notin> {Open, Dispatched})"
  by (rule conjI, rule unreadable_handoff_strands_bead_parts(1) [OF assms],
      rule conjI, rule unreadable_handoff_strands_bead_parts(2) [OF assms],
      rule conjI, rule unreadable_handoff_strands_bead_parts(3) [OF assms],
      rule unreadable_handoff_strands_bead_parts(4) [OF assms])

definition three_phase_env :: environment where
  "three_phase_env = (sample_env True [(''commit'', Inr VrPass)])\<lparr>
     ev_pipeline := \<lparr> pe_definitions = [''task'' \<mapsto> [''dev-agent'', ''prod-agent'', ''staging-agent'']], pe_max_depth = 0 \<rparr>,
     ev_previous_handoff := (\<lambda>_ _. False) \<rparr>"

theorem unreadable_handoff_strands_bead_witness:
  "status_writes ''b'' (snd (verify_one three_phase_env [] (''b'', True)
     (no_counts, sample_reconciler (sample_tracker ''prod-agent'' 1)))) = [Verifying]"
proof -
  let ?t = "sample_tracker ''prod-agent'' 1"
  let ?s = "sample_reconciler ?t"
  have cl: "classify_completion three_phase_env ''b'' True ?s = (FOk, True, None)"
    by (simp add: classify_completion_def three_phase_env_def sample_env_def sample_reconciler_def
        is_session_limit_notice_def session_limit_notices_def trim_start_def to_lowercase_def starts_with_def)
  have v: "\<exists>su s2. verify_and_decide three_phase_env ''b'' True [] (signal_verifying ''b'' ''r'' ?s)
      = ((Advance ''staging-agent'' 2, su), s2)"
    by (simp add: verify_and_decide_def decide_inputs_def verify_outcome_def verify_agent_def
        three_phase_env_def sample_env_def sample_reconciler_def sample_tracker_def READ_ONLY_AGENTS_def
        verifier_run_def is_pass_def summary_passed_def decide_def next_agent_def agents_for_def)
  obtain su s2 where v': "verify_and_decide three_phase_env ''b'' True [] (signal_verifying ''b'' (tk_repo ?t) ?s)
      = ((Advance ''staging-agent'' 2, su), s2)"
    using v by (auto simp: sample_tracker_def)
  obtain c' s' where r: "(c', s') = verify_one three_phase_env [] (''b'', True) (no_counts, ?s)"
    by (metis prod.exhaust)
  have "status_writes ''b'' s' = status_writes ''b'' ?s @ [Verifying]"
    using unreadable_handoff_strands_bead [THEN conjunct2, THEN conjunct2, THEN conjunct1, OF cl _ _ _ _ v' _ _ _ r, of 0]
    by (simp add: three_phase_env_def sample_env_def sample_reconciler_def sample_tracker_def)
  moreover have "status_writes ''b'' ?s = []"
    by (simp add: status_writes_def sample_reconciler_def List.map_filter_def)
  ultimately show ?thesis using r by (metis append_Nil snd_conv)
qed

end
