(* ===== verification/Triage.thy ===== *)
theory Triage
  imports Completion
begin

text \<open>
  Which beads the reconciler queues for dispatch: the similarity and the file overlap of two beads
  (\<open>src/epic.rs\<close>, \<open>src/scanner.rs\<close>), the cross-repository dependencies
  (\<open>compute_cross_repo_blocked\<close> of \<open>src/reconcile/mod.rs\<close>) and the triage itself
  (\<open>src/reconcile/triage.rs\<close>).

  The plugins that can veto a bead, the hash behind the generation and the clock are parameters.
\<close>

section \<open>Similarity of two beads\<close>

text \<open>Scores are reals where the code has \<open>f64\<close>; the en and em dashes among the separators of a
  sequence marker are not ASCII and never occur in the text modelled here.\<close>

definition TITLE_STOPWORDS :: "string list" where
  "TITLE_STOPWORDS =
     [''fix'', ''add'', ''replace'', ''extract'', ''implement'', ''remove'', ''update'', ''refactor'',
      ''consolidate'', ''move'', ''rename'', ''clean'', ''cleanup'', ''use'', ''make'', ''convert'',
      ''change'', ''improve'', ''handle'',
      ''the'', ''a'', ''an'', ''in'', ''to'', ''for'', ''of'', ''with'', ''from'', ''and'', ''on'',
      ''into'', ''by'', ''up'']"

definition jaccard :: "string list \<Rightarrow> string list \<Rightarrow> real" where
  "jaccard xs ys =
     (let intersection = card (set xs \<inter> set ys); union = card (set xs \<union> set ys)
      in if union = 0 then 0 else real intersection / real union)"

definition jaccard_similarity :: "string \<Rightarrow> string \<Rightarrow> real" where
  "jaccard_similarity a b =
     (let xs = split_whitespace a; ys = split_whitespace b
      in if xs = [] \<and> ys = [] then 1 else jaccard xs ys)"

definition title_words :: "string \<Rightarrow> string list" where
  "title_words a =
     filter (\<lambda>w. \<not> List.member TITLE_STOPWORDS w) (map to_lowercase (split_whitespace a))"

definition jaccard_filtered :: "string \<Rightarrow> string \<Rightarrow> real" where
  "jaccard_filtered a b =
     (let xs = title_words a; ys = title_words b
      in if xs = [] \<and> ys = [] then 0 else jaccard xs ys)"

definition bracket_prefix :: "string \<Rightarrow> string option" where
  "bracket_prefix s =
     (case trim s of
        [] \<Rightarrow> None
      | c # rest \<Rightarrow> if c = CHR ''['' then map_option fst (split_once (CHR '']'') rest) else None)"

definition eq_ignore_ascii_case :: "string \<Rightarrow> string \<Rightarrow> bool" where
  "eq_ignore_ascii_case a b \<longleftrightarrow> to_lowercase a = to_lowercase b"

definition scope_prefix_similarity :: "string \<Rightarrow> string \<Rightarrow> real" where
  "scope_prefix_similarity a b =
     (if (case (split_once (CHR '':'') a, split_once (CHR '':'') b) of
            (Some (pa, _), Some (pb, _)) \<Rightarrow> eq_ignore_ascii_case (trim pa) (trim pb) \<and> trim pa \<noteq> []
          | _ \<Rightarrow> False) then 1
      else if (case (bracket_prefix a, bracket_prefix b) of
            (Some pa, Some pb) \<Rightarrow> eq_ignore_ascii_case pa pb
          | _ \<Rightarrow> False) then 1
      else 0)"

definition strip_n_of_m :: "string \<Rightarrow> string" where
  "strip_n_of_m s0 =
     (let s = trim s0
      in case rsplit_once (CHR ''('') s of
           None \<Rightarrow> s
         | Some (before, candidate) \<Rightarrow>
             if candidate \<noteq> [] \<and> last candidate = CHR '')''
                \<and> list_all (\<lambda>c. is_ascii_digit c \<or> c = CHR ''/'') (butlast candidate)
             then trim before else s)"

fun strip_marker :: "string \<Rightarrow> string list \<Rightarrow> string option" where
  "strip_marker s [] = None"
| "strip_marker s (prefix # prefixes) =
     (case strip_prefix s prefix of
        None \<Rightarrow> strip_marker s prefixes
      | Some rest \<Rightarrow>
          (let rest' = dropWhile (\<lambda>c. is_ascii_digit c \<or> List.member [CHR ''.'', CHR '':'', CHR ''-'', CHR '' ''] c
                         \<or> (is_alphabetic c \<and> length (trim rest) \<le> 2)) (trim rest);
               trimmed = dropWhile (List.member [CHR '':'', CHR ''-'', CHR '' '']) rest'
           in if length trimmed < length s then Some trimmed else strip_marker s prefixes))"

definition strip_sequence_tokens :: "string \<Rightarrow> string" where
  "strip_sequence_tokens s0 =
     (let s = trim s0
      in case strip_marker s [''step'', ''phase'', ''part'', ''stage''] of
           Some r \<Rightarrow> r | None \<Rightarrow> strip_n_of_m s)"

definition sequential_similarity :: "string \<Rightarrow> string \<Rightarrow> real" where
  "sequential_similarity a b =
     (let al = to_lowercase a; bl = to_lowercase b;
          sa = strip_sequence_tokens al; sb = strip_sequence_tokens bl;
          na = strip_n_of_m al; nb = strip_n_of_m bl
      in if sa = sb \<and> sa \<noteq> [] \<and> al \<noteq> bl then 1
         else if na = nb \<and> na \<noteq> [] \<and> al \<noteq> bl then 1
         else 0)"

definition combined_similarity :: "bead \<Rightarrow> bead \<Rightarrow> real" where
  "combined_similarity a b =
     (let title_sim = jaccard_filtered (b_title a) (b_title b);
          desc_sim = (if b_description a = [] \<and> b_description b = [] then 0
                      else jaccard_similarity (b_description a) (b_description b));
          scope_sim = scope_prefix_similarity (b_title a) (b_title b);
          seq_sim = sequential_similarity (b_title a) (b_title b);
          weighted = 4 / 10 * title_sim + 2 / 10 * desc_sim + 2 / 10 * scope_sim + 2 / 10 * seq_sim;
          best_signal = max (max title_sim scope_sim) seq_sim
      in max weighted (best_signal * (85 / 100)))"

definition is_dominated_by :: "bead \<Rightarrow> bead list \<Rightarrow> string option" where
  "is_dominated_by b active_beads =
     map_option b_id (List.find (\<lambda>other. b_id other \<noteq> b_id b \<and> b_repo b = b_repo other
        \<and> combined_similarity b other > 5 / 10) active_beads)"

section \<open>Overlap of files\<close>

definition strip_dot_slash :: "string \<Rightarrow> string" where
  "strip_dot_slash f = (case strip_prefix f ''./'' of None \<Rightarrow> f | Some r \<Rightarrow> r)"

definition scopes_overlap :: "string \<Rightarrow> string \<Rightarrow> bool" where
  "scopes_overlap a0 b0 =
     (let a = strip_dot_slash a0; b = strip_dot_slash b0
      in if a = b then True
         else if ends_with a ''/'' \<and> starts_with b a then True
         else if ends_with b ''/'' \<and> starts_with a b then True
         else False)"

definition bead_scopes :: "bead \<Rightarrow> string list" where
  "bead_scopes b = map strip_dot_slash (b_files b @ b_test_files b)"

definition has_file_overlap :: "bead \<Rightarrow> bead list \<Rightarrow> string option" where
  "has_file_overlap b active_beads =
     (if b_files b = [] \<and> b_test_files b = [] then None
      else map_option b_id (List.find (\<lambda>other.
             \<not> (b_id other = b_id b \<or> b_repo other \<noteq> b_repo b)
             \<and> \<not> (b_files other = [] \<and> b_test_files other = [])
             \<and> list_ex (\<lambda>cs. list_ex (scopes_overlap cs) (bead_scopes other)) (bead_scopes b))
           active_beads))"

section \<open>Cross-repository blocking\<close>

text \<open>The scan the reconciler works on: the open beads of every repository, ready ones first, then
  by priority. \<open>list_beads\<close> is the filter of the query both stores run.\<close>

definition list_beads :: "bead list \<Rightarrow> bead list" where
  "list_beads stored = filter (\<lambda>b. b_status b \<noteq> ''closed'' \<and> b_status b \<noteq> ''done'') stored"

definition scan_repos :: "bead list list \<Rightarrow> bead list" where
  "scan_repos repos = sort_key (\<lambda>b. (\<not> is_ready b, b_priority b)) (concat (map list_beads repos))"

text \<open>\<open>None\<close> is a query that failed or a store that is not there.\<close>

definition compute_cross_repo_blocked :: "cross_repo_dep list option \<Rightarrow> bead list \<Rightarrow> string set" where
  "compute_cross_repo_blocked deps beads =
     (case deps of
        None \<Rightarrow> {}
      | Some ds \<Rightarrow>
          (let status_map = map_of (rev (map (\<lambda>b. ((b_repo b, b_id b), b_status b)) beads));
               target_status = (\<lambda>d. case status_map (wr_repo (cd_to d), wr_bead_id (cd_to d)) of
                   None \<Rightarrow> ''open'' | Some s \<Rightarrow> s)
           in (\<lambda>d. wr_bead_id (cd_from d)) ` set (filter (\<lambda>d. target_status d \<noteq> ''done'' \<and> target_status d \<noteq> ''closed'') ds)))"

section \<open>Triage\<close>

datatype dispatch_approval = ApprovalNone | Approved | ApprovalRejected

definition admits :: "dispatch_approval \<Rightarrow> bool" where
  "admits a \<longleftrightarrow> a = Approved"

record repo_config =
  rp_name :: string
  rp_self_managed :: bool
  rp_approval :: dispatch_approval

definition GLOBAL_REPO :: string where
  "GLOBAL_REPO = ''global''"

record triage_env =
  te_target_bead :: "string option"
  te_require_approval :: bool
  te_repos :: "repo_config list"
  te_remote_repos :: "repo_config list"
  te_overnight :: bool
  te_threshold :: real
  te_now :: int
  te_instant :: "string \<Rightarrow> nat"
  te_sha256 :: "string \<Rightarrow> nat"
  te_hook_veto :: "string \<Rightarrow> string \<Rightarrow> string option"
  te_thread_map :: "string \<Rightarrow> string option"
  te_cross_blocked :: "string set"
  te_active :: "string list"

definition approval_held :: "triage_env \<Rightarrow> bead \<Rightarrow> bool" where
  "approval_held env b \<longleftrightarrow>
     te_require_approval env \<and> te_target_bead env = None
     \<and> \<not> (b_repo b = GLOBAL_REPO
          \<or> (case List.find (\<lambda>r. rp_name r = b_repo b) (te_repos env @ te_remote_repos env) of
               None \<Rightarrow> False | Some r \<Rightarrow> admits (rp_approval r)))"

definition repo_busy :: "triage_env \<Rightarrow> reconciler \<Rightarrow> bead \<Rightarrow> bool" where
  "repo_busy env s b \<longleftrightarrow>
     list_ex (\<lambda>a. case rc_trackers s a of None \<Rightarrow> False | Some t \<Rightarrow> tk_repo t = b_repo b) (te_active env)"

definition thread_mate_active :: "triage_env \<Rightarrow> bead \<Rightarrow> bool" where
  "thread_mate_active env b \<longleftrightarrow>
     (case te_thread_map env (b_id b) of
        None \<Rightarrow> False
      | Some th \<Rightarrow> list_ex (\<lambda>a. te_thread_map env a = Some th) (te_active env))"

text \<open>The filters that a targeted run (\<open>--bead\<close>) bypasses, and those it does not.\<close>

definition bypassable_filters :: "triage_env \<Rightarrow> reconciler \<Rightarrow> bead \<Rightarrow> bool" where
  "bypassable_filters env s b \<longleftrightarrow>
     bead_state_of b = Open
     \<and> b_id b \<notin> rc_deadlettered s
     \<and> passes_severity_floor b (wq_min_priority (rc_queue s))
     \<and> b_issue_type b \<noteq> ''epic''
     \<and> \<not> needs_refinement b
     \<and> \<not> is_blocked b
     \<and> b_id b \<notin> te_cross_blocked env
     \<and> \<not> approval_held env b"

definition admitted :: "triage_env \<Rightarrow> reconciler \<Rightarrow> bead \<Rightarrow> bool" where
  "admitted env s b \<longleftrightarrow>
     (case te_target_bead env of
        Some target \<Rightarrow> b_id b = target
      | None \<Rightarrow> bypassable_filters env s b)
     \<and> \<not> List.member (te_active env) (b_id b)
     \<and> \<not> repo_busy env s b
     \<and> \<not> thread_mate_active env b"

definition competing_beads :: "triage_env \<Rightarrow> bead list \<Rightarrow> reconciler \<Rightarrow> bead \<Rightarrow> bead list" where
  "competing_beads env beads s b =
     filter (\<lambda>other. b_id other \<noteq> b_id b
       \<and> (List.member (te_active env) (b_id other) \<or> queue_contains (b_repo other) (b_id other) (rc_queue s)))
       beads"

definition final_score :: "triage_env \<Rightarrow> bead \<Rightarrow> nat \<Rightarrow> real" where
  "final_score env b retries =
     (if te_target_bead env \<noteq> None then 1
      else
        (let s = (if te_overnight env then triage_score_overnight b retries (te_now env)
                  else triage_score b retries (te_now env))
         in if list_ex (\<lambda>r. rp_name r = b_repo b \<and> rp_self_managed r) (te_repos env)
            then min (s + 15 / 100) 1 else s))"

definition already_processed :: "triage_env \<Rightarrow> reconciler \<Rightarrow> bead \<Rightarrow> bool" where
  "already_processed env s b \<longleftrightarrow>
     (case rc_trackers s (b_id b) of
        None \<Rightarrow> False
      | Some t \<Rightarrow> tk_last_generation t = generation (te_sha256 env) b \<and> tk_retries t = 0)"

definition triage_one :: "triage_env \<Rightarrow> bead list \<Rightarrow> bead \<Rightarrow> nat \<times> reconciler \<Rightarrow> nat \<times> reconciler" where
  "triage_one env beads b ns =
     (let (n, s0) = ns;
          s = (if bead_state_of b = DeadLetter
               then s0\<lparr> rc_deadlettered := rc_deadlettered s0 - {b_id b} \<rparr> else s0);
          competing = competing_beads env beads s b;
          retries = queue_retries (b_repo b) (b_id b) (rc_queue s);
          score = final_score env b retries
      in if \<not> admitted env s b then (n, s)
         else if is_dominated_by b competing \<noteq> None then (n, s)
         else if has_file_overlap b competing \<noteq> None then (n, s)
         else if \<not> score \<ge> te_threshold env then (n, s)
         else if already_processed env s b then (n, s)
         else if te_hook_veto env (b_id b) (b_repo b) \<noteq> None then (n, s)
         else
           (let (enqueued, q) = enqueue \<lparr> q_bead_id = b_id b, q_repo = b_repo b, q_score = score,
                  q_enqueued_at = te_instant env (b_id b), q_retries = retries,
                  q_generation = generation (te_sha256 env) b \<rparr> (rc_queue s)
            in (if enqueued then n + 1 else n, s\<lparr> rc_queue := q \<rparr>)))"

definition triage :: "triage_env \<Rightarrow> bead list \<Rightarrow> reconciler \<Rightarrow> nat \<times> reconciler" where
  "triage env beads s = foldl (\<lambda>ns b. triage_one env beads b ns) (0, s) beads"

section \<open>What the similarity promises\<close>

lemma jaccard_bounds: "0 \<le> jaccard xs ys \<and> jaccard xs ys \<le> 1"
proof -
  have "card (set xs \<inter> set ys) \<le> card (set xs \<union> set ys)" by (intro card_mono) auto
  then show ?thesis by (simp add: jaccard_def Let_def divide_simps)
qed

lemma jaccard_sym: "jaccard xs ys = jaccard ys xs"
  by (simp add: jaccard_def Int_commute Un_commute)

lemma jaccard_same: "xs \<noteq> [] \<Longrightarrow> jaccard xs xs = 1"
  by (simp add: jaccard_def Let_def)

lemma signal_bounds:
  "0 \<le> jaccard_filtered a b \<and> jaccard_filtered a b \<le> 1"
  "0 \<le> jaccard_similarity a b \<and> jaccard_similarity a b \<le> 1"
  "0 \<le> scope_prefix_similarity a b \<and> scope_prefix_similarity a b \<le> 1"
  "0 \<le> sequential_similarity a b \<and> sequential_similarity a b \<le> 1"
  using jaccard_bounds
  by (simp_all add: jaccard_filtered_def jaccard_similarity_def scope_prefix_similarity_def
      sequential_similarity_def Let_def)

lemma signal_sym:
  "jaccard_filtered a b = jaccard_filtered b a"
  "jaccard_similarity a b = jaccard_similarity b a"
  "scope_prefix_similarity a b = scope_prefix_similarity b a"
  "sequential_similarity a b = sequential_similarity b a"
proof -
  show "jaccard_filtered a b = jaccard_filtered b a" "jaccard_similarity a b = jaccard_similarity b a"
    by (auto simp: jaccard_filtered_def jaccard_similarity_def Let_def jaccard_sym)
  have flip: "(x = y \<and> x \<noteq> [] \<and> u \<noteq> v) = (y = x \<and> y \<noteq> [] \<and> v \<noteq> u)" for x y :: string and u v :: string
    by auto
  show "sequential_similarity a b = sequential_similarity b a"
    unfolding sequential_similarity_def Let_def
    by (subst (1 2) flip) (rule refl)
  have "eq_ignore_ascii_case x y = eq_ignore_ascii_case y x" for x y
    by (auto simp: eq_ignore_ascii_case_def)
  moreover have "eq_ignore_ascii_case x y \<Longrightarrow> x \<noteq> [] \<longleftrightarrow> y \<noteq> []" for x y
    by (auto simp: eq_ignore_ascii_case_def to_lowercase_def)
  ultimately show "scope_prefix_similarity a b = scope_prefix_similarity b a"
    unfolding scope_prefix_similarity_def
    by (cases "split_once (CHR '':'') a"; cases "split_once (CHR '':'') b"; cases "bracket_prefix a"; cases "bracket_prefix b")
       (auto split: prod.splits)
qed

lemma domination_is_similarity_parts:
  "0 \<le> combined_similarity a b \<and> combined_similarity a b \<le> 1"
  "combined_similarity a b = combined_similarity b a"
  "is_dominated_by a actives = None \<longleftrightarrow>
     (\<forall>b \<in> set actives. b_id b \<noteq> b_id a \<longrightarrow> b_repo b = b_repo a \<longrightarrow> combined_similarity a b \<le> 1 / 2)"
  "b \<in> set actives \<Longrightarrow> b_id b \<noteq> b_id a \<Longrightarrow> b_repo b = b_repo a \<Longrightarrow>
     set (title_words (b_title a)) = set (title_words (b_title b)) \<Longrightarrow> title_words (b_title a) \<noteq> [] \<Longrightarrow>
     is_dominated_by a actives \<noteq> None"
proof -
  show "0 \<le> combined_similarity a b \<and> combined_similarity a b \<le> 1"
    using signal_bounds(1,3,4) [of "b_title a" "b_title b"] signal_bounds(2) [of "b_description a" "b_description b"]
    by (auto simp: combined_similarity_def Let_def max_def)
  show "combined_similarity a b = combined_similarity b a"
    using signal_sym(1,3,4) [of "b_title a" "b_title b"] signal_sym(2) [of "b_description a" "b_description b"]
    by (auto simp: combined_similarity_def Let_def)
  have none: "is_dominated_by a actives = None \<longleftrightarrow>
     (\<forall>b \<in> set actives. b_id b \<noteq> b_id a \<longrightarrow> b_repo b = b_repo a \<longrightarrow> combined_similarity a b \<le> 1 / 2)" for a actives
  proof -
    have half: "(combined_similarity a b > 5 / 10) = (\<not> combined_similarity a b \<le> 1 / 2)" for b by auto
    show ?thesis unfolding is_dominated_by_def option.map_disc_iff find_None_iff half by metis
  qed
  show "is_dominated_by a actives = None \<longleftrightarrow>
     (\<forall>b \<in> set actives. b_id b \<noteq> b_id a \<longrightarrow> b_repo b = b_repo a \<longrightarrow> combined_similarity a b \<le> 1 / 2)"
    by (rule none)
  assume b: "b \<in> set actives" "b_id b \<noteq> b_id a" "b_repo b = b_repo a"
    and t: "set (title_words (b_title a)) = set (title_words (b_title b))" "title_words (b_title a) \<noteq> []"
  have "jaccard_filtered (b_title a) (b_title b) = 1"
    using t jaccard_same [OF t(2)] by (simp add: jaccard_filtered_def jaccard_def Let_def)
  then have "combined_similarity a b \<ge> 85 / 100"
    by (simp add: combined_similarity_def Let_def max_def)
  then show "is_dominated_by a actives \<noteq> None" unfolding none using b by fastforce
qed

text \<open>
  The similarity of two beads lies between zero and one and is symmetric. A bead is dominated
  exactly by a bead of its own repository, other than itself, that is more than half similar to it;
  a candidate with the same title words as an active bead, one at least not being a filler, is
  dominated whatever the descriptions.
\<close>

theorem domination_is_similarity:
  "(0 \<le> combined_similarity a b \<and> combined_similarity a b \<le> 1)
     \<and> (combined_similarity a b = combined_similarity b a)
     \<and> (is_dominated_by a actives = None \<longleftrightarrow>
     (\<forall>b \<in> set actives. b_id b \<noteq> b_id a \<longrightarrow> b_repo b = b_repo a \<longrightarrow> combined_similarity a b \<le> 1 / 2))
     \<and> ((b \<in> set actives) \<longrightarrow> (b_id b \<noteq> b_id a) \<longrightarrow> (b_repo b = b_repo a) \<longrightarrow> (set (title_words (b_title a)) = set (title_words (b_title b))) \<longrightarrow> (title_words (b_title a) \<noteq> []) \<longrightarrow> (is_dominated_by a actives \<noteq> None))"
  by (rule conjI, rule domination_is_similarity_parts(1),
      rule conjI, rule domination_is_similarity_parts(2),
      rule conjI, rule domination_is_similarity_parts(3),
      rule impI, rule impI, rule impI, rule impI, rule impI, (rule domination_is_similarity_parts(4); assumption))

definition titled :: "string \<Rightarrow> string \<Rightarrow> bead" where
  "titled i t = sample_bead\<lparr> b_id := i, b_title := t \<rparr>"

theorem domination_is_similarity_witness:
  "is_dominated_by (titled ''a'' ''Fix login'') [titled ''b'' ''add login''] \<noteq> None"
  by (rule domination_is_similarity [THEN conjunct2, THEN conjunct2, THEN conjunct2, THEN mp, THEN mp, THEN mp, THEN mp, THEN mp, of "titled ''b'' ''add login''"])
    (simp_all add: titled_def sample_bead_def title_words_def split_whitespace_def is_whitespace_def
      to_lowercase_def lower_char_def TITLE_STOPWORDS_def char_of_def bit_simps)

section \<open>What the overlap of files promises\<close>

lemma strip_dot_slash_cases: "strip_dot_slash f = f \<or> f = ''./'' @ strip_dot_slash f"
  by (auto simp: strip_dot_slash_def strip_prefix_Some split: option.splits)

lemma scopes_overlap_sym: "scopes_overlap a b = scopes_overlap b a"
  by (auto simp: scopes_overlap_def Let_def)

definition files_overlap :: "bead \<Rightarrow> bead \<Rightarrow> bool" where
  "files_overlap a b \<longleftrightarrow> b_repo a = b_repo b
     \<and> (\<exists>f \<in> set (bead_scopes a). \<exists>g \<in> set (bead_scopes b). scopes_overlap f g)"

lemma files_overlap_sym: "files_overlap a b = files_overlap b a"
  using scopes_overlap_sym by (auto simp: files_overlap_def)

lemma has_file_overlap_None:
  "has_file_overlap b actives = None \<longleftrightarrow> (\<forall>x \<in> set actives. b_id x \<noteq> b_id b \<longrightarrow> \<not> files_overlap b x)"
  by (auto simp: has_file_overlap_def find_None_iff files_overlap_def bead_scopes_def list_ex_iff)

lemma file_overlap_is_shared_scope_parts:
  "has_file_overlap b actives = None \<longleftrightarrow>
     (\<forall>x \<in> set actives. b_id x \<noteq> b_id b \<longrightarrow> \<not> files_overlap b x)"
  "files_overlap a b = files_overlap b a"
  "scopes_overlap f g \<longleftrightarrow>
     strip_dot_slash f = strip_dot_slash g
     \<or> (\<exists>d r. strip_dot_slash f = d @ ''/'' \<and> strip_dot_slash g = d @ ''/'' @ r)
     \<or> (\<exists>d r. strip_dot_slash g = d @ ''/'' \<and> strip_dot_slash f = d @ ''/'' @ r)"
  "scopes_overlap ''./'' g \<longleftrightarrow> g = [] \<or> g = ''./''"
proof -
  show "has_file_overlap b actives = None \<longleftrightarrow>
     (\<forall>x \<in> set actives. b_id x \<noteq> b_id b \<longrightarrow> \<not> files_overlap b x)" by (rule has_file_overlap_None)
  show "files_overlap a b = files_overlap b a" by (rule files_overlap_sym)
  show sc: "scopes_overlap f g \<longleftrightarrow>
     strip_dot_slash f = strip_dot_slash g
     \<or> (\<exists>d r. strip_dot_slash f = d @ ''/'' \<and> strip_dot_slash g = d @ ''/'' @ r)
     \<or> (\<exists>d r. strip_dot_slash g = d @ ''/'' \<and> strip_dot_slash f = d @ ''/'' @ r)" for f g
  proof -
    have dir: "ends_with x ''/'' \<and> starts_with y x \<longleftrightarrow> (\<exists>d r. x = d @ ''/'' \<and> y = d @ ''/'' @ r)" for x y
      by (simp add: ends_with_iff starts_with_iff) (metis append.assoc append_Cons append_Nil)
    show ?thesis unfolding scopes_overlap_def Let_def dir [symmetric] by (simp only: if_bool_eq_conj) blast
  qed
  have "strip_dot_slash ''./'' = []" by (simp add: strip_dot_slash_def strip_prefix_def)
  moreover have "strip_dot_slash g = [] \<longleftrightarrow> g = [] \<or> g = ''./''"
    by (auto simp: strip_dot_slash_def strip_prefix_def starts_with_iff split: if_splits)
  ultimately show "scopes_overlap ''./'' g \<longleftrightarrow> g = [] \<or> g = ''./''" unfolding sc by auto
qed

text \<open>
  A candidate is held back exactly when an active bead of its repository, other than itself, has
  a scope in common with it; two paths are in common when, up to a leading dot-slash, they are equal
  or one is a directory, written with its slash, that the other starts with. The relation is
  symmetric. But the directory \<open>./\<close>, the whole repository, is in common with nothing below it.
\<close>

theorem file_overlap_is_shared_scope:
  "(has_file_overlap b actives = None \<longleftrightarrow>
     (\<forall>x \<in> set actives. b_id x \<noteq> b_id b \<longrightarrow> \<not> files_overlap b x))
     \<and> (files_overlap a b = files_overlap b a)
     \<and> (scopes_overlap f g \<longleftrightarrow>
     strip_dot_slash f = strip_dot_slash g
     \<or> (\<exists>d r. strip_dot_slash f = d @ ''/'' \<and> strip_dot_slash g = d @ ''/'' @ r)
     \<or> (\<exists>d r. strip_dot_slash g = d @ ''/'' \<and> strip_dot_slash f = d @ ''/'' @ r))
     \<and> (scopes_overlap ''./'' g \<longleftrightarrow> g = [] \<or> g = ''./'')"
  by (rule conjI, rule file_overlap_is_shared_scope_parts(1),
      rule conjI, rule file_overlap_is_shared_scope_parts(2),
      rule conjI, rule file_overlap_is_shared_scope_parts(3),
      rule file_overlap_is_shared_scope_parts(4))

theorem file_overlap_is_shared_scope_witness:
  "has_file_overlap (sample_bead\<lparr> b_id := ''x'' \<rparr>) [sample_bead\<lparr> b_files := [''./src/''] \<rparr>] \<noteq> None
   \<and> has_file_overlap (sample_bead\<lparr> b_id := ''x'' \<rparr>) [sample_bead\<lparr> b_files := [''./''] \<rparr>] = None"
  unfolding file_overlap_is_shared_scope [THEN conjunct1]
  by (simp add: files_overlap_def bead_scopes_def sample_bead_def scopes_overlap_def strip_dot_slash_def
      strip_prefix_def starts_with_def ends_with_def)

section \<open>A closed dependency still blocks\<close>

lemma scan_repos_mem: "b \<in> set (scan_repos repos) \<Longrightarrow> b_status b \<noteq> ''closed'' \<and> b_status b \<noteq> ''done''"
  by (auto simp: scan_repos_def list_beads_def)

lemma unsettled_default:
  assumes "\<And>s. x = Some s \<longleftrightarrow> P s" "e \<noteq> d" "e \<noteq> c"
  shows "(case x of None \<Rightarrow> e | Some s \<Rightarrow> s) \<noteq> d \<and> (case x of None \<Rightarrow> e | Some s \<Rightarrow> s) \<noteq> c \<longleftrightarrow> \<not> (P c \<or> P d)"
  using assms(2,3) by (cases x) (auto simp: assms(1) [symmetric])

lemma closed_target_still_blocks_parts:
  "compute_cross_repo_blocked (Some deps) (scan_repos stored) = (\<lambda>d. wr_bead_id (cd_from d)) ` set deps"
  "distinct (map (\<lambda>b. (b_repo b, b_id b)) (concat stored)) \<Longrightarrow>
     i \<in> compute_cross_repo_blocked (Some deps) (concat stored) \<longleftrightarrow>
     (\<exists>d \<in> set deps. wr_bead_id (cd_from d) = i
        \<and> \<not> (\<exists>b \<in> set (concat stored). b_repo b = wr_repo (cd_to d) \<and> b_id b = wr_bead_id (cd_to d)
              \<and> (b_status b = ''closed'' \<or> b_status b = ''done'')))"
  "compute_cross_repo_blocked None beads = {}"
proof -
  let ?m = "\<lambda>beads. map_of (rev (map (\<lambda>b. ((b_repo b, b_id b), b_status b)) beads))"
  have s: "?m (scan_repos stored) k = Some s \<Longrightarrow> s \<noteq> ''done'' \<and> s \<noteq> ''closed''" for k s
    using scan_repos_mem by (fastforce dest: map_of_SomeD)
  show "compute_cross_repo_blocked (Some deps) (scan_repos stored) = (\<lambda>d. wr_bead_id (cd_from d)) ` set deps"
    unfolding compute_cross_repo_blocked_def Let_def option.case
    by (intro arg_cong [where f = "\<lambda>x. _ ` set x"] filter_True) (auto split: option.splits dest: s)
  show "compute_cross_repo_blocked None beads = {}" by (simp add: compute_cross_repo_blocked_def)
  assume d: "distinct (map (\<lambda>b. (b_repo b, b_id b)) (concat stored))"
  have m: "?m (concat stored) k = Some s \<longleftrightarrow>
      (\<exists>b \<in> set (concat stored). (b_repo b, b_id b) = k \<and> b_status b = s)" for k s
  proof -
    have "distinct (map fst (rev (map (\<lambda>b. ((b_repo b, b_id b), b_status b)) (concat stored))))"
      using d by (simp add: rev_map [symmetric] comp_def)
    then show ?thesis by (subst map_of_eq_Some_iff) auto
  qed
  have t: "(case ?m (concat stored) k of None \<Rightarrow> ''open'' | Some s \<Rightarrow> s) \<noteq> ''done''
      \<and> (case ?m (concat stored) k of None \<Rightarrow> ''open'' | Some s \<Rightarrow> s) \<noteq> ''closed'' \<longleftrightarrow>
      \<not> (\<exists>b \<in> set (concat stored). (b_repo b, b_id b) = k \<and> (b_status b = ''closed'' \<or> b_status b = ''done''))" for k
  proof -
    have "''open'' \<noteq> ''done''" "''open'' \<noteq> ''closed''" by simp_all
    note unsettled_default [OF m this]
    then show ?thesis unfolding bex_disj_distrib conj_disj_distribL by (simp only: disj_commute)
  qed
  show "i \<in> compute_cross_repo_blocked (Some deps) (concat stored) \<longleftrightarrow>
     (\<exists>d \<in> set deps. wr_bead_id (cd_from d) = i
        \<and> \<not> (\<exists>b \<in> set (concat stored). b_repo b = wr_repo (cd_to d) \<and> b_id b = wr_bead_id (cd_to d)
              \<and> (b_status b = ''closed'' \<or> b_status b = ''done'')))"
    unfolding compute_cross_repo_blocked_def Let_def option.case set_filter t by auto
qed

text \<open>
  Against the beads the reconciler scans, every dependency blocks its source, whatever the status
  of its target: the scan leaves out what is closed or done, and what is not scanned counts as open.
  Against all beads of the stores, a dependency with its target closed or done would not block. When
  the dependencies cannot be read nothing is blocked.
\<close>

theorem closed_target_still_blocks:
  "(compute_cross_repo_blocked (Some deps) (scan_repos stored) = (\<lambda>d. wr_bead_id (cd_from d)) ` set deps)
     \<and> ((distinct (map (\<lambda>b. (b_repo b, b_id b)) (concat stored))) \<longrightarrow> (i \<in> compute_cross_repo_blocked (Some deps) (concat stored) \<longleftrightarrow>
     (\<exists>d \<in> set deps. wr_bead_id (cd_from d) = i
        \<and> \<not> (\<exists>b \<in> set (concat stored). b_repo b = wr_repo (cd_to d) \<and> b_id b = wr_bead_id (cd_to d)
              \<and> (b_status b = ''closed'' \<or> b_status b = ''done'')))))
     \<and> (compute_cross_repo_blocked None beads = {})"
  by (rule conjI, rule closed_target_still_blocks_parts(1),
      rule conjI, rule impI, (rule closed_target_still_blocks_parts(2); assumption),
      rule closed_target_still_blocks_parts(3))

definition one_dep :: cross_repo_dep where
  "one_dep = \<lparr> cd_from = WorkRef ''a'' [] ''a-1'', cd_to = WorkRef ''r'' [] ''rsry-1'', cd_dep_type = ''blocks'',
     cd_evidence_tier = Asserted, cd_source = ''user'', cd_observed_at = 0 \<rparr>"

theorem closed_target_still_blocks_witness:
  "''a-1'' \<notin> compute_cross_repo_blocked (Some [one_dep]) (concat [[sample_bead\<lparr> b_repo := ''r'', b_status := ''done'' \<rparr>]])
   \<and> ''a-1'' \<in> compute_cross_repo_blocked (Some [one_dep]) (scan_repos [[sample_bead\<lparr> b_repo := ''r'', b_status := ''done'' \<rparr>]])"
  using closed_target_still_blocks [THEN conjunct1, of "[one_dep]" "[[sample_bead\<lparr> b_repo := ''r'', b_status := ''done'' \<rparr>]]"]
    closed_target_still_blocks [THEN conjunct2, THEN conjunct1, THEN mp, of "[[sample_bead\<lparr> b_repo := ''r'', b_status := ''done'' \<rparr>]]" "''a-1''" "[one_dep]"]
  by (simp add: one_dep_def sample_bead_def)

section \<open>What triage lets through\<close>

definition queued_entry :: "triage_env \<Rightarrow> reconciler \<Rightarrow> bead \<Rightarrow> queue_entry" where
  "queued_entry env s b =
     (let retries = queue_retries (b_repo b) (b_id b) (rc_queue s)
      in \<lparr> q_bead_id = b_id b, q_repo = b_repo b, q_score = final_score env b retries,
           q_enqueued_at = te_instant env (b_id b), q_retries = retries,
           q_generation = generation (te_sha256 env) b \<rparr>)"

definition worth_queueing :: "triage_env \<Rightarrow> reconciler \<Rightarrow> bead \<Rightarrow> bool" where
  "worth_queueing env s b \<longleftrightarrow>
     admitted env s b \<and> final_score env b (queue_retries (b_repo b) (b_id b) (rc_queue s)) \<ge> te_threshold env
     \<and> \<not> already_processed env s b \<and> te_hook_veto env (b_id b) (b_repo b) = None"

definition marker_dropped :: "bead \<Rightarrow> reconciler \<Rightarrow> reconciler" where
  "marker_dropped b s =
     (if bead_state_of b = DeadLetter then s\<lparr> rc_deadlettered := rc_deadlettered s - {b_id b} \<rparr> else s)"

lemma marker_dropped_fields [simp]:
  "rc_queue (marker_dropped b s) = rc_queue s" "rc_trackers (marker_dropped b s) = rc_trackers s"
  "rc_deadlettered (marker_dropped b s) = rc_deadlettered s - (if bead_state_of b = DeadLetter then {b_id b} else {})"
  by (simp_all add: marker_dropped_def)

definition chosen_now :: "triage_env \<Rightarrow> bead list \<Rightarrow> bead \<Rightarrow> reconciler \<Rightarrow> bool" where
  "chosen_now env beads b s \<longleftrightarrow>
     worth_queueing env s b \<and> (b_repo b, b_id b) \<notin> wq_in_queue (rc_queue s)
     \<and> is_dominated_by b (competing_beads env beads s b) = None
     \<and> has_file_overlap b (competing_beads env beads s b) = None"

lemma triage_one_eq:
  "triage_one env beads b (n, s) =
     (let s1 = marker_dropped b s
      in if chosen_now env beads b s1
         then (n + 1, s1\<lparr> rc_queue := (rc_queue s)\<lparr> wq_in_queue := insert (b_repo b, b_id b) (wq_in_queue (rc_queue s)),
                 wq_heap := wq_heap (rc_queue s) @ [queued_entry env s b] \<rparr> \<rparr>)
         else (n, s1))"
proof -
  let ?s1 = "marker_dropped b s"
  have e: "queued_entry env ?s1 b = queued_entry env s b" by (simp add: queued_entry_def)
  show ?thesis
    unfolding triage_one_def Let_def prod.case marker_dropped_def [symmetric]
    by (simp add: chosen_now_def worth_queueing_def queued_entry_def Let_def enqueue_def key_of_def heap_push_def)
qed

text \<open>What keeps an admissible bead out of the queue while another one runs or waits.\<close>

definition resembles :: "bead \<Rightarrow> bead \<Rightarrow> bool" where
  "resembles b x \<longleftrightarrow> b_repo b = b_repo x \<and> combined_similarity b x > 5 / 10"

definition clashes :: "bead \<Rightarrow> bead \<Rightarrow> bool" where
  "clashes b x \<longleftrightarrow> b_id x \<noteq> b_id b \<and> (resembles b x \<or> files_overlap b x)"

lemma competing_clear:
  "is_dominated_by b (competing_beads env beads s b) = None
     \<and> has_file_overlap b (competing_beads env beads s b) = None
   \<longleftrightarrow> (\<forall>x \<in> set beads. List.member (te_active env) (b_id x) \<or> (b_repo x, b_id x) \<in> wq_in_queue (rc_queue s) \<longrightarrow>
        \<not> clashes b x)"
  unfolding has_file_overlap_None
  by (auto simp: is_dominated_by_def find_None_iff competing_beads_def queue_contains_def clashes_def resembles_def)

definition settled_by :: "bead list \<Rightarrow> string \<Rightarrow> bool" where
  "settled_by beads i \<longleftrightarrow> (\<exists>x \<in> set beads. b_id x = i \<and> bead_state_of x = DeadLetter)"

text \<open>What holds of a bead when it is queued, told of the state triage started from.\<close>

definition let_through :: "triage_env \<Rightarrow> bead list \<Rightarrow> reconciler \<Rightarrow> bead \<Rightarrow> bool" where
  "let_through env beads s b \<longleftrightarrow>
     (\<exists>s'. rc_trackers s' = rc_trackers s \<and> wq_backoff (rc_queue s') = wq_backoff (rc_queue s)
        \<and> wq_min_priority (rc_queue s') = wq_min_priority (rc_queue s)
        \<and> (\<forall>i \<in> rc_deadlettered s. i \<notin> rc_deadlettered s' \<longrightarrow> settled_by beads i)
        \<and> worth_queueing env s' b)
     \<and> (b_repo b, b_id b) \<notin> wq_in_queue (rc_queue s)
     \<and> (\<forall>x \<in> set beads. b_id x \<noteq> b_id b \<longrightarrow>
          List.member (te_active env) (b_id x) \<or> (b_repo x, b_id x) \<in> wq_in_queue (rc_queue s) \<longrightarrow>
          \<not> clashes b x)"

definition triage_inv :: "triage_env \<Rightarrow> bead list \<Rightarrow> reconciler \<Rightarrow> bead list \<Rightarrow> nat \<times> reconciler \<Rightarrow> bool" where
  "triage_inv env beads s chosen ns \<longleftrightarrow>
     (let (n, s') = ns
      in n = length chosen \<and> set chosen \<subseteq> set beads
       \<and> rc_trackers s' = rc_trackers s
       \<and> wq_backoff (rc_queue s') = wq_backoff (rc_queue s)
       \<and> wq_min_priority (rc_queue s') = wq_min_priority (rc_queue s)
       \<and> wq_heap (rc_queue s') = wq_heap (rc_queue s) @ map (queued_entry env s) chosen
       \<and> wq_in_queue (rc_queue s') = wq_in_queue (rc_queue s) \<union> (\<lambda>b. (b_repo b, b_id b)) ` set chosen
       \<and> (\<forall>i \<in> rc_deadlettered s. i \<notin> rc_deadlettered s' \<longrightarrow> settled_by beads i)
       \<and> (\<forall>b \<in> set chosen. let_through env beads s b)
       \<and> distinct (map (\<lambda>b. (b_repo b, b_id b)) chosen)
       \<and> sorted_wrt (\<lambda>a b. \<not> clashes b a \<and> \<not> files_overlap a b) chosen)"

lemma triage_inv_step:
  assumes inv: "triage_inv env beads s chosen (n, s')" and b: "b \<in> set beads"
  shows "\<exists>chosen'. triage_inv env beads s chosen' (triage_one env beads b (n, s'))"
proof -
  let ?s1 = "marker_dropped b s'"
  have i: "n = length chosen" "set chosen \<subseteq> set beads" "rc_trackers s' = rc_trackers s"
    "wq_backoff (rc_queue s') = wq_backoff (rc_queue s)"
    "wq_min_priority (rc_queue s') = wq_min_priority (rc_queue s)"
    "wq_heap (rc_queue s') = wq_heap (rc_queue s) @ map (queued_entry env s) chosen"
    "wq_in_queue (rc_queue s') = wq_in_queue (rc_queue s) \<union> (\<lambda>b. (b_repo b, b_id b)) ` set chosen"
    "\<forall>i \<in> rc_deadlettered s. i \<notin> rc_deadlettered s' \<longrightarrow> settled_by beads i"
    "\<forall>b \<in> set chosen. let_through env beads s b"
    "distinct (map (\<lambda>b. (b_repo b, b_id b)) chosen)" "sorted_wrt (\<lambda>a b. \<not> clashes b a \<and> \<not> files_overlap a b) chosen"
    using inv by (simp_all add: triage_inv_def)
  have dl: "\<forall>i \<in> rc_deadlettered s. i \<notin> rc_deadlettered ?s1 \<longrightarrow> settled_by beads i"
    using i(8) b by (auto simp: settled_by_def)
  have qe: "queued_entry env s' b = queued_entry env s b"
    using i(4) by (simp add: queued_entry_def queue_retries_def)
  show ?thesis
  proof (cases "chosen_now env beads b ?s1")
    case False
    then have "triage_inv env beads s chosen (triage_one env beads b (n, s'))"
      unfolding triage_one_eq Let_def using i dl by (simp add: triage_inv_def)
    then show ?thesis by blast
  next
    case True
    then have w: "worth_queueing env ?s1 b" and k: "(b_repo b, b_id b) \<notin> wq_in_queue (rc_queue s')"
      and o: "is_dominated_by b (competing_beads env beads ?s1 b) = None \<and>
        has_file_overlap b (competing_beads env beads ?s1 b) = None"
      by (simp_all add: chosen_now_def)
    have clear: "\<not> clashes b x" if x: "x \<in> set beads"
      "List.member (te_active env) (b_id x) \<or> (b_repo x, b_id x) \<in> wq_in_queue (rc_queue s')" for x
      using o that unfolding competing_clear marker_dropped_fields by blast
    have "let_through env beads s b"
      unfolding let_through_def using w k dl i(3,4,5,7) clear by (intro conjI exI [of _ ?s1]) auto
    moreover have "\<not> clashes b a \<and> \<not> files_overlap a b" if a: "a \<in> set chosen" for a
    proof (cases "b_id a = b_id b")
      case True
      have "(b_repo a, b_id a) \<in> wq_in_queue (rc_queue s')" using a i(7) by blast
      then have "b_repo a \<noteq> b_repo b" using k True by metis
      then show ?thesis using True by (simp add: files_overlap_def clashes_def)
    next
      case False
      have "\<not> clashes b a" using clear [of a] a i(2,7) by blast
      then show ?thesis using False files_overlap_sym by (simp add: clashes_def)
    qed
    ultimately have "triage_inv env beads s (chosen @ [b]) (triage_one env beads b (n, s'))"
      unfolding triage_one_eq Let_def using True i dl k b qe
      by (simp add: triage_inv_def sorted_wrt_append image_iff)
    then show ?thesis by blast
  qed
qed

lemma triage_inv_run:
  "set bs \<subseteq> set beads \<Longrightarrow> triage_inv env beads s chosen ns \<Longrightarrow>
   \<exists>chosen'. triage_inv env beads s chosen' (foldl (\<lambda>ns b. triage_one env beads b ns) ns bs)"
proof (induction bs arbitrary: ns chosen)
  case Nil
  then show ?case by auto
next
  case (Cons b bs)
  obtain n s' where ns: "ns = (n, s')" by force
  obtain chosen' where "triage_inv env beads s chosen' (triage_one env beads b ns)"
    using triage_inv_step [of env beads s chosen n s' b] Cons.prems ns by auto
  then show ?case using Cons.IH [of chosen' "triage_one env beads b ns"] Cons.prems(1) by simp
qed

lemma triage_chosen:
  obtains chosen where "triage_inv env beads s chosen (triage env beads s)"
proof -
  have "triage_inv env beads s [] (0, s)" by (simp add: triage_inv_def)
  then show ?thesis using triage_inv_run [of beads beads env s "[]" "(0, s)"] that by (auto simp: triage_def)
qed

section \<open>What triage does not leave out\<close>

text \<open>Triage only adds to the queue and only drops dead-letter marks, so a bead it passes over when its
  turn comes was not worth queueing or clashes with one that is still queued when triage ends.\<close>

definition triage_grows :: "reconciler \<Rightarrow> reconciler \<Rightarrow> bool" where
  "triage_grows s s' \<longleftrightarrow>
     wq_in_queue (rc_queue s) \<subseteq> wq_in_queue (rc_queue s')
     \<and> rc_deadlettered s' \<subseteq> rc_deadlettered s
     \<and> rc_trackers s' = rc_trackers s
     \<and> wq_backoff (rc_queue s') = wq_backoff (rc_queue s)
     \<and> wq_min_priority (rc_queue s') = wq_min_priority (rc_queue s)"

lemma triage_grows_refl [simp]: "triage_grows s s"
  by (simp add: triage_grows_def)

lemma triage_grows_trans: "triage_grows s s' \<Longrightarrow> triage_grows s' s'' \<Longrightarrow> triage_grows s s''"
  by (auto simp: triage_grows_def)

lemma triage_one_grows: "triage_grows (snd ns) (snd (triage_one env beads b ns))"
  by (cases ns) (auto simp: triage_one_eq Let_def triage_grows_def)

lemma triage_run_grows: "triage_grows (snd ns) (snd (foldl (\<lambda>ns b. triage_one env beads b ns) ns bs))"
proof (induction bs arbitrary: ns)
  case (Cons b bs)
  show ?case unfolding foldl.simps by (rule triage_grows_trans [OF triage_one_grows Cons.IH])
qed simp

lemma worth_queueing_grows:
  "triage_grows s s' \<Longrightarrow> worth_queueing env s b \<Longrightarrow> worth_queueing env s' b"
  by (auto simp: triage_grows_def worth_queueing_def admitted_def bypassable_filters_def repo_busy_def
      already_processed_def queue_retries_def split: option.splits)

definition left_out :: "triage_env \<Rightarrow> bead list \<Rightarrow> reconciler \<Rightarrow> bead \<Rightarrow> bool" where
  "left_out env beads s b \<longleftrightarrow>
     (\<exists>x \<in> set beads. (List.member (te_active env) (b_id x) \<or> (b_repo x, b_id x) \<in> wq_in_queue (rc_queue s))
        \<and> clashes b x)"

lemma left_out_grows: "triage_grows s s' \<Longrightarrow> left_out env beads s b \<Longrightarrow> left_out env beads s' b"
  by (auto simp: triage_grows_def left_out_def)

lemma triage_one_serves:
  assumes w: "worth_queueing env s b" and g: "triage_grows s (snd ns)"
  shows "(b_repo b, b_id b) \<in> wq_in_queue (rc_queue (snd (triage_one env beads b ns)))
    \<or> left_out env beads (snd (triage_one env beads b ns)) b"
proof -
  obtain n s' where ns: "ns = (n, s')" by force
  let ?s1 = "marker_dropped b s'"
  have "triage_grows s' ?s1" by (auto simp: triage_grows_def)
  then have w1: "worth_queueing env ?s1 b"
    using worth_queueing_grows [OF triage_grows_trans w] g ns by simp
  show ?thesis
  proof (cases "chosen_now env beads b ?s1")
    case True
    then show ?thesis by (simp add: ns triage_one_eq Let_def)
  next
    case False
    then have "(b_repo b, b_id b) \<in> wq_in_queue (rc_queue s') \<or> left_out env beads ?s1 b"
      using w1 competing_clear [of b env beads ?s1] unfolding chosen_now_def left_out_def by auto
    then show ?thesis using False by (simp add: ns triage_one_eq Let_def)
  qed
qed

lemma triage_serves:
  assumes "b \<in> set beads" "worth_queueing env s b"
  shows "(b_repo b, b_id b) \<in> wq_in_queue (rc_queue (snd (triage env beads s)))
    \<or> left_out env beads (snd (triage env beads s)) b"
proof -
  obtain xs ys where bs: "beads = xs @ b # ys" using assms(1) by (meson split_list)
  let ?ns = "foldl (\<lambda>ns b. triage_one env beads b ns) (0, s) xs"
  let ?m = "triage_one env beads b ?ns"
  have e: "triage env beads s = foldl (\<lambda>ns b. triage_one env beads b ns) ?m ys"
    by (subst (2) bs) (simp add: triage_def bs [symmetric] del: foldl_append, simp add: bs)
  have g: "triage_grows (snd ?m) (snd (triage env beads s))" unfolding e by (rule triage_run_grows)
  have "triage_grows s (snd ?ns)" using triage_run_grows [of "(0, s)"] by simp
  from triage_one_serves [OF assms(2) this, of beads] show ?thesis
    using g left_out_grows [OF g, of env beads b] by (auto simp: triage_grows_def)
qed

text \<open>The filters told on the state triage starts from, the dead-letter marks apart.\<close>

definition dispatchable :: "triage_env \<Rightarrow> reconciler \<Rightarrow> bead \<Rightarrow> bool" where
  "dispatchable env s b \<longleftrightarrow>
     (case te_target_bead env of
        Some target \<Rightarrow> b_id b = target
      | None \<Rightarrow> bead_state_of b = Open \<and> b_issue_type b \<noteq> ''epic'' \<and> \<not> needs_refinement b \<and> \<not> is_blocked b
          \<and> b_id b \<notin> te_cross_blocked env \<and> passes_severity_floor b (wq_min_priority (rc_queue s))
          \<and> \<not> approval_held env b)
     \<and> b_id b \<notin> set (te_active env) \<and> \<not> repo_busy env s b \<and> \<not> thread_mate_active env b
     \<and> te_threshold env \<le> q_score (queued_entry env s b)
     \<and> te_hook_veto env (b_id b) (b_repo b) = None \<and> \<not> already_processed env s b"

lemma worth_queueing_told:
  "worth_queueing env s b \<longleftrightarrow>
     dispatchable env s b \<and> (te_target_bead env = None \<longrightarrow> b_id b \<notin> rc_deadlettered s)"
  by (auto simp: worth_queueing_def dispatchable_def admitted_def bypassable_filters_def queued_entry_def Let_def
      split: option.splits)

lemma let_through_told:
  assumes "let_through env beads s b"
  shows "dispatchable env s b
    \<and> (te_target_bead env = None \<and> b_id b \<in> rc_deadlettered s \<longrightarrow> settled_by beads (b_id b))
    \<and> (b_repo b, b_id b) \<notin> wq_in_queue (rc_queue s) \<and> \<not> left_out env beads s b"
proof -
  obtain s' where s': "rc_trackers s' = rc_trackers s" "wq_backoff (rc_queue s') = wq_backoff (rc_queue s)"
    "wq_min_priority (rc_queue s') = wq_min_priority (rc_queue s)"
    "\<forall>i \<in> rc_deadlettered s. i \<notin> rc_deadlettered s' \<longrightarrow> settled_by beads i"
    and w: "worth_queueing env s' b"
    using assms unfolding let_through_def by blast
  have "dispatchable env s' b = dispatchable env s b"
    using s'(1-3) by (cases "te_target_bead env")
      (simp_all add: dispatchable_def repo_busy_def already_processed_def queued_entry_def queue_retries_def Let_def)
  then have "dispatchable env s b
    \<and> (te_target_bead env = None \<and> b_id b \<in> rc_deadlettered s \<longrightarrow> settled_by beads (b_id b))"
    using w s'(4) unfolding worth_queueing_told by blast
  moreover have "(b_repo b, b_id b) \<notin> wq_in_queue (rc_queue s) \<and> \<not> left_out env beads s b"
    using assms unfolding let_through_def left_out_def clashes_def by blast
  ultimately show ?thesis by blast
qed

text \<open>
  C4. Triage appends to the queue one entry per chosen bead, as many as it reports, and touches
  nothing else of it. Every chosen bead is dispatchable: without a target it is open, not an
  epic, refined, unblocked here and across repositories, above the severity floor, from an approved
  repository when approval is required, and not marked dead-lettered unless the store agrees; with
  a target it is the target; in either case it is not active, its repository has no active agent,
  no bead of its thread is active, its score reaches the threshold, no plugin vetoes it and it was
  not already processed at this generation. No bead is queued twice, and a chosen bead clashes, by
  similarity or by shared files, neither with a scanned bead already active or queued nor with one
  chosen before it. Conversely no dispatchable bead of the scan without a dead-letter mark is left
  out: when triage ends it was queued before, it or a scanned bead with its repository and id is
  chosen, or it clashes with another scanned bead that is active or queued.
\<close>

theorem triage_queues_only_dispatchable_beads:
  "\<exists>chosen. fst (triage env beads s) = length chosen \<and> set chosen \<subseteq> set beads
     \<and> wq_heap (rc_queue (snd (triage env beads s))) = wq_heap (rc_queue s) @ map (queued_entry env s) chosen
     \<and> wq_in_queue (rc_queue (snd (triage env beads s)))
         = wq_in_queue (rc_queue s) \<union> (\<lambda>b. (b_repo b, b_id b)) ` set chosen
     \<and> wq_backoff (rc_queue (snd (triage env beads s))) = wq_backoff (rc_queue s)
     \<and> distinct (map (\<lambda>b. (b_repo b, b_id b)) chosen)
     \<and> sorted_wrt (\<lambda>a b. \<not> clashes b a \<and> \<not> files_overlap a b) chosen
     \<and> (\<forall>b \<in> set chosen.
          dispatchable env s b
          \<and> (te_target_bead env = None \<and> b_id b \<in> rc_deadlettered s \<longrightarrow> settled_by beads (b_id b))
          \<and> (b_repo b, b_id b) \<notin> wq_in_queue (rc_queue s) \<and> \<not> left_out env beads s b)
     \<and> (\<forall>b \<in> set beads.
          dispatchable env s b \<and> (te_target_bead env = None \<longrightarrow> b_id b \<notin> rc_deadlettered s) \<longrightarrow>
          (b_repo b, b_id b) \<in> wq_in_queue (rc_queue s)
          \<or> (b_repo b, b_id b) \<in> (\<lambda>c. (b_repo c, b_id c)) ` set chosen
          \<or> left_out env beads (snd (triage env beads s)) b)"
proof -
  obtain chosen where "triage_inv env beads s chosen (triage env beads s)" using triage_chosen .
  then have i: "fst (triage env beads s) = length chosen" "set chosen \<subseteq> set beads"
    "wq_heap (rc_queue (snd (triage env beads s))) = wq_heap (rc_queue s) @ map (queued_entry env s) chosen"
    "wq_in_queue (rc_queue (snd (triage env beads s)))
       = wq_in_queue (rc_queue s) \<union> (\<lambda>b. (b_repo b, b_id b)) ` set chosen"
    "wq_backoff (rc_queue (snd (triage env beads s))) = wq_backoff (rc_queue s)"
    "\<forall>b \<in> set chosen. let_through env beads s b"
    "distinct (map (\<lambda>b. (b_repo b, b_id b)) chosen)"
    "sorted_wrt (\<lambda>a b. \<not> clashes b a \<and> \<not> files_overlap a b) chosen"
    by (simp_all add: triage_inv_def Let_def split: prod.splits)
  show ?thesis
  proof (rule exI [of _ chosen], intro conjI ballI impI)
    fix b
    assume b: "b \<in> set chosen"
    then have l: "let_through env beads s b" using i(6) by blast
    show "dispatchable env s b" "(b_repo b, b_id b) \<notin> wq_in_queue (rc_queue s)" "\<not> left_out env beads s b"
      using let_through_told [OF l] by simp_all
    show "settled_by beads (b_id b)" if "te_target_bead env = None \<and> b_id b \<in> rc_deadlettered s"
      using let_through_told [OF l] that by blast
  next
    fix b
    assume b: "b \<in> set beads"
      and d: "dispatchable env s b \<and> (te_target_bead env = None \<longrightarrow> b_id b \<notin> rc_deadlettered s)"
    have "worth_queueing env s b" unfolding worth_queueing_told by (rule d)
    from triage_serves [OF b this] show "(b_repo b, b_id b) \<in> wq_in_queue (rc_queue s)
        \<or> (b_repo b, b_id b) \<in> (\<lambda>c. (b_repo c, b_id c)) ` set chosen
        \<or> left_out env beads (snd (triage env beads s)) b"
      unfolding i(4) Un_iff by (simp only: disj_assoc)
  qed (simp_all add: i)
qed

definition small_triage :: triage_env where
  "small_triage = \<lparr> te_target_bead = None, te_require_approval = True,
     te_repos = [\<lparr> rp_name = b_repo sample_bead, rp_self_managed = False, rp_approval = Approved \<rparr>],
     te_remote_repos = [], te_overnight = False, te_threshold = 1 / 4, te_now = 0, te_instant = (\<lambda>_. 0),
     te_sha256 = (\<lambda>_. 7), te_hook_veto = (\<lambda>_ _. None), te_thread_map = (\<lambda>_. None), te_cross_blocked = {},
     te_active = [] \<rparr>"

definition idle_reconciler :: reconciler where
  "idle_reconciler = \<lparr> rc_queue = with_backoff_base DEFAULT_BACKOFF_BASE, rc_trackers = (\<lambda>_. None),
     rc_orchestrators = (\<lambda>_. None), rc_deadlettered = {}, rc_work_dirs = (\<lambda>_. None), rc_workspaces = {},
     rc_effects = [] \<rparr>"

lemma small_triage_run: "fst (triage small_triage [sample_bead] idle_reconciler) = 1"
proof -
  have "admitted small_triage idle_reconciler sample_bead"
    by (simp add: admitted_def bypassable_filters_def small_triage_def idle_reconciler_def sample_bead_def
        bead_state_of_def state_of_str_def passes_severity_floor_def with_backoff_base_def needs_refinement_def
        is_blocked_def approval_held_def admits_def repo_busy_def thread_mate_active_def trim_def trim_start_def
        is_whitespace_def)
  moreover have "1 / 4 \<le> final_score small_triage sample_bead 0"
    by (simp add: final_score_def small_triage_def sample_bead_def triage_score_def age_hours_def Let_def)
  moreover have "queue_retries r i (with_backoff_base k) = 0" for r i k
    by (simp add: queue_retries_def with_backoff_base_def)
  ultimately have "chosen_now small_triage [sample_bead] sample_bead idle_reconciler"
    by (simp add: chosen_now_def worth_queueing_def competing_beads_def is_dominated_by_def has_file_overlap_def
        already_processed_def idle_reconciler_def small_triage_def with_backoff_base_def)
  moreover have "marker_dropped sample_bead idle_reconciler = idle_reconciler"
    by (simp add: marker_dropped_def sample_bead_def bead_state_of_def state_of_str_def)
  ultimately show ?thesis by (simp add: triage_def triage_one_eq)
qed

theorem triage_queues_only_dispatchable_beads_witness:
  "fst (triage small_triage [sample_bead] idle_reconciler) = 1
   \<and> dispatchable small_triage idle_reconciler sample_bead"
proof -
  obtain chosen where c: "fst (triage small_triage [sample_bead] idle_reconciler) = length chosen"
    "set chosen \<subseteq> set [sample_bead]"
    "\<forall>b \<in> set chosen. dispatchable small_triage idle_reconciler b"
    using triage_queues_only_dispatchable_beads [of small_triage "[sample_bead]" idle_reconciler] by blast
  then have "sample_bead \<in> set chosen" using small_triage_run by (cases chosen) auto
  then show ?thesis using c(3) small_triage_run by blast
qed

end
