(* ===== verification/Orchestrator.thy ===== *)
theory Orchestrator
  imports Completion
begin

text \<open>
  The per-bead orchestrators of the hierarchical mode: the state machine of one orchestrator
  (\<open>src/orchestrate/mod.rs\<close>), the reconciler's pass over them and the records it keeps for crash
  recovery (\<open>src/reconcile/orchestration.rs\<close>).

  A worker handle is the name of the process; what polling it returns is a parameter. The mailbox,
  the handoff chain and the transcript cache take no part in a decision and are left out.
\<close>

section \<open>The state machine\<close>

record research_finding =
  rf_query_index :: nat
  rf_summary :: string
  rf_key_files :: "string list"
  rf_issues :: "string list"

datatype plan_step_risk = RiskLow | RiskMedium | RiskHigh

record plan_step =
  pl_description :: string
  pl_files :: "string list"
  pl_risk :: plan_step_risk

record worker_plan =
  wp_steps :: "plan_step list"
  wp_estimated_files :: "string list"
  wp_risk_assessment :: string

datatype orchestrator_state =
    OIdle
  | ResearchFanOut nat nat "research_finding list"
  | Synthesizing
  | PlanApproval worker_plan
  | AwaitingWorker string nat
  | OTerminal
  | OFailed nat string

datatype session_choice = ContinueSession | SpawnFresh

record orchestrator_behavior =
  oc_synthesis :: bool
  oc_fan_out :: bool
  oc_plan_gate :: bool
  oc_max_research_workers :: nat
  oc_fork_context :: bool

definition default_behavior :: orchestrator_behavior where
  "default_behavior = \<lparr> oc_synthesis = True, oc_fan_out = False, oc_plan_gate = False,
     oc_max_research_workers = 3, oc_fork_context = True \<rparr>"

record feature_orchestrator =
  fo_bead_ref :: work_ref
  fo_issue_type :: string
  fo_pipeline :: "string list"
  fo_current_phase :: nat
  fo_state :: orchestrator_state
  fo_work_dir :: string
  fo_worker_handle :: "string option"
  fo_last_session_id :: "string option"
  fo_last_completed_agent :: "string option"
  fo_retries :: nat
  fo_created_at :: int
  fo_config :: orchestrator_behavior

datatype tick_outcome =
    TickIdle
  | NeedsSpawn string nat session_choice
  | WorkerCompleted bool
  | TickTerminal
  | TickFailed string

text \<open>\<open>ReadyToAdvance\<close> is never built. What \<open>try_wait\<close> returns: the exit, still running with the
  milliseconds elapsed, or an error.\<close>

datatype poll_result = Exited bool | Running int | PollError

definition new_orchestrator :: "work_ref \<Rightarrow> string \<Rightarrow> string list \<Rightarrow> string \<Rightarrow> orchestrator_behavior \<Rightarrow> int
    \<Rightarrow> feature_orchestrator" where
  "new_orchestrator bead_ref issue_type pipeline work_dir config created_at =
     \<lparr> fo_bead_ref = bead_ref, fo_issue_type = issue_type, fo_pipeline = pipeline, fo_current_phase = 0,
       fo_state = OIdle, fo_work_dir = work_dir, fo_worker_handle = None, fo_last_session_id = None,
       fo_last_completed_agent = None, fo_retries = 0, fo_created_at = created_at, fo_config = config \<rparr>"

definition session_decision :: "feature_orchestrator \<Rightarrow> string \<Rightarrow> session_choice" where
  "session_decision fo nxt =
     (if fo_last_session_id fo = None then SpawnFresh
      else
        (let from_agent = (case fo_last_completed_agent fo of None \<Rightarrow> [] | Some a \<Rightarrow> a)
         in if List.member [''staging-agent'', ''prod-agent'', ''skeptic-agent''] nxt then SpawnFresh
            else if from_agent = nxt then ContinueSession
            else if from_agent = ''scoping-agent'' \<and> nxt = ''dev-agent'' then ContinueSession
            else SpawnFresh))"

definition pipeline_at :: "feature_orchestrator \<Rightarrow> nat \<Rightarrow> string option" where
  "pipeline_at fo i = (if i < length (fo_pipeline fo) then Some (fo_pipeline fo ! i) else None)"

definition as_u32 :: "nat \<Rightarrow> nat" where
  "as_u32 n = n mod 2 ^ 32"

definition advance_to_next_phase :: "feature_orchestrator \<Rightarrow> feature_orchestrator" where
  "advance_to_next_phase fo =
     (let nxt = fo_current_phase fo + 1
      in if nxt < length (fo_pipeline fo)
         then fo\<lparr> fo_current_phase := nxt, fo_state := AwaitingWorker (fo_pipeline fo ! nxt) (as_u32 nxt) \<rparr>
         else fo\<lparr> fo_state := OTerminal \<rparr>)"

definition WORKER_TIMEOUT :: int where
  "WORKER_TIMEOUT = 4 * 60 * 60 * 1000"

definition poll_worker :: "(string \<Rightarrow> poll_result) \<Rightarrow> feature_orchestrator \<Rightarrow> tick_outcome \<times> feature_orchestrator" where
  "poll_worker poll fo =
     (case fo_worker_handle fo of
        None \<Rightarrow> (TickIdle, fo)
      | Some handle \<Rightarrow>
          (case poll handle of
             Exited success \<Rightarrow> (WorkerCompleted success, fo\<lparr> fo_worker_handle := None \<rparr>)
           | Running elapsed \<Rightarrow>
               if elapsed > WORKER_TIMEOUT then (WorkerCompleted False, fo\<lparr> fo_worker_handle := None \<rparr>)
               else (TickIdle, fo)
           | PollError \<Rightarrow> (WorkerCompleted False, fo\<lparr> fo_worker_handle := None \<rparr>)))"

text \<open>The three states that are passed straight through; the tick then starts over, once.\<close>

fun passing_rank :: "orchestrator_state \<Rightarrow> nat" where
  "passing_rank Synthesizing = 1"
| "passing_rank (PlanApproval _) = 1"
| "passing_rank (ResearchFanOut _ _ _) = 1"
| "passing_rank _ = 0"

function tick :: "(string \<Rightarrow> poll_result) \<Rightarrow> feature_orchestrator \<Rightarrow> tick_outcome \<times> feature_orchestrator" where
  "tick poll fo =
     (case fo_state fo of
        OIdle \<Rightarrow>
          (case pipeline_at fo (fo_current_phase fo) of
             Some agent \<Rightarrow>
               (NeedsSpawn agent (as_u32 (fo_current_phase fo)) (session_decision fo agent),
                fo\<lparr> fo_state := AwaitingWorker agent (as_u32 (fo_current_phase fo)) \<rparr>)
           | None \<Rightarrow> (TickTerminal, fo\<lparr> fo_state := OTerminal \<rparr>))
      | AwaitingWorker _ _ \<Rightarrow> poll_worker poll fo
      | OTerminal \<Rightarrow> (TickTerminal, fo)
      | OFailed _ reason \<Rightarrow> (TickFailed reason, fo)
      | Synthesizing \<Rightarrow>
          tick poll (fo\<lparr> fo_state := (if fo_current_phase fo < length (fo_pipeline fo) then OIdle else OTerminal) \<rparr>)
      | PlanApproval _ \<Rightarrow> tick poll (advance_to_next_phase fo)
      | ResearchFanOut _ _ _ \<Rightarrow> tick poll (advance_to_next_phase fo))"
  by pat_completeness auto

termination
  by (relation "measure (\<lambda>(_, fo). passing_rank (fo_state fo))") (auto simp: advance_to_next_phase_def Let_def)

declare tick.simps [simp del]

definition on_worker_completed :: "bool \<Rightarrow> nat \<Rightarrow> feature_orchestrator \<Rightarrow> feature_orchestrator" where
  "on_worker_completed passed max_retries fo =
     (if passed then
        (let fo1 = fo\<lparr> fo_retries := 0, fo_last_completed_agent := pipeline_at fo (fo_current_phase fo) \<rparr>;
             nxt = fo_current_phase fo + 1
         in if nxt < length (fo_pipeline fo)
            then fo1\<lparr> fo_current_phase := nxt,
                      fo_state := (if oc_synthesis (fo_config fo) then Synthesizing else OIdle) \<rparr>
            else fo1\<lparr> fo_state := OTerminal \<rparr>)
      else
        (let fo1 = fo\<lparr> fo_retries := fo_retries fo + 1 \<rparr>
         in if fo_retries fo1 \<ge> max_retries
            then fo1\<lparr> fo_state := OFailed (fo_retries fo1)
                        (''max retries ('' @ show_nat max_retries @ '') exceeded at phase ''
                         @ show_nat (fo_current_phase fo)) \<rparr>
            else fo1\<lparr> fo_last_completed_agent := pipeline_at fo (fo_current_phase fo), fo_state := OIdle,
                      fo_worker_handle := None \<rparr>))"

definition set_worker_handle :: "string \<Rightarrow> feature_orchestrator \<Rightarrow> feature_orchestrator" where
  "set_worker_handle handle fo = fo\<lparr> fo_worker_handle := Some handle \<rparr>"

definition current_agent :: "feature_orchestrator \<Rightarrow> string option" where
  "current_agent fo = (case fo_state fo of AwaitingWorker agent _ \<Rightarrow> Some agent | _ \<Rightarrow> None)"

section \<open>The records for crash recovery\<close>

record orchestrator_record =
  or_bead_ref :: work_ref
  or_issue_type :: string
  or_state :: orchestrator_state
  or_current_phase :: nat
  or_current_agent :: "string option"
  or_retries :: nat
  or_last_session_id :: "string option"
  or_created_at :: int
  or_updated_at :: int

definition persist_record :: "int \<Rightarrow> feature_orchestrator \<Rightarrow> orchestrator_record" where
  "persist_record now fo =
     \<lparr> or_bead_ref = fo_bead_ref fo, or_issue_type = fo_issue_type fo, or_state = fo_state fo,
       or_current_phase = as_u32 (fo_current_phase fo), or_current_agent = current_agent fo,
       or_retries = fo_retries fo, or_last_session_id = fo_last_session_id fo,
       or_created_at = fo_created_at fo, or_updated_at = now \<rparr>"

text \<open>A record whose run is over is removed and gives no orchestrator.\<close>

definition recover_orchestrator :: "pipeline_engine \<Rightarrow> orchestrator_behavior \<Rightarrow> int \<Rightarrow> string
    \<Rightarrow> orchestrator_record \<Rightarrow> feature_orchestrator option" where
  "recover_orchestrator engine behavior now work_dir r =
     (case or_state r of
        OTerminal \<Rightarrow> None
      | OFailed _ _ \<Rightarrow> None
      | st \<Rightarrow>
          Some ((new_orchestrator (or_bead_ref r) (or_issue_type r) (agents_for engine (or_issue_type r))
                   work_dir behavior now)
                \<lparr> fo_state := st, fo_current_phase := or_current_phase r, fo_retries := or_retries r,
                  fo_last_session_id := or_last_session_id r, fo_created_at := or_created_at r,
                  fo_worker_handle := None \<rparr>))"

section \<open>The pass of the reconciler\<close>

text \<open>
  The reconciler of the flat mode, the orchestrators by bead, and the beads with a running agent.
  \<open>rc_orchestrators\<close> mirrors which beads have an orchestrator, and its repository. A spawn either
  succeeds or errs, for the bead and the agent asked for.
\<close>

record hierarchical =
  hr_rec :: reconciler
  hr_orchestrators :: "string \<Rightarrow> feature_orchestrator option"
  hr_active :: "string list"

record hierarchical_env =
  he_env :: environment
  he_beads :: "bead list"
  he_repos :: "string \<Rightarrow> string option"
  he_max_concurrent :: nat
  he_spawn :: "string \<Rightarrow> string \<Rightarrow> bool"
  he_poll :: "string \<Rightarrow> poll_result"
  he_behavior :: orchestrator_behavior
  he_now :: int
  he_started_at :: "string \<Rightarrow> int"

record orchestrator_tick_result =
  ot_dispatched :: nat
  ot_completed :: nat
  ot_passed :: nat
  ot_failed :: nat
  ot_deadlettered :: nat

definition put_orchestrator :: "string \<Rightarrow> feature_orchestrator \<Rightarrow> hierarchical \<Rightarrow> hierarchical" where
  "put_orchestrator bead_id fo h =
     h\<lparr> hr_orchestrators := (hr_orchestrators h)(bead_id \<mapsto> fo),
        hr_rec := (hr_rec h)\<lparr> rc_orchestrators := (rc_orchestrators (hr_rec h))(bead_id \<mapsto> wr_repo (fo_bead_ref fo)) \<rparr> \<rparr>"

definition drop_orchestrator :: "string \<Rightarrow> hierarchical \<Rightarrow> hierarchical" where
  "drop_orchestrator bead_id h =
     h\<lparr> hr_orchestrators := (hr_orchestrators h)(bead_id := None),
        hr_rec := (hr_rec h)\<lparr> rc_orchestrators := (rc_orchestrators (hr_rec h))(bead_id := None) \<rparr> \<rparr>"

definition create_orchestrator :: "hierarchical_env \<Rightarrow> string \<Rightarrow> string \<Rightarrow> string \<Rightarrow> string \<Rightarrow> string
    \<Rightarrow> hierarchical \<Rightarrow> hierarchical" where
  "create_orchestrator env bead_id repo scope issue_type work_dir h =
     put_orchestrator bead_id
       (new_orchestrator (WorkRef repo scope bead_id) issue_type (agents_for (ev_pipeline (he_env env)) issue_type)
          work_dir (he_behavior env) (he_now env)) h"

text \<open>Inserting into the map of running agents.\<close>

definition activate :: "string \<Rightarrow> string list \<Rightarrow> string list" where
  "activate bead_id active = (if List.member active bead_id then active else active @ [bead_id])"

lemma activate_set [simp]: "set (activate b xs) = insert b (set xs)"
  by (auto simp: activate_def)

definition spawn_phase :: "hierarchical_env \<Rightarrow> string \<Rightarrow> string \<Rightarrow> orchestrator_tick_result \<times> hierarchical
    \<Rightarrow> orchestrator_tick_result \<times> hierarchical" where
  "spawn_phase env bead_id agent rh =
     (let (r, h) = rh
      in if length (hr_active h) \<ge> he_max_concurrent env then (r, h)
         else
           (case (List.find (\<lambda>b. b_id b = bead_id) (he_beads env),
                  Option.bind (hr_orchestrators h bead_id) (\<lambda>fo. he_repos env (wr_repo (fo_bead_ref fo)))) of
              (Some b, Some path) \<Rightarrow>
                (let h1 = h\<lparr> hr_rec := emit (SetAssignee (b_repo b) bead_id agent) (hr_rec h) \<rparr>
                 in if he_spawn env bead_id agent
                    then (r\<lparr> ot_dispatched := ot_dispatched r + 1 \<rparr>,
                          h1\<lparr> hr_rec := emit (RecordDispatch (make_dispatch_id bead_id (he_started_at env bead_id))
                                (WorkRef (b_repo b) [] bead_id) agent) (emit (SpawnAgent bead_id agent) (hr_rec h1)),
                              hr_active := activate bead_id (hr_active h1) \<rparr>)
                    else (r, case hr_orchestrators h1 bead_id of
                               None \<Rightarrow> h1
                             | Some fo \<Rightarrow> put_orchestrator bead_id
                                 (on_worker_completed False (ev_max_retries (he_env env)) fo) h1))
            | _ \<Rightarrow> (r, h)))"

definition finish_phase :: "hierarchical_env \<Rightarrow> string \<Rightarrow> bool \<Rightarrow> orchestrator_tick_result \<times> hierarchical
    \<Rightarrow> orchestrator_tick_result \<times> hierarchical" where
  "finish_phase env bead_id exit_success rh =
     (let (r, h) = rh;
          ((action, _), s) = verify_and_decide (he_env env) bead_id exit_success (he_beads env) (hr_rec h);
          h1 = h\<lparr> hr_rec := s \<rparr>;
          h2 = (case hr_orchestrators h1 bead_id of
                  None \<Rightarrow> h1
                | Some fo \<Rightarrow> put_orchestrator bead_id
                    (on_worker_completed (passes action) (ev_max_retries (he_env env)) fo) h1)
      in (if passes action then r\<lparr> ot_passed := ot_passed r + 1 \<rparr> else r\<lparr> ot_failed := ot_failed r + 1 \<rparr>, h2))"

definition tick_one :: "hierarchical_env \<Rightarrow> string \<Rightarrow> orchestrator_tick_result \<times> hierarchical
    \<Rightarrow> orchestrator_tick_result \<times> hierarchical" where
  "tick_one env bead_id rh =
     (let (r, h) = rh
      in case hr_orchestrators h bead_id of
           None \<Rightarrow> (r, h)
         | Some fo \<Rightarrow>
             (let (outcome, fo') = tick (he_poll env) fo;
                  h1 = put_orchestrator bead_id fo' h;
                  repo = wr_repo (fo_bead_ref fo')
              in case outcome of
                   TickIdle \<Rightarrow> (r, h1)
                 | NeedsSpawn agent _ _ \<Rightarrow> spawn_phase env bead_id agent (r, h1)
                 | WorkerCompleted exit_success \<Rightarrow> finish_phase env bead_id exit_success (r, h1)
                 | TickTerminal \<Rightarrow>
                     (r\<lparr> ot_completed := ot_completed r + 1 \<rparr>,
                      drop_orchestrator bead_id (h1\<lparr> hr_rec := emit (PersistStatus bead_id repo PrOpen)
                        (checkpoint_and_cleanup (he_env env) bead_id (hr_rec h1)) \<rparr>))
                 | TickFailed _ \<Rightarrow>
                     (r\<lparr> ot_deadlettered := ot_deadlettered r + 1 \<rparr>,
                      drop_orchestrator bead_id (h1\<lparr> hr_rec := emit (PersistStatus bead_id repo DeadLetter)
                        (emit (ClearPipeline (WorkRef repo [] bead_id))
                          (cleanup_workspace bead_id (hr_rec h1))) \<rparr>))))"

definition no_ticks :: orchestrator_tick_result where
  "no_ticks = \<lparr> ot_dispatched = 0, ot_completed = 0, ot_passed = 0, ot_failed = 0, ot_deadlettered = 0 \<rparr>"

text \<open>The map of orchestrators is walked in the order of \<open>bead_ids\<close>, its keys in any order.\<close>

definition orchestrator_tick :: "hierarchical_env \<Rightarrow> string list \<Rightarrow> hierarchical
    \<Rightarrow> orchestrator_tick_result \<times> hierarchical" where
  "orchestrator_tick env bead_ids h = foldl (\<lambda>rh b. tick_one env b rh) (no_ticks, h) bead_ids"

text \<open>The completion of the agent of an orchestrated bead, as the reconciler feeds it back
  (\<open>verify_completed\<close>); the agent left the active ones when it was polled.\<close>

definition feed_back :: "hierarchical_env \<Rightarrow> string \<Rightarrow> bool \<Rightarrow> hierarchical \<Rightarrow> hierarchical" where
  "feed_back env bead_id passed h =
     (case hr_orchestrators h bead_id of
        None \<Rightarrow> h
      | Some fo \<Rightarrow> put_orchestrator bead_id (on_worker_completed passed (ev_max_retries (he_env env)) fo)
          (h\<lparr> hr_active := removeAll bead_id (hr_active h) \<rparr>))"

section \<open>One step of the machine\<close>

named_theorems tick_simps

lemma tick_cases [tick_simps]:
  "fo_state fo = OIdle \<Longrightarrow> fo_current_phase fo < length (fo_pipeline fo) \<Longrightarrow>
     tick poll fo =
       (NeedsSpawn (fo_pipeline fo ! fo_current_phase fo) (as_u32 (fo_current_phase fo))
          (session_decision fo (fo_pipeline fo ! fo_current_phase fo)),
        fo\<lparr> fo_state := AwaitingWorker (fo_pipeline fo ! fo_current_phase fo) (as_u32 (fo_current_phase fo)) \<rparr>)"
  "fo_state fo = OIdle \<Longrightarrow> \<not> fo_current_phase fo < length (fo_pipeline fo) \<Longrightarrow>
     tick poll fo = (TickTerminal, fo\<lparr> fo_state := OTerminal \<rparr>)"
  "fo_state fo = AwaitingWorker a p \<Longrightarrow> tick poll fo = poll_worker poll fo"
  "fo_state fo = OTerminal \<Longrightarrow> tick poll fo = (TickTerminal, fo)"
  "fo_state fo = OFailed k reason \<Longrightarrow> tick poll fo = (TickFailed reason, fo)"
  "fo_state fo = Synthesizing \<Longrightarrow>
     tick poll fo = tick poll (fo\<lparr> fo_state := (if fo_current_phase fo < length (fo_pipeline fo) then OIdle else OTerminal) \<rparr>)"
  "fo_state fo = PlanApproval plan \<Longrightarrow> tick poll fo = tick poll (advance_to_next_phase fo)"
  "fo_state fo = ResearchFanOut w c fs \<Longrightarrow> tick poll fo = tick poll (advance_to_next_phase fo)"
  by (subst tick.simps, simp add: pipeline_at_def)+

lemma as_u32_small: "n < 2 ^ 32 \<Longrightarrow> as_u32 n = n"
  by (simp add: as_u32_def)

section \<open>A run of an orchestrator\<close>

text \<open>Every spawn is answered by the outcome of its worker, in the order of the list.\<close>

fun drive :: "(string \<Rightarrow> poll_result) \<Rightarrow> nat \<Rightarrow> bool list \<Rightarrow> feature_orchestrator
    \<Rightarrow> (string \<times> nat) list \<times> feature_orchestrator" where
  "drive poll max_retries [] fo = ([], fo)"
| "drive poll max_retries (r # rs) fo =
     (case tick poll fo of
        (NeedsSpawn a p _, fo1) \<Rightarrow>
          (let (spawns, fo2) = drive poll max_retries rs (on_worker_completed r max_retries fo1)
           in ((a, p) # spawns, fo2))
      | (_, fo1) \<Rightarrow> ([], fo1))"

text \<open>The promise: a phase and a count of failures in it.\<close>

datatype run_end = StillAt nat nat | RunDone | RunFailed

fun phase_run :: "nat \<Rightarrow> nat \<Rightarrow> bool list \<Rightarrow> nat \<Rightarrow> nat \<Rightarrow> nat list \<times> run_end" where
  "phase_run n m [] p k = ([], StillAt p k)"
| "phase_run n m (r # rs) p k =
     (let (ps, e) = (if r then (if p + 1 < n then phase_run n m rs (p + 1) 0 else ([], RunDone))
                     else if k + 1 \<ge> m then ([], RunFailed) else phase_run n m rs p (k + 1))
      in (p # ps, e))"

definition at_phase :: "string list \<Rightarrow> nat \<Rightarrow> nat \<Rightarrow> feature_orchestrator \<Rightarrow> bool" where
  "at_phase ps p k fo \<longleftrightarrow> fo_pipeline fo = ps \<and> fo_current_phase fo = p \<and> p < length ps \<and> fo_retries fo = k
     \<and> (fo_state fo = OIdle \<or> fo_state fo = Synthesizing)"

definition ended_as :: "string list \<Rightarrow> run_end \<Rightarrow> feature_orchestrator \<Rightarrow> bool" where
  "ended_as ps e fo \<longleftrightarrow>
     (case e of StillAt p k \<Rightarrow> at_phase ps p k fo | RunDone \<Rightarrow> fo_state fo = OTerminal
      | RunFailed \<Rightarrow> (\<exists>k reason. fo_state fo = OFailed k reason))"

lemma at_phase_tick:
  assumes "at_phase ps p k fo" "p < 2 ^ 32"
  shows "\<exists>d fo1. tick poll fo = (NeedsSpawn (ps ! p) p d, fo1)
     \<and> fo_pipeline fo1 = ps \<and> fo_current_phase fo1 = p \<and> fo_retries fo1 = k"
  using assms by (auto simp: at_phase_def tick_simps as_u32_small)

lemma completed_step:
  assumes "fo_pipeline fo1 = ps" "fo_current_phase fo1 = p" "fo_retries fo1 = k" "p < length ps"
  shows "p + 1 < length ps \<Longrightarrow> at_phase ps (p + 1) 0 (on_worker_completed True m fo1)"
    and "\<not> p + 1 < length ps \<Longrightarrow> fo_state (on_worker_completed True m fo1) = OTerminal"
    and "k + 1 \<ge> m \<Longrightarrow> \<exists>j reason. fo_state (on_worker_completed False m fo1) = OFailed j reason"
    and "\<not> k + 1 \<ge> m \<Longrightarrow> at_phase ps p (k + 1) (on_worker_completed False m fo1)"
  using assms by (auto simp: on_worker_completed_def Let_def at_phase_def)

lemma drive_ended: "fo_state fo = OTerminal \<or> (\<exists>j reason. fo_state fo = OFailed j reason) \<Longrightarrow> drive poll m rs fo = ([], fo)"
  by (cases rs) (auto simp: tick_simps)

lemma drive_refines:
  assumes "at_phase ps p k fo" "length ps \<le> 2 ^ 32"
  shows "fst (drive poll m rs fo) = map (\<lambda>i. (ps ! i, i)) (fst (phase_run (length ps) m rs p k))
     \<and> ended_as ps (snd (phase_run (length ps) m rs p k)) (snd (drive poll m rs fo))"
  using assms(1)
proof (induction rs arbitrary: p k fo)
  case Nil
  then show ?case by (simp add: ended_as_def)
next
  case (Cons r rs)
  have p: "p < length ps" using Cons.prems by (simp add: at_phase_def)
  obtain d fo1 where t: "tick poll fo = (NeedsSpawn (ps ! p) p d, fo1)"
    and f: "fo_pipeline fo1 = ps" "fo_current_phase fo1 = p" "fo_retries fo1 = k"
    using at_phase_tick [OF Cons.prems] p assms(2) by (meson order_less_le_trans)
  let ?fo2 = "on_worker_completed r m fo1"
  note step = completed_step [OF f p, where m = m]
  have "fst (drive poll m rs ?fo2) = map (\<lambda>i. (ps ! i, i))
       (fst (if r then (if p + 1 < length ps then phase_run (length ps) m rs (p + 1) 0 else ([], RunDone))
             else if k + 1 \<ge> m then ([], RunFailed) else phase_run (length ps) m rs p (k + 1)))
     \<and> ended_as ps (snd (if r then (if p + 1 < length ps then phase_run (length ps) m rs (p + 1) 0 else ([], RunDone))
             else if k + 1 \<ge> m then ([], RunFailed) else phase_run (length ps) m rs p (k + 1)))
         (snd (drive poll m rs ?fo2))"
  proof (cases r)
    case True
    show ?thesis
    proof (cases "p + 1 < length ps")
      case True
      then show ?thesis using Cons.IH [OF step(1)] \<open>r\<close> by simp
    next
      case False
      then show ?thesis using drive_ended [of ?fo2 poll m rs] step(2) \<open>r\<close> by (simp add: ended_as_def)
    qed
  next
    case False
    show ?thesis
    proof (cases "k + 1 \<ge> m")
      case True
      then show ?thesis using drive_ended [of ?fo2 poll m rs] step(3) \<open>\<not> r\<close> by (simp add: ended_as_def)
    next
      case False
      then show ?thesis using Cons.IH [OF step(4)] \<open>\<not> r\<close> by simp
    qed
  qed
  then show ?case by (simp add: t case_prod_beta Let_def)
qed

lemma phase_run_ge: "x \<in> set (fst (phase_run n m rs p k)) \<Longrightarrow> p \<le> x"
proof (induction rs arbitrary: p k)
  case (Cons r rs)
  from Cons.prems have "x = p \<or> x \<in> set (fst (phase_run n m rs (p + 1) 0)) \<or> x \<in> set (fst (phase_run n m rs p (k + 1)))"
    by (auto simp: case_prod_beta Let_def split: if_splits)
  then show ?case using Cons.IH [of "p + 1" 0] Cons.IH [of p "k + 1"] by auto
qed simp

lemma phase_run_sorted: "sorted (fst (phase_run n m rs p k))"
proof (induction rs arbitrary: p k)
  case (Cons r rs)
  have "\<forall>x \<in> set (fst (phase_run n m rs (p + 1) 0)). p \<le> x" "\<forall>x \<in> set (fst (phase_run n m rs p (k + 1))). p \<le> x"
    using phase_run_ge by (fastforce dest: Suc_leD)+
  then show ?case using Cons.IH by (simp add: case_prod_beta Let_def)
qed simp

lemma phase_run_count:
  "k < max 1 m \<Longrightarrow> count_list (fst (phase_run n m rs p k)) i \<le> (if i = p then max 1 m - k else max 1 m)"
proof (induction rs arbitrary: p k)
  case (Cons r rs)
  have before: "count_list (fst (phase_run n m rs (p + 1) 0)) p = 0"
    using phase_run_ge [of p n m rs "p + 1" 0] by (auto simp: count_list_0_iff)
  have later: "count_list (fst (phase_run n m rs (p + 1) 0)) i \<le> max 1 m"
    using Cons.IH [of 0 "p + 1"] by (rule order_trans) simp_all
  show ?case
  proof (cases r)
    case True
    then show ?thesis using before later Cons.prems by (auto simp: case_prod_beta Let_def)
  next
    case False
    show ?thesis
    proof (cases "k + 1 \<ge> m")
      case True
      then show ?thesis using \<open>\<not> r\<close> Cons.prems by (auto simp: case_prod_beta Let_def)
    next
      case False
      then have "count_list (fst (phase_run n m rs p (k + 1))) i \<le> (if i = p then max 1 m - (k + 1) else max 1 m)"
        by (intro Cons.IH) simp
      then show ?thesis using \<open>\<not> r\<close> False by (auto simp: case_prod_beta Let_def)
    qed
  qed
qed simp

lemma phase_run_ends:
  "p < n \<Longrightarrow> k < max 1 m \<Longrightarrow> (n - p) * max 1 m \<le> length rs + k \<Longrightarrow>
   snd (phase_run n m rs p k) = RunDone \<or> snd (phase_run n m rs p k) = RunFailed"
proof (induction rs arbitrary: p k)
  case Nil
  then show ?case by (cases "n - p") auto
next
  case (Cons r rs)
  show ?case
  proof (cases r)
    case True
    show ?thesis
    proof (cases "p + 1 < n")
      case True
      have "(n - p) * max 1 m = (n - (p + 1)) * max 1 m + max 1 m" using True
        by (metis Suc_diff_Suc Suc_eq_plus1 Suc_lessD add.commute mult_Suc)
      then have "(n - (p + 1)) * max 1 m \<le> length rs + 0" using Cons.prems(2,3) by simp
      then show ?thesis using Cons.IH [of "p + 1" 0] True \<open>r\<close> by (simp add: case_prod_beta Let_def)
    next
      case False
      then show ?thesis using \<open>r\<close> by (simp add: case_prod_beta Let_def)
    qed
  next
    case False
    then show ?thesis using Cons.IH [of p "k + 1"] Cons.prems by (simp add: case_prod_beta Let_def)
  qed
qed

lemma phase_run_done:
  "p < n \<Longrightarrow> snd (phase_run n m rs p k) = RunDone \<Longrightarrow> set (fst (phase_run n m rs p k)) = {p..<n}"
proof (induction rs arbitrary: p k)
  case (Cons r rs)
  show ?case
  proof (cases r)
    case True
    show ?thesis
    proof (cases "p + 1 < n")
      case True
      have "snd (phase_run n m rs (p + 1) 0) = RunDone" using Cons.prems(2) \<open>r\<close> True
        by (simp add: case_prod_beta Let_def)
      then have "set (fst (phase_run n m rs (p + 1) 0)) = {p + 1..<n}" by (rule Cons.IH [OF True])
      then show ?thesis using \<open>r\<close> True by (auto simp: case_prod_beta Let_def)
    next
      case False
      then have "n = p + 1" using Cons.prems(1) by simp
      then show ?thesis using \<open>r\<close> by (auto simp: case_prod_beta Let_def)
    qed
  next
    case False
    then have k: "\<not> k + 1 \<ge> m" "snd (phase_run n m rs p (k + 1)) = RunDone"
      using Cons.prems(2) by (simp_all add: case_prod_beta Let_def split: if_splits)
    have "set (fst (phase_run n m rs p (k + 1))) = {p..<n}" by (rule Cons.IH [OF Cons.prems(1) k(2)])
    then show ?thesis using False k(1) Cons.prems(1) by (simp add: case_prod_beta Let_def insert_absorb)
  qed
qed simp

lemma phase_run_all_pass: "n = p + Suc d \<Longrightarrow> phase_run n m (replicate (Suc d) True) p k = ([p..<n], RunDone)"
proof (induction d arbitrary: p k)
  case (Suc d)
  have "phase_run n m (replicate (Suc d) True) (p + 1) 0 = ([p + 1..<n], RunDone)"
    using Suc.prems by (intro Suc.IH) simp
  moreover have "[p..<n] = p # [p + 1..<n]" using Suc.prems by (simp add: upt_conv_Cons)
  moreover have "replicate (Suc (Suc d)) True = True # replicate (Suc d) True" by simp
  ultimately show ?case using Suc.prems by (simp only: phase_run.simps) (simp add: Let_def)
qed simp

lemma orchestrator_drives_the_pipeline_parts:
  assumes "fo = new_orchestrator bead_ref issue_type ps work_dir config created_at" "ps \<noteq> []" "length ps \<le> 2 ^ 32"
  shows "\<exists>phases. fst (drive poll m rs fo) = map (\<lambda>i. (ps ! i, i)) phases \<and> sorted phases
        \<and> set phases \<subseteq> {..<length ps} \<and> (\<forall>i. count_list phases i \<le> max 1 m)
        \<and> (fo_state (snd (drive poll m rs fo)) = OTerminal \<longrightarrow> set phases = {..<length ps})"
    and "length ps * max 1 m \<le> length rs \<Longrightarrow>
      fo_state (snd (drive poll m rs fo)) = OTerminal \<or> (\<exists>k reason. fo_state (snd (drive poll m rs fo)) = OFailed k reason)"
    and "fst (drive poll m (replicate (length ps) True) fo) = map (\<lambda>i. (ps ! i, i)) [0..<length ps]
      \<and> fo_state (snd (drive poll m (replicate (length ps) True) fo)) = OTerminal"
proof -
  have start: "at_phase ps 0 0 fo" using assms(1,2) by (simp add: at_phase_def new_orchestrator_def)
  note ref = drive_refines [OF start assms(3), of poll m]
  let ?run = "phase_run (length ps) m rs 0 0"
  have pos: "0 < length ps" using assms(2) by simp
  have idx: "set phases \<subseteq> {..<length ps}" if "phases = fst ?run" for phases
  proof -
    have "set (fst (phase_run n m rs p k)) \<subseteq> {..<n}" if "p < n" for n p k and rs :: "bool list"
      using that by (induction rs arbitrary: p k) (auto simp: case_prod_beta Let_def split: if_splits)
    then show ?thesis using pos \<open>phases = fst ?run\<close> by simp
  qed
  have completes: "snd ?run = RunDone" if "fo_state (snd (drive poll m rs fo)) = OTerminal"
    using ref [of rs] that by (cases "snd ?run") (auto simp: ended_as_def at_phase_def)
  show "\<exists>phases. fst (drive poll m rs fo) = map (\<lambda>i. (ps ! i, i)) phases \<and> sorted phases
        \<and> set phases \<subseteq> {..<length ps} \<and> (\<forall>i. count_list phases i \<le> max 1 m)
        \<and> (fo_state (snd (drive poll m rs fo)) = OTerminal \<longrightarrow> set phases = {..<length ps})"
  proof (intro exI conjI allI impI)
    show "fst (drive poll m rs fo) = map (\<lambda>i. (ps ! i, i)) (fst ?run)" using ref [of rs] by simp
    show "sorted (fst ?run)" by (rule phase_run_sorted)
    show "set (fst ?run) \<subseteq> {..<length ps}" by (rule idx) simp
    show "count_list (fst ?run) i \<le> max 1 m" for i
      using phase_run_count [of 0 m "length ps" rs 0 i] by (rule order_trans) simp_all
    show "set (fst ?run) = {..<length ps}" if "fo_state (snd (drive poll m rs fo)) = OTerminal"
      using phase_run_done [OF pos completes [OF that]] by (simp add: atLeast0LessThan)
  qed
  show "fo_state (snd (drive poll m rs fo)) = OTerminal \<or> (\<exists>k reason. fo_state (snd (drive poll m rs fo)) = OFailed k reason)"
    if "length ps * max 1 m \<le> length rs"
  proof -
    have "snd ?run = RunDone \<or> snd ?run = RunFailed" using that by (intro phase_run_ends pos) simp_all
    then show ?thesis using ref [of rs] by (auto simp: ended_as_def)
  qed
  show "fst (drive poll m (replicate (length ps) True) fo) = map (\<lambda>i. (ps ! i, i)) [0..<length ps]
      \<and> fo_state (snd (drive poll m (replicate (length ps) True) fo)) = OTerminal"
    using ref [of "replicate (length ps) True"] 
      phase_run_all_pass [of "length ps" 0 "length ps - 1" m 0] pos by (simp add: ended_as_def atLeast0LessThan [symmetric])
qed

text \<open>
  C7. An orchestrator drives its pipeline in order. Whatever the outcomes of its workers, the
  phases it spawns never go back, each spawn is of the agent of its phase, and no phase is spawned
  more than max_retries times (once, if that is zero). After as many outcomes as the pipeline has
  phases times that bound it has ended, completed or failed; it completes only if every phase was
  spawned, and when every worker passes it spawns each phase exactly once and completes.
\<close>

theorem orchestrator_drives_the_pipeline:
  assumes "fo = new_orchestrator bead_ref issue_type ps work_dir config created_at" "ps \<noteq> []" "length ps \<le> 2 ^ 32"
  shows "(\<exists>phases. fst (drive poll m rs fo) = map (\<lambda>i. (ps ! i, i)) phases \<and> sorted phases
        \<and> set phases \<subseteq> {..<length ps} \<and> (\<forall>i. count_list phases i \<le> max 1 m)
        \<and> (fo_state (snd (drive poll m rs fo)) = OTerminal \<longrightarrow> set phases = {..<length ps}))
     \<and> ((length ps * max 1 m \<le> length rs) \<longrightarrow> (fo_state (snd (drive poll m rs fo)) = OTerminal \<or> (\<exists>k reason. fo_state (snd (drive poll m rs fo)) = OFailed k reason)))
     \<and> (fst (drive poll m (replicate (length ps) True) fo) = map (\<lambda>i. (ps ! i, i)) [0..<length ps]
      \<and> fo_state (snd (drive poll m (replicate (length ps) True) fo)) = OTerminal)"
  by (rule conjI, rule orchestrator_drives_the_pipeline_parts(1) [OF assms],
      rule conjI, rule impI, (rule orchestrator_drives_the_pipeline_parts(2) [OF assms]; assumption),
      rule orchestrator_drives_the_pipeline_parts(3) [OF assms])

definition small_orchestrator :: feature_orchestrator where
  "small_orchestrator = new_orchestrator (WorkRef ''r'' [] ''b'') ''bug'' [''dev-agent'', ''staging-agent''] ''/w''
     default_behavior 0"

theorem orchestrator_drives_the_pipeline_witness:
  "fst (drive (\<lambda>_. PollError) 2 [True, True] small_orchestrator) = [(''dev-agent'', 0), (''staging-agent'', 1)]
   \<and> fo_state (snd (drive (\<lambda>_. PollError) 2 [True, True] small_orchestrator)) = OTerminal"
proof -
  let ?ps = "[''dev-agent'', ''staging-agent'']"
  have r: "replicate (length ?ps) True = [True, True]" "map (\<lambda>i. (?ps ! i, i)) [0..<length ?ps] = [(''dev-agent'', 0), (''staging-agent'', 1)]"
    by (simp_all add: upt_rec)
  have "length ?ps \<le> 2 ^ 32" "?ps \<noteq> []" by simp_all
  from orchestrator_drives_the_pipeline [THEN conjunct2, THEN conjunct2, OF small_orchestrator_def this(2,1), unfolded r] show ?thesis .
qed

section \<open>An orchestrator that waits for nobody\<close>

text \<open>It awaits a worker, has no handle, and no agent runs for its bead.\<close>

definition stranded :: "string \<Rightarrow> feature_orchestrator \<Rightarrow> hierarchical \<Rightarrow> bool" where
  "stranded b fo h \<longleftrightarrow> hr_orchestrators h b = Some fo \<and> fo_worker_handle fo = None
     \<and> (\<exists>a p. fo_state fo = AwaitingWorker a p) \<and> b \<notin> set (hr_active h)"

lemma stranded_tick: "stranded b fo h \<Longrightarrow> tick poll fo = (TickIdle, fo)"
  by (auto simp: stranded_def tick_simps poll_worker_def)

lemma put_orchestrator_other [simp]:
  "b \<noteq> b' \<Longrightarrow> hr_orchestrators (put_orchestrator b' fo h) b = hr_orchestrators h b"
  "hr_active (put_orchestrator b' fo h) = hr_active h"
  "hr_orchestrators (put_orchestrator b fo h) b = Some fo"
  "b \<noteq> b' \<Longrightarrow> hr_orchestrators (drop_orchestrator b' h) b = hr_orchestrators h b"
  "hr_active (drop_orchestrator b' h) = hr_active h"
  by (simp_all add: put_orchestrator_def drop_orchestrator_def)

lemma tick_one_other:
  assumes "b \<noteq> b'"
  shows "hr_orchestrators (snd (tick_one env b' (r, h))) b = hr_orchestrators h b"
    and "set (hr_active (snd (tick_one env b' (r, h)))) \<subseteq> insert b' (set (hr_active h))"
proof -
  have spawn: "hr_orchestrators (snd (spawn_phase env b' agent (r, h))) b = hr_orchestrators h b"
    "set (hr_active (snd (spawn_phase env b' agent (r, h)))) \<subseteq> insert b' (set (hr_active h))" for agent h
    using assms by (auto simp: spawn_phase_def Let_def split: option.splits)
  have finish: "hr_orchestrators (snd (finish_phase env b' ex (r, h))) b = hr_orchestrators h b"
    "hr_active (snd (finish_phase env b' ex (r, h))) = hr_active h" for ex h
    using assms by (auto simp: finish_phase_def Let_def split: option.splits prod.splits)
  have "hr_orchestrators (snd (tick_one env b' (r, h))) b = hr_orchestrators h b
     \<and> set (hr_active (snd (tick_one env b' (r, h)))) \<subseteq> insert b' (set (hr_active h))"
  proof (cases "hr_orchestrators h b'")
    case None
    then show ?thesis by (auto simp: tick_one_def)
  next
    case (Some fo)
    obtain out fo' where t: "tick (he_poll env) fo = (out, fo')" by force
    let ?h1 = "put_orchestrator b' fo' h"
    show ?thesis
    proof (cases out)
      case (NeedsSpawn agent p d)
      then show ?thesis using spawn [of agent ?h1] assms by (simp add: tick_one_def Some t Let_def)
    next
      case (WorkerCompleted ex)
      then show ?thesis using finish [of ex ?h1] assms by (auto simp add: tick_one_def Some t Let_def)
    qed (use assms in \<open>auto simp: tick_one_def Some t Let_def\<close>)
  qed
  then show "hr_orchestrators (snd (tick_one env b' (r, h))) b = hr_orchestrators h b"
    "set (hr_active (snd (tick_one env b' (r, h)))) \<subseteq> insert b' (set (hr_active h))" by blast+
qed

lemma tick_one_stranded:
  assumes s: "stranded b fo h"
  shows "stranded b fo (snd (tick_one env b' (r, h)))"
proof (cases "b' = b")
  case True
  have "tick (he_poll env) fo = (TickIdle, fo)" using stranded_tick [OF s] .
  then have "snd (tick_one env b (r, h)) = put_orchestrator b fo h"
    using s by (simp add: tick_one_def stranded_def Let_def)
  then show ?thesis using s True by (simp add: stranded_def)
next
  case False
  then have "b \<noteq> b'" by simp
  from tick_one_other [OF this, of env r h] s False show ?thesis unfolding stranded_def by fastforce
qed

lemma orchestrator_tick_stranded:
  assumes "stranded b fo h"
  shows "stranded b fo (snd (orchestrator_tick env ids h))"
proof -
  have "stranded b fo (snd (foldl (\<lambda>rh b. tick_one env b rh) rh ids))" if "stranded b fo (snd rh)" for rh
    using that
  proof (induction ids arbitrary: rh)
    case (Cons i ids)
    obtain r h where rh: "rh = (r, h)" by force
    then have "stranded b fo (snd (tick_one env i rh))" using tick_one_stranded Cons.prems by simp
    then show ?case using Cons.IH [of "tick_one env i rh"] by simp
  qed simp
  then show ?thesis using assms by (simp add: orchestrator_tick_def)
qed

lemma feed_back_stranded:
  "stranded b fo h \<Longrightarrow> b' \<in> set (hr_active h) \<Longrightarrow> stranded b fo (feed_back env b' passed h)"
  by (auto simp: stranded_def feed_back_def put_orchestrator_def split: option.splits)

text \<open>What the reconciler does from one iteration to the next: passes over the orchestrators, in any
  environment and order, new orchestrators, and completions of agents that run.\<close>

inductive later :: "hierarchical \<Rightarrow> hierarchical \<Rightarrow> bool" where
  later_refl: "later h h"
| later_tick: "later h h' \<Longrightarrow> later h (snd (orchestrator_tick env ids h'))"
| later_new: "later h h' \<Longrightarrow> hr_orchestrators h' b = None \<Longrightarrow>
    later h (create_orchestrator env b repo scope issue_type work_dir h')"
| later_done: "later h h' \<Longrightarrow> b \<in> set (hr_active h') \<Longrightarrow> later h (feed_back env b passed h')"

lemma later_stranded: "later h h' \<Longrightarrow> stranded b fo h \<Longrightarrow> stranded b fo h'"
proof (induction rule: later.induct)
  case (later_tick h h' env ids)
  then show ?case using orchestrator_tick_stranded by blast
next
  case (later_new h h' b' env repo scope issue_type work_dir)
  then show ?case by (cases "b' = b") (auto simp: stranded_def create_orchestrator_def)
next
  case (later_done h h' b' env passed)
  then show ?case using feed_back_stranded by blast
qed

lemma spawn_skipped:
  assumes "hr_orchestrators h b = Some fo" "fo_state fo = OIdle \<or> fo_state fo = Synthesizing"
    "fo_current_phase fo < length (fo_pipeline fo)" "fo_worker_handle fo = None" "b \<notin> set (hr_active h)"
    and skip: "he_max_concurrent env \<le> length (hr_active h) \<or> b \<notin> b_id ` set (he_beads env)
       \<or> he_repos env (wr_repo (fo_bead_ref fo)) = None"
  shows "\<exists>fo'. fst (tick_one env b (r, h)) = r \<and> stranded b fo' (snd (tick_one env b (r, h)))
     \<and> fo_current_phase fo' = fo_current_phase fo"
proof -
  let ?fo = "fo\<lparr> fo_state := OIdle \<rparr>"
  let ?a = "fo_pipeline fo ! fo_current_phase fo"
  let ?fo' = "?fo\<lparr> fo_state := AwaitingWorker ?a (as_u32 (fo_current_phase fo)) \<rparr>"
  have t: "\<exists>d. tick (he_poll env) fo = (NeedsSpawn ?a (as_u32 (fo_current_phase fo)) d, ?fo')"
    using assms(2,3) by (auto simp: tick_simps)
  then obtain d where t: "tick (he_poll env) fo = (NeedsSpawn ?a (as_u32 (fo_current_phase fo)) d, ?fo')" ..
  let ?h1 = "put_orchestrator b ?fo' h"
  have "List.find (\<lambda>x. b_id x = b) (he_beads env) = None" if "b \<notin> b_id ` set (he_beads env)"
    using that by (auto simp: find_None_iff)
  then have "spawn_phase env b ?a (r, ?h1) = (r, ?h1)"
    using skip by (auto simp: spawn_phase_def Let_def split: option.splits)
  then have "tick_one env b (r, h) = (r, ?h1)" using assms(1) by (simp add: tick_one_def t Let_def)
  then show ?thesis using assms(4,5) by (auto simp: stranded_def)
qed

text \<open>
  When an orchestrator asks for a worker and none can be spawned - all slots are taken, its bead
  is not in the scan, or its repository is not known - nothing is spawned and nothing tells it so:
  it awaits a worker that does not exist, through every later pass of the reconciler and whatever
  else completes. Only a spawn that errs is reported to it.
\<close>

theorem skipped_spawn_strands_the_bead:
  assumes "hr_orchestrators h b = Some fo" "fo_state fo = OIdle \<or> fo_state fo = Synthesizing"
    "fo_current_phase fo < length (fo_pipeline fo)" "fo_worker_handle fo = None" "b \<notin> set (hr_active h)"
    "he_max_concurrent env \<le> length (hr_active h) \<or> b \<notin> b_id ` set (he_beads env)
       \<or> he_repos env (wr_repo (fo_bead_ref fo)) = None"
    "later (snd (tick_one env b (r, h))) h'"
  shows "\<exists>fo'. hr_orchestrators h' b = Some fo' \<and> fo_current_phase fo' = fo_current_phase fo
     \<and> (\<exists>a p. fo_state fo' = AwaitingWorker a p) \<and> b \<notin> set (hr_active h')
     \<and> (\<forall>poll. tick poll fo' = (TickIdle, fo'))"
proof -
  obtain fo' where f: "stranded b fo' (snd (tick_one env b (r, h)))" "fo_current_phase fo' = fo_current_phase fo"
    using spawn_skipped [OF assms(1-6), of r] by blast
  then have "stranded b fo' h'" using later_stranded [OF assms(7)] by blast
  then show ?thesis using f(2) stranded_tick by (auto simp: stranded_def)
qed

definition crowded :: hierarchical where
  "crowded = put_orchestrator ''b'' small_orchestrator
     \<lparr> hr_rec = \<lparr> rc_queue = with_backoff_base 1, rc_trackers = (\<lambda>_. None), rc_orchestrators = (\<lambda>_. None),
         rc_deadlettered = {}, rc_work_dirs = (\<lambda>_. None), rc_workspaces = {}, rc_effects = [] \<rparr>,
       hr_orchestrators = (\<lambda>_. None), hr_active = [''other''] \<rparr>"

definition crowded_env :: hierarchical_env where
  "crowded_env = \<lparr> he_env = sample_env True [], he_beads = [], he_repos = (\<lambda>_. None), he_max_concurrent = 1,
     he_spawn = (\<lambda>_ _. True), he_poll = (\<lambda>_. PollError), he_behavior = default_behavior, he_now = 0,
     he_started_at = (\<lambda>_. 0) \<rparr>"

theorem skipped_spawn_strands_the_bead_witness:
  "\<exists>fo'. hr_orchestrators (snd (tick_one crowded_env ''b'' (no_ticks, crowded))) ''b'' = Some fo'
     \<and> (\<forall>poll. tick poll fo' = (TickIdle, fo'))"
proof -
  have "hr_orchestrators crowded ''b'' = Some small_orchestrator" "fo_state small_orchestrator = OIdle"
    "fo_current_phase small_orchestrator < length (fo_pipeline small_orchestrator)"
    "fo_worker_handle small_orchestrator = None" "''b'' \<notin> set (hr_active crowded)"
    "he_max_concurrent crowded_env \<le> length (hr_active crowded)"
    by (simp_all add: crowded_def crowded_env_def small_orchestrator_def new_orchestrator_def)
  then show ?thesis
    using skipped_spawn_strands_the_bead [of crowded "''b''" small_orchestrator crowded_env no_ticks, OF _ _ _ _ _ _ later_refl]
    by blast
qed

section \<open>Crash recovery\<close>

lemma recovery_resumes_only_between_workers_parts:
  assumes "fo_pipeline fo = agents_for engine (fo_issue_type fo)" "length (fo_pipeline fo) \<le> 2 ^ 32"
    and "fo_current_phase fo < length (fo_pipeline fo)"
  shows "fo_state fo = OIdle \<or> fo_state fo = Synthesizing \<Longrightarrow>
      \<exists>fo' d d' fo1 fo1'. recover_orchestrator engine behavior now work_dir (persist_record t fo) = Some fo'
        \<and> tick poll fo = (NeedsSpawn (fo_pipeline fo ! fo_current_phase fo) (fo_current_phase fo) d, fo1)
        \<and> tick poll fo' = (NeedsSpawn (fo_pipeline fo ! fo_current_phase fo) (fo_current_phase fo) d', fo1')
        \<and> fo_retries fo' = fo_retries fo"
    and "fo_state fo = AwaitingWorker a p \<Longrightarrow>
      \<exists>fo'. recover_orchestrator engine behavior now work_dir (persist_record t fo) = Some fo'
        \<and> (\<forall>poll. tick poll fo' = (TickIdle, fo'))"
    and "fo_state fo = OTerminal \<or> fo_state fo = OFailed k reason \<Longrightarrow>
      recover_orchestrator engine behavior now work_dir (persist_record t fo) = None"
proof -
  have small: "as_u32 (fo_current_phase fo) = fo_current_phase fo"
    using assms(2,3) by (intro as_u32_small) simp
  show "fo_state fo = OIdle \<or> fo_state fo = Synthesizing \<Longrightarrow>
      \<exists>fo' d d' fo1 fo1'. recover_orchestrator engine behavior now work_dir (persist_record t fo) = Some fo'
        \<and> tick poll fo = (NeedsSpawn (fo_pipeline fo ! fo_current_phase fo) (fo_current_phase fo) d, fo1)
        \<and> tick poll fo' = (NeedsSpawn (fo_pipeline fo ! fo_current_phase fo) (fo_current_phase fo) d', fo1')
        \<and> fo_retries fo' = fo_retries fo"
    using assms(1,3) small
    by (auto simp: recover_orchestrator_def persist_record_def new_orchestrator_def tick_simps)
  show "fo_state fo = AwaitingWorker a p \<Longrightarrow>
      \<exists>fo'. recover_orchestrator engine behavior now work_dir (persist_record t fo) = Some fo'
        \<and> (\<forall>poll. tick poll fo' = (TickIdle, fo'))"
    by (simp add: recover_orchestrator_def persist_record_def new_orchestrator_def tick_simps poll_worker_def)
  show "fo_state fo = OTerminal \<or> fo_state fo = OFailed k reason \<Longrightarrow>
      recover_orchestrator engine behavior now work_dir (persist_record t fo) = None"
    by (auto simp: recover_orchestrator_def persist_record_def)
qed

text \<open>
  A recovered orchestrator goes on where it was only if the crash fell between two workers: then
  it asks for the same agent at the same phase with the same count of failures. If a worker was
  running, which is when a crash matters, the recovered orchestrator awaits it with no handle: every
  tick of it is idle. A finished one is not recovered.
\<close>

theorem recovery_resumes_only_between_workers:
  assumes "fo_pipeline fo = agents_for engine (fo_issue_type fo)" "length (fo_pipeline fo) \<le> 2 ^ 32"
    and "fo_current_phase fo < length (fo_pipeline fo)"
  shows "((fo_state fo = OIdle \<or> fo_state fo = Synthesizing) \<longrightarrow> (\<exists>fo' d d' fo1 fo1'. recover_orchestrator engine behavior now work_dir (persist_record t fo) = Some fo'
        \<and> tick poll fo = (NeedsSpawn (fo_pipeline fo ! fo_current_phase fo) (fo_current_phase fo) d, fo1)
        \<and> tick poll fo' = (NeedsSpawn (fo_pipeline fo ! fo_current_phase fo) (fo_current_phase fo) d', fo1')
        \<and> fo_retries fo' = fo_retries fo))
     \<and> ((fo_state fo = AwaitingWorker a p) \<longrightarrow> (\<exists>fo'. recover_orchestrator engine behavior now work_dir (persist_record t fo) = Some fo'
        \<and> (\<forall>poll. tick poll fo' = (TickIdle, fo'))))
     \<and> ((fo_state fo = OTerminal \<or> fo_state fo = OFailed k reason) \<longrightarrow> (recover_orchestrator engine behavior now work_dir (persist_record t fo) = None))"
  by (rule conjI, rule impI, (rule recovery_resumes_only_between_workers_parts(1) [OF assms]; assumption),
      rule conjI, rule impI, (rule recovery_resumes_only_between_workers_parts(2) [OF assms]; assumption),
      rule impI, (rule recovery_resumes_only_between_workers_parts(3) [OF assms]; assumption))

definition interrupted :: feature_orchestrator where
  "interrupted = snd (tick (\<lambda>_. PollError)
     (new_orchestrator (WorkRef ''r'' [] ''b'') ''task'' (agents_for (ev_pipeline (sample_env True [])) ''task'') ''/w''
        default_behavior 0))"

lemma interrupted_fields:
  "fo_pipeline interrupted = agents_for (ev_pipeline (sample_env True [])) (fo_issue_type interrupted)"
  "length (fo_pipeline interrupted) = 2" "fo_current_phase interrupted = 0"
  "fo_state interrupted = AwaitingWorker ''dev-agent'' 0"
  by (simp_all add: interrupted_def new_orchestrator_def tick.simps pipeline_at_def agents_for_def sample_env_def as_u32_def)

theorem recovery_resumes_only_between_workers_witness:
  "\<exists>fo'. recover_orchestrator (ev_pipeline (sample_env True [])) default_behavior 0 ''/w'' (persist_record 0 interrupted) = Some fo'
     \<and> (\<forall>poll. tick poll fo' = (TickIdle, fo'))"
  using interrupted_fields
  by (intro recovery_resumes_only_between_workers [where a = "''dev-agent''" and p = 0, THEN conjunct2, THEN conjunct1, THEN mp]) simp_all

section \<open>Sessions\<close>

text \<open>The orchestrators the program can have.\<close>

inductive orchestrator_reached :: "pipeline_engine \<Rightarrow> feature_orchestrator \<Rightarrow> bool" for engine where
  reached_new: "orchestrator_reached engine
      (new_orchestrator bead_ref issue_type (agents_for engine issue_type) work_dir config created_at)"
| reached_tick: "orchestrator_reached engine fo \<Longrightarrow> orchestrator_reached engine (snd (tick poll fo))"
| reached_done: "orchestrator_reached engine fo \<Longrightarrow> orchestrator_reached engine (on_worker_completed passed m fo)"
| reached_handle: "orchestrator_reached engine fo \<Longrightarrow> orchestrator_reached engine (set_worker_handle handle fo)"
| reached_recovered: "orchestrator_reached engine fo \<Longrightarrow>
      recover_orchestrator engine behavior now work_dir (persist_record t fo) = Some fo' \<Longrightarrow>
      orchestrator_reached engine fo'"

definition plain_state :: "orchestrator_state \<Rightarrow> bool" where
  "plain_state st \<longleftrightarrow> (\<forall>plan. st \<noteq> PlanApproval plan) \<and> (\<forall>w c fs. st \<noteq> ResearchFanOut w c fs)"

lemma tick_keeps:
  assumes "plain_state (fo_state fo)"
  shows "fo_last_session_id (snd (tick poll fo)) = fo_last_session_id fo \<and> plain_state (fo_state (snd (tick poll fo)))"
proof -
  have idle: "fo_last_session_id (snd (tick poll fo)) = fo_last_session_id fo \<and> plain_state (fo_state (snd (tick poll fo)))"
    if "fo_state fo = OIdle" for fo
    using that by (cases "fo_current_phase fo < length (fo_pipeline fo)") (simp_all add: tick_simps plain_state_def)
  have handle: "fo_last_session_id (snd (poll_worker poll fo)) = fo_last_session_id fo
      \<and> fo_state (snd (poll_worker poll fo)) = fo_state fo"
    by (auto simp: poll_worker_def split: option.splits poll_result.splits)
  show ?thesis
  proof (cases "fo_state fo")
    case OIdle
    then show ?thesis by (rule idle)
  next
    case Synthesizing
    then show ?thesis using idle [of "fo\<lparr> fo_state := OIdle \<rparr>"] by (simp add: tick_simps plain_state_def)
  next
    case (AwaitingWorker a p)
    then show ?thesis using handle assms by (simp add: tick_simps)
  qed (use assms in \<open>auto simp: tick_simps plain_state_def\<close>)
qed

lemma reached_has_no_session:
  "orchestrator_reached engine fo \<Longrightarrow> fo_last_session_id fo = None \<and> plain_state (fo_state fo)"
proof (induction rule: orchestrator_reached.induct)
  case (reached_tick fo poll)
  then show ?case using tick_keeps by metis
next
  case (reached_recovered fo behavior now work_dir t fo')
  then show ?case
    by (auto simp: recover_orchestrator_def persist_record_def new_orchestrator_def
        split: orchestrator_state.splits)
qed (auto simp: new_orchestrator_def plain_state_def on_worker_completed_def set_worker_handle_def Let_def)

text \<open>
  Every worker is spawned fresh: no orchestrator the program builds, drives or recovers ever has
  a session to continue, so the rules for continuing one - the retry of the same agent, the developer
  after the scoping - never apply; neither do the fan-out and the plan approval.
\<close>

theorem every_spawn_is_fresh:
  assumes "orchestrator_reached engine fo" "tick poll fo = (NeedsSpawn agent phase d, fo')"
  shows "d = SpawnFresh \<and> (\<forall>plan. fo_state fo \<noteq> PlanApproval plan) \<and> (\<forall>w c fs. fo_state fo \<noteq> ResearchFanOut w c fs)"
proof -
  note r = reached_has_no_session [OF assms(1)]
  have idle: "d = SpawnFresh" if "fo_state fo = OIdle" "fo_last_session_id fo = None"
    "tick poll fo = (NeedsSpawn agent phase d, fo')" for fo
    using that by (cases "fo_current_phase fo < length (fo_pipeline fo)") (auto simp: tick_simps session_decision_def)
  have "d = SpawnFresh"
  proof (cases "fo_state fo")
    case OIdle
    then show ?thesis using idle r assms(2) by blast
  next
    case Synthesizing
    then show ?thesis using r assms(2) idle [of "fo\<lparr> fo_state := OIdle \<rparr>"]
      by (simp add: tick_simps split: if_splits)
  next
    case (AwaitingWorker a p)
    then show ?thesis using assms(2)
      by (auto simp: tick_simps poll_worker_def split: option.splits poll_result.splits if_splits)
  qed (use assms(2) r in \<open>auto simp: tick_simps plain_state_def\<close>)
  then show ?thesis using r by (simp add: plain_state_def)
qed

definition small_retry :: feature_orchestrator where
  "small_retry = on_worker_completed False 3 interrupted"

theorem every_spawn_is_fresh_witness:
  "tick (\<lambda>_. PollError) small_retry = (NeedsSpawn ''dev-agent'' 0 SpawnFresh, snd (tick (\<lambda>_. PollError) small_retry))"
proof -
  have "orchestrator_reached (ev_pipeline (sample_env True [])) small_retry"
    unfolding small_retry_def interrupted_def by (intro orchestrator_reached.intros)
  moreover obtain d fo' where t: "tick (\<lambda>_. PollError) small_retry = (NeedsSpawn ''dev-agent'' 0 d, fo')"
    by (simp add: small_retry_def on_worker_completed_def tick.simps interrupted_def new_orchestrator_def
        pipeline_at_def agents_for_def sample_env_def as_u32_def Let_def)
  ultimately have "d = SpawnFresh" using every_spawn_is_fresh by blast
  then show ?thesis using t by simp
qed

end
