(* ===== verification/Dispatch.thy ===== *)
theory Dispatch
  imports Triage Orchestrator
begin

text \<open>
  The dispatch phase of an iteration of the reconciler (\<open>iterate\<close> of \<open>src/reconcile/mod.rs\<close>): the
  loop that takes beads from the queue while there are free slots, and what it does with each, in the
  flat and in the hierarchical mode; and how it composes with triage and with the completion of
  agents.
\<close>

section \<open>Dispatching\<close>

record dispatch_env = hierarchical_env +
  de_dry_run :: bool
  de_hierarchical :: bool
  de_workspace_path :: "string \<Rightarrow> string option"
  de_chain_hash :: "string \<Rightarrow> string option"

definition emit_all :: "effect list \<Rightarrow> hierarchical \<Rightarrow> hierarchical" where
  "emit_all es h = h\<lparr> hr_rec := foldl (\<lambda>s e. emit e s) (hr_rec h) es \<rparr>"

text \<open>The bead that runs has the pipeline's first agent as its owner; the tracker keeps the owner the
  scanned bead had.\<close>

definition dispatch_tracker :: "queue_entry \<Rightarrow> bead \<Rightarrow> string \<Rightarrow> bead_tracker option \<Rightarrow> bead_tracker" where
  "dispatch_tracker e b dispatch_id before =
     (let t = (case before of
          Some t \<Rightarrow> t
        | None \<Rightarrow> \<lparr> tk_repo = q_repo e, tk_scope = b_scope b, tk_last_generation = q_generation e,
            tk_retries = q_retries e, tk_consecutive_reverts = 0, tk_highest_tier = None, tk_current_agent = None,
            tk_phase_index = 0, tk_issue_type = b_issue_type b, tk_dispatch_id = None \<rparr>)
      in t\<lparr> tk_last_generation := q_generation e, tk_repo := q_repo e, tk_scope := b_scope b,
            tk_current_agent := b_owner b, tk_issue_type := b_issue_type b,
            tk_dispatch_id := Some dispatch_id \<rparr>)"

definition flat_dispatch :: "dispatch_env \<Rightarrow> queue_entry \<Rightarrow> bead \<Rightarrow> string \<Rightarrow> hierarchical \<Rightarrow> hierarchical" where
  "flat_dispatch env e b agent h =
     (let i = q_bead_id e; repo = q_repo e; engine = ev_pipeline (he_env env);
          label = (case b_owner b of None \<Rightarrow> ''generic'' | Some o1 \<Rightarrow> o1);
          dispatch_id = make_dispatch_id i (he_started_at env i);
          h1 = emit_all
            ([SpawnAgent i agent, AppendObservation i repo label 0 VDispatched ''agent dispatched'',
              LogEvent repo i ''dispatch_branch'' (''fix/'' @ i)]
             @ (case de_workspace_path env i of None \<Rightarrow> [] | Some w \<Rightarrow> [LogEvent repo i ''workspace_path'' w])
             @ (case de_chain_hash env i of None \<Rightarrow> [] | Some c \<Rightarrow> [LogEvent repo i ''chain_hash'' c])
             @ [PersistStatus i repo Dispatched, RecordDispatch dispatch_id (WorkRef repo [] i) agent]) h;
          h2 = h1\<lparr> hr_active := activate i (hr_active h1),
                   hr_rec := (hr_rec h1)\<lparr> rc_trackers := (rc_trackers (hr_rec h1))
                     (i \<mapsto> dispatch_tracker e b dispatch_id (rc_trackers (hr_rec h1) i)) \<rparr> \<rparr>
      in emit_all [UpsertPipeline (initial_state engine (WorkRef repo (b_scope b) i) (b_issue_type b))] h2)"

definition dispatch_one :: "dispatch_env \<Rightarrow> queue_entry \<Rightarrow> nat \<times> hierarchical \<Rightarrow> nat \<times> hierarchical" where
  "dispatch_one env e nh =
     (let (n, h) = nh
      in if de_dry_run env then (n + 1, h)
         else
           (case (List.find (\<lambda>b. b_id b = q_bead_id e) (he_beads env), he_repos env (q_repo e)) of
              (Some b, Some path) \<Rightarrow>
                (let active_beads = filter (\<lambda>x. List.member (hr_active h) (b_id x)) (he_beads env)
                 in if has_file_overlap b active_beads \<noteq> None then (n, h)
                    else
                      (let agent = default_agent (ev_pipeline (he_env env)) (b_issue_type b);
                           h1 = emit_all (if b_owner b \<noteq> Some agent then [SetAssignee (q_repo e) (b_id b) agent] else []) h
                       in if de_hierarchical env then
                            (n + 1, emit_all [PersistStatus (q_bead_id e) (q_repo e) Dispatched]
                              (create_orchestrator (hierarchical_env.truncate env) (q_bead_id e) (q_repo e) (b_scope b) (b_issue_type b) path h1))
                          else if he_spawn env (q_bead_id e) agent
                          then (n + 1, flat_dispatch env e b agent h1)
                          else (n, h1)))
            | _ \<Rightarrow> (n, h)))"

definition take_next :: "dispatch_env \<Rightarrow> hierarchical \<Rightarrow> (queue_entry \<times> hierarchical) option" where
  "take_next env h =
     (let (r, q) = dequeue (ev_now (he_env env)) (rc_queue (hr_rec h))
      in case r of None \<Rightarrow> None | Some e \<Rightarrow> Some (e, h\<lparr> hr_rec := (hr_rec h)\<lparr> rc_queue := q \<rparr> \<rparr>))"

lemma emit_all_fields [simp]:
  "rc_queue (hr_rec (emit_all es h)) = rc_queue (hr_rec h)"
  "rc_trackers (hr_rec (emit_all es h)) = rc_trackers (hr_rec h)"
  "rc_effects (hr_rec (emit_all es h)) = rc_effects (hr_rec h) @ es"
  "hr_active (emit_all es h) = hr_active h"
  "hr_orchestrators (emit_all es h) = hr_orchestrators h"
proof -
  have "rc_queue (foldl (\<lambda>s e. emit e s) s es) = rc_queue s \<and> rc_trackers (foldl (\<lambda>s e. emit e s) s es) = rc_trackers s
      \<and> rc_effects (foldl (\<lambda>s e. emit e s) s es) = rc_effects s @ es" for s
    by (induction es arbitrary: s) simp_all
  then show "rc_queue (hr_rec (emit_all es h)) = rc_queue (hr_rec h)"
    "rc_trackers (hr_rec (emit_all es h)) = rc_trackers (hr_rec h)"
    "rc_effects (hr_rec (emit_all es h)) = rc_effects (hr_rec h) @ es"
    by (simp_all add: emit_all_def)
qed (simp_all add: emit_all_def)

lemma flat_dispatch_fields:
  "rc_queue (hr_rec (flat_dispatch env e b agent h)) = rc_queue (hr_rec h)"
  "hr_active (flat_dispatch env e b agent h) = activate (q_bead_id e) (hr_active h)"
  "rc_trackers (hr_rec (flat_dispatch env e b agent h)) = (rc_trackers (hr_rec h))(q_bead_id e \<mapsto>
     dispatch_tracker e b (make_dispatch_id (q_bead_id e) (he_started_at env (q_bead_id e)))
       (rc_trackers (hr_rec h) (q_bead_id e)))"
  "hr_orchestrators (flat_dispatch env e b agent h) = hr_orchestrators h"
  by (simp_all add: flat_dispatch_def Let_def)

lemma dispatch_one_queue: "rc_queue (hr_rec (snd (dispatch_one env e nh))) = rc_queue (hr_rec (snd nh))"
  by (cases nh) (simp add: dispatch_one_def Let_def flat_dispatch_fields create_orchestrator_def
      put_orchestrator_def split: option.splits)

lemma take_next_shorter:
  "take_next env h = Some (e, h') \<Longrightarrow> length (wq_heap (rc_queue (hr_rec h'))) < length (wq_heap (rc_queue (hr_rec h)))"
proof -
  let ?q = "rc_queue (hr_rec h)" and ?now = "ev_now (he_env env)"
  assume t: "take_next env h = Some (e, h')"
  then have f: "fst (dequeue ?now ?q) = Some e" "rc_queue (hr_rec h') = snd (dequeue ?now ?q)"
    by (auto simp: take_next_def Let_def split: prod.splits option.splits)
  from dequeue_cases [of ?q ?now] f(1)
  have "mset (wq_heap ?q) = add_mset e (mset (wq_heap (snd (dequeue ?now ?q))))" by auto
  then have "size (mset (wq_heap ?q)) = Suc (size (mset (wq_heap (snd (dequeue ?now ?q)))))" by simp
  then show ?thesis using f(2) by simp
qed

text \<open>Every turn takes an entry off the queue, so the loop ends.\<close>

function dispatch_loop :: "dispatch_env \<Rightarrow> nat \<times> hierarchical \<Rightarrow> nat \<times> hierarchical" where
  "dispatch_loop env nh =
     (if length (hr_active (snd nh)) < he_max_concurrent env
      then (case take_next env (snd nh) of
              None \<Rightarrow> nh
            | Some (e, h) \<Rightarrow> dispatch_loop env (dispatch_one env e (fst nh, h)))
      else nh)"
  by pat_completeness auto

termination
proof (relation "measure (\<lambda>(_, nh). length (wq_heap (rc_queue (hr_rec (snd nh)))))")
  fix env :: dispatch_env and nh :: "nat \<times> hierarchical" and x e h
  assume "take_next env (snd nh) = Some x" "(e, h) = x"
  then show "((env, dispatch_one env e (fst nh, h)), env, nh)
      \<in> measure (\<lambda>(_, nh). length (wq_heap (rc_queue (hr_rec (snd nh)))))"
    using take_next_shorter [of env "snd nh" e h] by (simp add: dispatch_one_queue)
qed simp

declare dispatch_loop.simps [simp del]

section \<open>One turn\<close>

lemma dispatch_one_cases:
  obtains (dry) "de_dry_run env" "dispatch_one env e (n, h) = (n + 1, h)"
  | (skip) "\<not> de_dry_run env" "dispatch_one env e (n, h) = (n, h)"
  | (failed) b :: bead and agent where "\<not> de_dry_run env" "\<not> de_hierarchical env" "agent = default_agent (ev_pipeline (he_env env)) (b_issue_type b)"
      "\<not> he_spawn env (q_bead_id e) agent"
      "dispatch_one env e (n, h) = (n, emit_all (if b_owner b \<noteq> Some agent then [SetAssignee (q_repo e) (b_id b) agent] else []) h)"
  | (flat) b agent where "\<not> de_dry_run env" "\<not> de_hierarchical env"
      "List.find (\<lambda>b. b_id b = q_bead_id e) (he_beads env) = Some b"
      "has_file_overlap b (filter (\<lambda>x. List.member (hr_active h) (b_id x)) (he_beads env)) = None"
      "agent = default_agent (ev_pipeline (he_env env)) (b_issue_type b)" "he_spawn env (q_bead_id e) agent"
      "dispatch_one env e (n, h) = (n + 1, flat_dispatch env e b agent
         (emit_all (if b_owner b \<noteq> Some agent then [SetAssignee (q_repo e) (b_id b) agent] else []) h))"
  | (orchestrated) b path agent where "\<not> de_dry_run env" "de_hierarchical env"
      "List.find (\<lambda>b. b_id b = q_bead_id e) (he_beads env) = Some b"
      "agent = default_agent (ev_pipeline (he_env env)) (b_issue_type b)"
      "dispatch_one env e (n, h) = (n + 1, emit_all [PersistStatus (q_bead_id e) (q_repo e) Dispatched]
         (create_orchestrator (hierarchical_env.truncate env) (q_bead_id e) (q_repo e) (b_scope b) (b_issue_type b) path
           (emit_all (if b_owner b \<noteq> Some agent then [SetAssignee (q_repo e) (b_id b) agent] else []) h)))"
proof -
  let ?b = "List.find (\<lambda>b. b_id b = q_bead_id e) (he_beads env)" and ?p = "he_repos env (q_repo e)"
  show ?thesis
  proof (cases "de_dry_run env")
    case True
    then show ?thesis using dry by (simp add: dispatch_one_def)
  next
    case nd: False
    show ?thesis
    proof (cases "?b = None \<or> ?p = None")
      case True
      then have "dispatch_one env e (n, h) = (n, h)" using nd by (auto simp: dispatch_one_def split: option.splits)
      then show ?thesis using skip nd by blast
    next
      case False
      then obtain b path where b: "?b = Some b" "?p = Some path" by (cases ?b; cases ?p) auto
      let ?o = "has_file_overlap b (filter (\<lambda>x. List.member (hr_active h) (b_id x)) (he_beads env))"
      let ?a = "default_agent (ev_pipeline (he_env env)) (b_issue_type b)"
      let ?h1 = "emit_all (if b_owner b \<noteq> Some ?a then [SetAssignee (q_repo e) (b_id b) ?a] else []) h"
      show ?thesis
      proof (cases ?o)
        case (Some x)
        then have "dispatch_one env e (n, h) = (n, h)" using nd b by (simp add: dispatch_one_def Let_def)
        then show ?thesis using skip nd by blast
      next
        case None
        have split: "dispatch_one env e (n, h) =
          (if de_hierarchical env
           then (n + 1, emit_all [PersistStatus (q_bead_id e) (q_repo e) Dispatched]
             (create_orchestrator (hierarchical_env.truncate env) (q_bead_id e) (q_repo e) (b_scope b) (b_issue_type b) path ?h1))
           else if he_spawn env (q_bead_id e) ?a then (n + 1, flat_dispatch env e b ?a ?h1) else (n, ?h1))"
          using nd b None by (simp add: dispatch_one_def Let_def)
        show ?thesis
        proof (cases "de_hierarchical env")
          case True
          show ?thesis by (rule orchestrated [OF nd True b(1) refl]) (simp only: split True if_True)
        next
          case flat_mode: False
          show ?thesis
          proof (cases "he_spawn env (q_bead_id e) ?a")
            case True
            show ?thesis by (rule flat [OF nd flat_mode b(1) None refl True]) (simp only: split flat_mode True if_True if_False)
          next
            case False
            show ?thesis by (rule failed [OF nd flat_mode refl False]) (simp only: split flat_mode False if_False)
          qed
        qed
      qed
    qed
  qed
qed

section \<open>Slots and files\<close>

text \<open>No two of the scanned beads that run have files in common.\<close>

definition disjoint_work :: "bead list \<Rightarrow> string list \<Rightarrow> bool" where
  "disjoint_work beads active \<longleftrightarrow>
     (\<forall>a \<in> set beads. \<forall>b \<in> set beads. b_id a \<in> set active \<longrightarrow> b_id b \<in> set active \<longrightarrow>
        b_id a \<noteq> b_id b \<longrightarrow> \<not> files_overlap a b)"

lemma dispatch_one_active:
  "hr_active (snd (dispatch_one env e (n, h))) = hr_active h
   \<or> \<not> de_hierarchical env \<and> hr_active (snd (dispatch_one env e (n, h))) = activate (q_bead_id e) (hr_active h)
     \<and> (\<exists>b \<in> set (he_beads env). List.find (\<lambda>b. b_id b = q_bead_id e) (he_beads env) = Some b \<and> b_id b = q_bead_id e
          \<and> has_file_overlap b (filter (\<lambda>x. List.member (hr_active h) (b_id x)) (he_beads env)) = None)"
proof (rule dispatch_one_cases [of env e n h])
  fix b agent
  assume f: "List.find (\<lambda>b. b_id b = q_bead_id e) (he_beads env) = Some b"
    and fl: "\<not> de_hierarchical env"
    and o: "has_file_overlap b (filter (\<lambda>x. List.member (hr_active h) (b_id x)) (he_beads env)) = None"
    and d: "dispatch_one env e (n, h) = (n + 1, flat_dispatch env e b agent
         (emit_all (if b_owner b \<noteq> Some agent then [SetAssignee (q_repo e) (b_id b) agent] else []) h))"
  have "b \<in> set (he_beads env) \<and> b_id b = q_bead_id e" using f by (auto simp: find_Some_iff)
  then show ?thesis using f o fl d by (auto simp: flat_dispatch_fields)
qed (simp_all add: create_orchestrator_def put_orchestrator_def)

lemma dispatch_one_started:
  "hr_active (snd (dispatch_one env e (n, h))) = hr_active h
   \<or> hr_active (snd (dispatch_one env e (n, h))) = activate (q_bead_id e) (hr_active h)
     \<and> q_bead_id e \<in> b_id ` set (he_beads env)"
  using dispatch_one_active [of env e n h] by (metis imageI)

lemma disjoint_work_activate:
  assumes d: "distinct (map b_id beads)" and w: "disjoint_work beads active"
    and b: "b \<in> set beads" "b_id b = i"
    and o: "has_file_overlap b (filter (\<lambda>x. List.member active (b_id x)) beads) = None"
  shows "disjoint_work beads (activate i active)"
proof -
  have new: "\<not> files_overlap b x" if "x \<in> set beads" "b_id x \<in> set active" "b_id x \<noteq> b_id b" for x
    using o that unfolding has_file_overlap_None by simp
  have one: "x = b" if "x \<in> set beads" "b_id x = i" for x
    using d b that by (auto simp: distinct_map dest: inj_onD)
  show ?thesis unfolding disjoint_work_def activate_set
  proof (intro ballI impI)
    fix x y
    assume xy: "x \<in> set beads" "y \<in> set beads" "b_id x \<in> insert i (set active)" "b_id y \<in> insert i (set active)"
      "b_id x \<noteq> b_id y"
    show "\<not> files_overlap x y"
    proof (cases "b_id x = i \<or> b_id y = i")
      case True
      then show ?thesis using one xy new b files_overlap_sym by (metis insertE)
    next
      case False
      then show ?thesis using w xy by (auto simp: disjoint_work_def)
    qed
  qed
qed

lemma activate_length: "length (activate b xs) \<le> length xs + 1"
  by (simp add: activate_def)

lemma dispatch_loop_step:
  "dispatch_loop env (n, h) =
     (if length (hr_active h) < he_max_concurrent env
      then (case take_next env h of None \<Rightarrow> (n, h) | Some (e, h') \<Rightarrow> dispatch_loop env (dispatch_one env e (n, h')))
      else (n, h))"
  by (subst dispatch_loop.simps) (simp only: fst_conv snd_conv)

lemma take_next_active: "take_next env h = Some (e, h') \<Longrightarrow>
    hr_active h' = hr_active h \<and> rc_effects (hr_rec h') = rc_effects (hr_rec h)
    \<and> rc_trackers (hr_rec h') = rc_trackers (hr_rec h) \<and> hr_orchestrators h' = hr_orchestrators h"
  by (auto simp: take_next_def Let_def split: prod.splits option.splits)

lemma take_next_None: "take_next env h = None \<longleftrightarrow> fst (dequeue (ev_now (he_env env)) (rc_queue (hr_rec h))) = None"
  by (auto simp: take_next_def Let_def split: prod.splits option.splits)

text \<open>A property of the state that every turn keeps is kept by the loop.\<close>

lemma dispatch_loop_keeps:
  assumes step: "\<And>n h e h'. P h \<Longrightarrow> length (hr_active h) < he_max_concurrent env \<Longrightarrow> take_next env h = Some (e, h') \<Longrightarrow>
      P (snd (dispatch_one env e (n, h')))"
    and "P (snd nh)"
  shows "P (snd (dispatch_loop env nh))"
  using assms
proof (induction env nh rule: dispatch_loop.induct)
  case (1 env nh)
  obtain n h where nh: "nh = (n, h)" by force
  show ?case
  proof (cases "length (hr_active h) < he_max_concurrent env \<and> take_next env h \<noteq> None")
    case False
    then show ?thesis using 1 nh by (auto simp: dispatch_loop_step split: option.splits)
  next
    case True
    then obtain e h' where e: "take_next env h = Some (e, h')" by auto
    have "P (snd (dispatch_one env e (n, h')))" using 1(2,3) e True nh by auto
    then show ?thesis
      using 1(1) [of "(e, h')" e h'] 1(2) e True by (simp add: nh dispatch_loop_step)
  qed
qed

lemma dispatch_loop_exit:
  "length (hr_active (snd (dispatch_loop env nh))) < he_max_concurrent env \<Longrightarrow>
   take_next env (snd (dispatch_loop env nh)) = None"
proof (induction env nh rule: dispatch_loop.induct)
  case (1 env nh)
  obtain n h where nh: "nh = (n, h)" by force
  show ?case using 1 by (auto simp: nh dispatch_loop_step split: if_splits option.splits)
qed

lemma dispatch_loop_active:
  "length (hr_active (snd (dispatch_loop env (n, h)))) \<le> max (length (hr_active h)) (he_max_concurrent env)"
  (is "?len (snd _) \<le> ?m")
proof (rule dispatch_loop_keeps [where P = "\<lambda>x. length (hr_active x) \<le> ?m"])
  fix n x e x'
  assume "length (hr_active x) < he_max_concurrent env" "take_next env x = Some (e, x')"
  then have "length (hr_active x') < he_max_concurrent env" using take_next_active by metis
  then show "length (hr_active (snd (dispatch_one env e (n, x')))) \<le> ?m"
    using dispatch_one_active [of env e n x'] activate_length [of "q_bead_id e" "hr_active x'"] by auto
qed simp

lemma dispatch_loop_grows:
  "set (hr_active h) \<subseteq> set (hr_active (snd (dispatch_loop env (n, h))))
   \<and> set (hr_active (snd (dispatch_loop env (n, h)))) \<subseteq> set (hr_active h) \<union> b_id ` set (he_beads env)"
proof (rule dispatch_loop_keeps [where P = "\<lambda>x. set (hr_active h) \<subseteq> set (hr_active x)
    \<and> set (hr_active x) \<subseteq> set (hr_active h) \<union> b_id ` set (he_beads env)"])
  fix n x e x'
  assume i: "set (hr_active h) \<subseteq> set (hr_active x) \<and> set (hr_active x) \<subseteq> set (hr_active h) \<union> b_id ` set (he_beads env)"
    and t: "take_next env x = Some (e, x')"
  have "hr_active x' = hr_active x" using take_next_active [OF t] by simp
  then show "set (hr_active h) \<subseteq> set (hr_active (snd (dispatch_one env e (n, x'))))
      \<and> set (hr_active (snd (dispatch_one env e (n, x')))) \<subseteq> set (hr_active h) \<union> b_id ` set (he_beads env)"
    using i dispatch_one_started [of env e n x'] by auto
qed simp

lemma dispatch_loop_disjoint:
  assumes d: "distinct (map b_id (he_beads env))" and w: "disjoint_work (he_beads env) (hr_active h)"
  shows "disjoint_work (he_beads env) (hr_active (snd (dispatch_loop env (n, h))))"
proof (rule dispatch_loop_keeps [where P = "\<lambda>x. disjoint_work (he_beads env) (hr_active x)"])
  fix n x e x'
  assume i: "disjoint_work (he_beads env) (hr_active x)" and t: "take_next env x = Some (e, x')"
  have "disjoint_work (he_beads env) (hr_active x')" using i take_next_active [OF t] by simp
  then show "disjoint_work (he_beads env) (hr_active (snd (dispatch_one env e (n, x'))))"
    using dispatch_one_active [of env e n x'] disjoint_work_activate [OF d] by auto
qed (simp add: w)

lemma dispatch_loop_orchestrated:
  assumes "de_hierarchical env"
  shows "hr_active (snd (dispatch_loop env (n, h))) = hr_active h"
proof (rule dispatch_loop_keeps [where P = "\<lambda>x. hr_active x = hr_active h"])
  fix n x e x'
  assume "hr_active x = hr_active h" "take_next env x = Some (e, x')"
  then have "hr_active x' = hr_active h" using take_next_active by metis
  then show "hr_active (snd (dispatch_one env e (n, x'))) = hr_active h"
    using dispatch_one_active [of env e n x'] assms by auto
qed simp

text \<open>
  C5. The dispatch loop ends; it never has more agents running than slots (or than ran before), stops
  no agent, starts only scanned beads, keeps the running beads free of common files when identifiers
  are unique, and leaves a slot free only when no entry of the queue is eligible. In the hierarchical
  mode, where a dispatched bead gets an orchestrator and no agent, the slots do not bound it: a single
  free slot empties the queue of every eligible entry.
\<close>

theorem dispatch_respects_slots_and_files:
  "length (hr_active (snd (dispatch_loop env (n, h)))) \<le> max (length (hr_active h)) (he_max_concurrent env)
   \<and> set (hr_active h) \<subseteq> set (hr_active (snd (dispatch_loop env (n, h))))
   \<and> set (hr_active (snd (dispatch_loop env (n, h)))) \<subseteq> set (hr_active h) \<union> b_id ` set (he_beads env)
   \<and> (distinct (map b_id (he_beads env)) \<longrightarrow> disjoint_work (he_beads env) (hr_active h)
        \<longrightarrow> disjoint_work (he_beads env) (hr_active (snd (dispatch_loop env (n, h)))))
   \<and> (length (hr_active (snd (dispatch_loop env (n, h)))) < he_max_concurrent env
        \<longrightarrow> fst (dequeue (ev_now (he_env env)) (rc_queue (hr_rec (snd (dispatch_loop env (n, h)))))) = None)
   \<and> (de_hierarchical env \<longrightarrow> length (hr_active h) < he_max_concurrent env
        \<longrightarrow> fst (dequeue (ev_now (he_env env)) (rc_queue (hr_rec (snd (dispatch_loop env (n, h)))))) = None)"
proof (intro conjI impI)
  show "length (hr_active (snd (dispatch_loop env (n, h)))) \<le> max (length (hr_active h)) (he_max_concurrent env)"
    by (rule dispatch_loop_active)
  show "fst (dequeue (ev_now (he_env env)) (rc_queue (hr_rec (snd (dispatch_loop env (n, h)))))) = None"
    if "length (hr_active (snd (dispatch_loop env (n, h)))) < he_max_concurrent env"
    using dispatch_loop_exit [OF that] by (simp add: take_next_None)
  then show "fst (dequeue (ev_now (he_env env)) (rc_queue (hr_rec (snd (dispatch_loop env (n, h)))))) = None"
    if "de_hierarchical env" "length (hr_active h) < he_max_concurrent env"
    using that by (simp add: dispatch_loop_orchestrated)
qed (use dispatch_loop_grows [of h env n] dispatch_loop_disjoint [of env h n] in simp_all)

definition phase_two_bead :: bead where
  "phase_two_bead = sample_bead\<lparr> b_issue_type := ''task'', b_owner := Some ''staging-agent'' \<rparr>"

definition one_entry :: queue_entry where
  "one_entry = \<lparr> q_bead_id = ''rsry-1'', q_repo = ''app'', q_score = 1, q_enqueued_at = 0, q_retries = 0,
     q_generation = 7 \<rparr>"

definition small_dispatch :: dispatch_env where
  "small_dispatch = hierarchical_env.extend
     (crowded_env\<lparr> he_beads := [phase_two_bead], he_repos := [''app'' \<mapsto> ''/app''] \<rparr>)
     \<lparr> de_dry_run = False, de_hierarchical = False, de_workspace_path = (\<lambda>_. None), de_chain_hash = (\<lambda>_. None) \<rparr>"

definition one_queued :: hierarchical where
  "one_queued = \<lparr> hr_rec = idle_reconciler\<lparr> rc_queue := snd (enqueue one_entry (with_backoff_base 1)) \<rparr>,
     hr_orchestrators = (\<lambda>_. None), hr_active = [] \<rparr>"

lemma small_dispatch_fields:
  "he_beads small_dispatch = [phase_two_bead]" "he_repos small_dispatch = [''app'' \<mapsto> ''/app'']"
  "he_max_concurrent small_dispatch = 1" "de_dry_run small_dispatch = False"
  "de_hierarchical small_dispatch = False" "he_env small_dispatch = sample_env True []"
  "he_spawn small_dispatch = (\<lambda>_ _. True)" "de_workspace_path small_dispatch = (\<lambda>_. None)"
  "de_chain_hash small_dispatch = (\<lambda>_. None)"
  by (simp_all add: small_dispatch_def crowded_env_def hierarchical_env.defs)

theorem dispatch_respects_slots_and_files_witness:
  "disjoint_work [phase_two_bead] (hr_active (snd (dispatch_loop small_dispatch (0, one_queued))))"
  using dispatch_respects_slots_and_files [THEN conjunct2, THEN conjunct2, THEN conjunct2, THEN conjunct1, THEN mp, THEN mp,
      of small_dispatch one_queued 0]
  by (simp add: small_dispatch_fields one_queued_def disjoint_work_def)

section \<open>Which agent runs\<close>

text \<open>What the loop added to the effects, and to the trackers of the beads it started.\<close>

definition started_first :: "dispatch_env \<Rightarrow> hierarchical \<Rightarrow> string \<Rightarrow> string \<Rightarrow> bool" where
  "started_first env h i a \<longleftrightarrow>
     (\<exists>b t. List.find (\<lambda>b. b_id b = i) (he_beads env) = Some b
        \<and> a = default_agent (ev_pipeline (he_env env)) (b_issue_type b)
        \<and> rc_trackers (hr_rec h) i = Some t \<and> tk_current_agent t = b_owner b \<and> tk_issue_type t = b_issue_type b)"

definition first_agents :: "dispatch_env \<Rightarrow> hierarchical \<Rightarrow> effect list \<Rightarrow> bool" where
  "first_agents env h es \<longleftrightarrow> (\<forall>i a. SpawnAgent i a \<in> set es \<longrightarrow> started_first env h i a)
     \<and> (\<forall>ps. UpsertPipeline ps \<in> set es \<longrightarrow> ps_pipeline_phase ps = 0)"

lemma started_first_cong:
  "rc_trackers (hr_rec h') = rc_trackers (hr_rec h) \<Longrightarrow> started_first env h' i a = started_first env h i a"
  by (simp add: started_first_def)

lemma started_first_flat:
  assumes f: "List.find (\<lambda>b. b_id b = q_bead_id e) (he_beads env) = Some b"
    and a: "agent = default_agent (ev_pipeline (he_env env)) (b_issue_type b)"
  shows "started_first env (flat_dispatch env e b agent h) (q_bead_id e) agent"
    and "started_first env h i x \<Longrightarrow> started_first env (flat_dispatch env e b agent h) i x"
proof -
  have tr: "tk_current_agent (dispatch_tracker e b d t) = b_owner b" "tk_issue_type (dispatch_tracker e b d t) = b_issue_type b"
    for d t by (simp_all add: dispatch_tracker_def Let_def)
  show one: "started_first env (flat_dispatch env e b agent h) (q_bead_id e) agent"
    using f a by (simp add: started_first_def flat_dispatch_fields tr)
  show "started_first env (flat_dispatch env e b agent h) i x" if i: "started_first env h i x"
  proof (cases "i = q_bead_id e")
    case True
    then have "x = agent" using i f a by (auto simp: started_first_def)
    then show ?thesis using one True by simp
  next
    case False
    then show ?thesis using i by (simp add: started_first_def flat_dispatch_fields)
  qed
qed

lemma flat_dispatch_effects:
  "\<exists>es. rc_effects (hr_rec (flat_dispatch env e b agent h)) = rc_effects (hr_rec h) @ es
      \<and> (\<forall>i a. SpawnAgent i a \<in> set es \<longrightarrow> i = q_bead_id e \<and> a = agent)
      \<and> SpawnAgent (q_bead_id e) agent \<in> set es
      \<and> (\<forall>ps. UpsertPipeline ps \<in> set es \<longrightarrow> ps_pipeline_phase ps = 0)"
  by (auto simp: flat_dispatch_def Let_def initial_state_def split: option.splits)

lemma first_agents_emit:
  assumes "first_agents env h es" "rc_trackers (hr_rec h') = rc_trackers (hr_rec h)"
    and "\<forall>i a. SpawnAgent i a \<notin> set es'" "\<forall>ps. UpsertPipeline ps \<notin> set es'"
  shows "first_agents env h' (es @ es')"
  using assms started_first_cong [of h' h env] by (auto simp: first_agents_def)

lemma assign_is_quiet:
  "SpawnAgent i a \<notin> set (if c then [SetAssignee r x y] else [])"
  "UpsertPipeline ps \<notin> set (if c then [SetAssignee r x y] else [])"
  by simp_all

lemma dispatch_one_first_agents:
  assumes "first_agents env h es"
  shows "\<exists>es'. rc_effects (hr_rec (snd (dispatch_one env e (n, h)))) = rc_effects (hr_rec h) @ es'
    \<and> first_agents env (snd (dispatch_one env e (n, h))) (es @ es')"
proof (rule dispatch_one_cases [of env e n h])
  fix b agent
  assume f: "List.find (\<lambda>b. b_id b = q_bead_id e) (he_beads env) = Some b"
    and a: "agent = default_agent (ev_pipeline (he_env env)) (b_issue_type b)"
    and d: "dispatch_one env e (n, h) = (n + 1, flat_dispatch env e b agent
         (emit_all (if b_owner b \<noteq> Some agent then [SetAssignee (q_repo e) (b_id b) agent] else []) h))"
  let ?as = "if b_owner b \<noteq> Some agent then [SetAssignee (q_repo e) (b_id b) agent] else []"
  let ?h1 = "emit_all ?as h"
  obtain es' where es': "rc_effects (hr_rec (flat_dispatch env e b agent ?h1)) = rc_effects (hr_rec ?h1) @ es'"
    "\<forall>i a. SpawnAgent i a \<in> set es' \<longrightarrow> i = q_bead_id e \<and> a = agent"
    "\<forall>ps. UpsertPipeline ps \<in> set es' \<longrightarrow> ps_pipeline_phase ps = 0"
    using flat_dispatch_effects [of env e b agent ?h1] by blast
  have "first_agents env ?h1 (es @ ?as)"
    using first_agents_emit [OF assms, of ?h1 ?as] by (simp add: assign_is_quiet del: set_simps)
  then have "first_agents env (flat_dispatch env e b agent ?h1) ((es @ ?as) @ es')"
    using es'(2,3) started_first_flat [OF f a] unfolding first_agents_def set_append by (metis Un_iff)
  then show ?thesis unfolding d using es'(1) by (intro exI [of _ "?as @ es'"]) simp
next
  fix b :: bead and agent
  assume d: "dispatch_one env e (n, h) = (n, emit_all (if b_owner b \<noteq> Some agent then [SetAssignee (q_repo e) (b_id b) agent] else []) h)"
  show ?thesis unfolding d
    using first_agents_emit [OF assms, of "emit_all (if b_owner b \<noteq> Some agent then [SetAssignee (q_repo e) (b_id b) agent] else []) h"
        "if b_owner b \<noteq> Some agent then [SetAssignee (q_repo e) (b_id b) agent] else []"] by (auto split: if_splits)
next
  fix b path agent
  let ?as = "if b_owner b \<noteq> Some agent then [SetAssignee (q_repo e) (b_id b) agent] else []"
  assume d: "dispatch_one env e (n, h) = (n + 1, emit_all [PersistStatus (q_bead_id e) (q_repo e) Dispatched]
      (create_orchestrator (hierarchical_env.truncate env) (q_bead_id e) (q_repo e) (b_scope b) (b_issue_type b) path
        (emit_all ?as h)))"
  show ?thesis unfolding d
    using first_agents_emit [OF assms, of _ "?as @ [PersistStatus (q_bead_id e) (q_repo e) Dispatched]"]
    by (intro exI [of _ "?as @ [PersistStatus (q_bead_id e) (q_repo e) Dispatched]"])
       (simp add: create_orchestrator_def put_orchestrator_def)
qed (use assms in \<open>auto intro: exI [of _ "[]"]\<close>)

lemma dispatch_loop_first_agents:
  "\<exists>es. rc_effects (hr_rec (snd (dispatch_loop env (n, h)))) = rc_effects (hr_rec h) @ es
     \<and> first_agents env (snd (dispatch_loop env (n, h))) es"
proof (rule dispatch_loop_keeps [where P = "\<lambda>x. \<exists>es. rc_effects (hr_rec x) = rc_effects (hr_rec h) @ es \<and> first_agents env x es"])
  fix n x e x'
  assume "\<exists>es. rc_effects (hr_rec x) = rc_effects (hr_rec h) @ es \<and> first_agents env x es"
    and t: "take_next env x = Some (e, x')"
  then obtain es where "rc_effects (hr_rec x') = rc_effects (hr_rec h) @ es" "first_agents env x' es"
    using take_next_active [OF t] first_agents_emit [of env x _ x' "[]"] by auto
  then show "\<exists>es. rc_effects (hr_rec (snd (dispatch_one env e (n, x')))) = rc_effects (hr_rec h) @ es
      \<and> first_agents env (snd (dispatch_one env e (n, x'))) es"
    using dispatch_one_first_agents [of env x' es e n] by auto
qed (auto simp: first_agents_def)

text \<open>
  Whatever phase a bead has reached, the dispatch loop starts the first agent of its pipeline and
  writes the pipeline state of phase 0, while the tracker, from which the completion is decided, has
  the owner of the scanned bead as its agent. So a bead that advanced to the last agent is worked on
  by the first one again, and its success is the success of the pipeline: so it is when the scanned
  bead had no owner.
\<close>

theorem dispatch_starts_the_first_agent:
  "\<exists>es. rc_effects (hr_rec (snd (dispatch_loop env (n, h)))) = rc_effects (hr_rec h) @ es
   \<and> (\<forall>ps. UpsertPipeline ps \<in> set es \<longrightarrow> ps_pipeline_phase ps = 0)
   \<and> (\<forall>i a. SpawnAgent i a \<in> set es \<longrightarrow>
        (\<exists>b t. List.find (\<lambda>b. b_id b = i) (he_beads env) = Some b
           \<and> a = default_agent (ev_pipeline (he_env env)) (b_issue_type b)
           \<and> rc_trackers (hr_rec (snd (dispatch_loop env (n, h)))) i = Some t \<and> tk_current_agent t = b_owner b
           \<and> (\<forall>vp r m rev. (\<forall>o1. b_owner b = Some o1 \<longrightarrow> next_agent (ev_pipeline (he_env env)) (b_issue_type b) o1 = None)
                \<longrightarrow> vp \<noteq> Some False
                \<longrightarrow> decide (ev_pipeline (he_env env)) (tk_issue_type t) (tk_current_agent t) True vp r m rev = Terminal)))"
proof -
  have terminal: "decide e ty ag True vp r m rev = Terminal"
    if "\<forall>o1. ag = Some o1 \<longrightarrow> next_agent e ty o1 = None" "vp \<noteq> Some False" for e ty ag vp r m rev
    using that by (cases ag) (auto simp: decide_def)
  obtain es where "rc_effects (hr_rec (snd (dispatch_loop env (n, h)))) = rc_effects (hr_rec h) @ es"
    "first_agents env (snd (dispatch_loop env (n, h))) es"
    using dispatch_loop_first_agents [of env n h] by blast
  then show ?thesis using terminal unfolding first_agents_def started_first_def
    by (intro exI [of _ es] conjI allI impI) (simp, simp, metis)
qed

lemma small_dispatch_run:
  "SpawnAgent ''rsry-1'' ''dev-agent'' \<in> set (rc_effects (hr_rec (snd (dispatch_loop small_dispatch (0, one_queued)))))"
proof -
  let ?q = "rc_queue (hr_rec one_queued)"
  have "fst (dequeue 0 ?q) = Some one_entry"
    by (simp add: one_queued_def enqueue_def with_backoff_base_def heap_push_def dequeue_def held_back_def
        drain.simps heap_pop_def)
  then obtain h' where t: "take_next small_dispatch one_queued = Some (one_entry, h')"
    by (cases "dequeue 0 ?q") (simp add: take_next_def small_dispatch_fields sample_env_def Let_def)
  have h': "hr_active h' = []" using take_next_active [OF t] by (simp add: one_queued_def)
  have b: "List.find (\<lambda>b. b_id b = q_bead_id one_entry) (he_beads small_dispatch) = Some phase_two_bead"
    "default_agent (ev_pipeline (he_env small_dispatch)) (b_issue_type phase_two_bead) = ''dev-agent''"
    by (simp_all add: small_dispatch_fields one_entry_def phase_two_bead_def sample_bead_def sample_env_def
        default_agent_def agents_for_def)
  let ?h1 = "emit_all [SetAssignee (q_repo one_entry) (b_id phase_two_bead) ''dev-agent''] h'"
  let ?r = "flat_dispatch small_dispatch one_entry phase_two_bead ''dev-agent'' ?h1"
  have "dispatch_one small_dispatch one_entry (0, h') = (1, ?r)"
    using b h' by (simp add: dispatch_one_def small_dispatch_fields one_entry_def phase_two_bead_def
        has_file_overlap_def Let_def)
  moreover have "length (hr_active ?r) = 1" by (simp add: flat_dispatch_fields h' activate_def)
  ultimately have "snd (dispatch_loop small_dispatch (0, one_queued)) = ?r"
    using t dispatch_loop_step [of small_dispatch 0 one_queued] dispatch_loop_step [of small_dispatch 1 ?r]
    by (simp add: small_dispatch_fields one_queued_def)
  moreover have "SpawnAgent (q_bead_id one_entry) ''dev-agent'' \<in> set (rc_effects (hr_rec ?r))"
    using flat_dispatch_effects [of small_dispatch one_entry phase_two_bead "''dev-agent''" ?h1]
    by (metis Un_iff set_append)
  moreover have "q_bead_id one_entry = ''rsry-1''" by (simp add: one_entry_def)
  ultimately show ?thesis by metis
qed

theorem dispatch_starts_the_first_agent_witness:
  "\<exists>t. rc_trackers (hr_rec (snd (dispatch_loop small_dispatch (0, one_queued)))) ''rsry-1'' = Some t
     \<and> tk_current_agent t = Some ''staging-agent''
     \<and> decide (ev_pipeline (sample_env True [])) (tk_issue_type t) (tk_current_agent t) True (Some True) 0 2 0 = Terminal"
proof -
  have "List.find (\<lambda>b. b_id b = ''rsry-1'') [phase_two_bead] = Some phase_two_bead"
    "b_owner phase_two_bead = Some ''staging-agent''" "b_issue_type phase_two_bead = ''task''"
    "next_agent (ev_pipeline (sample_env True [])) ''task'' ''staging-agent'' = None"
    by (simp_all add: phase_two_bead_def sample_bead_def sample_env_def next_agent_def agents_for_def)
  moreover have "rc_effects (hr_rec one_queued) = []" by (simp add: one_queued_def idle_reconciler_def)
  ultimately show ?thesis
    using dispatch_starts_the_first_agent [of small_dispatch 0 one_queued] small_dispatch_run
    unfolding small_dispatch_fields by fastforce
qed

section \<open>Between two phases\<close>

lemma verify_one_same_advances:
  assumes "rc_orchestrators s b \<noteq> None \<or> ev_agent_closed env b (repo_of_bead beads b s)"
  shows "vr_phase_advances (fst (verify_one env beads (b, ex) (c, s))) = vr_phase_advances c"
  using assms by (auto simp: verify_one_def Let_def split: prod.splits)

lemma tally_advances:
  "vr_phase_advances (tally b repo r c) \<noteq> a \<Longrightarrow> vr_phase_advances c = a \<Longrightarrow> \<exists>nx. r = Advanced nx"
  by (auto simp: tally_def split: action_outcome.splits)

text \<open>A phase advance leaves the generation and the retries of the tracker, and the heap, alone.\<close>

lemma advance_keeps_tracker:
  assumes "rc_trackers s b = Some t"
  shows "\<exists>t'. rc_trackers (write_handoff_and_advance env b repo nx s) b = Some t'
      \<and> tk_last_generation t' = tk_last_generation t \<and> tk_retries t' = tk_retries t"
    and "rc_queue (write_handoff_and_advance env b repo nx s) = rc_queue s"
  using assms by (auto simp: write_handoff_and_advance_def advance_tracker_def Let_def split: prod.splits)

lemma execute_advance:
  assumes "execute_action env b repo a cl su s = (Advanced nx, s')" "rc_trackers s b = Some t"
  shows "\<exists>t'. rc_trackers s' b = Some t' \<and> tk_last_generation t' = tk_last_generation t \<and> tk_retries t' = tk_retries t
      \<and> wq_heap (rc_queue s') = wq_heap (rc_queue s)"
proof -
  obtain agent phase where ap: "tracker_agent_phase s b ''unknown'' = (agent, phase)" by force
  let ?s2 = "emit (AppendObservation b repo agent phase VPass ''phase passed'') (emit (CheckpointWorkspace b) (on_pass b s))"
  have s': "s' = write_handoff_and_advance env b repo nx ?s2"
    using assms(1) ap by (cases a) (simp_all add: execute_action_def Let_def)
  have "rc_trackers ?s2 b = Some (t\<lparr> tk_consecutive_reverts := 0 \<rparr>)" using assms(2) by (simp add: rc_simps)
  moreover have "wq_heap (rc_queue ?s2) = wq_heap (rc_queue s)" by (simp add: on_pass_def clear_backoff_def Let_def)
  ultimately show ?thesis
    using advance_keeps_tracker [of ?s2 b "t\<lparr> tk_consecutive_reverts := 0 \<rparr>" env repo nx] s' by auto
qed

lemma verify_one_advance:
  assumes r: "(c', s') = verify_one env beads (b, ex) (c, s)" "vr_phase_advances c' \<noteq> vr_phase_advances c"
    and t: "rc_trackers s b = Some t"
  shows "\<exists>t'. rc_trackers s' b = Some t' \<and> tk_last_generation t' = tk_last_generation t \<and> tk_retries t' = tk_retries t
      \<and> wq_heap (rc_queue s') = wq_heap (rc_queue s)"
proof -
  obtain cl ok w where cl: "classify_completion env b ex s = (cl, ok, w)" using prod_cases3 by blast
  let ?repo = "repo_of_bead beads b s" and ?s1 = "if ok then signal_verifying b (repo_of_bead beads b s) s else s"
  have o: "rc_orchestrators s b = None" and n: "\<not> ev_agent_closed env b ?repo"
    using verify_one_same_advances [of s b env beads ex c] r by (metis fst_conv)+
  obtain a su s2 where v: "verify_and_decide env b ok beads ?s1 = ((a, su), s2)" by (metis prod.exhaust)
  obtain r' s3 where e: "execute_action env b ?repo (feedback_gate env b ?repo a s2) cl su s2 = (r', s3)" by force
  note flat = verify_one_flat [OF cl o refl n v e, of c]
  have "vr_phase_advances (tally b ?repo r' (if ok
            then c\<lparr> vr_status_updates := vr_status_updates c @ [(b, ?repo, ''verifying'')] \<rparr> else c)) \<noteq> vr_phase_advances c"
    using flat(2) r by (metis fst_conv)
  then obtain nx where nx: "r' = Advanced nx"
    by (rule tally_advances [THEN exE]) (simp_all split: if_splits)
  have s': "s' = complete_dispatch_of b cl (Advanced nx) s3"
    using flat(1) r(1) nx by (simp add: defer_retry_def prod_eq_iff)
  have "rc_trackers s2 b = Some t" "rc_queue s2 = rc_queue s" using vad_fields [OF v] t by simp_all
  then show ?thesis using execute_advance [of env b ?repo _ cl su s2 nx s3 t] e nx s'
    by (auto simp: complete_dispatch_of_def split: option.splits)
qed

lemma triage_passes_over:
  assumes "rc_trackers s b = Some t" "tk_retries t = 0"
    and g: "\<forall>x \<in> set beads. b_id x = b \<longrightarrow> generation (te_sha256 env) x = tk_last_generation t"
    and q: "\<forall>e \<in> set (wq_heap (rc_queue s)). q_bead_id e \<noteq> b"
  shows "rc_trackers (snd (triage env beads s)) = rc_trackers s"
    and "\<forall>e \<in> set (wq_heap (rc_queue (snd (triage env beads s)))). q_bead_id e \<noteq> b"
proof -
  obtain chosen where c: "triage_inv env beads s chosen (triage env beads s)" by (rule triage_chosen)
  then show "rc_trackers (snd (triage env beads s)) = rc_trackers s" by (auto simp: triage_inv_def split: prod.splits)
  have heap: "wq_heap (rc_queue (snd (triage env beads s))) = wq_heap (rc_queue s) @ map (queued_entry env s) chosen"
    and sub: "set chosen \<subseteq> set beads" and lt: "\<forall>x \<in> set chosen. let_through env beads s x"
    using c by (auto simp: triage_inv_def split: prod.splits)
  have "\<forall>x \<in> set chosen. b_id x \<noteq> b"
  proof (intro ballI notI)
    fix x
    assume x: "x \<in> set chosen" and "b_id x = b"
    moreover from lt x obtain s' where "rc_trackers s' = rc_trackers s" "\<not> already_processed env s' x"
      by (auto simp: let_through_def worth_queueing_def)
    ultimately show False using assms(1,2) g sub x by (auto simp: already_processed_def)
  qed
  then show "\<forall>e \<in> set (wq_heap (rc_queue (snd (triage env beads s)))). q_bead_id e \<noteq> b"
    using q by (auto simp: heap queued_entry_def Let_def)
qed

text \<open>
  A bead whose phase passed and whose pipeline advanced is not queued for its next phase: as its
  content, so its generation, is what it was when it was dispatched and no retry is recorded, every
  later triage takes it for already processed, whatever is scanned. In a long-running reconciler a
  pipeline of several agents stops after the first.
\<close>

theorem advanced_bead_is_not_queued_again:
  assumes t: "rc_trackers s b = Some t" "tk_retries t = 0"
    and r: "(c', s') = verify_one env beads (b, ex) (c, s)" "vr_phase_advances c' \<noteq> vr_phase_advances c"
    and q: "\<forall>e \<in> set (wq_heap (rc_queue s)). q_bead_id e \<noteq> b"
    and g: "\<forall>(te, scan) \<in> set rounds. \<forall>x \<in> set scan. b_id x = b \<longrightarrow> generation (te_sha256 te) x = tk_last_generation t"
  shows "\<forall>e \<in> set (wq_heap (rc_queue (foldl (\<lambda>s (te, scan). snd (triage te scan s)) s' rounds))). q_bead_id e \<noteq> b"
proof -
  obtain t' where t': "rc_trackers s' b = Some t'" "tk_last_generation t' = tk_last_generation t" "tk_retries t' = 0"
    and q': "\<forall>e \<in> set (wq_heap (rc_queue s')). q_bead_id e \<noteq> b"
    using verify_one_advance [OF r t(1)] t(2) q by auto
  from t'(1) q' g show ?thesis
  proof (induction rounds arbitrary: s')
    case (Cons x rounds)
    obtain te scan where x: "x = (te, scan)" by force
    have g1: "\<forall>y \<in> set scan. b_id y = b \<longrightarrow> generation (te_sha256 te) y = tk_last_generation t'"
      using Cons.prems(3) t'(2) x by auto
    show ?case
      using Cons.IH [of "snd (triage te scan s')"] Cons.prems
        triage_passes_over [OF Cons.prems(1) t'(3) g1 Cons.prems(2)] by (simp add: x)
  qed simp
qed

lemma sample_advance:
  "vr_phase_advances (fst (verify_one (sample_env True [(''commit'', Inr VrPass)]) [] (''b'', True)
     (no_counts, sample_reconciler (sample_tracker ''dev-agent'' 0)))) = [(''b'', ''r'', ''staging-agent'')]"
proof -
  let ?env = "sample_env True [(''commit'', Inr VrPass)]" and ?s = "sample_reconciler (sample_tracker ''dev-agent'' 0)"
  have cl: "classify_completion ?env ''b'' True ?s = (FOk, True, None)"
    by (simp add: classify_completion_def sample_env_def sample_reconciler_def
        is_session_limit_notice_def session_limit_notices_def trim_start_def to_lowercase_def starts_with_def)
  have repo: "repo_of_bead [] ''b'' ?s = ''r''"
    by (simp add: repo_of_bead_def sample_reconciler_def sample_tracker_def)
  obtain su s2 where v: "verify_and_decide ?env ''b'' True [] (signal_verifying ''b'' ''r'' ?s)
      = ((Advance ''staging-agent'' 1, su), s2)"
    by (simp add: verify_and_decide_def decide_inputs_def verify_outcome_def verify_agent_def
        sample_env_def sample_reconciler_def sample_tracker_def READ_ONLY_AGENTS_def
        verifier_run_def is_pass_def summary_passed_def decide_def next_agent_def agents_for_def)
  have o: "rc_orchestrators ?s ''b'' = None" "\<not> ev_agent_closed ?env ''b'' ''r''"
    by (simp_all add: sample_reconciler_def sample_env_def)
  have gate: "feedback_gate ?env ''b'' ''r'' (Advance ''staging-agent'' 1) s2 = Advance ''staging-agent'' 1"
    by (simp add: feedback_gate_def sample_env_def split: option.splits)
  show ?thesis
    using cl repo v gate o by (simp add: verify_one_def Let_def execute_action_def tally_def no_counts_def split: prod.splits)
qed

theorem advanced_bead_is_not_queued_again_witness:
  "''b'' \<notin> q_bead_id ` set (wq_heap (rc_queue (snd (triage (small_triage\<lparr> te_sha256 := (\<lambda>_. 0) \<rparr>) [sample_bead\<lparr> b_id := ''b'' \<rparr>]
     (snd (verify_one (sample_env True [(''commit'', Inr VrPass)]) [] (''b'', True)
       (no_counts, sample_reconciler (sample_tracker ''dev-agent'' 0))))))))"
proof -
  let ?env = "sample_env True [(''commit'', Inr VrPass)]" and ?s = "sample_reconciler (sample_tracker ''dev-agent'' 0)"
  have t: "rc_trackers ?s ''b'' = Some (sample_tracker ''dev-agent'' 0)" "tk_retries (sample_tracker ''dev-agent'' 0) = 0"
    "tk_last_generation (sample_tracker ''dev-agent'' 0) = 0" "wq_heap (rc_queue ?s) = []"
    by (simp_all add: sample_reconciler_def sample_tracker_def with_backoff_base_def)
  obtain c' s' where r: "(c', s') = verify_one ?env [] (''b'', True) (no_counts, ?s)" by (metis prod.exhaust)
  have "vr_phase_advances c' \<noteq> vr_phase_advances no_counts"
    using sample_advance arg_cong [OF r, of fst] by (simp add: no_counts_def)
  from advanced_bead_is_not_queued_again [OF t(1,2) r this, of "[(small_triage\<lparr> te_sha256 := (\<lambda>_. 0) \<rparr>, [sample_bead\<lparr> b_id := ''b'' \<rparr>])]"]
  show ?thesis using t arg_cong [OF r, of snd] by (auto simp: generation_def)
qed

end
