(* ===== verification/Wait_Verify.thy ===== *)
theory Wait_Verify
  imports Dispatch
begin

text \<open>
  The wait of a run with \<open>--once\<close> (\<open>wait_and_verify\<close> of \<open>src/reconcile/verify.rs\<close>) and the polling of
  the running agents (\<open>check_completed\<close> of \<open>src/reconcile/completion.rs\<close>): agents are polled until none
  runs; a completed one is verified, and when its pipeline advances the next agent is started at once.

  The loop has no bound of its own, so the model runs over a list of rounds, each with what the world
  answers in it: how the agents are polled, what the store has on a bead, whether an agent starts. The
  result is \<open>None\<close> when the rounds are over and agents still run. After 30 minutes the code kills what
  runs and polls on; the model has only the polls.
\<close>

section \<open>Running agents\<close>

record agent_handle =
  ah_work_dir :: string
  ah_workspace :: bool
  ah_started_at :: int

record waiting =
  wt_rec :: reconciler
  wt_active :: "(string \<times> agent_handle) list"

record wait_round =
  wd_env :: environment
  wd_poll :: "string \<Rightarrow> poll_result"
  wd_fetch :: "string \<Rightarrow> string \<Rightarrow> bead option"
  wd_repo_path :: "string \<Rightarrow> string option"
  wd_spawn :: "bead \<Rightarrow> string \<Rightarrow> string + agent_handle"

text \<open>Elapsed times are milliseconds.\<close>

definition AGENT_TIMEOUT :: int where
  "AGENT_TIMEOUT = 4 * 60 * 60 * 1000"

text \<open>Whether an agent is done, and how: \<open>None\<close> while it runs.\<close>

definition exit_of :: "poll_result \<Rightarrow> bool option" where
  "exit_of p =
     (case p of
        Exited ok \<Rightarrow> Some ok
      | Running elapsed \<Rightarrow> if elapsed > AGENT_TIMEOUT then Some False else None
      | PollError \<Rightarrow> Some False)"

definition tracked_repo :: "reconciler \<Rightarrow> string \<Rightarrow> string" where
  "tracked_repo s bead_id = (case rc_trackers s bead_id of None \<Rightarrow> [] | Some t \<Rightarrow> tk_repo t)"

text \<open>A finished agent leaves the active ones; its workspace and work directory are stashed.\<close>

definition stash_handle :: "string \<Rightarrow> agent_handle \<Rightarrow> waiting \<Rightarrow> waiting" where
  "stash_handle bead_id h w =
     w\<lparr> wt_active := filter (\<lambda>(i, _). i \<noteq> bead_id) (wt_active w),
        wt_rec := (wt_rec w)\<lparr>
          rc_workspaces := (if ah_workspace h then insert bead_id (rc_workspaces (wt_rec w))
                            else rc_workspaces (wt_rec w)),
          rc_work_dirs := (rc_work_dirs (wt_rec w))(bead_id \<mapsto> (ah_work_dir h, tracked_repo (wt_rec w) bead_id)) \<rparr> \<rparr>"

definition check_one :: "(string \<Rightarrow> poll_result) \<Rightarrow> string \<times> agent_handle \<Rightarrow> (string \<times> bool) list \<times> waiting
    \<Rightarrow> (string \<times> bool) list \<times> waiting" where
  "check_one poll ih cw =
     (let (i, h) = ih; (c, w) = cw
      in case exit_of (poll i) of
           None \<Rightarrow> (c, w)
         | Some ok \<Rightarrow> (c @ [(i, ok)], stash_handle i h w))"

definition check_completed :: "(string \<Rightarrow> poll_result) \<Rightarrow> waiting \<Rightarrow> (string \<times> bool) list \<times> waiting" where
  "check_completed poll w = foldl (\<lambda>cw ih. check_one poll ih cw) ([], w) (wt_active w)"

section \<open>The wait\<close>

record wait_outcome =
  wo_passed :: nat
  wo_failed :: nat
  wo_deadlettered_ids :: "string list"

definition wait_record :: "action_outcome \<Rightarrow> string \<Rightarrow> wait_outcome \<Rightarrow> wait_outcome" where
  "wait_record r bead_id o1 =
     (case r of
        Completed \<Rightarrow> o1\<lparr> wo_passed := wo_passed o1 + 1 \<rparr>
      | Retrying \<Rightarrow> o1\<lparr> wo_failed := wo_failed o1 + 1 \<rparr>
      | Deadlettered \<Rightarrow> o1\<lparr> wo_failed := wo_failed o1 + 1,
                           wo_deadlettered_ids := wo_deadlettered_ids o1 @ [bead_id] \<rparr>
      | Advanced _ \<Rightarrow> o1)"

text \<open>From the classification of a run to the record of its dispatch.\<close>

definition wait_decide :: "environment \<Rightarrow> bead list \<Rightarrow> string \<Rightarrow> bool \<Rightarrow> reconciler \<Rightarrow> action_outcome \<times> reconciler" where
  "wait_decide env beads bead_id exited s =
     (let repo = tracked_repo s bead_id;
          (class, exit_success, wait) = classify_completion env bead_id exited s;
          s1 = (if exit_success then signal_verifying bead_id repo s else s);
          ((action, summary), s2) = verify_and_decide env bead_id exit_success beads s1;
          (r, s3) = execute_action env bead_id repo action class summary s2;
          s4 = defer_retry env bead_id repo wait r s3
      in (r, complete_dispatch_of bead_id class r s4))"

definition redispatch_bead :: "wait_round \<Rightarrow> string \<Rightarrow> string \<Rightarrow> string \<Rightarrow> string \<Rightarrow> bead" where
  "redispatch_bead rd bead_id repo issue_type nxt =
     (let full = wd_fetch rd bead_id repo
      in \<lparr> b_id = bead_id, b_title = (case full of None \<Rightarrow> [] | Some f \<Rightarrow> b_title f),
           b_description = (case full of None \<Rightarrow> [] | Some f \<Rightarrow> b_description f),
           b_status = ''dispatched'', b_priority = 2, b_issue_type = issue_type, b_owner = Some nxt,
           b_repo = repo, b_created_at = ev_local_now (wd_env rd), b_updated_at = ev_local_now (wd_env rd),
           b_dependency_count = 0, b_dependent_count = 0, b_comment_count = 0, b_branch = None, b_pr_url = None,
           b_jj_change_id = None, b_external_ref = None,
           b_files = (case full of None \<Rightarrow> [] | Some f \<Rightarrow> b_files f),
           b_test_files = (case full of None \<Rightarrow> [] | Some f \<Rightarrow> b_test_files f), b_created_by = None, b_scope = [],
           b_derived_from = [], b_acceptance_criteria = [] \<rparr>)"

definition redispatch :: "wait_round \<Rightarrow> string \<Rightarrow> string \<Rightarrow> string \<Rightarrow> string \<Rightarrow> wait_outcome \<times> waiting
    \<Rightarrow> wait_outcome \<times> waiting" where
  "redispatch rd bead_id repo issue_type nxt ow =
     (let (o1, w) = ow; s = wt_rec w;
          path = (case wd_repo_path rd repo of None \<Rightarrow> [] | Some p \<Rightarrow> p);
          phase = (case rc_trackers s bead_id of None \<Rightarrow> 1 | Some t \<Rightarrow> tk_phase_index t)
      in case wd_spawn rd (redispatch_bead rd bead_id repo issue_type nxt) path of
           Inr h \<Rightarrow>
             (let d = make_dispatch_id bead_id (ah_started_at h);
                  s1 = emit (RecordDispatch d (WorkRef repo (tracker_scope s bead_id) bead_id) nxt)
                         (emit (SpawnAgent bead_id nxt) s);
                  s2 = map_tracker bead_id (\<lambda>t. t\<lparr> tk_dispatch_id := Some d \<rparr>) s1;
                  s3 = emit (PersistStatus bead_id repo Dispatched) s2;
                  s4 = emit (AppendObservation bead_id repo nxt phase VDispatched ''re-dispatched for next phase'') s3
              in (o1, w\<lparr> wt_rec := s4,
                        wt_active := filter (\<lambda>(i, _). i \<noteq> bead_id) (wt_active w) @ [(bead_id, h)] \<rparr>))
         | Inl e \<Rightarrow>
             (let s1 = emit (PersistStatus bead_id repo DeadLetter) s;
                  s2 = emit (AppendObservation bead_id repo nxt phase VFail
                               (''spawn failed after phase advance: '' @ e)) s1
              in (wait_record Deadlettered bead_id o1,
                  w\<lparr> wt_rec := s2\<lparr> rc_trackers := (rc_trackers s2)(bead_id := None) \<rparr> \<rparr>)))"

definition wait_one :: "wait_round \<Rightarrow> bead list \<Rightarrow> string \<times> bool \<Rightarrow> wait_outcome \<times> waiting \<Rightarrow> wait_outcome \<times> waiting" where
  "wait_one rd beads completed ow =
     (let (bead_id, exited) = completed; (o1, w) = ow;
          repo = tracked_repo (wt_rec w) bead_id;
          issue_type = (case rc_trackers (wt_rec w) bead_id of None \<Rightarrow> [] | Some t \<Rightarrow> tk_issue_type t);
          (r, s) = wait_decide (wd_env rd) beads bead_id exited (wt_rec w);
          ow' = (wait_record r bead_id o1, w\<lparr> wt_rec := s \<rparr>)
      in case r of Advanced nxt \<Rightarrow> redispatch rd bead_id repo issue_type nxt ow' | _ \<Rightarrow> ow')"

definition completed_beads :: "wait_round \<Rightarrow> reconciler \<Rightarrow> (string \<times> bool) list \<Rightarrow> bead list" where
  "completed_beads rd s completed = List.map_filter (\<lambda>(i, _). wd_fetch rd i (tracked_repo s i)) completed"

definition wait_step :: "wait_round \<Rightarrow> wait_outcome \<times> waiting \<Rightarrow> wait_outcome \<times> waiting" where
  "wait_step rd ow =
     (let (o1, w) = ow; (completed, w1) = check_completed (wd_poll rd) w;
          beads = completed_beads rd (wt_rec w1) completed
      in foldl (\<lambda>ow x. wait_one rd beads x ow) (o1, w1) completed)"

fun wait_and_verify :: "wait_round list \<Rightarrow> wait_outcome \<times> waiting \<Rightarrow> (wait_outcome \<times> waiting) option" where
  "wait_and_verify rounds ow =
     (if wt_active (snd ow) = [] then Some ow
      else (case rounds of [] \<Rightarrow> None | rd # rds \<Rightarrow> wait_and_verify rds (wait_step rd ow)))"

declare wait_and_verify.simps [simp del]

definition no_outcome :: wait_outcome where
  "no_outcome = \<lparr> wo_passed = 0, wo_failed = 0, wo_deadlettered_ids = [] \<rparr>"

section \<open>What one completed agent changes\<close>

lemma execute_action_other:
  assumes "execute_action env b repo a cl su s = (r, s')" "j \<noteq> b"
  shows "rc_trackers s' j = rc_trackers s j"
proof (cases a)
  case (Advance nx ph)
  then show ?thesis using assms
    by (auto simp: execute_action_def Let_def write_handoff_and_advance_def advance_tracker_def rc_simps split: prod.splits if_splits)
next
  case Terminal
  then show ?thesis using assms by (auto simp: execute_action_def Let_def rc_simps split: prod.splits)
next
  case Retry
  then show ?thesis using assms
    by (auto simp: execute_action_def Let_def handle_failure_def on_fail_def on_fail_exit_def split: prod.splits option.splits if_splits)
next
  case Deadletter
  then show ?thesis using assms
    by (auto simp: execute_action_def Let_def handle_failure_def on_fail_def on_fail_exit_def split: prod.splits option.splits if_splits)
qed

lemma wait_decide_elim:
  assumes "wait_decide env beads i ex s = (r, s')"
  obtains cl ok w a su s2 s3 where
    "classify_completion env i ex s = (cl, ok, w)"
    "verify_and_decide env i ok beads (if ok then signal_verifying i (tracked_repo s i) s else s) = ((a, su), s2)"
    "execute_action env i (tracked_repo s i) a cl su s2 = (r, s3)"
    "s' = complete_dispatch_of i cl r (defer_retry env i (tracked_repo s i) w r s3)"
  using assms by (auto simp: wait_decide_def Let_def split: prod.splits)

lemma wait_decide_other:
  assumes "wait_decide env beads i ex s = (r, s')" "j \<noteq> i"
  shows "rc_trackers s' j = rc_trackers s j"
proof -
  obtain cl ok w a su s2 s3 where v: "verify_and_decide env i ok beads (if ok then signal_verifying i (tracked_repo s i) s else s) = ((a, su), s2)"
    and e: "execute_action env i (tracked_repo s i) a cl su s2 = (r, s3)"
    and s': "s' = complete_dispatch_of i cl r (defer_retry env i (tracked_repo s i) w r s3)"
    using wait_decide_elim [OF assms(1)] by metis
  show ?thesis
    using execute_action_other [OF e assms(2)] vad_fields(1) [OF v] by (simp add: s' other_fields)
qed

lemma redispatch_other:
  assumes "(o1', w') = redispatch rd i repo ty nx (o1, w)"
  shows "j \<noteq> i \<Longrightarrow> rc_trackers (wt_rec w') j = rc_trackers (wt_rec w) j"
    and "set (wt_active w') \<subseteq> set (wt_active w) \<union> {i} \<times> UNIV"
    and "distinct (map fst (wt_active w)) \<Longrightarrow> distinct (map fst (wt_active w'))"
  using assms by (auto simp: redispatch_def Let_def distinct_map inj_on_def split: sum.splits)

text \<open>An advance, when the handoffs can be read.\<close>

lemma execute_advanced:
  assumes e: "execute_action env b repo a cl su s = (Advanced nx, s')" and t: "rc_trackers s b = Some t"
    and h: "\<forall>p. ev_previous_handoff env b p"
  shows "(\<exists>ph. a = Advance nx ph) \<and> rc_trackers s' b =
    Some (t\<lparr> tk_consecutive_reverts := 0, tk_current_agent := Some nx, tk_phase_index := tk_phase_index t + 1 \<rparr>)"
proof -
  obtain agent phase where ap: "tracker_agent_phase s b ''unknown'' = (agent, phase)" by force
  let ?s2 = "emit (AppendObservation b repo agent phase VPass ''phase passed'') (emit (CheckpointWorkspace b) (on_pass b s))"
  have a: "\<exists>ph. a = Advance nx ph" and s': "s' = write_handoff_and_advance env b repo nx ?s2"
    using e ap by (cases a; simp add: execute_action_def Let_def)+
  have "rc_trackers ?s2 b = Some (t\<lparr> tk_consecutive_reverts := 0 \<rparr>)" using t by (simp add: rc_simps)
  then show ?thesis using a h s'
    by (auto simp: write_handoff_and_advance_def advance_tracker_def tracker_agent_phase_def Let_def split: prod.splits)
qed

lemma decide_Advance:
  "decide e ty ag ok v n m r = Advance nx ph \<Longrightarrow>
     ok \<and> v \<noteq> Some False \<and> (\<exists>a. ag = Some a \<and> next_agent e ty a = Some nx)"
  by (auto simp: decide_def Let_def split: option.splits if_splits)

lemma wait_decide_advanced:
  assumes d: "wait_decide env beads i ex s = (Advanced nx, s')" and t: "rc_trackers s i = Some t"
    and h: "\<forall>p. ev_previous_handoff env i p"
  shows "(\<exists>a. tk_current_agent t = Some a \<and> next_agent (ev_pipeline env) (tk_issue_type t) a = Some nx)
    \<and> rc_trackers s' i =
      Some (t\<lparr> tk_consecutive_reverts := 0, tk_current_agent := Some nx, tk_phase_index := tk_phase_index t + 1 \<rparr>)"
proof -
  obtain cl ok w a su s2 s3 where v: "verify_and_decide env i ok beads (if ok then signal_verifying i (tracked_repo s i) s else s) = ((a, su), s2)"
    and e: "execute_action env i (tracked_repo s i) a cl su s2 = (Advanced nx, s3)"
    and s': "s' = complete_dispatch_of i cl (Advanced nx) (defer_retry env i (tracked_repo s i) w (Advanced nx) s3)"
    using wait_decide_elim [OF d] by metis
  have t2: "rc_trackers s2 i = Some t" using vad_fields(1) [OF v] t by simp
  note adv = execute_advanced [OF e t2 h]
  have di: "decide_inputs beads i (if ok then signal_verifying i (tracked_repo s i) s else s)
      = (tk_issue_type t, tk_current_agent t, tk_retries t, tk_consecutive_reverts t)"
    using t by (simp add: decide_inputs_def)
  obtain ph where "a = Advance nx ph" using adv by blast
  then have "\<exists>vp. decide (ev_pipeline env) (tk_issue_type t) (tk_current_agent t) ok vp (tk_retries t)
      (ev_max_retries env) (tk_consecutive_reverts t) = Advance nx ph"
    using v di by (auto simp: verify_and_decide_def split: prod.splits)
  then show ?thesis using decide_Advance adv by (auto simp: s' other_fields)
qed

section \<open>The wait ends\<close>

text \<open>How many agents are left to run, the current one included.\<close>

definition agents_left :: "pipeline_engine \<Rightarrow> bead_tracker \<Rightarrow> nat" where
  "agents_left e t =
     (case tk_current_agent t of
        None \<Rightarrow> 1
      | Some a \<Rightarrow> (case position a (agents_for e (tk_issue_type t)) of
            None \<Rightarrow> 1
          | Some p \<Rightarrow> length (agents_for e (tk_issue_type t)) - p))"

lemma agents_left_next:
  assumes "distinct (agents_for e (tk_issue_type t))" "tk_current_agent t = Some a"
    and "next_agent e (tk_issue_type t) a = Some nx" "tk_issue_type t' = tk_issue_type t" "tk_current_agent t' = Some nx"
  shows "agents_left e t = Suc (agents_left e t')" "0 < agents_left e t'"
proof -
  let ?L = "agents_for e (tk_issue_type t)"
  obtain p where p: "position a ?L = Some p" "Suc p < length ?L" "nx = ?L ! Suc p"
    using assms(3) by (auto simp: next_agent_def Let_def split: option.splits if_splits)
  have "position nx ?L = Some (Suc p)" using position_distinct [OF assms(1) p(2)] p(3) by simp
  then show "agents_left e t = Suc (agents_left e t')" "0 < agents_left e t'"
    using assms p by (simp_all add: agents_left_def)
qed

lemma agents_left_pos: "0 < agents_left e t"
proof (cases "tk_current_agent t")
  case (Some a)
  show ?thesis
  proof (cases "position a (agents_for e (tk_issue_type t))")
    case (Some p)
    then have "p < length (agents_for e (tk_issue_type t))" by (simp add: position_Some)
    then show ?thesis using \<open>tk_current_agent t = Some a\<close> Some by (simp add: agents_left_def)
  qed (simp add: agents_left_def Some)
qed (simp add: agents_left_def)

text \<open>Every active bead has at most its bound of agents left.\<close>

definition left_within :: "pipeline_engine \<Rightarrow> (string \<Rightarrow> nat) \<Rightarrow> waiting \<Rightarrow> bool" where
  "left_within e bound w \<longleftrightarrow>
     (\<forall>i \<in> fst ` set (wt_active w). \<exists>t. rc_trackers (wt_rec w) i = Some t \<and> agents_left e t \<le> bound i)"

lemma redispatch_tracker:
  assumes "(o1', w') = redispatch rd i repo ty nx (o1, w)" "rc_trackers (wt_rec w) i = Some t"
    and "i \<in> fst ` set (wt_active w')" "i \<notin> fst ` set (wt_active w)"
  shows "\<exists>d. rc_trackers (wt_rec w') i = Some (t\<lparr> tk_dispatch_id := d \<rparr>)"
  using assms by (auto simp: redispatch_def Let_def split: sum.splits)

lemma wait_one_cases:
  assumes r: "(o1', w') = wait_one rd beads (i, ex) (o1, w)"
    and wd: "wait_decide (wd_env rd) beads i ex (wt_rec w) = (r1, s1)"
  shows "w' = w\<lparr> wt_rec := s1 \<rparr> \<and> (\<forall>nx. r1 \<noteq> Advanced nx)
    \<or> (\<exists>nx repo ty o2. r1 = Advanced nx \<and> (o1', w') = redispatch rd i repo ty nx (o2, w\<lparr> wt_rec := s1 \<rparr>))"
  using r wd by (cases r1) (auto simp: wait_one_def Let_def)

lemma wait_one_frame:
  assumes r: "(o1', w') = wait_one rd beads (i, ex) (o1, w)"
  shows "j \<noteq> i \<Longrightarrow> rc_trackers (wt_rec w') j = rc_trackers (wt_rec w) j"
    and "set (wt_active w') \<subseteq> set (wt_active w) \<union> {i} \<times> UNIV"
    and "distinct (map fst (wt_active w)) \<Longrightarrow> distinct (map fst (wt_active w'))"
proof -
  obtain r1 s1 where wd: "wait_decide (wd_env rd) beads i ex (wt_rec w) = (r1, s1)" by force
  note c = wait_one_cases [OF r wd] and other = wait_decide_other [OF wd]
  show "rc_trackers (wt_rec w') j = rc_trackers (wt_rec w) j" if "j \<noteq> i"
    using c other [OF that] redispatch_other(1) [OF _ that] by fastforce
  show "set (wt_active w') \<subseteq> set (wt_active w) \<union> {i} \<times> UNIV"
    using c redispatch_other(2) by fastforce
  show "distinct (map fst (wt_active w'))" if "distinct (map fst (wt_active w))"
    using c redispatch_other(3) that by fastforce
qed

lemma wait_one_progress:
  assumes r: "(o1', w') = wait_one rd beads (i, ex) (o1, w)"
    and t: "rc_trackers (wt_rec w) i = Some t" and n: "i \<notin> fst ` set (wt_active w)"
    and h: "\<forall>p. ev_previous_handoff (wd_env rd) i p" and d: "distinct (agents_for (ev_pipeline (wd_env rd)) (tk_issue_type t))"
    and i: "i \<in> fst ` set (wt_active w')"
  shows "\<exists>t'. rc_trackers (wt_rec w') i = Some t' \<and> agents_left (ev_pipeline (wd_env rd)) t' < agents_left (ev_pipeline (wd_env rd)) t"
proof -
  obtain r1 s1 where wd: "wait_decide (wd_env rd) beads i ex (wt_rec w) = (r1, s1)" by force
  from wait_one_cases [OF r wd] n i obtain nx repo ty o2 where r1: "r1 = Advanced nx"
    and re: "(o1', w') = redispatch rd i repo ty nx (o2, w\<lparr> wt_rec := s1 \<rparr>)" by auto
  note adv = wait_decide_advanced [OF wd [unfolded r1] t h]
  let ?t1 = "t\<lparr> tk_consecutive_reverts := 0, tk_current_agent := Some nx, tk_phase_index := tk_phase_index t + 1 \<rparr>"
  obtain dd where t': "rc_trackers (wt_rec w') i = Some (?t1\<lparr> tk_dispatch_id := dd \<rparr>)"
    using redispatch_tracker [OF re _ i] adv n by auto
  obtain a where "tk_current_agent t = Some a" "next_agent (ev_pipeline (wd_env rd)) (tk_issue_type t) a = Some nx"
    using adv by blast
  then show ?thesis
    using agents_left_next(1) [OF d, of a nx "?t1\<lparr> tk_dispatch_id := dd \<rparr>"] t' by simp
qed

text \<open>All agents have exited.\<close>

lemma check_one_exited:
  assumes "exit_of (poll i) = Some ok"
  shows "check_one poll (i, h) (c, w) = (c @ [(i, ok)], stash_handle i h w)"
  using assms by (simp add: check_one_def)

lemma stash_handle_fields [simp]:
  "rc_trackers (wt_rec (stash_handle i h w)) = rc_trackers (wt_rec w)"
  "wt_active (stash_handle i h w) = filter (\<lambda>(j, _). j \<noteq> i) (wt_active w)"
  by (simp_all add: stash_handle_def)

lemma check_one_running:
  assumes "exit_of (poll i) = None"
  shows "check_one poll (i, h) (c, w) = (c, w)"
  using assms by (simp add: check_one_def)

text \<open>A poll takes out of the active ones exactly the agents that have exited.\<close>

definition exited_in :: "(string \<Rightarrow> poll_result) \<Rightarrow> (string \<times> agent_handle) list \<Rightarrow> (string \<times> bool) list" where
  "exited_in poll xs = List.map_filter (\<lambda>(i, h). map_option (\<lambda>ok. (i, ok)) (exit_of (poll i))) xs"

lemma exited_in_simps [simp]:
  "exited_in poll [] = []"
  "exited_in poll ((i, h) # xs) =
     (case exit_of (poll i) of None \<Rightarrow> exited_in poll xs | Some ok \<Rightarrow> (i, ok) # exited_in poll xs)"
  by (simp_all add: exited_in_def List.map_filter_simps split: option.splits)

lemma exited_ids: "fst ` set (exited_in poll xs) = {i \<in> fst ` set xs. exit_of (poll i) \<noteq> None}"
proof (induction xs)
  case (Cons x xs)
  obtain i h where x: "x = (i, h)" by force
  show ?case
  proof (cases "exit_of (poll i)")
    case None
    then show ?thesis by (simp only: x exited_in_simps option.case Cons.IH) auto
  next
    case (Some ok)
    then show ?thesis by (simp only: x exited_in_simps option.case list.set image_insert fst_conv Cons.IH) auto
  qed
qed simp

lemma exited_distinct: "distinct (map fst xs) \<Longrightarrow> distinct (map fst (exited_in poll xs))"
proof (induction xs)
  case (Cons x xs)
  obtain i h where x: "x = (i, h)" by force
  have "i \<notin> fst ` set (exited_in poll xs)" using Cons.prems exited_ids [of poll xs] x by simp
  then show ?case using Cons x by (simp split: option.splits)
qed simp

lemma check_exited:
  "\<exists>w'. foldl (\<lambda>cw ih. check_one poll ih cw) (c, w) xs = (c @ exited_in poll xs, w')
    \<and> rc_trackers (wt_rec w') = rc_trackers (wt_rec w)
    \<and> wt_active w' = filter (\<lambda>(j, _). j \<notin> fst ` set (exited_in poll xs)) (wt_active w)"
proof (induction xs arbitrary: c w)
  case Nil
  then show ?case by (simp add: case_prod_beta')
next
  case (Cons x xs)
  obtain i h where x: "x = (i, h)" by force
  show ?case
  proof (cases "exit_of (poll i)")
    case None
    then show ?thesis using Cons.IH [of c w] by (simp add: x check_one_running)
  next
    case (Some ok)
    have "filter (\<lambda>(j, _). j \<notin> fst ` set (exited_in poll xs)) (filter (\<lambda>(j, _). j \<noteq> i) (wt_active w))
        = filter (\<lambda>(j, _). j \<notin> insert i (fst ` set (exited_in poll xs))) (wt_active w)"
      unfolding filter_filter by (rule filter_cong) auto
    then show ?thesis
      using Cons.IH [of "c @ [(i, ok)]" "stash_handle i h w"] Some by (simp add: x check_one_exited)
  qed
qed

lemma check_completed_exited:
  obtains w' where "check_completed poll w = (exited_in poll (wt_active w), w')"
    "rc_trackers (wt_rec w') = rc_trackers (wt_rec w)"
    "wt_active w' = filter (\<lambda>(j, _). exit_of (poll j) = None) (wt_active w)"
proof -
  have "filter (\<lambda>(j, _). j \<notin> fst ` set (exited_in poll (wt_active w))) (wt_active w)
      = filter (\<lambda>(j, _). exit_of (poll j) = None) (wt_active w)"
    unfolding exited_ids by (rule filter_cong [OF refl]) (force simp: image_iff)
  then show ?thesis using that check_exited [of poll "[]" w "wt_active w"] by (auto simp: check_completed_def)
qed

lemma wait_fold_progress:
  assumes h: "\<forall>i p. ev_previous_handoff (wd_env rd) i p"
    and d: "\<forall>ty. distinct (agents_for (ev_pipeline (wd_env rd)) ty)"
    and u: "(o1', w') = foldl (\<lambda>ow x. wait_one rd beads x ow) (o1, w) xs"
    and xs: "distinct (map fst xs)" "fst ` set xs \<inter> fst ` set (wt_active w) = {}"
    and t: "\<forall>i \<in> fst ` set xs. \<exists>t. rc_trackers (wt_rec w) i = Some t
       \<and> agents_left (ev_pipeline (wd_env rd)) t \<le> Suc (bound i)"
    and f: "left_within (ev_pipeline (wd_env rd)) bound w" and dw: "distinct (map fst (wt_active w))"
  shows "left_within (ev_pipeline (wd_env rd)) bound w' \<and> distinct (map fst (wt_active w'))"
  using u xs t f dw
proof (induction xs arbitrary: o1 w)
  case Nil
  then show ?case by simp
next
  case (Cons x xs)
  let ?e = "ev_pipeline (wd_env rd)"
  obtain i ex where x: "x = (i, ex)" by force
  obtain o2 w2 where w2: "(o2, w2) = wait_one rd beads (i, ex) (o1, w)" by (metis prod.exhaust)
  note fr = wait_one_frame [OF w2]
  obtain t where t: "rc_trackers (wt_rec w) i = Some t" "agents_left ?e t \<le> Suc (bound i)"
    using Cons.prems(4) x by auto
  have n: "i \<notin> fst ` set (wt_active w)" using Cons.prems(3) x by auto
  have "left_within ?e bound w2"
    unfolding left_within_def
  proof
    fix j
    assume j: "j \<in> fst ` set (wt_active w2)"
    show "\<exists>t. rc_trackers (wt_rec w2) j = Some t \<and> agents_left ?e t \<le> bound j"
    proof (cases "j = i")
      case True
      then show ?thesis using wait_one_progress [OF w2 t(1) n] h d j t(2) by fastforce
    next
      case False
      then have "j \<in> fst ` set (wt_active w)" using fr(2) j by auto
      then show ?thesis using Cons.prems(5) fr(1) [OF False] by (auto simp: left_within_def)
    qed
  qed
  moreover have "fst ` set xs \<inter> fst ` set (wt_active w2) = {}"
  proof -
    have "fst ` set (wt_active w2) \<subseteq> insert i (fst ` set (wt_active w))" using fr(2) by auto
    moreover have "fst ` set xs \<inter> insert i (fst ` set (wt_active w)) = {}" using Cons.prems(2,3) x by auto
    ultimately show ?thesis by blast
  qed
  moreover have "\<forall>j \<in> fst ` set xs. \<exists>t. rc_trackers (wt_rec w2) j = Some t \<and> agents_left ?e t \<le> Suc (bound j)"
  proof
    fix j
    assume j: "j \<in> fst ` set xs"
    then have "j \<noteq> i" using Cons.prems(2) x by auto
    then show "\<exists>t. rc_trackers (wt_rec w2) j = Some t \<and> agents_left ?e t \<le> Suc (bound j)"
      using fr(1) Cons.prems(4) j x by auto
  qed
  moreover have "distinct (map fst (wt_active w2))" by (rule fr(3) [OF Cons.prems(6)])
  moreover have "(o1', w') = foldl (\<lambda>ow x. wait_one rd beads x ow) (o2, w2) xs" "distinct (map fst xs)"
    using Cons.prems(1,2) w2 x by simp_all
  ultimately show ?case by (intro Cons.IH)
qed

text \<open>In how many of the rounds the agent of a bead is found to have exited.\<close>

definition exits :: "wait_round list \<Rightarrow> string \<Rightarrow> nat" where
  "exits rounds i = length (filter (\<lambda>rd. exit_of (wd_poll rd i) \<noteq> None) rounds)"

lemma wait_step_progress:
  assumes e: "ev_pipeline (wd_env rd) = e" and h: "\<forall>i p. ev_previous_handoff (wd_env rd) i p"
    and d: "\<forall>ty. distinct (agents_for e ty)" "distinct (map fst (wt_active w))"
    and l: "left_within e (exits (rd # rounds)) w" and s: "(o2, w2) = wait_step rd (o1, w)"
  shows "left_within e (exits rounds) w2 \<and> distinct (map fst (wt_active w2))"
proof -
  let ?done = "exited_in (wd_poll rd) (wt_active w)"
  obtain w1 where w1: "check_completed (wd_poll rd) w = (?done, w1)"
    "rc_trackers (wt_rec w1) = rc_trackers (wt_rec w)"
    "wt_active w1 = filter (\<lambda>(j, _). exit_of (wd_poll rd j) = None) (wt_active w)"
    using check_completed_exited .
  have "left_within (ev_pipeline (wd_env rd)) (exits rounds) w2 \<and> distinct (map fst (wt_active w2))"
  proof (rule wait_fold_progress [OF h])
    show "(o2, w2) = foldl (\<lambda>ow x. wait_one rd (completed_beads rd (wt_rec w1) ?done) x ow) (o1, w1) ?done"
      using s by (simp add: wait_step_def w1(1) Let_def)
    show "distinct (map fst ?done)" by (rule exited_distinct [OF d(2)])
    show "fst ` set ?done \<inter> fst ` set (wt_active w1) = {}" unfolding exited_ids w1(3) by auto
    show "\<forall>i \<in> fst ` set ?done. \<exists>t. rc_trackers (wt_rec w1) i = Some t
        \<and> agents_left (ev_pipeline (wd_env rd)) t \<le> Suc (exits rounds i)"
    proof
      fix i
      assume "i \<in> fst ` set ?done"
      then have "i \<in> fst ` set (wt_active w)" "exit_of (wd_poll rd i) \<noteq> None" unfolding exited_ids by simp_all
      then show "\<exists>t. rc_trackers (wt_rec w1) i = Some t \<and> agents_left (ev_pipeline (wd_env rd)) t \<le> Suc (exits rounds i)"
        using l e w1(2) by (force simp: left_within_def exits_def)
    qed
    show "left_within (ev_pipeline (wd_env rd)) (exits rounds) w1"
      using l e w1(2,3) by (force simp: left_within_def exits_def)
    show "distinct (map fst (wt_active w1))" using d(2) w1(3) by (simp add: distinct_map_filter)
  qed (use e d(1) in simp)
  then show ?thesis using e by simp
qed

text \<open>
  C8. With \<open>--once\<close> the wait for the running agents ends, provided every handoff can be read, no
  pipeline names an agent twice, and the agents of each active bead are found to have exited (on their
  own, by an error or past the timeout of four hours) in at least as many rounds of polling as the
  bead has agents left to run; in the other rounds they may still be running. What the agents exit
  with, what the verification finds and whether the spawns succeed does not matter.
\<close>

theorem wait_and_verify_ends:
  assumes rounds: "\<forall>rd \<in> set rounds. ev_pipeline (wd_env rd) = e \<and> (\<forall>i p. ev_previous_handoff (wd_env rd) i p)"
    and d: "\<forall>ty. distinct (agents_for e ty)" "distinct (map fst (wt_active w))"
    and left: "\<forall>i \<in> fst ` set (wt_active w). \<exists>t. rc_trackers (wt_rec w) i = Some t
      \<and> agents_left e t \<le> length (filter (\<lambda>rd. exit_of (wd_poll rd i) \<noteq> None) rounds)"
  shows "\<exists>o1' w'. wait_and_verify rounds (o1, w) = Some (o1', w') \<and> wt_active w' = []"
proof -
  have "left_within e (exits rounds) w" using left by (simp add: left_within_def exits_def)
  then show ?thesis using rounds d(2)
  proof (induction rounds arbitrary: o1 w)
    case Nil
    then have "wt_active w = []" using agents_left_pos [of e]
      by (cases "wt_active w") (auto simp: left_within_def exits_def neq0_conv [symmetric] simp del: neq0_conv)
    then show ?case by (simp add: wait_and_verify.simps)
  next
    case (Cons rd rounds)
    obtain o2 w2 where w2: "(o2, w2) = wait_step rd (o1, w)" by (metis prod.exhaust)
    have "left_within e (exits rounds) w2 \<and> distinct (map fst (wt_active w2))"
      using wait_step_progress [OF _ _ d(1) Cons.prems(3,1) w2] Cons.prems(2) by simp
    then show ?case using Cons.IH [of w2 o2] Cons.prems(2) w2
      by (cases "wt_active w = []") (simp_all add: wait_and_verify.simps [of "rd # rounds"] wait_and_verify.simps [of rounds "(o1, w)"])
  qed
qed

definition small_handle :: agent_handle where
  "small_handle = \<lparr> ah_work_dir = ''/w'', ah_workspace = True, ah_started_at = 0 \<rparr>"

definition small_round :: "environment \<Rightarrow> wait_round" where
  "small_round env = \<lparr> wd_env = env, wd_poll = (\<lambda>_. Exited True), wd_fetch = (\<lambda>_ _. None),
     wd_repo_path = (\<lambda>_. None), wd_spawn = (\<lambda>_ _. Inr small_handle) \<rparr>"

definition small_wait :: "string \<Rightarrow> nat \<Rightarrow> waiting" where
  "small_wait agent phase = \<lparr> wt_rec = sample_reconciler (sample_tracker agent phase), wt_active = [(''b'', small_handle)] \<rparr>"

lemma sample_agents: "distinct (agents_for (ev_pipeline (sample_env answers tiers)) ty)"
  by (simp add: sample_env_def agents_for_def)

definition running_round :: "environment \<Rightarrow> wait_round" where
  "running_round env = (small_round env)\<lparr> wd_poll := (\<lambda>_. Running 1000) \<rparr>"

theorem wait_and_verify_ends_witness:
  "\<exists>o1' w'. wait_and_verify
      (running_round (sample_env True []) # replicate 2 (small_round (sample_env True []))) (no_outcome, small_wait ''dev-agent'' 0)
        = Some (o1', w') \<and> wt_active w' = []"
proof (rule wait_and_verify_ends [of _ "ev_pipeline (sample_env True [])"])
  show "\<forall>i \<in> fst ` set (wt_active (small_wait ''dev-agent'' 0)). \<exists>t. rc_trackers (wt_rec (small_wait ''dev-agent'' 0)) i = Some t
      \<and> agents_left (ev_pipeline (sample_env True [])) t \<le> length (filter (\<lambda>rd. exit_of (wd_poll rd i) \<noteq> None)
          (running_round (sample_env True []) # replicate 2 (small_round (sample_env True []))))"
    by (simp add: small_wait_def sample_reconciler_def sample_tracker_def agents_left_def agents_for_def sample_env_def
        running_round_def small_round_def exit_of_def AGENT_TIMEOUT_def numeral_2_eq_2) blast
qed (use sample_agents in \<open>auto simp: running_round_def small_round_def small_wait_def sample_env_def\<close>)

section \<open>The gates that the wait does not have\<close>

definition with_gates :: "(work_ref \<Rightarrow> string \<Rightarrow> bool) \<Rightarrow> (string \<Rightarrow> string \<Rightarrow> bool) \<Rightarrow> environment \<Rightarrow> environment" where
  "with_gates feedback gone env = env\<lparr> ev_left_feedback := feedback, ev_agent_closed := gone \<rparr>"

lemma with_gates_fields:
  "ev_pipeline (with_gates f g env) = ev_pipeline env" "ev_max_retries (with_gates f g env) = ev_max_retries env"
  "ev_now (with_gates f g env) = ev_now env" "ev_tiers (with_gates f g env) = ev_tiers env"
  "ev_logs (with_gates f g env) = ev_logs env" "ev_today_at (with_gates f g env) = ev_today_at env"
  "ev_local_now (with_gates f g env) = ev_local_now env"
  "ev_previous_handoff (with_gates f g env) = ev_previous_handoff env"
  by (simp_all add: with_gates_def)

lemma with_gates_steps:
  "classify_completion (with_gates f g env) = classify_completion env"
  "verify_and_decide (with_gates f g env) = verify_and_decide env"
  "execute_action (with_gates f g env) = execute_action env"
  "defer_retry (with_gates f g env) = defer_retry env"
proof -
  have a: "verify_agent (with_gates f g env) = verify_agent env"
    by (intro ext) (unfold verify_agent_def with_gates_fields, rule refl)
  have o: "verify_outcome (with_gates f g env) = verify_outcome env"
    by (intro ext) (unfold verify_outcome_def a, rule refl)
  show "verify_and_decide (with_gates f g env) = verify_and_decide env"
    by (intro ext) (unfold verify_and_decide_def o with_gates_fields, rule refl)
  show "classify_completion (with_gates f g env) = classify_completion env"
    by (intro ext) (unfold classify_completion_def with_gates_fields, rule refl)
  have s: "schedule_or_drop (with_gates f g env) = schedule_or_drop env"
    by (intro ext) (unfold schedule_or_drop_def with_gates_fields, rule refl)
  have h: "handle_failure (with_gates f g env) = handle_failure env"
    by (intro ext) (unfold handle_failure_def on_fail_def on_fail_exit_def s, rule refl)
  have v: "advance_tracker (with_gates f g env) = advance_tracker env"
    by (intro ext) (unfold advance_tracker_def, rule refl)
  have w: "write_handoff_and_advance (with_gates f g env) = write_handoff_and_advance env"
    by (intro ext) (unfold write_handoff_and_advance_def v with_gates_fields, rule refl)
  have c: "checkpoint_and_cleanup (with_gates f g env) = checkpoint_and_cleanup env"
    by (intro ext) (unfold checkpoint_and_cleanup_def with_gates_fields, rule refl)
  show "execute_action (with_gates f g env) = execute_action env"
    by (intro ext) (unfold execute_action_def h w c, rule refl)
  show "defer_retry (with_gates f g env) = defer_retry env"
    by (intro ext) (unfold defer_retry_def with_gates_fields, rule refl)
qed

lemma with_gates_step:
  "wait_step (rd\<lparr> wd_env := with_gates f g (wd_env rd) \<rparr>) = wait_step rd"
proof -
  let ?rd = "rd\<lparr> wd_env := with_gates f g (wd_env rd) \<rparr>"
  have fields: "wd_env ?rd = with_gates f g (wd_env rd)" "wd_poll ?rd = wd_poll rd" "wd_fetch ?rd = wd_fetch rd"
    "wd_repo_path ?rd = wd_repo_path rd" "wd_spawn ?rd = wd_spawn rd" by simp_all
  have d: "wait_decide (with_gates f g env) = wait_decide env" for env
    by (intro ext) (unfold wait_decide_def with_gates_steps, rule refl)
  have b: "redispatch_bead ?rd = redispatch_bead rd"
    by (intro ext) (unfold redispatch_bead_def fields with_gates_fields, rule refl)
  have r: "redispatch ?rd = redispatch rd"
    by (intro ext) (unfold redispatch_def b fields, rule refl)
  have w: "wait_one ?rd = wait_one rd"
    by (intro ext) (unfold wait_one_def fields d r, rule refl)
  have c: "completed_beads ?rd = completed_beads rd"
    by (intro ext) (unfold completed_beads_def fields, rule refl)
  show ?thesis by (intro ext) (unfold wait_step_def w c fields, rule refl)
qed

text \<open>
  The wait of a run with \<open>--once\<close> has neither the feedback gate nor the check for beads their
  agents closed: whatever feedback was left and whichever bead was closed, it does and answers the
  same.
\<close>

theorem wait_ignores_feedback:
  "wait_and_verify (map (\<lambda>rd. rd\<lparr> wd_env := (wd_env rd)\<lparr> ev_left_feedback := feedback, ev_agent_closed := gone \<rparr> \<rparr>) rounds) ow
   = wait_and_verify rounds ow"
proof (induction rounds arbitrary: ow)
  case (Cons rd rounds)
  have "wait_step (rd\<lparr> wd_env := (wd_env rd)\<lparr> ev_left_feedback := feedback, ev_agent_closed := gone \<rparr> \<rparr>) = wait_step rd"
    using with_gates_step [of feedback gone rd] by (simp add: with_gates_def)
  then show ?case using Cons.IH by (simp add: wait_and_verify.simps [of "rd # rounds"]
      wait_and_verify.simps [of "r # map h rounds" for r h])
qed (simp add: wait_and_verify.simps)

section \<open>A round in which everything goes well\<close>

text \<open>The agent exits with success and no notice of a limit, what is verified passes, and the next
  agent starts in a workspace.\<close>

definition smooth :: "wait_round \<Rightarrow> string \<Rightarrow> bool" where
  "smooth rd i \<longleftrightarrow> wd_poll rd i = Exited True
     \<and> (\<forall>dir. \<not> is_session_limit_notice (snd (ev_logs (wd_env rd) dir)))
     \<and> (\<forall>repo dir cc. case verifier_run (ev_tiers (wd_env rd) repo dir cc) of Inl _ \<Rightarrow> True | Inr v \<Rightarrow> summary_passed v)
     \<and> (\<forall>b p. \<exists>h. wd_spawn rd b p = Inr h \<and> ah_workspace h)"

definition spawned :: "string \<Rightarrow> reconciler \<Rightarrow> string list" where
  "spawned i s = List.map_filter (\<lambda>e. case e of SpawnAgent j a \<Rightarrow> if j = i then Some a else None | _ \<Rightarrow> None) (rc_effects s)"

lemma spawned_emit:
  "spawned i (emit e s) = spawned i s @ (case e of SpawnAgent j a \<Rightarrow> if j = i then [a] else [] | _ \<Rightarrow> [])"
  by (auto simp: spawned_def List.map_filter_def split: effect.splits)

lemma spawned_frame [simp]:
  "spawned i (on_pass b s) = spawned i s"
  "spawned i (map_tracker b f s) = spawned i s"
  "spawned i (signal_verifying b repo s) = spawned i s"
  "spawned i (complete_dispatch_of b cl r s) = spawned i s"
  "spawned i (defer_retry env b repo w r s) = spawned i s"
  "spawned i (checkpoint_and_cleanup env b s) = spawned i s"
  by (auto simp: spawned_def rc_simps signal_verifying_def complete_dispatch_of_def other_fields List.map_filter_def
      split: option.splits prod.splits)

lemma no_limit_notice: "\<not> is_session_limit_notice []"
  by (simp add: is_session_limit_notice_def session_limit_notices_def trim_start_def to_lowercase_def starts_with_def)

lemma smooth_verdict:
  assumes "smooth rd i" "verify_outcome (wd_env rd) i True beads s = (vp, su, s2)"
  shows "vp \<noteq> Some False"
proof
  assume "vp = Some False"
  then obtain v x cc s1 where "verify_agent (wd_env rd) i cc x s = (Some v, s1)" "\<not> summary_passed v"
    using assms(2) by (auto simp: verify_outcome_def Let_def split: prod.splits option.splits)
  then obtain repo dir where "verifier_run (ev_tiers (wd_env rd) repo dir cc) = Inr v"
    by (auto simp: verify_agent_def Let_def split: prod.splits option.splits sum.splits if_splits)
  then show False using assms(1) \<open>\<not> summary_passed v\<close> unfolding smooth_def by (metis old.sum.simps(6))
qed

lemma smooth_classified: "smooth rd i \<Longrightarrow> classify_completion (wd_env rd) i True s = (FOk, True, None)"
  using no_limit_notice by (auto simp: smooth_def classify_completion_def Let_def split: option.splits prod.splits)
    (metis snd_conv)+

lemma execute_advance_eq:
  assumes t: "rc_trackers s b = Some t"
  shows "\<exists>s'. execute_action env b repo (Advance nx ph) cl su s = (Advanced nx, s') \<and> spawned b s' = spawned b s
    \<and> rc_workspaces s' = rc_workspaces s
    \<and> rc_trackers s' b = Some (if b \<in> rc_workspaces s \<and> tk_phase_index t > 0 \<and> \<not> ev_previous_handoff env b (tk_phase_index t - 1)
        then t\<lparr> tk_consecutive_reverts := 0 \<rparr>
        else t\<lparr> tk_consecutive_reverts := 0, tk_current_agent := Some nx, tk_phase_index := tk_phase_index t + 1 \<rparr>)"
  using t by (auto simp: execute_action_def Let_def write_handoff_and_advance_def advance_tracker_def
      tracker_agent_phase_def rc_simps spawned_emit split: prod.splits)

lemma execute_terminal_eq:
  "\<exists>s'. execute_action env b repo Terminal cl su s = (Completed, s') \<and> spawned b s' = spawned b s"
  by (simp add: execute_action_def spawned_emit split: prod.splits)

lemma smooth_decides:
  assumes sm: "smooth rd i" and t: "rc_trackers s i = Some t" "tk_current_agent t = Some a"
  shows "\<exists>su s2.
    verify_and_decide (wd_env rd) i True beads (signal_verifying i (tracked_repo s i) s) =
       ((case next_agent (ev_pipeline (wd_env rd)) (tk_issue_type t) a of None \<Rightarrow> Terminal
         | Some nx \<Rightarrow> Advance nx ((case position nx (agents_for (ev_pipeline (wd_env rd)) (tk_issue_type t)) of
              Some p \<Rightarrow> p | None \<Rightarrow> 0) mod 256), su), s2)
    \<and> rc_trackers s2 = rc_trackers s \<and> rc_workspaces s2 = rc_workspaces s \<and> spawned i s2 = spawned i s"
proof -
  let ?s1 = "signal_verifying i (tracked_repo s i) s"
  obtain vp su s2 where vo: "verify_outcome (wd_env rd) i True beads ?s1 = (vp, su, s2)" by (metis prod_cases3)
  note vp = smooth_verdict [OF sm vo]
  have di: "decide_inputs beads i ?s1 = (tk_issue_type t, tk_current_agent t, tk_retries t, tk_consecutive_reverts t)"
    using t by (simp add: decide_inputs_def)
  obtain act where v: "verify_and_decide (wd_env rd) i True beads ?s1 = ((act, su), s2)"
    and act: "act = decide (ev_pipeline (wd_env rd)) (tk_issue_type t) (tk_current_agent t) True vp (tk_retries t)
      (ev_max_retries (wd_env rd)) (tk_consecutive_reverts t)"
    using vo di by (simp add: verify_and_decide_def)
  have "act = (case next_agent (ev_pipeline (wd_env rd)) (tk_issue_type t) a of None \<Rightarrow> Terminal
         | Some nx \<Rightarrow> Advance nx ((case position nx (agents_for (ev_pipeline (wd_env rd)) (tk_issue_type t)) of
              Some p \<Rightarrow> p | None \<Rightarrow> 0) mod 256))"
    using vp by (simp add: act t decide_def Let_def)
  moreover have "spawned i s2 = spawned i s"
    using vad_fields(3) [OF v] by (simp add: spawned_def) (metis spawned_def spawned_frame(3))
  ultimately show ?thesis using v vad_fields [OF v] by simp
qed

text \<open>Which handoff would be read: the workspace is stashed when the agent is polled.\<close>

definition chain_broken :: "wait_round \<Rightarrow> string \<Rightarrow> agent_handle \<Rightarrow> waiting \<Rightarrow> nat \<Rightarrow> bool" where
  "chain_broken rd i h w phase \<longleftrightarrow>
     (ah_workspace h \<or> i \<in> rc_workspaces (wt_rec w)) \<and> phase > 0 \<and> \<not> ev_previous_handoff (wd_env rd) i (phase - 1)"

lemma smooth_poll:
  assumes "smooth rd i" "wt_active w = [(i, h)]"
  shows "wait_step rd (o1, w) = wait_one rd (completed_beads rd (wt_rec (stash_handle i h w)) [(i, True)]) (i, True) (o1, stash_handle i h w)"
  using assms by (simp add: wait_step_def check_completed_def check_one_def exit_of_def smooth_def)

lemma stash_spawned [simp]: "spawned i (wt_rec (stash_handle j h w)) = spawned i (wt_rec w)"
  by (simp add: stash_handle_def spawned_def)

lemma smooth_last_step:
  assumes sm: "smooth rd i" and w: "wt_active w = [(i, h)]"
    and t: "rc_trackers (wt_rec w) i = Some t" "tk_current_agent t = Some a"
    and nx: "next_agent (ev_pipeline (wd_env rd)) (tk_issue_type t) a = None"
  shows "\<exists>w'. wait_step rd (o1, w) = (o1\<lparr> wo_passed := wo_passed o1 + 1 \<rparr>, w') \<and> wt_active w' = []
    \<and> spawned i (wt_rec w') = spawned i (wt_rec w)"
proof -
  let ?w = "stash_handle i h w" and ?beads = "completed_beads rd (wt_rec (stash_handle i h w)) [(i, True)]"
  have t': "rc_trackers (wt_rec ?w) i = Some t" using t by simp
  obtain su s2 where v: "verify_and_decide (wd_env rd) i True ?beads (signal_verifying i (tracked_repo (wt_rec ?w) i) (wt_rec ?w)) = ((Terminal, su), s2)"
    and s2: "spawned i s2 = spawned i (wt_rec ?w)"
    using smooth_decides [OF sm t' t(2), of ?beads, unfolded nx option.case] by blast
  obtain s3 where e: "execute_action (wd_env rd) i (tracked_repo (wt_rec ?w) i) Terminal FOk su s2 = (Completed, s3)"
    "spawned i s3 = spawned i s2"
    using execute_terminal_eq by blast
  have "wait_decide (wd_env rd) ?beads i True (wt_rec ?w) = (Completed, complete_dispatch_of i FOk Completed
      (defer_retry (wd_env rd) i (tracked_repo (wt_rec ?w) i) None Completed s3))"
    by (simp add: wait_decide_def Let_def smooth_classified [OF sm] v e)
  then show ?thesis using e s2 w by (simp add: smooth_poll [OF sm w] wait_one_def wait_record_def)
qed

lemma smooth_next_step:
  assumes sm: "smooth rd i" and w: "wt_active w = [(i, h)]"
    and t: "rc_trackers (wt_rec w) i = Some t" "tk_current_agent t = Some a"
    and nx: "next_agent (ev_pipeline (wd_env rd)) (tk_issue_type t) a = Some nx"
  shows "\<exists>w' h' t'. wait_step rd (o1, w) = (o1, w') \<and> wt_active w' = [(i, h')] \<and> ah_workspace h'
    \<and> spawned i (wt_rec w') = spawned i (wt_rec w) @ [nx]
    \<and> rc_trackers (wt_rec w') i = Some t' \<and> tk_issue_type t' = tk_issue_type t
    \<and> tk_current_agent t' = (if chain_broken rd i h w (tk_phase_index t) then Some a else Some nx)
    \<and> tk_phase_index t' = (if chain_broken rd i h w (tk_phase_index t) then tk_phase_index t else tk_phase_index t + 1)"
proof -
  let ?w = "stash_handle i h w" and ?beads = "completed_beads rd (wt_rec (stash_handle i h w)) [(i, True)]"
  let ?repo = "tracked_repo (wt_rec ?w) i"
  have t': "rc_trackers (wt_rec ?w) i = Some t" using t by simp
  obtain ph su s2 where v: "verify_and_decide (wd_env rd) i True ?beads (signal_verifying i ?repo (wt_rec ?w)) = ((Advance nx ph, su), s2)"
    and s2: "rc_trackers s2 = rc_trackers (wt_rec ?w)" "rc_workspaces s2 = rc_workspaces (wt_rec ?w)" "spawned i s2 = spawned i (wt_rec ?w)"
    using smooth_decides [OF sm t' t(2), of ?beads, unfolded nx option.case] by blast
  have t2: "rc_trackers s2 i = Some t" using s2(1) t' by simp
  have cb: "chain_broken rd i h w (tk_phase_index t) \<longleftrightarrow>
      i \<in> rc_workspaces s2 \<and> tk_phase_index t > 0 \<and> \<not> ev_previous_handoff (wd_env rd) i (tk_phase_index t - 1)"
    using s2(2) by (auto simp: chain_broken_def stash_handle_def)
  obtain s3 where e: "execute_action (wd_env rd) i ?repo (Advance nx ph) FOk su s2 = (Advanced nx, s3)"
    "spawned i s3 = spawned i s2"
    "rc_trackers s3 i = Some (if chain_broken rd i h w (tk_phase_index t) then t\<lparr> tk_consecutive_reverts := 0 \<rparr>
        else t\<lparr> tk_consecutive_reverts := 0, tk_current_agent := Some nx, tk_phase_index := tk_phase_index t + 1 \<rparr>)"
    using execute_advance_eq [OF t2] unfolding cb by blast
  let ?s4 = "complete_dispatch_of i FOk (Advanced nx) (defer_retry (wd_env rd) i ?repo None (Advanced nx) s3)"
  have wd: "wait_decide (wd_env rd) ?beads i True (wt_rec ?w) = (Advanced nx, ?s4)"
    by (simp add: wait_decide_def Let_def smooth_classified [OF sm] v e(1))
  have s4: "spawned i ?s4 = spawned i (wt_rec w)" "rc_trackers ?s4 i = rc_trackers s3 i"
    using e(2) s2(3) by (simp_all add: other_fields)
  obtain h' where h': "wd_spawn rd (redispatch_bead rd i ?repo (tk_issue_type t) nx)
      (case wd_repo_path rd ?repo of None \<Rightarrow> [] | Some p \<Rightarrow> p) = Inr h'" "ah_workspace h'"
    using sm unfolding smooth_def by blast
  have step: "wait_step rd (o1, w) = redispatch rd i ?repo (tk_issue_type t) nx (o1, ?w\<lparr> wt_rec := ?s4 \<rparr>)"
    using wd t by (simp add: smooth_poll [OF sm w] wait_one_def wait_record_def)
  show ?thesis unfolding step
    using h' s4 e(3) w t(2) by (auto simp: redispatch_def Let_def spawned_emit)
qed

section \<open>Whole pipelines\<close>

lemma next_agent_drop:
  assumes "distinct (agents_for e ty)" "p < length (agents_for e ty)"
  shows "next_agent e ty (agents_for e ty ! p) = (if Suc p < length (agents_for e ty) then Some (agents_for e ty ! Suc p) else None)"
  using assms next_agent_at [of "agents_for e ty ! p" e ty p] next_agent_last [of "agents_for e ty ! p" e ty p]
    position_distinct [OF assms] by (cases "Suc p = length (agents_for e ty)") auto

text \<open>
  C9. With \<open>--once\<close> and one active bead, when in every round of the wait the agent exits successfully
  without a notice of a limit, whatever verification runs passes, the next agent starts in a workspace
  and the handoffs can be read, and when the pipeline of the bead's type names no agent twice: then
  the bead runs through its whole pipeline within as many rounds as agents are left. The agents after
  the current one are started one after the other, each once and in order, and the pipeline is counted
  as passed.
\<close>

theorem once_mode_runs_the_pipeline:
  assumes sm: "\<forall>rd \<in> set rounds. smooth rd i \<and> ev_pipeline (wd_env rd) = e \<and> (\<forall>k. ev_previous_handoff (wd_env rd) i k)"
    and d: "distinct (agents_for e ty)"
    and w: "wt_active w = [(i, h)]" and t: "rc_trackers (wt_rec w) i = Some t" "tk_issue_type t = ty"
    and p: "p < length (agents_for e ty)" "tk_current_agent t = Some (agents_for e ty ! p)"
    and n: "length (agents_for e ty) \<le> p + length rounds"
  shows "\<exists>w'. wait_and_verify rounds (o1, w) = Some (o1\<lparr> wo_passed := wo_passed o1 + 1 \<rparr>, w') \<and> wt_active w' = []
    \<and> spawned i (wt_rec w') = spawned i (wt_rec w) @ drop (Suc p) (agents_for e ty)"
  using sm w t p n
proof (induction rounds arbitrary: w h t p)
  case Nil
  then show ?case by simp
next
  case (Cons rd rounds)
  let ?L = "agents_for e ty"
  have rd: "smooth rd i" "ev_pipeline (wd_env rd) = e" "\<forall>k. ev_previous_handoff (wd_env rd) i k" using Cons.prems(1) by auto
  note na = next_agent_drop [OF d Cons.prems(5)]
  have unroll: "wait_and_verify (rd # rounds) (o1, w) = wait_and_verify rounds (wait_step rd (o1, w))"
    using Cons.prems(2) by (simp add: wait_and_verify.simps [of "rd # rounds"])
  show ?case
  proof (cases "Suc p < length ?L")
    case False
    then obtain w' where "wait_step rd (o1, w) = (o1\<lparr> wo_passed := wo_passed o1 + 1 \<rparr>, w')" "wt_active w' = []"
      "spawned i (wt_rec w') = spawned i (wt_rec w)"
      using smooth_last_step [OF rd(1) Cons.prems(2,3,6)] na rd(2) Cons.prems(4) by auto
    then show ?thesis using False unroll by (simp add: wait_and_verify.simps)
  next
    case True
    then have nx: "next_agent (ev_pipeline (wd_env rd)) (tk_issue_type t) (?L ! p) = Some (?L ! Suc p)"
      using na rd(2) Cons.prems(4) by simp
    obtain w' h' t' where w': "wait_step rd (o1, w) = (o1, w')" "wt_active w' = [(i, h')]"
      "spawned i (wt_rec w') = spawned i (wt_rec w) @ [?L ! Suc p]"
      "rc_trackers (wt_rec w') i = Some t'" "tk_issue_type t' = ty" "tk_current_agent t' = Some (?L ! Suc p)"
      using smooth_next_step [OF rd(1) Cons.prems(2,3,6) nx, of o1] rd(3) Cons.prems(4) by (auto simp: chain_broken_def)
    have "length ?L \<le> Suc p + length rounds" using Cons.prems(7) by simp
    then obtain w2 where "wait_and_verify rounds (o1, w') = Some (o1\<lparr> wo_passed := wo_passed o1 + 1 \<rparr>, w2)"
      "wt_active w2 = []" "spawned i (wt_rec w2) = spawned i (wt_rec w') @ drop (Suc (Suc p)) ?L"
      using Cons.IH [OF _ w'(2,4,5) True w'(6)] Cons.prems(1) by auto
    then show ?thesis using w'(3) True unroll w'(1) by (simp add: Cons_nth_drop_Suc)
  qed
qed

text \<open>
  When the handoff before the current phase cannot be read, the phase of the tracker does not move
  on although the next agent is started: with \<open>--once\<close> the same agent is then started again in every
  round, and the wait does not end by itself.
\<close>

theorem broken_chain_respawns:
  assumes sm: "smooth rd i" and w: "wt_active w = [(i, h)]" "ah_workspace h"
    and t: "rc_trackers (wt_rec w) i = Some t" "tk_current_agent t = Some a" "tk_phase_index t = Suc p"
    and nx: "next_agent (ev_pipeline (wd_env rd)) (tk_issue_type t) a = Some nx"
    and b: "\<not> ev_previous_handoff (wd_env rd) i p"
  shows "(\<exists>w'. (wait_step rd ^^ n) (o1, w) = (o1, w') \<and> wt_active w' \<noteq> []
       \<and> spawned i (wt_rec w') = spawned i (wt_rec w) @ replicate n nx)
    \<and> wait_and_verify (replicate n rd) (o1, w) = None"
  using w t nx
proof (induction n arbitrary: w h t)
  case 0
  then show ?case by (simp add: wait_and_verify.simps)
next
  case (Suc n)
  obtain w' h' t' where w': "wait_step rd (o1, w) = (o1, w')" "wt_active w' = [(i, h')]" "ah_workspace h'"
    "spawned i (wt_rec w') = spawned i (wt_rec w) @ [nx]"
    "rc_trackers (wt_rec w') i = Some t'" "tk_issue_type t' = tk_issue_type t" "tk_current_agent t' = Some a"
    "tk_phase_index t' = Suc p"
    using smooth_next_step [OF sm Suc.prems(1,3,4,6), of o1] Suc.prems(2,5) b by (auto simp: chain_broken_def)
  have IH: "(\<exists>w2. (wait_step rd ^^ n) (o1, w') = (o1, w2) \<and> wt_active w2 \<noteq> []
       \<and> spawned i (wt_rec w2) = spawned i (wt_rec w') @ replicate n nx)
    \<and> wait_and_verify (replicate n rd) (o1, w') = None"
    using Suc.IH [OF w'(2,3,5,7,8)] Suc.prems(6) w'(6) by simp
  have "wait_and_verify (replicate (Suc n) rd) (o1, w) = wait_and_verify (replicate n rd) (o1, w')"
    using Suc.prems(1) w'(1) by (simp add: wait_and_verify.simps [of "rd # replicate n rd"])
  then show ?case using IH w'(1,4) by (auto simp: funpow_Suc_right simp del: funpow.simps)
qed

lemma small_smooth:
  "smooth (small_round ((sample_env b tiers)\<lparr> ev_pipeline := p \<rparr>)) i
     \<longleftrightarrow> (case verifier_run tiers of Inl _ \<Rightarrow> True | Inr v \<Rightarrow> summary_passed v)"
  "smooth (small_round (sample_env b tiers)) i
     \<longleftrightarrow> (case verifier_run tiers of Inl _ \<Rightarrow> True | Inr v \<Rightarrow> summary_passed v)"
  by (simp_all add: smooth_def small_round_def sample_env_def no_limit_notice small_handle_def)

lemma small_verified: "case verifier_run [(''commit'', Inr VrPass)] of Inl _ \<Rightarrow> True | Inr v \<Rightarrow> summary_passed v"
  by (simp add: verifier_run_def is_pass_def summary_passed_def)

theorem once_mode_runs_the_pipeline_witness:
  "\<exists>w'. wait_and_verify (replicate 2 (small_round (sample_env True [(''commit'', Inr VrPass)]))) (no_outcome, small_wait ''dev-agent'' 0)
      = Some (no_outcome\<lparr> wo_passed := 1 \<rparr>, w') \<and> spawned ''b'' (wt_rec w') = [''staging-agent'']"
proof -
  let ?rd = "small_round (sample_env True [(''commit'', Inr VrPass)])" and ?e = "ev_pipeline (sample_env True [])"
  have L: "agents_for ?e ''task'' = [''dev-agent'', ''staging-agent'']" by (simp add: sample_env_def agents_for_def)
  have "\<forall>rd \<in> set (replicate 2 ?rd). smooth rd ''b'' \<and> ev_pipeline (wd_env rd) = ?e \<and> (\<forall>k. ev_previous_handoff (wd_env rd) ''b'' k)"
    using small_verified by (simp add: small_smooth) (simp add: small_round_def sample_env_def)
  moreover have "wt_active (small_wait ''dev-agent'' 0) = [(''b'', small_handle)]"
    "rc_trackers (wt_rec (small_wait ''dev-agent'' 0)) ''b'' = Some (sample_tracker ''dev-agent'' 0)"
    "tk_issue_type (sample_tracker ''dev-agent'' 0) = ''task''"
    "tk_current_agent (sample_tracker ''dev-agent'' 0) = Some ''dev-agent''"
    "spawned ''b'' (wt_rec (small_wait ''dev-agent'' 0)) = []" "wo_passed no_outcome = 0"
    by (simp_all add: small_wait_def sample_reconciler_def sample_tracker_def spawned_def List.map_filter_def no_outcome_def)
  ultimately show ?thesis
    using once_mode_runs_the_pipeline [of "replicate 2 ?rd" "''b''" ?e "''task''" "small_wait ''dev-agent'' 0" small_handle
        "sample_tracker ''dev-agent'' 0" 0 no_outcome] L by auto
qed

theorem broken_chain_respawns_witness:
  "\<exists>w'. (wait_step (small_round three_phase_env) ^^ 5) (no_outcome, small_wait ''prod-agent'' 1) = (no_outcome, w')
     \<and> spawned ''b'' (wt_rec w') = replicate 5 ''staging-agent''"
proof -
  have env: "three_phase_env = (sample_env True [(''commit'', Inr VrPass)])\<lparr>
     ev_pipeline := \<lparr> pe_definitions = [''task'' \<mapsto> [''dev-agent'', ''prod-agent'', ''staging-agent'']], pe_max_depth = 0 \<rparr>,
     ev_previous_handoff := (\<lambda>_ _. False) \<rparr>" by (rule three_phase_env_def)
  have sm: "smooth (small_round three_phase_env) ''b''"
    using small_verified by (simp add: env smooth_def small_round_def sample_env_def no_limit_notice small_handle_def)
  have "next_agent (ev_pipeline (wd_env (small_round three_phase_env))) (tk_issue_type (sample_tracker ''prod-agent'' 1)) ''prod-agent''
      = Some ''staging-agent''"
    by (simp add: small_round_def env sample_tracker_def next_agent_def agents_for_def)
  moreover have "\<not> ev_previous_handoff (wd_env (small_round three_phase_env)) ''b'' 0" by (simp add: small_round_def env)
  ultimately show ?thesis
    using broken_chain_respawns [THEN conjunct1, OF sm, of "small_wait ''prod-agent'' 1" small_handle "sample_tracker ''prod-agent'' 1"
        "''prod-agent''" 0 "''staging-agent''" 5 no_outcome]
    by (simp add: small_wait_def small_handle_def sample_reconciler_def sample_tracker_def spawned_def List.map_filter_def) blast
qed

end
