(* ===== verification/Observation_Lattice.thy ===== *)
theory Observation_Lattice
  imports Store_Types
begin

text \<open>
  The observation lattice (\<open>src/observation/\<close>): what peer sources report about work items, the log
  that deduplicates it (\<open>log.rs\<close>), the algebra of each field (\<open>algebra_chain.rs\<close>, \<open>algebra_lww.rs\<close>,
  \<open>algebra_orset.rs\<close>), their registry (\<open>registry.rs\<close>), the flat lattice of statuses
  (\<open>algebra_flat.rs\<close>) and the fold of a log into the derived view (\<open>fold.rs\<close>).

  BLAKE3, the JSON printer of serde and the RFC 3339 printer are parameters. Maps and sets that the
  code iterates are ordered, as \<open>BTreeMap\<close> and \<open>BTreeSet\<close> are.
\<close>

section \<open>Observations\<close>

type_synonym source = string

text \<open>\<open>collapse_ws was s\<close> has already written an underscore for a running blank when \<open>was\<close>.\<close>

fun collapse_ws :: "bool \<Rightarrow> string \<Rightarrow> string" where
  "collapse_ws was [] = []"
| "collapse_ws was (c # s) =
     (if is_whitespace c then (if was then collapse_ws True s else CHR ''_'' # collapse_ws True s)
      else c # collapse_ws False s)"

definition canonicalize_source :: "string \<Rightarrow> source" where
  "canonicalize_source raw =
     (let trimmed = trim raw
      in if trimmed = [] then [] else collapse_ws False (to_lowercase trimmed))"

datatype field_name =
    PipelineVerdict | Assignee | PrUrl | MergeSha | Deadline | Ahead | Behind | CommentField
  | Label | Status | OtherField string

fun field_key :: "field_name \<Rightarrow> nat \<times> string" where
  "field_key PipelineVerdict = (0, [])"
| "field_key Assignee = (1, [])"
| "field_key PrUrl = (2, [])"
| "field_key MergeSha = (3, [])"
| "field_key Deadline = (4, [])"
| "field_key Ahead = (5, [])"
| "field_key Behind = (6, [])"
| "field_key CommentField = (7, [])"
| "field_key Label = (8, [])"
| "field_key Status = (9, [])"
| "field_key (OtherField s) = (10, s)"

lemma field_key_inj: "field_key a = field_key b \<longleftrightarrow> a = b"
  by (cases a; cases b) auto

instantiation field_name :: linorder
begin

definition less_eq_field_name :: "field_name \<Rightarrow> field_name \<Rightarrow> bool" where
  "less_eq_field_name a b \<longleftrightarrow> field_key a \<le> field_key b"

definition less_field_name :: "field_name \<Rightarrow> field_name \<Rightarrow> bool" where
  "less_field_name a b \<longleftrightarrow> field_key a < field_key b"

instance
proof
  fix x y z :: field_name
  show "(x < y) = (x \<le> y \<and> \<not> y \<le> x)"
    by (simp only: less_eq_field_name_def less_field_name_def less_le_not_le)
  show "x \<le> x" by (simp add: less_eq_field_name_def)
  show "x \<le> y \<Longrightarrow> y \<le> z \<Longrightarrow> x \<le> z" unfolding less_eq_field_name_def by (rule order_trans)
  show "x \<le> y \<Longrightarrow> y \<le> x \<Longrightarrow> x = y"
    unfolding less_eq_field_name_def by (metis antisym field_key_inj)
  show "x \<le> y \<or> y \<le> x" unfolding less_eq_field_name_def by (rule linear)
qed

end

datatype field_value =
    FvString string
  | FvOptString "string option"
  | FvInt64 int
  | FvTimestamp int
  | FvVerdict verdict
  | FvJson json

fun expected_bead_status :: "verdict \<Rightarrow> string" where
  "expected_bead_status VDispatched = ''dispatched''"
| "expected_bead_status VVerifying = ''verifying''"
| "expected_bead_status VPass = ''verifying''"
| "expected_bead_status VPrOpen = ''pr_open''"
| "expected_bead_status VDone = ''done''"
| "expected_bead_status VFail = ''open''"
| "expected_bead_status VDeadletter = ''blocked''"

record signet_cert =
  sc_key_id :: string
  sc_signature :: string

record observation =
  ob_work_item :: work_ref
  ob_source :: source
  ob_source_event_id :: string
  ob_field :: field_name
  ob_value :: field_value
  ob_observed_at :: int
  ob_cert :: "signet_cert option"
  ob_payload_hash :: string

type_synonym dedup_key = "string \<times> string \<times> string"

definition dedup_key :: "observation \<Rightarrow> dedup_key" where
  "dedup_key o1 = (ob_source o1, ob_source_event_id o1, ob_payload_hash o1)"

text \<open>The hash is over the version, the source, the field and the value, separated by U+001F.\<close>

definition compute_payload_hash :: "(string \<Rightarrow> string) \<Rightarrow> (field_name \<Rightarrow> string)
    \<Rightarrow> (field_value \<Rightarrow> string) \<Rightarrow> source \<Rightarrow> field_name \<Rightarrow> field_value \<Rightarrow> string" where
  "compute_payload_hash content_hash field_json value_json src field val =
     content_hash (''ph1'' @ CHR 0x1F # src @ CHR 0x1F # field_json field
                   @ CHR 0x1F # value_json val)"

definition pipeline_verdict :: "(source \<Rightarrow> field_name \<Rightarrow> field_value \<Rightarrow> string) \<Rightarrow> work_ref \<Rightarrow> source
    \<Rightarrow> string \<Rightarrow> verdict \<Rightarrow> int \<Rightarrow> observation" where
  "pipeline_verdict payload_hash work src event_id v observed_at =
     \<lparr> ob_work_item = work, ob_source = src, ob_source_event_id = event_id,
       ob_field = PipelineVerdict, ob_value = FvVerdict v, ob_observed_at = observed_at, ob_cert = None,
       ob_payload_hash = payload_hash src PipelineVerdict (FvVerdict v) \<rparr>"

section \<open>The log\<close>

type_synonym observation_log = "(dedup_key \<times> observation) list"

definition log_insert :: "observation \<Rightarrow> observation_log \<Rightarrow> bool \<times> observation_log" where
  "log_insert o1 l =
     (let key = dedup_key o1
      in case map_of l key of
           Some _ \<Rightarrow> (False, l)
         | None \<Rightarrow> (True, bt_insert key o1 l))"

definition log_iter :: "observation_log \<Rightarrow> observation list" where
  "log_iter l = map snd l"

definition log_for_field :: "observation_log \<Rightarrow> work_ref \<Rightarrow> field_name \<Rightarrow> observation list" where
  "log_for_field l work field =
     filter (\<lambda>o1. ob_work_item o1 = work \<and> ob_field o1 = field) (log_iter l)"

definition log_for_work_item :: "observation_log \<Rightarrow> work_ref \<Rightarrow> observation list" where
  "log_for_work_item l work = filter (\<lambda>o1. ob_work_item o1 = work) (log_iter l)"

text \<open>A log that received the observations of a list, oldest first.\<close>

definition log_of :: "observation list \<Rightarrow> observation_log" where
  "log_of obs = foldl (\<lambda>l o1. snd (log_insert o1 l)) [] obs"

section \<open>The algebras of the fields\<close>

datatype algebra_error =
    ChainMismatch source string field_value
  | LwwMismatch field_name field_value
  | OrSetMismatch field_name field_value

type_synonym 'a result = "algebra_error + 'a"

fun chain_scan :: "(verdict \<times> nat) option \<Rightarrow> observation list \<Rightarrow> field_value result" where
  "chain_scan best [] = Inr (FvVerdict (case best of None \<Rightarrow> VDispatched | Some (v, _) \<Rightarrow> v))"
| "chain_scan best (o1 # obs) =
     (case ob_value o1 of
        FvVerdict v \<Rightarrow>
          (case lattice_rank v of
             None \<Rightarrow> chain_scan best obs
           | Some r \<Rightarrow>
               (case best of
                  Some (_, br) \<Rightarrow>
                    if r \<le> br then chain_scan best obs else chain_scan (Some (v, r)) obs
                | None \<Rightarrow> chain_scan (Some (v, r)) obs))
      | other \<Rightarrow> Inl (ChainMismatch (ob_source o1) (ob_source_event_id o1) other))"

definition chain_fold :: "observation list \<Rightarrow> field_value result" where
  "chain_fold obs = chain_scan None obs"

definition nullable_fields :: "field_name list" where
  "nullable_fields = [Assignee, PrUrl, MergeSha, CommentField, Label, Status]"

fun lww_empty :: "field_name \<Rightarrow> field_value" where
  "lww_empty Assignee = FvOptString None"
| "lww_empty PrUrl = FvOptString None"
| "lww_empty MergeSha = FvOptString None"
| "lww_empty CommentField = FvOptString None"
| "lww_empty Label = FvOptString None"
| "lww_empty Status = FvOptString None"
| "lww_empty Ahead = FvInt64 0"
| "lww_empty Behind = FvInt64 0"
| "lww_empty Deadline = FvTimestamp 0"
| "lww_empty PipelineVerdict = FvVerdict VDispatched"
| "lww_empty (OtherField _) = FvOptString None"

definition lww_type_ok :: "field_name \<Rightarrow> field_value \<Rightarrow> bool" where
  "lww_type_ok field v =
     (if List.member nullable_fields field then
        (case v of FvOptString _ \<Rightarrow> True | FvString _ \<Rightarrow> True | _ \<Rightarrow> False)
      else if field = Ahead \<or> field = Behind then (case v of FvInt64 _ \<Rightarrow> True | _ \<Rightarrow> False)
      else if field = Deadline then (case v of FvTimestamp _ \<Rightarrow> True | _ \<Rightarrow> False)
      else if field = PipelineVerdict then (case v of FvVerdict _ \<Rightarrow> True | _ \<Rightarrow> False)
      else True)"

definition lww_normalize :: "field_name \<Rightarrow> field_value \<Rightarrow> field_value" where
  "lww_normalize field v =
     (case v of
        FvString s \<Rightarrow> if List.member nullable_fields field then FvOptString (Some s) else v
      | _ \<Rightarrow> v)"

definition lww_key :: "observation \<Rightarrow> int \<times> string \<times> string" where
  "lww_key o1 = (ob_observed_at o1, ob_source o1, ob_payload_hash o1)"

fun lww_scan :: "field_name \<Rightarrow> observation option \<Rightarrow> observation list \<Rightarrow> field_value result" where
  "lww_scan field winner [] =
     Inr (case winner of None \<Rightarrow> lww_empty field | Some w \<Rightarrow> lww_normalize field (ob_value w))"
| "lww_scan field winner (o1 # obs) =
     (if \<not> lww_type_ok field (ob_value o1) then Inl (LwwMismatch field (ob_value o1))
      else lww_scan field
        (case winner of
           None \<Rightarrow> Some o1
         | Some w \<Rightarrow> if lww_key o1 > lww_key w then Some o1 else Some w) obs)"

definition lww_fold :: "field_name \<Rightarrow> observation list \<Rightarrow> field_value result" where
  "lww_fold field obs = lww_scan field None obs"

definition extract_text :: "field_name \<Rightarrow> field_value \<Rightarrow> string result" where
  "extract_text field v =
     (case v of
        FvString s \<Rightarrow> Inr s
      | FvOptString (Some s) \<Rightarrow> Inr s
      | other \<Rightarrow> Inl (OrSetMismatch field other))"

text \<open>Traversal of a list, stopping at the first error.\<close>

fun map_result :: "('a \<Rightarrow> 'e + 'b) \<Rightarrow> 'a list \<Rightarrow> 'e + 'b list" where
  "map_result f [] = Inr []"
| "map_result f (x # xs) =
     (case f x of
        Inl e \<Rightarrow> Inl e
      | Inr y \<Rightarrow> (case map_result f xs of Inl e \<Rightarrow> Inl e | Inr ys \<Rightarrow> Inr (y # ys)))"

definition orset_entry :: "(int \<Rightarrow> string) \<Rightarrow> field_name \<Rightarrow> observation \<Rightarrow> json result" where
  "orset_entry to_rfc3339 field o1 =
     (case extract_text field (ob_value o1) of
        Inl e \<Rightarrow> Inl e
      | Inr text \<Rightarrow> Inr (JObj [(''observed_at'', JStr (to_rfc3339 (ob_observed_at o1))),
                              (''source'', JStr (ob_source o1)),
                              (''source_event_id'', JStr (ob_source_event_id o1)),
                              (''value'', JStr text)]))"

definition entry_str :: "json \<Rightarrow> string \<Rightarrow> string" where
  "entry_str e k = (case json_get e k of Some (JStr s) \<Rightarrow> s | _ \<Rightarrow> [])"

definition entry_key :: "json \<Rightarrow> string \<times> string" where
  "entry_key e = (entry_str e ''source'', entry_str e ''source_event_id'')"

definition orset_fold :: "(int \<Rightarrow> string) \<Rightarrow> field_name \<Rightarrow> observation list \<Rightarrow> field_value result" where
  "orset_fold to_rfc3339 field obs =
     (case map_result (orset_entry to_rfc3339 field) obs of
        Inl e \<Rightarrow> Inl e
      | Inr entries \<Rightarrow> Inr (FvJson (JArr (sort_key entry_key entries))))"

section \<open>The registry\<close>

datatype algebra = ChainMax | LwwRegister field_name | OrSet field_name

fun registry_get :: "field_name \<Rightarrow> algebra option" where
  "registry_get PipelineVerdict = Some ChainMax"
| "registry_get Assignee = Some (LwwRegister Assignee)"
| "registry_get PrUrl = Some (LwwRegister PrUrl)"
| "registry_get MergeSha = Some (LwwRegister MergeSha)"
| "registry_get Deadline = Some (LwwRegister Deadline)"
| "registry_get Ahead = Some (LwwRegister Ahead)"
| "registry_get Behind = Some (LwwRegister Behind)"
| "registry_get CommentField = Some (OrSet CommentField)"
| "registry_get Label = Some (OrSet Label)"
| "registry_get Status = None"
| "registry_get (OtherField _) = None"

fun algebra_fold :: "(int \<Rightarrow> string) \<Rightarrow> algebra \<Rightarrow> observation list \<Rightarrow> field_value result" where
  "algebra_fold to_rfc3339 ChainMax obs = chain_fold obs"
| "algebra_fold to_rfc3339 (LwwRegister f) obs = lww_fold f obs"
| "algebra_fold to_rfc3339 (OrSet f) obs = orset_fold to_rfc3339 f obs"

section \<open>The flat lattice of statuses\<close>

datatype 'a flat_lattice = FEmpty | FSingle 'a | FTop "('a \<times> source) list"

definition is_conflict :: "'a flat_lattice \<Rightarrow> bool" where
  "is_conflict x = (case x of FTop _ \<Rightarrow> True | _ \<Rightarrow> False)"

definition join_per_source :: "('a::linorder \<times> source) list \<Rightarrow> 'a flat_lattice" where
  "join_per_source ps =
     (case remdups_adj (sort ps) of
        [] \<Rightarrow> FEmpty
      | p # rest \<Rightarrow>
          if list_all (\<lambda>q. fst q = fst p) (p # rest) then FSingle (fst p) else FTop (p # rest))"

section \<open>The fold of a log\<close>

text \<open>A \<open>BTreeSet\<close> of the elements of a list, in iteration order.\<close>

definition btree_set :: "'a::linorder list \<Rightarrow> 'a list" where
  "btree_set xs = sort (remdups xs)"

record derived_view =
  dv_work_item :: work_ref
  dv_per_source :: "(field_name \<times> (source \<times> field_value) list) list"
  dv_status :: "string flat_lattice"

definition fold_field :: "(int \<Rightarrow> string) \<Rightarrow> algebra \<Rightarrow> observation list
    \<Rightarrow> (source \<times> field_value) list result" where
  "fold_field to_rfc3339 alg obs =
     map_result (\<lambda>src.
         case algebra_fold to_rfc3339 alg (filter (\<lambda>o1. ob_source o1 = src) obs) of
           Inl e \<Rightarrow> Inl e
         | Inr v \<Rightarrow> Inr (src, v))
       (btree_set (map ob_source obs))"

definition registered_fields :: "observation list \<Rightarrow> (field_name \<times> algebra) list" where
  "registered_fields obs =
     List.map_filter (\<lambda>f. map_option (Pair f) (registry_get f)) (btree_set (map ob_field obs))"

definition status_text :: "field_value \<Rightarrow> string option" where
  "status_text v = (case v of FvString s \<Rightarrow> Some s | FvOptString (Some s) \<Rightarrow> Some s | _ \<Rightarrow> None)"

definition status_step :: "(source \<times> int \<times> string \<times> string) list \<Rightarrow> observation
    \<Rightarrow> (source \<times> int \<times> string \<times> string) list" where
  "status_step m o1 =
     (case status_text (ob_value o1) of
        None \<Rightarrow> m
      | Some new_val \<Rightarrow>
          (case map_of m (ob_source o1) of
             None \<Rightarrow> bt_insert (ob_source o1) (ob_observed_at o1, ob_payload_hash o1, new_val) m
           | Some (ts, ph, val) \<Rightarrow>
               if (ob_observed_at o1, ob_payload_hash o1) > (ts, ph)
               then bt_insert (ob_source o1) (ob_observed_at o1, ob_payload_hash o1, new_val) m
               else m))"

definition status_of :: "observation list \<Rightarrow> string flat_lattice" where
  "status_of obs =
     join_per_source (map (\<lambda>(src, _, _, val). (val, src))
       (foldl status_step [] (filter (\<lambda>o1. ob_field o1 = Status) obs)))"

definition fold_work :: "(int \<Rightarrow> string) \<Rightarrow> work_ref \<Rightarrow> observation list \<Rightarrow> derived_view result" where
  "fold_work to_rfc3339 work obs =
     (case map_result (\<lambda>(f, alg).
             case fold_field to_rfc3339 alg (filter (\<lambda>o1. ob_field o1 = f) obs) of
               Inl e \<Rightarrow> Inl e
             | Inr m \<Rightarrow> Inr (f, m)) (registered_fields obs) of
        Inl e \<Rightarrow> Inl e
      | Inr per_source \<Rightarrow>
          Inr \<lparr> dv_work_item = work, dv_per_source = per_source, dv_status = status_of obs \<rparr>)"

definition fold_log :: "(int \<Rightarrow> string) \<Rightarrow> observation_log \<Rightarrow> (work_ref \<times> derived_view) list result" where
  "fold_log to_rfc3339 l =
     map_result (\<lambda>work.
         case fold_work to_rfc3339 work (log_for_work_item l work) of
           Inl e \<Rightarrow> Inl e
         | Inr v \<Rightarrow> Inr (work, v))
       (btree_set (map ob_work_item (log_iter l)))"

section \<open>The log is a set keyed by the dedup key\<close>

lemma log_insert_absent:
  "snd (log_insert o1 l) = ins_absent map_of bt_insert l (dedup_key o1, o1)"
  by (simp add: log_insert_def ins_absent_def Let_def split: option.splits)

definition keyed :: "observation list \<Rightarrow> (dedup_key \<times> observation) list" where
  "keyed obs = map (\<lambda>o1. (dedup_key o1, o1)) obs"

lemma log_of_keyed: "log_of obs = foldl (ins_absent map_of bt_insert) [] (keyed obs)"
  unfolding log_of_def keyed_def
  by (simp add: log_insert_absent foldl_map)

lemma log_of_ok: "bt_ok (log_of obs)"
  by (simp add: log_of_keyed btm.fold_ok)

lemma log_of_get: "map_of (log_of obs) = map_of (keyed obs)"
  unfolding log_of_keyed by (rule ext) (rule btm.log_get)

lemma log_of_append: "log_of (xs @ ys) = foldl (\<lambda>l o1. snd (log_insert o1 l)) (log_of xs) ys"
  by (simp add: log_of_def)

lemma keyed_set: "set (keyed xs) = set (keyed ys) \<longleftrightarrow> set xs = set ys"
proof -
  have "set (keyed zs) = (\<lambda>o1. (dedup_key o1, o1)) ` set zs" for zs by (simp add: keyed_def)
  moreover have "inj (\<lambda>o1. (dedup_key o1, o1))" by (simp add: inj_on_def)
  ultimately show ?thesis by (simp add: inj_image_eq_iff)
qed

lemma log_of_set_cong:
  assumes "consistent (keyed xs)" "set xs = set ys"
  shows "log_of xs = log_of ys"
  unfolding log_of_keyed
  using assms consistent_same_map [of "keyed xs" "keyed ys"] by (intro btm.log_eqI) (simp add: keyed_set)

lemma log_iter_set:
  assumes "consistent (keyed obs)"
  shows "set (log_iter (log_of obs)) = set obs"
proof -
  have "distinct (map fst (log_of obs))" using log_of_ok bt_ok_distinct by blast
  then have "set (log_of obs) = {(k, v). map_of (log_of obs) k = Some v}"
    by (auto simp: map_of_eq_Some_iff)
  also have "\<dots> = set (keyed obs)"
    using consistent_map_of [OF assms] by (auto simp: log_of_get)
  finally show ?thesis by (force simp: log_iter_def keyed_def)
qed

section \<open>Traversals\<close>

lemma map_result_Inl: "(\<exists>e. map_result f xs = Inl e) \<longleftrightarrow> (\<exists>x \<in> set xs. \<exists>e. f x = Inl e)"
  by (induction xs) (auto split: sum.splits)

lemma map_result_Inr: "map_result f xs = Inr ys \<longleftrightarrow> list_all2 (\<lambda>x y. f x = Inr y) xs ys"
proof (induction xs arbitrary: ys)
  case Nil
  then show ?case by auto
next
  case (Cons x xs)
  show ?case
  proof (cases "f x")
    case (Inl e)
    then show ?thesis by (auto simp: list_all2_Cons1)
  next
    case (Inr y)
    show ?thesis
    proof (cases "map_result f xs")
      case Inl
      then show ?thesis using Cons.IH Inr by (auto simp: list_all2_Cons1)
    next
      case (Inr zs)
      then have "list_all2 (\<lambda>x y. f x = Inr y) xs ws \<longleftrightarrow> ws = zs" for ws using Cons.IH [of ws] by auto
      then show ?thesis using Inr \<open>f x = Inr y\<close> by (auto simp: list_all2_Cons1)
    qed
  qed
qed

lemma map_result_total:
  "(\<And>x. x \<in> set xs \<Longrightarrow> f x = Inr (g x)) \<Longrightarrow> map_result f xs = Inr (map g xs)"
  by (induction xs) auto

lemma btree_set_props [simp]:
  "set (btree_set xs) = set xs" "sorted (btree_set xs)" "distinct (btree_set xs)"
  by (simp_all add: btree_set_def)

section \<open>What the algebras promise\<close>

text \<open>
  The contract of the trait \<open>FieldAlgebra\<close>: an error exactly when some observation has a value of
  the wrong type, and otherwise a result that does not depend on the order of the observations, as
  far as they are compatible with each other.
\<close>

locale field_algebra =
  fixes fld :: "observation list \<Rightarrow> field_value result"
    and accepts :: "observation \<Rightarrow> bool"
    and compat :: "observation list \<Rightarrow> bool"
  assumes err_iff: "(\<exists>e. fld xs = Inl e) \<longleftrightarrow> \<not> list_all accepts xs"
    and reorder: "compat xs \<Longrightarrow> list_all accepts xs \<Longrightarrow> mset xs = mset ys \<Longrightarrow> fld xs = fld ys"
begin

lemma total: "list_all accepts xs \<Longrightarrow> \<exists>v. fld xs = Inr v"
  using err_iff [of xs] by (metis sum.exhaust)

lemma reorder_outcome:
  assumes "compat xs" "mset xs = mset ys"
  shows "fld xs = fld ys \<or> (\<exists>e e'. fld xs = Inl e \<and> fld ys = Inl e')"
proof (cases "list_all accepts xs")
  case True
  then show ?thesis using reorder assms by blast
next
  case False
  then have "\<not> list_all accepts ys" using mset_eq_setD [OF assms(2)] by (simp add: list_all_iff)
  then show ?thesis using False err_iff by metis
qed

end

subsection \<open>Chain maximum\<close>

definition is_verdict :: "observation \<Rightarrow> bool" where
  "is_verdict o1 \<longleftrightarrow> (\<exists>v. ob_value o1 = FvVerdict v)"

definition verdict_of :: "observation \<Rightarrow> verdict" where
  "verdict_of o1 = (case ob_value o1 of FvVerdict v \<Rightarrow> v | _ \<Rightarrow> VDispatched)"

lemma chain_scan_err: "(\<exists>e. chain_scan best obs = Inl e) \<longleftrightarrow> \<not> list_all is_verdict obs"
proof (induction obs arbitrary: best)
  case Nil
  then show ?case by simp
next
  case (Cons o1 obs)
  then show ?case
    by (cases "ob_value o1") (auto simp: is_verdict_def split: option.splits)
qed

definition chain_best :: "verdict set \<Rightarrow> verdict option \<Rightarrow> bool" where
  "chain_best V b \<longleftrightarrow>
     (case b of
        None \<Rightarrow> \<forall>v \<in> V. lattice_rank v = None
      | Some m \<Rightarrow> m \<in> V \<and> (\<exists>r. lattice_rank m = Some r \<and> (\<forall>v \<in> V. \<forall>s. lattice_rank v = Some s \<longrightarrow> s \<le> r)))"

lemma chain_scan_best:
  assumes "list_all is_verdict obs"
    and "chain_best V (map_option fst best)" "\<And>v r. best = Some (v, r) \<Longrightarrow> lattice_rank v = Some r"
  shows "\<exists>b. chain_best (V \<union> verdict_of ` set obs) b \<and>
    chain_scan best obs = Inr (FvVerdict (case b of None \<Rightarrow> VDispatched | Some v \<Rightarrow> v))"
  using assms
proof (induction obs arbitrary: V best)
  case Nil
  then show ?case by (intro exI [of _ "map_option fst best"]) (auto split: option.splits)
next
  case (Cons o1 obs)
  obtain v where v: "ob_value o1 = FvVerdict v" "verdict_of o1 = v"
    using Cons.prems(1) by (auto simp: is_verdict_def verdict_of_def)
  have all: "list_all is_verdict obs" using Cons.prems(1) by simp
  have un: "V \<union> verdict_of ` set (o1 # obs) = insert v V \<union> verdict_of ` set obs" using v by simp
  consider (keep) "chain_best (insert v V) (map_option fst best)"
      "chain_scan best (o1 # obs) = chain_scan best obs"
    | (new) r where "lattice_rank v = Some r" "chain_best (insert v V) (Some v)"
        "chain_scan best (o1 # obs) = chain_scan (Some (v, r)) obs"
  proof (cases "lattice_rank v")
    case None
    then have "chain_best (insert v V) (map_option fst best)"
      using Cons.prems(2) by (auto simp: chain_best_def split: option.splits)
    then show ?thesis using keep None v by simp
  next
    case (Some r)
    show ?thesis
    proof (cases best)
      case None
      then have "chain_best (insert v V) (Some v)"
        using Cons.prems(2) Some by (auto simp: chain_best_def)
      then show ?thesis using new Some None v by simp
    next
      case (Some b)
      obtain w br where b: "b = (w, br)" by force
      then have rw: "lattice_rank w = Some br" using Cons.prems(3) Some by simp
      show ?thesis
      proof (cases "r \<le> br")
        case True
        then have "chain_best (insert v V) (map_option fst best)"
          using Cons.prems(2) Some b rw \<open>lattice_rank v = Some r\<close> by (auto simp: chain_best_def)
        then show ?thesis using keep Some b v True \<open>lattice_rank v = Some r\<close> by simp
      next
        case False
        then have "chain_best (insert v V) (Some v)"
          using Cons.prems(2) Some b rw \<open>lattice_rank v = Some r\<close>
          by (fastforce simp: chain_best_def)
        then show ?thesis using new Some b v False \<open>lattice_rank v = Some r\<close> by simp
      qed
    qed
  qed
  then show ?case
  proof cases
    case keep
    have "\<exists>b. chain_best (insert v V \<union> verdict_of ` set obs) b \<and>
        chain_scan best obs = Inr (FvVerdict (case b of None \<Rightarrow> VDispatched | Some v \<Rightarrow> v))"
      using all keep(1) Cons.prems(3) by (rule Cons.IH)
    then show ?thesis using keep(2) un by simp
  next
    case (new r)
    have "\<exists>b. chain_best (insert v V \<union> verdict_of ` set obs) b \<and>
        chain_scan (Some (v, r)) obs = Inr (FvVerdict (case b of None \<Rightarrow> VDispatched | Some v \<Rightarrow> v))"
      using all new(2,1) by (intro Cons.IH) auto
    then show ?thesis using new(3) un by simp
  qed
qed

lemma chain_best_unique: "chain_best V a \<Longrightarrow> chain_best V b \<Longrightarrow> a = b"
proof -
  assume a: "chain_best V a" and b: "chain_best V b"
  show "a = b"
  proof (cases a; cases b)
    fix v w assume "a = Some v" "b = Some w"
    then show "a = b" using a b by (auto simp: chain_best_def) (metis lattice_rank_inj antisym)
  qed (use a b in \<open>auto simp: chain_best_def\<close>)
qed

lemma chain_fold_best:
  "list_all is_verdict obs \<Longrightarrow> \<exists>b. chain_best (verdict_of ` set obs) b \<and>
    chain_fold obs = Inr (FvVerdict (case b of None \<Rightarrow> VDispatched | Some v \<Rightarrow> v))"
  using chain_scan_best [of obs "{}" None] by (simp add: chain_best_def chain_fold_def)

lemma chain_fold_set:
  assumes "list_all is_verdict xs" "verdict_of ` set xs = verdict_of ` set ys" "list_all is_verdict ys"
  shows "chain_fold xs = chain_fold ys"
  using chain_fold_best [OF assms(1)] chain_fold_best [OF assms(3)] assms(2) chain_best_unique by metis

interpretation chain: field_algebra chain_fold is_verdict "\<lambda>_. True"
proof
  fix xs ys :: "observation list"
  show "(\<exists>e. chain_fold xs = Inl e) \<longleftrightarrow> \<not> list_all is_verdict xs"
    by (simp add: chain_fold_def chain_scan_err)
  show "chain_fold xs = chain_fold ys" if "list_all is_verdict xs" "mset xs = mset ys"
    using that mset_eq_setD [OF that(2)] by (intro chain_fold_set) (simp_all add: list_all_iff)
qed

subsection \<open>Last write wins\<close>

definition lww_accepts :: "field_name \<Rightarrow> observation \<Rightarrow> bool" where
  "lww_accepts f o1 \<longleftrightarrow> lww_type_ok f (ob_value o1)"

definition lww_pick :: "observation option \<Rightarrow> observation \<Rightarrow> observation option" where
  "lww_pick winner o1 =
     (case winner of None \<Rightarrow> Some o1 | Some w \<Rightarrow> if lww_key o1 > lww_key w then Some o1 else Some w)"

lemma lww_scan_err: "(\<exists>e. lww_scan f w obs = Inl e) \<longleftrightarrow> \<not> list_all (lww_accepts f) obs"
  by (induction obs arbitrary: w) (auto simp: lww_accepts_def)

lemma lww_scan_ok:
  "list_all (lww_accepts f) obs \<Longrightarrow> lww_scan f w obs =
     Inr (case foldl lww_pick w obs of None \<Rightarrow> lww_empty f | Some m \<Rightarrow> lww_normalize f (ob_value m))"
  by (induction obs arbitrary: w) (simp_all add: lww_accepts_def lww_pick_def)

lemma lww_pick_max:
  "foldl lww_pick (Some w) obs = Some m \<Longrightarrow>
     m \<in> insert w (set obs) \<and> (\<forall>x \<in> insert w (set obs). lww_key x \<le> lww_key m)"
proof (induction obs arbitrary: w)
  case Nil
  then show ?case by simp
next
  case (Cons o1 obs)
  show ?case
  proof (cases "lww_key o1 > lww_key w")
    case True
    then show ?thesis using Cons.IH [of o1] Cons.prems by (auto simp: lww_pick_def)
  next
    case False
    then show ?thesis using Cons.IH [of w] Cons.prems by (auto simp: lww_pick_def)
  qed
qed

lemma lww_pick_Some: "\<exists>m. foldl lww_pick (Some w) obs = Some m"
  by (induction obs arbitrary: w) (auto simp: lww_pick_def)

lemma lww_fold_max:
  assumes "list_all (lww_accepts f) obs" "obs \<noteq> []"
  obtains m where "m \<in> set obs" "\<And>x. x \<in> set obs \<Longrightarrow> lww_key x \<le> lww_key m"
    "lww_fold f obs = Inr (lww_normalize f (ob_value m))"
proof -
  obtain w rest where obs: "obs = w # rest" using assms(2) by (cases obs) auto
  obtain m where m: "foldl lww_pick (Some w) rest = Some m" using lww_pick_Some by blast
  have "foldl lww_pick None obs = Some m" using m by (simp add: obs lww_pick_def)
  then have "lww_fold f obs = Inr (lww_normalize f (ob_value m))"
    using lww_scan_ok [OF assms(1), of None] by (simp add: lww_fold_def)
  then show ?thesis using that lww_pick_max [OF m] obs by auto
qed

text \<open>The payload hash identifies the value, as a content hash is meant to.\<close>

definition hash_identifies :: "observation list \<Rightarrow> bool" where
  "hash_identifies obs \<longleftrightarrow>
     list_all (\<lambda>x. list_all (\<lambda>y. ob_payload_hash x = ob_payload_hash y \<longrightarrow> ob_value x = ob_value y) obs) obs"

lemma lww_fold_set:
  assumes ok: "list_all (lww_accepts f) xs" and s: "set xs = set ys" and h: "hash_identifies xs"
  shows "lww_fold f xs = lww_fold f ys"
proof (cases "xs = []")
  case True
  then show ?thesis using s by simp
next
  case False
  then have ne: "xs \<noteq> []" "ys \<noteq> []" using s by auto
  have ok': "list_all (lww_accepts f) ys" using ok s by (simp add: list_all_iff)
  obtain m where m: "m \<in> set xs" "\<And>x. x \<in> set xs \<Longrightarrow> lww_key x \<le> lww_key m"
    "lww_fold f xs = Inr (lww_normalize f (ob_value m))"
    using lww_fold_max [OF ok ne(1)] by metis
  obtain n where n: "n \<in> set ys" "\<And>x. x \<in> set ys \<Longrightarrow> lww_key x \<le> lww_key n"
    "lww_fold f ys = Inr (lww_normalize f (ob_value n))"
    using lww_fold_max [OF ok' ne(2)] by metis
  have "lww_key m \<le> lww_key n" "lww_key n \<le> lww_key m" using m(1,2) n(1,2) s by blast+
  then have "lww_key m = lww_key n" by (rule antisym)
  then have "ob_payload_hash m = ob_payload_hash n" by (simp add: lww_key_def)
  moreover have "n \<in> set xs" using n(1) s by blast
  ultimately have "ob_value m = ob_value n"
    using h m(1) unfolding hash_identifies_def list_all_iff by blast
  then show ?thesis using m(3) n(3) by simp
qed

interpretation lww: field_algebra "lww_fold f" "lww_accepts f" hash_identifies for f
proof
  fix xs ys :: "observation list"
  show "(\<exists>e. lww_fold f xs = Inl e) \<longleftrightarrow> \<not> list_all (lww_accepts f) xs"
    by (simp add: lww_fold_def lww_scan_err)
  show "lww_fold f xs = lww_fold f ys"
    if "hash_identifies xs" "list_all (lww_accepts f) xs" "mset xs = mset ys"
    using that mset_eq_setD [OF that(3)] by (intro lww_fold_set)
qed

subsection \<open>Add-only sets\<close>

definition has_text :: "observation \<Rightarrow> bool" where
  "has_text o1 \<longleftrightarrow> status_text (ob_value o1) \<noteq> None"

definition event_key :: "observation \<Rightarrow> string \<times> string" where
  "event_key o1 = (ob_source o1, ob_source_event_id o1)"

definition orset_compat :: "observation list \<Rightarrow> bool" where
  "orset_compat obs \<longleftrightarrow> distinct (map event_key obs)"

lemma extract_text_iff: "extract_text f v = Inr s \<longleftrightarrow> status_text v = Some s"
  by (auto simp: extract_text_def status_text_def split: field_value.splits option.splits)

definition entry_of :: "(int \<Rightarrow> string) \<Rightarrow> observation \<Rightarrow> json" where
  "entry_of r o1 = JObj [(''observed_at'', JStr (r (ob_observed_at o1))), (''source'', JStr (ob_source o1)),
     (''source_event_id'', JStr (ob_source_event_id o1)), (''value'', JStr (the (status_text (ob_value o1))))]"

lemma orset_entry_ok: "has_text o1 \<Longrightarrow> orset_entry r f o1 = Inr (entry_of r o1)"
proof -
  assume "has_text o1"
  then obtain s where s: "status_text (ob_value o1) = Some s" by (auto simp: has_text_def)
  then have "extract_text f (ob_value o1) = Inr s" by (simp add: extract_text_iff)
  then show ?thesis using s by (simp add: orset_entry_def entry_of_def)
qed

lemma orset_entry_err: "(\<exists>e. orset_entry r f o1 = Inl e) \<longleftrightarrow> \<not> has_text o1"
proof (cases "extract_text f (ob_value o1)")
  case (Inl e)
  then have "status_text (ob_value o1) = None"
    by (metis extract_text_iff not_None_eq sum.distinct(1))
  then show ?thesis using Inl by (simp add: orset_entry_def has_text_def)
next
  case (Inr s)
  then have "status_text (ob_value o1) = Some s" using extract_text_iff by blast
  then show ?thesis using Inr by (simp add: orset_entry_def has_text_def)
qed

lemma entry_key_of: "entry_key (entry_of r o1) = event_key o1"
  by (simp add: entry_key_def entry_str_def entry_of_def event_key_def)

lemma orset_fold_ok:
  "list_all has_text obs \<Longrightarrow> orset_fold r f obs = Inr (FvJson (JArr (sort_key entry_key (map (entry_of r) obs))))"
proof -
  assume "list_all has_text obs"
  then have "map_result (orset_entry r f) obs = Inr (map (entry_of r) obs)"
    by (intro map_result_total orset_entry_ok) (simp add: list_all_iff)
  then show ?thesis by (simp add: orset_fold_def)
qed

interpretation orset: field_algebra "orset_fold r f" has_text orset_compat for r f
proof
  fix xs ys :: "observation list"
  have "(\<exists>e. orset_fold r f xs = Inl e) \<longleftrightarrow> (\<exists>e. map_result (orset_entry r f) xs = Inl e)"
    by (auto simp: orset_fold_def split: sum.splits)
  also have "\<dots> \<longleftrightarrow> (\<exists>x \<in> set xs. \<not> has_text x)"
    by (simp only: map_result_Inl orset_entry_err)
  finally show "(\<exists>e. orset_fold r f xs = Inl e) \<longleftrightarrow> \<not> list_all has_text xs"
    by (auto simp: list_all_iff)
  assume c: "orset_compat xs" and ok: "list_all has_text xs" and m: "mset xs = mset ys"
  have ok': "list_all has_text ys" using ok mset_eq_setD [OF m] by (simp add: list_all_iff)
  have "inj_on entry_key (set (map (entry_of r) xs))"
    using c by (auto simp: orset_compat_def distinct_map inj_on_def entry_key_of)
  then have "sort_key entry_key (map (entry_of r) xs) = sort_key entry_key (map (entry_of r) ys)"
    using m by (intro sort_key_inj_key_eq) simp_all
  then show "orset_fold r f xs = orset_fold r f ys" using orset_fold_ok ok ok' by simp
qed

subsection \<open>The registered algebras\<close>

fun algebra_accepts :: "algebra \<Rightarrow> observation \<Rightarrow> bool" where
  "algebra_accepts ChainMax o1 \<longleftrightarrow> is_verdict o1"
| "algebra_accepts (LwwRegister f) o1 \<longleftrightarrow> lww_accepts f o1"
| "algebra_accepts (OrSet f) o1 \<longleftrightarrow> has_text o1"

fun algebra_compat :: "algebra \<Rightarrow> observation list \<Rightarrow> bool" where
  "algebra_compat ChainMax obs \<longleftrightarrow> True"
| "algebra_compat (LwwRegister f) obs \<longleftrightarrow> hash_identifies obs"
| "algebra_compat (OrSet f) obs \<longleftrightarrow> orset_compat obs"

lemma algebra_fold_err:
  "(\<exists>e. algebra_fold r alg obs = Inl e) \<longleftrightarrow> \<not> list_all (algebra_accepts alg) obs"
proof (cases alg)
  case ChainMax
  then show ?thesis using chain.err_iff [of obs] by (simp add: list_all_iff)
next
  case (LwwRegister f)
  then show ?thesis using lww.err_iff [of f obs] by (simp add: list_all_iff)
next
  case (OrSet f)
  then show ?thesis using orset.err_iff [of r f obs] by (simp add: list_all_iff)
qed

lemma algebras_are_reorder_invariant_parts:
  "(\<exists>e. algebra_fold r alg xs = Inl e) \<longleftrightarrow> \<not> list_all (algebra_accepts alg) xs"
  "algebra_compat alg xs \<Longrightarrow> mset xs = mset ys \<Longrightarrow>
     algebra_fold r alg xs = algebra_fold r alg ys
     \<or> (\<exists>e e'. algebra_fold r alg xs = Inl e \<and> algebra_fold r alg ys = Inl e')"
  "\<exists>x y. event_key x = event_key y \<and> dedup_key x \<noteq> dedup_key y
     \<and> algebra_fold r (OrSet f) [x, y] \<noteq> algebra_fold r (OrSet f) [y, x]"
proof -
  show "(\<exists>e. algebra_fold r alg xs = Inl e) \<longleftrightarrow> \<not> list_all (algebra_accepts alg) xs"
    by (rule algebra_fold_err)
  show "algebra_fold r alg xs = algebra_fold r alg ys
     \<or> (\<exists>e e'. algebra_fold r alg xs = Inl e \<and> algebra_fold r alg ys = Inl e')"
    if "algebra_compat alg xs" "mset xs = mset ys"
    using that chain.reorder_outcome [of xs ys] lww.reorder_outcome [of xs ys]
      orset.reorder_outcome [of xs ys r]
    by (cases alg) simp_all
  let ?x = "\<lparr> ob_work_item = WorkRef [] [] [], ob_source = ''git'', ob_source_event_id = ''1'',
     ob_field = f, ob_value = FvString ''a'', ob_observed_at = 0, ob_cert = None, ob_payload_hash = ''h1'' \<rparr>"
  let ?y = "?x\<lparr> ob_value := FvString ''b'', ob_payload_hash := ''h2'' \<rparr>"
  have "event_key ?x = event_key ?y \<and> dedup_key ?x \<noteq> dedup_key ?y
      \<and> algebra_fold r (OrSet f) [?x, ?y] \<noteq> algebra_fold r (OrSet f) [?y, ?x]"
    by (simp add: event_key_def dedup_key_def orset_fold_ok has_text_def status_text_def entry_key_of)
       (simp add: entry_of_def status_text_def)
  then show "\<exists>x y. event_key x = event_key y \<and> dedup_key x \<noteq> dedup_key y
     \<and> algebra_fold r (OrSet f) [x, y] \<noteq> algebra_fold r (OrSet f) [y, x]" by blast
qed

text \<open>
  Every registered algebra keeps the contract of the trait: it fails exactly when an observation
  carries a value its field does not have, and otherwise the order in which the observations arrive
  does not change the result, as long as equal payload hashes mean equal values (registers) and no
  event is reported twice (sets); the pipeline verdict needs neither. An event of a set that is
  reported twice with different texts is the exception: there the order shows.
\<close>

theorem algebras_are_reorder_invariant:
  "((\<exists>e. algebra_fold r alg xs = Inl e) \<longleftrightarrow> \<not> list_all (algebra_accepts alg) xs)
     \<and> ((algebra_compat alg xs) \<longrightarrow> (mset xs = mset ys) \<longrightarrow> (algebra_fold r alg xs = algebra_fold r alg ys
     \<or> (\<exists>e e'. algebra_fold r alg xs = Inl e \<and> algebra_fold r alg ys = Inl e')))
     \<and> (\<exists>x y. event_key x = event_key y \<and> dedup_key x \<noteq> dedup_key y
     \<and> algebra_fold r (OrSet f) [x, y] \<noteq> algebra_fold r (OrSet f) [y, x])"
  by (rule conjI, rule algebras_are_reorder_invariant_parts(1),
      rule conjI, rule impI, rule impI, (rule algebras_are_reorder_invariant_parts(2); assumption),
      rule algebras_are_reorder_invariant_parts(3))

definition seen :: "string \<Rightarrow> string \<Rightarrow> field_name \<Rightarrow> field_value \<Rightarrow> int \<Rightarrow> observation" where
  "seen src ev f v t = \<lparr> ob_work_item = WorkRef ''r'' [] ''b'', ob_source = src, ob_source_event_id = ev,
     ob_field = f, ob_value = v, ob_observed_at = t, ob_cert = None, ob_payload_hash = ev \<rparr>"

theorem algebras_are_reorder_invariant_witness:
  "algebra_fold (\<lambda>_. []) (LwwRegister Assignee)
       [seen ''linear'' ''1'' Assignee (FvString ''ann'') 5, seen ''github'' ''2'' Assignee (FvOptString None) 7]
   = algebra_fold (\<lambda>_. []) (LwwRegister Assignee)
       [seen ''github'' ''2'' Assignee (FvOptString None) 7, seen ''linear'' ''1'' Assignee (FvString ''ann'') 5]"
proof -
  let ?a = "seen ''linear'' ''1'' Assignee (FvString ''ann'') 5"
  let ?b = "seen ''github'' ''2'' Assignee (FvOptString None) 7"
  have "algebra_compat (LwwRegister Assignee) [?a, ?b]" by (simp add: hash_identifies_def seen_def)
  moreover have "mset [?a, ?b] = mset [?b, ?a]" by simp
  moreover have "\<not> (\<exists>e. algebra_fold (\<lambda>_. []) (LwwRegister Assignee) [?a, ?b] = Inl e)"
    unfolding algebras_are_reorder_invariant [THEN conjunct1]
    by (simp add: lww_accepts_def lww_type_ok_def seen_def nullable_fields_def)
  ultimately show ?thesis
    using algebras_are_reorder_invariant [THEN conjunct2, THEN conjunct1, THEN mp, THEN mp, of "LwwRegister Assignee" "[?a, ?b]" "[?b, ?a]" "\<lambda>_. []"] by metis
qed

section \<open>Replicas converge\<close>

lemma replicas_converge_parts:
  assumes c: "consistent (keyed xs)" and s: "set xs = set ys"
  shows "log_of xs = log_of ys"
    and "fold_log r (log_of xs) = fold_log r (log_of ys)"
    and "set (log_iter (log_of xs)) = set xs"
    and "o1 \<in> set xs \<Longrightarrow> log_insert o1 (log_of xs) = (False, log_of xs)"
    and "xs = us @ vs \<Longrightarrow> foldl (\<lambda>l o1. snd (log_insert o1 l)) (log_of vs) us = log_of xs"
proof -
  show l: "log_of xs = log_of ys" using c s by (rule log_of_set_cong)
  then show "fold_log r (log_of xs) = fold_log r (log_of ys)" by simp
  show "set (log_iter (log_of xs)) = set xs" using c by (rule log_iter_set)
  show "log_insert o1 (log_of xs) = (False, log_of xs)" if "o1 \<in> set xs"
  proof -
    have "(dedup_key o1, o1) \<in> set (keyed xs)" using that by (simp add: keyed_def)
    then have "map_of (log_of xs) (dedup_key o1) = Some o1"
      using consistent_map_of [OF c] by (simp add: log_of_get)
    then show ?thesis by (simp add: log_insert_def)
  qed
  show "foldl (\<lambda>l o1. snd (log_insert o1 l)) (log_of vs) us = log_of xs" if "xs = us @ vs"
  proof -
    have "log_of xs = log_of (vs @ us)" using c by (rule log_of_set_cong) (auto simp: that)
    then show ?thesis by (simp add: log_of_append)
  qed
qed

text \<open>
  C11. Provided that the observations do not conflict, that is, those with equal dedup keys (source, event
  and payload hash) are the same observation: two replicas that received the same observations hold the
  same log and derive the same view, however the observations were ordered, repeated or split between
  the replicas before they merged; a replayed observation is refused and changes nothing; and every
  observation received is in the log. Without the proviso the first of two conflicting observations
  wins, and the order decides.
\<close>

theorem replicas_converge:
  assumes c: "consistent (keyed xs)" and s: "set xs = set ys"
  shows "(log_of xs = log_of ys)
     \<and> (fold_log r (log_of xs) = fold_log r (log_of ys))
     \<and> (set (log_iter (log_of xs)) = set xs)
     \<and> ((o1 \<in> set xs) \<longrightarrow> (log_insert o1 (log_of xs) = (False, log_of xs)))
     \<and> ((xs = us @ vs) \<longrightarrow> (foldl (\<lambda>l o1. snd (log_insert o1 l)) (log_of vs) us = log_of xs))"
  by (rule conjI, rule replicas_converge_parts(1) [OF assms],
      rule conjI, rule replicas_converge_parts(2) [OF assms],
      rule conjI, rule replicas_converge_parts(3) [OF assms],
      rule conjI, rule impI, (rule replicas_converge_parts(4) [OF assms]; assumption),
      rule impI, (rule replicas_converge_parts(5) [OF assms]; assumption))

theorem replicas_converge_witness:
  "fold_log (\<lambda>_. []) (log_of [seen ''linear'' ''1'' Status (FvString ''open'') 5, seen ''github'' ''2'' Status (FvString ''done'') 7])
   = fold_log (\<lambda>_. []) (log_of [seen ''github'' ''2'' Status (FvString ''done'') 7, seen ''linear'' ''1'' Status (FvString ''open'') 5,
       seen ''github'' ''2'' Status (FvString ''done'') 7])"
  by (rule replicas_converge [THEN conjunct2, THEN conjunct1]) (auto simp: consistent_def keyed_def seen_def dedup_key_def)

lemma dedup_key_ignores_work_item_parts:
  assumes "a = pipeline_verdict ph v src ev vd t" and "b = pipeline_verdict ph w src ev vd t'"
    and "v \<noteq> w"
  shows "log_for_work_item (log_of [a, b]) v = [a] \<and> log_for_work_item (log_of [a, b]) w = []"
    and "log_for_work_item (log_of [b, a]) w = [b] \<and> log_for_work_item (log_of [b, a]) v = []"
  using assms
  by (auto simp: log_of_def log_insert_def log_for_work_item_def log_iter_def dedup_key_def
      pipeline_verdict_def)

text \<open>
  The dedup key leaves out the work item: if one source reports the same verdict under the same
  event for two beads (one commit that closes both, or the same phase and agent in two pipelines),
  a log that holds both keeps only the observation it saw first, the other bead has none, and which
  bead that is depends on the order of arrival.
\<close>

theorem dedup_key_ignores_work_item:
  assumes "a = pipeline_verdict ph v src ev vd t" and "b = pipeline_verdict ph w src ev vd t'"
    and "v \<noteq> w"
  shows "(log_for_work_item (log_of [a, b]) v = [a] \<and> log_for_work_item (log_of [a, b]) w = [])
     \<and> (log_for_work_item (log_of [b, a]) w = [b] \<and> log_for_work_item (log_of [b, a]) v = [])"
  by (rule conjI, rule dedup_key_ignores_work_item_parts(1) [OF assms],
      rule dedup_key_ignores_work_item_parts(2) [OF assms])

theorem dedup_key_ignores_work_item_witness:
  "log_for_work_item (log_of [pipeline_verdict (\<lambda>_ _ _. []) (WorkRef ''r'' [] ''a'') ''git'' ''c0ffee'' VDone 3,
       pipeline_verdict (\<lambda>_ _ _. []) (WorkRef ''r'' [] ''b'') ''git'' ''c0ffee'' VDone 3]) (WorkRef ''r'' [] ''b'') = []"
  by (rule dedup_key_ignores_work_item [THEN conjunct1, OF refl refl, THEN conjunct2]) simp

section \<open>One observation of the wrong type hides every view\<close>

lemma fold_field_err:
  "(\<exists>e. fold_field r alg obs = Inl e) \<longleftrightarrow> \<not> list_all (algebra_accepts alg) obs"
proof -
  have "(\<exists>e. (case algebra_fold r alg (filter (\<lambda>o1. ob_source o1 = src) obs) of
           Inl e \<Rightarrow> Inl e | Inr v \<Rightarrow> Inr (src, v)) = Inl e)
      \<longleftrightarrow> \<not> list_all (algebra_accepts alg) (filter (\<lambda>o1. ob_source o1 = src) obs)" for src
    using algebra_fold_err [of r alg "filter (\<lambda>o1. ob_source o1 = src) obs"]
    by (auto split: sum.splits)
  then show ?thesis by (auto simp: fold_field_def map_result_Inl list_all_iff)
qed

lemma registered_fields_set:
  "set (registered_fields obs) = {(f, alg). f \<in> ob_field ` set obs \<and> registry_get f = Some alg}"
  by (auto simp: registered_fields_def map_simps)

definition misfit :: "observation \<Rightarrow> bool" where
  "misfit o1 \<longleftrightarrow> (\<exists>alg. registry_get (ob_field o1) = Some alg \<and> \<not> algebra_accepts alg o1)"

lemma fold_work_err: "(\<exists>e. fold_work r w obs = Inl e) \<longleftrightarrow> (\<exists>o1 \<in> set obs. misfit o1)"
proof -
  let ?g = "\<lambda>(f, alg). case fold_field r alg (filter (\<lambda>o1. ob_field o1 = f) obs) of
               Inl e \<Rightarrow> Inl e | Inr m \<Rightarrow> Inr (f, m)"
  have "(\<exists>e. fold_work r w obs = Inl e) \<longleftrightarrow> (\<exists>e. map_result ?g (registered_fields obs) = Inl e)"
    by (auto simp: fold_work_def split: sum.splits)
  also have "\<dots> \<longleftrightarrow> (\<exists>x \<in> set (registered_fields obs). \<exists>e. ?g x = Inl e)" by (rule map_result_Inl)
  also have "\<dots> \<longleftrightarrow> (\<exists>(f, alg) \<in> set (registered_fields obs).
      \<not> list_all (algebra_accepts alg) (filter (\<lambda>o1. ob_field o1 = f) obs))"
  proof -
    have "(\<exists>e. ?g (f, alg) = Inl e) \<longleftrightarrow> \<not> list_all (algebra_accepts alg) (filter (\<lambda>o1. ob_field o1 = f) obs)"
      for f alg
      using fold_field_err [of r alg "filter (\<lambda>o1. ob_field o1 = f) obs"] by (auto split: sum.splits)
    then show ?thesis by (intro bex_cong refl) (metis (mono_tags, lifting) case_prod_conv prod.exhaust)
  qed
  also have "\<dots> \<longleftrightarrow> (\<exists>o1 \<in> set obs. misfit o1)"
    by (simp add: registered_fields_set misfit_def list_all_iff) (metis imageE imageI)
  finally show ?thesis .
qed

text \<open>
  The fold of a log fails exactly when some observation in it carries a value of the wrong type
  for a registered field, and then it fails for the whole log: one such observation about one bead
  hides the derived views of all beads. (Such observations are meant to go to quarantine.)
\<close>

theorem one_misfit_fails_the_fold:
  "(\<exists>e. fold_log r l = Inl e) \<longleftrightarrow> (\<exists>o1 \<in> set (log_iter l). misfit o1)"
proof -
  let ?g = "\<lambda>work. case fold_work r work (log_for_work_item l work) of
           Inl e \<Rightarrow> Inl e | Inr v \<Rightarrow> Inr (work, v)"
  have "(\<exists>e. fold_log r l = Inl e) \<longleftrightarrow> (\<exists>w \<in> set (map ob_work_item (log_iter l)). \<exists>e. ?g w = Inl e)"
    by (simp add: fold_log_def map_result_Inl)
  also have "\<dots> \<longleftrightarrow> (\<exists>w \<in> set (map ob_work_item (log_iter l)). \<exists>o1 \<in> set (log_for_work_item l w). misfit o1)"
  proof -
    have "(\<exists>e. ?g w = Inl e) \<longleftrightarrow> (\<exists>o1 \<in> set (log_for_work_item l w). misfit o1)" for w
      using fold_work_err [of r w "log_for_work_item l w"] by (auto split: sum.splits)
    then show ?thesis by simp
  qed
  also have "\<dots> \<longleftrightarrow> (\<exists>o1 \<in> set (log_iter l). misfit o1)"
    by (auto simp: log_for_work_item_def)
  finally show ?thesis .
qed

section \<open>The status across sources\<close>

lemma sorted_remdups_adj_distinct: "sorted xs \<Longrightarrow> distinct (remdups_adj xs)"
  by (induction xs rule: remdups_adj.induct) (auto simp: le_less)

lemma join_cases:
  "(ps = [] \<and> join_per_source ps = FEmpty)
   \<or> (\<exists>v. ps \<noteq> [] \<and> fst ` set ps = {v} \<and> join_per_source ps = FSingle v)
   \<or> (\<exists>ws. (\<exists>p \<in> set ps. \<exists>q \<in> set ps. fst p \<noteq> fst q) \<and> join_per_source ps = FTop ws
        \<and> set ws = set ps \<and> sorted ws \<and> distinct ws)"
proof (cases "remdups_adj (sort ps)")
  case Nil
  then have "ps = []" by (metis remdups_adj_Nil_iff set_empty set_sort)
  then show ?thesis by (simp add: join_per_source_def)
next
  case (Cons p rest)
  have s: "set (p # rest) = set ps" using Cons by (metis remdups_adj_set set_sort)
  have so: "sorted (p # rest)" using Cons sorted_remdups_adj [of "sort ps"] by simp
  have d: "distinct (p # rest)" using Cons sorted_remdups_adj_distinct [of "sort ps"] by simp
  show ?thesis
  proof (cases "list_all (\<lambda>q. fst q = fst p) (p # rest)")
    case True
    then have "fst ` set (p # rest) = {fst p}" by (auto simp: list_all_iff)
    then have "fst ` set ps = {fst p}" unfolding s .
    moreover have "ps \<noteq> []" using s by auto
    ultimately show ?thesis using Cons True by (simp add: join_per_source_def)
  next
    case False
    then obtain q where "q \<in> set (p # rest)" "fst q \<noteq> fst p" by (auto simp: list_all_iff)
    then have "\<exists>p \<in> set ps. \<exists>q \<in> set ps. fst p \<noteq> fst q" using s by (metis list.set_intros(1))
    then show ?thesis using Cons False s so d by (auto simp: join_per_source_def)
  qed
qed

text \<open>\<open>latest_status obs src v\<close>: the latest readable status that \<open>src\<close> reported is \<open>v\<close>.\<close>

definition readable_status :: "observation list \<Rightarrow> source \<Rightarrow> observation \<Rightarrow> bool" where
  "readable_status obs src o1 \<longleftrightarrow>
     o1 \<in> set obs \<and> ob_field o1 = Status \<and> ob_source o1 = src \<and> status_text (ob_value o1) \<noteq> None"

definition status_key :: "observation \<Rightarrow> int \<times> string" where
  "status_key o1 = (ob_observed_at o1, ob_payload_hash o1)"

definition latest_status :: "observation list \<Rightarrow> source \<Rightarrow> string \<Rightarrow> bool" where
  "latest_status obs src v \<longleftrightarrow>
     (\<exists>o1. readable_status obs src o1 \<and> status_text (ob_value o1) = Some v
        \<and> (\<forall>o2. readable_status obs src o2 \<longrightarrow> status_key o2 \<le> status_key o1))"

definition status_entry :: "observation \<Rightarrow> int \<times> string \<times> string" where
  "status_entry o1 = (ob_observed_at o1, ob_payload_hash o1, the (status_text (ob_value o1)))"

definition status_slot :: "observation list \<Rightarrow> source \<Rightarrow> (int \<times> string \<times> string) option \<Rightarrow> bool" where
  "status_slot obs src slot \<longleftrightarrow> (case slot of
        None \<Rightarrow> \<not> (\<exists>o1. readable_status obs src o1)
      | Some e \<Rightarrow> \<exists>o1. readable_status obs src o1 \<and> e = status_entry o1
          \<and> (\<forall>o2. readable_status obs src o2 \<longrightarrow> status_key o2 \<le> status_key o1))"

lemma status_slot_None: "status_slot obs src None \<longleftrightarrow> \<not> (\<exists>o1. readable_status obs src o1)"
  by (simp add: status_slot_def)

lemma status_slot_Some: "status_slot obs src (Some e) \<longleftrightarrow> (\<exists>o1. readable_status obs src o1 \<and> e = status_entry o1
          \<and> (\<forall>o2. readable_status obs src o2 \<longrightarrow> status_key o2 \<le> status_key o1))"
  by (simp add: status_slot_def)

definition status_map_ok :: "observation list \<Rightarrow> (source \<times> int \<times> string \<times> string) list \<Rightarrow> bool" where
  "status_map_ok obs m \<longleftrightarrow> bt_ok m \<and> (\<forall>src. status_slot obs src (map_of m src))"

lemma readable_snoc:
  "readable_status (obs @ [o1]) src x \<longleftrightarrow> readable_status obs src x \<or>
     (x = o1 \<and> ob_field o1 = Status \<and> ob_source o1 = src \<and> status_text (ob_value o1) \<noteq> None)"
  by (auto simp: readable_status_def)

lemma status_slot_same:
  "(\<And>x. readable_status obs' src x \<longleftrightarrow> readable_status obs src x) \<Longrightarrow>
   status_slot obs' src e \<longleftrightarrow> status_slot obs src e"
  by (cases e) (simp_all add: status_slot_None status_slot_Some)

lemma status_step_ok:
  assumes ok: "status_map_ok obs m" and f: "ob_field o1 = Status"
  shows "status_map_ok (obs @ [o1]) (status_step m o1)"
proof (cases "status_text (ob_value o1)")
  case None
  then have "status_slot (obs @ [o1]) src e = status_slot obs src e" for src e
    by (intro status_slot_same) (auto simp: readable_snoc)
  then show ?thesis using ok None by (simp add: status_map_ok_def status_step_def)
next
  case (Some v)
  let ?src = "ob_source o1"
  have r: "readable_status (obs @ [o1]) ?src o1" using Some f by (simp add: readable_snoc)
  have all: "readable_status (obs @ [o1]) ?src x \<longleftrightarrow> readable_status obs ?src x \<or> x = o1" for x
    using r by (auto simp: readable_snoc)
  have other: "status_slot (obs @ [o1]) src e = status_slot obs src e" if "src \<noteq> ?src" for src e
    using that by (intro status_slot_same) (auto simp: readable_snoc)
  have bt: "bt_ok m" and slot: "\<And>src. status_slot obs src (map_of m src)"
    using ok by (simp_all add: status_map_ok_def)
  have done_if: "status_map_ok (obs @ [o1]) m'"
    if "bt_ok m'" "\<And>src. src \<noteq> ?src \<Longrightarrow> map_of m' src = map_of m src"
      "status_slot (obs @ [o1]) ?src (map_of m' ?src)" for m'
    unfolding status_map_ok_def
  proof (intro conjI allI)
    fix src
    show "status_slot (obs @ [o1]) src (map_of m' src)"
      using that(2,3) other slot by (cases "src = ?src") simp_all
  qed (rule that(1))
  let ?new = "bt_insert ?src (status_entry o1) m"
  have new: "status_map_ok (obs @ [o1]) ?new"
    if "\<And>x. readable_status obs ?src x \<Longrightarrow> status_key x \<le> status_key o1"
    using bt r that by (intro done_if) (auto simp: bt_simps status_slot_Some all)
  show ?thesis
  proof (cases "map_of m ?src")
    case None
    then have "\<not> (\<exists>x. readable_status obs ?src x)" using slot [of ?src] by (simp add: status_slot_None)
    moreover have "status_step m o1 = ?new"
      using Some None by (simp add: status_step_def status_entry_def)
    ultimately show ?thesis using new by auto
  next
    case e: (Some e)
    obtain w where w: "readable_status obs ?src w" "e = status_entry w"
      "\<And>y. readable_status obs ?src y \<Longrightarrow> status_key y \<le> status_key w"
      using slot [of ?src] by (auto simp: e status_slot_Some)
    have st: "status_step m o1 = (if status_key o1 > status_key w then ?new else m)"
      using Some e w(2) by (simp add: status_step_def status_entry_def status_key_def)
    show ?thesis
    proof (cases "status_key o1 > status_key w")
      case True
      then have "status_key x \<le> status_key o1" if "readable_status obs ?src x" for x
        using w(3) [OF that] True by (meson less_imp_le order_trans)
      then show ?thesis using new True st by simp
    next
      case False
      then have "status_key x \<le> status_key w" if "readable_status (obs @ [o1]) ?src x" for x
        using w(3) that by (auto simp: all not_less)
      then have "status_slot (obs @ [o1]) ?src (map_of m ?src)"
        using w(1,2) by (auto simp: e status_slot_Some all)
      then show ?thesis using False st bt done_if by simp
    qed
  qed
qed

lemma status_map_of: "status_map_ok obs (foldl status_step [] (filter (\<lambda>o1. ob_field o1 = Status) obs))"
proof (induction obs rule: rev_induct)
  case Nil
  then show ?case by (simp add: status_map_ok_def status_slot_None readable_status_def)
next
  case (snoc o1 obs)
  show ?case
  proof (cases "ob_field o1 = Status")
    case True
    then show ?thesis using status_step_ok [OF snoc.IH True] by simp
  next
    case False
    then have "status_slot (obs @ [o1]) src e = status_slot obs src e" for src e
      by (intro status_slot_same) (auto simp: readable_snoc)
    then show ?thesis using snoc.IH False by (simp add: status_map_ok_def)
  qed
qed

lemma readable_identified:
  assumes "hash_identifies obs" "readable_status obs src x" "readable_status obs src y"
    "status_key x = status_key y"
  shows "ob_value x = ob_value y"
  using assms unfolding hash_identifies_def list_all_iff readable_status_def status_key_def by blast

lemma status_pairs:
  assumes h: "hash_identifies obs"
    and m: "m = foldl status_step [] (filter (\<lambda>o1. ob_field o1 = Status) obs)"
  shows "set (map (\<lambda>(src, _, _, val). (val, src)) m) = {(v, src). latest_status obs src v}"
proof -
  have ok: "status_map_ok obs m" unfolding m by (rule status_map_of)
  then have d: "distinct (map fst m)" by (simp add: status_map_ok_def bt_ok_distinct)
  have get: "(src, e) \<in> set m \<longleftrightarrow> map_of m src = Some e" for src e using d by (simp add: map_of_eq_Some_iff)
  have slot: "status_slot obs src (map_of m src)" for src using ok by (simp add: status_map_ok_def)
  have fwd: "latest_status obs src (snd (snd e))" if e: "map_of m src = Some e" for src e
  proof -
    obtain x where x: "readable_status obs src x" "e = status_entry x"
      "\<forall>y. readable_status obs src y \<longrightarrow> status_key y \<le> status_key x"
      using slot [of src] e by (auto simp: status_slot_Some)
    then have "status_text (ob_value x) = Some (snd (snd e))"
      by (auto simp: status_entry_def readable_status_def)
    then show ?thesis using x unfolding latest_status_def by blast
  qed
  have bwd: "\<exists>ts ph. map_of m src = Some (ts, ph, v)" if l: "latest_status obs src v" for src v
  proof -
    obtain x where x: "readable_status obs src x" "status_text (ob_value x) = Some v"
      "\<And>y. readable_status obs src y \<Longrightarrow> status_key y \<le> status_key x"
      using l unfolding latest_status_def by blast
    obtain e where e: "map_of m src = Some e"
      using slot [of src] x(1) by (cases "map_of m src") (auto simp: status_slot_None)
    then obtain w where w: "readable_status obs src w" "e = status_entry w"
      "\<And>y. readable_status obs src y \<Longrightarrow> status_key y \<le> status_key w"
      using slot [of src] by (auto simp: status_slot_Some)
    have "status_key w = status_key x" using w(1,3) x(1,3) by (blast intro: antisym)
    then have "ob_value w = ob_value x" using h w(1) x(1) readable_identified by blast
    then show ?thesis using e w(2) x(2) by (simp add: status_entry_def)
  qed
  show ?thesis
  proof (rule set_eqI)
    fix p :: "string \<times> source"
    obtain v src where p: "p = (v, src)" by force
    have "p \<in> set (map (\<lambda>(src, _, _, val). (val, src)) m) \<longleftrightarrow> (\<exists>ts ph. (src, ts, ph, v) \<in> set m)"
      unfolding p by force
    also have "\<dots> \<longleftrightarrow> latest_status obs src v"
      using fwd bwd get by (metis snd_conv)
    finally show "p \<in> set (map (\<lambda>(src, _, _, val). (val, src)) m) \<longleftrightarrow> p \<in> {(v, src). latest_status obs src v}"
      by (simp add: p)
  qed
qed

lemma status_is_agreement_or_conflict_parts:
  assumes h: "hash_identifies obs"
  shows "status_of obs = FEmpty \<longleftrightarrow> \<not> (\<exists>src v. latest_status obs src v)"
    and "status_of obs = FSingle v \<longleftrightarrow>
       (\<exists>src. latest_status obs src v) \<and> (\<forall>src w. latest_status obs src w \<longrightarrow> w = v)"
    and "status_of obs = FTop ws \<Longrightarrow> set ws = {(v, src). latest_status obs src v} \<and> sorted ws \<and> distinct ws"
    and "is_conflict (status_of obs) \<longleftrightarrow>
       (\<exists>src src' v v'. latest_status obs src v \<and> latest_status obs src' v' \<and> v \<noteq> v')"
proof -
  define ps where "ps = map (\<lambda>(src, _, _, val). (val, src))
       (foldl status_step [] (filter (\<lambda>o1. ob_field o1 = Status) obs))"
  have s: "set ps = {(v, src). latest_status obs src v}"
    unfolding ps_def using status_pairs [OF h refl] .
  have st: "status_of obs = join_per_source ps" by (simp add: status_of_def ps_def)
  have e: "ps = [] \<longleftrightarrow> \<not> (\<exists>src v. latest_status obs src v)"
  proof -
    have "ps = [] \<longleftrightarrow> set ps = {}" by simp
    then show ?thesis unfolding s by blast
  qed
  have one: "fst ` set ps = {v} \<longleftrightarrow> (\<exists>src. latest_status obs src v) \<and> (\<forall>src w. latest_status obs src w \<longrightarrow> w = v)" for v
  proof -
    have "fst ` set ps = {v. \<exists>src. latest_status obs src v}" unfolding s by force
    then show ?thesis by blast
  qed
  have two: "(\<exists>p \<in> set ps. \<exists>q \<in> set ps. fst p \<noteq> fst q) \<longleftrightarrow>
      (\<exists>src src' v v'. latest_status obs src v \<and> latest_status obs src' v' \<and> v \<noteq> v')"
    unfolding s by force
  note jc = join_cases [of ps, folded st]
  show "status_of obs = FEmpty \<longleftrightarrow> \<not> (\<exists>src v. latest_status obs src v)"
    unfolding e [symmetric] using jc by (elim disjE exE conjE) auto
  have single: "\<not> (\<exists>p \<in> set ps. \<exists>q \<in> set ps. fst p \<noteq> fst q)" if "fst ` set ps = {v}" for v
    using that by (metis imageI singletonD)
  show "status_of obs = FSingle v \<longleftrightarrow>
       (\<exists>src. latest_status obs src v) \<and> (\<forall>src w. latest_status obs src w \<longrightarrow> w = v)"
    unfolding one [symmetric]
  proof
    assume "status_of obs = FSingle v"
    then show "fst ` set ps = {v}" using jc by auto
  next
    assume v: "fst ` set ps = {v}"
    then have "ps \<noteq> []" by auto
    then obtain w where "fst ` set ps = {w}" "status_of obs = FSingle w" using jc single [OF v] by blast
    then show "status_of obs = FSingle v" using v by simp
  qed
  show "set ws = {(v, src). latest_status obs src v} \<and> sorted ws \<and> distinct ws" if "status_of obs = FTop ws"
    unfolding s [symmetric] using jc that by (elim disjE exE conjE) auto
  show "is_conflict (status_of obs) \<longleftrightarrow>
       (\<exists>src src' v v'. latest_status obs src v \<and> latest_status obs src' v' \<and> v \<noteq> v')"
    unfolding two [symmetric]
  proof
    assume "is_conflict (status_of obs)"
    then obtain ws where "status_of obs = FTop ws"
      by (auto simp: is_conflict_def split: flat_lattice.splits)
    then show "\<exists>p \<in> set ps. \<exists>q \<in> set ps. fst p \<noteq> fst q" using jc by auto
  next
    assume d: "\<exists>p \<in> set ps. \<exists>q \<in> set ps. fst p \<noteq> fst q"
    then have "ps \<noteq> []" by auto
    then obtain ws where "status_of obs = FTop ws" using jc single d by blast
    then show "is_conflict (status_of obs)" by (simp add: is_conflict_def)
  qed
qed

text \<open>
  C37. The cross-source status is decided by each source's own latest readable report and by nothing
  else: it is empty exactly when no source has one, a single value when the latest reports agree,
  and otherwise a conflict that names every source with its value, once and in order. No source is
  silently preferred.
\<close>

theorem status_is_agreement_or_conflict:
  assumes h: "hash_identifies obs"
  shows "(status_of obs = FEmpty \<longleftrightarrow> \<not> (\<exists>src v. latest_status obs src v))
     \<and> (status_of obs = FSingle v \<longleftrightarrow>
       (\<exists>src. latest_status obs src v) \<and> (\<forall>src w. latest_status obs src w \<longrightarrow> w = v))
     \<and> ((status_of obs = FTop ws) \<longrightarrow> (set ws = {(v, src). latest_status obs src v} \<and> sorted ws \<and> distinct ws))
     \<and> (is_conflict (status_of obs) \<longleftrightarrow>
       (\<exists>src src' v v'. latest_status obs src v \<and> latest_status obs src' v' \<and> v \<noteq> v'))"
  by (rule conjI, rule status_is_agreement_or_conflict_parts(1) [OF assms],
      rule conjI, rule status_is_agreement_or_conflict_parts(2) [OF assms],
      rule conjI, rule impI, (rule status_is_agreement_or_conflict_parts(3) [OF assms]; assumption),
      rule status_is_agreement_or_conflict_parts(4) [OF assms])

theorem status_is_agreement_or_conflict_witness:
  "is_conflict (status_of [seen ''linear'' ''1'' Status (FvString ''done'') 5,
      seen ''github'' ''2'' Status (FvString ''open'') 7])"
proof -
  define a b where ab: "a = seen ''linear'' ''1'' Status (FvString ''done'') 5"
    "b = seen ''github'' ''2'' Status (FvString ''open'') 7"
  have f: "ob_field a = Status" "ob_field b = Status" "ob_source a = ''linear''" "ob_source b = ''github''"
    "status_text (ob_value a) = Some ''done''" "status_text (ob_value b) = Some ''open''"
    "ob_payload_hash a \<noteq> ob_payload_hash b"
    by (simp_all add: ab seen_def status_text_def)
  have h: "hash_identifies [a, b]" using f(7) by (simp add: hash_identifies_def)
  have r: "readable_status [a, b] ''linear'' x \<longleftrightarrow> x = a" "readable_status [a, b] ''github'' x \<longleftrightarrow> x = b" for x
    using f(1-6) by (auto simp: readable_status_def)
  have "latest_status [a, b] ''linear'' ''done''" "latest_status [a, b] ''github'' ''open''"
    unfolding latest_status_def r using f by simp_all
  then show ?thesis using status_is_agreement_or_conflict [THEN conjunct2, THEN conjunct2, THEN conjunct2, OF h] unfolding ab by blast
qed

end
