(* ===== verification/Observation_Status.thy ===== *)
theory Observation_Status
  imports Observation_Lattice
begin

text \<open>
  What is read off the observations: the resolution of a conflict by authority
  (\<open>src/observation/resolve.rs\<close>), the roll-up of bead statuses to threads and decades
  (\<open>tree_fold.rs\<close>), the status derived from the recorded pipeline verdicts (\<open>shadow.rs\<close>), its audit
  against the stored status (\<open>audit.rs\<close>) and the replay of the git history (\<open>backfill.rs\<close>).

  The reader and printer of the JSON envelope of an observation event are parameters.
\<close>

section \<open>Resolution by authority\<close>

datatype authority = AutoIngest | AgentAssertion | Decision | HumanCorrection

fun authority_rank :: "authority \<Rightarrow> nat" where
  "authority_rank AutoIngest = 0"
| "authority_rank AgentAssertion = 1"
| "authority_rank Decision = 2"
| "authority_rank HumanCorrection = 3"

lemma authority_rank_inj: "authority_rank a = authority_rank b \<longleftrightarrow> a = b"
  by (cases a; cases b) auto

instantiation authority :: linorder
begin

definition less_eq_authority :: "authority \<Rightarrow> authority \<Rightarrow> bool" where
  "less_eq_authority a b \<longleftrightarrow> authority_rank a \<le> authority_rank b"

definition less_authority :: "authority \<Rightarrow> authority \<Rightarrow> bool" where
  "less_authority a b \<longleftrightarrow> authority_rank a < authority_rank b"

instance
  by standard (auto simp: less_eq_authority_def less_authority_def authority_rank_inj)

end

fun authority_debug :: "authority \<Rightarrow> string" where
  "authority_debug AutoIngest = ''AutoIngest''"
| "authority_debug AgentAssertion = ''AgentAssertion''"
| "authority_debug Decision = ''Decision''"
| "authority_debug HumanCorrection = ''HumanCorrection''"

record authoritative_claim =
  cl_observation :: observation
  cl_authority :: authority
  cl_authenticated :: bool
  cl_undercuts :: "string option"

datatype resolution =
    Resolved observation "observation list"
  | Escalate string "observation list"

definition claim_hash :: "authoritative_claim \<Rightarrow> string" where
  "claim_hash c = ob_payload_hash (cl_observation c)"

definition live_claims :: "authoritative_claim list \<Rightarrow> authoritative_claim list" where
  "live_claims claims =
     (let eligible = filter cl_authenticated claims;
          undercut = List.map_filter cl_undercuts eligible
      in filter (\<lambda>c. claim_hash c \<notin> set undercut) eligible)"

text \<open>
  The code keeps the survivors in a hash map; what it returns does not depend on the order of that
  map, and the model uses the ordered one.
\<close>

definition resolve_by_authority :: "authoritative_claim list \<Rightarrow> resolution" where
  "resolve_by_authority claims =
     (let by_hash = foldl (bt_keep_max claim_hash cl_authority) [] (live_claims claims);
          survivors = map snd by_hash
      in case survivors of
           [] \<Rightarrow> Escalate ''no authenticated, un-undercut claim'' (map cl_observation claims)
         | _ \<Rightarrow>
             (let top_tier = Max (set (map cl_authority survivors));
                  top = filter (\<lambda>c. cl_authority c = top_tier) survivors
              in case top of
                   [w] \<Rightarrow>
                     Resolved (cl_observation w)
                       (sort_key ob_payload_hash
                         (filter (\<lambda>o1. ob_payload_hash o1 \<noteq> claim_hash w) (map cl_observation survivors)))
                 | _ \<Rightarrow>
                     Escalate (show_nat (length top) @ '' claims tie at top authority tier ''
                               @ authority_debug top_tier)
                       (sort_key ob_payload_hash (map cl_observation top))))"

section \<open>Roll-up of the hierarchy\<close>

datatype rollup_status = RuInProgress | RuDone | RuBlocked | RuEmpty

datatype leaf_status = LfOpen | LfInProgress | LfDone | LfBlocked

record bead_node =
  bn_bead_id :: string
  bn_status :: leaf_status

record thread_node =
  tn_thread_id :: string
  tn_beads :: "bead_node list"

record decade_node =
  dn_decade_id :: string
  dn_threads :: "thread_node list"

record thread_rollup =
  tr_thread_id :: string
  tr_beads_done :: nat
  tr_beads_total :: nat
  tr_status :: rollup_status

record decade_rollup =
  dr_decade_id :: string
  dr_threads :: "thread_rollup list"
  dr_threads_done :: nat
  dr_threads_total :: nat
  dr_status :: rollup_status

definition fold_thread :: "thread_node \<Rightarrow> thread_rollup" where
  "fold_thread t =
     (let total = length (tn_beads t);
          finished = length (filter (\<lambda>b. bn_status b = LfDone) (tn_beads t));
          status = (if total = 0 then RuEmpty
                    else if list_ex (\<lambda>b. bn_status b = LfBlocked) (tn_beads t) then RuBlocked
                    else if finished = total then RuDone
                    else RuInProgress)
      in \<lparr> tr_thread_id = tn_thread_id t, tr_beads_done = finished, tr_beads_total = total,
           tr_status = status \<rparr>)"

definition tree_fold :: "decade_node \<Rightarrow> decade_rollup" where
  "tree_fold d =
     (let rollups = sort_key tr_thread_id (map fold_thread (dn_threads d));
          total = length rollups;
          finished = length (filter (\<lambda>t. tr_status t = RuDone) rollups);
          status = (if total = 0 then RuEmpty
                    else if list_ex (\<lambda>t. tr_status t = RuBlocked) rollups then RuBlocked
                    else if finished = total then RuDone
                    else RuInProgress)
      in \<lparr> dr_decade_id = dn_decade_id d, dr_threads = rollups, dr_threads_done = finished,
           dr_threads_total = total, dr_status = status \<rparr>)"

section \<open>The status derived from recorded verdicts\<close>

fun verdict_debug :: "verdict \<Rightarrow> string" where
  "verdict_debug VDispatched = ''Dispatched''"
| "verdict_debug VVerifying = ''Verifying''"
| "verdict_debug VPass = ''Pass''"
| "verdict_debug VPrOpen = ''PrOpen''"
| "verdict_debug VDone = ''Done''"
| "verdict_debug VFail = ''Fail''"
| "verdict_debug VDeadletter = ''Deadletter''"

definition verdict_of_debug :: "string \<Rightarrow> verdict option" where
  "verdict_of_debug s =
     (if s = ''Dispatched'' then Some VDispatched
      else if s = ''Verifying'' then Some VVerifying
      else if s = ''Pass'' then Some VPass
      else if s = ''PrOpen'' then Some VPrOpen
      else if s = ''Done'' then Some VDone
      else if s = ''Fail'' then Some VFail
      else if s = ''Deadletter'' then Some VDeadletter
      else None)"

definition scan_token :: "string \<times> string \<times> string \<Rightarrow> string \<Rightarrow> string \<times> string \<times> string" where
  "scan_token acc tok =
     (let (phase, agent, vd) = acc
      in case strip_prefix tok ''phase='' of
           Some v \<Rightarrow> (v, agent, vd)
         | None \<Rightarrow>
             (case strip_prefix tok ''agent='' of
                Some v \<Rightarrow> (phase, v, vd)
              | None \<Rightarrow>
                  (case strip_prefix tok ''verdict='' of
                     Some v \<Rightarrow> (phase, agent, v)
                   | None \<Rightarrow> acc)))"

definition parse_legacy_flat :: "(source \<Rightarrow> field_name \<Rightarrow> field_value \<Rightarrow> string) \<Rightarrow> string \<Rightarrow> work_ref
    \<Rightarrow> observation option" where
  "parse_legacy_flat ph s work =
     (if \<not> starts_with s ''phase='' then None
      else
        (let (phase, agent, vd) = foldl scan_token ([], [], []) (split_whitespace s)
         in map_option (\<lambda>pv. pipeline_verdict ph work (canonicalize_source ''rosary'')
              (''phase'' @ phase @ CHR '':'' # agent) pv 0) (verdict_of_debug vd)))"

definition parse_events_for :: "(string \<Rightarrow> observation option)
    \<Rightarrow> (source \<Rightarrow> field_name \<Rightarrow> field_value \<Rightarrow> string) \<Rightarrow> string list \<Rightarrow> work_ref \<Rightarrow> observation list" where
  "parse_events_for read_envelope ph events work =
     List.map_filter (\<lambda>e. case read_envelope e of
         Some o1 \<Rightarrow> Some o1 | None \<Rightarrow> parse_legacy_flat ph e work) events"

definition phase_of_event :: "observation \<Rightarrow> nat" where
  "phase_of_event o1 =
     (case strip_prefix (ob_source_event_id o1) ''phase'' of
        None \<Rightarrow> 0
      | Some rest \<Rightarrow>
          (case parse_unsigned (2 ^ 32) (takeWhile (\<lambda>c. c \<noteq> CHR '':'') rest) of
             None \<Rightarrow> 0 | Some n \<Rightarrow> n))"

definition phase_local_status :: "verdict list \<Rightarrow> string option" where
  "phase_local_status vs =
     (if List.member vs VPrOpen then Some ''pr_open''
      else if List.member vs VPass then Some ''verifying''
      else if List.member vs VFail then Some ''open''
      else if List.member vs VVerifying then Some ''verifying''
      else if List.member vs VDispatched then Some ''dispatched''
      else None)"

definition by_phase :: "observation list \<Rightarrow> work_ref \<Rightarrow> (nat \<times> verdict) list" where
  "by_phase obs work =
     List.map_filter (\<lambda>o1. case ob_value o1 of FvVerdict v \<Rightarrow> Some (phase_of_event o1, v) | _ \<Rightarrow> None)
       (filter (\<lambda>o1. ob_work_item o1 = work) obs)"

definition shadow_status :: "observation list \<Rightarrow> work_ref \<Rightarrow> string option" where
  "shadow_status obs work =
     (let ps = by_phase obs work
      in if ps = [] then None
         else if list_ex (\<lambda>p. snd p = VDone) ps then Some ''done''
         else if list_ex (\<lambda>p. snd p = VDeadletter) ps then Some ''dead_letter''
         else
           (let max_phase = Max (set (map fst ps))
            in phase_local_status (map snd (filter (\<lambda>p. fst p = max_phase) ps))))"

definition folded_pipeline_verdict :: "(int \<Rightarrow> string) \<Rightarrow> observation list \<Rightarrow> work_ref \<Rightarrow> verdict option" where
  "folded_pipeline_verdict r obs work =
     (case fold_log r (log_of obs) of
        Inl _ \<Rightarrow> None
      | Inr views \<Rightarrow>
          (case map_of views work of
             None \<Rightarrow> None
           | Some view \<Rightarrow>
               (case map_of (dv_per_source view) PipelineVerdict of
                  None \<Rightarrow> None
                | Some per_source \<Rightarrow>
                    max_by_key (\<lambda>v. case lattice_rank v of None \<Rightarrow> 0 | Some n \<Rightarrow> n)
                      (List.map_filter (\<lambda>(_, fv). case fv of FvVerdict v \<Rightarrow> Some v | _ \<Rightarrow> None)
                        per_source))))"

section \<open>The audit\<close>

definition normalize_status :: "string \<Rightarrow> string" where
  "normalize_status s = (if s = ''closed'' then ''done'' else s)"

record audit_row =
  ar_bead_id :: string
  ar_status :: string
  ar_folded :: "verdict option"
  ar_expected :: "string option"

record audit_report =
  au_total :: nat
  au_comparable :: nat
  au_agree :: nat
  au_divergences :: "audit_row list"

definition audit_one :: "(int \<Rightarrow> string) \<Rightarrow> string \<Rightarrow> (string \<Rightarrow> observation list) \<Rightarrow> audit_report \<Rightarrow> bead
    \<Rightarrow> audit_report" where
  "audit_one r repo_name observations_of report b =
     (let obs = observations_of (b_id b); work = WorkRef repo_name [] (b_id b)
      in if obs = [] then report
         else
           (let rep = report\<lparr> au_comparable := au_comparable report + 1 \<rparr>;
                expected = shadow_status obs work;
                agrees = (case expected of None \<Rightarrow> False
                          | Some e \<Rightarrow> normalize_status e = normalize_status (b_status b))
            in if agrees then rep\<lparr> au_agree := au_agree rep + 1 \<rparr>
               else rep\<lparr> au_divergences := au_divergences rep @
                      [\<lparr> ar_bead_id = b_id b, ar_status = b_status b,
                         ar_folded = folded_pipeline_verdict r obs work, ar_expected = expected \<rparr>] \<rparr>))"

definition audit_store :: "(int \<Rightarrow> string) \<Rightarrow> string \<Rightarrow> (string \<Rightarrow> observation list) \<Rightarrow> bead list
    \<Rightarrow> audit_report" where
  "audit_store r repo_name observations_of beads =
     foldl (audit_one r repo_name observations_of)
       \<lparr> au_total = length beads, au_comparable = 0, au_agree = 0, au_divergences = [] \<rparr> beads"

section \<open>Backfill from the git history\<close>

definition GIT_SOURCE :: string where
  "GIT_SOURCE = ''git''"

record merge_commit =
  mc_sha :: string
  mc_committed_at :: int
  mc_closures :: "(string \<times> nat) list"

record backfill_report =
  bf_merge_commits :: nat
  bf_closures :: nat
  bf_recorded :: nat
  bf_already_present :: nat
  bf_dangling :: "string list"
  bf_non_bead_brackets :: nat
  bf_dry_run :: bool

definition is_bead_shaped :: "string \<Rightarrow> bool" where
  "is_bead_shaped reference =
     (case rsplit_once (CHR ''-'') reference of
        None \<Rightarrow> False
      | Some (pre, suffix) \<Rightarrow> pre \<noteq> [] \<and> length suffix = 6 \<and> list_all is_ascii_hexdigit suffix)"

definition resolve_bead_id :: "string list \<Rightarrow> string \<Rightarrow> string option" where
  "resolve_bead_id known reference =
     (if List.member known reference then Some reference
      else
        (case filter (\<lambda>k. ends_with k reference) known of
           [k] \<Rightarrow> Some k
         | _ \<Rightarrow> None))"

text \<open>The events of the beads, and what the loop keeps: the report, the dangling and noise
  references, and the shas already seen per bead.\<close>

record backfill_state =
  bs_events :: "string \<Rightarrow> string list"
  bs_closures :: nat
  bs_recorded :: nat
  bs_already :: nat
  bs_dangling :: "string set"
  bs_noise :: "string set"
  bs_seen :: "string \<Rightarrow> string set option"

record backfill_env =
  be_read :: "string \<Rightarrow> observation option"
  be_print :: "observation \<Rightarrow> string \<Rightarrow> string"
  be_hash :: "source \<Rightarrow> field_name \<Rightarrow> field_value \<Rightarrow> string"
  be_repo :: string
  be_known :: "string list"
  be_dry_run :: bool

definition existing_git_event_ids :: "backfill_env \<Rightarrow> string \<Rightarrow> string list \<Rightarrow> string set" where
  "existing_git_event_ids env bead_id events =
     ob_source_event_id ` set (filter (\<lambda>o1. ob_source o1 = GIT_SOURCE)
       (parse_events_for (be_read env) (be_hash env) events (WorkRef (be_repo env) [] bead_id)))"

definition merge_observation :: "backfill_env \<Rightarrow> string \<Rightarrow> merge_commit \<Rightarrow> observation" where
  "merge_observation env bead_id commit =
     pipeline_verdict (be_hash env) (WorkRef (be_repo env) [] bead_id) (canonicalize_source GIT_SOURCE)
       (mc_sha commit) VDone (mc_committed_at commit)"

definition merge_detail :: "merge_commit \<Rightarrow> nat \<Rightarrow> string" where
  "merge_detail commit pr =
     ''squash merge '' @ take 12 (mc_sha commit) @ '' (PR #'' @ show_nat pr @ '') ''
     @ [CHR 0xE2, CHR 0x80, CHR 0x94] @ '' backfilled from git history''"

definition write_merge_observation :: "backfill_env \<Rightarrow> string \<Rightarrow> merge_commit \<Rightarrow> nat
    \<Rightarrow> (string \<Rightarrow> string list) \<Rightarrow> string \<Rightarrow> string list" where
  "write_merge_observation env bead_id commit pr events =
     events(bead_id := events bead_id @
       [be_print env (merge_observation env bead_id commit) (merge_detail commit pr)])"

definition backfill_closure :: "backfill_env \<Rightarrow> merge_commit \<Rightarrow> backfill_state \<Rightarrow> string \<times> nat
    \<Rightarrow> backfill_state" where
  "backfill_closure env commit st closure =
     (let (reference, pr) = closure;
          st = st\<lparr> bs_closures := bs_closures st + 1 \<rparr>
      in case resolve_bead_id (be_known env) reference of
           None \<Rightarrow>
             if is_bead_shaped reference
             then st\<lparr> bs_dangling := insert reference (bs_dangling st) \<rparr>
             else st\<lparr> bs_noise := insert reference (bs_noise st) \<rparr>
         | Some bead_id \<Rightarrow>
             (let shas = (case bs_seen st bead_id of
                            Some s \<Rightarrow> s
                          | None \<Rightarrow> existing_git_event_ids env bead_id (bs_events st bead_id));
                  st = st\<lparr> bs_seen := (bs_seen st)(bead_id \<mapsto> shas) \<rparr>
              in if mc_sha commit \<in> shas then st\<lparr> bs_already := bs_already st + 1 \<rparr>
                 else
                   st\<lparr> bs_events := (if be_dry_run env then bs_events st
                                     else write_merge_observation env bead_id commit pr (bs_events st)),
                       bs_seen := (bs_seen st)(bead_id \<mapsto> insert (mc_sha commit) shas),
                       bs_recorded := bs_recorded st + 1 \<rparr>))"

definition backfill_commit :: "backfill_env \<Rightarrow> backfill_state \<Rightarrow> merge_commit \<Rightarrow> backfill_state" where
  "backfill_commit env st commit = foldl (backfill_closure env commit) st (mc_closures commit)"

definition backfill_start :: "(string \<Rightarrow> string list) \<Rightarrow> backfill_state" where
  "backfill_start events = \<lparr> bs_events = events, bs_closures = 0, bs_recorded = 0, bs_already = 0,
     bs_dangling = {}, bs_noise = {}, bs_seen = (\<lambda>_. None) \<rparr>"

definition backfill_repo :: "backfill_env \<Rightarrow> merge_commit list \<Rightarrow> (string \<Rightarrow> string list)
    \<Rightarrow> backfill_report \<times> (string \<Rightarrow> string list)" where
  "backfill_repo env commits events =
     (let st = foldl (backfill_commit env) (backfill_start events) commits
      in (\<lparr> bf_merge_commits = length commits, bf_closures = bs_closures st,
            bf_recorded = bs_recorded st, bf_already_present = bs_already st,
            bf_dangling = sorted_list_of_set (bs_dangling st),
            bf_non_bead_brackets = card (bs_noise st), bf_dry_run = be_dry_run env \<rparr>,
          bs_events st))"

section \<open>Authority decides, never recency\<close>

lemma live_claims_mem:
  "c \<in> set (live_claims claims) \<longleftrightarrow>
     c \<in> set claims \<and> cl_authenticated c
     \<and> \<not> (\<exists>d \<in> set claims. cl_authenticated d \<and> cl_undercuts d = Some (claim_hash c))"
  by (auto simp: live_claims_def Let_def map_simps)

definition survivors_of :: "authoritative_claim list \<Rightarrow> (string \<times> authoritative_claim) list" where
  "survivors_of claims = foldl (bt_keep_max claim_hash cl_authority) [] (live_claims claims)"

lemma survivors_facts:
  shows "bt_ok (survivors_of claims)"
    and "map_of (survivors_of claims) h = Some c \<Longrightarrow> c \<in> set (live_claims claims) \<and> claim_hash c = h
      \<and> (\<forall>d \<in> set (live_claims claims). claim_hash d = h \<longrightarrow> cl_authority d \<le> cl_authority c)"
    and "map_of (survivors_of claims) h = None \<longleftrightarrow> h \<notin> claim_hash ` set (live_claims claims)"
  unfolding survivors_of_def using bt_keep_max_run [of claim_hash cl_authority "live_claims claims" h] by blast+

lemma survivors_mem:
  "(h, c) \<in> set (survivors_of claims) \<longleftrightarrow> map_of (survivors_of claims) h = Some c"
  using bt_ok_distinct [OF survivors_facts(1)] by simp

lemma survivor_of_live:
  assumes "d \<in> set (live_claims claims)"
  obtains c where "(claim_hash d, c) \<in> set (survivors_of claims)" "cl_authority d \<le> cl_authority c"
proof -
  obtain c where "map_of (survivors_of claims) (claim_hash d) = Some c"
    using assms survivors_facts(3) [of claims "claim_hash d"] by (metis imageI option.exhaust)
  then show ?thesis using that survivors_facts(2) survivors_mem assms by metis
qed

lemma survivors_empty: "survivors_of claims = [] \<longleftrightarrow> live_claims claims = []"
proof
  assume e: "survivors_of claims = []"
  show "live_claims claims = []"
  proof (rule ccontr)
    assume "live_claims claims \<noteq> []"
    then obtain d where "d \<in> set (live_claims claims)" by (meson last_in_set)
    then show False using e by (metis survivor_of_live empty_iff list.set(1))
  qed
next
  assume "live_claims claims = []"
  then show "survivors_of claims = []" by (simp add: survivors_of_def)
qed

definition top_survivors :: "authoritative_claim list \<Rightarrow> authoritative_claim list" where
  "top_survivors claims =
     (let s = map snd (survivors_of claims)
      in filter (\<lambda>c. cl_authority c = Max (set (map cl_authority s))) s)"

lemma top_survivors_mem:
  "c \<in> set (top_survivors claims) \<longleftrightarrow>
     (claim_hash c, c) \<in> set (survivors_of claims) \<and>
     (\<forall>d \<in> set (live_claims claims). cl_authority d \<le> cl_authority c)"
proof -
  let ?S = "snd ` set (survivors_of claims)"
  have key: "h = claim_hash x" if "(h, x) \<in> set (survivors_of claims)" for h x
    using that survivors_facts(2) survivors_mem by metis
  have live: "x \<in> set (live_claims claims)" if "x \<in> ?S" for x
    using that survivors_facts(2) survivors_mem by force
  show ?thesis
  proof
    assume c: "c \<in> set (top_survivors claims)"
    then have m: "c \<in> ?S" "cl_authority c = Max (cl_authority ` ?S)"
      by (auto simp: top_survivors_def Let_def image_image)
    have "cl_authority d \<le> cl_authority c" if d: "d \<in> set (live_claims claims)" for d
    proof -
      obtain x where "(claim_hash d, x) \<in> set (survivors_of claims)" "cl_authority d \<le> cl_authority x"
        using survivor_of_live [OF d] .
      then show ?thesis using m(2) by (metis Max_ge finite_imageI imageI List.finite_set order_trans snd_conv)
    qed
    then show "(claim_hash c, c) \<in> set (survivors_of claims) \<and>
     (\<forall>d \<in> set (live_claims claims). cl_authority d \<le> cl_authority c)" using m(1) key by force
  next
    assume c: "(claim_hash c, c) \<in> set (survivors_of claims) \<and>
     (\<forall>d \<in> set (live_claims claims). cl_authority d \<le> cl_authority c)"
    then have "c \<in> ?S" by force
    moreover have "Max (cl_authority ` ?S) = cl_authority c"
      using c live \<open>c \<in> ?S\<close> by (intro Max_eqI) auto
    ultimately show "c \<in> set (top_survivors claims)"
      by (simp add: top_survivors_def Let_def image_image)
  qed
qed

lemma top_survivors_empty: "top_survivors claims = [] \<longleftrightarrow> live_claims claims = []"
proof
  assume t: "top_survivors claims = []"
  show "live_claims claims = []"
  proof (rule ccontr)
    assume ne: "live_claims claims \<noteq> []"
    let ?A = "cl_authority ` set (live_claims claims)"
    have "Max ?A \<in> ?A" using ne by (intro Max_in) simp_all
    then obtain d where d: "d \<in> set (live_claims claims)" "cl_authority d = Max ?A" by auto
    have d2: "\<forall>x \<in> set (live_claims claims). cl_authority x \<le> cl_authority d"
      unfolding d(2) by (intro ballI Max_ge) simp_all
    obtain c where c: "(claim_hash d, c) \<in> set (survivors_of claims)" "cl_authority d \<le> cl_authority c"
      using survivor_of_live [OF d(1)] .
    then have "claim_hash c = claim_hash d" using survivors_facts(2) survivors_mem by metis
    then have "c \<in> set (top_survivors claims)"
      using c d2 by (auto simp: top_survivors_mem intro: order_trans)
    then show False using t by simp
  qed
qed (simp add: top_survivors_def survivors_empty [THEN iffD2])

lemma resolve_eq:
  "resolve_by_authority claims =
     (if live_claims claims = [] then Escalate ''no authenticated, un-undercut claim'' (map cl_observation claims)
      else case top_survivors claims of
          [w] \<Rightarrow> Resolved (cl_observation w) (sort_key ob_payload_hash
              (filter (\<lambda>o1. ob_payload_hash o1 \<noteq> claim_hash w) (map cl_observation (map snd (survivors_of claims)))))
        | tops \<Rightarrow> Escalate (show_nat (length tops) @ '' claims tie at top authority tier ''
              @ authority_debug (Max (set (map cl_authority (map snd (survivors_of claims))))))
            (sort_key ob_payload_hash (map cl_observation tops)))"
proof (cases "live_claims claims = []")
  case True
  then show ?thesis by (simp add: resolve_by_authority_def Let_def)
next
  case False
  then have "map snd (survivors_of claims) \<noteq> []" using survivors_empty by simp
  then show ?thesis using False
    by (cases "map snd (survivors_of claims)")
       (simp_all add: resolve_by_authority_def Let_def survivors_of_def top_survivors_def split: list.splits)
qed

lemma top_survivors_hash_distinct: "distinct (map claim_hash (top_survivors claims))"
proof -
  have "map claim_hash (map snd (survivors_of claims)) = map fst (survivors_of claims)"
    using survivors_facts(2) survivors_mem by (auto simp: map_eq_conv)
  then have "distinct (map claim_hash (map snd (survivors_of claims)))"
    using bt_ok_distinct [OF survivors_facts(1)] by metis
  then show ?thesis by (simp add: top_survivors_def Let_def distinct_map_filter)
qed

lemma authority_decides_parts:
  "resolve_by_authority claims = Resolved w superseded \<Longrightarrow>
     \<exists>c \<in> set (live_claims claims). cl_observation c = w
       \<and> (\<forall>d \<in> set (live_claims claims). claim_hash d \<noteq> ob_payload_hash w \<longrightarrow> cl_authority d < cl_authority c)
       \<and> ob_payload_hash ` set superseded = claim_hash ` set (live_claims claims) - {ob_payload_hash w}
       \<and> sorted (map ob_payload_hash superseded)"
  "resolve_by_authority claims = Escalate reason candidates \<Longrightarrow>
     (live_claims claims = [] \<and> candidates = map cl_observation claims)
     \<or> (\<exists>c \<in> set (live_claims claims). \<exists>d \<in> set (live_claims claims). claim_hash c \<noteq> claim_hash d
         \<and> cl_observation c \<in> set candidates \<and> cl_observation d \<in> set candidates
         \<and> (\<forall>x \<in> set (live_claims claims). cl_authority x \<le> cl_authority c \<and> cl_authority x \<le> cl_authority d))"
proof -
  have live: "x \<in> set (live_claims claims)" if "(h, x) \<in> set (survivors_of claims)" for h x
    using that survivors_facts(2) survivors_mem by metis
  have key: "h = claim_hash x" if "(h, x) \<in> set (survivors_of claims)" for h x
    using that survivors_facts(2) survivors_mem by metis
  assume r: "resolve_by_authority claims = Resolved w superseded"
  then obtain c where t: "top_survivors claims = [c]" and w: "w = cl_observation c"
    and s: "superseded = sort_key ob_payload_hash (filter (\<lambda>o1. ob_payload_hash o1 \<noteq> claim_hash c)
        (map cl_observation (map snd (survivors_of claims))))"
    by (auto simp: resolve_eq split: if_splits list.splits)
  have c: "(claim_hash c, c) \<in> set (survivors_of claims)"
    "\<forall>d \<in> set (live_claims claims). cl_authority d \<le> cl_authority c"
    using t top_survivors_mem [of c claims] by simp_all
  have "cl_authority d < cl_authority c" if d: "d \<in> set (live_claims claims)" "claim_hash d \<noteq> ob_payload_hash w" for d
  proof (rule ccontr)
    assume "\<not> cl_authority d < cl_authority c"
    then have e: "cl_authority d = cl_authority c" using c(2) d(1) by (simp add: antisym not_less)
    obtain x where x: "(claim_hash d, x) \<in> set (survivors_of claims)" "cl_authority d \<le> cl_authority x"
      using survivor_of_live [OF d(1)] .
    then have "x \<in> set (top_survivors claims)"
      using key [OF x(1)] c(2) e by (auto simp: top_survivors_mem intro: order_trans)
    then have "x = c" using t by simp
    then show False using key [OF x(1)] d(2) w by (simp add: claim_hash_def)
  qed
  moreover have "claim_hash ` set (live_claims claims) = claim_hash ` snd ` set (survivors_of claims)"
  proof
    show "claim_hash ` snd ` set (survivors_of claims) \<subseteq> claim_hash ` set (live_claims claims)"
      using live by force
    show "claim_hash ` set (live_claims claims) \<subseteq> claim_hash ` snd ` set (survivors_of claims)"
    proof
      fix h assume "h \<in> claim_hash ` set (live_claims claims)"
      then obtain d where "d \<in> set (live_claims claims)" "h = claim_hash d" by auto
      then obtain x where "(h, x) \<in> set (survivors_of claims)" using survivor_of_live by metis
      then show "h \<in> claim_hash ` snd ` set (survivors_of claims)" using key by force
    qed
  qed
  then have "ob_payload_hash ` set superseded = claim_hash ` set (live_claims claims) - {ob_payload_hash w}"
    unfolding s w by (auto simp: claim_hash_def image_iff)
  ultimately show "\<exists>c \<in> set (live_claims claims). cl_observation c = w
       \<and> (\<forall>d \<in> set (live_claims claims). claim_hash d \<noteq> ob_payload_hash w \<longrightarrow> cl_authority d < cl_authority c)
       \<and> ob_payload_hash ` set superseded = claim_hash ` set (live_claims claims) - {ob_payload_hash w}
       \<and> sorted (map ob_payload_hash superseded)"
    using live [OF c(1)] w s by (intro bexI [of _ c]) auto
next
  assume e: "resolve_by_authority claims = Escalate reason candidates"
  show "(live_claims claims = [] \<and> candidates = map cl_observation claims)
     \<or> (\<exists>c \<in> set (live_claims claims). \<exists>d \<in> set (live_claims claims). claim_hash c \<noteq> claim_hash d
         \<and> cl_observation c \<in> set candidates \<and> cl_observation d \<in> set candidates
         \<and> (\<forall>x \<in> set (live_claims claims). cl_authority x \<le> cl_authority c \<and> cl_authority x \<le> cl_authority d))"
  proof (cases "live_claims claims = []")
    case True
    then show ?thesis using e by (simp add: resolve_eq)
  next
    case False
    then have "top_survivors claims \<noteq> []" by (simp add: top_survivors_empty)
    then obtain c d rest where t: "top_survivors claims = c # d # rest"
      using e False by (auto simp: resolve_eq split: list.splits)
    then have cs: "candidates = sort_key ob_payload_hash (map cl_observation (top_survivors claims))"
      using e False by (auto simp: resolve_eq split: list.splits)
    have cd: "c \<in> set (top_survivors claims)" "d \<in> set (top_survivors claims)" "claim_hash c \<noteq> claim_hash d"
      using t top_survivors_hash_distinct [of claims] by simp_all
    then have "c \<in> set (live_claims claims)" "d \<in> set (live_claims claims)"
      using survivors_facts(2) survivors_mem unfolding top_survivors_mem by metis+
    moreover have "cl_observation c \<in> set candidates" "cl_observation d \<in> set candidates"
      using cd cs by simp_all
    ultimately show ?thesis using cd unfolding top_survivors_mem by blast
  qed
qed

text \<open>
  C34. A conflict is won by authority alone. The winner is an authenticated claim that no
  authenticated claim undercuts, and every other such claim with a different content has strictly
  less authority, whatever its time; the superseded observations are kept. Otherwise the conflict is
  escalated: because no claim is left, or because two different claims share the highest authority.
\<close>

theorem authority_decides:
  "((resolve_by_authority claims = Resolved w superseded) \<longrightarrow> (\<exists>c \<in> set (live_claims claims). cl_observation c = w
       \<and> (\<forall>d \<in> set (live_claims claims). claim_hash d \<noteq> ob_payload_hash w \<longrightarrow> cl_authority d < cl_authority c)
       \<and> ob_payload_hash ` set superseded = claim_hash ` set (live_claims claims) - {ob_payload_hash w}
       \<and> sorted (map ob_payload_hash superseded)))
     \<and> ((resolve_by_authority claims = Escalate reason candidates) \<longrightarrow> ((live_claims claims = [] \<and> candidates = map cl_observation claims)
     \<or> (\<exists>c \<in> set (live_claims claims). \<exists>d \<in> set (live_claims claims). claim_hash c \<noteq> claim_hash d
         \<and> cl_observation c \<in> set candidates \<and> cl_observation d \<in> set candidates
         \<and> (\<forall>x \<in> set (live_claims claims). cl_authority x \<le> cl_authority c \<and> cl_authority x \<le> cl_authority d))))"
  by (rule conjI, rule impI, (rule authority_decides_parts(1); assumption),
      rule impI, (rule authority_decides_parts(2); assumption))

definition claim :: "string \<Rightarrow> int \<Rightarrow> authority \<Rightarrow> authoritative_claim" where
  "claim v t a = \<lparr> cl_observation = seen ''user'' v Status (FvString v) t, cl_authority = a,
     cl_authenticated = True, cl_undercuts = None \<rparr>"

theorem authority_decides_witness:
  "\<exists>c \<in> set (live_claims [claim ''old'' 1 HumanCorrection, claim ''new'' 9 AgentAssertion]).
     cl_observation c = cl_observation (claim ''old'' 1 HumanCorrection)
     \<and> (\<forall>d \<in> set (live_claims [claim ''old'' 1 HumanCorrection, claim ''new'' 9 AgentAssertion]).
          claim_hash d \<noteq> ''old'' \<longrightarrow> cl_authority d < cl_authority c)"
proof -
  have r: "resolve_by_authority [claim ''old'' 1 HumanCorrection, claim ''new'' 9 AgentAssertion]
      = Resolved (cl_observation (claim ''old'' 1 HumanCorrection)) [cl_observation (claim ''new'' 9 AgentAssertion)]"
    by (simp add: resolve_by_authority_def live_claims_def claim_def claim_hash_def seen_def
        bt_keep_max_def List.map_filter_simps less_authority_def less_eq_authority_def max_def Let_def)
  then show ?thesis using authority_decides [THEN conjunct1, THEN mp, OF r] by (auto simp: claim_def seen_def)
qed

text \<open>
  With no authenticated claim the candidates are the claims as they came, so there the result does
  depend on their order and repetition, unlike everywhere else.
\<close>

lemma unauthenticated_candidates_keep_order:
  "cl_authenticated c = False \<Longrightarrow>
   resolve_by_authority [c] = Escalate ''no authenticated, un-undercut claim'' [cl_observation c]
   \<and> resolve_by_authority [c, c] = Escalate ''no authenticated, un-undercut claim'' [cl_observation c, cl_observation c]"
  by (simp add: resolve_by_authority_def live_claims_def Let_def)

section \<open>The roll-up\<close>

lemma fold_thread_status:
  "tr_status (fold_thread t) =
     (if tn_beads t = [] then RuEmpty
      else if \<exists>b \<in> set (tn_beads t). bn_status b = LfBlocked then RuBlocked
      else if \<forall>b \<in> set (tn_beads t). bn_status b = LfDone then RuDone else RuInProgress)"
proof -
  have "length (filter P xs) = length xs \<longleftrightarrow> (\<forall>x \<in> set xs. P x)" for P :: "bead_node \<Rightarrow> bool" and xs
    by (metis filter_True filter_id_conv length_filter_less nat_neq_iff)
  then show ?thesis by (simp add: fold_thread_def Let_def list_ex_iff)
qed

lemma tree_fold_meaning_parts:
  "dr_status (tree_fold d) = RuBlocked \<longleftrightarrow>
     (\<exists>t \<in> set (dn_threads d). \<exists>b \<in> set (tn_beads t). bn_status b = LfBlocked)"
  "dr_status (tree_fold d) = RuDone \<longleftrightarrow>
     dn_threads d \<noteq> [] \<and> (\<forall>t \<in> set (dn_threads d). tn_beads t \<noteq> [] \<and> (\<forall>b \<in> set (tn_beads t). bn_status b = LfDone))"
  "dr_status (tree_fold d) = RuEmpty \<longleftrightarrow> dn_threads d = []"
  "mset (dr_threads (tree_fold d)) = mset (map fold_thread (dn_threads d)) \<and> sorted (map tr_thread_id (dr_threads (tree_fold d)))"
  "distinct (map tn_thread_id (dn_threads d)) \<Longrightarrow> mset ts = mset (dn_threads d) \<Longrightarrow>
     tree_fold (d\<lparr> dn_threads := ts \<rparr>) = tree_fold d"
proof -
  let ?R = "sort_key tr_thread_id (map fold_thread (dn_threads d))"
  have all: "length (filter P xs) = length xs \<longleftrightarrow> (\<forall>x \<in> set xs. P x)" for P :: "thread_rollup \<Rightarrow> bool" and xs
    by (metis filter_True filter_id_conv length_filter_less nat_neq_iff)
  have st: "dr_status (tree_fold d) =
     (if dn_threads d = [] then RuEmpty
      else if \<exists>t \<in> set (dn_threads d). tr_status (fold_thread t) = RuBlocked then RuBlocked
      else if \<forall>t \<in> set (dn_threads d). tr_status (fold_thread t) = RuDone then RuDone else RuInProgress)"
  proof -
    have "?R = [] \<longleftrightarrow> dn_threads d = []" by (metis length_0_conv length_map length_sort)
    then show ?thesis
      using all [of "\<lambda>t. tr_status t = RuDone" ?R] by (simp add: tree_fold_def Let_def list_ex_iff)
  qed
  have blocked: "tr_status (fold_thread t) = RuBlocked \<longleftrightarrow> (\<exists>b \<in> set (tn_beads t). bn_status b = LfBlocked)" for t
    by (auto simp: fold_thread_status)
  have finished: "tr_status (fold_thread t) = RuDone \<longleftrightarrow> tn_beads t \<noteq> [] \<and> (\<forall>b \<in> set (tn_beads t). bn_status b = LfDone)" for t
    by (auto simp: fold_thread_status)
  show "dr_status (tree_fold d) = RuBlocked \<longleftrightarrow>
     (\<exists>t \<in> set (dn_threads d). \<exists>b \<in> set (tn_beads t). bn_status b = LfBlocked)"
    by (auto simp: st blocked)
  show "dr_status (tree_fold d) = RuDone \<longleftrightarrow>
     dn_threads d \<noteq> [] \<and> (\<forall>t \<in> set (dn_threads d). tn_beads t \<noteq> [] \<and> (\<forall>b \<in> set (tn_beads t). bn_status b = LfDone))"
    unfolding st by (auto simp: finished blocked)
  show "dr_status (tree_fold d) = RuEmpty \<longleftrightarrow> dn_threads d = []"
    by (auto simp: st)
  show "mset (dr_threads (tree_fold d)) = mset (map fold_thread (dn_threads d)) \<and> sorted (map tr_thread_id (dr_threads (tree_fold d)))"
    by (simp add: tree_fold_def Let_def)
  show "tree_fold (d\<lparr> dn_threads := ts \<rparr>) = tree_fold d"
    if "distinct (map tn_thread_id (dn_threads d))" "mset ts = mset (dn_threads d)"
  proof -
    have "inj_on tr_thread_id (set (map fold_thread ts))"
      using that mset_eq_setD [OF that(2)] by (auto simp: inj_on_def fold_thread_def Let_def distinct_map)
    then have "sort_key tr_thread_id (map fold_thread ts) = ?R"
      using that(2) by (intro sort_key_inj_key_eq) simp_all
    then show ?thesis by (simp add: tree_fold_def)
  qed
qed

text \<open>
  The roll-up of a decade says what it should: blocked exactly when some bead in it is blocked;
  done exactly when it has a thread, every thread has a bead and every bead is done; empty exactly
  when it has no thread. Its counts are those of its threads, its threads are listed in order of
  their identifiers, and listing them differently in the input changes nothing.
\<close>

theorem tree_fold_meaning:
  "(dr_status (tree_fold d) = RuBlocked \<longleftrightarrow>
     (\<exists>t \<in> set (dn_threads d). \<exists>b \<in> set (tn_beads t). bn_status b = LfBlocked))
     \<and> (dr_status (tree_fold d) = RuDone \<longleftrightarrow>
     dn_threads d \<noteq> [] \<and> (\<forall>t \<in> set (dn_threads d). tn_beads t \<noteq> [] \<and> (\<forall>b \<in> set (tn_beads t). bn_status b = LfDone)))
     \<and> (dr_status (tree_fold d) = RuEmpty \<longleftrightarrow> dn_threads d = [])
     \<and> (mset (dr_threads (tree_fold d)) = mset (map fold_thread (dn_threads d)) \<and> sorted (map tr_thread_id (dr_threads (tree_fold d))))
     \<and> ((distinct (map tn_thread_id (dn_threads d))) \<longrightarrow> (mset ts = mset (dn_threads d)) \<longrightarrow> (tree_fold (d\<lparr> dn_threads := ts \<rparr>) = tree_fold d))"
  by (rule conjI, rule tree_fold_meaning_parts(1),
      rule conjI, rule tree_fold_meaning_parts(2),
      rule conjI, rule tree_fold_meaning_parts(3),
      rule conjI, rule tree_fold_meaning_parts(4),
      rule impI, rule impI, (rule tree_fold_meaning_parts(5); assumption))

definition small_decade :: decade_node where
  "small_decade = \<lparr> dn_decade_id = ''ADR-1'', dn_threads =
     [\<lparr> tn_thread_id = ''b'', tn_beads = [\<lparr> bn_bead_id = ''x'', bn_status = LfDone \<rparr>] \<rparr>,
      \<lparr> tn_thread_id = ''a'', tn_beads = [\<lparr> bn_bead_id = ''y'', bn_status = LfDone \<rparr>] \<rparr>] \<rparr>"

theorem tree_fold_meaning_witness:
  "tree_fold (small_decade\<lparr> dn_threads := rev (dn_threads small_decade) \<rparr>) = tree_fold small_decade
   \<and> dr_status (tree_fold small_decade) = RuDone"
  using tree_fold_meaning [THEN conjunct2, THEN conjunct2, THEN conjunct2, THEN conjunct2, THEN mp, THEN mp, of small_decade "rev (dn_threads small_decade)"]
    tree_fold_meaning [THEN conjunct2, THEN conjunct1, of small_decade]
  by (simp add: small_decade_def)

section \<open>The derived status\<close>

lemma by_phase_mem:
  "(n, v) \<in> set (by_phase obs work) \<longleftrightarrow>
     (\<exists>o1 \<in> set obs. ob_work_item o1 = work \<and> ob_value o1 = FvVerdict v \<and> phase_of_event o1 = n)"
proof -
  have "(case ob_value o1 of FvVerdict w \<Rightarrow> Some (phase_of_event o1, w) | _ \<Rightarrow> None) = Some (n, v)
      \<longleftrightarrow> ob_value o1 = FvVerdict v \<and> phase_of_event o1 = n" for o1
    by (cases "ob_value o1") auto
  then show ?thesis by (auto simp: by_phase_def map_simps)
qed

lemma phase_local_status_cong: "set vs = set vs' \<Longrightarrow> phase_local_status vs = phase_local_status vs'"
  by (simp add: phase_local_status_def)

lemma phase_local_status_known:
  "vs \<noteq> [] \<Longrightarrow> VDone \<notin> set vs \<Longrightarrow> VDeadletter \<notin> set vs \<Longrightarrow> \<exists>s. phase_local_status vs = Some s"
proof -
  assume a: "vs \<noteq> []" "VDone \<notin> set vs" "VDeadletter \<notin> set vs"
  obtain v where v: "List.member vs v" using a(1) by (meson last_in_set List.member_iff)
  show ?thesis
  proof (rule ccontr)
    assume "\<not> ?thesis"
    then have "\<not> List.member vs VPrOpen \<and> \<not> List.member vs VPass \<and> \<not> List.member vs VFail
        \<and> \<not> List.member vs VVerifying \<and> \<not> List.member vs VDispatched"
      by (auto simp: phase_local_status_def simp del: List.member_iff split: if_splits)
    then show False using v a(2,3) by (cases v) simp_all
  qed
qed

lemma phase_local_status_text:
  "phase_local_status vs = Some s \<Longrightarrow> s \<noteq> ''done'' \<and> s \<noteq> ''dead_letter''"
  by (auto simp: phase_local_status_def split: if_splits)

definition governing :: "observation list \<Rightarrow> work_ref \<Rightarrow> nat \<Rightarrow> bool" where
  "governing obs work n \<longleftrightarrow>
     n \<in> fst ` set (by_phase obs work) \<and> (\<forall>(m, v) \<in> set (by_phase obs work). m \<le> n)"

definition verdicts_at :: "observation list \<Rightarrow> work_ref \<Rightarrow> nat \<Rightarrow> verdict list" where
  "verdicts_at obs work n = map snd (filter (\<lambda>p. fst p = n) (by_phase obs work))"

lemma verdicts_at_set: "v \<in> set (verdicts_at obs work n) \<longleftrightarrow> (n, v) \<in> set (by_phase obs work)"
  by (force simp: verdicts_at_def)

lemma governing_max: "governing obs work n \<Longrightarrow> Max (set (map fst (by_phase obs work))) = n"
  by (force simp: governing_def intro!: Max_eqI)

lemma governing_exists: "by_phase obs work \<noteq> [] \<Longrightarrow> \<exists>n. governing obs work n"
proof -
  assume "by_phase obs work \<noteq> []"
  then have "Max (fst ` set (by_phase obs work)) \<in> fst ` set (by_phase obs work)" by (intro Max_in) simp_all
  then have "governing obs work (Max (fst ` set (by_phase obs work)))"
    unfolding governing_def by (auto simp del: Max_eq_iff intro!: Max_ge intro: rev_image_eqI)
  then show ?thesis ..
qed

lemma shadow_status_cases:
  "shadow_status obs work =
     (if by_phase obs work = [] then None
      else if \<exists>n. (n, VDone) \<in> set (by_phase obs work) then Some ''done''
      else if \<exists>n. (n, VDeadletter) \<in> set (by_phase obs work) then Some ''dead_letter''
      else phase_local_status (verdicts_at obs work (Max (set (map fst (by_phase obs work))))))"
proof -
  have "list_ex (\<lambda>p. snd p = v) ps \<longleftrightarrow> (\<exists>n. (n, v) \<in> set ps)" for v and ps :: "(nat \<times> verdict) list"
    by (force simp: list_ex_iff)
  then show ?thesis unfolding shadow_status_def Let_def verdicts_at_def by simp
qed

lemma shadow_status_governed:
  assumes "governing obs work n" "\<forall>m v. (m, v) \<in> set (by_phase obs work) \<longrightarrow> v \<noteq> VDone \<and> v \<noteq> VDeadletter"
  shows "shadow_status obs work = phase_local_status (verdicts_at obs work n)"
  using assms governing_max [OF assms(1)] by (auto simp: shadow_status_cases governing_def)

lemma phase_local_known:
  assumes "by_phase obs work \<noteq> []" "\<not> (\<exists>n. (n, VDone) \<in> set (by_phase obs work))"
    "\<not> (\<exists>n. (n, VDeadletter) \<in> set (by_phase obs work))"
  shows "\<exists>s. phase_local_status (verdicts_at obs work (Max (set (map fst (by_phase obs work))))) = Some s
      \<and> s \<noteq> ''done'' \<and> s \<noteq> ''dead_letter''"
proof -
  obtain n where n: "governing obs work n" using governing_exists [OF assms(1)] by blast
  then obtain v where "v \<in> set (verdicts_at obs work n)" by (auto simp: governing_def verdicts_at_set)
  then have "verdicts_at obs work n \<noteq> []" by auto
  then obtain s where "phase_local_status (verdicts_at obs work n) = Some s"
    using phase_local_status_known assms(2,3) by (metis verdicts_at_set)
  then show ?thesis using phase_local_status_text governing_max [OF n] by metis
qed

lemma derived_status_is_governed_by_the_highest_phase_parts:
  "set (by_phase obs work) = set (by_phase obs' work) \<Longrightarrow> shadow_status obs work = shadow_status obs' work"
  "shadow_status obs work = Some ''done'' \<longleftrightarrow> (\<exists>n. (n, VDone) \<in> set (by_phase obs work))"
  "shadow_status obs work = Some ''dead_letter'' \<longleftrightarrow>
     (\<exists>n. (n, VDeadletter) \<in> set (by_phase obs work)) \<and> \<not> (\<exists>n. (n, VDone) \<in> set (by_phase obs work))"
  "shadow_status obs work = None \<longleftrightarrow> by_phase obs work = []"
  "\<forall>m v. (m, v) \<in> set (by_phase obs work) \<longrightarrow> v \<noteq> VDone \<and> v \<noteq> VDeadletter \<Longrightarrow> governing obs work n \<Longrightarrow>
     (n, VFail) \<in> set (by_phase obs work) \<Longrightarrow> (n, VPass) \<notin> set (by_phase obs work) \<Longrightarrow>
     (n, VPrOpen) \<notin> set (by_phase obs work) \<Longrightarrow> shadow_status obs work = Some ''open''"
proof -
  have at: "set (verdicts_at obs work n) = set (verdicts_at obs' work n)"
    if "set (by_phase obs work) = set (by_phase obs' work)" for n
    using that by (auto simp: verdicts_at_set)
  show "shadow_status obs work = shadow_status obs' work" if s: "set (by_phase obs work) = set (by_phase obs' work)"
  proof -
    have "by_phase obs work = [] \<longleftrightarrow> by_phase obs' work = []" using s by (metis set_empty)
    moreover have "set (map fst (by_phase obs work)) = set (map fst (by_phase obs' work))" using s by simp
    ultimately show ?thesis
      unfolding shadow_status_cases using s phase_local_status_cong [OF at [OF s]] by simp
  qed
  let ?done = "\<exists>n. (n, VDone) \<in> set (by_phase obs work)"
  let ?dead = "\<exists>n. (n, VDeadletter) \<in> set (by_phase obs work)"
  have sh: "(by_phase obs work = [] \<and> \<not> ?done \<and> \<not> ?dead \<and> shadow_status obs work = None)
    \<or> (by_phase obs work \<noteq> [] \<and> ?done \<and> shadow_status obs work = Some ''done'')
    \<or> (by_phase obs work \<noteq> [] \<and> \<not> ?done \<and> ?dead \<and> shadow_status obs work = Some ''dead_letter'')
    \<or> (by_phase obs work \<noteq> [] \<and> \<not> ?done \<and> \<not> ?dead
        \<and> (\<exists>s. shadow_status obs work = Some s \<and> s \<noteq> ''done'' \<and> s \<noteq> ''dead_letter''))"
    using phase_local_known [of obs work] unfolding shadow_status_cases
    by (cases "by_phase obs work = []"; cases ?done; cases ?dead) (simp_all only: if_True if_False, simp_all)
  have differ: "''done'' \<noteq> ''dead_letter''" by simp
  show "shadow_status obs work = Some ''done'' \<longleftrightarrow> ?done" using sh differ by (metis option.distinct(1) option.inject)
  show "shadow_status obs work = Some ''dead_letter'' \<longleftrightarrow> ?dead \<and> \<not> ?done"
    using sh differ by (metis option.distinct(1) option.inject)
  show "shadow_status obs work = None \<longleftrightarrow> by_phase obs work = []"
    using sh by (metis option.distinct(1))
  show "shadow_status obs work = Some ''open''"
    if "\<forall>m v. (m, v) \<in> set (by_phase obs work) \<longrightarrow> v \<noteq> VDone \<and> v \<noteq> VDeadletter" "governing obs work n"
      "(n, VFail) \<in> set (by_phase obs work)" "(n, VPass) \<notin> set (by_phase obs work)"
      "(n, VPrOpen) \<notin> set (by_phase obs work)"
    using that shadow_status_governed [OF that(2,1)] by (simp add: phase_local_status_def verdicts_at_set)
qed

text \<open>
  The derived status depends only on the set of verdicts recorded per phase, not on their order
  or repetition. A verdict of done settles it, otherwise a dead letter does, from whatever phase; it
  is there exactly when a verdict is. Otherwise the highest phase governs alone: a failure in it,
  with no pass, reads as open, whatever an earlier phase passed - and also when the phase has since
  been dispatched or verified again, so a retry in flight is not seen.
\<close>

theorem derived_status_is_governed_by_the_highest_phase:
  "((set (by_phase obs work) = set (by_phase obs' work)) \<longrightarrow> (shadow_status obs work = shadow_status obs' work))
     \<and> (shadow_status obs work = Some ''done'' \<longleftrightarrow> (\<exists>n. (n, VDone) \<in> set (by_phase obs work)))
     \<and> (shadow_status obs work = Some ''dead_letter'' \<longleftrightarrow>
     (\<exists>n. (n, VDeadletter) \<in> set (by_phase obs work)) \<and> \<not> (\<exists>n. (n, VDone) \<in> set (by_phase obs work)))
     \<and> (shadow_status obs work = None \<longleftrightarrow> by_phase obs work = [])
     \<and> ((\<forall>m v. (m, v) \<in> set (by_phase obs work) \<longrightarrow> v \<noteq> VDone \<and> v \<noteq> VDeadletter) \<longrightarrow> (governing obs work n) \<longrightarrow> ((n, VFail) \<in> set (by_phase obs work)) \<longrightarrow> ((n, VPass) \<notin> set (by_phase obs work)) \<longrightarrow> ((n, VPrOpen) \<notin> set (by_phase obs work)) \<longrightarrow> (shadow_status obs work = Some ''open''))"
  by (rule conjI, rule impI, (rule derived_status_is_governed_by_the_highest_phase_parts(1); assumption),
      rule conjI, rule derived_status_is_governed_by_the_highest_phase_parts(2),
      rule conjI, rule derived_status_is_governed_by_the_highest_phase_parts(3),
      rule conjI, rule derived_status_is_governed_by_the_highest_phase_parts(4),
      rule impI, rule impI, rule impI, rule impI, rule impI, (rule derived_status_is_governed_by_the_highest_phase_parts(5); assumption))

definition verdict_at :: "nat \<Rightarrow> verdict \<Rightarrow> observation" where
  "verdict_at n v = seen ''rosary'' (''phase'' @ show_nat n @ '':dev-agent'') PipelineVerdict (FvVerdict v) 0"

theorem derived_status_is_governed_by_the_highest_phase_witness:
  "shadow_status [verdict_at 0 VPass, verdict_at 1 VDispatched, verdict_at 1 VFail, verdict_at 1 VDispatched]
     (WorkRef ''r'' [] ''b'') = Some ''open''"
proof -
  let ?obs = "[verdict_at 0 VPass, verdict_at 1 VDispatched, verdict_at 1 VFail, verdict_at 1 VDispatched]"
  have ph: "phase_of_event (verdict_at n v) = n" if "n < 2 ^ 32" for n v
  proof -
    have "takeWhile (\<lambda>c. c \<noteq> CHR '':'') (show_nat n @ '':dev-agent'') = show_nat n"
      using show_nat_digits [of n]
      by (intro takeWhile_eq_all_conv [THEN iffD2] trans [OF takeWhile_append2])
        (auto simp: list_all_iff is_ascii_digit_def)
    then show ?thesis
      using that by (simp add: phase_of_event_def verdict_at_def seen_def strip_prefix_def starts_with_def parse_show_nat)
  qed
  have b: "by_phase ?obs (WorkRef ''r'' [] ''b'') = [(0, VPass), (1, VDispatched), (1, VFail), (1, VDispatched)]"
    using ph by (simp add: by_phase_def List.map_filter_simps) (simp add: verdict_at_def seen_def List.map_filter_simps)
  then show ?thesis
    by (intro derived_status_is_governed_by_the_highest_phase [THEN conjunct2, THEN conjunct2, THEN conjunct2, THEN conjunct2, THEN mp, THEN mp, THEN mp, THEN mp, THEN mp, of _ _ 1]) (auto simp: governing_def)
qed

section \<open>The legacy events\<close>

text \<open>The flat string the store falls back to (\<open>persist_observation\<close>).\<close>

definition legacy_flat_event :: "nat \<Rightarrow> string \<Rightarrow> verdict \<Rightarrow> string \<Rightarrow> string" where
  "legacy_flat_event phase agent v detail =
     ''phase='' @ show_nat phase @ '' agent='' @ agent @ '' verdict='' @ verdict_debug v
     @ '' detail='' @ detail"

lemma split_ws_acc_space:
  "is_whitespace c \<Longrightarrow> split_ws_acc acc (a @ c # b) = split_ws_acc acc a @ split_ws_acc [] b"
  by (induction acc a rule: split_ws_acc.induct) auto

lemma split_ws_acc_word:
  "\<forall>c \<in> set w. \<not> is_whitespace c \<Longrightarrow> split_ws_acc acc w = (if acc = [] \<and> w = [] then [] else [rev acc @ w])"
  by (induction acc w rule: split_ws_acc.induct) auto

lemma split_whitespace_space:
  "split_whitespace (a @ CHR '' '' # b) = split_whitespace a @ split_whitespace b"
  by (simp add: split_whitespace_def split_ws_acc_space is_whitespace_def)

lemma split_whitespace_word:
  "w \<noteq> [] \<Longrightarrow> \<forall>c \<in> set w. \<not> is_whitespace c \<Longrightarrow> split_whitespace w = [w]"
  by (simp add: split_whitespace_def split_ws_acc_word)

definition no_key :: "string \<Rightarrow> bool" where
  "no_key tok \<longleftrightarrow> \<not> starts_with tok ''phase='' \<and> \<not> starts_with tok ''agent='' \<and> \<not> starts_with tok ''verdict=''"

lemma scan_no_key: "list_all no_key toks \<Longrightarrow> foldl scan_token acc toks = acc"
proof (induction toks)
  case (Cons tok toks)
  have "scan_token acc tok = acc"
    using Cons.prems by (cases acc) (simp add: scan_token_def strip_prefix_def no_key_def)
  then show ?case using Cons by simp
qed simp

lemma show_nat_no_ws: "\<forall>c \<in> set (show_nat n). \<not> is_whitespace c"
  using show_nat_digits [of n] by (auto simp: list_all_iff is_ascii_digit_def is_whitespace_def Let_def)

lemma verdict_debug_word: "\<forall>c \<in> set (verdict_debug v). \<not> is_whitespace c"
  by (cases v) (simp_all add: is_whitespace_def)

lemma verdict_of_debug_debug [simp]: "verdict_of_debug (verdict_debug v) = Some v"
  by (cases v) (simp_all add: verdict_of_debug_def)

lemma phase_of_labelled:
  "n < 2 ^ 32 \<Longrightarrow> ob_source_event_id o1 = ''phase'' @ show_nat n @ CHR '':'' # agent \<Longrightarrow> phase_of_event o1 = n"
proof -
  assume n: "n < 2 ^ 32" and e: "ob_source_event_id o1 = ''phase'' @ show_nat n @ CHR '':'' # agent"
  have "takeWhile (\<lambda>c. c \<noteq> CHR '':'') (show_nat n @ CHR '':'' # agent) = show_nat n"
    using show_nat_digits [of n]
    by (intro trans [OF takeWhile_append2]) (auto simp: list_all_iff is_ascii_digit_def)
  then show ?thesis using n e by (simp add: phase_of_event_def strip_prefix_def starts_with_def parse_show_nat)
qed

lemma legacy_tokens:
  assumes "\<forall>c \<in> set agent. \<not> is_whitespace c"
  shows "split_whitespace (legacy_flat_event phase agent v detail) =
     [''phase='' @ show_nat phase, ''agent='' @ agent, ''verdict='' @ verdict_debug v]
     @ split_whitespace (''detail='' @ detail)"
proof -
  let ?p = "''phase='' @ show_nat phase" and ?a = "''agent='' @ agent" and ?v = "''verdict='' @ verdict_debug v"
  have e: "legacy_flat_event phase agent v detail =
     ?p @ CHR '' '' # (?a @ CHR '' '' # (?v @ CHR '' '' # (''detail='' @ detail)))"
    by (simp add: legacy_flat_event_def)
  have "split_whitespace ?p = [?p]" "split_whitespace ?a = [?a]" "split_whitespace ?v = [?v]"
    using assms show_nat_no_ws [of phase] verdict_debug_word [of v]
    by (intro split_whitespace_word; simp add: is_whitespace_def)+
  then show ?thesis unfolding e split_whitespace_space by simp
qed

lemma scan_legacy:
  "foldl scan_token ([], [], []) [''phase='' @ p, ''agent='' @ a, ''verdict='' @ v] = (p, a, v)"
  by (simp add: scan_token_def strip_prefix_def starts_with_def)

lemma parse_legacy_event:
  assumes "\<forall>c \<in> set agent. \<not> is_whitespace c"
  shows "parse_legacy_flat ph (legacy_flat_event phase agent v detail) work =
     (let (p, a, vd) = foldl scan_token (show_nat phase, agent, verdict_debug v) (split_whitespace (''detail='' @ detail))
      in map_option (\<lambda>pv. pipeline_verdict ph work (canonicalize_source ''rosary'') (''phase'' @ p @ CHR '':'' # a) pv 0)
           (verdict_of_debug vd))"
proof -
  have "starts_with (legacy_flat_event phase agent v detail) ''phase=''"
    by (simp add: legacy_flat_event_def starts_with_def)
  then show ?thesis
    unfolding parse_legacy_flat_def legacy_tokens [OF assms] foldl_append scan_legacy by (simp only: not_True_eq_False if_False)
qed

lemma legacy_events_read_back_parts:
  "\<forall>c \<in> set agent. \<not> is_whitespace c \<Longrightarrow> list_all no_key (split_whitespace (''detail='' @ detail)) \<Longrightarrow>
     \<exists>o1. parse_legacy_flat ph (legacy_flat_event phase agent v detail) work = Some o1
       \<and> ob_work_item o1 = work \<and> ob_value o1 = FvVerdict v
       \<and> ob_source_event_id o1 = ''phase'' @ show_nat phase @ CHR '':'' # agent
       \<and> (phase < 2 ^ 32 \<longrightarrow> phase_of_event o1 = phase)"
  "\<forall>c \<in> set agent. \<not> is_whitespace c \<Longrightarrow> list_all no_key (split_whitespace (''detail='' @ detail)) \<Longrightarrow>
     \<exists>o1. parse_legacy_flat ph (legacy_flat_event phase agent v (detail @ '' verdict='' @ verdict_debug w)) work = Some o1
       \<and> ob_work_item o1 = work \<and> ob_value o1 = FvVerdict w"
proof -
  assume a: "\<forall>c \<in> set agent. \<not> is_whitespace c" and d: "list_all no_key (split_whitespace (''detail='' @ detail))"
  show "\<exists>o1. parse_legacy_flat ph (legacy_flat_event phase agent v detail) work = Some o1
       \<and> ob_work_item o1 = work \<and> ob_value o1 = FvVerdict v
       \<and> ob_source_event_id o1 = ''phase'' @ show_nat phase @ CHR '':'' # agent
       \<and> (phase < 2 ^ 32 \<longrightarrow> phase_of_event o1 = phase)"
    using phase_of_labelled [of phase] unfolding parse_legacy_event [OF a] scan_no_key [OF d]
    by (simp add: pipeline_verdict_def)
  have "split_whitespace (''detail='' @ (detail @ '' verdict='' @ verdict_debug w)) =
      split_whitespace (''detail='' @ detail) @ [''verdict='' @ verdict_debug w]"
    using split_whitespace_space [of "''detail='' @ detail" "''verdict='' @ verdict_debug w"]
      split_whitespace_word [of "''verdict='' @ verdict_debug w"] verdict_debug_word [of w]
    by (simp add: is_whitespace_def)
  then have "foldl scan_token (show_nat phase, agent, verdict_debug v)
        (split_whitespace (''detail='' @ (detail @ '' verdict='' @ verdict_debug w)))
      = (show_nat phase, agent, verdict_debug w)"
    using scan_no_key [OF d] by (simp add: scan_token_def strip_prefix_def starts_with_def)
  then show "\<exists>o1. parse_legacy_flat ph (legacy_flat_event phase agent v (detail @ '' verdict='' @ verdict_debug w)) work = Some o1
       \<and> ob_work_item o1 = work \<and> ob_value o1 = FvVerdict w"
    unfolding parse_legacy_event [OF a] by (simp add: pipeline_verdict_def)
qed

text \<open>
  An event in the legacy form reads back as the verdict, the agent and the phase it was written
  with, for an agent name without white space, if no word of its detail looks like one of the keys.
  But the keys are looked for in the whole string and the last one wins: a detail that ends in
  \<open>verdict=\<close> and the name of another verdict replaces the recorded one.
\<close>

theorem legacy_events_read_back:
  "((\<forall>c \<in> set agent. \<not> is_whitespace c) \<longrightarrow> (list_all no_key (split_whitespace (''detail='' @ detail))) \<longrightarrow> (\<exists>o1. parse_legacy_flat ph (legacy_flat_event phase agent v detail) work = Some o1
       \<and> ob_work_item o1 = work \<and> ob_value o1 = FvVerdict v
       \<and> ob_source_event_id o1 = ''phase'' @ show_nat phase @ CHR '':'' # agent
       \<and> (phase < 2 ^ 32 \<longrightarrow> phase_of_event o1 = phase)))
     \<and> ((\<forall>c \<in> set agent. \<not> is_whitespace c) \<longrightarrow> (list_all no_key (split_whitespace (''detail='' @ detail))) \<longrightarrow> (\<exists>o1. parse_legacy_flat ph (legacy_flat_event phase agent v (detail @ '' verdict='' @ verdict_debug w)) work = Some o1
       \<and> ob_work_item o1 = work \<and> ob_value o1 = FvVerdict w))"
  by (rule conjI, rule impI, rule impI, (rule legacy_events_read_back_parts(1); assumption),
      rule impI, rule impI, (rule legacy_events_read_back_parts(2); assumption))

theorem legacy_events_read_back_witness:
  "\<exists>o1. parse_legacy_flat (\<lambda>_ _ _. []) (legacy_flat_event 2 ''dev-agent'' VFail (''log:'' @ '' verdict='' @ verdict_debug VDone))
     (WorkRef ''r'' [] ''b'') = Some o1 \<and> ob_work_item o1 = WorkRef ''r'' [] ''b'' \<and> ob_value o1 = FvVerdict VDone"
proof (rule legacy_events_read_back [THEN conjunct2, THEN mp, THEN mp])
  show "\<forall>c \<in> set ''dev-agent''. \<not> is_whitespace c" by (simp add: is_whitespace_def)
  show "list_all no_key (split_whitespace (''detail='' @ ''log:''))"
    by (simp add: split_whitespace_word is_whitespace_def no_key_def starts_with_def)
qed

section \<open>The backfill is idempotent\<close>

definition backfill_items :: "merge_commit list \<Rightarrow> (merge_commit \<times> string \<times> nat) list" where
  "backfill_items commits = concat (map (\<lambda>c. map (Pair c) (mc_closures c)) commits)"

definition backfill_step :: "backfill_env \<Rightarrow> backfill_state \<Rightarrow> merge_commit \<times> string \<times> nat \<Rightarrow> backfill_state" where
  "backfill_step env st item = backfill_closure env (fst item) st (snd item)"

lemma backfill_flat:
  "foldl (backfill_commit env) st commits = foldl (backfill_step env) st (backfill_items commits)"
proof (induction commits arbitrary: st)
  case (Cons c commits)
  have "foldl (backfill_closure env c) s xs = foldl (backfill_step env) s (map (Pair c) xs)" for s xs
    by (induction xs arbitrary: s) (simp_all add: backfill_step_def)
  then show ?case using Cons by (simp add: backfill_items_def backfill_commit_def)
qed (simp add: backfill_items_def)

definition item_bead :: "backfill_env \<Rightarrow> merge_commit \<times> string \<times> nat \<Rightarrow> string option" where
  "item_bead env item = resolve_bead_id (be_known env) (fst (snd item))"

definition known_shas :: "backfill_env \<Rightarrow> backfill_state \<Rightarrow> string \<Rightarrow> string set" where
  "known_shas env st b = (case bs_seen st b of Some s \<Rightarrow> s | None \<Rightarrow> existing_git_event_ids env b (bs_events st b))"

lemma backfill_step_eq:
  "backfill_step env st (c, reference, pr) =
     (let st1 = st\<lparr> bs_closures := bs_closures st + 1 \<rparr>
      in case resolve_bead_id (be_known env) reference of
           None \<Rightarrow> if is_bead_shaped reference then st1\<lparr> bs_dangling := insert reference (bs_dangling st) \<rparr>
                   else st1\<lparr> bs_noise := insert reference (bs_noise st) \<rparr>
         | Some b \<Rightarrow>
             if mc_sha c \<in> known_shas env st b
             then st1\<lparr> bs_seen := (bs_seen st)(b \<mapsto> known_shas env st b), bs_already := bs_already st + 1 \<rparr>
             else st1\<lparr> bs_events := (if be_dry_run env then bs_events st
                          else write_merge_observation env b c pr (bs_events st)),
                        bs_seen := (bs_seen st)(b \<mapsto> insert (mc_sha c) (known_shas env st b)),
                        bs_recorded := bs_recorded st + 1 \<rparr>)"
  by (simp add: backfill_step_def backfill_closure_def known_shas_def Let_def split: option.splits)

text \<open>What every run counts alike, whatever was recorded before.\<close>

lemma backfill_counts:
  assumes "st' = foldl (backfill_step env) st items"
  shows "bs_closures st' = bs_closures st + length items"
    and "bs_recorded st' + bs_already st'
       = bs_recorded st + bs_already st + length (filter (\<lambda>i. item_bead env i \<noteq> None) items)"
    and "bs_dangling st' = bs_dangling st \<union> {fst (snd i) | i. i \<in> set items \<and> item_bead env i = None \<and> is_bead_shaped (fst (snd i))}"
    and "bs_noise st' = bs_noise st \<union> {fst (snd i) | i. i \<in> set items \<and> item_bead env i = None \<and> \<not> is_bead_shaped (fst (snd i))}"
proof -
  have "bs_closures (foldl (backfill_step env) st items) = bs_closures st + length items
    \<and> bs_recorded (foldl (backfill_step env) st items) + bs_already (foldl (backfill_step env) st items)
       = bs_recorded st + bs_already st + length (filter (\<lambda>i. item_bead env i \<noteq> None) items)
    \<and> bs_dangling (foldl (backfill_step env) st items)
       = bs_dangling st \<union> {fst (snd i) | i. i \<in> set items \<and> item_bead env i = None \<and> is_bead_shaped (fst (snd i))}
    \<and> bs_noise (foldl (backfill_step env) st items)
       = bs_noise st \<union> {fst (snd i) | i. i \<in> set items \<and> item_bead env i = None \<and> \<not> is_bead_shaped (fst (snd i))}"
  proof (induction items arbitrary: st)
    case (Cons i items)
    obtain c r p where i: "i = (c, r, p)" by (cases i) auto
    show ?case
      unfolding foldl_Cons using Cons.IH [of "backfill_step env st i"]
      by (cases "resolve_bead_id (be_known env) r")
        (auto simp: i backfill_step_eq Let_def item_bead_def)
  qed simp
  then show "bs_closures st' = bs_closures st + length items"
    "bs_recorded st' + bs_already st'
       = bs_recorded st + bs_already st + length (filter (\<lambda>i. item_bead env i \<noteq> None) items)"
    "bs_dangling st' = bs_dangling st \<union> {fst (snd i) | i. i \<in> set items \<and> item_bead env i = None \<and> is_bead_shaped (fst (snd i))}"
    "bs_noise st' = bs_noise st \<union> {fst (snd i) | i. i \<in> set items \<and> item_bead env i = None \<and> \<not> is_bead_shaped (fst (snd i))}"
    unfolding assms by blast+
qed

definition reads_back :: "backfill_env \<Rightarrow> merge_commit \<Rightarrow> bool" where
  "reads_back env c \<longleftrightarrow> (\<forall>b \<in> set (be_known env). \<forall>d.
     be_read env (be_print env (merge_observation env b c) d) = Some (merge_observation env b c))"

lemma resolved_is_known: "resolve_bead_id known r = Some b \<Longrightarrow> b \<in> set known"
proof -
  have "b \<in> set known" if "filter P known = [b]" for P
    using that by (metis filter_is_subset list.set_intros(1) subset_iff)
  then show "resolve_bead_id known r = Some b \<Longrightarrow> b \<in> set known"
    by (auto simp: resolve_bead_id_def split: if_splits list.splits)
qed

lemma existing_after_write:
  assumes "reads_back env c" "b \<in> set (be_known env)"
  shows "existing_git_event_ids env b (write_merge_observation env b c pr events b)
       = insert (mc_sha c) (existing_git_event_ids env b (events b))"
proof -
  have "canonicalize_source GIT_SOURCE = GIT_SOURCE"
    by (simp add: canonicalize_source_def GIT_SOURCE_def trim_def trim_start_def is_whitespace_def
        to_lowercase_def lower_char_def)
  then have g: "ob_source (merge_observation env b c) = GIT_SOURCE"
    "ob_source_event_id (merge_observation env b c) = mc_sha c"
    by (simp_all add: merge_observation_def pipeline_verdict_def)
  have app: "List.map_filter f (xs @ [x]) = List.map_filter f xs @ (case f x of None \<Rightarrow> [] | Some y \<Rightarrow> [y])"
    for f :: "string \<Rightarrow> observation option" and xs x
    by (simp add: List.map_filter_def split: option.splits)
  show ?thesis
    using g assms by (simp add: reads_back_def existing_git_event_ids_def write_merge_observation_def parse_events_for_def app)
qed

definition seen_is_stored :: "backfill_env \<Rightarrow> backfill_state \<Rightarrow> bool" where
  "seen_is_stored env st \<longleftrightarrow> (\<forall>b s. bs_seen st b = Some s \<longrightarrow> s = existing_git_event_ids env b (bs_events st b))"

lemma seen_is_stored_known: "seen_is_stored env st \<Longrightarrow> known_shas env st b = existing_git_event_ids env b (bs_events st b)"
  by (simp add: seen_is_stored_def known_shas_def split: option.splits)

lemma backfill_step_stored:
  assumes rp: "reads_back env (fst i)" and wet: "\<not> be_dry_run env"
    and st: "seen_is_stored env st"
  shows "seen_is_stored env (backfill_step env st i)"
    and "existing_git_event_ids env b (bs_events st b)
      \<subseteq> existing_git_event_ids env b (bs_events (backfill_step env st i) b)"
    and "item_bead env i = Some b \<Longrightarrow>
      mc_sha (fst i) \<in> existing_git_event_ids env b (bs_events (backfill_step env st i) b)"
    and "\<exists>news. bs_events (backfill_step env st i) b = bs_events st b @ news"
proof -
  obtain c r p where i: "i = (c, r, p)" by (cases i) auto
  note k = seen_is_stored_known [OF st]
  have other: "write_merge_observation env b c p ev b' = ev b'" if "b' \<noteq> b" for b b' ev
    using that by (simp add: write_merge_observation_def)
  have ex: "existing_git_event_ids env b (write_merge_observation env b c p ev b)
      = insert (mc_sha c) (existing_git_event_ids env b (ev b))" if "resolve_bead_id (be_known env) r = Some b" for b ev
    using existing_after_write rp resolved_is_known [OF that] by (simp add: i)
  show "seen_is_stored env (backfill_step env st i)"
    using st ex other by (auto simp: i backfill_step_eq Let_def seen_is_stored_def k wet split: option.splits)
  show "existing_git_event_ids env b (bs_events st b)
      \<subseteq> existing_git_event_ids env b (bs_events (backfill_step env st i) b)"
    using ex other by (auto simp: i backfill_step_eq Let_def k wet split: option.splits) (metis insertCI)+
  show "mc_sha (fst i) \<in> existing_git_event_ids env b (bs_events (backfill_step env st i) b)"
    if "item_bead env i = Some b"
    using that ex by (simp add: i item_bead_def backfill_step_eq Let_def k wet)
  show "\<exists>news. bs_events (backfill_step env st i) b = bs_events st b @ news"
    by (auto simp: i backfill_step_eq Let_def wet write_merge_observation_def split: option.splits)
qed

lemma backfill_run_stored:
  assumes rp: "\<forall>i \<in> set items. reads_back env (fst i)" and wet: "\<not> be_dry_run env"
    and st: "seen_is_stored env st"
  shows "seen_is_stored env (foldl (backfill_step env) st items)
    \<and> existing_git_event_ids env b (bs_events st b)
      \<subseteq> existing_git_event_ids env b (bs_events (foldl (backfill_step env) st items) b)
    \<and> (\<forall>i \<in> set items. item_bead env i = Some b \<longrightarrow>
      mc_sha (fst i) \<in> existing_git_event_ids env b (bs_events (foldl (backfill_step env) st items) b))
    \<and> (\<exists>news. bs_events (foldl (backfill_step env) st items) b = bs_events st b @ news)"
  using st rp
proof (induction items arbitrary: st)
  case (Cons i items)
  have "reads_back env (fst i)" using Cons.prems(2) by simp
  note s = backfill_step_stored [OF this wet Cons.prems(1)]
  obtain n1 where n1: "bs_events (backfill_step env st i) b = bs_events st b @ n1" using s(4) by blast
  let ?fin = "foldl (backfill_step env) (backfill_step env st i) items"
  have ih: "seen_is_stored env ?fin"
    "existing_git_event_ids env b (bs_events (backfill_step env st i) b) \<subseteq> existing_git_event_ids env b (bs_events ?fin b)"
    "\<forall>j \<in> set items. item_bead env j = Some b \<longrightarrow> mc_sha (fst j) \<in> existing_git_event_ids env b (bs_events ?fin b)"
    "\<exists>news. bs_events ?fin b = bs_events (backfill_step env st i) b @ news"
    using Cons.IH [OF s(1)] Cons.prems(2) by simp_all
  show ?case unfolding foldl_Cons
  proof (intro conjI)
    show "seen_is_stored env ?fin" by (rule ih(1))
    show "existing_git_event_ids env b (bs_events st b) \<subseteq> existing_git_event_ids env b (bs_events ?fin b)"
      using s(2) ih(2) by (rule subset_trans)
    show "\<forall>j \<in> set (i # items). item_bead env j = Some b \<longrightarrow> mc_sha (fst j) \<in> existing_git_event_ids env b (bs_events ?fin b)"
      using ih(2,3) s(3) by auto
    show "\<exists>news. bs_events ?fin b = bs_events st b @ news" using ih(4) n1 by auto
  qed
qed simp

lemma backfill_rerun:
  assumes "\<forall>i \<in> set items. \<forall>b. item_bead env i = Some b \<longrightarrow> mc_sha (fst i) \<in> existing_git_event_ids env b (bs_events st b)"
    and "seen_is_stored env st"
  shows "bs_events (foldl (backfill_step env) st items) = bs_events st
    \<and> bs_recorded (foldl (backfill_step env) st items) = bs_recorded st"
  using assms
proof (induction items arbitrary: st)
  case (Cons i items)
  obtain c r p where i: "i = (c, r, p)" by (cases i) auto
  note k = seen_is_stored_known [OF Cons.prems(2)]
  have "seen_is_stored env (backfill_step env st i)
      \<and> bs_events (backfill_step env st i) = bs_events st \<and> bs_recorded (backfill_step env st i) = bs_recorded st"
    using Cons.prems by (auto simp: i backfill_step_eq Let_def seen_is_stored_def k item_bead_def split: option.splits)
  then show ?case using Cons.IH [of "backfill_step env st i"] Cons.prems(1) by simp
qed simp

text \<open>A dry run and a real one go through the same states but for the events.\<close>

definition same_but_events :: "backfill_state \<Rightarrow> backfill_state \<Rightarrow> bool" where
  "same_but_events d w \<longleftrightarrow> w\<lparr> bs_events := bs_events d \<rparr> = d \<and> (\<forall>b. bs_seen w b = None \<longrightarrow> bs_events w b = bs_events d b)"

lemma dry_step:
  assumes "same_but_events d w"
  shows "same_but_events (backfill_step (env\<lparr> be_dry_run := True \<rparr>) d i) (backfill_step (env\<lparr> be_dry_run := False \<rparr>) w i)
    \<and> bs_events (backfill_step (env\<lparr> be_dry_run := True \<rparr>) d i) = bs_events d"
proof -
  obtain c r p where i: "i = (c, r, p)" by (cases i) auto
  have ex: "existing_git_event_ids (env\<lparr> be_dry_run := x \<rparr>) = existing_git_event_ids env" for x
    by (intro ext) (simp add: existing_git_event_ids_def)
  have seen: "bs_seen d = bs_seen w" using assms unfolding same_but_events_def by (metis backfill_state.simps(7) backfill_state.ext_inject backfill_state.surjective backfill_state.update_convs(1))
  have ka: "known_shas (env\<lparr> be_dry_run := True \<rparr>) d b = known_shas (env\<lparr> be_dry_run := False \<rparr>) w b" for b
    using assms seen by (simp add: known_shas_def ex same_but_events_def split: option.splits)
  obtain e1 e2 cl re al da no se where d: "d = \<lparr> bs_events = e1, bs_closures = cl, bs_recorded = re, bs_already = al,
      bs_dangling = da, bs_noise = no, bs_seen = se \<rparr>" and w: "w = \<lparr> bs_events = e2, bs_closures = cl, bs_recorded = re,
      bs_already = al, bs_dangling = da, bs_noise = no, bs_seen = se \<rparr>"
    using assms unfolding same_but_events_def by (cases d; cases w) auto
  have same: "\<forall>b. se b = None \<longrightarrow> e2 b = e1 b" using assms by (simp add: same_but_events_def d w)
  show ?thesis
    unfolding i backfill_step_eq ka
    using same by (cases "resolve_bead_id (be_known env) r")
      (auto simp: Let_def d w same_but_events_def write_merge_observation_def)
qed

lemma dry_run_foldl:
  "same_but_events d w \<Longrightarrow>
   same_but_events (foldl (backfill_step (env\<lparr> be_dry_run := True \<rparr>)) d items)
     (foldl (backfill_step (env\<lparr> be_dry_run := False \<rparr>)) w items)
   \<and> bs_events (foldl (backfill_step (env\<lparr> be_dry_run := True \<rparr>)) d items) = bs_events d"
proof (induction items arbitrary: d w)
  case (Cons i items)
  show ?case unfolding foldl_Cons using dry_step [OF Cons.prems, of env i] Cons.IH by metis
qed simp

lemma backfill_is_idempotent_parts:
  assumes "\<forall>b \<in> set (be_known env). \<forall>c \<in> set commits. \<forall>d.
      be_read env (be_print env (merge_observation env b c) d) = Some (merge_observation env b c)"
    and "backfill_repo (env\<lparr> be_dry_run := False \<rparr>) commits events = (report, events1)"
  shows "backfill_repo (env\<lparr> be_dry_run := False \<rparr>) commits events1 =
      (report\<lparr> bf_recorded := 0, bf_already_present := bf_already_present report + bf_recorded report \<rparr>, events1)"
    and "\<exists>news. events1 b = events b @ news"
    and "backfill_repo (env\<lparr> be_dry_run := True \<rparr>) commits events = (report\<lparr> bf_dry_run := True \<rparr>, events)"
proof -
  let ?w = "env\<lparr> be_dry_run := False \<rparr>" and ?i = "backfill_items commits"
  let ?st1 = "foldl (backfill_step ?w) (backfill_start events) ?i"
  let ?st2 = "foldl (backfill_step ?w) (backfill_start events1) ?i"
  let ?d = "foldl (backfill_step (env\<lparr> be_dry_run := True \<rparr>)) (backfill_start events) ?i"
  have rp: "\<forall>i \<in> set ?i. reads_back ?w (fst i)"
    using assms(1) by (auto simp: backfill_items_def reads_back_def merge_observation_def)
  have wet: "\<not> be_dry_run ?w" by simp
  have start: "seen_is_stored ?w (backfill_start ev)" for ev by (simp add: seen_is_stored_def backfill_start_def)
  have e1: "events1 = bs_events ?st1" using assms(2) by (simp add: backfill_repo_def backfill_flat Let_def)
  note run = backfill_run_stored [where items = ?i, OF rp wet start [of events]]
  show "\<exists>news. events1 b = events b @ news" using run [of b] e1 by (simp add: backfill_start_def)
  have again: "bs_events ?st2 = bs_events (backfill_start events1)
      \<and> bs_recorded ?st2 = bs_recorded (backfill_start events1)"
    using run e1 by (intro backfill_rerun start) (simp add: backfill_start_def)
  show "backfill_repo ?w commits events1 =
      (report\<lparr> bf_recorded := 0, bf_already_present := bf_already_present report + bf_recorded report \<rparr>, events1)"
    using assms(2) again backfill_counts [OF refl, of ?w "backfill_start events1" ?i]
      backfill_counts [OF refl, of ?w "backfill_start events" ?i]
    by (auto simp: backfill_repo_def backfill_flat Let_def backfill_start_def)
  have "same_but_events (backfill_start events) (backfill_start events)" by (simp add: same_but_events_def)
  note d = dry_run_foldl [OF this, of env ?i]
  have s: "?st1\<lparr> bs_events := bs_events ?d \<rparr> = ?d" using d unfolding same_but_events_def by blast
  have s2: "bs_events ?d = events" using d by (simp add: backfill_start_def)
  have "bs_closures ?d = bs_closures ?st1" "bs_recorded ?d = bs_recorded ?st1" "bs_already ?d = bs_already ?st1"
    "bs_dangling ?d = bs_dangling ?st1" "bs_noise ?d = bs_noise ?st1"
    by (subst s [symmetric], simp)+
  then show "backfill_repo (env\<lparr> be_dry_run := True \<rparr>) commits events = (report\<lparr> bf_dry_run := True \<rparr>, events)"
    using assms(2) s2 by (auto simp: backfill_repo_def backfill_flat Let_def)
qed

text \<open>
  Replaying the git history twice changes nothing: the second run finds every closure already
  present, records none and reports the same closures, dangling references and noise. A run only
  appends to the events of a bead, and a dry run reports the numbers of the real one while it
  writes nothing. (The printed envelope of an observation is assumed to read back as it.)
\<close>

theorem backfill_is_idempotent:
  assumes "\<forall>b \<in> set (be_known env). \<forall>c \<in> set commits. \<forall>d.
      be_read env (be_print env (merge_observation env b c) d) = Some (merge_observation env b c)"
    and "backfill_repo (env\<lparr> be_dry_run := False \<rparr>) commits events = (report, events1)"
  shows "(backfill_repo (env\<lparr> be_dry_run := False \<rparr>) commits events1 =
      (report\<lparr> bf_recorded := 0, bf_already_present := bf_already_present report + bf_recorded report \<rparr>, events1))
     \<and> (\<exists>news. events1 b = events b @ news)
     \<and> (backfill_repo (env\<lparr> be_dry_run := True \<rparr>) commits events = (report\<lparr> bf_dry_run := True \<rparr>, events))"
  by (rule conjI, rule backfill_is_idempotent_parts(1) [OF assms],
      rule conjI, rule backfill_is_idempotent_parts(2) [OF assms],
      rule backfill_is_idempotent_parts(3) [OF assms])

definition merged :: merge_commit where
  "merged = \<lparr> mc_sha = ''0a1b2c3d4e5f6a'', mc_committed_at = 1700000000,
     mc_closures = [(''rosary-7d4df6'', 41), (''7d4df6'', 41), (''rosary-ffffff'', 41)] \<rparr>"

definition small_history :: backfill_env where
  "small_history =
     (let env = \<lparr> be_read = (\<lambda>_. None), be_print = (\<lambda>_ _. ''envelope''), be_hash = (\<lambda>_ _ _. ''h''),
            be_repo = ''r'', be_known = [''rosary-7d4df6''], be_dry_run = False \<rparr>
      in env\<lparr> be_read := (\<lambda>s. if s = ''envelope'' then Some (merge_observation env ''rosary-7d4df6'' merged) else None) \<rparr>)"

theorem backfill_is_idempotent_witness:
  "\<exists>report events1. backfill_repo small_history [merged] (\<lambda>_. []) = (report, events1)
     \<and> backfill_repo small_history [merged] events1 =
      (report\<lparr> bf_recorded := 0, bf_already_present := bf_already_present report + bf_recorded report \<rparr>, events1)"
proof -
  obtain report events1 where r: "backfill_repo small_history [merged] (\<lambda>_. []) = (report, events1)"
    by (cases "backfill_repo small_history [merged] (\<lambda>_. [])")
  have e: "small_history\<lparr> be_dry_run := False \<rparr> = small_history" by (simp add: small_history_def Let_def)
  have "\<forall>b \<in> set (be_known small_history). \<forall>c \<in> set [merged]. \<forall>d.
      be_read small_history (be_print small_history (merge_observation small_history b c) d)
      = Some (merge_observation small_history b c)"
    by (simp add: small_history_def Let_def merge_observation_def)
  from backfill_is_idempotent [THEN conjunct1, OF this, unfolded e, OF r] r show ?thesis by blast
qed

section \<open>The audit counts every bead once\<close>

definition audited :: "(string \<Rightarrow> observation list) \<Rightarrow> bead \<Rightarrow> bool" where
  "audited observations_of b \<longleftrightarrow> observations_of (b_id b) \<noteq> []"

definition derived_of :: "string \<Rightarrow> (string \<Rightarrow> observation list) \<Rightarrow> bead \<Rightarrow> string option" where
  "derived_of repo_name observations_of b = shadow_status (observations_of (b_id b)) (WorkRef repo_name [] (b_id b))"

definition agreeing :: "string \<Rightarrow> (string \<Rightarrow> observation list) \<Rightarrow> bead \<Rightarrow> bool" where
  "agreeing repo_name observations_of b \<longleftrightarrow>
     (\<exists>e. derived_of repo_name observations_of b = Some e \<and> normalize_status e = normalize_status (b_status b))"

lemma audit_one_eq:
  "audit_one r repo_name obs rep b =
     (if \<not> audited obs b then rep
      else if agreeing repo_name obs b
      then rep\<lparr> au_comparable := au_comparable rep + 1, au_agree := au_agree rep + 1 \<rparr>
      else rep\<lparr> au_comparable := au_comparable rep + 1, au_divergences := au_divergences rep @
             [\<lparr> ar_bead_id = b_id b, ar_status = b_status b,
                ar_folded = folded_pipeline_verdict r (obs (b_id b)) (WorkRef repo_name [] (b_id b)),
                ar_expected = derived_of repo_name obs b \<rparr>] \<rparr>)"
  by (simp add: audit_one_def Let_def audited_def agreeing_def derived_of_def split: option.splits)

text \<open>
  The audit compares every bead that has observations and no other, counts as agreeing exactly
  those whose derived status is the stored one up to closed meaning done, and lists every other one,
  once, in order, with the status it should have - also those no verdict was recorded for.
\<close>

theorem audit_reports_every_disagreement:
  "au_total (audit_store r repo_name obs beads) = length beads
   \<and> au_comparable (audit_store r repo_name obs beads) = length (filter (audited obs) beads)
   \<and> au_agree (audit_store r repo_name obs beads)
      = length (filter (\<lambda>b. audited obs b \<and> agreeing repo_name obs b) beads)
   \<and> map (\<lambda>row. (ar_bead_id row, ar_status row, ar_expected row)) (au_divergences (audit_store r repo_name obs beads))
      = map (\<lambda>b. (b_id b, b_status b, derived_of repo_name obs b))
          (filter (\<lambda>b. audited obs b \<and> \<not> agreeing repo_name obs b) beads)"
proof -
  have "au_total (foldl (audit_one r repo_name obs) rep beads) = au_total rep
   \<and> au_comparable (foldl (audit_one r repo_name obs) rep beads) = au_comparable rep + length (filter (audited obs) beads)
   \<and> au_agree (foldl (audit_one r repo_name obs) rep beads)
      = au_agree rep + length (filter (\<lambda>b. audited obs b \<and> agreeing repo_name obs b) beads)
   \<and> map (\<lambda>row. (ar_bead_id row, ar_status row, ar_expected row)) (au_divergences (foldl (audit_one r repo_name obs) rep beads))
      = map (\<lambda>row. (ar_bead_id row, ar_status row, ar_expected row)) (au_divergences rep)
        @ map (\<lambda>b. (b_id b, b_status b, derived_of repo_name obs b))
          (filter (\<lambda>b. audited obs b \<and> \<not> agreeing repo_name obs b) beads)" for rep
    by (induction beads arbitrary: rep) (simp_all add: audit_one_eq)
  then show ?thesis by (simp add: audit_store_def)
qed

end
