(* ===== verification/Union_Find.thy ===== *)
theory Union_Find
  imports Rosary_Prelude "HOL-Library.Monad_Syntax"
begin

text \<open>
  The union-find structure of \<open>src/epic.rs\<close>: a forest in a vector of parents, with ranks and path
  compression. \<open>find\<close> follows parents until one is its own parent; on a vector with a cycle it would not
  return, so it is a partial function, and that it returns on every forest the structure can hold is
  proved.
\<close>

section \<open>The code\<close>

record union_find =
  uf_parent :: "nat list"
  uf_rank :: "nat list"

definition uf_new :: "nat \<Rightarrow> union_find" where
  "uf_new n = \<lparr> uf_parent = [0..<n], uf_rank = replicate n 0 \<rparr>"

partial_function (option) find_root :: "nat list \<Rightarrow> nat \<Rightarrow> (nat \<times> nat list) option" where
  "find_root p x =
     (if p ! x = x then Some (x, p)
      else do { (r, p') \<leftarrow> find_root p (p ! x); Some (r, p'[x := r]) })"

definition uf_find :: "nat \<Rightarrow> union_find \<Rightarrow> (nat \<times> union_find) option" where
  "uf_find x u = do { (r, p) \<leftarrow> find_root (uf_parent u) x; Some (r, u\<lparr> uf_parent := p \<rparr>) }"

definition uf_union :: "nat \<Rightarrow> nat \<Rightarrow> union_find \<Rightarrow> union_find option" where
  "uf_union x y u =
     do { (rx, u1) \<leftarrow> uf_find x u;
          (ry, u2) \<leftarrow> uf_find y u1;
          Some (if rx = ry then u2
                else if uf_rank u2 ! rx < uf_rank u2 ! ry
                then u2\<lparr> uf_parent := (uf_parent u2)[rx := ry] \<rparr>
                else if uf_rank u2 ! rx > uf_rank u2 ! ry
                then u2\<lparr> uf_parent := (uf_parent u2)[ry := rx] \<rparr>
                else u2\<lparr> uf_parent := (uf_parent u2)[ry := rx],
                         uf_rank := (uf_rank u2)[rx := uf_rank u2 ! rx + 1] \<rparr>) }"

section \<open>Forests\<close>

definition forest :: "nat list \<Rightarrow> nat list \<Rightarrow> bool" where
  "forest p rk \<longleftrightarrow> length p = length rk
     \<and> (\<forall>x < length p. p ! x < length p \<and> (p ! x \<noteq> x \<longrightarrow> rk ! x < rk ! (p ! x)))"

inductive root_of :: "nat list \<Rightarrow> nat \<Rightarrow> nat \<Rightarrow> bool" for p where
  root_self: "p ! x = x \<Longrightarrow> root_of p x x"
| root_up: "p ! x \<noteq> x \<Longrightarrow> root_of p (p ! x) r \<Longrightarrow> root_of p x r"

lemma root_is_root: "root_of p x r \<Longrightarrow> p ! r = r"
  by (induction rule: root_of.induct)

lemma root_unique: "root_of p x r \<Longrightarrow> root_of p x r' \<Longrightarrow> r' = r"
proof (induction rule: root_of.induct)
  case (root_self x)
  then show ?case by (metis root_of.cases)
next
  case (root_up x r)
  then show ?case by (metis root_of.cases)
qed

lemma root_eq: "root_of p x r \<Longrightarrow> root_of p x r' \<longleftrightarrow> r' = r"
  using root_unique by blast

lemma root_bound: "root_of p x r \<Longrightarrow> forest p rk \<Longrightarrow> x < length p \<Longrightarrow> r < length p"
  by (induction rule: root_of.induct) (auto simp: forest_def)

lemma root_rank: "root_of p x r \<Longrightarrow> forest p rk \<Longrightarrow> x < length p \<Longrightarrow> x \<noteq> r \<Longrightarrow> rk ! x < rk ! r"
proof (induction rule: root_of.induct)
  case (root_up x r)
  then have "rk ! x < rk ! (p ! x)" "p ! x < length p" by (auto simp: forest_def)
  then show ?case using root_up by (cases "p ! x = r") auto
qed simp

text \<open>Ranks grow towards the root, so following parents ends.\<close>

lemma forest_induct [consumes 2, case_names up]:
  assumes "forest p rk" "x < length p"
    and "\<And>x. x < length p \<Longrightarrow> (p ! x \<noteq> x \<Longrightarrow> P (p ! x)) \<Longrightarrow> P x"
  shows "P x"
  using assms(2)
proof (induction "Max (set rk) - rk ! x" arbitrary: x rule: less_induct)
  case less
  show ?case
  proof (rule assms(3) [OF less.prems])
    assume n: "p ! x \<noteq> x"
    have p: "p ! x < length p" "rk ! x < rk ! (p ! x)" using assms(1) less.prems n by (auto simp: forest_def)
    have "rk ! (p ! x) \<le> Max (set rk)" using p(1) assms(1) by (intro Max_ge) (auto simp: forest_def)
    then show "P (p ! x)" using p by (intro less.hyps) auto
  qed
qed

lemma root_exists: "forest p rk \<Longrightarrow> x < length p \<Longrightarrow> \<exists>r. root_of p x r"
  by (induction rule: forest_induct) (metis root_of.intros)

text \<open>Pointing a node at its root changes no root.\<close>

lemma compress_roots:
  assumes f: "forest p rk" and x: "x < length p" "root_of p x r"
  shows "forest (p[x := r]) rk" and "y < length p \<Longrightarrow> root_of (p[x := r]) y r' \<longleftrightarrow> root_of p y r'"
proof -
  have r: "r < length p" by (rule root_bound [OF x(2) f x(1)])
  show "forest (p[x := r]) rk"
    using f r x(1) root_rank [OF x(2) f x(1)] by (auto simp: forest_def nth_list_update split: if_splits)
  have fwd: "root_of (p[x := r]) y s" if "root_of p y s" "y < length p" for y s
    using that
  proof (induction rule: root_of.induct)
    case (root_self y)
    show ?case
    proof (cases "y = x")
      case True
      then have "r = y" using root_unique x(2) root_of.root_self root_self by metis
      then show ?thesis using root_self True by (metis list_update_id root_of.root_self)
    next
      case False
      then show ?thesis using root_self by (simp add: root_of.root_self)
    qed
  next
    case (root_up y s)
    have py: "p ! y < length p" using f root_up.prems by (auto simp: forest_def)
    show ?case
    proof (cases "y = x")
      case True
      have "root_of p x s" using root_up True by (metis root_of.root_up)
      then have s: "s = r" using root_unique x(2) by metis
      have "x \<noteq> r" using root_up.hyps(1) root_is_root x(2) True by metis
      moreover have "root_of (p[x := r]) r r" using root_is_root [OF x(2)] \<open>x \<noteq> r\<close> by (simp add: root_of.root_self)
      ultimately show ?thesis using True s x(1) by (simp add: root_of.root_up)
    next
      case False
      then show ?thesis using root_up py by (simp add: root_of.root_up)
    qed
  qed
  show "root_of (p[x := r]) y r' \<longleftrightarrow> root_of p y r'" if "y < length p"
    using fwd root_exists [OF f that] root_unique that by metis
qed

lemma find_root_spec:
  assumes "forest p rk" "x < length p"
  shows "\<exists>r p'. find_root p x = Some (r, p') \<and> root_of p x r \<and> forest p' rk \<and> length p' = length p
      \<and> (\<forall>y < length p. \<forall>s. root_of p' y s \<longleftrightarrow> root_of p y s)"
  using assms
proof (induction rule: forest_induct)
  case (up x)
  show ?case
  proof (cases "p ! x = x")
    case True
    then show ?thesis using assms(1) by (subst find_root.simps) (auto intro: root_of.root_self)
  next
    case False
    obtain r p1 where p1: "find_root p (p ! x) = Some (r, p1)" "root_of p (p ! x) r" "forest p1 rk" "length p1 = length p"
      "\<forall>y < length p. \<forall>s. root_of p1 y s \<longleftrightarrow> root_of p y s" using up.IH [OF False] by blast
    have r: "root_of p x r" using p1(2) False by (rule root_of.root_up [rotated])
    then have r1: "root_of p1 x r" using p1(5) up.hyps by blast
    have x1: "x < length p1" using up.hyps p1(4) by simp
    have "find_root p x = Some (r, p1[x := r])" using False p1(1) by (subst find_root.simps) simp
    then show ?thesis
      using r p1(4,5) compress_roots [OF p1(3) x1 r1] by (intro exI [of _ r] exI [of _ "p1[x := r]"]) simp
  qed
qed

text \<open>Hanging one root below another joins their trees and no others.\<close>

lemma link_roots:
  assumes f: "forest p rk" and ab: "a < length p" "b < length p" "p ! a = a" "p ! b = b" "a \<noteq> b" and y: "y < length p"
  shows "root_of (p[a := b]) y s \<longleftrightarrow> (\<exists>t. root_of p y t \<and> s = (if t = a then b else t))"
proof -
  have bb: "root_of (p[a := b]) b b" using ab by (simp add: root_of.root_self)
  have fwd: "root_of (p[a := b]) z (if t = a then b else t)" if "root_of p z t" "z < length p" for z t
    using that
  proof (induction rule: root_of.induct)
    case (root_self z)
    then show ?case using ab bb by (auto intro: root_of.intros)
  next
    case (root_up z t)
    have "p ! z < length p" using f root_up.prems by (auto simp: forest_def)
    moreover have "z \<noteq> a" using root_up.hyps(1) ab by auto
    ultimately show ?case using root_up ab(1) by (simp add: root_of.root_up)
  qed
  obtain t where "root_of p y t" using root_exists [OF f y] by blast
  then show ?thesis using root_eq fwd [OF \<open>root_of p y t\<close> y] by (simp add: root_eq)
qed

lemma forest_link:
  assumes "forest p rk" "a < length p" "b < length p" "p ! b = b" "rk ! a < rk ! b"
  shows "forest (p[a := b]) rk"
  using assms by (auto simp: forest_def nth_list_update split: if_splits)

lemma forest_raise:
  assumes "forest p rk" "b < length p" "p ! b = b"
  shows "forest p (rk[b := rk ! b + 1])"
  using assms by (fastforce simp: forest_def nth_list_update split: if_splits)

section \<open>Disjoint sets\<close>

text \<open>What a client of disjoint sets of numbers below \<open>n\<close> relies on.\<close>

fun unite_all :: "(nat \<Rightarrow> nat \<Rightarrow> 's \<Rightarrow> 's option) \<Rightarrow> (nat \<times> nat) list \<Rightarrow> 's \<Rightarrow> 's option" where
  "unite_all unite [] s = Some s"
| "unite_all unite ((x, y) # ps) s = do { s' \<leftarrow> unite x y s; unite_all unite ps s' }"

definition both_ways :: "(nat \<times> nat) set \<Rightarrow> (nat \<times> nat) set" where
  "both_ways R = R \<union> R\<inverse>"

lemma both_ways_sym: "(a, b) \<in> (both_ways R)\<^sup>* \<longleftrightarrow> (b, a) \<in> (both_ways R)\<^sup>*"
proof -
  have "sym ((both_ways R)\<^sup>*)" by (rule sym_rtrancl) (auto simp: both_ways_def sym_def)
  then show ?thesis by (metis symE)
qed

lemma both_ways_insert:
  "(a, b) \<in> (both_ways (insert (x, y) R))\<^sup>* \<longleftrightarrow>
     (a, b) \<in> (both_ways R)\<^sup>* \<or> (a, x) \<in> (both_ways R)\<^sup>* \<and> (y, b) \<in> (both_ways R)\<^sup>*
     \<or> (a, y) \<in> (both_ways R)\<^sup>* \<and> (x, b) \<in> (both_ways R)\<^sup>*"
proof -
  have "both_ways (insert (x, y) R) = insert (x, y) (insert (y, x) (both_ways R))" by (auto simp: both_ways_def)
  then show ?thesis
    by (auto simp: rtrancl_insert intro: rtrancl_trans)
qed

locale disjoint_sets =
  fixes ok :: "'s \<Rightarrow> nat \<Rightarrow> bool"
    and fresh :: "nat \<Rightarrow> 's"
    and unite :: "nat \<Rightarrow> nat \<Rightarrow> 's \<Rightarrow> 's option"
    and joined :: "'s \<Rightarrow> nat \<Rightarrow> nat \<Rightarrow> bool"
  assumes fresh_ok: "ok (fresh n) n"
    and fresh_joined: "a < n \<Longrightarrow> b < n \<Longrightarrow> joined (fresh n) a b \<longleftrightarrow> a = b"
    and unite_ok: "ok s n \<Longrightarrow> x < n \<Longrightarrow> y < n \<Longrightarrow> \<exists>s'. unite x y s = Some s' \<and> ok s' n
      \<and> (\<forall>a < n. \<forall>b < n. joined s' a b \<longleftrightarrow> joined s a b \<or> joined s a x \<and> joined s y b \<or> joined s a y \<and> joined s x b)"
begin

lemma unite_all_joins:
  assumes "ok s n" "\<forall>(x, y) \<in> set ps. x < n \<and> y < n"
    and "\<forall>a < n. \<forall>b < n. joined s a b \<longleftrightarrow> (a, b) \<in> (both_ways R)\<^sup>*"
  shows "\<exists>s'. unite_all unite ps s = Some s' \<and> ok s' n
      \<and> (\<forall>a < n. \<forall>b < n. joined s' a b \<longleftrightarrow> (a, b) \<in> (both_ways (R \<union> set ps))\<^sup>*)"
  using assms
proof (induction ps arbitrary: s R)
  case (Cons p ps)
  obtain x y where p: "p = (x, y)" "x < n" "y < n" using Cons.prems(2) by (cases p) auto
  obtain s1 where s1: "unite x y s = Some s1" "ok s1 n"
    "\<forall>a < n. \<forall>b < n. joined s1 a b \<longleftrightarrow> joined s a b \<or> joined s a x \<and> joined s y b \<or> joined s a y \<and> joined s x b"
    using unite_ok [OF Cons.prems(1) p(2,3)] by blast
  have "\<forall>a < n. \<forall>b < n. joined s1 a b \<longleftrightarrow> (a, b) \<in> (both_ways (insert (x, y) R))\<^sup>*"
    using s1(3) Cons.prems(3) p(2,3) by (simp add: both_ways_insert)
  from Cons.IH [OF s1(2) _ this] show ?case using Cons.prems(2) s1(1) p(1) by simp
qed simp

lemma components:
  assumes "\<forall>(x, y) \<in> set ps. x < n \<and> y < n"
  shows "\<exists>s'. unite_all unite ps (fresh n) = Some s' \<and> ok s' n
      \<and> (\<forall>a < n. \<forall>b < n. joined s' a b \<longleftrightarrow> (a, b) \<in> (both_ways (set ps))\<^sup>*)"
  using unite_all_joins [OF fresh_ok assms, of "{}"] by (simp add: fresh_joined both_ways_def)

end

definition uf_ok :: "union_find \<Rightarrow> nat \<Rightarrow> bool" where
  "uf_ok u n \<longleftrightarrow> forest (uf_parent u) (uf_rank u) \<and> length (uf_parent u) = n"

definition uf_joined :: "union_find \<Rightarrow> nat \<Rightarrow> nat \<Rightarrow> bool" where
  "uf_joined u a b \<longleftrightarrow> (\<exists>r. root_of (uf_parent u) a r \<and> root_of (uf_parent u) b r)"

lemma uf_find_spec:
  assumes "uf_ok u n" "x < n"
  shows "\<exists>r u'. uf_find x u = Some (r, u') \<and> uf_ok u' n \<and> uf_rank u' = uf_rank u \<and> r < n \<and> uf_parent u' ! r = r
      \<and> root_of (uf_parent u) x r \<and> (\<forall>y < n. \<forall>s. root_of (uf_parent u') y s \<longleftrightarrow> root_of (uf_parent u) y s)"
proof -
  have f: "forest (uf_parent u) (uf_rank u)" "x < length (uf_parent u)" using assms by (auto simp: uf_ok_def)
  obtain r p' where p': "find_root (uf_parent u) x = Some (r, p')" "root_of (uf_parent u) x r" "forest p' (uf_rank u)"
    "length p' = length (uf_parent u)" "\<forall>y < length (uf_parent u). \<forall>s. root_of p' y s \<longleftrightarrow> root_of (uf_parent u) y s"
    using find_root_spec [OF f] by blast
  have "root_of p' x r" using p'(2,5) f(2) by blast
  then have "p' ! r = r" by (rule root_is_root)
  then show ?thesis
    using p' assms root_bound [OF p'(2) f] by (simp add: uf_find_def uf_ok_def)
qed

lemma uf_union_spec:
  assumes u: "uf_ok u n" and xy: "x < n" "y < n"
  shows "\<exists>u'. uf_union x y u = Some u' \<and> uf_ok u' n
    \<and> (\<forall>a < n. \<forall>b < n. uf_joined u' a b \<longleftrightarrow>
         uf_joined u a b \<or> uf_joined u a x \<and> uf_joined u y b \<or> uf_joined u a y \<and> uf_joined u x b)"
proof -
  obtain rx u1 where u1: "uf_find x u = Some (rx, u1)" "uf_ok u1 n" "root_of (uf_parent u) x rx" "rx < n"
    "\<forall>z < n. \<forall>s. root_of (uf_parent u1) z s \<longleftrightarrow> root_of (uf_parent u) z s" using uf_find_spec [OF u xy(1)] by blast
  obtain ry u2 where u2: "uf_find y u1 = Some (ry, u2)" "uf_ok u2 n" "root_of (uf_parent u1) y ry" "ry < n"
    "uf_parent u2 ! ry = ry" "\<forall>z < n. \<forall>s. root_of (uf_parent u2) z s \<longleftrightarrow> root_of (uf_parent u1) z s"
    using uf_find_spec [OF u1(2) xy(2)] by blast
  let ?p = "uf_parent u2" and ?rk = "uf_rank u2"
  have roots: "root_of ?p z s \<longleftrightarrow> root_of (uf_parent u) z s" if "z < n" for z s using u1(5) u2(6) that by simp
  have f: "forest ?p ?rk" "length ?p = n" using u2(2) by (auto simp: uf_ok_def)
  have rx: "root_of ?p x rx" "?p ! rx = rx" using roots [OF xy(1)] u1(3) root_is_root by blast+
  have ry: "root_of ?p y ry" "?p ! ry = ry" using u2(3,5,6) xy(2) by blast+
  have joined: "uf_joined u a b \<longleftrightarrow> (\<exists>r. root_of ?p a r \<and> root_of ?p b r)" if "a < n" "b < n" for a b
    using roots that by (simp add: uf_joined_def)
  have merged: "(\<exists>r. root_of (?p[c := d]) a r \<and> root_of (?p[c := d]) b r) \<longleftrightarrow>
      uf_joined u a b \<or> uf_joined u a x \<and> uf_joined u y b \<or> uf_joined u a y \<and> uf_joined u x b"
    if cd: "c = rx \<and> d = ry \<or> c = ry \<and> d = rx" and ne: "rx \<noteq> ry" and ab: "a < n" "b < n" for c d a b
  proof -
    obtain s t where st: "root_of ?p a s" "root_of ?p b t" using root_exists [OF f(1)] ab f(2) by metis
    have cc: "c < length ?p" "d < length ?p" "?p ! c = c" "?p ! d = d" "c \<noteq> d" using cd ne rx(2) ry(2) u1(4) u2(4) f(2) by auto
    have l: "root_of (?p[c := d]) z r \<longleftrightarrow> (\<exists>t. root_of ?p z t \<and> r = (if t = c then d else t))" if "z < n" for z r
      using link_roots [OF f(1) cc] f(2) that by simp
    have eq: "root_of ?p a r \<longleftrightarrow> r = s" "root_of ?p b r \<longleftrightarrow> r = t" "root_of ?p x r \<longleftrightarrow> r = rx" "root_of ?p y r \<longleftrightarrow> r = ry" for r
      by (simp_all add: root_eq [OF st(1)] root_eq [OF st(2)] root_eq [OF rx(1)] root_eq [OF ry(1)])
    show ?thesis using ab xy cd ne by (auto simp: joined l eq)
  qed
  show ?thesis
  proof (cases "rx = ry")
    case True
    have j: "uf_joined u a b \<or> uf_joined u a x \<and> uf_joined u y b \<or> uf_joined u a y \<and> uf_joined u x b \<longleftrightarrow> uf_joined u2 a b"
      if ab: "a < n" "b < n" for a b
    proof -
      obtain s t where st: "root_of ?p a s" "root_of ?p b t" using root_exists [OF f(1)] ab f(2) by metis
      show ?thesis using True
        by (auto simp: joined ab xy uf_joined_def [of u2] root_eq [OF st(1)] root_eq [OF st(2)] root_eq [OF rx(1)] root_eq [OF ry(1)])
    qed
    have "uf_union x y u = Some u2" using u1(1) u2(1) True by (simp add: uf_union_def)
    then show ?thesis using u2(2) j by blast
  next
    case False
    define u' where "u' = (if ?rk ! rx < ?rk ! ry then u2\<lparr> uf_parent := ?p[rx := ry] \<rparr>
        else if ?rk ! rx > ?rk ! ry then u2\<lparr> uf_parent := ?p[ry := rx] \<rparr>
        else u2\<lparr> uf_parent := ?p[ry := rx], uf_rank := ?rk[rx := ?rk ! rx + 1] \<rparr>)"
    have step: "uf_union x y u = Some u'" using u1(1) u2(1) False by (simp add: uf_union_def u'_def)
    have par: "uf_parent u' = (if ?rk ! rx < ?rk ! ry then ?p[rx := ry] else ?p[ry := rx])" by (simp add: u'_def)
    have "uf_ok u' n"
    proof (cases "?rk ! rx = ?rk ! ry")
      case True
      have "forest ?p (?rk[rx := ?rk ! rx + 1])" by (rule forest_raise) (use f rx u1(4) in auto)
      then have "forest (?p[ry := rx]) (?rk[rx := ?rk ! rx + 1])"
        by (rule forest_link) (use f rx u1(4) u2(4) True False in \<open>auto simp: forest_def\<close>)
      then show ?thesis using True f(2) by (simp add: u'_def uf_ok_def)
    next
      case ne: False
      then show ?thesis
        using forest_link [OF f(1), of rx ry] forest_link [OF f(1), of ry rx] f(2) rx(2) ry(2) u1(4) u2(4)
        by (auto simp: u'_def uf_ok_def)
    qed
    moreover have "uf_joined u' a b \<longleftrightarrow> uf_joined u a b \<or> uf_joined u a x \<and> uf_joined u y b \<or> uf_joined u a y \<and> uf_joined u x b"
      if "a < n" "b < n" for a b
      using merged [of rx ry a b] merged [of ry rx a b] False that by (simp add: uf_joined_def [of u'] par)
    ultimately show ?thesis using step by blast
  qed
qed

lemma uf_new_spec: "uf_ok (uf_new n) n" "a < n \<Longrightarrow> b < n \<Longrightarrow> uf_joined (uf_new n) a b \<longleftrightarrow> a = b"
proof -
  show "uf_ok (uf_new n) n" by (simp add: uf_ok_def uf_new_def forest_def)
  have "root_of [0..<n] z r \<longleftrightarrow> r = z" if "z < n" for z r
    using that root_unique root_of.root_self [of "[0..<n]" z] by (metis add.left_neutral nth_upt)
  then show "uf_joined (uf_new n) a b \<longleftrightarrow> a = b" if "a < n" "b < n" using that by (auto simp: uf_joined_def uf_new_def)
qed

interpretation uf: disjoint_sets uf_ok uf_new uf_union uf_joined
  by unfold_locales (use uf_new_spec uf_union_spec in auto)

end
