(* ===== verification/Epic_Clusters.thy ===== *)
theory Epic_Clusters
  imports Triage Union_Find
begin

text \<open>
  Clusters of related beads (\<open>src/epic.rs\<close>): beads of a repository whose similarity reaches a threshold
  are united, and every group of two or more is a cluster with a relationship and an action.

  The pairs with their scores are a map, the groups a list of entries in the order in which their roots
  are met: the code's \<open>HashMap\<close> yields them in any order. \<open>None\<close> would be a search for a root that
  does not return; that there is none is proved.
\<close>

section \<open>Clusters\<close>

datatype cluster_relationship = NearDuplicate | Sequential | SharedScope | Overlapping

datatype cluster_action = Merge string "string list" | Sequence | Suppress

record bead_cluster =
  cl_bead_ids :: "string list"
  cl_relationship :: cluster_relationship
  cl_action :: cluster_action
  cl_cohesion :: real

definition CLUSTER_THRESHOLD :: real where
  "CLUSTER_THRESHOLD = 45 / 100"

type_synonym pair_scores = "nat \<times> nat \<Rightarrow> real option"

definition index_pairs :: "nat \<Rightarrow> (nat \<times> nat) list" where
  "index_pairs n = concat (map (\<lambda>i. map (Pair i) [Suc i..<n]) [0..<n])"

fun link_similar :: "bead list \<Rightarrow> (nat \<times> nat) list \<Rightarrow> union_find \<times> pair_scores \<Rightarrow> (union_find \<times> pair_scores) option" where
  "link_similar beads [] us = Some us"
| "link_similar beads ((i, j) # ps) us =
     (if b_repo (beads ! i) \<noteq> b_repo (beads ! j) then link_similar beads ps us
      else (let sim = combined_similarity (beads ! i) (beads ! j)
            in if sim \<ge> CLUSTER_THRESHOLD
               then do { u \<leftarrow> uf_union i j (fst us); link_similar beads ps (u, fun_upd (snd us) (i, j) (Some sim)) }
               else link_similar beads ps us))"

fun group_push :: "nat \<Rightarrow> nat \<Rightarrow> (nat \<times> nat list) list \<Rightarrow> (nat \<times> nat list) list" where
  "group_push r0 i [] = [(r0, [i])]"
| "group_push r0 i ((r, ms) # g) = (if r = r0 then (r, ms @ [i]) # g else (r, ms) # group_push r0 i g)"

fun collect_groups :: "nat list \<Rightarrow> union_find \<Rightarrow> (nat \<times> nat list) list \<Rightarrow> (nat \<times> nat list) list option" where
  "collect_groups [] u g = Some g"
| "collect_groups (i # js) u g = do { (r0, u') \<leftarrow> uf_find i u; collect_groups js u' (group_push r0 i g) }"

definition classify_relationship :: "bead list \<Rightarrow> nat list \<Rightarrow> cluster_relationship" where
  "classify_relationship beads members =
     (let others = (\<lambda>i. filter (\<lambda>j. j \<noteq> i) members)
      in if list_all (\<lambda>i. list_all (\<lambda>j. jaccard_similarity (b_title (beads ! i)) (b_title (beads ! j)) > 8 / 10) (others i)) members
         then NearDuplicate
         else if list_ex (\<lambda>i. list_ex (\<lambda>j. sequential_similarity (b_title (beads ! i)) (b_title (beads ! j)) > 5 / 10) (others i)) members
         then Sequential
         else if list_ex (\<lambda>i. list_ex (\<lambda>j. scope_prefix_similarity (b_title (beads ! i)) (b_title (beads ! j)) > 5 / 10) (others i)) members
         then SharedScope
         else Overlapping)"

fun pairs_of :: "'a list \<Rightarrow> ('a \<times> 'a) list" where
  "pairs_of [] = []"
| "pairs_of (x # xs) = map (Pair x) xs @ pairs_of xs"

definition cohesion_of :: "pair_scores \<Rightarrow> nat list \<Rightarrow> real" where
  "cohesion_of scores members =
     (let found = List.map_filter (\<lambda>(mi, mj). scores (if mi < mj then (mi, mj) else (mj, mi))) (pairs_of members)
      in if found \<noteq> [] then sum_list found / real (length found) else 0)"

definition build_cluster :: "bead list \<Rightarrow> nat list \<Rightarrow> pair_scores \<Rightarrow> bead_cluster" where
  "build_cluster beads members scores =
     (let relationship = classify_relationship beads members;
          ordered = sort_key (\<lambda>i. (b_priority (beads ! i), b_created_at (beads ! i))) members;
          bead_ids = map (\<lambda>i. b_id (beads ! i)) ordered;
          action = (case relationship of
             NearDuplicate \<Rightarrow> Merge (hd bead_ids) (tl bead_ids)
           | Sequential \<Rightarrow> Sequence
           | _ \<Rightarrow> Suppress)
      in \<lparr> cl_bead_ids = bead_ids, cl_relationship = relationship, cl_action = action,
           cl_cohesion = cohesion_of scores members \<rparr>)"

definition cluster_beads :: "bead list \<Rightarrow> bead_cluster list option" where
  "cluster_beads beads =
     (if length beads < 2 then Some []
      else do { (u, scores) \<leftarrow> link_similar beads (index_pairs (length beads)) (uf_new (length beads), (\<lambda>_. None));
                groups \<leftarrow> collect_groups [0..<length beads] u [];
                Some (map (\<lambda>members. build_cluster beads members scores)
                        (filter (\<lambda>members. length members \<ge> 2) (map snd groups))) })"

text \<open>Priorities are bytes; the release build wraps around.\<close>

definition suggest_priority :: "bead \<Rightarrow> bead_cluster \<Rightarrow> bead list \<Rightarrow> nat option" where
  "suggest_priority b cluster all_beads =
     (let priorities = List.map_filter (\<lambda>i. map_option b_priority (List.find (\<lambda>x. b_id x = i) all_beads)) (cl_bead_ids cluster)
      in if priorities = [] then None
         else (let min_priority = Min (set priorities); raised = (min_priority + 1) mod 256
               in if b_priority b > raised then Some raised else None))"

section \<open>Linking\<close>

definition related :: "bead list \<Rightarrow> nat \<Rightarrow> nat \<Rightarrow> bool" where
  "related beads i j \<longleftrightarrow> b_repo (beads ! i) = b_repo (beads ! j)
     \<and> combined_similarity (beads ! i) (beads ! j) \<ge> CLUSTER_THRESHOLD"

lemma index_pairs_set [simp]: "set (index_pairs n) = {(i, j). i < j \<and> j < n}"
  by (force simp: index_pairs_def image_iff)

definition scored :: "bead list \<Rightarrow> (nat \<times> nat) list \<Rightarrow> pair_scores" where
  "scored beads ps = (\<lambda>(i, j). if (i, j) \<in> set ps \<and> related beads i j
      then Some (combined_similarity (beads ! i) (beads ! j)) else None)"

lemma link_similar_unites:
  "map_option fst (link_similar beads ps us) = unite_all uf_union (filter (\<lambda>(i, j). related beads i j) ps) (fst us)"
proof (induction ps arbitrary: us)
  case (Cons p ps)
  obtain i j where "p = (i, j)" by force
  then show ?case using Cons
    by (cases "uf_union i j (fst us)") (auto simp: related_def Let_def)
qed simp

lemma link_similar_scores:
  "link_similar beads ps us = Some (u, sc) \<Longrightarrow> sc = (\<lambda>q. case scored beads ps q of None \<Rightarrow> snd us q | Some x \<Rightarrow> Some x)"
proof (induction ps arbitrary: us)
  case Nil
  then show ?case by (auto simp: scored_def fun_eq_iff)
next
  case (Cons p ps)
  obtain i j where p: "p = (i, j)" by force
  show ?case
  proof (cases "related beads i j")
    case False
    then have "link_similar beads ps us = Some (u, sc)" using Cons.prems p by (auto simp: related_def Let_def split: if_splits)
    then show ?thesis using Cons.IH False p by (auto simp: scored_def fun_eq_iff)
  next
    case True
    then obtain u1 where "link_similar beads ps (u1, fun_upd (snd us) (i, j) (Some (combined_similarity (beads ! i) (beads ! j)))) = Some (u, sc)"
      using Cons.prems p by (auto simp: related_def Let_def bind_eq_Some_conv)
    from Cons.IH [OF this] show ?thesis using True p by (auto simp: scored_def fun_eq_iff)
  qed
qed

section \<open>Grouping\<close>

text \<open>The entry of a root is the list of the members with that root, in order.\<close>

definition grouped :: "(nat \<Rightarrow> nat) \<Rightarrow> nat list \<Rightarrow> (nat \<times> nat list) list \<Rightarrow> bool" where
  "grouped f is g \<longleftrightarrow> distinct (map fst g) \<and> fst ` set g = f ` set is
     \<and> (\<forall>(r, ms) \<in> set g. ms = filter (\<lambda>i. f i = r) is)"

lemma group_push_keys: "fst ` set (group_push r i g) = insert r (fst ` set g)"
  by (induction r i g rule: group_push.induct) auto

lemma group_push_distinct: "distinct (map fst g) \<Longrightarrow> distinct (map fst (group_push r i g))"
proof (induction r i g rule: group_push.induct)
  case (2 r0 i r ms g)
  then show ?case using group_push_keys [of r0 i g] by auto
qed simp

lemma group_push_mem:
  "distinct (map fst g) \<Longrightarrow> (r', ms') \<in> set (group_push r i g) \<longleftrightarrow>
     (r' \<noteq> r \<and> (r', ms') \<in> set g) \<or> (r' = r \<and> (\<exists>ms. (r, ms) \<in> set g \<and> ms' = ms @ [i]))
     \<or> (r' = r \<and> r \<notin> fst ` set g \<and> ms' = [i])"
  by (induction r i g rule: group_push.induct) (auto, force+)

lemma grouped_push:
  assumes "grouped f is g"
  shows "grouped f (is @ [i]) (group_push (f i) i g)"
proof -
  have d: "distinct (map fst g)" "fst ` set g = f ` set is" and m: "\<forall>(r, ms) \<in> set g. ms = filter (\<lambda>i. f i = r) is"
    using assms by (auto simp: grouped_def)
  have "f i \<notin> f ` set is \<Longrightarrow> filter (\<lambda>j. f j = f i) is = []" by (metis (mono_tags, lifting) filter_False image_eqI)
  then show ?thesis
    using d m by (auto simp: grouped_def group_push_distinct group_push_keys group_push_mem)
qed

lemma collect_groups_spec:
  assumes "uf_ok u n" "\<forall>i \<in> set js. i < n" "\<forall>y < n. root_of (uf_parent u) y (f y)" "grouped f is g"
  shows "\<exists>g'. collect_groups js u g = Some g' \<and> grouped f (is @ js) g'"
  using assms
proof (induction js arbitrary: u "is" g)
  case (Cons i js)
  have i: "i < n" using Cons.prems(2) by simp
  obtain r u' where u': "uf_find i u = Some (r, u')" "uf_ok u' n" "root_of (uf_parent u) i r"
    "\<forall>y < n. \<forall>s. root_of (uf_parent u') y s \<longleftrightarrow> root_of (uf_parent u) y s"
    using uf_find_spec [OF Cons.prems(1) i] by blast
  have r: "r = f i" using root_unique Cons.prems(3) i u'(3) by blast
  have "\<forall>y < n. root_of (uf_parent u') y (f y)" using u'(4) Cons.prems(3) by simp
  from Cons.IH [OF u'(2) _ this grouped_push [OF Cons.prems(4)]] show ?case
    using Cons.prems(2) u'(1) r by simp
qed simp

section \<open>Components\<close>

text \<open>Beads are in one cluster when a chain of similar pairs leads from one to the other.\<close>

definition similar_pairs :: "bead list \<Rightarrow> (nat \<times> nat) set" where
  "similar_pairs beads = {(i, j). i < j \<and> j < length beads \<and> related beads i j}"

definition chained :: "bead list \<Rightarrow> nat \<Rightarrow> nat \<Rightarrow> bool" where
  "chained beads i j \<longleftrightarrow> (i, j) \<in> (both_ways (similar_pairs beads))\<^sup>*"

lemma chained_refl [simp]: "chained beads i i"
  by (simp add: chained_def)

lemma chained_sym: "chained beads i j \<Longrightarrow> chained beads j i"
  using both_ways_sym by (auto simp: chained_def)

lemma chained_trans: "chained beads i j \<Longrightarrow> chained beads j k \<Longrightarrow> chained beads i k"
  by (auto simp: chained_def)

lemma chained_same_repo: "chained beads i j \<Longrightarrow> b_repo (beads ! i) = b_repo (beads ! j)"
  unfolding chained_def
  by (induction rule: rtrancl_induct) (auto simp: both_ways_def similar_pairs_def related_def)

lemma chained_bound: "chained beads i j \<Longrightarrow> i < length beads \<Longrightarrow> j < length beads"
  unfolding chained_def
  by (induction rule: rtrancl_induct) (auto simp: both_ways_def similar_pairs_def)

text \<open>Someone in a component of two or more is directly similar to a member.\<close>

lemma chained_step:
  assumes "chained beads i j" "i \<noteq> j"
  shows "\<exists>k. chained beads i k \<and> k \<noteq> i \<and> (min i k, max i k) \<in> similar_pairs beads"
proof -
  obtain k where "(i, k) \<in> both_ways (similar_pairs beads)" using assms by (auto simp: chained_def elim: converse_rtranclE)
  then have "chained beads i k" "(min i k, max i k) \<in> similar_pairs beads" "k \<noteq> i"
    by (auto simp: chained_def both_ways_def similar_pairs_def min_def max_def)
  then show ?thesis by blast
qed

lemma distinct_map_iff_sorted: "distinct (map f xs) \<longleftrightarrow> sorted_wrt (\<lambda>x y. f x \<noteq> f y) xs"
  by (induction xs) auto

text \<open>The groups of two or more, and the scores the clusters are built from.\<close>

lemma cluster_beads_groups:
  "\<exists>groups. cluster_beads beads = Some (map (\<lambda>ms. build_cluster beads ms (scored beads (index_pairs (length beads)))) groups)
     \<and> (\<forall>ms \<in> set groups. 2 \<le> length ms \<and> distinct ms \<and> (\<forall>i \<in> set ms. i < length beads \<and> set ms = {j. chained beads i j}))
     \<and> (\<forall>i < length beads. \<forall>j. chained beads i j \<longrightarrow> i \<noteq> j \<longrightarrow> (\<exists>ms \<in> set groups. i \<in> set ms \<and> j \<in> set ms))
     \<and> sorted_wrt (\<lambda>a b. set a \<inter> set b = {}) groups"
proof (cases "length beads < 2")
  case True
  have "i = j" if "chained beads i j" "i < length beads" for i j
    using True that chained_bound [OF that] by linarith
  then show ?thesis using True by (intro exI [of _ "[]"]) (auto simp: cluster_beads_def)
next
  case False
  let ?n = "length beads"
  let ?ps = "filter (\<lambda>(i, j). related beads i j) (index_pairs ?n)"
  have ps: "set ?ps = similar_pairs beads" by (auto simp: similar_pairs_def)
  have "\<forall>(x, y) \<in> set ?ps. x < ?n \<and> y < ?n" by auto
  from uf.components [OF this] obtain u where u: "unite_all uf_union ?ps (uf_new ?n) = Some u" "uf_ok u ?n"
    "\<forall>a < ?n. \<forall>b < ?n. uf_joined u a b \<longleftrightarrow> chained beads a b" unfolding chained_def ps by blast
  obtain sc where link: "link_similar beads (index_pairs ?n) (uf_new ?n, (\<lambda>_. None)) = Some (u, sc)"
    using u(1) link_similar_unites [of beads "index_pairs ?n" "(uf_new ?n, (\<lambda>_. None))"]
    by (cases "link_similar beads (index_pairs ?n) (uf_new ?n, (\<lambda>_. None))") auto
  have sc: "sc = scored beads (index_pairs ?n)"
    using link_similar_scores [OF link] by (auto simp: fun_eq_iff split: option.splits)
  have "\<forall>y. \<exists>r. y < ?n \<longrightarrow> root_of (uf_parent u) y r" using root_exists u(2) by (auto simp: uf_ok_def)
  then obtain f where f: "\<forall>y < ?n. root_of (uf_parent u) y (f y)" by metis
  have fj: "f a = f b \<longleftrightarrow> chained beads a b" if "a < ?n" "b < ?n" for a b
    using f that u(3) root_unique by (metis uf_joined_def)
  obtain g where g: "collect_groups [0..<?n] u [] = Some g" "grouped f [0..<?n] g"
    using collect_groups_spec [OF u(2) _ f, of "[0..<?n]" "[]" "[]"] by (auto simp: grouped_def)
  let ?groups = "filter (\<lambda>ms. length ms \<ge> 2) (map snd g)"
  have eq: "cluster_beads beads = Some (map (\<lambda>ms. build_cluster beads ms (scored beads (index_pairs ?n))) ?groups)"
    using False link g(1) sc by (simp add: cluster_beads_def)
  have mem: "ms = filter (\<lambda>i. f i = r) [0..<?n]" if "(r, ms) \<in> set g" for r ms using that g(2) by (auto simp: grouped_def)
  have grp: "set ms = {j. chained beads i j} \<and> distinct ms \<and> i < ?n" if "(r, ms) \<in> set g" "i \<in> set ms" for r ms i
    using mem [OF that(1)] that(2) fj chained_bound by (auto intro: chained_sym)
  have "2 \<le> length ms \<and> distinct ms \<and> (\<forall>i \<in> set ms. i < ?n \<and> set ms = {j. chained beads i j})"
    if ms: "ms \<in> set ?groups" for ms
  proof -
    obtain r where r: "(r, ms) \<in> set g" "2 \<le> length ms" using ms by auto
    have "distinct ms" unfolding mem [OF r(1)] by simp
    then show ?thesis using grp [OF r(1)] r(2) by blast
  qed
  note each = this
  have all: "\<exists>ms \<in> set ?groups. i \<in> set ms \<and> j \<in> set ms" if "i < ?n" "chained beads i j" "i \<noteq> j" for i j
  proof -
    have "f i \<in> fst ` set g" using g(2) that(1) by (auto simp: grouped_def)
    then obtain ms where ms: "(f i, ms) \<in> set g" by auto
    have "i \<in> set ms" "j \<in> set ms" using mem [OF ms] fj that chained_bound by (auto intro: chained_sym)
    moreover have "2 \<le> length ms"
      using \<open>i \<in> set ms\<close> \<open>j \<in> set ms\<close> that(3) by (cases ms; cases "tl ms") auto
    ultimately show ?thesis using ms by force
  qed
  have "sorted_wrt (\<lambda>x y. fst x \<noteq> fst y) g" using g(2) by (simp add: grouped_def distinct_map_iff_sorted)
  then have "sorted_wrt (\<lambda>x y. set (snd x) \<inter> set (snd y) = {}) g"
  proof (rule sorted_wrt_mono_rel [rotated])
    fix x y assume "x \<in> set g" "y \<in> set g" "fst x \<noteq> fst y"
    then have "snd x = filter (\<lambda>i. f i = fst x) [0..<?n]" "snd y = filter (\<lambda>i. f i = fst y) [0..<?n]"
      by (auto intro: mem)
    then show "set (snd x) \<inter> set (snd y) = {}" using \<open>fst x \<noteq> fst y\<close> by auto
  qed
  then have "sorted_wrt (\<lambda>a b. set a \<inter> set b = {}) ?groups" by (simp add: sorted_wrt_filter sorted_wrt_map)
  then show ?thesis using eq each all by (intro exI [of _ ?groups]) blast
qed

section \<open>What a cluster says\<close>

lemma pairs_of_set: "distinct xs \<Longrightarrow> x \<in> set xs \<Longrightarrow> y \<in> set xs \<Longrightarrow> x \<noteq> y \<Longrightarrow> (x, y) \<in> set (pairs_of xs) \<or> (y, x) \<in> set (pairs_of xs)"
  by (induction xs rule: pairs_of.induct) auto

lemma average_bounds:
  assumes "xs \<noteq> []" "\<forall>x \<in> set xs. lo \<le> x \<and> x \<le> hi"
  shows "lo \<le> sum_list xs / real (length xs) \<and> sum_list xs / real (length xs) \<le> hi"
proof -
  have "lo * real (length xs) \<le> sum_list xs \<and> sum_list xs \<le> hi * real (length xs)"
    using assms(2) by (induction xs) (auto simp: algebra_simps)
  then show ?thesis using assms(1) by (simp add: field_simps)
qed

lemma scored_bounds: "scored beads ps q = Some x \<Longrightarrow> CLUSTER_THRESHOLD \<le> x \<and> x \<le> 1"
  using domination_is_similarity_parts(1) by (auto simp: scored_def related_def split: if_splits prod.splits)

lemma cohesion_bounds:
  assumes "distinct ms" "i \<in> set ms" "k \<in> set ms" "i \<noteq> k" "(min i k, max i k) \<in> similar_pairs beads"
  shows "CLUSTER_THRESHOLD \<le> cohesion_of (scored beads (index_pairs (length beads))) ms
    \<and> cohesion_of (scored beads (index_pairs (length beads))) ms \<le> 1"
proof -
  define f where "f = (\<lambda>(mi, mj). scored beads (index_pairs (length beads)) (if mi < mj then (mi, mj) else (mj, mi)))"
  let ?found = "List.map_filter f (pairs_of ms)"
  have key: "f (i, k) \<noteq> None \<and> f (k, i) \<noteq> None"
    using assms(4,5) by (auto simp: f_def scored_def similar_pairs_def min_def max_def split: if_splits)
  have "\<exists>p \<in> set (pairs_of ms). f p \<noteq> None"
    using pairs_of_set [OF assms(1-4)] key by (elim disjE) (erule bexI [rotated], simp)+
  then have "?found \<noteq> []" by (simp add: List.map_filter_def filter_empty_conv)
  moreover have "\<forall>x \<in> set ?found. CLUSTER_THRESHOLD \<le> x \<and> x \<le> 1"
  proof
    fix x assume "x \<in> set ?found"
    then obtain p where "f p = Some x" by (auto simp: List.map_filter_def)
    then show "CLUSTER_THRESHOLD \<le> x \<and> x \<le> 1" by (simp add: f_def scored_bounds split: prod.splits)
  qed
  ultimately show ?thesis using average_bounds [of ?found CLUSTER_THRESHOLD 1] by (simp add: cohesion_of_def Let_def flip: f_def)
qed

lemma near_duplicate_members:
  "classify_relationship beads ms = NearDuplicate \<Longrightarrow> i \<in> set ms \<Longrightarrow> j \<in> set ms \<Longrightarrow> j \<noteq> i \<Longrightarrow>
     jaccard_similarity (b_title (beads ! i)) (b_title (beads ! j)) > 8 / 10"
  by (auto simp: classify_relationship_def Let_def list_all_iff split: if_splits)

lemma build_cluster_ids:
  "cl_bead_ids (build_cluster beads ms sc) =
     map b_id (map (nth beads) (sort_key (\<lambda>i. (b_priority (beads ! i), b_created_at (beads ! i))) ms))"
  by (simp add: build_cluster_def Let_def)

section \<open>Properties\<close>

lemma build_cluster_members:
  "set (cl_bead_ids (build_cluster beads ms sc)) = (\<lambda>i. b_id (beads ! i)) ` set ms"
  "length (cl_bead_ids (build_cluster beads ms sc)) = length ms"
  unfolding build_cluster_ids by auto

lemma build_cluster_fields:
  "cl_cohesion (build_cluster beads ms sc) = cohesion_of sc ms"
  "cl_action (build_cluster beads ms sc) =
     (let ids = cl_bead_ids (build_cluster beads ms sc)
      in case classify_relationship beads ms of
           NearDuplicate \<Rightarrow> Merge (hd ids) (tl ids) | Sequential \<Rightarrow> Sequence | _ \<Rightarrow> Suppress)"
  by (simp_all add: build_cluster_def Let_def)

lemma two_members: "2 \<le> length xs \<Longrightarrow> distinct xs \<Longrightarrow> \<exists>i \<in> set xs. \<exists>j \<in> set xs. i \<noteq> j"
  by (cases xs rule: remdups_adj.cases) auto

lemma id_inj:
  "distinct (map b_id beads) \<Longrightarrow> i < length beads \<Longrightarrow> j < length beads \<Longrightarrow> b_id (beads ! i) = b_id (beads ! j) \<longleftrightarrow> i = j"
  by (auto simp: distinct_conv_nth)

text \<open>
  C12. Clustering always comes back: every search for a root ends, although it writes to the parents it
  walks over. Two different beads share a cluster exactly when a chain of similar beads of the same
  repository leads from one to the other; a cluster has two or more beads, names none twice, and shares
  none with another cluster.
\<close>

theorem clusters_are_components:
  assumes ids: "distinct (map b_id beads)"
  shows "\<exists>cs. cluster_beads beads = Some cs
    \<and> (\<forall>i < length beads. \<forall>j < length beads. i \<noteq> j \<longrightarrow>
         ((\<exists>c \<in> set cs. b_id (beads ! i) \<in> set (cl_bead_ids c) \<and> b_id (beads ! j) \<in> set (cl_bead_ids c))
          \<longleftrightarrow> (i, j) \<in> (both_ways (similar_pairs beads))\<^sup>*))
    \<and> (\<forall>c \<in> set cs. 2 \<le> length (cl_bead_ids c) \<and> distinct (cl_bead_ids c))
    \<and> sorted_wrt (\<lambda>c d. set (cl_bead_ids c) \<inter> set (cl_bead_ids d) = {}) cs"
proof -
  let ?n = "length beads"
  let ?sc = "scored beads (index_pairs ?n)"
  let ?cl = "\<lambda>ms. build_cluster beads ms ?sc"
  obtain groups where g: "cluster_beads beads = Some (map ?cl groups)"
    "\<forall>ms \<in> set groups. 2 \<le> length ms \<and> distinct ms \<and> (\<forall>i \<in> set ms. i < ?n \<and> set ms = {j. chained beads i j})"
    "\<forall>i < ?n. \<forall>j. chained beads i j \<longrightarrow> i \<noteq> j \<longrightarrow> (\<exists>ms \<in> set groups. i \<in> set ms \<and> j \<in> set ms)"
    "sorted_wrt (\<lambda>a b. set a \<inter> set b = {}) groups"
    using cluster_beads_groups by blast
  have mem: "b_id (beads ! i) \<in> set (cl_bead_ids (?cl ms)) \<longleftrightarrow> i \<in> set ms" if i: "ms \<in> set groups" "i < ?n" for ms i
    using g(2) i id_inj [OF ids] by (auto simp: build_cluster_members)
  have iff: "(\<exists>c \<in> set (map ?cl groups). b_id (beads ! i) \<in> set (cl_bead_ids c) \<and> b_id (beads ! j) \<in> set (cl_bead_ids c))
      \<longleftrightarrow> chained beads i j" if ij: "i < ?n" "j < ?n" "i \<noteq> j" for i j
  proof
    assume "\<exists>c \<in> set (map ?cl groups). b_id (beads ! i) \<in> set (cl_bead_ids c) \<and> b_id (beads ! j) \<in> set (cl_bead_ids c)"
    then obtain ms where "ms \<in> set groups" "i \<in> set ms" "j \<in> set ms" using mem ij by auto
    then show "chained beads i j" using g(2) by blast
  next
    assume "chained beads i j"
    then obtain ms where "ms \<in> set groups" "i \<in> set ms" "j \<in> set ms" using g(3) ij by blast
    then show "\<exists>c \<in> set (map ?cl groups). b_id (beads ! i) \<in> set (cl_bead_ids c) \<and> b_id (beads ! j) \<in> set (cl_bead_ids c)"
      using mem ij by auto
  qed
  have two: "2 \<le> length (cl_bead_ids (?cl ms)) \<and> distinct (cl_bead_ids (?cl ms))" if m: "ms \<in> set groups" for ms
  proof -
    have "inj_on (\<lambda>i. b_id (beads ! i)) (set ms)" using g(2) m id_inj [OF ids] by (auto simp: inj_on_def)
    then show ?thesis using g(2) m unfolding build_cluster_members by (simp add: build_cluster_ids distinct_map o_def)
  qed
  have "sorted_wrt (\<lambda>a b. set (cl_bead_ids (?cl a)) \<inter> set (cl_bead_ids (?cl b)) = {}) groups"
  proof (rule sorted_wrt_mono_rel [OF _ g(4)])
    fix a b assume "a \<in> set groups" "b \<in> set groups" "set a \<inter> set b = {}"
    then have ne: "b_id (beads ! i) \<noteq> b_id (beads ! j)" if "i \<in> set a" "j \<in> set b" for i j
      using id_inj [OF ids, of i j] g(2) that by auto
    then show "set (cl_bead_ids (?cl a)) \<inter> set (cl_bead_ids (?cl b)) = {}"
      unfolding build_cluster_members by (intro equals0I) (elim IntE imageE, metis)
  qed
  then show ?thesis using g(1) iff two by (intro exI [of _ "map ?cl groups"]) (simp add: sorted_wrt_map chained_def)
qed

lemma related_pair_clusters:
  assumes "related [a, b] 0 1"
  shows "\<exists>cs c. cluster_beads [a, b] = Some cs \<and> c \<in> set cs"
proof -
  have "(0, 1) \<in> similar_pairs [a, b]" using assms by (simp add: similar_pairs_def)
  then have "chained [a, b] 0 1" by (auto simp: chained_def both_ways_def)
  then show ?thesis using cluster_beads_groups [of "[a, b]"] by fastforce
qed

lemma same_title_related:
  assumes "b_repo a = b_repo b" "title_words (b_title a) \<noteq> []" "b_title b = b_title a"
  shows "related [a, b] 0 1"
proof -
  have "jaccard_filtered (b_title a) (b_title b) = 1"
    using assms(2,3) jaccard_same by (simp add: jaccard_filtered_def Let_def)
  then show ?thesis using assms(1) by (simp add: related_def combined_similarity_def CLUSTER_THRESHOLD_def Let_def max_def)
qed

definition twins :: "bead list" where
  "twins = [titled ''a'' ''Fix login'', titled ''b'' ''Fix login'']"

lemma twins_cluster: "\<exists>cs c. cluster_beads twins = Some cs \<and> c \<in> set cs"
  unfolding twins_def
  by (intro related_pair_clusters same_title_related)
    (simp_all add: titled_def sample_bead_def title_words_def split_whitespace_def is_whitespace_def
      to_lowercase_def lower_char_def TITLE_STOPWORDS_def char_of_def bit_simps)

theorem clusters_are_components_witness:
  "\<exists>cs. cluster_beads twins = Some cs \<and> sorted_wrt (\<lambda>c d. set (cl_bead_ids c) \<inter> set (cl_bead_ids d) = {}) cs"
proof -
  have "distinct (map b_id twins)" by (simp add: twins_def titled_def)
  from clusters_are_components [OF this] show ?thesis by blast
qed

text \<open>
  A cluster never crosses repositories and lists its beads by priority, the oldest first among equals;
  its cohesion lies between the clustering threshold and one. Only a cluster whose titles overlap pairwise by
  more than 0.8 is merged, and then the first of that order is kept and all the others are closed.
\<close>

theorem cluster_order_and_action:
  assumes "cluster_beads beads = Some cs" "c \<in> set cs"
  shows "\<exists>xs. cl_bead_ids c = map b_id xs \<and> set xs \<subseteq> set beads \<and> 2 \<le> length xs
    \<and> (\<forall>x \<in> set xs. b_repo x = b_repo (hd xs))
    \<and> sorted (map (\<lambda>b. (b_priority b, b_created_at b)) xs)
    \<and> CLUSTER_THRESHOLD \<le> cl_cohesion c \<and> cl_cohesion c \<le> 1
    \<and> (\<forall>keep close. cl_action c = Merge keep close \<longrightarrow> keep # close = cl_bead_ids c
         \<and> (\<forall>i < length xs. \<forall>j < length xs. i \<noteq> j \<longrightarrow>
              jaccard_similarity (b_title (xs ! i)) (b_title (xs ! j)) > 8 / 10))"
proof -
  let ?n = "length beads"
  let ?sc = "scored beads (index_pairs ?n)"
  obtain groups where g: "cluster_beads beads = Some (map (\<lambda>ms. build_cluster beads ms ?sc) groups)"
    "\<forall>ms \<in> set groups. 2 \<le> length ms \<and> distinct ms \<and> (\<forall>i \<in> set ms. i < ?n \<and> set ms = {j. chained beads i j})"
    using cluster_beads_groups by blast
  then obtain ms where ms: "c = build_cluster beads ms ?sc" "2 \<le> length ms" "distinct ms"
    "\<forall>i \<in> set ms. i < ?n \<and> set ms = {j. chained beads i j}" using assms by auto
  define ord where "ord = sort_key (\<lambda>i. (b_priority (beads ! i), b_created_at (beads ! i))) ms"
  have ord: "set ord = set ms" "length ord = length ms" "distinct ord" using ms(3) by (auto simp: ord_def)
  let ?xs = "map (nth beads) ord"
  have ids: "cl_bead_ids c = map b_id ?xs" by (simp add: ms(1) build_cluster_ids ord_def)
  have ne: "ord \<noteq> []" "ms \<noteq> []" using ms(2) ord(2) by auto
  have repo: "b_repo (beads ! i) = b_repo (beads ! j)" if ij: "i \<in> set ms" "j \<in> set ms" for i j
    using ms(4) ij chained_same_repo by blast
  have sub: "set ?xs \<subseteq> set beads" "2 \<le> length ?xs" using ord(1,2) ms(2,4) by auto
  have one: "\<forall>x \<in> set ?xs. b_repo x = b_repo (hd ?xs)" 
  proof
    fix x assume "x \<in> set ?xs"
    then obtain i where i: "i \<in> set ms" "x = beads ! i" using ord(1) by auto
    have "hd ord \<in> set ms" using ne(1) ord(1) hd_in_set by blast
    from repo [OF i(1) this] show "b_repo x = b_repo (hd ?xs)" using i(2) ne(1) by (simp add: hd_map)
  qed
  have srt: "sorted (map (\<lambda>b. (b_priority b, b_created_at b)) ?xs)"
    using sorted_sort_key [of "\<lambda>i. (b_priority (beads ! i), b_created_at (beads ! i))" ms] by (simp add: ord_def o_def)
  have coh: "CLUSTER_THRESHOLD \<le> cl_cohesion c" "cl_cohesion c \<le> 1"
  proof -
    obtain i j where "i \<in> set ms" "j \<in> set ms" "i \<noteq> j" using two_members [OF ms(2,3)] by blast
    then obtain k where "chained beads i k" "k \<noteq> i" "(min i k, max i k) \<in> similar_pairs beads"
      using ms(4) chained_step by blast
    moreover have "k \<in> set ms" using \<open>i \<in> set ms\<close> ms(4) calculation(1) by blast
    ultimately have "CLUSTER_THRESHOLD \<le> cl_cohesion c \<and> cl_cohesion c \<le> 1"
      unfolding ms(1) build_cluster_fields by (intro cohesion_bounds [OF ms(3) \<open>i \<in> set ms\<close>]) auto
    then show "CLUSTER_THRESHOLD \<le> cl_cohesion c" "cl_cohesion c \<le> 1" by auto
  qed
  have act: "keep # close = cl_bead_ids c
      \<and> (\<forall>i < length ?xs. \<forall>j < length ?xs. i \<noteq> j \<longrightarrow> jaccard_similarity (b_title (?xs ! i)) (b_title (?xs ! j)) > 8 / 10)"
    if act: "cl_action c = Merge keep close" for keep close
  proof -
    have near: "classify_relationship beads ms = NearDuplicate" "keep = hd (cl_bead_ids c)" "close = tl (cl_bead_ids c)"
      using act unfolding ms(1) build_cluster_fields(2) by (auto simp: Let_def split: cluster_relationship.splits)
    have "cl_bead_ids c \<noteq> []" using ids ne(1) by simp
    then show ?thesis
      using near near_duplicate_members [OF near(1), of "ord ! i" "ord ! j" for i j] ord(3)
      by (simp add: nth_eq_iff_index_eq flip: ord(1))
  qed
  show ?thesis
    by (rule exI [of _ ?xs], intro conjI allI impI ids sub one srt coh) (use act in blast)+
qed

theorem cluster_order_and_action_witness:
  "\<exists>cs c. cluster_beads twins = Some cs \<and> c \<in> set cs \<and> 2 \<le> length (cl_bead_ids c) \<and> CLUSTER_THRESHOLD \<le> cl_cohesion c"
proof -
  obtain cs c where c: "cluster_beads twins = Some cs" "c \<in> set cs" using twins_cluster by blast
  from cluster_order_and_action [OF this]
  have "2 \<le> length (cl_bead_ids c) \<and> CLUSTER_THRESHOLD \<le> cl_cohesion c"
    by (elim exE conjE, intro conjI) (simp only: length_map, assumption)
  then show ?thesis using c by blast
qed

text \<open>
  A priority is suggested only to a bead that ranks below it, and it is one level behind the
  best member of the cluster; priorities are bytes, so one level behind 255 is 0.
\<close>

theorem suggestion_is_one_below_the_best:
  assumes "suggest_priority b c beads = Some p"
  shows "p < b_priority b \<and> (\<exists>x \<in> set beads. b_id x \<in> set (cl_bead_ids c) \<and> p = (b_priority x + 1) mod 256
    \<and> (distinct (map b_id beads) \<longrightarrow> (\<forall>y \<in> set beads. b_id y \<in> set (cl_bead_ids c) \<longrightarrow> b_priority x \<le> b_priority y)))"
proof -
  let ?ps = "List.map_filter (\<lambda>i. map_option b_priority (List.find (\<lambda>x. b_id x = i) beads)) (cl_bead_ids c)"
  have p: "?ps \<noteq> []" "p = (Min (set ?ps) + 1) mod 256" "p < b_priority b"
    using assms by (auto simp: suggest_priority_def Let_def split: if_splits)
  have "Min (set ?ps) \<in> set ?ps" using p(1) by (intro Min_in) auto
  then obtain i x where x: "i \<in> set (cl_bead_ids c)" "List.find (\<lambda>x. b_id x = i) beads = Some x" "b_priority x = Min (set ?ps)"
    by (auto simp: List.map_filter_def)
  have xb: "x \<in> set beads" "b_id x = i" using x(2) by (auto simp: find_Some_iff)
  have "b_priority x \<le> b_priority y"
    if d: "distinct (map b_id beads)" and y: "y \<in> set beads" "b_id y \<in> set (cl_bead_ids c)" for y
  proof -
    have "List.find (\<lambda>x. b_id x = b_id y) beads = Some y"
      using d y(1) by (induction beads) (auto simp: image_iff)
    then have "b_priority y \<in> set ?ps" using y(2) by (force simp: List.map_filter_def)
    then show ?thesis unfolding x(3) by (intro Min_le) auto
  qed
  then show ?thesis using p(2,3) x xb by auto
qed

theorem suggestion_is_one_below_the_best_witness:
  "\<exists>x \<in> set [titled ''a'' ''Fix login'', (titled ''b'' ''x'')\<lparr> b_priority := 3 \<rparr>]. b_id x = ''a'' \<and> 2 = (b_priority x + 1) mod 256"
proof -
  let ?c = "\<lparr> cl_bead_ids = [''a''], cl_relationship = Overlapping, cl_action = Suppress, cl_cohesion = 1 \<rparr>"
  have "suggest_priority (titled ''b'' ''x''\<lparr> b_priority := 3 \<rparr>) ?c
      [titled ''a'' ''Fix login'', (titled ''b'' ''x'')\<lparr> b_priority := 3 \<rparr>] = Some 2"
    by (simp add: suggest_priority_def List.map_filter_def titled_def sample_bead_def)
  from suggestion_is_one_below_the_best [OF this] show ?thesis by auto
qed

end
