(* ===== verification/Text_Lines.thy ===== *)
theory Text_Lines
  imports Rosary_Prelude
begin

text \<open>
  Text by lines, for the parts of the program that read and write files: splitting at a character,
  joining with a separator (\<open>str::split\<close>, \<open>str::lines\<close>, \<open>[String]::join\<close>), and what they are to each
  other.
\<close>

fun split_on :: "char \<Rightarrow> string \<Rightarrow> string list" where
  "split_on c [] = [[]]"
| "split_on c (x # xs) =
     (if x = c then [] # split_on c xs
      else (case split_on c xs of [] \<Rightarrow> [[x]] | l # ls \<Rightarrow> (x # l) # ls))"

fun join_with :: "string \<Rightarrow> string list \<Rightarrow> string" where
  "join_with sep [] = []"
| "join_with sep [x] = x"
| "join_with sep (x # y # ys) = x @ sep @ join_with sep (y # ys)"

definition strip_cr :: "string \<Rightarrow> string" where
  "strip_cr l = (if l \<noteq> [] \<and> last l = CHR 0x0D then butlast l else l)"

text \<open>A line ends with a newline or a carriage return and a newline; the last one may have no end.\<close>

definition lines_of :: "string \<Rightarrow> string list" where
  "lines_of t =
     (let ls = split_on (CHR 0x0A) t
      in map strip_cr (butlast ls) @ (if last ls = [] then [] else [last ls]))"

lemma split_on_ne [simp]: "split_on c s \<noteq> []"
  by (induction s) (auto split: list.splits)

lemma split_on_plain: "c \<notin> set s \<Longrightarrow> split_on c s = [s]"
  by (induction s) auto

lemma split_on_append: "c \<notin> set s \<Longrightarrow> split_on c (s @ c # t) = s # split_on c t"
  by (induction s) auto

lemma split_join:
  assumes "ls \<noteq> []" "\<forall>l \<in> set ls. c \<notin> set l"
  shows "split_on c (join_with [c] ls) = ls"
  using assms by (induction "[c]" ls rule: join_with.induct) (auto simp: split_on_plain split_on_append)

lemma join_split: "join_with [c] (split_on c s) = s"
proof (induction s)
  case (Cons x s)
  obtain l ls where s: "split_on c s = l # ls" by (cases "split_on c s") auto
  then show ?case using Cons by (cases ls) auto
qed simp

text \<open>Lines that need no trimming come back from the joined text.\<close>

lemma lines_of_join:
  assumes "\<forall>l \<in> set ls. CHR 0x0A \<notin> set l \<and> l \<noteq> [] \<and> last l \<noteq> CHR 0x0D"
  shows "lines_of (join_with [CHR 0x0A] ls) = ls"
proof (cases "ls = []")
  case False
  have "split_on (CHR 0x0A) (join_with [CHR 0x0A] ls) = ls" by (rule split_join [OF False]) (use assms in auto)
  moreover have "map strip_cr (butlast ls) = butlast ls"
    by (rule map_idI) (use assms in_set_butlastD in \<open>force simp: strip_cr_def\<close>)
  moreover have "last ls \<noteq> []" using assms False by simp
  ultimately show ?thesis using False by (simp add: lines_of_def)
qed (simp add: lines_of_def)

lemma trim_plain:
  assumes "s \<noteq> []" "\<not> is_whitespace (hd s)" "\<not> is_whitespace (last s)"
  shows "trim s = s"
proof -
  have "trim_start s = s" using assms(1,2) by (cases s) (simp_all add: trim_start_def)
  moreover have "dropWhile is_whitespace (rev s) = rev s"
    using assms(1,3) by (cases s rule: rev_cases) simp_all
  ultimately show ?thesis by (simp add: trim_def)
qed

end
