(* ===== verification/Restore_Merge.thy ===== *)
theory Restore_Merge
  imports Text_Lines "HOL-Library.Countable"
begin

text \<open>
  The merge of bead exports (\<open>src/restore/merge.rs\<close>, and the reader of \<open>src/restore/mod.rs\<close>): a git
  merge driver that merges three versions of a file of one JSON record per line by bead identifier.

  Writing and parsing a JSON value is \<open>serde_json\<close>'s: \<open>write\<close> and \<open>parse\<close> are parameters, with what
  the code relies on (one line without white space around it, read back as the same value, a conflict
  marker no value) as hypotheses of the theorems that need it.
\<close>

section \<open>Reading\<close>

text \<open>The position of a record that cannot be read counts the lines from 1.\<close>

fun read_lines :: "(string \<Rightarrow> json option) \<Rightarrow> nat \<Rightarrow> string list \<Rightarrow> string + json list" where
  "read_lines parse i [] = Inr []"
| "read_lines parse i (l # ls) =
     (if trim l = [] then read_lines parse (i + 1) ls
      else (case parse (trim l) of
              None \<Rightarrow> Inl (''parsing bead JSONL line '' @ show_nat (i + 1))
            | Some v \<Rightarrow> (case read_lines parse (i + 1) ls of Inl e \<Rightarrow> Inl e | Inr vs \<Rightarrow> Inr (v # vs))))"

definition read_beads_jsonl :: "(string \<Rightarrow> json option) \<Rightarrow> string \<Rightarrow> string + json list" where
  "read_beads_jsonl parse txt = read_lines parse 0 (lines_of txt)"

definition usable_id :: "json \<Rightarrow> string option" where
  "usable_id b =
     (case Option.bind (json_get b ''id'') as_str of
        None \<Rightarrow> None
      | Some s \<Rightarrow> if s = [] then None else Some s)"

fun index_from :: "string \<Rightarrow> nat \<Rightarrow> json list \<Rightarrow> (string \<times> json) list \<Rightarrow> string + (string \<times> json) list" where
  "index_from side i [] out = Inr out"
| "index_from side i (b # bs) out =
     (case usable_id b of
        None \<Rightarrow> Inl (side @ '': record '' @ show_nat (i + 1) @ '' has no usable `id` field'')
      | Some id1 \<Rightarrow>
          if map_of out id1 \<noteq> None
          then Inl (side @ '': duplicate bead id `'' @ id1 @ ''` '' @ [CHR 0xE2, CHR 0x80, CHR 0x94]
                    @ '' input is already corrupt'')
          else index_from side (i + 1) bs (bt_insert id1 b out))"

definition index_by_id :: "json list \<Rightarrow> string \<Rightarrow> string + (string \<times> json) list" where
  "index_by_id beads side = index_from side 0 beads []"

section \<open>Merging\<close>

record merge_outcome =
  mo_text :: string
  mo_theirs_changed :: nat
  mo_ours_changed :: nat
  mo_added :: nat
  mo_resurrected :: nat
  mo_conflicts :: "string list"

definition is_clean :: "merge_outcome \<Rightarrow> bool" where
  "is_clean m \<longleftrightarrow> mo_conflicts m = []"

definition MARKER :: nat where
  "MARKER = 7"

definition newline :: string where
  "newline = [CHR 0x0A]"

definition conflict_block :: "string \<Rightarrow> string \<Rightarrow> string" where
  "conflict_block ours theirs =
     replicate MARKER (CHR ''<'') @ '' ours'' @ newline @ ours @ newline
     @ replicate MARKER (CHR ''='') @ newline @ theirs @ newline
     @ replicate MARKER (CHR ''>'') @ '' theirs''"

text \<open>One turn of the loop over the identifiers: the counts and the blocks so far.\<close>

definition merge_one :: "(json \<Rightarrow> string) \<Rightarrow> (string \<times> json) list \<Rightarrow> (string \<times> json) list \<Rightarrow> (string \<times> json) list
    \<Rightarrow> string \<Rightarrow> merge_outcome \<times> string list \<Rightarrow> merge_outcome \<times> string list" where
  "merge_one write ancestor ours theirs i mb =
     (let (m, blocks) = mb; base = map_of ancestor i
      in case (map_of ours i, map_of theirs i) of
           (Some x, Some y) \<Rightarrow>
             if x = y then (m, blocks @ [write x])
             else if base = Some x then (m\<lparr> mo_theirs_changed := mo_theirs_changed m + 1 \<rparr>, blocks @ [write y])
             else if base = Some y then (m\<lparr> mo_ours_changed := mo_ours_changed m + 1 \<rparr>, blocks @ [write x])
             else (m\<lparr> mo_conflicts := mo_conflicts m @ [i] \<rparr>, blocks @ [conflict_block (write x) (write y)])
         | (Some x, None) \<Rightarrow>
             (if base \<noteq> None then m\<lparr> mo_resurrected := mo_resurrected m + 1 \<rparr>
              else m\<lparr> mo_added := mo_added m + 1 \<rparr>, blocks @ [write x])
         | (None, Some y) \<Rightarrow>
             (if base \<noteq> None then m\<lparr> mo_resurrected := mo_resurrected m + 1 \<rparr>
              else m\<lparr> mo_added := mo_added m + 1 \<rparr>, blocks @ [write y])
         | (None, None) \<Rightarrow> (m, blocks))"

text \<open>A \<open>BTreeSet\<close> of the identifiers of both sides, iterated in order.\<close>

definition all_ids :: "(string \<times> json) list \<Rightarrow> (string \<times> json) list \<Rightarrow> string list" where
  "all_ids ours theirs = sort (remdups (map fst ours @ map fst theirs))"

definition merge_indexed :: "(json \<Rightarrow> string) \<Rightarrow> (string \<times> json) list \<Rightarrow> (string \<times> json) list \<Rightarrow> (string \<times> json) list
    \<Rightarrow> merge_outcome" where
  "merge_indexed write ancestor ours theirs =
     (let m0 = \<lparr> mo_text = [], mo_theirs_changed = 0, mo_ours_changed = 0, mo_added = 0, mo_resurrected = 0,
                 mo_conflicts = [] \<rparr>;
          (m, blocks) = foldl (\<lambda>mb i. merge_one write ancestor ours theirs i mb) (m0, []) (all_ids ours theirs)
      in m\<lparr> mo_text := join_with newline blocks \<rparr>)"

definition merge_contract :: "(json \<Rightarrow> string) \<Rightarrow> json list \<Rightarrow> json list \<Rightarrow> json list \<Rightarrow> string + merge_outcome" where
  "merge_contract write ancestor ours theirs =
     (case index_by_id ancestor ''ancestor'' of
        Inl e \<Rightarrow> Inl e
      | Inr a \<Rightarrow>
          (case index_by_id ours ''ours'' of
             Inl e \<Rightarrow> Inl e
           | Inr x \<Rightarrow>
               (case index_by_id theirs ''theirs'' of
                  Inl e \<Rightarrow> Inl e
                | Inr y \<Rightarrow> Inr (merge_indexed write a x y))))"

text \<open>The driver: the three files in, the merged text over ours.\<close>

definition merge_jsonl_files :: "(string \<Rightarrow> json option) \<Rightarrow> (json \<Rightarrow> string) \<Rightarrow> string \<Rightarrow> string \<Rightarrow> string
    \<Rightarrow> string + merge_outcome" where
  "merge_jsonl_files parse write ancestor ours theirs =
     (case read_beads_jsonl parse ancestor of
        Inl e \<Rightarrow> Inl e
      | Inr a \<Rightarrow>
          (case read_beads_jsonl parse ours of
             Inl e \<Rightarrow> Inl e
           | Inr x \<Rightarrow>
               (case read_beads_jsonl parse theirs of
                  Inl e \<Rightarrow> Inl e
                | Inr y \<Rightarrow> merge_contract write a x y)))"

section \<open>The index of a side\<close>

definition sound_side :: "json list \<Rightarrow> bool" where
  "sound_side bs \<longleftrightarrow> (\<forall>b \<in> set bs. usable_id b \<noteq> None) \<and> distinct (map usable_id bs)"

definition record_of :: "json list \<Rightarrow> string \<Rightarrow> json option" where
  "record_of bs i = List.find (\<lambda>b. usable_id b = Some i) bs"

definition ids_of :: "json list \<Rightarrow> string set" where
  "ids_of bs = {i. \<exists>b \<in> set bs. usable_id b = Some i}"

lemma record_of_Some: "sound_side bs \<Longrightarrow> record_of bs i = Some b \<longleftrightarrow> b \<in> set bs \<and> usable_id b = Some i"
  unfolding record_of_def sound_side_def
  by (induction bs) (auto, (metis imageI)+)

lemma record_of_None: "record_of bs i = None \<longleftrightarrow> i \<notin> ids_of bs"
  by (auto simp: record_of_def find_None_iff ids_of_def)

lemma index_from_ok:
  assumes "bt_ok out"
  shows "(index_from side i bs out = Inr m \<longrightarrow> bt_ok m \<and> sound_side bs \<and> ids_of bs \<inter> fst ` set out = {}
      \<and> (\<forall>k. map_of m k = (case record_of bs k of None \<Rightarrow> map_of out k | Some b \<Rightarrow> Some b)))
    \<and> (sound_side bs \<and> ids_of bs \<inter> fst ` set out = {} \<longrightarrow> (\<exists>m. index_from side i bs out = Inr m))"
  using assms
proof (induction bs arbitrary: i out)
  case Nil
  then show ?case by (auto simp: sound_side_def record_of_def ids_of_def)
next
  case (Cons b bs)
  show ?case
  proof (cases "usable_id b")
    case None
    then show ?thesis by (simp add: sound_side_def)
  next
    case (Some k)
    have ids: "ids_of (b # bs) = insert k (ids_of bs)" by (auto simp: ids_of_def Some)
    show ?thesis
    proof (cases "map_of out k")
      case (Some v)
      then have "k \<in> fst ` set out" by (metis domI dom_map_of_conv_image_fst)
      then show ?thesis using Some \<open>usable_id b = Some k\<close> by (simp add: ids)
    next
      case None
      then have k: "k \<notin> fst ` set out" by (simp add: map_of_eq_None_iff)
      have step: "index_from side i (b # bs) out = index_from side (i + 1) bs (bt_insert k b out)"
        using Some None by simp
      have sound: "sound_side (b # bs) \<longleftrightarrow> sound_side bs \<and> k \<notin> ids_of bs"
        using Some by (auto simp: sound_side_def ids_of_def image_iff)
      have rec: "record_of (b # bs) j = (if j = k then Some b else record_of bs j)" for j
        using Some by (simp add: record_of_def)
      have nk: "k \<notin> ids_of bs \<Longrightarrow> record_of bs k = None" by (simp add: record_of_None)
      note IH = Cons.IH [OF bt_ok_insert [OF Cons.prems], of "i + 1" k b]
      show ?thesis
        using IH k nk unfolding step sound ids bt_keys_insert
        by (auto simp: rec bt_get_insert split: if_splits option.splits)
    qed
  qed
qed

lemma index_by_id_Inr:
  assumes "index_by_id bs side = Inr m"
  shows "bt_ok m" "sound_side bs" "map_of m = record_of bs" "fst ` set m = ids_of bs"
proof -
  note ix = index_from_ok [of "[]" side 0 bs m, THEN conjunct1, THEN mp] assms
  show "bt_ok m" "sound_side bs" using ix by (auto simp: index_by_id_def)
  show r: "map_of m = record_of bs"
    using ix by (auto simp: index_by_id_def fun_eq_iff split: option.splits)
  show "fst ` set m = ids_of bs"
    using r record_of_None [of bs] by (metis (no_types, lifting) dom_map_of_conv_image_fst domIff set_eqI)
qed

lemma index_by_id_sound: "sound_side bs \<longleftrightarrow> (\<exists>m. index_by_id bs side = Inr m)"
  using index_from_ok [of "[]" side 0 bs] index_by_id_Inr(2) by (auto simp: index_by_id_def)

section \<open>Three-way merge of one identifier\<close>

datatype merged = Kept json | Clash json json

text \<open>The table in the documentation of \<open>merge_contract\<close>.\<close>

fun merge3 :: "json option \<Rightarrow> json option \<Rightarrow> json option \<Rightarrow> merged option" where
  "merge3 base None None = None"
| "merge3 base (Some x) None = Some (Kept x)"
| "merge3 base None (Some y) = Some (Kept y)"
| "merge3 base (Some x) (Some y) =
     Some (if x = y then Kept x else if base = Some x then Kept y else if base = Some y then Kept x else Clash x y)"

definition block_of :: "(json \<Rightarrow> string) \<Rightarrow> merged option \<Rightarrow> string list" where
  "block_of write r = (case r of None \<Rightarrow> [] | Some (Kept x) \<Rightarrow> [write x] | Some (Clash x y) \<Rightarrow> [conflict_block (write x) (write y)])"

definition clashes :: "merged option \<Rightarrow> bool" where
  "clashes r = (case r of Some (Clash _ _) \<Rightarrow> True | _ \<Rightarrow> False)"

text \<open>What is counted of one identifier.\<close>

definition took_theirs :: "json option \<Rightarrow> json option \<Rightarrow> json option \<Rightarrow> bool" where
  "took_theirs base x y \<longleftrightarrow> x \<noteq> None \<and> y \<noteq> None \<and> x \<noteq> y \<and> base = x"

definition one_sided :: "json option \<Rightarrow> json option \<Rightarrow> bool" where
  "one_sided x y \<longleftrightarrow> (x = None) \<noteq> (y = None)"

lemma merge_loop:
  assumes "\<forall>i \<in> set is. map_of x i \<noteq> None \<or> map_of y i \<noteq> None"
  shows "foldl (\<lambda>mb i. merge_one write a x y i mb) (m, bs) is =
    (m\<lparr> mo_theirs_changed := mo_theirs_changed m + length (filter (\<lambda>i. took_theirs (map_of a i) (map_of x i) (map_of y i)) is),
        mo_ours_changed := mo_ours_changed m + length (filter (\<lambda>i. took_theirs (map_of a i) (map_of y i) (map_of x i)) is),
        mo_added := mo_added m + length (filter (\<lambda>i. one_sided (map_of x i) (map_of y i) \<and> map_of a i = None) is),
        mo_resurrected := mo_resurrected m + length (filter (\<lambda>i. one_sided (map_of x i) (map_of y i) \<and> map_of a i \<noteq> None) is),
        mo_conflicts := mo_conflicts m @ filter (\<lambda>i. clashes (merge3 (map_of a i) (map_of x i) (map_of y i))) is \<rparr>,
     bs @ concat (map (\<lambda>i. block_of write (merge3 (map_of a i) (map_of x i) (map_of y i))) is))"
  using assms
proof (induction "is" arbitrary: m bs)
  case (Cons i js)
  obtain m1 b1 where one: "merge_one write a x y i (m, bs) = (m1, b1)" by force
  then show ?case
    using Cons.IH [of m1 b1] Cons.prems
    by (cases "map_of x i"; cases "map_of y i")
       (auto simp: merge_one_def took_theirs_def one_sided_def clashes_def block_of_def Let_def split: if_splits)
qed simp

definition merged_ids :: "json list \<Rightarrow> json list \<Rightarrow> string list" where
  "merged_ids X Y = sorted_list_of_set (ids_of X \<union> ids_of Y)"

definition merged_at :: "json list \<Rightarrow> json list \<Rightarrow> json list \<Rightarrow> string \<Rightarrow> merged option" where
  "merged_at A X Y i = merge3 (record_of A i) (record_of X i) (record_of Y i)"

lemma finite_ids [simp]: "finite (ids_of bs)"
proof -
  have "ids_of bs \<subseteq> (the \<circ> usable_id) ` set bs" by (force simp: ids_of_def)
  then show ?thesis by (rule finite_subset) simp
qed

lemma merged_ids_set [simp]: "set (merged_ids X Y) = ids_of X \<union> ids_of Y"
  by (simp add: merged_ids_def)

lemma merged_ids_sorted: "sorted_wrt (<) (merged_ids X Y)"
  using strict_sorted_list_of_set by (simp add: merged_ids_def)

lemma merge_contract_sound:
  assumes "sound_side A" "sound_side X" "sound_side Y"
  shows "merge_contract write A X Y = Inr
    \<lparr> mo_text = join_with newline (concat (map (\<lambda>i. block_of write (merged_at A X Y i)) (merged_ids X Y))),
      mo_theirs_changed = length (filter (\<lambda>i. took_theirs (record_of A i) (record_of X i) (record_of Y i)) (merged_ids X Y)),
      mo_ours_changed = length (filter (\<lambda>i. took_theirs (record_of A i) (record_of Y i) (record_of X i)) (merged_ids X Y)),
      mo_added = length (filter (\<lambda>i. one_sided (record_of X i) (record_of Y i) \<and> record_of A i = None) (merged_ids X Y)),
      mo_resurrected = length (filter (\<lambda>i. one_sided (record_of X i) (record_of Y i) \<and> record_of A i \<noteq> None) (merged_ids X Y)),
      mo_conflicts = filter (\<lambda>i. clashes (merged_at A X Y i)) (merged_ids X Y) \<rparr>"
proof -
  obtain a x y where m: "index_by_id A ''ancestor'' = Inr a" "index_by_id X ''ours'' = Inr x" "index_by_id Y ''theirs'' = Inr y"
    using assms index_by_id_sound by metis
  have ids: "all_ids x y = merged_ids X Y"
    using index_by_id_Inr(4) [OF m(2)] index_by_id_Inr(4) [OF m(3)]
    by (simp add: all_ids_def merged_ids_def sorted_list_of_set_sort_remdups [symmetric])
  have "\<forall>i \<in> set (merged_ids X Y). map_of x i \<noteq> None \<or> map_of y i \<noteq> None"
    using index_by_id_Inr(3) [OF m(2)] index_by_id_Inr(3) [OF m(3)] by (auto simp: record_of_None)
  from merge_loop [OF this, of "write" a] show ?thesis
    using m by (simp add: merge_contract_def merge_indexed_def Let_def ids index_by_id_Inr(3) [OF m(1)]
        index_by_id_Inr(3) [OF m(2)] index_by_id_Inr(3) [OF m(3)] merged_at_def)
qed

lemma merge_contract_unsound:
  "(\<exists>e. merge_contract write A X Y = Inl e) \<longleftrightarrow> \<not> (sound_side A \<and> sound_side X \<and> sound_side Y)"
proof -
  have "sound_side A \<and> sound_side X \<and> sound_side Y" if "merge_contract write A X Y = Inr m" for m
    using that index_by_id_Inr(2) by (auto simp: merge_contract_def split: sum.splits)
  then show ?thesis using merge_contract_sound by (cases "merge_contract write A X Y") auto
qed

text \<open>
  C13. The merge fails exactly when one of the three versions has a record without a usable identifier
  or an identifier twice. Otherwise every identifier of either side has its place in the order of the
  identifiers, decided by the three-way table: a record both sides agree on or that only one side has is
  kept, a record that one side left as it was gives way to the other's, and two different changes are
  both kept in a conflict block. The conflicts are exactly the identifiers of such blocks, and the
  identifiers are counted by what became of them.
\<close>

theorem merge_is_three_way:
  "((\<exists>e. merge_contract write A X Y = Inl e) \<longleftrightarrow> \<not> (sound_side A \<and> sound_side X \<and> sound_side Y))
   \<and> (\<forall>m. merge_contract write A X Y = Inr m \<longrightarrow>
        mo_text m = join_with newline (concat (map (\<lambda>i. block_of write (merged_at A X Y i)) (merged_ids X Y)))
      \<and> sorted_wrt (<) (merged_ids X Y) \<and> set (merged_ids X Y) = ids_of X \<union> ids_of Y
      \<and> mo_conflicts m = filter (\<lambda>i. clashes (merged_at A X Y i)) (merged_ids X Y)
      \<and> (\<forall>i. clashes (merged_at A X Y i) \<longleftrightarrow> record_of X i \<noteq> None \<and> record_of Y i \<noteq> None
            \<and> record_of X i \<noteq> record_of Y i \<and> record_of A i \<noteq> record_of X i \<and> record_of A i \<noteq> record_of Y i)
      \<and> length (merged_ids X Y) = length (filter (\<lambda>i. record_of X i = record_of Y i) (merged_ids X Y))
          + mo_theirs_changed m + mo_ours_changed m + mo_added m + mo_resurrected m + length (mo_conflicts m))"
proof -
  have clash: "clashes (merged_at A X Y i) \<longleftrightarrow> record_of X i \<noteq> None \<and> record_of Y i \<noteq> None
      \<and> record_of X i \<noteq> record_of Y i \<and> record_of A i \<noteq> record_of X i \<and> record_of A i \<noteq> record_of Y i" for i
    by (cases "record_of X i"; cases "record_of Y i") (auto simp: merged_at_def clashes_def)
  let ?n = "\<lambda>P. length (filter P (merged_ids X Y))"
  have count: "length js = length (filter (\<lambda>i. record_of X i = record_of Y i) js)
      + length (filter (\<lambda>i. took_theirs (record_of A i) (record_of X i) (record_of Y i)) js)
      + length (filter (\<lambda>i. took_theirs (record_of A i) (record_of Y i) (record_of X i)) js)
      + length (filter (\<lambda>i. one_sided (record_of X i) (record_of Y i) \<and> record_of A i = None) js)
      + length (filter (\<lambda>i. one_sided (record_of X i) (record_of Y i) \<and> record_of A i \<noteq> None) js)
      + length (filter (\<lambda>i. clashes (merged_at A X Y i)) js)" for js
    by (induction js) (auto simp: clash took_theirs_def one_sided_def)
  show ?thesis
  proof (intro conjI allI impI)
    show "(\<exists>e. merge_contract write A X Y = Inl e) \<longleftrightarrow> \<not> (sound_side A \<and> sound_side X \<and> sound_side Y)"
      by (rule merge_contract_unsound)
    fix m
    assume m: "merge_contract write A X Y = Inr m"
    then have "sound_side A" "sound_side X" "sound_side Y" using merge_contract_unsound [of "write" A X Y] by auto
    note eq = merge_contract_sound [OF this, of "write", unfolded m sum.inject]
    show "mo_text m = join_with newline (concat (map (\<lambda>i. block_of write (merged_at A X Y i)) (merged_ids X Y)))"
      "mo_conflicts m = filter (\<lambda>i. clashes (merged_at A X Y i)) (merged_ids X Y)"
      "length (merged_ids X Y) = length (filter (\<lambda>i. record_of X i = record_of Y i) (merged_ids X Y))
          + mo_theirs_changed m + mo_ours_changed m + mo_added m + mo_resurrected m + length (mo_conflicts m)"
      by (simp_all add: eq count [of "merged_ids X Y"])
  qed (simp_all only: merged_ids_sorted merged_ids_set clash)
qed

section \<open>Laws of the merge\<close>

definition exported :: "(json \<Rightarrow> string) \<Rightarrow> (string \<Rightarrow> json option) \<Rightarrow> string set \<Rightarrow> string" where
  "exported write r I = join_with newline (map (\<lambda>i. write (the (r i))) (sorted_list_of_set I))"

lemma merge3_sym:
  "\<not> clashes (merge3 b x y) \<Longrightarrow> merge3 b y x = merge3 b x y" "clashes (merge3 b y x) = clashes (merge3 b x y)"
  by (cases x; cases y; auto simp: clashes_def split: if_splits)+

lemma merged_ids_sym: "merged_ids Y X = merged_ids X Y"
  by (simp add: merged_ids_def Un_commute)

lemma join_concat:
  "\<forall>ls \<in> set lss. ls \<noteq> [] \<Longrightarrow> join_with sep (map (join_with sep) lss) = join_with sep (concat lss)"
proof (induction lss)
  case (Cons ls lss)
  have app: "xs \<noteq> [] \<Longrightarrow> ys \<noteq> [] \<Longrightarrow> join_with sep (xs @ ys) = join_with sep xs @ sep @ join_with sep ys" for xs ys
    by (induction sep xs rule: join_with.induct) (auto simp: neq_Nil_conv)
  have cons: "ys \<noteq> [] \<Longrightarrow> join_with sep (x # ys) = x @ sep @ join_with sep ys" for x ys
    by (cases ys) auto
  show ?case using Cons by (cases "lss = []") (auto simp: app cons)
qed simp

lemma kept_blocks:
  assumes "\<forall>i \<in> set js. \<exists>v. f i = Some (Kept v) \<and> v = g i"
  shows "concat (map (\<lambda>i. block_of write (f i)) js) = map (\<lambda>i. write (g i)) js"
  using assms by (induction js) (auto simp: block_of_def)

text \<open>
  The merge is symmetric: with the sides swapped it conflicts on the same identifiers, counts the
  changes of the other side, and writes the same file when it is clean. It loses nothing: every
  identifier of a side has its block. Two equal sides are taken as they are; a side that is the ancestor
  gives way to the other and only adds what the other does not have. Either way the merge is clean.
\<close>

theorem merge_laws:
  assumes "sound_side A" "sound_side X" "sound_side Y"
  shows "(\<exists>m m'. merge_contract write A X Y = Inr m \<and> merge_contract write A Y X = Inr m'
       \<and> mo_conflicts m' = mo_conflicts m \<and> mo_theirs_changed m' = mo_ours_changed m
       \<and> mo_ours_changed m' = mo_theirs_changed m \<and> mo_added m' = mo_added m
       \<and> mo_resurrected m' = mo_resurrected m \<and> (is_clean m \<longrightarrow> mo_text m' = mo_text m))
     \<and> (\<forall>i \<in> ids_of X \<union> ids_of Y. block_of write (merged_at A X Y i) \<noteq> [])
     \<and> (\<exists>m. merge_contract write A X X = Inr m \<and> is_clean m \<and> mo_text m = exported write (record_of X) (ids_of X))
     \<and> (\<exists>m. merge_contract write X X Y = Inr m \<and> is_clean m
          \<and> mo_text m = exported write (record_of X ++ record_of Y) (ids_of X \<union> ids_of Y))"
proof (intro conjI)
  have sym: "clashes (merged_at A Y X i) = clashes (merged_at A X Y i)"
    "\<not> clashes (merged_at A X Y i) \<Longrightarrow> merged_at A Y X i = merged_at A X Y i" for i
    using merge3_sym by (simp_all add: merged_at_def)
  have os: "one_sided (record_of Y i) (record_of X i) = one_sided (record_of X i) (record_of Y i)" for i
    by (auto simp: one_sided_def)
  have same_text: "\<forall>i \<in> set (merged_ids X Y). \<not> clashes (merged_at A X Y i) \<Longrightarrow>
      concat (map (\<lambda>i. block_of write (merged_at A Y X i)) (merged_ids X Y))
      = concat (map (\<lambda>i. block_of write (merged_at A X Y i)) (merged_ids X Y))"
    using sym(2) by (intro arg_cong [of _ _ concat]) simp
  show "\<exists>m m'. merge_contract write A X Y = Inr m \<and> merge_contract write A Y X = Inr m'
       \<and> mo_conflicts m' = mo_conflicts m \<and> mo_theirs_changed m' = mo_ours_changed m
       \<and> mo_ours_changed m' = mo_theirs_changed m \<and> mo_added m' = mo_added m
       \<and> mo_resurrected m' = mo_resurrected m \<and> (is_clean m \<longrightarrow> mo_text m' = mo_text m)"
    using same_text by (simp add: merge_contract_sound assms merged_ids_sym [of Y X] sym(1) os is_clean_def filter_empty_conv)
  show "\<forall>i \<in> ids_of X \<union> ids_of Y. block_of write (merged_at A X Y i) \<noteq> []"
  proof
    fix i
    assume "i \<in> ids_of X \<union> ids_of Y"
    then have "record_of X i \<noteq> None \<or> record_of Y i \<noteq> None" by (simp add: record_of_None)
    then show "block_of write (merged_at A X Y i) \<noteq> []"
      by (cases "record_of X i"; cases "record_of Y i") (auto simp: merged_at_def block_of_def)
  qed
  have same: "merged_at A X X i = Some (Kept (the (record_of X i)))" if "i \<in> ids_of X" for i
  proof -
    have "record_of X i \<noteq> None" using that by (simp add: record_of_None)
    then show ?thesis by (auto simp: merged_at_def)
  qed
  have "concat (map (\<lambda>i. block_of write (merged_at A X X i)) (merged_ids X X)) = map (\<lambda>i. write (the (record_of X i))) (merged_ids X X)"
    by (rule kept_blocks) (use same in auto)
  then show "\<exists>m. merge_contract write A X X = Inr m \<and> is_clean m \<and> mo_text m = exported write (record_of X) (ids_of X)"
    using same by (auto simp: merge_contract_sound assms is_clean_def exported_def merged_ids_def filter_empty_conv clashes_def)
  have theirs: "merged_at X X Y i = Some (Kept (the ((record_of X ++ record_of Y) i)))" if "i \<in> ids_of X \<union> ids_of Y" for i
  proof -
    have "record_of X i \<noteq> None \<or> record_of Y i \<noteq> None" using that by (auto simp: record_of_None)
    then show ?thesis by (cases "record_of X i"; cases "record_of Y i") (auto simp: merged_at_def map_add_def)
  qed
  have "concat (map (\<lambda>i. block_of write (merged_at X X Y i)) (merged_ids X Y))
      = map (\<lambda>i. write (the ((record_of X ++ record_of Y) i))) (merged_ids X Y)"
    by (rule kept_blocks) (use theirs in auto)
  then show "\<exists>m. merge_contract write X X Y = Inr m \<and> is_clean m
      \<and> mo_text m = exported write (record_of X ++ record_of Y) (ids_of X \<union> ids_of Y)"
    using theirs by (auto simp: merge_contract_sound assms is_clean_def exported_def merged_ids_def filter_empty_conv clashes_def)
qed

section \<open>Reading the merged file\<close>

definition own_line :: "string \<Rightarrow> bool" where
  "own_line l \<longleftrightarrow> l \<noteq> [] \<and> CHR 0x0A \<notin> set l \<and> \<not> is_whitespace (hd l) \<and> \<not> is_whitespace (last l)"

lemma own_line_facts: "own_line l \<Longrightarrow> trim l = l \<and> l \<noteq> [] \<and> CHR 0x0A \<notin> set l \<and> last l \<noteq> CHR 0x0D"
  by (auto simp: own_line_def trim_plain is_whitespace_def)

lemma read_written:
  assumes "\<forall>v. parse (write v) = Some v \<and> own_line (write v)"
  shows "read_lines parse i (map write vs) = Inr vs"
  using assms own_line_facts by (induction vs arbitrary: i) auto

lemma read_lines_Inr: "read_lines parse i ls = Inr vs \<Longrightarrow> \<forall>l \<in> set ls. trim l \<noteq> [] \<longrightarrow> parse (trim l) \<noteq> None"
  by (induction parse i ls arbitrary: vs rule: read_lines.induct) (auto split: if_splits option.splits sum.splits)

definition marker_line :: string where
  "marker_line = replicate MARKER (CHR ''<'') @ '' ours''"

definition block_lines :: "(json \<Rightarrow> string) \<Rightarrow> merged option \<Rightarrow> string list list" where
  "block_lines write r = (case r of None \<Rightarrow> [] | Some (Kept x) \<Rightarrow> [[write x]]
     | Some (Clash x y) \<Rightarrow> [[marker_line, write x, replicate MARKER (CHR ''=''), write y,
           replicate MARKER (CHR ''>'') @ '' theirs'']])"

lemma block_of_lines: "block_of write r = map (join_with newline) (block_lines write r)"
  by (simp add: block_of_def block_lines_def conflict_block_def marker_line_def newline_def split: option.splits merged.splits)

lemma marker_own_line:
  "own_line marker_line" "own_line (replicate MARKER (CHR ''=''))" "own_line (replicate MARKER (CHR ''>'') @ '' theirs'')"
  by (simp_all add: own_line_def marker_line_def MARKER_def is_whitespace_def numeral_eq_Suc)

lemma merged_text_lines:
  assumes "\<forall>v. own_line (write v)"
  shows "lines_of (join_with newline (concat (map (\<lambda>i. block_of write (f i)) js)))
      = concat (concat (map (\<lambda>i. block_lines write (f i)) js))"
proof -
  let ?lss = "concat (map (\<lambda>i. block_lines write (f i)) js)"
  have "concat (map (\<lambda>i. block_of write (f i)) js) = map (join_with newline) ?lss"
    by (simp add: block_of_lines map_concat comp_def)
  moreover have "\<forall>ls \<in> set (block_lines write r). ls \<noteq> []" for r
    by (cases r; cases "the r") (auto simp: block_lines_def)
  then have "\<forall>ls \<in> set ?lss. ls \<noteq> []" by auto
  ultimately have "join_with newline (concat (map (\<lambda>i. block_of write (f i)) js)) = join_with newline (concat ?lss)"
    using join_concat [of ?lss newline] by simp
  moreover have "\<forall>l \<in> set (concat (block_lines write r)). own_line l" for r
    using assms marker_own_line by (cases r; cases "the r") (auto simp: block_lines_def)
  then have "\<forall>l \<in> set (concat ?lss). own_line l" by fastforce
  ultimately show ?thesis using lines_of_join [of "concat ?lss"] own_line_facts by (simp add: newline_def)
qed

text \<open>
  A file that was merged without a conflict reads back as one record per identifier, in the order of
  the identifiers, and it is itself a sound side; one with a conflict cannot be read at all. This holds
  when a value is written on a line of its own and read back as it was, and a marker line is no value.
\<close>

theorem merged_file_reads_back:
  assumes ok: "sound_side A" "sound_side X" "sound_side Y"
    and law: "\<forall>v. parse (write v) = Some v \<and> own_line (write v)" and mark: "parse marker_line = None"
    and m: "merge_contract write A X Y = Inr m"
  shows "(is_clean m \<longrightarrow> (\<exists>vs. read_beads_jsonl parse (mo_text m) = Inr vs \<and> map usable_id vs = map Some (merged_ids X Y)
            \<and> sound_side vs \<and> (\<forall>v \<in> set vs. v \<in> set X \<union> set Y)))
    \<and> (\<not> is_clean m \<longrightarrow> (\<exists>e. read_beads_jsonl parse (mo_text m) = Inl e))"
proof -
  note eq = merge_contract_sound [OF ok, of "write", unfolded m sum.inject]
  let ?ls = "concat (concat (map (\<lambda>i. block_lines write (merged_at A X Y i)) (merged_ids X Y)))"
  have read: "read_beads_jsonl parse (mo_text m) = read_lines parse 0 ?ls"
    using merged_text_lines [of "write" "merged_at A X Y" "merged_ids X Y"] law by (simp add: eq read_beads_jsonl_def)
  have clean: "is_clean m \<longleftrightarrow> (\<forall>i \<in> set (merged_ids X Y). \<not> clashes (merged_at A X Y i))"
    by (auto simp: eq is_clean_def filter_empty_conv)
  have at: "\<exists>v. merged_at A X Y i = Some (Kept v) \<and> usable_id v = Some i \<and> v \<in> set X \<union> set Y"
    if i: "i \<in> set (merged_ids X Y)" and c: "\<not> clashes (merged_at A X Y i)" for i
  proof -
    have "record_of X i \<noteq> None \<or> record_of Y i \<noteq> None" using i by (simp add: record_of_None)
    then obtain z where z: "merged_at A X Y i = Some z"
      by (cases "record_of X i"; cases "record_of Y i") (auto simp: merged_at_def)
    then obtain v where v: "merged_at A X Y i = Some (Kept v)"
      using c by (cases z) (auto simp: clashes_def)
    then have "record_of X i = Some v \<or> record_of Y i = Some v"
      by (cases "record_of X i"; cases "record_of Y i") (auto simp: merged_at_def split: if_splits)
    then show ?thesis using v record_of_Some [OF ok(2)] record_of_Some [OF ok(3)] by auto
  qed
  show ?thesis
  proof (intro conjI impI)
    assume "is_clean m"
    then obtain g where g: "\<forall>i \<in> set (merged_ids X Y). merged_at A X Y i = Some (Kept (g i)) \<and> usable_id (g i) = Some i
        \<and> g i \<in> set X \<union> set Y" using at clean by metis
    have "?ls = map write (map g (merged_ids X Y))"
    proof -
      have "\<forall>i \<in> set js. i \<in> set (merged_ids X Y) \<Longrightarrow>
          concat (concat (map (\<lambda>i. block_lines write (merged_at A X Y i)) js)) = map write (map g js)" for js
        using g by (induction js) (auto simp: block_lines_def)
      then show ?thesis by blast
    qed
    then have "read_beads_jsonl parse (mo_text m) = Inr (map g (merged_ids X Y))"
      using read read_written [OF law, of 0 "map g (merged_ids X Y)"] by (simp only:)
    moreover have ids: "map usable_id (map g (merged_ids X Y)) = map Some (merged_ids X Y)" using g by simp
    moreover have "sound_side (map g (merged_ids X Y))"
    proof -
      have "distinct (merged_ids X Y)" using merged_ids_sorted strict_sorted_iff by blast
      then have "distinct (map Some (merged_ids X Y))" by (simp add: distinct_map)
      moreover have "\<forall>b \<in> set (map g (merged_ids X Y)). usable_id b \<noteq> None" using g by auto
      ultimately show ?thesis using ids unfolding sound_side_def by (simp only:)
    qed
    ultimately show "\<exists>vs. read_beads_jsonl parse (mo_text m) = Inr vs \<and> map usable_id vs = map Some (merged_ids X Y)
            \<and> sound_side vs \<and> (\<forall>v \<in> set vs. v \<in> set X \<union> set Y)" using g by (intro exI [of _ "map g (merged_ids X Y)"]) auto
  next
    assume "\<not> is_clean m"
    then obtain i where i: "i \<in> set (merged_ids X Y)" "clashes (merged_at A X Y i)" using clean by blast
    then obtain x y where "merged_at A X Y i = Some (Clash x y)"
      by (auto simp: clashes_def split: option.splits merged.splits)
    then have "marker_line \<in> set ?ls" using i(1) by (force simp: block_lines_def)
    moreover have "trim marker_line = marker_line" "marker_line \<noteq> []" using own_line_facts marker_own_line(1) by blast+
    ultimately show "\<exists>e. read_beads_jsonl parse (mo_text m) = Inl e"
      using read read_lines_Inr [of parse 0 ?ls] mark by (cases "read_lines parse 0 ?ls") (simp, metis)
  qed
qed

instance json :: countable
  by countable_datatype

definition rec1 :: "string \<Rightarrow> int \<Rightarrow> json" where
  "rec1 i n = JObj [(''id'', JStr i), (''v'', JNum n)]"

text \<open>A writer and a reader that keep the laws asked of \<open>serde_json\<close>.\<close>

definition unary_write :: "json \<Rightarrow> string" where
  "unary_write v = CHR ''{'' # replicate (to_nat v) (CHR ''0'') @ ''}''"

definition unary_parse :: "string \<Rightarrow> json option" where
  "unary_parse s = (if s \<noteq> [] \<and> hd s = CHR ''{'' then Some (from_nat (length s - 2)) else None)"

lemma unary_laws: "unary_parse (unary_write v) = Some v" "own_line (unary_write v)" "unary_parse marker_line = None"
  by (auto simp: unary_parse_def unary_write_def own_line_def is_whitespace_def marker_line_def MARKER_def numeral_eq_Suc)

lemma sample_sides:
  "sound_side [rec1 ''a'' 0, rec1 ''b'' 0]" "sound_side [rec1 ''a'' 1, rec1 ''b'' 0]" "sound_side [rec1 ''a'' 0, rec1 ''b'' 2]"
  "sound_side [rec1 ''a'' 2]"
  by (simp_all add: sound_side_def rec1_def usable_id_def)

lemma sample_at:
  "merged_at [rec1 ''a'' 0, rec1 ''b'' 0] [rec1 ''a'' 1, rec1 ''b'' 0] [rec1 ''a'' 0, rec1 ''b'' 2] ''a'' = Some (Kept (rec1 ''a'' 1))"
  "merged_at [rec1 ''a'' 0, rec1 ''b'' 0] [rec1 ''a'' 1, rec1 ''b'' 0] [rec1 ''a'' 2] ''a'' = Some (Clash (rec1 ''a'' 1) (rec1 ''a'' 2))"
  by (simp_all add: merged_at_def record_of_def rec1_def usable_id_def)

theorem merge_is_three_way_witness:
  "\<exists>m. merge_contract unary_write [rec1 ''a'' 0, rec1 ''b'' 0] [rec1 ''a'' 1, rec1 ''b'' 0] [rec1 ''a'' 2] = Inr m
     \<and> ''a'' \<in> set (mo_conflicts m)"
proof -
  let ?A = "[rec1 ''a'' 0, rec1 ''b'' 0]" and ?X = "[rec1 ''a'' 1, rec1 ''b'' 0]" and ?Y = "[rec1 ''a'' 2]"
  note th = merge_is_three_way [of unary_write ?A ?X ?Y]
  have "\<not> (\<exists>e. merge_contract unary_write ?A ?X ?Y = Inl e)" using th [THEN conjunct1] sample_sides by blast
  then obtain m where m: "merge_contract unary_write ?A ?X ?Y = Inr m" by (cases "merge_contract unary_write ?A ?X ?Y") auto
  have "''a'' \<in> ids_of ?Y" by (simp add: ids_of_def rec1_def usable_id_def)
  then have a: "''a'' \<in> set (merged_ids ?X ?Y)" by simp
  have c: "clashes (merged_at ?A ?X ?Y ''a'')" by (simp add: sample_at clashes_def)
  have mc: "mo_conflicts m = filter (\<lambda>i. clashes (merged_at ?A ?X ?Y i)) (merged_ids ?X ?Y)"
    using th [THEN conjunct2, THEN spec, THEN mp, OF m] by blast
  have "''a'' \<in> set (mo_conflicts m)" unfolding mc set_filter using a c by blast
  then show ?thesis using m by blast
qed

theorem merge_laws_witness:
  "\<exists>m. merge_contract unary_write [rec1 ''a'' 0, rec1 ''b'' 0] [rec1 ''a'' 0, rec1 ''b'' 0] [rec1 ''a'' 2] = Inr m \<and> is_clean m"
  using merge_laws [OF sample_sides(1) sample_sides(1) sample_sides(4), of unary_write, THEN conjunct2, THEN conjunct2, THEN conjunct2]
  by blast

theorem merged_file_reads_back_witness:
  "\<exists>m e. merge_contract unary_write [rec1 ''a'' 0, rec1 ''b'' 0] [rec1 ''a'' 1, rec1 ''b'' 0] [rec1 ''a'' 2] = Inr m
     \<and> read_beads_jsonl unary_parse (mo_text m) = Inl e"
proof -
  let ?A = "[rec1 ''a'' 0, rec1 ''b'' 0]" and ?X = "[rec1 ''a'' 1, rec1 ''b'' 0]" and ?Y = "[rec1 ''a'' 2]"
  obtain m where m: "merge_contract unary_write ?A ?X ?Y = Inr m" "mo_conflicts m = filter (\<lambda>i. clashes (merged_at ?A ?X ?Y i)) (merged_ids ?X ?Y)"
    using merge_contract_sound [OF sample_sides(1,2,4), of unary_write] by auto
  have "''a'' \<in> ids_of ?Y" by (simp add: ids_of_def rec1_def usable_id_def)
  then have "''a'' \<in> set (merged_ids ?X ?Y)" by simp
  moreover have "clashes (merged_at ?A ?X ?Y ''a'')" by (simp add: sample_at clashes_def)
  ultimately have "\<not> is_clean m" using m(2) by (metis filter_empty_conv is_clean_def)
  then show ?thesis
    using merged_file_reads_back [of ?A ?X ?Y unary_parse unary_write m] sample_sides unary_laws m(1) by blast
qed

end
