(* ===== verification/Doc_Parse.thy ===== *)
theory Doc_Parse
  imports Text_Lines Provenance
begin

text \<open>
  The parser of structured documents (\<open>crates/bdr/src/\<close> \<open>atom.rs\<close>, \<open>provenance.rs\<close>, \<open>parse.rs\<close>):
  front matter, level-two sections, and the atoms of information in them.

  A slice of text at a byte that is not the first of a character panics: a function that slices at a
  computed offset has an optional result, \<open>None\<close> being the panic.
\<close>

section \<open>Atoms and their source\<close>

datatype atom_kind =
  FrictionPoint | Decision | Constraint | Consequence | Alternative | OpenQuestion | Phase | ValidationPoint | TechnicalSpec

fun atom_kind_str :: "atom_kind \<Rightarrow> string" where
  "atom_kind_str FrictionPoint = ''friction_point''"
| "atom_kind_str Decision = ''decision''"
| "atom_kind_str Constraint = ''constraint''"
| "atom_kind_str Consequence = ''consequence''"
| "atom_kind_str Alternative = ''alternative''"
| "atom_kind_str OpenQuestion = ''open_question''"
| "atom_kind_str Phase = ''phase''"
| "atom_kind_str ValidationPoint = ''validation_point''"
| "atom_kind_str TechnicalSpec = ''technical_spec''"

fun suggested_issue_type :: "atom_kind \<Rightarrow> string" where
  "suggested_issue_type OpenQuestion = ''feature''"
| "suggested_issue_type Phase = ''epic''"
| "suggested_issue_type ValidationPoint = ''review''"
| "suggested_issue_type _ = ''task''"

fun suggested_priority :: "atom_kind \<Rightarrow> nat" where
  "suggested_priority FrictionPoint = 1"
| "suggested_priority Decision = 1"
| "suggested_priority Constraint = 1"
| "suggested_priority Consequence = 2"
| "suggested_priority Alternative = 3"
| "suggested_priority OpenQuestion = 2"
| "suggested_priority Phase = 1"
| "suggested_priority ValidationPoint = 2"
| "suggested_priority TechnicalSpec = 2"

record doc_atom =
  at_kind :: atom_kind
  at_title :: string
  at_body :: string
  at_source_line :: nat
  at_source_section :: string
  at_references :: "string list"

record doc_meta =
  dm_status :: "string option"
  dm_author :: "string option"
  dm_date :: "string option"
  dm_repo :: "string option"
  dm_depends_on :: "string list"
  dm_relates_to :: "string list"
  dm_provenance :: "provenance_ref option"

definition default_meta :: doc_meta where
  "default_meta = \<lparr> dm_status = None, dm_author = None, dm_date = None, dm_repo = None,
     dm_depends_on = [], dm_relates_to = [], dm_provenance = None \<rparr>"

record parsed_doc =
  pd_meta :: doc_meta
  pd_atoms :: "doc_atom list"

section \<open>Slices and searches\<close>

text \<open>Continuation bytes of UTF-8 are 128 to 191.\<close>

definition is_continuation :: "char \<Rightarrow> bool" where
  "is_continuation c \<longleftrightarrow> (let n = (of_char c :: nat) in 128 \<le> n \<and> n < 192)"

definition is_char_boundary :: "string \<Rightarrow> nat \<Rightarrow> bool" where
  "is_char_boundary s n \<longleftrightarrow> n = 0 \<or> n = length s \<or> (n < length s \<and> \<not> is_continuation (s ! n))"

definition slice_from :: "string \<Rightarrow> nat \<Rightarrow> string option" where
  "slice_from s n = (if is_char_boundary s n then Some (drop n s) else None)"

definition slice_to :: "string \<Rightarrow> nat \<Rightarrow> string option" where
  "slice_to s n = (if is_char_boundary s n then Some (take n s) else None)"

text \<open>The text before and after the first occurrence of a pattern (\<open>str::find\<close>).\<close>

fun split_str :: "string \<Rightarrow> string \<Rightarrow> (string \<times> string) option" where
  "split_str p [] = (if p = [] then Some ([], []) else None)"
| "split_str p (c # s) =
     (if starts_with (c # s) p then Some ([], drop (length p) (c # s))
      else map_option (\<lambda>(b, a). (c # b, a)) (split_str p s))"

lemma starts_with_length: "starts_with s p \<Longrightarrow> length p \<le> length s"
  unfolding starts_with_def by (metis length_take min.cobounded1)

text \<open>\<open>trim_start_matches("**")\<close> and \<open>trim_end_matches("**")\<close>: the pattern is taken off as often as it is there.\<close>

function strip_stars :: "string \<Rightarrow> string" where
  "strip_stars s = (if starts_with s ''**'' then strip_stars (drop 2 s) else s)"
  by auto
termination
  by (relation "measure length") (auto dest: starts_with_length)

declare strip_stars.simps [simp del]

definition strip_end_stars :: "string \<Rightarrow> string" where
  "strip_end_stars s = rev (strip_stars (rev s))"

definition trim_end_char :: "char \<Rightarrow> string \<Rightarrow> string" where
  "trim_end_char c s = rev (dropWhile (\<lambda>x. x = c) (rev s))"

text \<open>The second of each pair of a list: \<open>chunks(2)\<close> with the incomplete chunk left out.\<close>

fun seconds :: "'a list \<Rightarrow> 'a list" where
  "seconds (x # y # zs) = y # seconds zs"
| "seconds _ = []"

section \<open>Headings, lists, references\<close>

definition parse_heading :: "string \<Rightarrow> (nat \<times> string) option" where
  "parse_heading line =
     (let trimmed = trim line
      in if \<not> starts_with trimmed ''#'' then None
         else (let level = length (takeWhile (\<lambda>c. c = CHR ''#'') trimmed);
                   title = trim (drop level trimmed)
               in if level > 6 then None else if title = [] then None else Some (level, title)))"

definition first_sentence :: "string \<Rightarrow> string option" where
  "first_sentence t =
     (case lines_of t of
        [] \<Rightarrow> None
      | l # _ \<Rightarrow> (let trimmed = strip_end_stars (strip_stars (trim l)) in if trimmed = [] then None else Some trimmed))"

definition strip_list_marker :: "string \<Rightarrow> string option" where
  "strip_list_marker line =
     (let trimmed = trim line
      in case strip_prefix trimmed ''- '' of
           Some rest \<Rightarrow> Some rest
         | None \<Rightarrow>
             (case strip_prefix trimmed ''* '' of
                Some rest \<Rightarrow> Some rest
              | None \<Rightarrow>
                  if trimmed \<noteq> [] \<and> is_ascii_digit (hd trimmed)
                  then (case split_str ''. '' trimmed of
                          Some (_, rest) \<Rightarrow> Some rest
                        | None \<Rightarrow> map_option snd (split_str '') '' trimmed))
                  else None))"

lemma split_once_shorter: "split_once d s = Some (a, b) \<Longrightarrow> length b < length s"
  by (induction s arbitrary: a) (auto split: if_splits option.splits)

function link_targets :: "string \<Rightarrow> string list" where
  "link_targets [] = []"
| "link_targets (c # s) =
     (if c \<noteq> CHR ''['' then link_targets s
      else (case split_once (CHR '']'') s of
              Some (_, CHR ''('' # rest) \<Rightarrow>
                (case split_once (CHR '')'') rest of
                   Some (url, after) \<Rightarrow> (if url \<noteq> [] then [url] else []) @ link_targets after
                 | None \<Rightarrow> link_targets s)
            | _ \<Rightarrow> link_targets s))"
  by pat_completeness auto
termination
  by (relation "measure length") (auto dest!: split_once_shorter)

definition backtick_refs :: "string \<Rightarrow> string list" where
  "backtick_refs t =
     concat (map (\<lambda>cap. if cap \<noteq> [] \<and> CHR 0x0A \<notin> set cap
        then (let inner = trim cap in if inner \<noteq> [] \<and> length inner < 100 then [inner] else []) else [])
       (seconds (split_on (CHR ''`'') t)))"

definition extract_references :: "string \<Rightarrow> string list" where
  "extract_references t = remdups_adj (sort (link_targets t @ backtick_refs t))"

section \<open>Sections\<close>

record doc_section =
  ds_heading :: string
  ds_level :: nat
  ds_start_line :: nat
  ds_body :: "string list"

definition ends_section :: "string \<Rightarrow> bool" where
  "ends_section line \<longleftrightarrow> (case parse_heading line of Some (level, _) \<Rightarrow> level \<le> 2 | None \<Rightarrow> False)"

text \<open>\<open>i\<close> is the index of the first of the lines left.\<close>

function sections_from :: "nat \<Rightarrow> string list \<Rightarrow> doc_section list" where
  "sections_from i [] = []"
| "sections_from i (line # rest) =
     (case parse_heading line of
        Some (level, heading) \<Rightarrow>
          if level = 2
          then (let body = takeWhile (\<lambda>l. \<not> ends_section l) rest
                in \<lparr> ds_heading = heading, ds_level = level, ds_start_line = i + 1, ds_body = body \<rparr>
                   # sections_from (i + 1 + length body) (dropWhile (\<lambda>l. \<not> ends_section l) rest))
          else sections_from (i + 1) rest
      | None \<Rightarrow> sections_from (i + 1) rest)"
  by pat_completeness auto
termination
  by (relation "measure (length \<circ> snd)") (auto simp: le_imp_less_Suc length_dropWhile_le)

definition extract_sections :: "string list \<Rightarrow> doc_section list" where
  "extract_sections lines = sections_from 0 lines"

definition newline_text :: string where
  "newline_text = [CHR 0x0A]"

definition block_body :: "doc_section \<Rightarrow> string" where
  "block_body s = trim (join_with newline_text (ds_body s))"

definition extract_block_atoms :: "doc_section \<Rightarrow> atom_kind \<Rightarrow> doc_atom list" where
  "extract_block_atoms s kind =
     (let body = block_body s
      in if body = [] then []
         else [\<lparr> at_kind = kind,
                 at_title = (case first_sentence body of Some x \<Rightarrow> x | None \<Rightarrow> ds_heading s),
                 at_body = body, at_source_line = ds_start_line s, at_source_section = ds_heading s,
                 at_references = extract_references body \<rparr>])"

definition make_list_atom :: "atom_kind \<Rightarrow> string \<Rightarrow> nat \<Rightarrow> string \<Rightarrow> doc_atom" where
  "make_list_atom kind txt line heading =
     \<lparr> at_kind = kind, at_title = (case first_sentence txt of Some x \<Rightarrow> x | None \<Rightarrow> txt),
       at_body = txt, at_source_line = line, at_source_section = heading,
       at_references = extract_references txt \<rparr>"

text \<open>The items of a list with their offsets; \<open>cur\<close> is the item that is open.\<close>

fun list_items :: "nat \<Rightarrow> (nat \<times> string) option \<Rightarrow> string list \<Rightarrow> (nat \<times> string) list" where
  "list_items i cur [] = (case cur of None \<Rightarrow> [] | Some it \<Rightarrow> [it])"
| "list_items i cur (line # ls) =
     (let trimmed = trim line
      in case strip_list_marker trimmed of
           Some txt \<Rightarrow> (case cur of None \<Rightarrow> [] | Some it \<Rightarrow> [it]) @ list_items (i + 1) (Some (i, txt)) ls
         | None \<Rightarrow>
             if trimmed \<noteq> [] then list_items (i + 1) (map_option (\<lambda>(k, x). (k, x @ '' '' @ trimmed)) cur) ls
             else list_items (i + 1) cur ls)"

definition extract_list_atoms :: "doc_section \<Rightarrow> atom_kind \<Rightarrow> doc_atom list" where
  "extract_list_atoms s kind =
     map (\<lambda>(k, txt). make_list_atom kind txt (ds_start_line s + k) (ds_heading s)) (list_items 0 None (ds_body s))"

text \<open>The subsections with their lines: a title, the text below it, the line of the title.\<close>

definition flush_subsection :: "string option \<Rightarrow> string \<Rightarrow> nat \<Rightarrow> (string \<times> string \<times> nat) list" where
  "flush_subsection cur body line =
     (case cur of
        None \<Rightarrow> []
      | Some title \<Rightarrow> if trim body = [] then [] else [(title, trim body, line)])"

fun subsections :: "nat \<Rightarrow> nat \<Rightarrow> string option \<Rightarrow> string \<Rightarrow> nat \<Rightarrow> string list \<Rightarrow> (string \<times> string \<times> nat) list" where
  "subsections start i cur body line [] = flush_subsection cur body line"
| "subsections start i cur body line (l # ls) =
     (case parse_heading l of
        Some (_, heading) \<Rightarrow>
          flush_subsection cur body line @ subsections start (i + 1) (Some heading) [] (start + i) ls
      | None \<Rightarrow> subsections start (i + 1) cur (body @ l @ newline_text) line ls)"

definition extract_subsection_atoms :: "doc_section \<Rightarrow> atom_kind \<Rightarrow> doc_atom list" where
  "extract_subsection_atoms s kind =
     (let atoms = map (\<lambda>(title, body, line).
            \<lparr> at_kind = kind, at_title = title, at_body = body, at_source_line = line,
              at_source_section = ds_heading s, at_references = extract_references body \<rparr>)
          (subsections (ds_start_line s) 0 None [] (ds_start_line s) (ds_body s))
      in if atoms = [] then extract_block_atoms s kind else atoms)"

section \<open>Classification\<close>

datatype adr_section_kind =
  SecContext | SecDecision | SecConsequences | SecAlternatives | SecOpenQuestions | SecImplementation
  | SecValidation | SecReferences | SecStatus | SecOther

definition has_any :: "string \<Rightarrow> string list \<Rightarrow> bool" where
  "has_any s ws \<longleftrightarrow> list_ex (contains_str s) ws"

definition classify_adr_section :: "string \<Rightarrow> adr_section_kind" where
  "classify_adr_section heading =
     (let lower = to_lowercase heading
      in if has_any lower [''context'', ''problem'', ''motivation''] then SecContext
         else if contains_str lower ''decision'' \<and> \<not> contains_str lower ''driver'' then SecDecision
         else if has_any lower [''consequence'', ''impact''] then SecConsequences
         else if has_any lower [''alternative'', ''option''] then SecAlternatives
         else if has_any lower [''open question'', ''unknown''] then SecOpenQuestions
         else if has_any lower [''implementation'', ''phase'', ''plan''] then SecImplementation
         else if has_any lower [''validation'', ''success'', ''metric''] then SecValidation
         else if has_any lower [''reference'', ''link''] then SecReferences
         else if has_any lower [''status'', ''date'', ''author''] then SecStatus
         else SecOther)"

fun extract_atoms_from_adr_section :: "doc_section \<Rightarrow> adr_section_kind \<Rightarrow> doc_atom list" where
  "extract_atoms_from_adr_section s SecContext = extract_block_atoms s FrictionPoint"
| "extract_atoms_from_adr_section s SecDecision = extract_block_atoms s Decision"
| "extract_atoms_from_adr_section s SecOpenQuestions = extract_list_atoms s OpenQuestion"
| "extract_atoms_from_adr_section s SecImplementation = extract_subsection_atoms s Phase"
| "extract_atoms_from_adr_section s SecValidation = extract_list_atoms s ValidationPoint"
| "extract_atoms_from_adr_section s _ = []"

definition classify_generic_section :: "string \<Rightarrow> atom_kind" where
  "classify_generic_section heading =
     (let lower = to_lowercase heading
      in if has_any lower [''implement'', ''phase'', ''plan'', ''step'', ''milestone'', ''sub-project'', ''workstream'']
         then Phase
         else if has_any lower [''goal'', ''objective'', ''problem'', ''friction'', ''motivation'', ''why'']
         then FrictionPoint
         else if has_any lower [''validation'', ''success'', ''metric'', ''acceptance'', ''test criteria'', ''definition of done'']
         then ValidationPoint
         else if has_any lower [''question'', ''unknown'', ''open item'', ''tbd'', ''to be determined''] then OpenQuestion
         else if has_any lower [''decision'', ''chosen'', ''selected'', ''approach''] then Decision
         else if has_any lower [''constraint'', ''requirement'', ''must'', ''non-goal''] then Constraint
         else TechnicalSpec)"

definition extract_atoms_from_generic_section :: "doc_section \<Rightarrow> atom_kind \<Rightarrow> doc_atom list" where
  "extract_atoms_from_generic_section s kind =
     (if list_ex (\<lambda>l. case parse_heading l of Some (level, _) \<Rightarrow> level = 3 | None \<Rightarrow> False) (ds_body s)
      then extract_subsection_atoms s kind
      else if block_body s = [] then []
      else if list_ex (\<lambda>l. strip_list_marker (trim l) \<noteq> None) (ds_body s) then extract_list_atoms s kind
      else extract_block_atoms s kind)"

section \<open>Front matter\<close>

definition parse_comma_or_ref_list :: "string \<Rightarrow> string list" where
  "parse_comma_or_ref_list v =
     List.map_filter (\<lambda>part.
       let trimmed = trim part
       in if trimmed = [] then None
          else (let word = (case split_whitespace trimmed of [] \<Rightarrow> trimmed | w # _ \<Rightarrow> w);
                    paren = (\<lambda>c. c = CHR ''('' \<or> c = CHR '')'')
                in Some (rev (dropWhile paren (rev (dropWhile paren word))))))
     (split_on (CHR '','') v)"

definition apply_meta_field :: "doc_meta \<Rightarrow> string \<Rightarrow> string \<Rightarrow> doc_meta" where
  "apply_meta_field meta key v0 =
     (let v = trim (trim_end_char (CHR 0x5C) v0)
      in if key = ''status'' then meta\<lparr> dm_status := Some v \<rparr>
         else if key = ''author'' then meta\<lparr> dm_author := Some v \<rparr>
         else if key = ''date'' then meta\<lparr> dm_date := Some v \<rparr>
         else if key = ''repo''
         then meta\<lparr> dm_repo := Some (case split_once (CHR ''('') v of Some (r, _) \<Rightarrow> trim r | None \<Rightarrow> v) \<rparr>
         else if starts_with key ''depends'' then meta\<lparr> dm_depends_on := parse_comma_or_ref_list v \<rparr>
         else if starts_with key ''relates'' then meta\<lparr> dm_relates_to := parse_comma_or_ref_list v \<rparr>
         else meta)"

definition yaml_line :: "doc_meta \<Rightarrow> string \<Rightarrow> doc_meta" where
  "yaml_line meta line =
     (case split_once (CHR '':'') (trim line) of
        None \<Rightarrow> meta
      | Some (k, v) \<Rightarrow> if trim v = [] then meta else apply_meta_field meta (to_lowercase (trim k)) (trim v))"

definition parse_frontmatter_lines :: "string \<Rightarrow> doc_meta" where
  "parse_frontmatter_lines yaml = foldl yaml_line default_meta (lines_of yaml)"

definition inline_line :: "doc_meta \<Rightarrow> string \<Rightarrow> doc_meta" where
  "inline_line meta line =
     (case strip_prefix (trim line) ''**'' of
        None \<Rightarrow> meta
      | Some rest \<Rightarrow>
          (case split_str '':**'' rest of
             None \<Rightarrow> meta
           | Some (key_part, v) \<Rightarrow>
               if trim v = [] then meta
               else apply_meta_field meta (to_lowercase (trim (trim_end_char (CHR ''*'') key_part))) (trim v)))"

definition parse_inline_frontmatter :: "string \<Rightarrow> doc_meta" where
  "parse_inline_frontmatter txt = foldl inline_line default_meta (lines_of txt)"

text \<open>The index of the first \<open>##\<close> heading and the \<open>**Key:** Value\<close> lines before it.\<close>

fun scan_header :: "nat \<Rightarrow> string list \<Rightarrow> nat \<times> string list" where
  "scan_header i [] = (i, [])"
| "scan_header i (line # ls) =
     (if starts_with (trim line) ''## '' then (i, [])
      else (let (n, found) = scan_header (i + 1) ls
            in (n, if starts_with (trim line) ''**'' \<and> contains_str (trim line) '':**'' then line # found else found)))"

definition extract_frontmatter :: "string \<Rightarrow> (doc_meta \<times> string) option" where
  "extract_frontmatter markdown =
     (case Option.bind (strip_prefix (trim_start markdown) ''---'') (split_str (newline_text @ ''---'')) of
        Some (yaml_block, remaining) \<Rightarrow> Some (parse_frontmatter_lines yaml_block, remaining)
      | None \<Rightarrow>
          (let lines = lines_of markdown; (start, found) = scan_header 0 lines;
               meta = (if found \<noteq> [] then parse_inline_frontmatter (join_with newline_text found) else default_meta);
               offset = sum_list (map (\<lambda>l. length l + 1) (take start lines))
           in if offset < length markdown then map_option (Pair meta) (slice_from markdown offset)
              else Some (meta, [])))"

section \<open>Documents\<close>

definition is_adr_shaped :: "string \<Rightarrow> bool" where
  "is_adr_shaped markdown \<longleftrightarrow>
     (let lower = to_lowercase markdown
      in length (filter (contains_str lower)
           [''## status'', ''## context'', ''## decision'', ''## consequences'', ''## alternatives'',
            ''## problem statement'', ''## proposed solution'']) \<ge> 2)"

definition parse_adr_full :: "string \<Rightarrow> parsed_doc option" where
  "parse_adr_full markdown =
     map_option (\<lambda>(meta, body).
       \<lparr> pd_meta = meta,
         pd_atoms = concat (map (\<lambda>s. extract_atoms_from_adr_section s (classify_adr_section (ds_heading s)))
                      (extract_sections (lines_of body))) \<rparr>)
     (extract_frontmatter markdown)"

definition parse_generic_doc :: "string \<Rightarrow> parsed_doc option" where
  "parse_generic_doc markdown =
     map_option (\<lambda>(meta, body).
       \<lparr> pd_meta = meta,
         pd_atoms = concat (map (\<lambda>s. extract_atoms_from_generic_section s (classify_generic_section (ds_heading s)))
                      (extract_sections (lines_of body))) \<rparr>)
     (extract_frontmatter markdown)"

text \<open>\<open>Path::file_stem\<close> of the standard library, on paths with slashes.\<close>

definition file_name :: "string \<Rightarrow> string option" where
  "file_name path =
     (case rev (filter (\<lambda>c. c \<noteq> [] \<and> c \<noteq> ''.'') (split_on (CHR ''/'') path)) of
        [] \<Rightarrow> None
      | c # _ \<Rightarrow> if c = ''..'' then None else Some c)"

definition file_stem :: "string \<Rightarrow> string option" where
  "file_stem path =
     map_option (\<lambda>name. case rsplit_once (CHR ''.'') name of
         Some (stem, _) \<Rightarrow> if stem = [] then name else stem
       | None \<Rightarrow> name) (file_name path)"

definition adr_id_from_path :: "string \<Rightarrow> string" where
  "adr_id_from_path path = (case file_stem path of Some s \<Rightarrow> s | None \<Rightarrow> path)"

definition parse_doc_full :: "string \<Rightarrow> string \<Rightarrow> parsed_doc option" where
  "parse_doc_full markdown doc_path =
     map_option (\<lambda>parsed.
       if dm_provenance (pd_meta parsed) = None
       then parsed\<lparr> pd_meta := (pd_meta parsed)\<lparr> dm_provenance :=
              Some (if is_adr_shaped markdown then FromAdr (adr_id_from_path doc_path) else FromDoc doc_path) \<rparr> \<rparr>
       else parsed)
     (if is_adr_shaped markdown then parse_adr_full markdown else parse_generic_doc markdown)"

section \<open>Sections and the lines they come from\<close>

definition is_section_heading :: "string \<Rightarrow> bool" where
  "is_section_heading line \<longleftrightarrow> (case parse_heading line of Some (level, _) \<Rightarrow> level = 2 | None \<Rightarrow> False)"

definition section_at :: "string list \<Rightarrow> nat \<Rightarrow> doc_section" where
  "section_at lines i =
     \<lparr> ds_heading = snd (the (parse_heading (lines ! i))), ds_level = 2, ds_start_line = i + 1,
       ds_body = takeWhile (\<lambda>l. \<not> ends_section l) (drop (i + 1) lines) \<rparr>"

lemma section_heading_ends: "is_section_heading l \<Longrightarrow> ends_section l"
  by (auto simp: is_section_heading_def ends_section_def split: option.splits)

text \<open>A scan that goes on with the very next line finds the same sections.\<close>

fun every_section :: "nat \<Rightarrow> string list \<Rightarrow> doc_section list" where
  "every_section i [] = []"
| "every_section i (line # rest) =
     (if is_section_heading line then [(section_at (line # rest) 0)\<lparr> ds_start_line := i + 1 \<rparr>] else [])
     @ every_section (i + 1) rest"

lemma every_section_skip:
  "\<forall>l \<in> set b. \<not> ends_section l \<Longrightarrow> every_section i (b @ r) = every_section (i + length b) r"
  by (induction b arbitrary: i) (auto dest: section_heading_ends)

lemma sections_from_every: "sections_from i ls = every_section i ls"
proof (induction i ls rule: sections_from.induct)
  case (2 i line rest)
  let ?b = "takeWhile (\<lambda>l. \<not> ends_section l) rest" and ?r = "dropWhile (\<lambda>l. \<not> ends_section l) rest"
  show ?case
  proof (cases "is_section_heading line")
    case True
    then obtain h where h: "parse_heading line = Some (2, h)"
      by (auto simp: is_section_heading_def split: option.splits)
    have "every_section (i + 1) (?b @ ?r) = every_section (i + 1 + length ?b) ?r"
      by (rule every_section_skip) (auto dest: set_takeWhileD)
    then have "every_section (i + 1) rest = every_section (i + 1 + length ?b) ?r" by simp
    then show ?thesis using True h "2.IH" by (simp add: section_at_def Let_def)
  next
    case False
    then show ?thesis using "2.IH" by (auto simp: is_section_heading_def split: option.splits prod.splits)
  qed
qed simp

lemma filter_upt_Cons:
  "filter P [0..<length (x # xs)] = (if P 0 then [0] else []) @ map Suc (filter (\<lambda>k. P (Suc k)) [0..<length xs])"
  by (simp only: length_Cons upt_conv_Cons [OF zero_less_Suc] filter.simps map_Suc_upt [symmetric] filter_map) (simp add: o_def)

lemma every_section_at:
  "every_section i ls =
     map (\<lambda>k. (section_at ls k)\<lparr> ds_start_line := i + k + 1 \<rparr>) (filter (\<lambda>k. is_section_heading (ls ! k)) [0..<length ls])"
proof (induction i ls rule: every_section.induct)
  case (2 i line rest)
  have "section_at (line # rest) (Suc k)\<lparr>ds_start_line := m\<rparr> = section_at rest k\<lparr>ds_start_line := m\<rparr>" for k m
    by (simp add: section_at_def)
  then show ?case unfolding filter_upt_Cons every_section.simps 2 by (simp add: o_def)
qed simp

lemma extract_sections_at:
  "extract_sections lines = map (section_at lines) (filter (\<lambda>k. is_section_heading (lines ! k)) [0..<length lines])"
  unfolding extract_sections_def sections_from_every every_section_at
  by (simp add: section_at_def)

section \<open>Items\<close>

definition is_item :: "string \<Rightarrow> bool" where
  "is_item line \<longleftrightarrow> strip_list_marker (trim line) \<noteq> None"

lemma list_items_lines:
  "map fst (list_items i cur ls) =
     (case cur of None \<Rightarrow> [] | Some it \<Rightarrow> [fst it]) @ map ((+) i) (filter (\<lambda>k. is_item (ls ! k)) [0..<length ls])"
proof (induction i cur ls rule: list_items.induct)
  case (2 i cur line ls)
  have shift: "map ((+) i) (map Suc ks) = map ((+) (i + 1)) ks" for ks by simp
  show ?case
  proof (cases "strip_list_marker (trim line)")
    case None
    then have "\<not> is_item line" by (simp add: is_item_def)
    then show ?thesis using "2.IH" None unfolding filter_upt_Cons
      by (auto simp: Let_def shift split: option.splits)
  next
    case (Some y)
    then have "is_item line" by (simp add: is_item_def)
    then show ?thesis using "2.IH" Some unfolding filter_upt_Cons
      by (auto simp: Let_def shift split: option.splits)
  qed
qed (auto split: option.splits)

text \<open>Every item begins with what its own line has after the marker.\<close>

definition item_from :: "nat \<Rightarrow> string list \<Rightarrow> nat \<Rightarrow> string \<Rightarrow> bool" where
  "item_from i ls k x \<longleftrightarrow> i \<le> k \<and> k < i + length ls
     \<and> (\<exists>y. strip_list_marker (trim (ls ! (k - i))) = Some y \<and> starts_with x y)"

lemma item_from_later: "item_from (i + 1) ls k x \<Longrightarrow> item_from i (l # ls) k x"
  by (auto simp: item_from_def nth_Cons' Suc_le_eq)

lemma list_items_text:
  "(k, x) \<in> set (list_items i cur ls) \<Longrightarrow>
     (\<exists>y. cur = Some (k, y) \<and> starts_with x y) \<or> item_from i ls k x"
proof (induction i cur ls rule: list_items.induct)
  case (2 i cur line ls)
  show ?case
  proof (cases "strip_list_marker (trim line)")
    case (Some y)
    have first: "k = i \<Longrightarrow> starts_with x y \<Longrightarrow> item_from i (line # ls) k x"
      using Some by (auto simp: item_from_def)
    have "(k, x) \<in> set (case cur of None \<Rightarrow> [] | Some it \<Rightarrow> [it]) \<or> (k, x) \<in> set (list_items (i + 1) (Some (i, y)) ls)"
      using "2.prems" Some by (simp add: Let_def)
    then show ?thesis using "2.IH"(3) [OF refl Some] first item_from_later
      by (auto simp: starts_with_refl split: option.splits)
  next
    case None
    show ?thesis
    proof (cases "trim line = []")
      case True
      then show ?thesis using "2.IH"(2) [OF refl None] "2.prems" None item_from_later by (auto simp: Let_def)
    next
      case False
      then have "(k, x) \<in> set (list_items (i + 1) (map_option (\<lambda>(k, x). (k, x @ '' '' @ trim line)) cur) ls)"
        using "2.prems" None by (simp add: Let_def)
      then show ?thesis using "2.IH"(1) [OF refl None False] item_from_later by (auto simp: starts_with_iff)
    qed
  qed
qed (auto split: option.splits simp: starts_with_refl)

section \<open>Text without carriage returns\<close>

text \<open>What is used of UTF-8: a continuation byte follows a byte of its own character.\<close>

definition rust_str :: "string \<Rightarrow> bool" where
  "rust_str s \<longleftrightarrow> (\<forall>i. Suc i < length s \<longrightarrow> is_continuation (s ! Suc i) \<longrightarrow> 128 \<le> (of_char (s ! i) :: nat))
     \<and> (s \<noteq> [] \<longrightarrow> \<not> is_continuation (hd s))"

lemma join_take:
  "n < length xs \<Longrightarrow> join_with [c] xs = concat (map (\<lambda>x. x @ [c]) (take n xs)) @ join_with [c] (drop n xs)"
proof (induction n arbitrary: xs)
  case (Suc n)
  then obtain x y ys where "xs = x # y # ys" by (cases xs rule: remdups_adj.cases) auto
  then show ?case using Suc.IH [of "y # ys"] Suc.prems by simp
qed simp

lemma lines_of_no_cr:
  assumes "CHR 0x0D \<notin> set s"
  shows "lines_of s = (let ls = split_on (CHR 0x0A) s in if last ls = [] then butlast ls else ls)"
proof -
  have sub: "set l \<subseteq> set s" if "l \<in> set (split_on c s)" for l c
    using that by (induction s arbitrary: l) (auto split: if_splits list.splits, fastforce+)
  have "map strip_cr (butlast (split_on (CHR 0x0A) s)) = butlast (split_on (CHR 0x0A) s)"
  proof (rule map_idI)
    fix l assume "l \<in> set (butlast (split_on (CHR 0x0A) s))"
    then have "CHR 0x0D \<notin> set l" using sub assms by (meson in_set_butlastD subsetD)
    then show "strip_cr l = l" by (metis last_in_set strip_cr_def)
  qed
  then show ?thesis by (simp add: lines_of_def Let_def)
qed

lemma line_offset_boundary:
  assumes s: "rust_str s" "CHR 0x0D \<notin> set s" and n: "n \<le> length (lines_of s)"
    and off: "off = sum_list (map (\<lambda>l. length l + 1) (take n (lines_of s)))" "off < length s"
  shows "is_char_boundary s off"
proof (cases "off = 0")
  case False
  let ?sp = "split_on (CHR 0x0A) s"
  have len: "length (concat (map (\<lambda>x. x @ [c]) xs)) = sum_list (map (\<lambda>l. length l + 1) xs)" for xs :: "string list" and c
    by (induction xs) auto
  have tk: "take n (lines_of s) = take n ?sp"
    using n by (auto simp: lines_of_no_cr [OF s(2)] Let_def butlast_conv_take split: if_splits)
  have "n < length ?sp"
  proof (rule ccontr)
    assume "\<not> n < length ?sp"
    then have "n = length ?sp" using n by (auto simp: lines_of_no_cr [OF s(2)] Let_def split: if_splits)
    then have "off = length (concat (map (\<lambda>x. x @ [CHR 0x0A]) ?sp))" using off(1) tk len by simp
    moreover have "length (join_with [CHR 0x0A] ls) \<le> length (concat (map (\<lambda>x. x @ [CHR 0x0A]) ls))" for ls
      by (induction "[CHR 0x0A]" ls rule: join_with.induct) auto
    ultimately show False using off(2) by (metis join_split leD)
  qed
  from join_take [OF this, of "CHR 0x0A"]
  have s': "s = concat (map (\<lambda>x. x @ [CHR 0x0A]) (take n ?sp)) @ join_with [CHR 0x0A] (drop n ?sp)"
    by (simp add: join_split)
  have lo: "off = length (concat (map (\<lambda>x. x @ [CHR 0x0A]) (take n ?sp)))" using off(1) tk len by simp
  moreover have lst: "xs \<noteq> [] \<Longrightarrow> last (concat (map (\<lambda>x. x @ [c]) xs)) = c" for xs :: "string list" and c
    by (induction xs) auto
  moreover have "take n ?sp \<noteq> []" using False off(1) tk by auto
  ultimately have pos: "concat (map (\<lambda>x. x @ [CHR 0x0A]) (take n ?sp)) ! (off - 1) = CHR 0x0A"
    using False last_conv_nth [of "concat (map (\<lambda>x. x @ [CHR 0x0A]) (take n ?sp))"] by simp
  have nl: "s ! (off - 1) = CHR 0x0A"
    using False lo pos by (subst s') (simp only: nth_append diff_less if_True zero_less_one neq0_conv)
  obtain j where j: "off = Suc j" using False by (cases off) auto
  have "\<not> 128 \<le> (of_char (CHR 0x0A) :: nat)" by simp
  then have "\<not> is_continuation (s ! off)"
    using s(1) off(2) nl unfolding rust_str_def j by auto
  then show ?thesis using off(2) by (simp add: is_char_boundary_def)
qed (simp add: is_char_boundary_def)

lemma scan_header_bound: "scan_header i ls = (n, f) \<Longrightarrow> i \<le> n \<and> n \<le> i + length ls"
  by (induction i ls arbitrary: n f rule: scan_header.induct) (fastforce split: if_splits prod.splits simp: Let_def)+

lemma frontmatter_returns:
  assumes "rust_str s" "CHR 0x0D \<notin> set s"
  shows "extract_frontmatter s \<noteq> None"
proof -
  obtain start found where sc: "scan_header 0 (lines_of s) = (start, found)" by force
  have "start \<le> length (lines_of s)" using scan_header_bound [OF sc] by simp
  from line_offset_boundary [OF assms this refl] show ?thesis
    by (auto simp: extract_frontmatter_def sc Let_def slice_from_def split: option.splits)
qed

definition crlf_document :: string where
  "crlf_document = [CHR 0x0D, CHR 0x0A, CHR 0x0D, CHR 0x0A, CHR 0xC3, CHR 0xA9, CHR 0x0D, CHR 0x0A] @ ''## Context''"

lemma crlf_frontmatter: "extract_frontmatter crlf_document = None"
  by code_simp

lemma crlf_rust_str: "rust_str crlf_document"
proof -
  have "list_all (\<lambda>i. is_continuation (crlf_document ! Suc i) \<longrightarrow> 128 \<le> (of_char (crlf_document ! i) :: nat)) [0..<length crlf_document - 1]"
    by code_simp
  moreover have "\<not> is_continuation (hd crlf_document)" by code_simp
  ultimately show ?thesis by (auto simp: rust_str_def list_all_iff)
qed

section \<open>Properties\<close>

lemma map_plus_upt: "map ((+) m) [0..<n] = [m..<m + n]"
  by (induction n) auto

text \<open>
  The sections of a document are exactly its level-two headings, each with the lines up to the next
  heading of level one or two; the line of a section is counted from one. The atoms of a list are its
  items in order, each beginning with the text after the marker of its line; but their lines are
  counted from zero, so that an item is reported one line before the line it stands on.
\<close>

theorem section_and_item_lines:
  "extract_sections lines = map (section_at lines) (filter (\<lambda>k. is_section_heading (lines ! k)) [0..<length lines])
   \<and> map at_source_line (extract_list_atoms (section_at lines i) kind)
       = filter (\<lambda>k. is_item (lines ! k)) [i + 1..<i + 1 + length (ds_body (section_at lines i))]
   \<and> (a \<in> set (extract_list_atoms (section_at lines i) kind) \<longrightarrow>
       (\<exists>y. strip_list_marker (trim (lines ! at_source_line a)) = Some y \<and> starts_with (at_body a) y))"
proof -
  let ?s = "section_at lines i"
  let ?b = "ds_body ?s"
  have body: "k < length ?b \<Longrightarrow> ?b ! k = lines ! (i + 1 + k)" for k
    by (auto simp: section_at_def takeWhile_nth dest: less_le_trans [OF _ length_takeWhile_le])
  have "map at_source_line (extract_list_atoms ?s kind) = map ((+) (i + 1)) (map fst (list_items 0 None ?b))"
    by (simp add: extract_list_atoms_def make_list_atom_def section_at_def o_def case_prod_unfold)
  also have "\<dots> = map ((+) (i + 1)) (filter (\<lambda>k. is_item (lines ! (i + 1 + k))) [0..<length ?b])"
    unfolding list_items_lines
    by (simp, intro map_cong filter_cong) (simp_all add: body)
  also have "\<dots> = filter (\<lambda>k. is_item (lines ! k)) (map ((+) (i + 1)) [0..<length ?b])"
    by (simp add: filter_map o_def)
  also have "map ((+) (i + 1)) [0..<length ?b] = [i + 1..<i + 1 + length ?b]" by (rule map_plus_upt)
  finally have own: "map at_source_line (extract_list_atoms ?s kind)
      = filter (\<lambda>k. is_item (lines ! k)) [i + 1..<i + 1 + length ?b]"
    by simp
  have "\<exists>y. strip_list_marker (trim (lines ! at_source_line a)) = Some y \<and> starts_with (at_body a) y"
    if a: "a \<in> set (extract_list_atoms ?s kind)"
  proof -
    obtain k x where k: "(k, x) \<in> set (list_items 0 None ?b)" "at_source_line a = i + 1 + k" "at_body a = x"
      using a by (auto simp: extract_list_atoms_def make_list_atom_def section_at_def)
    from list_items_text [OF k(1)] show ?thesis using body k(2,3) by (auto simp: item_from_def)
  qed
  then show ?thesis using own extract_sections_at by blast
qed

definition question_lines :: "string list" where
  "question_lines = [''## Open questions'', ''- why?'']"

theorem section_and_item_lines_witness:
  "\<exists>y. strip_list_marker (trim (question_lines !
      at_source_line (hd (extract_list_atoms (section_at question_lines 0) OpenQuestion)))) = Some y"
proof -
  have "extract_list_atoms (section_at question_lines 0) OpenQuestion \<noteq> []" by code_simp
  then show ?thesis using section_and_item_lines [THEN conjunct2, THEN conjunct2, THEN mp, OF hd_in_set] by blast
qed

text \<open>
  Every document without carriage returns is parsed: the offset at which the header is cut off is the
  start of a line. With carriage returns the offset falls short of it and may be inside a character,
  which is a panic.
\<close>

theorem documents_without_carriage_returns_parse:
  "(rust_str markdown \<longrightarrow> CHR 0x0D \<notin> set markdown \<longrightarrow> parse_doc_full markdown path \<noteq> None)
   \<and> rust_str crlf_document \<and> parse_doc_full crlf_document path = None"
  using frontmatter_returns crlf_rust_str crlf_frontmatter
  by (auto simp: parse_doc_full_def parse_adr_full_def parse_generic_doc_def split: if_splits)

theorem documents_without_carriage_returns_parse_witness:
  "parse_doc_full ''## Context'' ''docs/a.md'' \<noteq> None"
proof -
  have "rust_str ''## Context''" by (simp add: rust_str_def is_continuation_def nth_Cons' Let_def)
  then show ?thesis using documents_without_carriage_returns_parse by simp
qed

end
