(* ===== verification/Decade.thy ===== *)
theory Decade
  imports Doc_Parse Complex_Main
begin

text \<open>
  From atoms to beads, threads and decades (\<open>crates/bdr/src/\<close> \<open>channels.rs\<close>, \<open>decompose.rs\<close>,
  \<open>thread.rs\<close>, \<open>accrete.rs\<close>): the specification of a bead for every atom, its content hash, the threads of
  a decade, and the status of a decade as its beads complete.

  \<open>None\<close> is the panic of a slice inside a character. The hash function is a parameter.
\<close>

section \<open>Channels\<close>

datatype bdr_channel = DecadeChannel | ThreadChannel | BeadChannel

fun channel_str :: "bdr_channel \<Rightarrow> string" where
  "channel_str DecadeChannel = ''decade''"
| "channel_str ThreadChannel = ''thread''"
| "channel_str BeadChannel = ''bead''"

definition channel_parse :: "string \<Rightarrow> string + bdr_channel" where
  "channel_parse s =
     (if s = ''decade'' then Inr DecadeChannel
      else if s = ''thread'' then Inr ThreadChannel
      else if s = ''bead'' then Inr BeadChannel
      else Inl ''unknown BDR channel'')"

fun visibility_level :: "bdr_channel \<Rightarrow> nat" where
  "visibility_level DecadeChannel = 0"
| "visibility_level ThreadChannel = 1"
| "visibility_level BeadChannel = 2"

fun channel_for_atom :: "atom_kind \<Rightarrow> bdr_channel" where
  "channel_for_atom FrictionPoint = DecadeChannel"
| "channel_for_atom Constraint = DecadeChannel"
| "channel_for_atom Alternative = DecadeChannel"
| "channel_for_atom Decision = ThreadChannel"
| "channel_for_atom Consequence = ThreadChannel"
| "channel_for_atom OpenQuestion = ThreadChannel"
| "channel_for_atom Phase = ThreadChannel"
| "channel_for_atom ValidationPoint = BeadChannel"
| "channel_for_atom TechnicalSpec = BeadChannel"

section \<open>Bead specifications\<close>

record success_criterion =
  sc_description :: string
  sc_command :: "string option"
  sc_threshold :: "string option"

record inference_trace =
  it_model :: string
  it_rationale :: "string option"

record bead_spec =
  sp_title :: string
  sp_description :: string
  sp_issue_type :: string
  sp_priority :: nat
  sp_channel :: bdr_channel
  sp_thread_group :: string
  sp_source_atom :: atom_kind
  sp_derived_from :: "provenance_ref list"
  sp_source_line :: nat
  sp_references :: "string list"
  sp_target_repo :: "string option"
  sp_depends_on :: "string list"
  sp_success_criteria :: "success_criterion list"
  sp_inferred_from :: "inference_trace option"
  sp_doc_coverage_min :: "rat option"

definition spec_close_condition_text :: "bead_spec \<Rightarrow> string" where
  "spec_close_condition_text s =
     join_with ''; '' (filter (\<lambda>c. trim c \<noteq> []) (map (\<lambda>sc.
       let base = (case sc_command sc of Some c \<Rightarrow> c | None \<Rightarrow> sc_description sc)
       in case sc_threshold sc of Some t \<Rightarrow> base @ '' ('' @ t @ '')'' | None \<Rightarrow> base) (sp_success_criteria s)))"

text \<open>The bytes given to the hash function. The priority is a byte.\<close>

definition nul :: string where
  "nul = [CHR 0x00]"

definition criterion_bytes :: "success_criterion \<Rightarrow> string" where
  "criterion_bytes sc =
     sc_description sc @ (case sc_command sc of Some c \<Rightarrow> c | None \<Rightarrow> [])
     @ (case sc_threshold sc of Some t \<Rightarrow> t | None \<Rightarrow> []) @ nul"

definition spec_content :: "bead_spec \<Rightarrow> string" where
  "spec_content s =
     sp_title s @ nul @ sp_description s @ nul @ sp_issue_type s @ nul @ [char_of (sp_priority s)]
     @ concat (map criterion_bytes (sp_success_criteria s))"

definition content_hash :: "(string \<Rightarrow> 'h) \<Rightarrow> bead_spec \<Rightarrow> 'h" where
  "content_hash sha256 s = sha256 (spec_content s)"

definition truncate_title :: "string \<Rightarrow> nat \<Rightarrow> string option" where
  "truncate_title s max_len =
     (if length s \<le> max_len then Some s
      else map_option (\<lambda>t. t @ ''...'') (slice_to s (max_len - 3)))"

definition infer_target_repo :: "doc_atom \<Rightarrow> doc_meta \<Rightarrow> string option" where
  "infer_target_repo a meta =
     (case List.map_filter (\<lambda>r.
         case split_once (CHR '':'') r of
           None \<Rightarrow> None
         | Some (before, _) \<Rightarrow>
             (let repo = trim before
              in if repo \<noteq> [] \<and> \<not> contains_str repo ''//'' \<and> CHR '' '' \<notin> set repo \<and> length repo < 30
                 then Some repo else None)) (at_references a) of
        repo # _ \<Rightarrow> Some repo
      | [] \<Rightarrow> dm_repo meta)"

definition cmd_prefixes :: "string list" where
  "cmd_prefixes = [''cargo'', ''task'', ''go'', ''npm'', ''make'', ''mix'', ''elixir'', ''rustc'', ''gcc'', ''python'', ''pytest'',
     ''rg'', ''grep'', ''curl'', ''jj'', ''git'']"

definition looks_like_command :: "string \<Rightarrow> bool" where
  "looks_like_command s \<longleftrightarrow> list_ex (\<lambda>p. starts_with s p \<or> starts_with s (''./'' @ p)) cmd_prefixes"

definition extract_command :: "string \<Rightarrow> string option" where
  "extract_command txt = List.find looks_like_command (map trim (seconds (split_on (CHR ''`'') txt)))"

text \<open>The last two comparisons but one are the signs at most and at least in UTF-8.\<close>

definition comparisons :: "string list" where
  "comparisons = [''<'', ''>'', ''<='', ''>='', [CHR 0xE2, CHR 0x89, CHR 0xA4], [CHR 0xE2, CHR 0x89, CHR 0xA5], ''~'']"

fun threshold_in :: "string option \<Rightarrow> string list \<Rightarrow> string option" where
  "threshold_in previous [] = None"
| "threshold_in previous (word # ws) =
     (if ends_with word ''%'' \<or> contains_str word ''ms'' \<or> contains_str word ''MB'' \<or> contains_str word ''KB''
      then (case previous of
              Some p \<Rightarrow> if List.member comparisons p then Some (p @ '' '' @ word) else Some word
            | None \<Rightarrow> Some word)
      else threshold_in (Some word) ws)"

definition extract_threshold :: "string \<Rightarrow> string option" where
  "extract_threshold txt = threshold_in None (split_whitespace txt)"

definition criterion_of :: "string \<Rightarrow> success_criterion" where
  "criterion_of txt = \<lparr> sc_description = txt, sc_command = extract_command txt, sc_threshold = extract_threshold txt \<rparr>"

definition criterion_text :: "string \<Rightarrow> string" where
  "criterion_text line =
     (let trimmed = trim line
      in case strip_prefix trimmed ''- '' of
           Some r \<Rightarrow> r
         | None \<Rightarrow> (case strip_prefix trimmed ''* '' of Some r \<Rightarrow> r | None \<Rightarrow> trimmed))"

definition extract_success_criteria :: "doc_atom \<Rightarrow> success_criterion list" where
  "extract_success_criteria a =
     (if at_kind a \<noteq> ValidationPoint then []
      else (let criteria = map criterion_of (filter (\<lambda>t. t \<noteq> []) (map criterion_text (lines_of (at_body a))))
            in if criteria = [] \<and> trim (at_body a) \<noteq> []
               then [\<lparr> sc_description = trim (at_body a), sc_command = extract_command (at_body a),
                       sc_threshold = extract_threshold (at_body a) \<rparr>]
               else criteria))"

definition assign_thread_group :: "doc_atom \<Rightarrow> string" where
  "assign_thread_group a =
     (let s = to_lowercase (at_source_section a)
      in if has_any s [''context'', ''problem''] then ''context''
         else if contains_str s ''decision'' then ''decision''
         else if has_any s [''consequence'', ''impact''] then ''consequences''
         else if has_any s [''implementation'', ''phase'', ''plan''] then ''implementation''
         else if has_any s [''validation'', ''metric''] then ''validation''
         else if has_any s [''question'', ''unknown''] then ''open-questions''
         else if contains_str s ''alternative'' then ''alternatives''
         else ''general'')"

definition spec_of_atom :: "string \<Rightarrow> doc_meta \<Rightarrow> provenance_ref \<Rightarrow> doc_atom \<Rightarrow> bead_spec option" where
  "spec_of_atom doc_id meta primary_source a =
     map_option (\<lambda>t.
       \<lparr> sp_title = ''['' @ doc_id @ ''] '' @ t, sp_description = at_body a,
         sp_issue_type = suggested_issue_type (at_kind a), sp_priority = suggested_priority (at_kind a),
         sp_channel = channel_for_atom (at_kind a), sp_thread_group = assign_thread_group a,
         sp_source_atom = at_kind a, sp_derived_from = [primary_source], sp_source_line = at_source_line a,
         sp_references = at_references a, sp_target_repo = infer_target_repo a meta,
         sp_depends_on = dm_depends_on meta, sp_success_criteria = extract_success_criteria a,
         sp_inferred_from = None, sp_doc_coverage_min = None \<rparr>) (truncate_title (at_title a) 60)"

fun map_panic :: "('a \<Rightarrow> 'b option) \<Rightarrow> 'a list \<Rightarrow> 'b list option" where
  "map_panic f [] = Some []"
| "map_panic f (x # xs) =
     (case f x of None \<Rightarrow> None | Some y \<Rightarrow> map_option ((#) y) (map_panic f xs))"

definition decompose_with_meta :: "doc_atom list \<Rightarrow> string \<Rightarrow> doc_meta \<Rightarrow> bead_spec list option" where
  "decompose_with_meta atoms doc_id meta =
     (let primary_source = (case dm_provenance meta of Some p \<Rightarrow> p | None \<Rightarrow> FromAdr doc_id)
      in map_panic (spec_of_atom doc_id meta primary_source) atoms)"

definition decompose :: "doc_atom list \<Rightarrow> string \<Rightarrow> bead_spec list option" where
  "decompose atoms doc_id = decompose_with_meta atoms doc_id default_meta"

section \<open>Threads\<close>

record decade_thread =
  th_id :: string
  th_name :: string
  th_decade_id :: string
  th_beads :: "bead_spec list"
  th_cross_repo_refs :: "string list"

datatype decade_status = DecProposed | DecActive | DecCompleted | DecSuperseded

record decade =
  dc_id :: string
  dc_title :: string
  dc_source_path :: string
  dc_threads :: "decade_thread list"
  dc_status :: decade_status
  dc_meta :: "doc_meta option"

definition bt_push :: "'k::linorder \<Rightarrow> 'v \<Rightarrow> ('k \<times> 'v list) list \<Rightarrow> ('k \<times> 'v list) list" where
  "bt_push k v m = bt_insert k ((case map_of m k of Some vs \<Rightarrow> vs | None \<Rightarrow> []) @ [v]) m"

definition group_by_thread :: "bead_spec list \<Rightarrow> (string \<times> bead_spec list) list" where
  "group_by_thread specs = foldl (\<lambda>m s. bt_push (sp_thread_group s) s m) [] specs"

definition THREAD_ORDER :: "string list" where
  "THREAD_ORDER = [''context'', ''decision'', ''alternatives'', ''implementation'', ''validation'', ''open-questions'',
     ''consequences'', ''general'']"

fun index_of :: "'a \<Rightarrow> 'a list \<Rightarrow> nat" where
  "index_of x [] = 0"
| "index_of x (y # ys) = (if x = y then 0 else Suc (index_of x ys))"

definition after_last :: "char \<Rightarrow> string \<Rightarrow> string" where
  "after_last c s = (case rsplit_once c s of Some (_, a) \<Rightarrow> a | None \<Rightarrow> s)"

definition derive_adr_id :: "string \<Rightarrow> string" where
  "derive_adr_id path =
     (let filename = after_last (CHR ''/'') path
      in if ends_with filename ''.md'' then take (length filename - 3) filename else filename)"

definition extract_cross_repo_refs :: "bead_spec list \<Rightarrow> string list" where
  "extract_cross_repo_refs specs =
     remdups_adj (sort (filter (\<lambda>r. CHR '':'' \<in> set r \<or> CHR ''/'' \<in> set r) (concat (map sp_references specs))))"

definition upper_char :: "char \<Rightarrow> char" where
  "upper_char c = (let n = (of_char c :: nat) in if 97 \<le> n \<and> n \<le> 122 then char_of (n - 32) else c)"

definition capitalize :: "string \<Rightarrow> string" where
  "capitalize s = (case s of [] \<Rightarrow> [] | c # cs \<Rightarrow> upper_char c # cs)"

definition thread_of_group :: "string \<Rightarrow> string \<Rightarrow> string \<times> bead_spec list \<Rightarrow> decade_thread" where
  "thread_of_group adr_id adr_title g =
     \<lparr> th_id = adr_id @ ''/'' @ fst g, th_name = adr_title @ '': '' @ capitalize (fst g), th_decade_id = adr_id,
       th_beads = snd g, th_cross_repo_refs = extract_cross_repo_refs (snd g) \<rparr>"

definition thread_position :: "decade_thread \<Rightarrow> nat" where
  "thread_position t = index_of (after_last (CHR ''/'') (th_id t)) THREAD_ORDER"

definition build_decade_with_meta :: "string \<Rightarrow> string \<Rightarrow> doc_atom list \<Rightarrow> doc_meta \<Rightarrow> decade option" where
  "build_decade_with_meta adr_path adr_title atoms meta =
     (let adr_id = derive_adr_id adr_path
      in map_option (\<lambda>specs.
           \<lparr> dc_id = adr_id, dc_title = adr_title, dc_source_path = adr_path,
             dc_threads = sort_key thread_position (map (thread_of_group adr_id adr_title) (group_by_thread specs)),
             dc_status = DecProposed, dc_meta = (if meta \<noteq> default_meta then Some meta else None) \<rparr>)
         (decompose_with_meta atoms adr_id meta))"

section \<open>Accretion\<close>

datatype completion_outcome = OutDone | OutRejected | OutBlocked | OutStale

record completion_event =
  ce_bead_title :: string
  ce_thread_id :: string
  ce_decade_id :: string
  ce_outcome :: completion_outcome

definition thread_progress :: "decade_thread \<Rightarrow> string set \<Rightarrow> real" where
  "thread_progress t completed =
     (if th_beads t = [] then 1
      else real (length (filter (\<lambda>b. sp_title b \<in> completed) (th_beads t))) / real (length (th_beads t)))"

definition decade_progress :: "decade \<Rightarrow> string set \<Rightarrow> real" where
  "decade_progress d completed =
     (if dc_threads d = [] then 1
      else sum_list (map (\<lambda>t. thread_progress t completed) (dc_threads d)) / real (length (dc_threads d)))"

definition should_transition :: "decade \<Rightarrow> string set \<Rightarrow> decade_status option" where
  "should_transition d completed =
     (let progress = decade_progress d completed
      in case dc_status d of
           DecProposed \<Rightarrow>
             if progress > 0 \<and> progress < 1 then Some DecActive
             else if progress \<ge> 1 then Some DecCompleted else None
         | DecActive \<Rightarrow> if progress \<ge> 1 then Some DecCompleted else None
         | _ \<Rightarrow> None)"

definition accrete :: "decade \<Rightarrow> completion_event list \<Rightarrow> decade" where
  "accrete d events =
     (let completed = set (map ce_bead_title (filter (\<lambda>e. ce_outcome e = OutDone \<and> ce_decade_id e = dc_id d) events))
      in case should_transition d completed of
           Some new_status \<Rightarrow> d\<lparr> dc_status := new_status \<rparr>
         | None \<Rightarrow> d)"

section \<open>Decomposition\<close>

lemma map_panic_None: "map_panic f xs = None \<longleftrightarrow> (\<exists>x \<in> set xs. f x = None)"
  by (induction xs) (auto split: option.splits)

lemma map_panic_Some: "map_panic f xs = Some ys \<longleftrightarrow> map f xs = map Some ys"
  by (induction xs arbitrary: ys) (auto split: option.splits simp: map_eq_Cons_conv)

lemma map_Some_fields:
  "map f xs = map Some ys \<Longrightarrow> (\<And>x y. f x = Some y \<Longrightarrow> h y = g x) \<Longrightarrow> map h ys = map g xs"
  by (induction xs arbitrary: ys) (auto simp: map_eq_Cons_conv)

lemma truncate_title_None: "truncate_title s 60 = None \<longleftrightarrow> length s > 60 \<and> is_continuation (s ! 57)"
  by (auto simp: truncate_title_def slice_to_def is_char_boundary_def)

lemma spec_of_atom_None: "spec_of_atom i m p a = None \<longleftrightarrow> length (at_title a) > 60 \<and> is_continuation (at_title a ! 57)"
  by (simp add: spec_of_atom_def truncate_title_None)

lemma thread_group_listed: "assign_thread_group a \<in> set THREAD_ORDER"
  by (simp add: assign_thread_group_def THREAD_ORDER_def Let_def)

section \<open>Groups\<close>

definition grouped_by :: "('a \<Rightarrow> 'k::linorder) \<Rightarrow> 'a list \<Rightarrow> ('k \<times> 'a list) list \<Rightarrow> bool" where
  "grouped_by f xs m \<longleftrightarrow> bt_ok m
     \<and> (\<forall>k. map_of m k = (if k \<in> f ` set xs then Some (filter (\<lambda>x. f x = k) xs) else None))"

lemma grouped_by_push: "grouped_by f xs m \<Longrightarrow> grouped_by f (xs @ [x]) (bt_push (f x) x m)"
  by (auto simp: grouped_by_def bt_push_def bt_get_insert filter_empty_conv image_iff split: if_splits)

lemma group_by_thread_grouped: "grouped_by sp_thread_group specs (group_by_thread specs)"
  unfolding group_by_thread_def
proof (induction specs rule: rev_induct)
  case Nil
  then show ?case by (simp add: grouped_by_def)
next
  case (snoc s specs)
  then show ?case using grouped_by_push [OF snoc] by simp
qed

lemma grouped_by_mem: "grouped_by f xs m \<Longrightarrow> (k, ys) \<in> set m \<longleftrightarrow> k \<in> f ` set xs \<and> ys = filter (\<lambda>x. f x = k) xs"
proof -
  assume g: "grouped_by f xs m"
  then have "distinct (map fst m)" by (simp add: grouped_by_def bt_ok_distinct)
  then have "(k, ys) \<in> set m \<longleftrightarrow> map_of m k = Some ys" by simp
  then show ?thesis using g by (auto simp: grouped_by_def)
qed

lemma grouped_by_set: "grouped_by f xs m \<Longrightarrow> set m = (\<lambda>k. (k, filter (\<lambda>x. f x = k) xs)) ` f ` set xs"
proof -
  assume g: "grouped_by f xs m"
  have "p \<in> set m \<longleftrightarrow> p \<in> (\<lambda>k. (k, filter (\<lambda>x. f x = k) xs)) ` f ` set xs" for p
    using grouped_by_mem [OF g, of "fst p" "snd p"] by (cases p) auto
  then show ?thesis by blast
qed

lemma after_last_join: "c \<notin> set b \<Longrightarrow> after_last c (a @ c # b) = b"
proof -
  assume "c \<notin> set b"
  then have "rsplit_once c (a @ c # b) = Some (a, b)" by (simp add: rsplit_once_Some)
  then show ?thesis by (simp add: after_last_def)
qed

lemma thread_position_group:
  assumes "g \<in> set THREAD_ORDER"
  shows "thread_position (thread_of_group i t (g, bs)) = index_of g THREAD_ORDER"
proof -
  have "CHR ''/'' \<notin> set g" using assms by (auto simp: THREAD_ORDER_def)
  then show ?thesis by (simp add: thread_position_def thread_of_group_def after_last_join)
qed

lemma index_of_inj: "x \<in> set xs \<Longrightarrow> index_of x xs = index_of y xs \<Longrightarrow> x = y"
  by (induction xs) (auto split: if_splits)

section \<open>Properties\<close>

text \<open>
  C35. A decade is built unless a title has more than 60 bytes and a character across its byte 57, which is
  a panic. Its beads are the atoms, one for each and in their order; its threads partition them by
  group, none empty, in the order fixed by \<open>THREAD_ORDER\<close>.
\<close>

theorem decade_partitions_the_beads:
  "(build_decade_with_meta path title atoms meta = None \<longleftrightarrow>
      (\<exists>a \<in> set atoms. length (at_title a) > 60 \<and> is_continuation (at_title a ! 57)))
   \<and> (build_decade_with_meta path title atoms meta = Some d \<longrightarrow>
       (\<exists>specs. decompose_with_meta atoms (derive_adr_id path) meta = Some specs
         \<and> map sp_description specs = map at_body atoms
         \<and> (\<forall>t \<in> set (dc_threads d). th_beads t \<noteq> [] \<and> (\<exists>g \<in> set THREAD_ORDER.
              th_id t = dc_id d @ ''/'' @ g \<and> th_beads t = filter (\<lambda>s. sp_thread_group s = g) specs))
         \<and> (\<forall>s \<in> set specs. \<exists>t \<in> set (dc_threads d). s \<in> set (th_beads t))
         \<and> sorted_wrt (\<lambda>t u. thread_position t < thread_position u) (dc_threads d)))"
proof -
  have none: "build_decade_with_meta path title atoms meta = None \<longleftrightarrow>
      (\<exists>a \<in> set atoms. length (at_title a) > 60 \<and> is_continuation (at_title a ! 57))"
    by (simp add: build_decade_with_meta_def Let_def decompose_with_meta_def map_panic_None spec_of_atom_None)
  have "\<exists>specs. decompose_with_meta atoms (derive_adr_id path) meta = Some specs
         \<and> map sp_description specs = map at_body atoms
         \<and> (\<forall>t \<in> set (dc_threads d). th_beads t \<noteq> [] \<and> (\<exists>g \<in> set THREAD_ORDER.
              th_id t = dc_id d @ ''/'' @ g \<and> th_beads t = filter (\<lambda>s. sp_thread_group s = g) specs))
         \<and> (\<forall>s \<in> set specs. \<exists>t \<in> set (dc_threads d). s \<in> set (th_beads t))
         \<and> sorted_wrt (\<lambda>t u. thread_position t < thread_position u) (dc_threads d)"
    if d: "build_decade_with_meta path title atoms meta = Some d"
  proof -
    let ?i = "derive_adr_id path"
    obtain specs where specs: "decompose_with_meta atoms ?i meta = Some specs"
      and threads: "dc_threads d = sort_key thread_position (map (thread_of_group ?i title) (group_by_thread specs))"
      and i: "dc_id d = ?i"
      using d by (auto simp: build_decade_with_meta_def Let_def)
    obtain p where p: "map (spec_of_atom ?i meta p) atoms = map Some specs"
      using specs by (auto simp: decompose_with_meta_def Let_def map_panic_Some)
    have desc: "map sp_description specs = map at_body atoms"
      by (rule map_Some_fields [OF p]) (auto simp: spec_of_atom_def)
    have "map (\<lambda>s. sp_thread_group s) specs = map assign_thread_group atoms"
      by (rule map_Some_fields [OF p]) (auto simp: spec_of_atom_def)
    then have listed: "sp_thread_group ` set specs \<subseteq> set THREAD_ORDER"
      using thread_group_listed by (metis (no_types, lifting) image_subset_iff list.set_map)
    note gs = grouped_by_set [OF group_by_thread_grouped, of specs]
    have keys: "fst ` set (group_by_thread specs) = sp_thread_group ` set specs"
      by (simp add: gs image_image)
    have mem: "set (dc_threads d) = (\<lambda>g. thread_of_group ?i title (g, filter (\<lambda>s. sp_thread_group s = g) specs))
        ` sp_thread_group ` set specs"
      by (simp add: threads gs image_image)
    have grp: "fst g \<in> set THREAD_ORDER" if "g \<in> set (group_by_thread specs)" for g
      using imageI [OF that, of fst] keys listed by blast
    have "thread_position (thread_of_group ?i title g) = index_of (fst g) THREAD_ORDER"
      if "g \<in> set (group_by_thread specs)" for g
      using thread_position_group [OF grp [OF that], of ?i title "snd g"] by simp
    then have "map thread_position (map (thread_of_group ?i title) (group_by_thread specs))
        = map (\<lambda>g. index_of (fst g) THREAD_ORDER) (group_by_thread specs)" by simp
    moreover have "inj_on (\<lambda>g. index_of (fst g) THREAD_ORDER) (set (group_by_thread specs))"
    proof (rule inj_onI)
      fix g h assume gh: "g \<in> set (group_by_thread specs)" "h \<in> set (group_by_thread specs)"
        "index_of (fst g) THREAD_ORDER = index_of (fst h) THREAD_ORDER"
      then have "fst g = fst h" using index_of_inj [OF grp] by blast
      then show "g = h" using gh(1,2) unfolding gs by auto
    qed
    moreover have "distinct (group_by_thread specs)"
      using bt_ok_distinct [of "group_by_thread specs"] group_by_thread_grouped [of specs]
      by (simp add: grouped_by_def distinct_map)
    ultimately have "distinct (map thread_position (map (thread_of_group ?i title) (group_by_thread specs)))"
      by (simp only: distinct_map)
    then have "distinct (map thread_position (dc_threads d))"
      unfolding threads by (auto simp: distinct_map intro: inj_on_imageI inj_on_imageI2)
    moreover have "sorted (map thread_position (dc_threads d))" by (simp add: threads)
    ultimately have "sorted_wrt (<) (map thread_position (dc_threads d))" by (simp add: strict_sorted_iff)
    moreover have "\<forall>t \<in> set (dc_threads d). th_beads t \<noteq> [] \<and> (\<exists>g \<in> set THREAD_ORDER.
              th_id t = dc_id d @ ''/'' @ g \<and> th_beads t = filter (\<lambda>s. sp_thread_group s = g) specs)"
      unfolding mem using listed by (auto simp: thread_of_group_def i filter_empty_conv)
    moreover have "\<forall>s \<in> set specs. \<exists>t \<in> set (dc_threads d). s \<in> set (th_beads t)"
      unfolding mem by (auto simp: thread_of_group_def)
    ultimately show ?thesis using specs desc by (simp add: sorted_wrt_map)
  qed
  then show ?thesis using none by blast
qed

definition sample_doc_atom :: doc_atom where
  "sample_doc_atom = \<lparr> at_kind = ValidationPoint, at_title = ''Tests pass'', at_body = ''- `cargo test` passes'',
     at_source_line = 4, at_source_section = ''Validation'', at_references = [''https://example.org/ci''] \<rparr>"

lemma sample_specs:
  "\<exists>s. spec_of_atom ''0001'' default_meta (FromAdr ''0001'') sample_doc_atom = Some s
     \<and> sp_title s = ''[0001] Tests pass'' \<and> sp_description s = at_body sample_doc_atom"
  by (simp add: spec_of_atom_def truncate_title_def sample_doc_atom_def)

theorem decade_partitions_the_beads_witness:
  "\<exists>d specs. build_decade_with_meta ''docs/0001.md'' ''CI'' [sample_doc_atom] default_meta = Some d
    \<and> decompose_with_meta [sample_doc_atom] (derive_adr_id ''docs/0001.md'') default_meta = Some specs
    \<and> map sp_description specs = [at_body sample_doc_atom]"
proof -
  have "build_decade_with_meta ''docs/0001.md'' ''CI'' [sample_doc_atom] default_meta \<noteq> None"
    unfolding decade_partitions_the_beads [THEN conjunct1] by (simp add: sample_doc_atom_def)
  then obtain d where d: "build_decade_with_meta ''docs/0001.md'' ''CI'' [sample_doc_atom] default_meta = Some d" by blast
  from decade_partitions_the_beads [THEN conjunct2, THEN mp, OF d] d show ?thesis by auto
qed

section \<open>The content hash\<close>

lemma first_nul: "x @ nul @ r = y @ nul @ q \<Longrightarrow> CHR 0x00 \<notin> set x \<Longrightarrow> CHR 0x00 \<notin> set y \<Longrightarrow> x = y \<and> r = q"
  by (metis append_Cons append_Nil nul_def option.inject prod.inject split_once_Some)

lemma issue_type_no_nul: "CHR 0x00 \<notin> set (suggested_issue_type k)"
  by (cases k) simp_all

lemma review_is_validation: "suggested_issue_type k = ''review'' \<longleftrightarrow> k = ValidationPoint"
  by (cases k) simp_all

lemma spec_of_atom_fields:
  assumes "spec_of_atom i m p a = Some s"
  shows "sp_issue_type s = suggested_issue_type (at_kind a)" "sp_priority s = suggested_priority (at_kind a)"
    "sp_description s = at_body a" "sp_success_criteria s = extract_success_criteria a"
  using assms by (auto simp: spec_of_atom_def)

text \<open>The criteria of a decomposed bead are determined by its type and description.\<close>

lemma criteria_determined:
  assumes "spec_of_atom i m p a = Some s" "spec_of_atom j n q b = Some t"
    and "sp_issue_type s = sp_issue_type t" "sp_description s = sp_description t"
  shows "sp_success_criteria s = sp_success_criteria t"
proof -
  have "(at_kind a = ValidationPoint) = (at_kind b = ValidationPoint)" "at_body a = at_body b"
    using assms review_is_validation by (metis spec_of_atom_fields(1), metis spec_of_atom_fields(3))
  then show ?thesis
    by (simp add: spec_of_atom_fields [OF assms(1)] spec_of_atom_fields [OF assms(2)] extract_success_criteria_def)
qed

lemma spec_content_inj:
  assumes s: "spec_of_atom i m p a = Some s" "CHR 0x00 \<notin> set (sp_title s @ sp_description s)"
    and t: "spec_of_atom j n q b = Some t" "CHR 0x00 \<notin> set (sp_title t @ sp_description t)"
  shows "spec_content s = spec_content t \<longleftrightarrow>
    sp_title s = sp_title t \<and> sp_description s = sp_description t \<and> sp_issue_type s = sp_issue_type t
    \<and> sp_priority s = sp_priority t"
proof
  assume e: "spec_content s = spec_content t"
  have small: "suggested_priority k < 256" for k by (cases k) simp_all
  have ty: "CHR 0x00 \<notin> set (sp_issue_type s)" "CHR 0x00 \<notin> set (sp_issue_type t)"
    by (simp_all add: spec_of_atom_fields [OF s(1)] spec_of_atom_fields [OF t(1)] issue_type_no_nul)
  note e1 = first_nul [OF e [unfolded spec_content_def]]
  have 1: "sp_title s = sp_title t" by (rule e1 [THEN conjunct1]) (use s(2) t(2) in auto)
  note e2 = first_nul [OF e1 [THEN conjunct2]]
  have 2: "sp_description s = sp_description t" by (rule e2 [THEN conjunct1]) (use s(2) t(2) in auto)
  note e3 = first_nul [OF e2 [THEN conjunct2]]
  have 3: "sp_issue_type s = sp_issue_type t" by (rule e3 [THEN conjunct1]) (use s(2) t(2) ty in auto)
  have "[char_of (sp_priority s)] @ concat (map criterion_bytes (sp_success_criteria s))
      = [char_of (sp_priority t)] @ concat (map criterion_bytes (sp_success_criteria t))"
    by (rule e3 [THEN conjunct2]) (use s(2) t(2) ty in auto)
  then have e3: "(char_of (sp_priority s) :: char) = char_of (sp_priority t)" by simp
  have "(of_char (char_of (sp_priority s)) :: nat) = of_char (char_of (sp_priority t))" using e3 by simp
  then have "sp_priority s = sp_priority t"
    using small by (simp add: spec_of_atom_fields [OF s(1)] spec_of_atom_fields [OF t(1)])
  then show "sp_title s = sp_title t \<and> sp_description s = sp_description t \<and> sp_issue_type s = sp_issue_type t
    \<and> sp_priority s = sp_priority t" using 1 2 3 by simp
next
  assume "sp_title s = sp_title t \<and> sp_description s = sp_description t \<and> sp_issue_type s = sp_issue_type t
    \<and> sp_priority s = sp_priority t"
  then show "spec_content s = spec_content t"
    using criteria_determined [OF s(1) t(1)] by (simp add: spec_content_def)
qed

text \<open>
  Two beads decomposed from documents without NUL have the same content hash exactly when they agree
  in title, description, type and priority, whatever document, repository and dependencies they come
  from, unless the hash collides on their contents: the success criteria add nothing, being read
  off the description. For criteria written by hand the fields are not separated in what is hashed: a
  command is the same content as the same text at the end of the description.
\<close>

theorem content_hash_identifies_beads:
  assumes "spec_of_atom i m p a = Some s" "spec_of_atom j n q b = Some t"
    and "CHR 0x00 \<notin> set (sp_title s @ sp_description s)" "CHR 0x00 \<notin> set (sp_title t @ sp_description t)"
    and "inj_on sha256 {spec_content s, spec_content t}"
  shows "(content_hash sha256 s = content_hash sha256 t \<longleftrightarrow>
      sp_title s = sp_title t \<and> sp_description s = sp_description t \<and> sp_issue_type s = sp_issue_type t
      \<and> sp_priority s = sp_priority t)
    \<and> content_hash sha256 (u\<lparr> sp_success_criteria := [\<lparr> sc_description = x @ y, sc_command = None, sc_threshold = z \<rparr>] \<rparr>)
      = content_hash sha256 (u\<lparr> sp_success_criteria := [\<lparr> sc_description = x, sc_command = Some y, sc_threshold = z \<rparr>] \<rparr>)"
proof -
  have "content_hash sha256 s = content_hash sha256 t \<longleftrightarrow> spec_content s = spec_content t"
    using assms(5) by (auto simp: content_hash_def dest: inj_onD)
  then show ?thesis
    using spec_content_inj [OF assms(1,3,2,4)] by (simp add: content_hash_def spec_content_def criterion_bytes_def)
qed

theorem content_hash_identifies_beads_witness:
  "\<exists>s t. spec_of_atom ''0001'' default_meta (FromAdr ''0001'') sample_doc_atom = Some s
    \<and> spec_of_atom ''0001'' (default_meta\<lparr> dm_repo := Some ''mache'' \<rparr>) (FromDoc ''a.md'') sample_doc_atom = Some t
    \<and> content_hash (\<lambda>x. x) s = content_hash (\<lambda>x. x) t"
proof -
  let ?m = "default_meta\<lparr> dm_repo := Some ''mache'' \<rparr>"
  obtain s where s: "spec_of_atom ''0001'' default_meta (FromAdr ''0001'') sample_doc_atom = Some s"
    "sp_title s = ''[0001] Tests pass''" using sample_specs by blast
  obtain t where t: "spec_of_atom ''0001'' ?m (FromDoc ''a.md'') sample_doc_atom = Some t"
    "sp_title t = ''[0001] Tests pass''"
    by (simp add: spec_of_atom_def truncate_title_def sample_doc_atom_def)
  note f = spec_of_atom_fields [OF s(1)] spec_of_atom_fields [OF t(1)]
  have "CHR 0x00 \<notin> set (sp_title s @ sp_description s)" "CHR 0x00 \<notin> set (sp_title t @ sp_description t)"
    by (simp_all add: s(2) t(2) f sample_doc_atom_def)
  then have "content_hash (\<lambda>x. x) s = content_hash (\<lambda>x. x) t"
    by (subst content_hash_identifies_beads [OF s(1) t(1), THEN conjunct1]) (simp_all add: s(2) t(2) f)
  then show ?thesis using s(1) t(1) by blast
qed

section \<open>Where a bead goes\<close>

text \<open>
  A link among the references decides the repository of the bead: the scheme of a web address is taken
  for the name of a repository, whatever repository the document names, because the check against
  \<open>//\<close> looks at the part before the colon.
\<close>

theorem link_scheme_becomes_target_repo:
  assumes "at_references a = (scheme @ ''://'' @ rest) # rs" "scheme \<noteq> []" "length scheme < 30"
    and "\<forall>c \<in> set scheme. is_alphabetic c"
  shows "infer_target_repo a meta = Some scheme"
proof -
  have ws: "\<not> is_whitespace c \<and> c \<noteq> CHR '':'' \<and> c \<noteq> CHR ''/'' \<and> c \<noteq> CHR '' ''" if "c \<in> set scheme" for c
    using assms(4) that by (auto simp: is_alphabetic_def is_whitespace_def Let_def)
  have sp: "split_once (CHR '':'') (scheme @ ''://'' @ rest) = Some (scheme, ''//'' @ rest)"
    using ws by (auto simp: split_once_Some)
  have tr: "trim scheme = scheme"
    by (rule trim_plain) (use ws assms(2) in auto)
  have "CHR ''/'' \<notin> set s \<Longrightarrow> \<not> contains_str s ''//''" for s
    by (induction s) (auto simp: starts_with_def)
  then have "\<not> contains_str scheme ''//''" using ws by blast
  moreover have "CHR '' '' \<notin> set scheme" using ws by blast
  ultimately show ?thesis
    using assms(1-3) sp tr by (simp add: infer_target_repo_def List.map_filter_simps)
qed

theorem link_scheme_becomes_target_repo_witness:
  "infer_target_repo sample_doc_atom (default_meta\<lparr> dm_repo := Some ''mache'' \<rparr>) = Some ''https''"
  by (rule link_scheme_becomes_target_repo [where rest = "''example.org/ci''" and rs = "[]"])
    (simp_all add: sample_doc_atom_def is_alphabetic_def)

section \<open>Accretion\<close>

text \<open>An average of fractions is one when all are, and positive when one is.\<close>

lemma average_of_fractions:
  fixes xs :: "real list"
  assumes "\<forall>x \<in> set xs. 0 \<le> x \<and> x \<le> 1" "xs \<noteq> []"
  shows "sum_list xs / real (length xs) \<ge> 1 \<longleftrightarrow> (\<forall>x \<in> set xs. x = 1)"
    and "sum_list xs / real (length xs) > 0 \<longleftrightarrow> (\<exists>x \<in> set xs. x > 0)"
    and "sum_list xs / real (length xs) \<le> 1"
proof -
  have "sum_list xs \<le> real (length xs) \<and> 0 \<le> sum_list xs \<and> (sum_list xs \<ge> real (length xs) \<longleftrightarrow> (\<forall>x \<in> set xs. x = 1))
      \<and> (sum_list xs > 0 \<longleftrightarrow> (\<exists>x \<in> set xs. x > 0))"
    using assms(1)
  proof (induction xs)
    case (Cons x xs)
    then have b: "0 \<le> x" "x \<le> 1" by auto
    have IH: "sum_list xs \<le> real (length xs)" "0 \<le> sum_list xs"
      "(sum_list xs \<ge> real (length xs)) = (\<forall>x \<in> set xs. x = 1)" "(sum_list xs > 0) = (\<exists>x \<in> set xs. x > 0)"
      using Cons by auto
    have "x + sum_list xs \<ge> 1 + real (length xs) \<longleftrightarrow> x = 1 \<and> sum_list xs \<ge> real (length xs)" using b IH(1) by linarith
    moreover have "x + sum_list xs > 0 \<longleftrightarrow> x > 0 \<or> sum_list xs > 0" using b IH(2) by linarith
    ultimately show ?case using b IH by simp
  qed simp
  then show "sum_list xs / real (length xs) \<ge> 1 \<longleftrightarrow> (\<forall>x \<in> set xs. x = 1)"
    "sum_list xs / real (length xs) > 0 \<longleftrightarrow> (\<exists>x \<in> set xs. x > 0)" "sum_list xs / real (length xs) \<le> 1"
    using assms(2) by (simp_all add: le_divide_eq divide_le_eq zero_less_divide_iff)
qed

lemma thread_progress_bounds: "0 \<le> thread_progress t c \<and> thread_progress t c \<le> 1"
  by (simp add: thread_progress_def divide_le_eq_1)

lemma thread_progress_one: "thread_progress t c = 1 \<longleftrightarrow> (\<forall>b \<in> set (th_beads t). sp_title b \<in> c)"
proof -
  have "length (filter P xs) = length xs \<longleftrightarrow> (\<forall>x \<in> set xs. P x)" for P and xs :: "bead_spec list"
    by (metis filter_True length_filter_less less_irrefl)
  from this [of "\<lambda>b. sp_title b \<in> c" "th_beads t"] show ?thesis by (auto simp: thread_progress_def)
qed

lemma thread_progress_pos: "thread_progress t c > 0 \<longleftrightarrow> th_beads t = [] \<or> (\<exists>b \<in> set (th_beads t). sp_title b \<in> c)"
  by (auto simp: thread_progress_def zero_less_divide_iff filter_empty_conv)

lemma decade_progress_one:
  "decade_progress d c \<ge> 1 \<longleftrightarrow> (\<forall>t \<in> set (dc_threads d). \<forall>b \<in> set (th_beads t). sp_title b \<in> c)"
  using average_of_fractions(1) [of "map (\<lambda>t. thread_progress t c) (dc_threads d)"] thread_progress_bounds
  by (simp add: decade_progress_def thread_progress_one)

lemma decade_progress_pos:
  "dc_threads d \<noteq> [] \<Longrightarrow> decade_progress d c > 0 \<longleftrightarrow>
     (\<exists>t \<in> set (dc_threads d). th_beads t = [] \<or> (\<exists>b \<in> set (th_beads t). sp_title b \<in> c))"
  using average_of_fractions(2) [of "map (\<lambda>t. thread_progress t c) (dc_threads d)"] thread_progress_bounds
  by (simp add: decade_progress_def thread_progress_pos)

definition done_titles :: "decade \<Rightarrow> completion_event list \<Rightarrow> string set" where
  "done_titles d es = {ce_bead_title e |e. e \<in> set es \<and> ce_outcome e = OutDone \<and> ce_decade_id e = dc_id d}"

definition all_done :: "decade \<Rightarrow> string set \<Rightarrow> bool" where
  "all_done d c \<longleftrightarrow> (\<forall>t \<in> set (dc_threads d). \<forall>b \<in> set (th_beads t). sp_title b \<in> c)"

definition some_done :: "decade \<Rightarrow> string set \<Rightarrow> bool" where
  "some_done d c \<longleftrightarrow> (\<exists>t \<in> set (dc_threads d). th_beads t = [] \<or> (\<exists>b \<in> set (th_beads t). sp_title b \<in> c))"

definition status_after :: "decade \<Rightarrow> string set \<Rightarrow> decade_status" where
  "status_after d c =
     (if dc_status d = DecCompleted \<or> dc_status d = DecSuperseded then dc_status d
      else if all_done d c then DecCompleted
      else if dc_status d = DecProposed \<and> some_done d c then DecActive
      else dc_status d)"

lemma done_titles_alt:
  "set (map ce_bead_title (filter (\<lambda>e. ce_outcome e = OutDone \<and> ce_decade_id e = dc_id d) es)) = done_titles d es"
  by (auto simp: done_titles_def)

lemma accrete_status: "accrete d es = d\<lparr> dc_status := status_after d (done_titles d es) \<rparr>"
proof -
  let ?c = "done_titles d es"
  have one: "decade_progress d ?c \<ge> 1 \<longleftrightarrow> all_done d ?c" by (simp add: decade_progress_one all_done_def)
  have pos: "\<not> all_done d ?c \<Longrightarrow> decade_progress d ?c > 0 \<longleftrightarrow> some_done d ?c"
  proof -
    assume "\<not> all_done d ?c"
    then have "dc_threads d \<noteq> []" by (auto simp: all_done_def)
    then show ?thesis unfolding some_done_def by (rule decade_progress_pos)
  qed
  have "accrete d es = (case should_transition d ?c of Some s \<Rightarrow> d\<lparr> dc_status := s \<rparr> | None \<Rightarrow> d)"
    by (simp only: accrete_def Let_def done_titles_alt)
  then show ?thesis
    using one pos by (cases "dc_status d") (auto simp: should_transition_def status_after_def Let_def not_le)
qed

text \<open>How far a decade is: a completed or superseded one is at its end.\<close>

fun decade_rank :: "decade_status \<Rightarrow> nat" where
  "decade_rank DecProposed = 0"
| "decade_rank DecActive = 1"
| "decade_rank _ = 2"

text \<open>
  Completion events move a decade forward by its status alone. It completes exactly when every bead of
  every thread has the title of a done event of this decade, so that a decade without beads completes
  at once and beads with equal titles complete together; it becomes active when only some have; a
  completed or superseded one stays, and no event of another decade or with another outcome counts.
  The same events again change nothing, and more events never take it less far.
\<close>

theorem accretion_moves_forward:
  "accrete d es = d\<lparr> dc_status := status_after d (done_titles d es) \<rparr>
   \<and> accrete (accrete d es) es = accrete d es
   \<and> decade_rank (dc_status d) \<le> decade_rank (dc_status (accrete d es))
   \<and> (set es \<subseteq> set es' \<longrightarrow> decade_rank (dc_status (accrete d es)) \<le> decade_rank (dc_status (accrete d es')))"
proof -
  have upd: "done_titles (d\<lparr> dc_status := s \<rparr>) es = done_titles d es" "all_done (d\<lparr> dc_status := s \<rparr>) c = all_done d c"
    "some_done (d\<lparr> dc_status := s \<rparr>) c = some_done d c" for s c
    by (simp_all add: done_titles_def all_done_def some_done_def)
  have again: "accrete (accrete d es) es = accrete d es"
    unfolding accrete_status by (cases "dc_status d") (auto simp: status_after_def upd)
  have forward: "decade_rank (dc_status d) \<le> decade_rank (dc_status (accrete d es))"
    unfolding accrete_status by (cases "dc_status d") (auto simp: status_after_def)
  have "decade_rank (dc_status (accrete d es)) \<le> decade_rank (dc_status (accrete d es'))" if sub: "set es \<subseteq> set es'"
  proof -
    have "done_titles d es \<subseteq> done_titles d es'" using sub by (auto simp: done_titles_def)
    then have "all_done d (done_titles d es) \<Longrightarrow> all_done d (done_titles d es')"
      "some_done d (done_titles d es) \<Longrightarrow> some_done d (done_titles d es')"
      by (auto simp: all_done_def some_done_def)
    then show ?thesis unfolding accrete_status by (cases "dc_status d") (auto simp: status_after_def)
  qed
  then show ?thesis using accrete_status again forward by blast
qed

theorem accretion_moves_forward_witness:
  "decade_rank (dc_status (accrete \<lparr> dc_id = ''0001'', dc_title = ''CI'', dc_source_path = ''0001.md'', dc_threads = [],
      dc_status = DecProposed, dc_meta = None \<rparr> []))
   \<le> decade_rank (dc_status (accrete \<lparr> dc_id = ''0001'', dc_title = ''CI'', dc_source_path = ''0001.md'', dc_threads = [],
      dc_status = DecProposed, dc_meta = None \<rparr>
      [\<lparr> ce_bead_title = ''x'', ce_thread_id = ''t'', ce_decade_id = ''0001'', ce_outcome = OutDone \<rparr>]))"
  by (rule accretion_moves_forward [THEN conjunct2, THEN conjunct2, THEN conjunct2, THEN mp]) simp

end
