(* ===== verification/Keyed_Tables.thy ===== *)
theory Keyed_Tables
  imports Rosary_Prelude
begin

text \<open>
  Tables of a database as lists of rows with a primary key: the statements that insert, replace, update and
  delete rows, and the interface they offer to a client that only sees a map.
\<close>

section \<open>Statements\<close>

definition has_key :: "('r \<Rightarrow> 'k) \<Rightarrow> 'k \<Rightarrow> 'r list \<Rightarrow> bool" where
  "has_key key k rs \<longleftrightarrow> list_ex (\<lambda>q. key q = k) rs"

text \<open>\<open>SELECT\<close> by key.\<close>

definition row_at :: "('r \<Rightarrow> 'k) \<Rightarrow> 'r list \<Rightarrow> 'k \<Rightarrow> 'r option" where
  "row_at key rs k = List.find (\<lambda>q. key q = k) rs"

text \<open>\<open>INSERT OR IGNORE\<close>.\<close>

definition insert_ignore :: "('r \<Rightarrow> 'k) \<Rightarrow> 'r \<Rightarrow> 'r list \<Rightarrow> 'r list" where
  "insert_ignore key r rs = (if has_key key (key r) rs then rs else rs @ [r])"

text \<open>\<open>INSERT OR REPLACE\<close>: the old row is deleted and the new one goes to the end.\<close>

definition insert_replace :: "('r \<Rightarrow> 'k) \<Rightarrow> 'r \<Rightarrow> 'r list \<Rightarrow> 'r list" where
  "insert_replace key r rs = filter (\<lambda>q. key q \<noteq> key r) rs @ [r]"

text \<open>\<open>INSERT ... ON CONFLICT(key) DO UPDATE\<close>: \<open>upd\<close> makes the row of an old and a new one, in its place.\<close>

definition insert_update :: "('r \<Rightarrow> 'k) \<Rightarrow> ('r \<Rightarrow> 'r \<Rightarrow> 'r) \<Rightarrow> 'r \<Rightarrow> 'r list \<Rightarrow> 'r list" where
  "insert_update key upd r rs =
     (if has_key key (key r) rs then map (\<lambda>q. if key q = key r then upd q r else q) rs else rs @ [r])"

text \<open>\<open>UPDATE ... WHERE key = k\<close> and \<open>DELETE ... WHERE key = k\<close>.\<close>

definition update_at :: "('r \<Rightarrow> 'k) \<Rightarrow> 'k \<Rightarrow> ('r \<Rightarrow> 'r) \<Rightarrow> 'r list \<Rightarrow> 'r list" where
  "update_at key k f rs = map (\<lambda>q. if key q = k then f q else q) rs"

definition delete_at :: "('r \<Rightarrow> 'k) \<Rightarrow> 'k \<Rightarrow> 'r list \<Rightarrow> 'r list" where
  "delete_at key k rs = filter (\<lambda>q. key q \<noteq> k) rs"

section \<open>Patterns\<close>

text \<open>SQL's \<open>LIKE\<close>: \<open>%\<close> is any text, \<open>_\<close> any character, and letters match in either case.\<close>

fun like :: "string \<Rightarrow> string \<Rightarrow> bool" where
  "like [] s \<longleftrightarrow> s = []"
| "like (p # ps) [] \<longleftrightarrow> p = CHR ''%'' \<and> like ps []"
| "like (p # ps) (c # s) \<longleftrightarrow>
     (if p = CHR ''%'' then like ps (c # s) \<or> like (p # ps) s
      else (p = CHR ''_'' \<or> lower_char p = lower_char c) \<and> like ps s)"

section \<open>Keys stay unique\<close>

definition unique_keys :: "('r \<Rightarrow> 'k) \<Rightarrow> 'r list \<Rightarrow> bool" where
  "unique_keys key rs \<longleftrightarrow> distinct (map key rs)"

lemma has_key_iff [map_simps]: "has_key key k rs \<longleftrightarrow> k \<in> key ` set rs"
  by (auto simp: has_key_def list_ex_iff)

lemma map_cond [map_simps]: "(\<And>q. key (f q) = key q) \<Longrightarrow> map key (map (\<lambda>q. if c q then f q else q) rs) = map key rs"
  by simp

lemma unique_Nil [simp]: "unique_keys key []"
  by (simp add: unique_keys_def)

lemma unique_filter [intro, simp]: "unique_keys key rs \<Longrightarrow> unique_keys key (filter p rs)"
  by (simp add: unique_keys_def distinct_map_filter)

lemma unique_ops [intro, simp]:
  "unique_keys key rs \<Longrightarrow> unique_keys key (insert_ignore key r rs)"
  "unique_keys key rs \<Longrightarrow> unique_keys key (insert_replace key r rs)"
  "unique_keys key rs \<Longrightarrow> unique_keys key (delete_at key' k rs)"
proof -
  assume u: "unique_keys key rs"
  show "unique_keys key (insert_ignore key r rs)" using u by (simp add: unique_keys_def insert_ignore_def has_key_iff)
  have "unique_keys key (filter (\<lambda>q. key q \<noteq> key r) rs)" using u by simp
  then show "unique_keys key (insert_replace key r rs)" by (auto simp: unique_keys_def insert_replace_def)
  show "unique_keys key (delete_at key' k rs)" using u by (simp add: delete_at_def)
qed

lemma unique_update:
  "(\<And>q. key q = key r \<Longrightarrow> key (upd q r) = key q) \<Longrightarrow> unique_keys key rs \<Longrightarrow> unique_keys key (insert_update key upd r rs)"
  "(\<And>q. key (f q) = key q) \<Longrightarrow> unique_keys key rs \<Longrightarrow> unique_keys key (update_at key' k f rs)"
proof -
  assume u: "\<And>q. key q = key r \<Longrightarrow> key (upd q r) = key q" "unique_keys key rs"
  have "map key (map (\<lambda>q. if key q = key r then upd q r else q) rs) = map key rs" by (simp add: u(1))
  then show "unique_keys key (insert_update key upd r rs)"
    using u(2) by (auto simp: unique_keys_def insert_update_def has_key_iff simp del: map_map)
next
  assume "\<And>q. key (f q) = key q" "unique_keys key rs"
  then show "unique_keys key (update_at key' k f rs)"
    by (simp add: unique_keys_def update_at_def comp_def if_distrib cong: if_cong)
qed

lemma row_at_Some: "row_at key rs k = Some r \<Longrightarrow> r \<in> set rs \<and> key r = k"
  unfolding row_at_def by (auto simp: find_Some_iff)

lemma row_at_None: "row_at key rs k = None \<longleftrightarrow> k \<notin> key ` set rs"
  unfolding row_at_def by (auto simp: find_None_iff)

lemma row_at_member: "unique_keys key rs \<Longrightarrow> r \<in> set rs \<Longrightarrow> row_at key rs (key r) = Some r"
  by (induction rs) (auto simp: row_at_def unique_keys_def)

lemma row_at_append: "row_at key (rs @ ss) k = (case row_at key rs k of None \<Rightarrow> row_at key ss k | s \<Rightarrow> s)"
  by (induction rs) (auto simp: row_at_def)

lemma row_at_filter: "row_at key (filter (\<lambda>q. key q \<noteq> j) rs) k = (if k = j then None else row_at key rs k)"
  by (induction rs) (auto simp: row_at_def)

lemma row_at_map: "(\<And>q. key (f q) = key q) \<Longrightarrow> row_at key (map f rs) k = map_option f (row_at key rs k)"
  by (induction rs) (auto simp: row_at_def)

lemma row_at_single: "row_at key [r] k = (if key r = k then Some r else None)"
  by (simp add: row_at_def)

lemma row_at_ops:
  "row_at key (insert_replace key r rs) k = (if k = key r then Some r else row_at key rs k)"
  "row_at key (delete_at key j rs) k = (if k = j then None else row_at key rs k)"
  "row_at key (insert_ignore key r rs) k = (if k = key r \<and> row_at key rs k = None then Some r else row_at key rs k)"
proof -
  show "row_at key (insert_replace key r rs) k = (if k = key r then Some r else row_at key rs k)"
    by (auto simp: insert_replace_def row_at_append row_at_filter row_at_single split: option.split)
  show "row_at key (delete_at key j rs) k = (if k = j then None else row_at key rs k)"
    by (simp add: delete_at_def row_at_filter)
  have "has_key key (key r) rs \<longleftrightarrow> row_at key rs (key r) \<noteq> None" by (simp add: row_at_None has_key_iff)
  then show "row_at key (insert_ignore key r rs) k = (if k = key r \<and> row_at key rs k = None then Some r else row_at key rs k)"
    by (auto simp: insert_ignore_def row_at_append row_at_single split: option.splits)
qed

lemma row_at_update:
  assumes "\<And>q. key q = key r \<Longrightarrow> key (upd q r) = key q"
  shows "row_at key (insert_update key upd r rs) k
    = (if k = key r then Some (case row_at key rs k of None \<Rightarrow> r | Some q \<Rightarrow> upd q r) else row_at key rs k)"
proof -
  have "row_at key (map (\<lambda>q. if key q = key r then upd q r else q) rs) k = map_option (\<lambda>q. if key q = key r then upd q r else q) (row_at key rs k)"
    using assms by (intro row_at_map) auto
  moreover have "row_at key rs (key r) = None \<longleftrightarrow> \<not> has_key key (key r) rs" by (simp add: row_at_None has_key_iff)
  moreover have "key q = k" if "row_at key rs k = Some q" for q using row_at_Some [OF that] by simp
  ultimately show ?thesis
    by (cases "row_at key rs k") (auto simp: insert_update_def row_at_append row_at_single split: option.splits)
qed

section \<open>A table as a map\<close>

text \<open>
  What a client relies on that keeps one value for each key: \<open>put\<close> stores a value, \<open>drop_key\<close> removes the
  one of a key, \<open>fetch\<close> reads it. \<open>seen\<close> is what is read of a value that was stored.
\<close>

locale keyed_table =
  fixes put :: "'v \<Rightarrow> 's \<Rightarrow> 's" and drop_key :: "'k \<Rightarrow> 's \<Rightarrow> 's" and fetch :: "'s \<Rightarrow> 'k \<Rightarrow> 'w option"
    and key_of :: "'v \<Rightarrow> 'k" and seen :: "'v \<Rightarrow> 'w"
  assumes fetch_put: "fetch (put v s) k = (if k = key_of v then Some (seen v) else fetch s k)"
    and fetch_drop: "fetch (drop_key j s) k = (if k = j then None else fetch s k)"
begin

text \<open>A run of writes (\<open>Inl\<close> a value, \<open>Inr\<close> a key to remove), and the map it stands for.\<close>

definition write_step :: "'s \<Rightarrow> 'v + 'k \<Rightarrow> 's" where
  "write_step s w = (case w of Inl v \<Rightarrow> put v s | Inr k \<Rightarrow> drop_key k s)"

definition map_step :: "('k \<Rightarrow> 'w option) \<Rightarrow> 'v + 'k \<Rightarrow> 'k \<Rightarrow> 'w option" where
  "map_step m w = (case w of Inl v \<Rightarrow> m(key_of v \<mapsto> seen v) | Inr k \<Rightarrow> m(k := None))"

lemma step_refines: "fetch (write_step s w) = map_step (fetch s) w"
  by (auto simp: write_step_def map_step_def fetch_put fetch_drop fun_eq_iff split: sum.split)

lemma writes_refine: "fetch (foldl write_step s ws) = foldl map_step (fetch s) ws"
  by (induction ws arbitrary: s) (simp_all add: step_refines)

text \<open>What was put last under a key is what is read, whatever is written under other keys after it.\<close>

lemma last_put:
  assumes "\<forall>w \<in> set ws. case w of Inl v' \<Rightarrow> key_of v' \<noteq> key_of v | Inr k \<Rightarrow> k \<noteq> key_of v"
  shows "fetch (foldl write_step (put v s) ws) (key_of v) = Some (seen v)"
proof -
  have "foldl map_step m ws (key_of v) = m (key_of v)" for m
    using assms by (induction ws arbitrary: m) (auto simp: map_step_def split: sum.splits)
  then show ?thesis by (simp add: writes_refine fetch_put)
qed

end

end
