(* ===== verification/Bead_Store.thy ===== *)
theory Bead_Store
  imports Bead_Model Secrets Keyed_Tables
begin

text \<open>
  The bead store of a repository (\<open>src/bead_sqlite/mod.rs\<close>, \<open>src/bead_sqlite/restore_ops.rs\<close>,
  \<open>src/bead_backend.rs\<close>): tables of issues, dependencies, comments and events in a SQLite database, and
  the operations as what their SQL statements do to the tables.

  A row is a record of its columns, without those the program only ever fills with a constant (the design of
  an issue, the actor of an event) and the numbers of the events. A column that holds the text of a JSON value is modelled as the
  value, one that holds a timestamp as its text; \<open>parse\<close> reads timestamps, and \<open>now\<close> is the text of the
  current time, taken once for each operation. A query without \<open>ORDER BY\<close>, or with ties in it, returns
  rows in the order of the table, which SQL leaves open. The calls commented in the code as best-effort
  are taken to succeed.
\<close>

section \<open>Which store a directory holds\<close>

datatype bead_backend = Dolt | Sqlite | BothStores | UnreadableEmbeddedOnly | Uninitialized

text \<open>The three artifacts of the directory: \<open>dolt/\<close>, \<open>beads.db\<close>, \<open>embeddeddolt/\<close>.\<close>

definition detect_backend :: "bool \<Rightarrow> bool \<Rightarrow> bool \<Rightarrow> bead_backend" where
  "detect_backend has_dolt has_sqlite has_embedded =
     (if has_dolt \<and> has_sqlite then BothStores
      else if has_dolt then Dolt
      else if has_sqlite then Sqlite
      else if has_embedded then UnreadableEmbeddedOnly
      else Uninitialized)"

section \<open>Tables\<close>

record issue_row =
  ir_id :: string
  ir_title :: string
  ir_description :: "string option"
  ir_acceptance_criteria :: "string option"
  ir_notes :: "json option"
  ir_status :: string
  ir_priority :: int
  ir_issue_type :: string
  ir_assignee :: "string option"
  ir_external_ref :: "string option"
  ir_user_id :: "string option"
  ir_created_by :: "string option"
  ir_scope :: string
  ir_created_at :: string
  ir_updated_at :: string

record dep_row =
  dr_issue :: string
  dr_target :: string
  dr_type :: string

record comment_row =
  cr_id :: nat
  cr_issue :: string
  cr_text :: string
  cr_author :: string
  cr_created_at :: string
  cr_edited_at :: "string option"
  cr_edit_reason :: "string option"
  cr_original_text :: "string option"
  cr_deleted_at :: "string option"
  cr_delete_reason :: "string option"

record event_row =
  er_issue :: string
  er_type :: string
  er_comment :: string
  er_created_at :: string

type_synonym fts_row = "string \<times> string \<times> string option"

text \<open>\<open>db_next_comment\<close> is the next number of the AUTOINCREMENT column; \<open>db_fts\<close> the full-text index.\<close>

record bead_db =
  db_issues :: "issue_row list"
  db_deps :: "dep_row list"
  db_comments :: "comment_row list"
  db_next_comment :: nat
  db_events :: "event_row list"
  db_fts :: "fts_row list"

definition empty_db :: bead_db where
  "empty_db = \<lparr> db_issues = [], db_deps = [], db_comments = [], db_next_comment = 1, db_events = [], db_fts = [] \<rparr>"

datatype store_error =
    NotFound string
  | AmbiguousId string "string list"
  | InvalidTransition bead_state bead_state string
  | NoSuchComment nat
  | DuplicateKey string
  | UnreadableRow

section \<open>Identifiers\<close>

definition row_of :: "bead_db \<Rightarrow> string \<Rightarrow> issue_row option" where
  "row_of db i = List.find (\<lambda>r. ir_id r = i) (db_issues db)"

definition resolve_id :: "bead_db \<Rightarrow> string \<Rightarrow> store_error + string" where
  "resolve_id db i =
     (case row_of db i of
        Some r \<Rightarrow> Inr (ir_id r)
      | None \<Rightarrow>
          (case filter (like (''%-'' @ i)) (map ir_id (db_issues db)) of
             [] \<Rightarrow> Inl (NotFound i)
           | [full] \<Rightarrow> Inr full
           | ms \<Rightarrow> Inl (AmbiguousId i ms)))"

text \<open>An operation on the bead an identifier resolves to, and an update of its row.\<close>

definition with_bead :: "bead_db \<Rightarrow> string \<Rightarrow> (string \<Rightarrow> store_error + bead_db) \<Rightarrow> store_error + bead_db" where
  "with_bead db i f = (case resolve_id db i of Inl e \<Rightarrow> Inl e | Inr full \<Rightarrow> f full)"

definition set_row :: "string \<Rightarrow> (issue_row \<Rightarrow> issue_row) \<Rightarrow> bead_db \<Rightarrow> bead_db" where
  "set_row i f db = db\<lparr> db_issues := map (\<lambda>r. if ir_id r = i then f r else r) (db_issues db) \<rparr>"

definition touch :: "string \<Rightarrow> string \<Rightarrow> bead_db \<Rightarrow> bead_db" where
  "touch now i db = set_row i (\<lambda>r. r\<lparr> ir_updated_at := now \<rparr>) db"

section \<open>Opening a store\<close>

definition canonical_status :: "string \<Rightarrow> string" where
  "canonical_status s = state_display (state_of_str s)"

definition canonicalize_statuses :: "bead_db \<Rightarrow> bead_db" where
  "canonicalize_statuses db =
     foldl (\<lambda>d raw. if canonical_status raw \<noteq> raw
         then d\<lparr> db_issues := map (\<lambda>r. if ir_status r = raw then r\<lparr> ir_status := canonical_status raw \<rparr> else r) (db_issues d) \<rparr>
         else d)
       db (remdups (map ir_status (db_issues db)))"

text \<open>
  \<open>connect\<close> refuses to create a database beside a Dolt store; otherwise it adds the tables and columns
  that are missing and makes the statuses canonical.
\<close>

definition connect :: "bool \<Rightarrow> bead_db option \<Rightarrow> bead_db option" where
  "connect is_dolt_backed file =
     (if file = None \<and> is_dolt_backed then None
      else Some (canonicalize_statuses (case file of None \<Rightarrow> empty_db | Some db \<Rightarrow> db)))"

text \<open>
  \<open>connect_bead_store\<close>: what the artifacts of a directory lead to. The flag says that the directory holds a
  store that cannot be read, which is warned about; the connection to a Dolt server is not modelled.
\<close>

datatype opened = Refused | OpenDolt | OpenSqlite bool bead_db

definition connect_bead_store :: "bool \<Rightarrow> bool \<Rightarrow> bead_db option \<Rightarrow> opened" where
  "connect_bead_store has_dolt has_embedded file =
     (let backend = detect_backend has_dolt (file \<noteq> None) has_embedded in
      case backend of
        BothStores \<Rightarrow> Refused
      | Dolt \<Rightarrow> OpenDolt
      | _ \<Rightarrow> (case connect has_dolt file of
                None \<Rightarrow> Refused
              | Some db \<Rightarrow> OpenSqlite (backend = UnreadableEmbeddedOnly) db))"

section \<open>Notes\<close>

text \<open>The notes column holds an object with the files, the test files and the provenance of a bead.\<close>

definition json_strings :: "string list \<Rightarrow> json" where
  "json_strings xs = JArr (map JStr xs)"

definition json_set :: "json \<Rightarrow> string \<Rightarrow> json \<Rightarrow> json" where
  "json_set v k x = (case v of JObj ms \<Rightarrow> JObj (bt_insert k x ms) | _ \<Rightarrow> v)"

fun is_object :: "json \<Rightarrow> bool" where
  "is_object (JObj ms) = True"
| "is_object _ = False"

definition parse_files_from_notes :: "json option \<Rightarrow> string list \<times> string list" where
  "parse_files_from_notes notes =
     (case notes of None \<Rightarrow> ([], []) | Some v \<Rightarrow> (get_strings v ''files'', get_strings v ''test_files''))"

definition parse_derived_from_notes :: "json option \<Rightarrow> provenance_ref list" where
  "parse_derived_from_notes notes =
     (case Option.bind (Option.bind notes (\<lambda>v. json_get v ''derived_from'')) provs_of_json of
        None \<Rightarrow> [] | Some ps \<Rightarrow> ps)"

section \<open>Reading beads\<close>

text \<open>\<open>BEAD_COUNT_JOINS\<close>: the open blockers that are no epics, the dependents, and the comments.\<close>

definition open_blocker :: "issue_row \<Rightarrow> bool" where
  "open_blocker r \<longleftrightarrow> ir_status r \<notin> {''closed'', ''done''} \<and> ir_issue_type r \<noteq> ''epic''"

definition dependency_count :: "bead_db \<Rightarrow> string \<Rightarrow> nat" where
  "dependency_count db i =
     length (filter (\<lambda>d. dr_issue d = i \<and> (case row_of db (dr_target d) of None \<Rightarrow> False | Some r \<Rightarrow> open_blocker r))
       (db_deps db))"

definition dependent_count :: "bead_db \<Rightarrow> string \<Rightarrow> nat" where
  "dependent_count db i = length (filter (\<lambda>d. dr_target d = i) (db_deps db))"

definition comment_count :: "bead_db \<Rightarrow> string \<Rightarrow> nat" where
  "comment_count db i = length (filter (\<lambda>c. cr_issue c = i) (db_comments db))"

text \<open>The count in the two searches: a dependency on a bead that is not in the store counts too.\<close>

definition search_dependency_count :: "bead_db \<Rightarrow> string \<Rightarrow> nat" where
  "search_dependency_count db i =
     length (filter (\<lambda>d. dr_issue d = i \<and> (case row_of db (dr_target d) of None \<Rightarrow> True | Some r \<Rightarrow> open_blocker r))
       (db_deps db))"

definition bead_from_row :: "(string \<Rightarrow> int option) \<Rightarrow> nat \<Rightarrow> nat \<Rightarrow> nat \<Rightarrow> string \<Rightarrow> issue_row \<Rightarrow> bead option" where
  "bead_from_row parse dependency_cnt dependent_cnt comment_cnt repo r =
     (case (parse (ir_created_at r), parse (ir_updated_at r)) of
        (Some created, Some updated) \<Rightarrow>
          Some \<lparr> b_id = ir_id r, b_title = ir_title r,
                 b_description = (case ir_description r of None \<Rightarrow> [] | Some d \<Rightarrow> d),
                 b_status = ir_status r,
                 b_priority = (if - (2 ^ 31) \<le> ir_priority r \<and> ir_priority r < 2 ^ 31
                               then nat (ir_priority r mod 256) else 2),
                 b_issue_type = ir_issue_type r,
                 b_owner = ir_assignee r,
                 b_repo = repo,
                 b_created_at = created, b_updated_at = updated,
                 b_dependency_count = dependency_cnt, b_dependent_count = dependent_cnt,
                 b_comment_count = comment_cnt,
                 b_branch = None, b_pr_url = None, b_jj_change_id = None,
                 b_external_ref = ir_external_ref r,
                 b_files = fst (parse_files_from_notes (ir_notes r)),
                 b_test_files = snd (parse_files_from_notes (ir_notes r)),
                 b_created_by = ir_created_by r,
                 b_scope = ir_scope r,
                 b_derived_from = parse_derived_from_notes (ir_notes r),
                 b_acceptance_criteria = (case ir_acceptance_criteria r of None \<Rightarrow> [] | Some a \<Rightarrow> a) \<rparr>
      | _ \<Rightarrow> None)"

definition read_bead :: "(string \<Rightarrow> int option) \<Rightarrow> bead_db \<Rightarrow> string \<Rightarrow> issue_row \<Rightarrow> bead option" where
  "read_bead parse db repo r =
     bead_from_row parse (dependency_count db (ir_id r)) (dependent_count db (ir_id r)) (comment_count db (ir_id r))
       repo r"

text \<open>\<open>ORDER BY i.priority ASC, i.created_at DESC\<close>\<close>

definition descending :: "('a \<Rightarrow> 'k::linorder) \<Rightarrow> 'a list \<Rightarrow> 'a list" where
  "descending k xs = rev (sort_key k (rev xs))"

definition bead_read_order :: "issue_row list \<Rightarrow> issue_row list" where
  "bead_read_order rs = sort_key ir_priority (descending ir_created_at rs)"

text \<open>Triage skips a row that cannot be read; an export fails.\<close>

definition is_listed :: "issue_row \<Rightarrow> bool" where
  "is_listed r \<longleftrightarrow> ir_status r \<notin> {''closed'', ''done''}"

definition db_list_beads :: "(string \<Rightarrow> int option) \<Rightarrow> bead_db \<Rightarrow> string \<Rightarrow> bead list" where
  "db_list_beads parse db repo =
     List.map_filter (read_bead parse db repo) (bead_read_order (filter is_listed (db_issues db)))"

definition list_all_beads :: "(string \<Rightarrow> int option) \<Rightarrow> bead_db \<Rightarrow> string \<Rightarrow> store_error + bead list" where
  "list_all_beads parse db repo =
     (case read_all (read_bead parse db repo) (bead_read_order (db_issues db)) of
        None \<Rightarrow> Inl UnreadableRow | Some bs \<Rightarrow> Inr bs)"

definition list_beads_scoped :: "(string \<Rightarrow> int option) \<Rightarrow> bead_db \<Rightarrow> string \<Rightarrow> string option \<Rightarrow> bead list" where
  "list_beads_scoped parse db repo user_id =
     (case user_id of
        None \<Rightarrow> db_list_beads parse db repo
      | Some u \<Rightarrow> List.map_filter (read_bead parse db repo)
          (bead_read_order (filter (\<lambda>r. is_listed r \<and> ir_user_id r = Some u) (db_issues db))))"

definition get_bead :: "(string \<Rightarrow> int option) \<Rightarrow> bead_db \<Rightarrow> string \<Rightarrow> string \<Rightarrow> store_error + bead option" where
  "get_bead parse db i repo =
     (case resolve_id db i of
        Inl _ \<Rightarrow> Inr None
      | Inr full \<Rightarrow>
          (case row_of db full of
             None \<Rightarrow> Inr None
           | Some r \<Rightarrow> (case read_bead parse db repo r of None \<Rightarrow> Inl UnreadableRow | Some b \<Rightarrow> Inr (Some b))))"

definition get_status :: "bead_db \<Rightarrow> string \<Rightarrow> string option" where
  "get_status db i =
     (case resolve_id db i of Inl _ \<Rightarrow> None | Inr full \<Rightarrow> map_option ir_status (row_of db full))"

text \<open>Every word must be in the title, the description, the identifier or a comment that is not deleted.\<close>

definition word_matches :: "bead_db \<Rightarrow> issue_row \<Rightarrow> string \<Rightarrow> bool" where
  "word_matches db r w =
     (let pattern = ''%'' @ to_lowercase w @ ''%'' in
      like pattern (to_lowercase (ir_title r))
      \<or> (case ir_description r of None \<Rightarrow> False | Some d \<Rightarrow> like pattern (to_lowercase d))
      \<or> like pattern (ir_id r)
      \<or> (\<exists>c \<in> set (db_comments db). cr_issue c = ir_id r \<and> cr_deleted_at c = None
            \<and> like pattern (to_lowercase (cr_text c))))"

definition read_searched :: "(string \<Rightarrow> int option) \<Rightarrow> bead_db \<Rightarrow> string \<Rightarrow> issue_row \<Rightarrow> bead option" where
  "read_searched parse db repo r =
     bead_from_row parse (search_dependency_count db (ir_id r)) (dependent_count db (ir_id r))
       (comment_count db (ir_id r)) repo r"

definition search_beads :: "(string \<Rightarrow> int option) \<Rightarrow> bead_db \<Rightarrow> string \<Rightarrow> string \<Rightarrow> nat \<Rightarrow> bead list" where
  "search_beads parse db query repo limit =
     List.map_filter (read_searched parse db repo)
       (take limit (bead_read_order
          (filter (\<lambda>r. list_all (word_matches db r) (split_whitespace query)) (db_issues db))))"

text \<open>
  \<open>fts\<close> is the MATCH operator of the full-text index: the rows that match a query, in the order of their
  rank.
\<close>

definition fts_query :: "string \<Rightarrow> string" where
  "fts_query query =
     join_with '' '' (map (\<lambda>w. CHR 0x22 # filter (\<lambda>c. c \<noteq> CHR 0x22) w @ [CHR 0x22]) (split_whitespace query))"

definition search_beads_fts :: "(string \<Rightarrow> int option) \<Rightarrow> (string \<Rightarrow> fts_row list \<Rightarrow> fts_row list)
    \<Rightarrow> bead_db \<Rightarrow> string \<Rightarrow> string \<Rightarrow> nat \<Rightarrow> bead list" where
  "search_beads_fts parse fts db query repo limit =
     (if fts_query query = [] then []
      else List.map_filter (read_searched parse db repo)
        (take limit (List.map_filter (\<lambda>(i, _). row_of db i) (fts (fts_query query) (db_fts db)))))"

section \<open>Creating and changing beads\<close>

record new_bead =
  nb_id :: string
  nb_title :: string
  nb_description :: string
  nb_priority :: nat
  nb_issue_type :: string
  nb_owner :: string
  nb_files :: "string list"
  nb_test_files :: "string list"
  nb_depends_on :: "string list"
  nb_created_by :: "string option"
  nb_scope :: string
  nb_derived_from :: "provenance_ref list"
  nb_acceptance_criteria :: string

definition default_new_bead :: new_bead where
  "default_new_bead = \<lparr> nb_id = [], nb_title = [], nb_description = [], nb_priority = 2, nb_issue_type = ''task'',
     nb_owner = [], nb_files = [], nb_test_files = [], nb_depends_on = [], nb_created_by = None, nb_scope = [],
     nb_derived_from = [], nb_acceptance_criteria = [] \<rparr>"

definition insert_or_ignore :: "string \<Rightarrow> string \<Rightarrow> dep_row list \<Rightarrow> dep_row list" where
  "insert_or_ignore i t ds =
     (if \<exists>d \<in> set ds. dr_issue d = i \<and> dr_target d = t then ds
      else ds @ [\<lparr> dr_issue = i, dr_target = t, dr_type = ''blocks'' \<rparr>])"

text \<open>One transaction: an identifier that is taken fails it as a whole.\<close>

definition create_bead_full :: "string \<Rightarrow> new_bead \<Rightarrow> bead_db \<Rightarrow> store_error + bead_db" where
  "create_bead_full now b db =
     (let title = scrub_and_warn (nb_title b); description = scrub_and_warn (nb_description b); i = nb_id b in
      if row_of db i \<noteq> None then Inl (DuplicateKey i)
      else
        (let db1 = db\<lparr> db_issues := db_issues db @
               [\<lparr> ir_id = i, ir_title = title, ir_description = Some description,
                  ir_acceptance_criteria = Some (nb_acceptance_criteria b), ir_notes = None, ir_status = ''open'',
                  ir_priority = int (nb_priority b), ir_issue_type = nb_issue_type b, ir_assignee = None,
                  ir_external_ref = None, ir_user_id = None, ir_created_by = nb_created_by b,
                  ir_scope = nb_scope b, ir_created_at = now, ir_updated_at = now \<rparr>] \<rparr>;
             db2 = (if nb_owner b = [] then db1
                    else set_row i (\<lambda>r. r\<lparr> ir_assignee := Some (nb_owner b), ir_updated_at := now \<rparr>) db1);
             notes = JObj [(''derived_from'', JArr (map prov_to_json (nb_derived_from b))),
                           (''files'', json_strings (nb_files b)), (''test_files'', json_strings (nb_test_files b))];
             db3 = (if nb_files b = [] \<and> nb_test_files b = [] \<and> nb_derived_from b = [] then db2
                    else set_row i (\<lambda>r. r\<lparr> ir_notes := Some notes, ir_updated_at := now \<rparr>) db2);
             db4 = db3\<lparr> db_deps := foldl (\<lambda>ds t. insert_or_ignore i t ds) (db_deps db3) (nb_depends_on b) \<rparr>
         in Inr (db4\<lparr> db_fts := db_fts db4 @ [(i, title, Some description)] \<rparr>)))"

text \<open>The update of a column that is given, with the name of the field.\<close>

definition update_column :: "string \<Rightarrow> string \<Rightarrow> string \<Rightarrow> 'a option \<Rightarrow> ('a \<Rightarrow> issue_row \<Rightarrow> issue_row)
    \<Rightarrow> bead_db \<times> string list \<Rightarrow> bead_db \<times> string list" where
  "update_column now i field v f dn =
     (case v of
        None \<Rightarrow> dn
      | Some x \<Rightarrow> (set_row i (\<lambda>r. (f x r)\<lparr> ir_updated_at := now \<rparr>) (fst dn), snd dn @ [field]))"

text \<open>The notes with new files, the other members kept.\<close>

definition notes_with_files :: "json option \<Rightarrow> string list option \<Rightarrow> string list option \<Rightarrow> json" where
  "notes_with_files existing files test_files =
     (let old = (case existing of None \<Rightarrow> JObj [] | Some v \<Rightarrow> v);
          kept = (\<lambda>k. case json_get old k of None \<Rightarrow> JArr [] | Some v \<Rightarrow> v);
          files_val = (case files of None \<Rightarrow> kept ''files'' | Some fs \<Rightarrow> json_strings fs);
          test_files_val = (case test_files of None \<Rightarrow> kept ''test_files'' | Some fs \<Rightarrow> json_strings fs);
          notes = (if is_object old then old else JObj [])
      in json_set (json_set notes ''files'' files_val) ''test_files'' test_files_val)"

definition update_files :: "string \<Rightarrow> string \<Rightarrow> bead_update \<Rightarrow> bead_db \<times> string list \<Rightarrow> bead_db \<times> string list" where
  "update_files now i u dn =
     (if u_files u = None \<and> u_test_files u = None then dn
      else (set_row i (\<lambda>r. r\<lparr> ir_notes := Some (notes_with_files (ir_notes r) (u_files u) (u_test_files u)),
                           ir_updated_at := now \<rparr>) (fst dn),
            snd dn @ (if u_files u \<noteq> None then [''files''] else [])
              @ (if u_test_files u \<noteq> None then [''test_files''] else [])))"

text \<open>The index row of a bead is deleted and made anew.\<close>

definition resync_fts :: "string \<Rightarrow> bead_db \<Rightarrow> bead_db" where
  "resync_fts i db =
     db\<lparr> db_fts := filter (\<lambda>(j, _). j \<noteq> i) (db_fts db)
           @ map (\<lambda>r. (ir_id r, ir_title r, ir_description r)) (filter (\<lambda>r. ir_id r = i) (db_issues db)) \<rparr>"

definition update_bead_fields :: "string \<Rightarrow> string \<Rightarrow> bead_update \<Rightarrow> bead_db \<Rightarrow> store_error + bead_db \<times> string list" where
  "update_bead_fields now bead_id u db =
     (case resolve_id db bead_id of
        Inl e \<Rightarrow> Inl e
      | Inr i \<Rightarrow>
          (let dn1 = update_column now i ''title'' (map_option scrub_and_warn (u_title u)) (\<lambda>x r. r\<lparr> ir_title := x \<rparr>) (db, []);
               dn2 = update_column now i ''description'' (map_option scrub_and_warn (u_description u))
                       (\<lambda>x r. r\<lparr> ir_description := Some x \<rparr>) dn1;
               dn3 = update_column now i ''priority'' (u_priority u) (\<lambda>x r. r\<lparr> ir_priority := int x \<rparr>) dn2;
               dn4 = update_column now i ''issue_type'' (u_issue_type u) (\<lambda>x r. r\<lparr> ir_issue_type := x \<rparr>) dn3;
               dn5 = update_column now i ''owner'' (u_owner u) (\<lambda>x r. r\<lparr> ir_assignee := Some x \<rparr>) dn4;
               dn6 = update_column now i ''acceptance_criteria'' (u_acceptance_criteria u)
                       (\<lambda>x r. r\<lparr> ir_acceptance_criteria := Some x \<rparr>) dn5;
               (db7, updated) = update_files now i u dn6
           in Inr (if ''title'' \<in> set updated \<or> ''description'' \<in> set updated then resync_fts i db7 else db7, updated)))"

definition set_files :: "string \<Rightarrow> string \<Rightarrow> string list \<Rightarrow> string list \<Rightarrow> bead_db \<Rightarrow> store_error + bead_db" where
  "set_files now bead_id files test_files db =
     with_bead db bead_id (\<lambda>i. Inr (set_row i (\<lambda>r.
       (let notes = (case ir_notes r of None \<Rightarrow> JObj [] | Some v \<Rightarrow> if is_object v then v else JObj [])
        in r\<lparr> ir_notes := Some (json_set (json_set notes ''files'' (json_strings files))
                               ''test_files'' (json_strings test_files)),
              ir_updated_at := now \<rparr>)) db))"

definition set_assignee :: "string \<Rightarrow> string \<Rightarrow> string \<Rightarrow> bead_db \<Rightarrow> store_error + bead_db" where
  "set_assignee now bead_id assignee db =
     with_bead db bead_id (\<lambda>i. Inr (set_row i (\<lambda>r. r\<lparr> ir_assignee := Some assignee, ir_updated_at := now \<rparr>) db))"

definition set_user_id :: "string \<Rightarrow> string \<Rightarrow> bead_db \<Rightarrow> store_error + bead_db" where
  "set_user_id bead_id user_id db =
     with_bead db bead_id (\<lambda>i. Inr (set_row i (\<lambda>r. r\<lparr> ir_user_id := Some user_id \<rparr>) db))"

section \<open>Statuses\<close>

definition restore_status :: "string \<Rightarrow> string \<Rightarrow> string \<Rightarrow> bead_db \<Rightarrow> store_error + bead_db" where
  "restore_status now bead_id status db =
     with_bead db bead_id (\<lambda>i.
       Inr (set_row i (\<lambda>r. r\<lparr> ir_status := canonical_status status, ir_updated_at := now \<rparr>) db))"

definition set_status_verbatim :: "string \<Rightarrow> string \<Rightarrow> string \<Rightarrow> bead_db \<Rightarrow> store_error + bead_db" where
  "set_status_verbatim now bead_id status db = restore_status now bead_id (canonical_status status) db"

definition update_status :: "string \<Rightarrow> string \<Rightarrow> string \<Rightarrow> bead_db \<Rightarrow> store_error + bead_db" where
  "update_status now bead_id status db =
     with_bead db bead_id (\<lambda>i.
       case row_of db i of
         None \<Rightarrow> Inl (NotFound bead_id)
       | Some r \<Rightarrow>
           (let current = state_of_str (ir_status r); nxt = state_of_str status in
            if \<not> can_transition_to current nxt then Inl (InvalidTransition current nxt bead_id)
            else Inr (set_row i (\<lambda>r. r\<lparr> ir_status := state_display nxt, ir_updated_at := now \<rparr>) db)))"

definition close_bead :: "string \<Rightarrow> string \<Rightarrow> bead_db \<Rightarrow> store_error + bead_db" where
  "close_bead now bead_id db =
     with_bead db bead_id (\<lambda>i. Inr (set_row i (\<lambda>r. r\<lparr> ir_status := ''done'', ir_updated_at := now \<rparr>) db))"

text \<open>\<open>created\<close> and \<open>updated\<close> are the texts the instants are formatted to.\<close>

definition restore_timestamps :: "string \<Rightarrow> string \<Rightarrow> string \<Rightarrow> bead_db \<Rightarrow> store_error + bead_db" where
  "restore_timestamps bead_id created updated db =
     with_bead db bead_id (\<lambda>i. Inr (set_row i (\<lambda>r. r\<lparr> ir_created_at := created, ir_updated_at := updated \<rparr>) db))"

section \<open>External references\<close>

definition get_external_ref :: "bead_db \<Rightarrow> string \<Rightarrow> string option" where
  "get_external_ref db bead_id =
     (case resolve_id db bead_id of
        Inl _ \<Rightarrow> None
      | Inr i \<Rightarrow> (case Option.bind (row_of db i) ir_external_ref of
                   None \<Rightarrow> None | Some e \<Rightarrow> if e = [] then None else Some e))"

definition set_external_ref :: "string \<Rightarrow> string \<Rightarrow> string \<Rightarrow> bead_db \<Rightarrow> store_error + bead_db" where
  "set_external_ref now bead_id ext db =
     with_bead db bead_id (\<lambda>i. Inr (set_row i (\<lambda>r. r\<lparr> ir_external_ref := Some ext, ir_updated_at := now \<rparr>) db))"

definition find_by_external_ref :: "bead_db \<Rightarrow> string \<Rightarrow> string option" where
  "find_by_external_ref db ext =
     map_option ir_id (List.find (\<lambda>r. ir_external_ref r = Some ext) (db_issues db))"

definition list_closed_linked_beads :: "(string \<Rightarrow> int option) \<Rightarrow> bead_db \<Rightarrow> string \<Rightarrow> bead list" where
  "list_closed_linked_beads parse db repo =
     List.map_filter (\<lambda>r. bead_from_row parse 0 0 0 repo (r\<lparr> ir_notes := None \<rparr>))
       (take 500 (descending ir_updated_at
          (filter (\<lambda>r. ir_status r = ''closed'' \<and> ir_external_ref r \<notin> {None, Some []}) (db_issues db))))"

section \<open>Dependencies\<close>

text \<open>The pair of the two beads is the key: an edge that is there gets the new type.\<close>

definition upsert_dep :: "string \<Rightarrow> string \<Rightarrow> string \<Rightarrow> dep_row list \<Rightarrow> dep_row list" where
  "upsert_dep i t ty ds =
     (if \<exists>d \<in> set ds. dr_issue d = i \<and> dr_target d = t
      then map (\<lambda>d. if dr_issue d = i \<and> dr_target d = t then d\<lparr> dr_type := ty \<rparr> else d) ds
      else ds @ [\<lparr> dr_issue = i, dr_target = t, dr_type = ty \<rparr>])"

definition with_edge :: "bead_db \<Rightarrow> string \<Rightarrow> string \<Rightarrow> (string \<Rightarrow> string \<Rightarrow> bead_db) \<Rightarrow> store_error + bead_db" where
  "with_edge db issue_id depends_on_id f =
     with_bead db issue_id (\<lambda>i. with_bead db depends_on_id (\<lambda>t. Inr (f i t)))"

definition add_dependency_typed :: "string \<Rightarrow> string \<Rightarrow> string \<Rightarrow> string \<Rightarrow> bead_db \<Rightarrow> store_error + bead_db" where
  "add_dependency_typed now issue_id depends_on_id dep_type db =
     with_edge db issue_id depends_on_id
       (\<lambda>i t. touch now i (db\<lparr> db_deps := upsert_dep i t dep_type (db_deps db) \<rparr>))"

definition add_dependency :: "string \<Rightarrow> string \<Rightarrow> string \<Rightarrow> bead_db \<Rightarrow> store_error + bead_db" where
  "add_dependency now issue_id depends_on_id db = add_dependency_typed now issue_id depends_on_id ''blocks'' db"

definition remove_dependency :: "string \<Rightarrow> string \<Rightarrow> string \<Rightarrow> bead_db \<Rightarrow> store_error + bead_db" where
  "remove_dependency now issue_id depends_on_id db =
     with_edge db issue_id depends_on_id
       (\<lambda>i t. touch now i (db\<lparr> db_deps := filter (\<lambda>d. \<not> (dr_issue d = i \<and> dr_target d = t)) (db_deps db) \<rparr>))"

definition select_deps :: "bead_db \<Rightarrow> string \<Rightarrow> (string \<Rightarrow> dep_row \<Rightarrow> bool) \<Rightarrow> dep_row list" where
  "select_deps db issue_id p =
     (case resolve_id db issue_id of Inl _ \<Rightarrow> [] | Inr i \<Rightarrow> filter (p i) (db_deps db))"

definition get_children :: "bead_db \<Rightarrow> string \<Rightarrow> string list" where
  "get_children db issue_id =
     map dr_issue (select_deps db issue_id
       (\<lambda>i d. dr_target d = i \<and> dr_type d \<in> {''parent-child'', ''discovered-from''}))"

definition get_dependencies :: "bead_db \<Rightarrow> string \<Rightarrow> string list" where
  "get_dependencies db issue_id = map dr_target (select_deps db issue_id (\<lambda>i d. dr_issue d = i))"

definition get_dependencies_typed :: "bead_db \<Rightarrow> string \<Rightarrow> (string \<times> string) list" where
  "get_dependencies_typed db issue_id =
     map (\<lambda>d. (dr_target d, dr_type d)) (select_deps db issue_id (\<lambda>i d. dr_issue d = i))"

definition get_dependents :: "bead_db \<Rightarrow> string \<Rightarrow> string list" where
  "get_dependents db issue_id = map dr_issue (select_deps db issue_id (\<lambda>i d. dr_target d = i))"

text \<open>The two writes for restores take the identifiers as they are.\<close>

definition restore_dependency_typed :: "string \<Rightarrow> string \<Rightarrow> string \<Rightarrow> bead_db \<Rightarrow> bead_db" where
  "restore_dependency_typed issue_id depends_on_id dep_type db =
     db\<lparr> db_deps := upsert_dep issue_id depends_on_id dep_type (db_deps db) \<rparr>"

text \<open>A plain INSERT: a target that is given twice violates the key and rolls the transaction back.\<close>

definition replace_dependencies :: "string \<Rightarrow> (string \<times> string) list \<Rightarrow> bead_db \<Rightarrow> store_error + bead_db" where
  "replace_dependencies issue_id deps db =
     (if distinct (map fst deps)
      then Inr (db\<lparr> db_deps := filter (\<lambda>d. dr_issue d \<noteq> issue_id) (db_deps db)
                   @ map (\<lambda>(t, ty). \<lparr> dr_issue = issue_id, dr_target = t, dr_type = ty \<rparr>) deps \<rparr>)
      else Inl (DuplicateKey issue_id))"

section \<open>Comments\<close>

record comment =
  cm_id :: string
  cm_issue_id :: string
  cm_text :: string
  cm_author :: string
  cm_created_at :: int
  cm_edited_at :: "int option"
  cm_edit_reason :: "string option"
  cm_original_text :: "string option"
  cm_deleted_at :: "int option"
  cm_delete_reason :: "string option"

fun parse_opt :: "(string \<Rightarrow> int option) \<Rightarrow> string option \<Rightarrow> int option option" where
  "parse_opt parse None = Some None"
| "parse_opt parse (Some s) = map_option Some (parse s)"

definition comment_from_row :: "(string \<Rightarrow> int option) \<Rightarrow> comment_row \<Rightarrow> comment option" where
  "comment_from_row parse c =
     (case (parse (cr_created_at c), parse_opt parse (cr_edited_at c), parse_opt parse (cr_deleted_at c)) of
        (Some created, Some edited, Some deleted) \<Rightarrow>
          Some \<lparr> cm_id = show_nat (cr_id c), cm_issue_id = cr_issue c, cm_text = cr_text c,
                 cm_author = cr_author c, cm_created_at = created, cm_edited_at = edited,
                 cm_edit_reason = cr_edit_reason c, cm_original_text = cr_original_text c,
                 cm_deleted_at = deleted, cm_delete_reason = cr_delete_reason c \<rparr>
      | _ \<Rightarrow> None)"

definition add_comment :: "string \<Rightarrow> string \<Rightarrow> string \<Rightarrow> string \<Rightarrow> bead_db \<Rightarrow> store_error + bead_db" where
  "add_comment now issue_id body author db =
     (let body = scrub_and_warn body in
      with_bead db issue_id (\<lambda>i.
        let c = \<lparr> cr_id = db_next_comment db, cr_issue = i, cr_text = body, cr_author = author, cr_created_at = now,
                  cr_edited_at = None, cr_edit_reason = None, cr_original_text = None, cr_deleted_at = None,
                  cr_delete_reason = None \<rparr>
        in Inr (touch now i (db\<lparr> db_comments := db_comments db @ [c], db_next_comment := db_next_comment db + 1 \<rparr>))))"

definition list_comments :: "(string \<Rightarrow> int option) \<Rightarrow> bead_db \<Rightarrow> string \<Rightarrow> bool \<Rightarrow> store_error + comment list" where
  "list_comments parse db issue_id include_deleted =
     (case resolve_id db issue_id of
        Inl e \<Rightarrow> Inl e
      | Inr i \<Rightarrow> Inr (List.map_filter (comment_from_row parse)
          (sort_key cr_created_at (sort_key cr_id
             (filter (\<lambda>c. cr_issue c = i \<and> (include_deleted \<or> cr_deleted_at c = None)) (db_comments db))))))"

definition set_comment :: "nat \<Rightarrow> (comment_row \<Rightarrow> comment_row) \<Rightarrow> bead_db \<Rightarrow> bead_db" where
  "set_comment n f db = db\<lparr> db_comments := map (\<lambda>c. if cr_id c = n then f c else c) (db_comments db) \<rparr>"

definition comment_of :: "bead_db \<Rightarrow> nat \<Rightarrow> comment_row option" where
  "comment_of db n = List.find (\<lambda>c. cr_id c = n) (db_comments db)"

text \<open>The identifier of a comment is the number of its row. The first edit keeps the text it replaces.\<close>

definition update_comment :: "(string \<Rightarrow> int option) \<Rightarrow> string \<Rightarrow> nat \<Rightarrow> string \<Rightarrow> string option \<Rightarrow> bead_db
    \<Rightarrow> bead_db \<times> (store_error + comment)" where
  "update_comment parse now n body reason db =
     (let body = scrub_and_warn body in
      case comment_of db n of
        None \<Rightarrow> (db, Inl (NoSuchComment n))
      | Some prior \<Rightarrow>
          (let db' = (if cr_original_text prior \<noteq> None
                      then set_comment n (\<lambda>c. c\<lparr> cr_text := body, cr_edited_at := Some now, cr_edit_reason := reason \<rparr>) db
                      else set_comment n (\<lambda>c. c\<lparr> cr_text := body, cr_edited_at := Some now, cr_edit_reason := reason,
                                                  cr_original_text := Some (cr_text prior) \<rparr>) db)
           in (db', case Option.bind (comment_of db' n) (comment_from_row parse) of
                      None \<Rightarrow> Inl UnreadableRow | Some c \<Rightarrow> Inr c)))"

definition delete_comment :: "string \<Rightarrow> nat \<Rightarrow> string option \<Rightarrow> bead_db \<Rightarrow> store_error + bead_db" where
  "delete_comment now n reason db =
     (if comment_of db n = None then Inl (NoSuchComment n)
      else Inr (set_comment n (\<lambda>c. c\<lparr> cr_deleted_at := Some now, cr_delete_reason := reason \<rparr>) db))"

definition hard_delete_comment :: "nat \<Rightarrow> bead_db \<Rightarrow> store_error + bead_db" where
  "hard_delete_comment n db =
     (if comment_of db n = None then Inl (NoSuchComment n)
      else Inr (db\<lparr> db_comments := filter (\<lambda>c. cr_id c \<noteq> n) (db_comments db) \<rparr>))"

section \<open>Events\<close>

text \<open>An identifier that starts with an underscore stands for no bead; an event of an unknown bead is dropped.\<close>

definition log_event :: "string \<Rightarrow> string \<Rightarrow> string \<Rightarrow> string \<Rightarrow> bead_db \<Rightarrow> bead_db" where
  "log_event now issue_id event_type detail db =
     (case (if starts_with issue_id ''_'' then Inr issue_id else resolve_id db issue_id) of
        Inl _ \<Rightarrow> db
      | Inr i \<Rightarrow> db\<lparr> db_events := db_events db @
          [\<lparr> er_issue = i, er_type = event_type, er_comment = detail, er_created_at = now \<rparr>] \<rparr>)"

definition select_events :: "bead_db \<Rightarrow> string \<Rightarrow> string \<Rightarrow> event_row list" where
  "select_events db issue_id event_type =
     (case resolve_id db issue_id of
        Inl _ \<Rightarrow> []
      | Inr i \<Rightarrow> filter (\<lambda>e. er_issue e = i \<and> er_type e = event_type) (db_events db))"

definition get_latest_event :: "bead_db \<Rightarrow> string \<Rightarrow> string \<Rightarrow> string option" where
  "get_latest_event db issue_id event_type =
     (case descending er_created_at (select_events db issue_id event_type) of [] \<Rightarrow> None | e # _ \<Rightarrow> Some (er_comment e))"

definition list_event_details :: "bead_db \<Rightarrow> string \<Rightarrow> string \<Rightarrow> string list" where
  "list_event_details db issue_id event_type =
     map er_comment (sort_key er_created_at (select_events db issue_id event_type))"

section \<open>Operations as steps\<close>

datatype store_op =
    CreateBead new_bead
  | UpdateFields string bead_update
  | SetFiles string "string list" "string list"
  | SetAssignee string string
  | SetUserId string string
  | SetExternalRef string string
  | UpdateStatus string string
  | SetStatusVerbatim string string
  | CloseBead string
  | RestoreTimestamps string string string
  | AddDependency string string string
  | RemoveDependency string string
  | RestoreDependency string string string
  | ReplaceDependencies string "(string \<times> string) list"
  | AddComment string string string
  | UpdateComment nat string "string option"
  | DeleteComment nat "string option"
  | HardDeleteComment nat
  | LogEvent string string string
  | Reopen

definition db_or :: "bead_db \<Rightarrow> store_error + bead_db \<Rightarrow> bead_db" where
  "db_or db r = (case r of Inl _ \<Rightarrow> db | Inr d \<Rightarrow> d)"

text \<open>The store after an operation at a time; one that fails leaves it as it was.\<close>

fun exec_op :: "string \<Rightarrow> store_op \<Rightarrow> bead_db \<Rightarrow> bead_db" where
  "exec_op now (CreateBead b) db = db_or db (create_bead_full now b db)"
| "exec_op now (UpdateFields i u) db = (case update_bead_fields now i u db of Inl _ \<Rightarrow> db | Inr (d, _) \<Rightarrow> d)"
| "exec_op now (SetFiles i fs ts) db = db_or db (set_files now i fs ts db)"
| "exec_op now (SetAssignee i a) db = db_or db (set_assignee now i a db)"
| "exec_op now (SetUserId i u) db = db_or db (set_user_id i u db)"
| "exec_op now (SetExternalRef i e) db = db_or db (set_external_ref now i e db)"
| "exec_op now (UpdateStatus i s) db = db_or db (update_status now i s db)"
| "exec_op now (SetStatusVerbatim i s) db = db_or db (set_status_verbatim now i s db)"
| "exec_op now (CloseBead i) db = db_or db (close_bead now i db)"
| "exec_op now (RestoreTimestamps i c u) db = db_or db (restore_timestamps i c u db)"
| "exec_op now (AddDependency i t ty) db = db_or db (add_dependency_typed now i t ty db)"
| "exec_op now (RemoveDependency i t) db = db_or db (remove_dependency now i t db)"
| "exec_op now (RestoreDependency i t ty) db = restore_dependency_typed i t ty db"
| "exec_op now (ReplaceDependencies i ds) db = db_or db (replace_dependencies i ds db)"
| "exec_op now (AddComment i b a) db = db_or db (add_comment now i b a db)"
| "exec_op now (UpdateComment n b r) db = fst (update_comment (\<lambda>_. None) now n b r db)"
| "exec_op now (DeleteComment n r) db = db_or db (delete_comment now n r db)"
| "exec_op now (HardDeleteComment n) db = db_or db (hard_delete_comment n db)"
| "exec_op now (LogEvent i ty d) db = log_event now i ty d db"
| "exec_op now Reopen db = canonicalize_statuses db"

definition run_ops :: "(string \<times> store_op) list \<Rightarrow> bead_db \<Rightarrow> bead_db" where
  "run_ops ops db = foldl (\<lambda>d (now, op1). exec_op now op1 d) db ops"

end
