(* ===== verification/Store_Invariant.thy ===== *)
theory Store_Invariant
  imports Bead_Store "HOL-Library.Multiset"
begin

text \<open>
  What the operations of the bead store keep true: keys are unique, statuses canonical, stored text is
  free of secrets, and the full-text index mirrors the issues.
\<close>

section \<open>The invariant\<close>

definition notes_ok :: "json option \<Rightarrow> bool" where
  "notes_ok n \<longleftrightarrow> (\<forall>v. n = Some v \<longrightarrow> is_object v)"

definition row_ok :: "issue_row \<Rightarrow> bool" where
  "row_ok r \<longleftrightarrow> canonical_status (ir_status r) = ir_status r \<and> clean (ir_title r)
     \<and> (\<forall>d. ir_description r = Some d \<longrightarrow> clean d) \<and> notes_ok (ir_notes r) \<and> 0 \<le> ir_priority r \<and> ir_priority r < 256"

definition issues_ok :: "bead_db \<Rightarrow> bool" where
  "issues_ok db \<longleftrightarrow> distinct (map ir_id (db_issues db)) \<and> list_all row_ok (db_issues db)"

definition deps_ok :: "bead_db \<Rightarrow> bool" where
  "deps_ok db \<longleftrightarrow> distinct (map (\<lambda>d. (dr_issue d, dr_target d)) (db_deps db))"

definition comment_ok :: "nat \<Rightarrow> comment_row \<Rightarrow> bool" where
  "comment_ok n c \<longleftrightarrow> cr_id c < n \<and> clean (cr_text c) \<and> (\<forall>t. cr_original_text c = Some t \<longrightarrow> clean t)
     \<and> (cr_edited_at c = None \<longleftrightarrow> cr_original_text c = None)"

definition comments_ok :: "bead_db \<Rightarrow> bool" where
  "comments_ok db \<longleftrightarrow> distinct (map cr_id (db_comments db))
     \<and> list_all (comment_ok (db_next_comment db)) (db_comments db)"

definition fts_key :: "issue_row \<Rightarrow> fts_row" where
  "fts_key r = (ir_id r, ir_title r, ir_description r)"

definition fts_ok :: "bead_db \<Rightarrow> bool" where
  "fts_ok db \<longleftrightarrow> mset (db_fts db) = mset (map fts_key (db_issues db))"

definition store_ok :: "bead_db \<Rightarrow> bool" where
  "store_ok db \<longleftrightarrow> issues_ok db \<and> deps_ok db \<and> comments_ok db \<and> fts_ok db"

text \<open>The priorities an operation writes are bytes.\<close>

fun op_typed :: "store_op \<Rightarrow> bool" where
  "op_typed (CreateBead b) \<longleftrightarrow> nb_priority b < 256"
| "op_typed (UpdateFields i u) \<longleftrightarrow> (\<forall>p. u_priority u = Some p \<longrightarrow> p < 256)"
| "op_typed _ \<longleftrightarrow> True"

section \<open>Rows\<close>

lemma canonical_idem [simp]: "canonical_status (canonical_status s) = canonical_status s"
  by (cases "state_of_str s") (auto simp: canonical_status_def state_of_str_def)

lemma canonical_display [simp]: "canonical_status (state_display s) = state_display s"
  by (cases s) (auto simp: canonical_status_def state_of_str_def)

lemma canonical_literals [simp]: "canonical_status ''open'' = ''open''" "canonical_status ''done'' = ''done''"
  "canonical_status ''closed'' = ''done''"
  by (simp_all add: canonical_status_def state_of_str_def)

lemma clean_scrub [simp]: "clean (scrub_and_warn t)"
  by (simp add: scrub_and_warn_def scrub_clean)

lemma row_of_Some: "row_of db i = Some r \<Longrightarrow> r \<in> set (db_issues db) \<and> ir_id r = i"
  by (auto simp: row_of_def find_Some_iff)

lemma row_of_None: "row_of db i = None \<longleftrightarrow> i \<notin> ir_id ` set (db_issues db)"
  by (auto simp: row_of_def find_None_iff)

lemma find_unique: "distinct (map k xs) \<Longrightarrow> x \<in> set xs \<Longrightarrow> List.find (\<lambda>y. k y = k x) xs = Some x"
  by (induction xs) (auto simp: rev_image_eqI)

lemma row_of_unique: "issues_ok db \<Longrightarrow> r \<in> set (db_issues db) \<Longrightarrow> row_of db (ir_id r) = Some r"
  by (simp add: row_of_def issues_ok_def find_unique)

lemma set_row_fields [simp]:
  "db_deps (set_row i f db) = db_deps db" "db_comments (set_row i f db) = db_comments db"
  "db_next_comment (set_row i f db) = db_next_comment db" "db_events (set_row i f db) = db_events db"
  "db_fts (set_row i f db) = db_fts db"
  by (simp_all add: set_row_def)

text \<open>An update of columns that keeps the key.\<close>

definition keeps_id :: "(issue_row \<Rightarrow> issue_row) \<Rightarrow> bool" where
  "keeps_id f \<longleftrightarrow> (\<forall>r. ir_id (f r) = ir_id r)"

lemma set_row_ids [simp]: "keeps_id f \<Longrightarrow> map ir_id (db_issues (set_row i f db)) = map ir_id (db_issues db)"
  by (simp add: set_row_def keeps_id_def)

lemma row_of_set_row:
  "keeps_id f \<Longrightarrow> row_of (set_row i f db) j = (if j = i then map_option f (row_of db i) else row_of db j)"
proof -
  assume k: "keeps_id f"
  have "List.find (\<lambda>r. ir_id r = j) (map (\<lambda>r. if ir_id r = i then f r else r) rs)
      = (if j = i then map_option f (List.find (\<lambda>r. ir_id r = i) rs) else List.find (\<lambda>r. ir_id r = j) rs)" for rs
    using k by (induction rs) (auto simp: keeps_id_def)
  then show ?thesis by (simp add: row_of_def set_row_def)
qed

lemma resolve_set_row [simp]: "keeps_id f \<Longrightarrow> resolve_id (set_row i f db) j = resolve_id db j"
proof -
  assume k: "keeps_id f"
  have "map_option ir_id (row_of (set_row i f db) j) = map_option ir_id (row_of db j)"
    using k by (auto simp: row_of_set_row [OF k] option.map_comp o_def keeps_id_def)
  then have "resolve_id (set_row i f db) j = resolve_id db j"
    using set_row_ids [OF k, of i db] by (auto simp: resolve_id_def split: option.splits)
  then show ?thesis .
qed

lemma issues_set_row:
  assumes "issues_ok db" "keeps_id f" "\<And>r. row_ok r \<Longrightarrow> row_ok (f r)"
  shows "issues_ok (set_row i f db)"
  unfolding issues_ok_def set_row_ids [OF assms(2)]
  using assms by (auto simp: issues_ok_def set_row_def list_all_iff)

section \<open>Preservation\<close>

lemma store_okI: "issues_ok db \<Longrightarrow> deps_ok db \<Longrightarrow> comments_ok db \<Longrightarrow> fts_ok db \<Longrightarrow> store_ok db"
  by (simp add: store_ok_def)

lemma store_okD: "store_ok db \<Longrightarrow> issues_ok db \<and> deps_ok db \<and> comments_ok db \<and> fts_ok db"
  by (simp add: store_ok_def)

lemma parts_cong [simp]:
  "issues_ok (db\<lparr> db_deps := x \<rparr>) = issues_ok db" "issues_ok (db\<lparr> db_comments := y \<rparr>) = issues_ok db"
  "issues_ok (db\<lparr> db_next_comment := n \<rparr>) = issues_ok db" "issues_ok (db\<lparr> db_events := z \<rparr>) = issues_ok db"
  "issues_ok (db\<lparr> db_fts := w \<rparr>) = issues_ok db"
  "fts_ok (db\<lparr> db_deps := x \<rparr>) = fts_ok db" "fts_ok (db\<lparr> db_comments := y \<rparr>) = fts_ok db"
  "fts_ok (db\<lparr> db_next_comment := n \<rparr>) = fts_ok db" "fts_ok (db\<lparr> db_events := z \<rparr>) = fts_ok db"
  "deps_ok (db\<lparr> db_comments := y \<rparr>) = deps_ok db" "deps_ok (db\<lparr> db_next_comment := n \<rparr>) = deps_ok db"
  "deps_ok (db\<lparr> db_events := z \<rparr>) = deps_ok db" "deps_ok (db\<lparr> db_fts := w \<rparr>) = deps_ok db"
  "deps_ok (db\<lparr> db_issues := v \<rparr>) = deps_ok db"
  "comments_ok (db\<lparr> db_deps := x \<rparr>) = comments_ok db" "comments_ok (db\<lparr> db_events := z \<rparr>) = comments_ok db"
  "comments_ok (db\<lparr> db_fts := w \<rparr>) = comments_ok db" "comments_ok (db\<lparr> db_issues := v \<rparr>) = comments_ok db"
  by (simp_all add: issues_ok_def fts_ok_def deps_ok_def comments_ok_def)

lemma set_row_parts [simp]:
  "deps_ok (set_row i f db) = deps_ok db" "comments_ok (set_row i f db) = comments_ok db"
  by (simp_all add: deps_ok_def comments_ok_def)

definition keeps_text :: "(issue_row \<Rightarrow> issue_row) \<Rightarrow> bool" where
  "keeps_text f \<longleftrightarrow> (\<forall>r. fts_key (f r) = fts_key r)"

lemma keeps_text_id: "keeps_text f \<Longrightarrow> keeps_id f"
  by (simp add: keeps_text_def keeps_id_def fts_key_def)

lemma set_row_ok:
  assumes "store_ok db" "keeps_text f" "\<And>r. row_ok r \<Longrightarrow> row_ok (f r)"
  shows "store_ok (set_row i f db)"
proof -
  have "map fts_key (db_issues (set_row i f db)) = map fts_key (db_issues db)"
    using assms(2) by (simp add: set_row_def keeps_text_def)
  then have "fts_ok (set_row i f db)" using store_okD [OF assms(1)] by (simp add: fts_ok_def)
  then show ?thesis
    using store_okD [OF assms(1)] issues_set_row [OF _ keeps_text_id [OF assms(2)] assms(3)] by (simp add: store_ok_def)
qed

lemma or_with_bead: "P db \<Longrightarrow> (\<And>i. P (g i)) \<Longrightarrow> P (db_or db (with_bead db b (\<lambda>i. Inr (g i))))"
  by (simp add: db_or_def with_bead_def split: sum.splits)

lemma or_with_edge: "P db \<Longrightarrow> (\<And>i t. P (g i t)) \<Longrightarrow> P (db_or db (with_edge db b c (\<lambda>i t. g i t)))"
  by (simp add: db_or_def with_edge_def with_bead_def split: sum.splits)

lemma touch_ok: "store_ok db \<Longrightarrow> store_ok (touch now i db)"
  unfolding touch_def by (rule set_row_ok) (auto simp: keeps_text_def fts_key_def row_ok_def)

lemma json_set_object [simp]: "is_object (json_set v k x) = is_object v"
  by (cases v) (auto simp: json_set_def)

lemma notes_with_files_object: "is_object (notes_with_files n fs ts)"
  by (auto simp: notes_with_files_def Let_def)

lemma row_writes_ok:
  assumes "store_ok db"
  shows "store_ok (set_row i (\<lambda>r. r\<lparr> ir_assignee := a, ir_updated_at := now \<rparr>) db)"
    "store_ok (set_row i (\<lambda>r. r\<lparr> ir_user_id := a \<rparr>) db)"
    "store_ok (set_row i (\<lambda>r. r\<lparr> ir_external_ref := a, ir_updated_at := now \<rparr>) db)"
    "canonical_status s = s \<Longrightarrow> store_ok (set_row i (\<lambda>r. r\<lparr> ir_status := s, ir_updated_at := now \<rparr>) db)"
    "store_ok (set_row i (\<lambda>r. r\<lparr> ir_created_at := c, ir_updated_at := now \<rparr>) db)"
    "(\<And>r. is_object (n r)) \<Longrightarrow> store_ok (set_row i (\<lambda>r. r\<lparr> ir_notes := Some (n r), ir_updated_at := now \<rparr>) db)"
  by (rule set_row_ok [OF assms]; simp add: keeps_text_def fts_key_def row_ok_def notes_ok_def)+

lemma statuses_ok:
  assumes "store_ok db"
  shows "store_ok (db_or db (restore_status now i s db))" "store_ok (db_or db (close_bead now i db))"
    "store_ok (db_or db (update_status now i s db))"
proof -
  show "store_ok (db_or db (restore_status now i s db))" "store_ok (db_or db (close_bead now i db))"
    unfolding restore_status_def close_bead_def by (rule or_with_bead; simp add: assms row_writes_ok)+
  show "store_ok (db_or db (update_status now i s db))"
    using assms by (auto simp: update_status_def db_or_def with_bead_def Let_def row_writes_ok
        split: sum.splits option.splits)
qed

lemma set_files_ok: "store_ok db \<Longrightarrow> store_ok (db_or db (set_files now i fs ts db))"
  unfolding set_files_def Let_def
  by (rule or_with_bead, assumption, rule row_writes_ok(6)) (auto split: option.splits)

lemma deps_upsert: "distinct (map (\<lambda>d. (dr_issue d, dr_target d)) ds)
    \<Longrightarrow> distinct (map (\<lambda>d. (dr_issue d, dr_target d)) (upsert_dep i t ty ds))"
proof -
  have keep: "map (\<lambda>d. (dr_issue d, dr_target d)) (map (\<lambda>d. if dr_issue d = i \<and> dr_target d = t then d\<lparr> dr_type := ty \<rparr> else d) ds)
      = map (\<lambda>d. (dr_issue d, dr_target d)) ds"
    by simp
  then show "distinct (map (\<lambda>d. (dr_issue d, dr_target d)) ds)
    \<Longrightarrow> distinct (map (\<lambda>d. (dr_issue d, dr_target d)) (upsert_dep i t ty ds))"
    by (auto simp: upsert_dep_def keep simp del: map_map)
qed

lemma deps_insert: "distinct (map (\<lambda>d. (dr_issue d, dr_target d)) ds)
    \<Longrightarrow> distinct (map (\<lambda>d. (dr_issue d, dr_target d)) (foldl (\<lambda>ds t. insert_or_ignore i t ds) ds ts))"
proof (induction ts arbitrary: ds)
  case (Cons t ts)
  have "distinct (map (\<lambda>d. (dr_issue d, dr_target d)) (insert_or_ignore i t ds))"
    using Cons.prems by (auto simp: insert_or_ignore_def)
  then show ?case using Cons.IH by simp
qed simp

lemma dependencies_ok:
  assumes "store_ok db"
  shows "store_ok (db_or db (add_dependency_typed now i t ty db))" "store_ok (db_or db (remove_dependency now i t db))"
    "store_ok (restore_dependency_typed i t ty db)" "store_ok (db_or db (replace_dependencies i ds db))"
proof -
  have upd: "store_ok (db\<lparr> db_deps := x \<rparr>)" if "distinct (map (\<lambda>d. (dr_issue d, dr_target d)) x)" for x
    using assms that by (simp add: store_ok_def deps_ok_def)
  have d: "distinct (map (\<lambda>d. (dr_issue d, dr_target d)) (db_deps db))" using assms by (simp add: store_ok_def deps_ok_def)
  show "store_ok (db_or db (add_dependency_typed now i t ty db))" "store_ok (db_or db (remove_dependency now i t db))"
    unfolding add_dependency_typed_def remove_dependency_def
    by (rule or_with_edge; simp add: assms touch_ok upd deps_upsert d distinct_map_filter)+
  show "store_ok (restore_dependency_typed i t ty db)"
    unfolding restore_dependency_typed_def by (intro upd deps_upsert d)
  show "store_ok (db_or db (replace_dependencies i ds db))"
    using assms d by (auto simp: replace_dependencies_def db_or_def distinct_map_filter distinct_map inj_on_def
        case_prod_unfold o_def intro!: upd)
qed

lemma set_comment_ok:
  assumes "store_ok db" "\<And>c. cr_id (f c) = cr_id c"
    and "\<And>c. c \<in> set (db_comments db) \<Longrightarrow> cr_id c = n \<Longrightarrow> comment_ok (db_next_comment db) c \<Longrightarrow> comment_ok (db_next_comment db) (f c)"
  shows "store_ok (set_comment n f db)"
proof -
  have "map cr_id (db_comments (set_comment n f db)) = map cr_id (db_comments db)"
    using assms(2) by (simp add: set_comment_def)
  moreover have "list_all (comment_ok (db_next_comment db)) (db_comments (set_comment n f db))"
    using store_okD [OF assms(1)] assms(3) by (auto simp: comments_ok_def set_comment_def list_all_iff)
  moreover have "db_next_comment (set_comment n f db) = db_next_comment db" by (simp add: set_comment_def)
  ultimately have "comments_ok (set_comment n f db)"
    using store_okD [OF assms(1)] by (simp add: comments_ok_def)
  then show ?thesis using store_okD [OF assms(1)] by (simp add: store_ok_def set_comment_def)
qed

lemma comment_of_Some: "comment_of db n = Some c \<Longrightarrow> c \<in> set (db_comments db) \<and> cr_id c = n"
  by (auto simp: comment_of_def find_Some_iff)

lemma comment_of_unique: "comments_ok db \<Longrightarrow> c \<in> set (db_comments db) \<Longrightarrow> comment_of db (cr_id c) = Some c"
  by (simp add: comment_of_def comments_ok_def find_unique)

lemma add_comment_ok: "store_ok db \<Longrightarrow> store_ok (db_or db (add_comment now i b a db))"
  unfolding add_comment_def Let_def
proof (rule or_with_bead, assumption, rule touch_ok, rule store_okI)
  fix j
  assume db: "store_ok db"
  let ?c = "\<lparr> cr_id = db_next_comment db, cr_issue = j, cr_text = scrub_and_warn b, cr_author = a, cr_created_at = now,
    cr_edited_at = None, cr_edit_reason = None, cr_original_text = None, cr_deleted_at = None, cr_delete_reason = None \<rparr>"
  show "comments_ok (db\<lparr> db_comments := db_comments db @ [?c], db_next_comment := db_next_comment db + 1 \<rparr>)"
    using store_okD [OF db] by (auto simp: comments_ok_def comment_ok_def list_all_iff less_Suc_eq)
qed (simp_all add: store_ok_def)

lemma edit_comments_ok:
  assumes "store_ok db"
  shows "store_ok (fst (update_comment parse now n b r db))" "store_ok (db_or db (delete_comment now n r db))"
    "store_ok (db_or db (hard_delete_comment n db))"
proof -
  show "store_ok (fst (update_comment parse now n b r db))"
  proof (cases "comment_of db n")
    case (Some prior)
    have p: "prior \<in> set (db_comments db)" "cr_id prior = n" using comment_of_Some [OF Some] by auto
    then have prior: "comment_ok (db_next_comment db) prior"
      using store_okD [OF assms] by (simp add: comments_ok_def list_all_iff)
    have only: "c = prior" if "c \<in> set (db_comments db)" "cr_id c = n" for c
      using that comment_of_unique [of db c] store_okD [OF assms] Some by simp
    have "store_ok (set_comment n (\<lambda>c. c\<lparr> cr_text := scrub_and_warn b, cr_edited_at := Some now, cr_edit_reason := r \<rparr>) db)"
      if "cr_original_text prior \<noteq> None"
      by (rule set_comment_ok [OF assms]) (use that only in \<open>auto simp: comment_ok_def\<close>)
    moreover have "store_ok (set_comment n (\<lambda>c. c\<lparr> cr_text := scrub_and_warn b, cr_edited_at := Some now,
        cr_edit_reason := r, cr_original_text := Some (cr_text prior) \<rparr>) db)"
      by (rule set_comment_ok [OF assms]) (use prior only in \<open>auto simp: comment_ok_def\<close>)
    ultimately show ?thesis using Some by (simp add: update_comment_def Let_def)
  qed (simp add: update_comment_def assms)
  show "store_ok (db_or db (delete_comment now n r db))"
    using assms by (auto simp: delete_comment_def db_or_def comment_ok_def intro!: set_comment_ok)
  show "store_ok (db_or db (hard_delete_comment n db))"
    using store_okD [OF assms] assms
    by (auto simp: hard_delete_comment_def db_or_def store_ok_def comments_ok_def distinct_map_filter list_all_iff)
qed

lemma log_event_ok: "store_ok db \<Longrightarrow> store_ok (log_event now i ty d db)"
  by (auto simp: log_event_def store_ok_def split: sum.splits)

lemma set_row_append: "i \<notin> ir_id ` set (db_issues db) \<Longrightarrow> ir_id r = i \<Longrightarrow>
    set_row i f (db\<lparr> db_issues := db_issues db @ [r] \<rparr>) = db\<lparr> db_issues := db_issues db @ [f r] \<rparr>"
proof -
  assume a: "i \<notin> ir_id ` set (db_issues db)" "ir_id r = i"
  have "map (\<lambda>r. if ir_id r = i then f r else r) (db_issues db) = db_issues db"
    by (rule map_idI) (use a(1) in auto)
  then show ?thesis using a(2) by (simp add: set_row_def)
qed


text \<open>The row a creation ends with, and the creation as one update.\<close>

definition created_notes :: "new_bead \<Rightarrow> json option" where
  "created_notes b =
     (if nb_files b = [] \<and> nb_test_files b = [] \<and> nb_derived_from b = [] then None
      else Some (JObj [(''derived_from'', JArr (map prov_to_json (nb_derived_from b))),
                       (''files'', json_strings (nb_files b)), (''test_files'', json_strings (nb_test_files b))]))"

definition created_row :: "string \<Rightarrow> new_bead \<Rightarrow> issue_row" where
  "created_row now b =
     \<lparr> ir_id = nb_id b, ir_title = scrub_and_warn (nb_title b), ir_description = Some (scrub_and_warn (nb_description b)),
       ir_acceptance_criteria = Some (nb_acceptance_criteria b), ir_notes = created_notes b, ir_status = ''open'',
       ir_priority = int (nb_priority b), ir_issue_type = nb_issue_type b,
       ir_assignee = (if nb_owner b = [] then None else Some (nb_owner b)), ir_external_ref = None,
       ir_user_id = None, ir_created_by = nb_created_by b, ir_scope = nb_scope b, ir_created_at = now,
       ir_updated_at = now \<rparr>"

lemma create_shape:
  "create_bead_full now b db =
     (if row_of db (nb_id b) \<noteq> None then Inl (DuplicateKey (nb_id b))
      else Inr (db\<lparr> db_issues := db_issues db @ [created_row now b],
                   db_deps := foldl (\<lambda>ds t. insert_or_ignore (nb_id b) t ds) (db_deps db) (nb_depends_on b),
                   db_fts := db_fts db @ [fts_key (created_row now b)] \<rparr>))"
proof (cases "row_of db (nb_id b)")
  case None
  then have fresh: "nb_id b \<notin> ir_id ` set (db_issues db)" by (simp add: row_of_None)
  show ?thesis using None
    by (cases "nb_owner b = []"; cases "nb_files b = [] \<and> nb_test_files b = [] \<and> nb_derived_from b = []")
      (simp_all add: create_bead_full_def Let_def set_row_append [OF fresh] created_row_def created_notes_def fts_key_def)
qed (simp add: create_bead_full_def)

lemma created_row_ok: "nb_priority b < 256 \<Longrightarrow> row_ok (created_row now b)"
  by (simp add: created_row_def row_ok_def notes_ok_def created_notes_def)

lemma created_row_id [simp]: "ir_id (created_row now b) = nb_id b"
  by (simp add: created_row_def)

lemma create_ok:
  assumes "store_ok db" "nb_priority b < 256"
  shows "store_ok (db_or db (create_bead_full now b db))"
  using store_okD [OF assms(1)] created_row_ok [OF assms(2)] deps_insert
  by (auto simp: create_shape db_or_def store_ok_def issues_ok_def deps_ok_def comments_ok_def fts_ok_def row_of_None)

section \<open>Updates of fields\<close>

text \<open>While the title or the description change, the index is right but for the bead.\<close>

definition fts_but :: "string \<Rightarrow> bead_db \<Rightarrow> bool" where
  "fts_but i db \<longleftrightarrow> mset (filter (\<lambda>(j, _). j \<noteq> i) (db_fts db)) = mset (map fts_key (filter (\<lambda>r. ir_id r \<noteq> i) (db_issues db)))"

definition part_ok :: "string \<Rightarrow> bead_db \<Rightarrow> bool" where
  "part_ok i db \<longleftrightarrow> issues_ok db \<and> deps_ok db \<and> comments_ok db \<and> fts_but i db"

lemma fts_ok_but: "fts_ok db \<Longrightarrow> fts_but i db"
proof -
  assume "fts_ok db"
  then have "filter_mset (\<lambda>(j, _). j \<noteq> i) (mset (db_fts db)) = filter_mset (\<lambda>(j, _). j \<noteq> i) (mset (map fts_key (db_issues db)))"
    by (simp add: fts_ok_def)
  then show ?thesis by (simp add: fts_but_def filter_mset_image_mset fts_key_def case_prod_unfold)
qed

lemma part_set_row:
  assumes "part_ok i db" "keeps_id f" "\<And>r. row_ok r \<Longrightarrow> row_ok (f r)"
  shows "part_ok i (set_row i f db)"
proof -
  have "filter (\<lambda>r. ir_id r \<noteq> i) (db_issues (set_row i f db)) = filter (\<lambda>r. ir_id r \<noteq> i) (db_issues db)"
    using assms(2) by (auto simp: set_row_def filter_map o_def keeps_id_def intro!: map_idI cong: filter_cong)
  then show ?thesis using assms by (simp add: part_ok_def fts_but_def issues_set_row)
qed

lemma resync_ok: "part_ok i db \<Longrightarrow> store_ok (resync_fts i db)"
proof -
  assume db: "part_ok i db"
  have "mset (map fts_key (filter (\<lambda>r. ir_id r \<noteq> i) (db_issues db))) + mset (map fts_key (filter (\<lambda>r. ir_id r = i) (db_issues db)))
      = mset (map fts_key (db_issues db))"
    by (simp flip: image_mset_union add: multiset_partition [symmetric, where P = "\<lambda>r. ir_id r \<noteq> i", simplified])
  then have "fts_ok (resync_fts i db)"
    using db by (simp add: part_ok_def fts_but_def fts_ok_def resync_fts_def fts_key_def [abs_def])
  then show ?thesis using db by (simp add: part_ok_def store_ok_def resync_fts_def)
qed

lemma update_column_part:
  assumes "part_ok i (fst dn)" "\<And>x. v = Some x \<Longrightarrow> keeps_id (f x)" "\<And>x r. v = Some x \<Longrightarrow> row_ok r \<Longrightarrow> row_ok (f x r)"
  shows "part_ok i (fst (update_column now i field v f dn))"
proof (cases v)
  case (Some x)
  have "part_ok i (set_row i (\<lambda>r. (f x r)\<lparr> ir_updated_at := now \<rparr>) (fst dn))"
  proof (rule part_set_row [OF assms(1)])
    show "keeps_id (\<lambda>r. (f x r)\<lparr> ir_updated_at := now \<rparr>)" using assms(2) [OF Some] by (simp add: keeps_id_def)
    show "row_ok ((f x r)\<lparr> ir_updated_at := now \<rparr>)" if "row_ok r" for r
      using assms(3) [OF Some that] by (simp add: row_ok_def)
  qed
  then show ?thesis using Some by (simp add: update_column_def)
qed (simp add: update_column_def assms)

lemma update_column_store:
  assumes "store_ok (fst dn)" "\<And>x. v = Some x \<Longrightarrow> keeps_text (f x)" "\<And>x r. v = Some x \<Longrightarrow> row_ok r \<Longrightarrow> row_ok (f x r)"
  shows "store_ok (fst (update_column now i field v f dn))"
proof (cases v)
  case (Some x)
  have "store_ok (set_row i (\<lambda>r. (f x r)\<lparr> ir_updated_at := now \<rparr>) (fst dn))"
  proof (rule set_row_ok [OF assms(1)])
    show "keeps_text (\<lambda>r. (f x r)\<lparr> ir_updated_at := now \<rparr>)"
      using assms(2) [OF Some] by (simp add: keeps_text_def fts_key_def)
    show "row_ok ((f x r)\<lparr> ir_updated_at := now \<rparr>)" if "row_ok r" for r
      using assms(3) [OF Some that] by (simp add: row_ok_def)
  qed
  then show ?thesis using Some by (simp add: update_column_def)
qed (simp add: update_column_def assms)

lemma update_column_names:
  "set (snd (update_column now i field v f dn)) = set (snd dn) \<union> (if v = None then {} else {field})"
  by (cases v) (auto simp: update_column_def)

lemma update_files_names:
  "set (snd (update_files now i u dn)) \<subseteq> set (snd dn) \<union> {''files'', ''test_files''}" "set (snd dn) \<subseteq> set (snd (update_files now i u dn))"
  by (auto simp: update_files_def)

lemma update_files_ok:
  "part_ok i (fst dn) \<Longrightarrow> part_ok i (fst (update_files now i u dn))"
  "store_ok (fst dn) \<Longrightarrow> store_ok (fst (update_files now i u dn))"
proof -
  show "store_ok (fst dn) \<Longrightarrow> store_ok (fst (update_files now i u dn))"
    by (auto simp: update_files_def notes_with_files_object intro!: row_writes_ok(6))
  show "part_ok i (fst dn) \<Longrightarrow> part_ok i (fst (update_files now i u dn))"
    by (auto simp: update_files_def keeps_id_def row_ok_def notes_ok_def notes_with_files_object intro!: part_set_row)
qed

lemma fields_ok:
  assumes "store_ok db" "\<And>p. u_priority u = Some p \<Longrightarrow> p < 256" "update_bead_fields now bead_id u db = Inr (db', names)"
  shows "store_ok db'"
proof -
  obtain i where i: "resolve_id db bead_id = Inr i" using assms(3) by (auto simp: update_bead_fields_def split: sum.splits)
  define dn1 where "dn1 = update_column now i ''title'' (map_option scrub_and_warn (u_title u)) (\<lambda>x r. r\<lparr> ir_title := x \<rparr>) (db, [])"
  define dn2 where "dn2 = update_column now i ''description'' (map_option scrub_and_warn (u_description u)) (\<lambda>x r. r\<lparr> ir_description := Some x \<rparr>) dn1"
  define dn3 where "dn3 = update_column now i ''priority'' (u_priority u) (\<lambda>x r. r\<lparr> ir_priority := int x \<rparr>) dn2"
  define dn4 where "dn4 = update_column now i ''issue_type'' (u_issue_type u) (\<lambda>x r. r\<lparr> ir_issue_type := x \<rparr>) dn3"
  define dn5 where "dn5 = update_column now i ''owner'' (u_owner u) (\<lambda>x r. r\<lparr> ir_assignee := Some x \<rparr>) dn4"
  define dn6 where "dn6 = update_column now i ''acceptance_criteria'' (u_acceptance_criteria u) (\<lambda>x r. r\<lparr> ir_acceptance_criteria := Some x \<rparr>) dn5"
  define dn7 where "dn7 = update_files now i u dn6"
  note defs = dn1_def dn2_def dn3_def dn4_def dn5_def dn6_def
  have db': "db' = (if ''title'' \<in> set (snd dn7) \<or> ''description'' \<in> set (snd dn7) then resync_fts i (fst dn7) else fst dn7)"
  proof -
    have "update_bead_fields now bead_id u db = Inr (if ''title'' \<in> set (snd dn7) \<or> ''description'' \<in> set (snd dn7)
        then resync_fts i (fst dn7) else fst dn7, snd dn7)"
      by (simp add: update_bead_fields_def i Let_def case_prod_unfold dn7_def defs)
    then show ?thesis using assms(3) by simp
  qed
  have named: "''title'' \<in> set (snd dn7) \<or> ''description'' \<in> set (snd dn7)" if "u_title u \<noteq> None \<or> u_description u \<noteq> None"
    using that update_files_names(2) [of dn6 now i u] unfolding dn7_def [symmetric] by (auto simp: defs update_column_names split: if_splits)
  have "part_ok i (fst dn6)"
    unfolding defs
    by (intro update_column_part)
      (use store_okD [OF assms(1)] assms(2) in \<open>auto simp: part_ok_def fts_ok_but keeps_id_def row_ok_def\<close>)
  then have "part_ok i (fst dn7)" unfolding dn7_def by (rule update_files_ok)
  moreover have "store_ok (fst dn7)" if "u_title u = None" "u_description u = None"
  proof -
    have "dn2 = (db, [])" using that by (simp add: dn1_def dn2_def update_column_def)
    then have "store_ok (fst dn6)"
      unfolding dn3_def dn4_def dn5_def dn6_def
      by (intro update_column_store)
        (use assms(1,2) in \<open>auto simp: keeps_text_def fts_key_def row_ok_def\<close>)
    then show ?thesis unfolding dn7_def by (rule update_files_ok)
  qed
  ultimately show ?thesis using named resync_ok unfolding db' by auto
qed

lemma status_same: "ir_status r = s \<Longrightarrow> r\<lparr> ir_status := s \<rparr> = r"
  by (cases r) simp

lemma canonicalize_map:
  "canonicalize_statuses db = db\<lparr> db_issues := map (\<lambda>r. r\<lparr> ir_status := canonical_status (ir_status r) \<rparr>) (db_issues db) \<rparr>"
proof -
  let ?step = "\<lambda>d raw. if canonical_status raw \<noteq> raw
         then d\<lparr> db_issues := map (\<lambda>r. if ir_status r = raw then r\<lparr> ir_status := canonical_status raw \<rparr> else r) (db_issues d) \<rparr>
         else d"
  have steps: "foldl ?step d raws = d\<lparr> db_issues := map (\<lambda>r. if ir_status r \<in> set raws then r\<lparr> ir_status := canonical_status (ir_status r) \<rparr> else r) (db_issues d) \<rparr>" for d raws
  proof (induction raws arbitrary: d)
    case (Cons raw raws)
    have one: "?step d raw = d\<lparr> db_issues := map (\<lambda>r. if ir_status r = raw then r\<lparr> ir_status := canonical_status raw \<rparr> else r) (db_issues d) \<rparr>"
    proof (cases "canonical_status raw = raw")
      case True
      have "map (\<lambda>r. if ir_status r = raw then r\<lparr> ir_status := canonical_status raw \<rparr> else r) (db_issues d) = db_issues d"
        by (rule map_idI) (simp add: True status_same)
      then show ?thesis using True by simp
    qed simp
    show ?case unfolding foldl_Cons Cons.IH one by (auto simp: o_def)
  qed (simp add: map_idI)
  show ?thesis unfolding canonicalize_statuses_def steps by (simp cong: map_cong)
qed

lemma canonicalize_ok: "store_ok db \<Longrightarrow> canonicalize_statuses db = db"
proof -
  assume "store_ok db"
  then have "map (\<lambda>r. r\<lparr> ir_status := canonical_status (ir_status r) \<rparr>) (db_issues db) = db_issues db"
    by (intro map_idI) (simp add: store_ok_def issues_ok_def row_ok_def list_all_iff status_same)
  then show ?thesis by (simp add: canonicalize_map)
qed

section \<open>Properties\<close>

lemma setters_ok:
  assumes "store_ok db"
  shows "store_ok (db_or db (set_assignee now i a db))" "store_ok (db_or db (set_user_id i a db))"
    "store_ok (db_or db (set_external_ref now i a db))" "store_ok (db_or db (restore_timestamps i c u db))"
  unfolding set_assignee_def set_user_id_def set_external_ref_def restore_timestamps_def
  by (rule or_with_bead; simp add: assms row_writes_ok)+

lemma exec_ok: "store_ok db \<Longrightarrow> op_typed op1 \<Longrightarrow> store_ok (exec_op now op1 db)"
proof (cases op1)
  case (UpdateFields i u)
  assume "store_ok db" "op_typed op1"
  then show ?thesis using UpdateFields fields_ok [of db u now i] by (auto split: sum.splits)
qed (simp_all add: create_ok set_files_ok statuses_ok dependencies_ok add_comment_ok edit_comments_ok log_event_ok
    canonicalize_ok setters_ok set_status_verbatim_def)

lemma empty_ok: "store_ok empty_db"
  by (simp add: store_ok_def issues_ok_def deps_ok_def comments_ok_def fts_ok_def empty_db_def)

lemma run_ok: "list_all (\<lambda>(_, op1). op_typed op1) ops \<Longrightarrow> store_ok db \<Longrightarrow> store_ok (run_ops ops db)"
  unfolding run_ops_def by (induction ops arbitrary: db) (auto simp: exec_ok)

text \<open>
  C24. Whatever operations are made on a new store, in whatever order and whether they succeed or fail: the
  keys of its tables stay unique, every status is the canonical name of a lifecycle state, every title,
  description and comment is free of known secrets (the acceptance criteria are stored as given), a
  comment has its original text exactly when it was edited, and the full-text index holds exactly the
  titles and descriptions of the issues. So opening the store again, which makes the statuses canonical,
  changes nothing of it.
\<close>

theorem store_stays_well_formed:
  assumes "list_all (\<lambda>(_, op1). op_typed op1) ops"
  shows "store_ok (run_ops ops empty_db)
    \<and> connect_bead_store False e (Some (run_ops ops empty_db)) = OpenSqlite False (run_ops ops empty_db)"
  using run_ok [OF assms empty_ok] by (simp add: connect_bead_store_def detect_backend_def connect_def Let_def canonicalize_ok)

definition sample_ops :: "(string \<times> store_op) list" where
  "sample_ops = [(''2026-01-01 00:00:00'', CreateBead (default_new_bead\<lparr> nb_id := ''app-1'', nb_title := ''Fix login'' \<rparr>)),
     (''2026-01-01 00:00:01'', SetExternalRef ''1'' ''LIN-7''), (''2026-01-01 00:00:02'', UpdateStatus ''1'' ''dispatched''),
     (''2026-01-01 00:00:03'', UpdateStatus ''1'' ''verifying''), (''2026-01-01 00:00:04'', UpdateStatus ''1'' ''closed''),
     (''2026-01-01 00:00:05'', AddComment ''app-1'' ''done'' ''dev'')]"

lemma sample_typed: "list_all (\<lambda>(_, op1). op_typed op1) sample_ops"
  by (simp add: sample_ops_def default_new_bead_def)

theorem store_stays_well_formed_witness: "fts_ok (run_ops sample_ops empty_db)"
  using store_stays_well_formed [OF sample_typed, THEN conjunct1] by (simp add: store_ok_def)

text \<open>
  Opening a directory never guesses between two stores and never makes a store beside another: a store that
  is there is opened as it is, and an empty one is made only where there is no Dolt store.
\<close>

lemma opening_never_guesses:
  "connect_bead_store True e (Some db) = Refused" "connect_bead_store True e None = OpenDolt"
  "store_ok db \<Longrightarrow> connect_bead_store False e (Some db) = OpenSqlite False db"
  "connect_bead_store False e None = OpenSqlite e empty_db"
  by (simp_all add: connect_bead_store_def detect_backend_def connect_def Let_def canonicalize_ok empty_ok)

lemma closed_never_listed:
  assumes "list_all (\<lambda>r. canonical_status (ir_status r) = ir_status r) (db_issues db)"
  shows "list_closed_linked_beads parse db repo = []"
proof -
  have "ir_status r \<noteq> ''closed''" if "r \<in> set (db_issues db)" for r
    using assms that by (auto simp: list_all_iff)
  then have "filter (\<lambda>r. ir_status r = ''closed'' \<and> ir_external_ref r \<notin> {None, Some []}) (db_issues db) = []"
    by (auto simp: filter_empty_conv)
  then show ?thesis by (simp add: list_closed_linked_beads_def descending_def List.map_filter_simps)
qed

text \<open>
  The query for closed beads that are linked to an external tracker finds nothing, in any store that was
  opened and in any store that was filled by the operations: it asks for the status \<open>closed\<close>, of which
  opening and every operation write the canonical form \<open>done\<close>.
\<close>

theorem closed_linked_beads_are_never_found:
  "list_closed_linked_beads parse (canonicalize_statuses db) repo = []
   \<and> (list_all (\<lambda>(_, op1). op_typed op1) ops \<longrightarrow> list_closed_linked_beads parse (run_ops ops empty_db) repo = [])"
proof -
  have "list_closed_linked_beads parse (run_ops ops empty_db) repo = []" if "list_all (\<lambda>(_, op1). op_typed op1) ops"
    by (rule closed_never_listed)
      (use run_ok [OF that empty_ok] in \<open>auto simp: store_ok_def issues_ok_def row_ok_def list_all_iff\<close>)
  moreover have "list_closed_linked_beads parse (canonicalize_statuses db) repo = []"
    by (rule closed_never_listed) (simp add: canonicalize_map list_all_iff)
  ultimately show ?thesis by blast
qed

theorem closed_linked_beads_are_never_found_witness:
  "list_closed_linked_beads (\<lambda>_. Some 0) (run_ops sample_ops empty_db) ''app'' = []
   \<and> get_status (run_ops sample_ops empty_db) ''1'' = Some ''done''
   \<and> get_external_ref (run_ops sample_ops empty_db) ''1'' = Some ''LIN-7''"
proof -
  have "get_status (run_ops sample_ops empty_db) ''1'' = Some ''done''"
    "get_external_ref (run_ops sample_ops empty_db) ''1'' = Some ''LIN-7''"
    by code_simp+
  then show ?thesis using closed_linked_beads_are_never_found sample_typed by blast
qed

end
