(* ===== verification/Store_Behaviour.thy ===== *)
theory Store_Behaviour
  imports Store_Invariant
begin

text \<open>
  What the operations of the bead store do: statuses along the lifecycle, identifiers, comments, counts,
  and beads read back as they were created.
\<close>

section \<open>Statuses\<close>

definition status_at :: "bead_db \<Rightarrow> string \<Rightarrow> bead_state option" where
  "status_at db i = map_option (\<lambda>r. state_of_str (ir_status r)) (row_of db i)"

text \<open>All operations but the two that set a status without asking the transition table.\<close>

fun guarded :: "store_op \<Rightarrow> bool" where
  "guarded (SetStatusVerbatim i s) \<longleftrightarrow> False"
| "guarded (CloseBead i) \<longleftrightarrow> False"
| "guarded _ \<longleftrightarrow> True"

lemma row_of_cong [simp]:
  "row_of (db\<lparr> db_deps := x \<rparr>) i = row_of db i" "row_of (db\<lparr> db_comments := y \<rparr>) i = row_of db i"
  "row_of (db\<lparr> db_next_comment := n \<rparr>) i = row_of db i" "row_of (db\<lparr> db_events := z \<rparr>) i = row_of db i"
  "row_of (db\<lparr> db_fts := w \<rparr>) i = row_of db i"
  by (simp_all add: row_of_def)

lemma status_at_cong [simp]:
  "status_at (db\<lparr> db_deps := x \<rparr>) = status_at db" "status_at (db\<lparr> db_comments := y \<rparr>) = status_at db"
  "status_at (db\<lparr> db_next_comment := n \<rparr>) = status_at db" "status_at (db\<lparr> db_events := z \<rparr>) = status_at db"
  "status_at (db\<lparr> db_fts := w \<rparr>) = status_at db"
  by (simp_all add: status_at_def fun_eq_iff)

lemma status_set_row:
  "(\<And>r. ir_id (f r) = ir_id r \<and> ir_status (f r) = ir_status r) \<Longrightarrow> status_at (set_row j f db) = status_at db"
  by (auto simp: status_at_def fun_eq_iff row_of_set_row keeps_id_def option.map_comp o_def)

lemma status_touch [simp]: "status_at (touch now i db) = status_at db"
  by (simp add: touch_def status_set_row)

lemma status_column:
  "(\<And>x r. ir_id (f x r) = ir_id r \<and> ir_status (f x r) = ir_status r) \<Longrightarrow>
     status_at (fst (update_column now i field v f dn)) = status_at (fst dn)"
  by (cases v) (simp_all add: update_column_def status_set_row)

lemma status_fields: "update_bead_fields now bead_id u db = Inr (db', names) \<Longrightarrow> status_at db' = status_at db"
  by (auto simp: update_bead_fields_def Let_def case_prod_unfold resync_fts_def status_column update_files_def
      status_set_row split: sum.splits if_splits)

lemma status_setters:
  "status_at (db_or db (set_files now i fs ts db)) = status_at db"
  "status_at (db_or db (set_assignee now i a db)) = status_at db"
  "status_at (db_or db (set_user_id i a db)) = status_at db"
  "status_at (db_or db (set_external_ref now i a db)) = status_at db"
  "status_at (db_or db (restore_timestamps i c u db)) = status_at db"
  "status_at (db_or db (add_dependency_typed now i t ty db)) = status_at db"
  "status_at (db_or db (remove_dependency now i t db)) = status_at db"
  "status_at (db_or db (add_comment now i b a db)) = status_at db"
  unfolding set_files_def set_assignee_def set_user_id_def set_external_ref_def restore_timestamps_def
    add_dependency_typed_def remove_dependency_def add_comment_def Let_def
  by (rule or_with_bead or_with_edge; simp add: status_set_row)+

lemma status_comments:
  "status_at (fst (update_comment parse now n b r db)) = status_at db"
  "status_at (db_or db (delete_comment now n r db)) = status_at db"
  "status_at (db_or db (hard_delete_comment n db)) = status_at db"
  "status_at (db_or db (replace_dependencies i ds db)) = status_at db"
  "status_at (restore_dependency_typed i t ty db) = status_at db" "status_at (log_event now i ty d db) = status_at db"
  by (auto simp: update_comment_def delete_comment_def hard_delete_comment_def set_comment_def db_or_def Let_def
      replace_dependencies_def restore_dependency_typed_def log_event_def split: option.splits sum.splits)

lemma state_canonical [simp]: "state_of_str (canonical_status s) = state_of_str s"
  by (cases "state_of_str s") (simp_all add: canonical_status_def state_of_str_def)

lemma status_reopen: "status_at (canonicalize_statuses db) = status_at db"
proof -
  have find: "map_option (\<lambda>r. state_of_str (ir_status r))
      (List.find (\<lambda>r. ir_id r = i) (map (\<lambda>r. r\<lparr> ir_status := canonical_status (ir_status r) \<rparr>) rs))
    = map_option (\<lambda>r. state_of_str (ir_status r)) (List.find (\<lambda>r. ir_id r = i) rs)" for i rs
    by (induction rs) auto
  show ?thesis unfolding status_at_def row_of_def canonicalize_map using find by (intro ext) simp
qed

lemma created_row_status [simp]: "state_of_str (ir_status (created_row now b)) = Open"
  by (simp add: created_row_def state_of_str_def)

lemma row_of_append: "row_of (db\<lparr> db_issues := db_issues db @ [r] \<rparr>) i = (case row_of db i of None \<Rightarrow> if ir_id r = i then Some r else None | s \<Rightarrow> s)"
proof -
  have "List.find (\<lambda>r. ir_id r = i) (rs @ [r]) = (case List.find (\<lambda>r. ir_id r = i) rs of None \<Rightarrow> if ir_id r = i then Some r else None | s \<Rightarrow> s)" for rs
    by (induction rs) auto
  then show ?thesis by (simp add: row_of_def)
qed

lemma status_create:
  "status_at (db_or db (create_bead_full now b db)) i = status_at db i
   \<or> (status_at db i = None \<and> status_at (db_or db (create_bead_full now b db)) i = Some Open)"
proof (cases "row_of db (nb_id b)")
  case None
  then show ?thesis
    by (auto simp: create_shape db_or_def status_at_def row_of_append split: option.splits)
qed (simp add: create_shape db_or_def)

lemma status_update:
  "status_at (db_or db (update_status now b s db)) i = status_at db i
   \<or> (\<exists>p q. status_at db i = Some p \<and> status_at (db_or db (update_status now b s db)) i = Some q \<and> can_transition_to p q)"
proof (cases "update_status now b s db")
  case (Inr d)
  then obtain j r where r: "row_of db j = Some r" "can_transition_to (state_of_str (ir_status r)) (state_of_str s)"
      "d = set_row j (\<lambda>r. r\<lparr> ir_status := state_display (state_of_str s), ir_updated_at := now \<rparr>) db"
    by (auto simp: update_status_def with_bead_def Let_def split: sum.splits option.splits if_splits)
  have "status_at d i = (if i = j then Some (state_of_str s) else status_at db i)"
    using r(1) state_canonical [of s]
    by (simp add: r(3) status_at_def row_of_set_row keeps_id_def canonical_status_def)
  then show ?thesis using r(1,2) by (simp add: Inr db_or_def status_at_def)
qed (simp add: db_or_def)

text \<open>What one operation may do to a status: nothing, create the bead as open, or take one transition.\<close>

definition status_step :: "bead_state option \<Rightarrow> bead_state option \<Rightarrow> bool" where
  "status_step before later \<longleftrightarrow>
     later = before \<or> (before = None \<and> later = Some Open)
     \<or> (\<exists>p q. before = Some p \<and> later = Some q \<and> can_transition_to p q)"

lemma exec_status:
  assumes "guarded op1"
  shows "status_at (exec_op now op1 db) i = status_at db i
    \<or> (status_at db i = None \<and> status_at (exec_op now op1 db) i = Some Open)
    \<or> (\<exists>p q. status_at db i = Some p \<and> status_at (exec_op now op1 db) i = Some q \<and> can_transition_to p q)"
proof (cases op1)
  case (CreateBead b)
  then show ?thesis using status_create [of db now b i] by auto
next
  case (UpdateStatus b s)
  then show ?thesis using status_update [of db now b s i] by auto
qed (use assms in \<open>auto simp: status_setters status_comments status_reopen status_fields split: sum.splits\<close>)

lemma run_status:
  assumes "list_all (\<lambda>(_, op1). guarded op1) ops" "status_at db i = Some s"
  shows "\<exists>us t. status_at (run_ops ops db) i = Some t \<and> lifecycle_run s us t"
  using assms
proof (induction ops arbitrary: db s)
  case Nil
  then show ?case by (auto simp: run_ops_def intro: run_stop)
next
  case (Cons o1 ops)
  obtain now op1 where o1: "o1 = (now, op1)" by (cases o1)
  have run: "run_ops (o1 # ops) db = run_ops ops (exec_op now op1 db)" by (simp add: run_ops_def o1)
  consider "status_at (exec_op now op1 db) i = Some s"
    | q where "status_at (exec_op now op1 db) i = Some q" "can_transition_to s q"
    using exec_status [of op1 now db i] Cons.prems by (auto simp: o1)
  then show ?case unfolding run using Cons by cases (auto intro: run_step simp: o1, metis run_step)
qed

lemma run_created:
  assumes "list_all (\<lambda>(_, op1). guarded op1) ops" "status_at db i = None" "status_at (run_ops ops db) i = Some t"
  shows "\<exists>us. lifecycle_run Open us t"
  using assms
proof (induction ops arbitrary: db)
  case (Cons o1 ops)
  obtain now op1 where o1: "o1 = (now, op1)" by (cases o1)
  have run: "run_ops (o1 # ops) db = run_ops ops (exec_op now op1 db)" by (simp add: run_ops_def o1)
  consider "status_at (exec_op now op1 db) i = None" | "status_at (exec_op now op1 db) i = Some Open"
    using exec_status [of op1 now db i] Cons.prems(1,2) by (auto simp: o1)
  then show ?case
  proof cases
    case 1
    then show ?thesis using Cons by (simp add: run)
  next
    case 2
    then show ?thesis using run_status [OF _ 2, of ops] Cons.prems by (auto simp: run)
  qed
qed (simp add: run_ops_def)

lemma run_status_step:
  assumes "list_all (\<lambda>(_, op1). guarded op1) (xs @ [x])"
  shows "status_step (status_at (run_ops xs db) i) (status_at (run_ops (xs @ [x]) db) i)"
  using assms exec_status [of "snd x" "fst x" "run_ops xs db" i]
  by (cases x) (simp add: run_ops_def status_step_def)

lemma update_status_exact:
  assumes "resolve_id db b = Inr i" "status_at db i = Some p"
  shows "if can_transition_to p (state_of_str st)
    then status_at (exec_op now (UpdateStatus b st) db) i = Some (state_of_str st)
    else update_status now b st db = Inl (InvalidTransition p (state_of_str st) b)
      \<and> exec_op now (UpdateStatus b st) db = db"
proof -
  obtain r where r: "row_of db i = Some r" "p = state_of_str (ir_status r)"
    using assms(2) by (auto simp: status_at_def)
  show ?thesis
    using assms(1) r state_canonical [of st]
    by (simp add: update_status_def with_bead_def Let_def db_or_def status_at_def row_of_set_row keeps_id_def
        canonical_status_def)
qed

text \<open>
  C25. Through operations other than the two that bypass the transition table, the status of a bead moves
  along the lifecycle: each operation leaves it, creates the bead as open or takes it along one
  transition. A write of a status for an identifier that resolves to a bead stores it when the
  transition is there; otherwise it fails with the invalid transition and leaves the store as it was.
  The bead stays in the store; a bead of a new store that is done was verifying or dead-lettered
  on its way, and one that is done stays done. Closing is one of the two: it takes any bead to done.
\<close>

theorem statuses_follow_the_lifecycle:
  assumes "list_all (\<lambda>(_, op1). guarded op1) ops"
  shows "(\<forall>xs x ys. ops = xs @ x # ys \<longrightarrow>
        status_step (status_at (run_ops xs db) i) (status_at (run_ops (xs @ [x]) db) i))
    \<and> (resolve_id db b = Inr i \<and> status_at db i = Some s \<longrightarrow>
        (if can_transition_to s (state_of_str st)
         then status_at (exec_op now (UpdateStatus b st) db) i = Some (state_of_str st)
         else update_status now b st db = Inl (InvalidTransition s (state_of_str st) b)
           \<and> exec_op now (UpdateStatus b st) db = db))
    \<and> (status_at db i = Some s \<longrightarrow> (\<exists>us t. status_at (run_ops ops db) i = Some t \<and> lifecycle_run s us t))
    \<and> (status_at (run_ops ops empty_db) i = Some Done \<longrightarrow>
        (\<exists>us. lifecycle_run Open us Done \<and> (Verifying \<in> set us \<or> DeadLetter \<in> set us)))
    \<and> (status_at db i = Some Done \<longrightarrow> status_at (run_ops ops db) i = Some Done)
    \<and> (status_at db i = Some s \<longrightarrow> status_at (exec_op now (CloseBead i) db) i = Some Done)"
proof -
  have "\<exists>us. lifecycle_run Open us Done \<and> (Verifying \<in> set us \<or> DeadLetter \<in> set us)"
    if done1: "status_at (run_ops ops empty_db) i = Some Done"
  proof -
    have "status_at empty_db i = None" by (simp add: status_at_def row_of_def empty_db_def)
    then obtain us where us: "lifecycle_run Open us Done" using run_created [OF assms _ done1] by blast
    then show ?thesis using run_unfinished [OF us] by (auto simp: unfinished_def)
  qed
  moreover have "status_at (run_ops ops db) i = Some Done" if "status_at db i = Some Done"
    using run_status [OF assms that] by (auto simp: can_transition_to_def elim: lifecycle_run.cases)
  moreover have "status_at (exec_op now (CloseBead i) db) i = Some Done" if there: "status_at db i = Some s"
  proof -
    obtain r where "row_of db i = Some r" using there by (auto simp: status_at_def)
    then show ?thesis using row_of_Some [of db i r]
      by (simp add: close_bead_def with_bead_def resolve_id_def db_or_def status_at_def row_of_set_row keeps_id_def
          state_of_str_def)
  qed
  moreover have "status_step (status_at (run_ops xs db) i) (status_at (run_ops (xs @ [x]) db) i)"
    if "ops = xs @ x # ys" for xs x ys
    by (rule run_status_step) (use assms that in simp)
  moreover note run_status [OF assms] update_status_exact
  ultimately show ?thesis by (intro conjI allI impI) (blast+)?
qed

theorem statuses_follow_the_lifecycle_witness:
  "\<exists>us. lifecycle_run Open us Done \<and> (Verifying \<in> set us \<or> DeadLetter \<in> set us)"
proof -
  have "list_all (\<lambda>(_, op1). guarded op1) sample_ops" by (simp add: sample_ops_def)
  moreover have "status_at (run_ops sample_ops empty_db) ''app-1'' = Some Done" by code_simp
  ultimately show ?thesis
    using statuses_follow_the_lifecycle [of sample_ops, THEN conjunct2, THEN conjunct2, THEN conjunct2, THEN conjunct1] by blast
qed

section \<open>Identifiers\<close>

text \<open>A pattern without wildcards matches the text that differs only in case.\<close>

definition plain_id :: "string \<Rightarrow> bool" where
  "plain_id i \<longleftrightarrow> CHR ''%'' \<notin> set i \<and> CHR ''_'' \<notin> set i"

lemma like_plain: "plain_id p \<Longrightarrow> like p s \<longleftrightarrow> to_lowercase p = to_lowercase s"
  by (induction p s rule: like.induct) (auto simp: plain_id_def to_lowercase_def)

lemma like_any: "like (CHR ''%'' # p) s \<longleftrightarrow> (\<exists>a b. s = a @ b \<and> like p b)"
proof (induction s)
  case (Cons c s)
  have "like (CHR ''%'' # p) (c # s) \<longleftrightarrow> like p (c # s) \<or> (\<exists>a b. s = a @ b \<and> like p b)" using Cons by simp
  also have "\<dots> \<longleftrightarrow> (\<exists>a b. c # s = a @ b \<and> like p b)" by (auto simp: Cons_eq_append_conv)
  finally show ?case .
qed simp

definition has_suffix_id :: "string \<Rightarrow> string \<Rightarrow> bool" where
  "has_suffix_id full i \<longleftrightarrow> (\<exists>a b. full = a @ CHR ''-'' # b \<and> to_lowercase b = to_lowercase i)"

lemma like_suffix:
  assumes "plain_id i"
  shows "like (''%-'' @ i) full \<longleftrightarrow> has_suffix_id full i"
proof -
  have p: "plain_id (CHR ''-'' # i)" using assms by (simp add: plain_id_def)
  have dash: "lower_char c = CHR ''-'' \<longleftrightarrow> c = CHR ''-''" for c
    by (auto simp: lower_char_def Let_def split: if_splits dest!: arg_cong [where f = "of_char :: char \<Rightarrow> nat"])
  have "like (''%-'' @ i) full \<longleftrightarrow> (\<exists>a b. full = a @ b \<and> to_lowercase (CHR ''-'' # i) = to_lowercase b)"
    using like_any [of "CHR ''-'' # i" full] like_plain [OF p] by simp
  also have "\<dots> \<longleftrightarrow> has_suffix_id full i"
    by (auto simp: has_suffix_id_def to_lowercase_def map_eq_Cons_conv Cons_eq_map_conv dash) (metis dash)+
  finally show ?thesis .
qed

text \<open>
  An identifier resolves to itself when there is such a bead. Otherwise it resolves to the one bead whose
  identifier ends in a dash and it, in any case of the letters; with none or several of them it is an
  error that names them. So an identifier that is not in the store can stand for another bead. With the
  wildcards of SQL in it, it can stand for a bead that does not even end in it.
\<close>

theorem identifiers_resolve_by_suffix:
  assumes "issues_ok db" "plain_id i"
  shows "(resolve_id db i = Inr full \<longleftrightarrow>
       full = i \<and> row_of db i \<noteq> None
       \<or> row_of db i = None \<and> row_of db full \<noteq> None \<and> has_suffix_id full i
         \<and> (\<forall>r \<in> set (db_issues db). has_suffix_id (ir_id r) i \<longrightarrow> ir_id r = full))
    \<and> (resolve_id db i = Inl (NotFound i) \<longleftrightarrow>
       row_of db i = None \<and> (\<forall>r \<in> set (db_issues db). \<not> has_suffix_id (ir_id r) i))
    \<and> like (''%-'' @ ''a_1'') ''app-ab1''"
proof -
  let ?ms = "filter (\<lambda>j. has_suffix_id j i) (map ir_id (db_issues db))"
  have ms: "filter (like (''%-'' @ i)) (map ir_id (db_issues db)) = ?ms"
    using like_suffix [OF assms(2)] by (intro filter_cong) auto
  have d: "distinct ?ms" using assms(1) by (simp add: issues_ok_def)
  have r: "resolve_id db i = (case row_of db i of Some r \<Rightarrow> Inr i | None \<Rightarrow>
      (case ?ms of [] \<Rightarrow> Inl (NotFound i) | [full] \<Rightarrow> Inr full | ms \<Rightarrow> Inl (AmbiguousId i ms)))"
    unfolding resolve_id_def ms by (auto split: option.splits dest: row_of_Some)
  have one: "?ms = [full] \<longleftrightarrow> full \<in> set ?ms \<and> (\<forall>j \<in> set ?ms. j = full)"
    using d by (cases ?ms rule: remdups_adj.cases) auto
  have "(case ?ms of [] \<Rightarrow> Inl (NotFound i) | [full] \<Rightarrow> Inr full | ms \<Rightarrow> Inl (AmbiguousId i ms)) = Inr full \<longleftrightarrow> ?ms = [full]"
    by (auto split: list.splits)
  moreover have "(case ?ms of [] \<Rightarrow> Inl (NotFound i) | [full] \<Rightarrow> Inr full | ms \<Rightarrow> Inl (AmbiguousId i ms)) = Inl (NotFound i) \<longleftrightarrow> ?ms = []"
    by (auto split: list.splits)
  moreover have "?ms = [] \<longleftrightarrow> (\<forall>r \<in> set (db_issues db). \<not> has_suffix_id (ir_id r) i)" by (auto simp: filter_empty_conv)
  moreover have "?ms = [full] \<longleftrightarrow> row_of db full \<noteq> None \<and> has_suffix_id full i
      \<and> (\<forall>r \<in> set (db_issues db). has_suffix_id (ir_id r) i \<longrightarrow> ir_id r = full)"
    unfolding one by (auto simp: row_of_None)
  moreover have "like (''%-'' @ ''a_1'') ''app-ab1''" by code_simp
  ultimately show ?thesis unfolding r by (cases "row_of db i") auto
qed

definition sample_db :: bead_db where
  "sample_db = run_ops sample_ops empty_db"

lemma sample_db_ok: "store_ok sample_db"
  unfolding sample_db_def by (rule run_ok [OF sample_typed empty_ok])

theorem identifiers_resolve_by_suffix_witness: "resolve_id sample_db ''1'' = Inr ''app-1''"
proof -
  have "row_of sample_db ''1'' = None" "map ir_id (db_issues sample_db) = [''app-1'']" by code_simp+
  moreover have "has_suffix_id ''app-1'' ''1''"
    unfolding has_suffix_id_def by (intro exI [of _ "''app''"] exI [of _ "''1''"]) simp
  moreover have "set (db_issues sample_db) \<noteq> {}" using calculation(2) by auto
  ultimately show ?thesis
    using identifiers_resolve_by_suffix [of sample_db "''1''" "''app-1''", THEN conjunct1] sample_db_ok
    by (auto simp: store_ok_def plain_id_def row_of_None map_eq_Cons_conv)
qed

section \<open>Comments\<close>

definition first_text :: "comment_row \<Rightarrow> string" where
  "first_text c = (case cr_original_text c of None \<Rightarrow> cr_text c | Some t \<Rightarrow> t)"

text \<open>What never changes of a comment.\<close>

definition comment_origin :: "comment_row \<Rightarrow> string \<times> string \<times> string \<times> string" where
  "comment_origin c = (cr_issue c, cr_author c, cr_created_at c, first_text c)"

definition origins :: "bead_db \<Rightarrow> nat \<Rightarrow> (string \<times> string \<times> string \<times> string) option" where
  "origins db n = map_option comment_origin (comment_of db n)"

lemma comment_of_cong [simp]:
  "comment_of (db\<lparr> db_deps := x \<rparr>) n = comment_of db n" "comment_of (db\<lparr> db_issues := y \<rparr>) n = comment_of db n"
  "comment_of (db\<lparr> db_events := z \<rparr>) n = comment_of db n" "comment_of (db\<lparr> db_fts := w \<rparr>) n = comment_of db n"
  "comment_of (db\<lparr> db_next_comment := k \<rparr>) n = comment_of db n" "comment_of (set_row i f db) n = comment_of db n"
  "comment_of (touch now i db) n = comment_of db n"
  by (simp_all add: comment_of_def touch_def)

lemma comment_of_set:
  "(\<And>c. cr_id (f c) = cr_id c) \<Longrightarrow> comment_of (set_comment k f db) n = (if n = k then map_option f (comment_of db n) else comment_of db n)"
proof -
  assume f: "\<And>c. cr_id (f c) = cr_id c"
  have "List.find (\<lambda>c. cr_id c = n) (map (\<lambda>c. if cr_id c = k then f c else c) cs)
      = (if n = k then map_option f (List.find (\<lambda>c. cr_id c = n) cs) else List.find (\<lambda>c. cr_id c = n) cs)" for cs
    using f by (induction cs) auto
  then show ?thesis by (simp add: comment_of_def set_comment_def)
qed

lemma origins_fields: "update_bead_fields now bead_id u db = Inr (db', names) \<Longrightarrow> comment_of db' n = comment_of db n"
proof -
  have col: "comment_of (fst (update_column now i field v f dn)) n = comment_of (fst dn) n" for i field v f and dn :: "bead_db \<times> string list"
    by (cases v) (simp_all add: update_column_def)
  show "update_bead_fields now bead_id u db = Inr (db', names) \<Longrightarrow> comment_of db' n = comment_of db n"
    by (auto simp: update_bead_fields_def Let_def case_prod_unfold resync_fts_def update_files_def col split: sum.splits if_splits)
qed

lemma comment_of_bead_ops:
  "comment_of (db_or db (create_bead_full now b db)) n = comment_of db n"
  "comment_of (db_or db (set_files now i fs ts db)) n = comment_of db n"
  "comment_of (db_or db (set_assignee now i a db)) n = comment_of db n"
  "comment_of (db_or db (set_user_id i a db)) n = comment_of db n"
  "comment_of (db_or db (set_external_ref now i a db)) n = comment_of db n"
  "comment_of (db_or db (restore_timestamps i c u db)) n = comment_of db n"
  "comment_of (db_or db (set_status_verbatim now i s db)) n = comment_of db n"
  "comment_of (db_or db (close_bead now i db)) n = comment_of db n"
  "comment_of (db_or db (add_dependency_typed now i t ty db)) n = comment_of db n"
  "comment_of (db_or db (remove_dependency now i t db)) n = comment_of db n"
  unfolding set_files_def set_assignee_def set_user_id_def set_external_ref_def restore_timestamps_def
    set_status_verbatim_def restore_status_def close_bead_def add_dependency_typed_def remove_dependency_def Let_def
  by (simp add: create_shape db_or_def) (rule or_with_bead or_with_edge; simp)+

lemma comment_of_other_ops:
  "comment_of (db_or db (update_status now i s db)) n = comment_of db n"
  "comment_of (restore_dependency_typed i t ty db) n = comment_of db n"
  "comment_of (db_or db (replace_dependencies i ds db)) n = comment_of db n"
  "comment_of (log_event now i ty d db) n = comment_of db n"
  "comment_of (canonicalize_statuses db) n = comment_of db n"
  by (auto simp: db_or_def update_status_def with_bead_def Let_def restore_dependency_typed_def replace_dependencies_def
      log_event_def canonicalize_map split: sum.splits option.splits)

lemma comment_of_append: "comment_of db n = Some c \<Longrightarrow> comment_of (db\<lparr> db_comments := db_comments db @ cs \<rparr>) n = Some c"
proof -
  have "List.find (\<lambda>c. cr_id c = n) xs = Some c \<Longrightarrow> List.find (\<lambda>c. cr_id c = n) (xs @ cs) = Some c" for xs
    by (induction xs) auto
  then show "comment_of db n = Some c \<Longrightarrow> comment_of (db\<lparr> db_comments := db_comments db @ cs \<rparr>) n = Some c"
    by (simp add: comment_of_def)
qed

lemma origin_exec:
  assumes "comment_of db n = Some c" "op1 \<noteq> HardDeleteComment n"
  shows "\<exists>c'. comment_of (exec_op now op1 db) n = Some c' \<and> comment_origin c' = comment_origin c"
proof (cases op1)
  case (AddComment i b a)
  have "comment_of (db_or db (add_comment now i b a db)) n = Some c"
    unfolding add_comment_def Let_def
    by (rule or_with_bead) (use comment_of_append [OF assms(1)] assms(1) in simp_all)
  then show ?thesis by (simp add: AddComment)
next
  case (UpdateComment m b r)
  then show ?thesis using assms(1)
    by (auto simp: update_comment_def Let_def comment_of_set comment_origin_def first_text_def split: option.splits)
next
  case (DeleteComment m r)
  then show ?thesis using assms(1)
    by (auto simp: delete_comment_def db_or_def comment_of_set comment_origin_def first_text_def split: option.splits)
next
  case (HardDeleteComment m)
  have "List.find (\<lambda>c. cr_id c = n) (filter (\<lambda>c. cr_id c \<noteq> m) cs) = List.find (\<lambda>c. cr_id c = n) cs" if "m \<noteq> n" for cs
    using that by (induction cs) auto
  then have "comment_of (db\<lparr> db_comments := filter (\<lambda>c. cr_id c \<noteq> m) (db_comments db) \<rparr>) n = comment_of db n"
    using assms(2) HardDeleteComment by (simp add: comment_of_def)
  then show ?thesis using assms(1) HardDeleteComment by (simp add: hard_delete_comment_def db_or_def)
qed (use assms(1) origins_fields in \<open>auto simp: comment_of_bead_ops comment_of_other_ops split: sum.splits\<close>)

text \<open>
  Unless it is deleted for good, a comment keeps its bead, its author, its time and the text it was
  written with, through all later edits and soft deletions. Writing a comment marks the bead as updated;
  editing or deleting one does not, so that an exchange between stores that goes by that time never sees
  the edit.
\<close>

theorem comments_keep_their_origin:
  "(comment_of db n = Some c \<and> HardDeleteComment n \<notin> snd ` set ops \<longrightarrow>
      (\<exists>c'. comment_of (run_ops ops db) n = Some c' \<and> comment_origin c' = comment_origin c))
   \<and> (row_of db i = Some r \<longrightarrow> row_of (exec_op now (AddComment i b a) db) i = Some (r\<lparr> ir_updated_at := now \<rparr>))
   \<and> db_issues (exec_op now (UpdateComment n b reason) db) = db_issues db
   \<and> db_issues (exec_op now (DeleteComment n reason) db) = db_issues db
   \<and> db_issues (exec_op now (HardDeleteComment n) db) = db_issues db"
proof -
  have "\<exists>c'. comment_of (run_ops ops db) n = Some c' \<and> comment_origin c' = comment_origin c"
    if "comment_of db n = Some c" "HardDeleteComment n \<notin> snd ` set ops" for db c
    using that
  proof (induction ops arbitrary: db c)
    case (Cons o1 ops)
    obtain c' where c': "comment_of (exec_op (fst o1) (snd o1) db) n = Some c'" "comment_origin c' = comment_origin c"
      using origin_exec [OF Cons.prems(1), of "snd o1" "fst o1"] Cons.prems(2) by auto
    have "run_ops (o1 # ops) db = run_ops ops (exec_op (fst o1) (snd o1) db)" by (simp add: run_ops_def case_prod_unfold)
    then show ?case using Cons.IH [OF c'(1)] Cons.prems(2) c'(2) by auto
  qed (simp add: run_ops_def)
  moreover have "row_of (exec_op now (AddComment i b a) db) i = Some (r\<lparr> ir_updated_at := now \<rparr>)" if "row_of db i = Some r"
    using that row_of_Some [OF that]
    by (simp add: add_comment_def Let_def with_bead_def resolve_id_def db_or_def touch_def row_of_set_row keeps_id_def)
  ultimately show ?thesis
    by (simp add: update_comment_def delete_comment_def hard_delete_comment_def set_comment_def db_or_def Let_def
        split: option.splits)
qed

theorem comments_keep_their_origin_witness:
  "\<exists>c. comment_of (run_ops [(''t'', UpdateComment 1 ''edited'' None), (''u'', DeleteComment 1 None)] sample_db) 1 = Some c
    \<and> first_text c = ''done'' \<and> cr_author c = ''dev''"
proof -
  obtain c where c: "comment_of sample_db 1 = Some c" "comment_origin c = (''app-1'', ''dev'', ''2026-01-01 00:00:05'', ''done'')"
  proof -
    have "map_option comment_origin (comment_of sample_db 1) = Some (''app-1'', ''dev'', ''2026-01-01 00:00:05'', ''done'')"
      by code_simp
    then show ?thesis using that by auto
  qed
  let ?ops = "[(''t'', UpdateComment 1 ''edited'' None), (''u'', DeleteComment 1 None)]"
  have "HardDeleteComment 1 \<notin> snd ` set ?ops" by simp
  then obtain c' where "comment_of (run_ops ?ops sample_db) 1 = Some c'" "comment_origin c' = comment_origin c"
    using comments_keep_their_origin [of sample_db 1 c ?ops] c(1) by blast
  then show ?thesis using c(2) by (auto simp: comment_origin_def)
qed

section \<open>Reading what was written\<close>

lemma get_strings_array [simp]: "json_get v k = Some (json_strings xs) \<Longrightarrow> get_strings v k = xs"
  by (simp add: get_strings_def json_strings_def List.map_filter_def filter_True o_def)

lemma json_get_set: "is_object v \<Longrightarrow> json_get (json_set v k x) j = (if j = k then Some x else json_get v j)"
  by (cases v) (auto simp: json_set_def bt_simps)

lemma created_notes_read:
  "parse_files_from_notes (created_notes b) = (nb_files b, nb_test_files b)"
  "parse_derived_from_notes (created_notes b) = nb_derived_from b"
  by (auto simp: created_notes_def parse_files_from_notes_def parse_derived_from_notes_def)

text \<open>New files replace the old ones and nothing else of the notes.\<close>

lemma notes_with_files_read:
  assumes "notes_ok n"
  shows "parse_files_from_notes (Some (notes_with_files n (Some fs) (Some ts))) = (fs, ts)"
    "parse_derived_from_notes (Some (notes_with_files n fs' ts')) = parse_derived_from_notes n"
  using assms
  by (cases n; simp add: notes_with_files_def notes_ok_def Let_def parse_files_from_notes_def parse_derived_from_notes_def json_get_set)+

lemma resolve_self: "row_of db i = Some r \<Longrightarrow> resolve_id db i = Inr i"
  using row_of_Some [of db i r] by (simp add: resolve_id_def)

text \<open>
  A bead that was created is read back as it was given, with title and description scrubbed, an owner that
  is empty read as none, and the status open; an identifier that is taken is an error. New files replace
  the old ones and leave its provenance alone.
\<close>

theorem created_bead_reads_back:
  assumes "row_of db (nb_id b) = None" "nb_priority b < 256" "parse now = Some t"
  shows "\<exists>db' x. create_bead_full now b db = Inr db' \<and> get_bead parse db' (nb_id b) repo = Inr (Some x)
      \<and> b_id x = nb_id b \<and> b_title x = scrub_and_warn (nb_title b) \<and> b_description x = scrub_and_warn (nb_description b)
      \<and> b_status x = ''open'' \<and> b_priority x = nb_priority b \<and> b_issue_type x = nb_issue_type b
      \<and> b_owner x = (if nb_owner b = [] then None else Some (nb_owner b)) \<and> b_repo x = repo
      \<and> b_created_at x = t \<and> b_updated_at x = t \<and> b_files x = nb_files b \<and> b_test_files x = nb_test_files b
      \<and> b_created_by x = nb_created_by b \<and> b_scope x = nb_scope b \<and> b_derived_from x = nb_derived_from b
      \<and> b_acceptance_criteria x = nb_acceptance_criteria b \<and> b_external_ref x = None
      \<and> create_bead_full now' b db' = Inl (DuplicateKey (nb_id b))
      \<and> (\<exists>y. get_bead parse (db_or db' (set_files now (nb_id b) fs ts db')) (nb_id b) repo = Inr (Some y)
            \<and> b_files y = fs \<and> b_test_files y = ts \<and> b_derived_from y = nb_derived_from b)"
proof -
  let ?r = "created_row now b" and ?i = "nb_id b"
  define db' where "db' = db\<lparr> db_issues := db_issues db @ [?r],
    db_deps := foldl (\<lambda>ds t. insert_or_ignore ?i t ds) (db_deps db) (nb_depends_on b),
    db_fts := db_fts db @ [fts_key ?r] \<rparr>"
  have c: "create_bead_full now b db = Inr db'" using assms(1) by (simp add: create_shape db'_def)
  have r: "row_of db' ?i = Some ?r" using assms(1) by (simp add: db'_def row_of_append)
  have p: "nat (int (nb_priority b) mod 256) = nb_priority b" using assms(2) by simp
  have files: "ir_notes ?r = created_notes b" by (simp add: created_row_def)
  have n: "notes_ok (created_notes b)" by (simp add: created_notes_def notes_ok_def)
  let ?db = "db_or db' (set_files now ?i fs ts db')"
  let ?n = "json_set (json_set (case created_notes b of None \<Rightarrow> JObj [] | Some v \<Rightarrow> if is_object v then v else JObj [])
    ''files'' (json_strings fs)) ''test_files'' (json_strings ts)"
  have "row_of ?db ?i = Some (?r\<lparr> ir_notes := Some ?n, ir_updated_at := now \<rparr>)"
    using resolve_self [OF r] by (simp add: set_files_def with_bead_def db_or_def row_of_set_row keeps_id_def r Let_def files)
  moreover have "?n = notes_with_files (created_notes b) (Some fs) (Some ts)"
    by (simp add: notes_with_files_def created_notes_def)
  ultimately have r': "row_of ?db ?i = Some (?r\<lparr> ir_notes := Some (notes_with_files (created_notes b) (Some fs) (Some ts)), ir_updated_at := now \<rparr>)"
    by simp
  have "create_bead_full now' b db' = Inl (DuplicateKey ?i)" using r by (simp add: create_shape)
  moreover have "\<exists>y. get_bead parse ?db ?i repo = Inr (Some y) \<and> b_files y = fs \<and> b_test_files y = ts \<and> b_derived_from y = nb_derived_from b"
    using assms(3) by (simp add: get_bead_def resolve_self [OF r'] r' read_bead_def bead_from_row_def created_row_def
        notes_with_files_read [OF n] created_notes_read)
  moreover have "get_bead parse db' ?i repo = Inr (Some (the (read_bead parse db' repo ?r)))"
    using assms(3) by (simp add: get_bead_def resolve_self [OF r] r read_bead_def bead_from_row_def created_row_def)
  ultimately show ?thesis
    using assms(2,3) c by (intro exI [of _ db'] exI [of _ "the (read_bead parse db' repo ?r)"])
      (simp add: read_bead_def bead_from_row_def created_row_def created_notes_read p)
qed

theorem created_bead_reads_back_witness:
  "\<exists>db' x. create_bead_full ''t'' (default_new_bead\<lparr> nb_id := ''app-2'', nb_title := ''More'', nb_files := [''a.rs''] \<rparr>) sample_db = Inr db'
    \<and> get_bead (\<lambda>_. Some 7) db' ''app-2'' ''app'' = Inr (Some x) \<and> b_files x = [''a.rs''] \<and> b_created_at x = 7"
proof -
  let ?b = "default_new_bead\<lparr> nb_id := ''app-2'', nb_title := ''More'', nb_files := [''a.rs''] \<rparr>"
  have "row_of sample_db (nb_id ?b) = None" by code_simp
  moreover have "nb_priority ?b < 256" "nb_id ?b = ''app-2''" "nb_files ?b = [''a.rs'']" by (simp_all add: default_new_bead_def)
  ultimately show ?thesis
    using created_bead_reads_back [of sample_db ?b "\<lambda>_. Some 7" "''t''" 7 "''app''"] by metis
qed

section \<open>Counts\<close>

text \<open>The searches count a blocker that is not in the store, the lists do not.\<close>

lemma search_counts_dangling:
  "search_dependency_count db i = dependency_count db i
     + length (filter (\<lambda>d. dr_issue d = i \<and> row_of db (dr_target d) = None) (db_deps db))"
proof -
  have "length (filter (\<lambda>d. dr_issue d = i \<and> (case row_of db (dr_target d) of None \<Rightarrow> True | Some r \<Rightarrow> open_blocker r)) ds)
    = length (filter (\<lambda>d. dr_issue d = i \<and> (case row_of db (dr_target d) of None \<Rightarrow> False | Some r \<Rightarrow> open_blocker r)) ds)
      + length (filter (\<lambda>d. dr_issue d = i \<and> row_of db (dr_target d) = None) ds)" for ds
    by (induction ds) (auto split: option.splits)
  then show ?thesis by (simp add: search_dependency_count_def dependency_count_def)
qed

end
