(* ===== verification/Comment_Log.thy ===== *)
theory Comment_Log
  imports Store_Behaviour
begin

text \<open>
  The comments of a bead as an append-only log: the interface through which beads are copied between
  stores, and the bead store as an implementation of it.
\<close>

section \<open>The interface\<close>

text \<open>
  \<open>append_entry\<close> writes an entry, \<open>entries\<close> reads them all in order; \<open>ready\<close> says of a store that
  entries can be written to it.
\<close>

locale comment_log =
  fixes append_entry :: "'c \<Rightarrow> 's \<Rightarrow> 'e + 's"
    and entries :: "'s \<Rightarrow> 'c list"
    and ready :: "'s \<Rightarrow> bool"
    and stored :: "'c \<Rightarrow> 'c"
  assumes append_ok: "ready s \<Longrightarrow> \<exists>s'. append_entry c s = Inr s' \<and> ready s' \<and> entries s' = entries s @ [stored c]"
begin

definition append_all :: "'c list \<Rightarrow> 's \<Rightarrow> 'e + 's" where
  "append_all cs s = foldl (\<lambda>r c. case r of Inl e \<Rightarrow> Inl e | Inr d \<Rightarrow> append_entry c d) (Inr s) cs"

lemma append_all_ok:
  "ready s \<Longrightarrow> \<exists>s'. append_all cs s = Inr s' \<and> ready s' \<and> entries s' = entries s @ map stored cs"
proof (induction cs arbitrary: s)
  case (Cons c cs)
  obtain s1 where s1: "append_entry c s = Inr s1" "ready s1" "entries s1 = entries s @ [stored c]"
    using append_ok [OF Cons.prems, of c] by blast
  have "append_all (c # cs) s = append_all cs s1" by (simp add: append_all_def s1(1))
  then show ?case using Cons.IH [OF s1(2)] s1(3) by auto
qed (simp add: append_all_def)

end

section \<open>The store as a log\<close>

definition comment_rows :: "bead_db \<Rightarrow> string \<Rightarrow> comment_row list" where
  "comment_rows db i = sort_key cr_created_at (sort_key cr_id (filter (\<lambda>c. cr_issue c = i) (db_comments db)))"

definition entry_of :: "comment_row \<Rightarrow> string \<times> string" where
  "entry_of c = (cr_text c, cr_author c)"

definition log_of :: "string \<Rightarrow> bead_db \<Rightarrow> (string \<times> string) list" where
  "log_of i db = map entry_of (comment_rows db i)"

text \<open>
  Entries are written to a bead that is there, at a time that is not before any entry; its row \<open>r\<close> stays
  but for the time of its last change.
\<close>

definition log_ready :: "string \<Rightarrow> string \<Rightarrow> issue_row \<Rightarrow> bead_db \<Rightarrow> bool" where
  "log_ready now i r db \<longleftrightarrow> row_of db i \<in> {Some r, Some (r\<lparr> ir_updated_at := now \<rparr>)}
     \<and> (\<forall>c \<in> set (db_comments db). cr_id c < db_next_comment db)
     \<and> (\<forall>c \<in> set (db_comments db). cr_issue c = i \<longrightarrow> cr_created_at c \<le> now)"

definition append_comment :: "string \<Rightarrow> string \<Rightarrow> string \<times> string \<Rightarrow> bead_db \<Rightarrow> store_error + bead_db" where
  "append_comment now i c db = add_comment now i (fst c) (snd c) db"

lemma insort_snoc: "k x \<le> k c \<Longrightarrow> insort_key k x (ys @ [c]) = insort_key k x ys @ [c]"
  by (induction ys) auto

lemma sort_snoc: "\<forall>x \<in> set xs. k x \<le> k c \<Longrightarrow> sort_key k (xs @ [c]) = sort_key k xs @ [c]"
  by (induction xs) (auto simp: insort_snoc)

lemma add_comment_row:
  assumes "row_of db i = Some r"
  shows "\<exists>c. add_comment now i b a db = Inr (touch now i (db\<lparr> db_comments := db_comments db @ [c], db_next_comment := db_next_comment db + 1 \<rparr>))
     \<and> cr_issue c = i \<and> cr_text c = scrub_and_warn b \<and> cr_author c = a \<and> cr_created_at c = now \<and> cr_id c = db_next_comment db
     \<and> cr_deleted_at c = None \<and> cr_edited_at c = None"
  using resolve_self [OF assms]
  by (intro exI [of _ "\<lparr> cr_id = db_next_comment db, cr_issue = i, cr_text = scrub_and_warn b, cr_author = a,
        cr_created_at = now, cr_edited_at = None, cr_edit_reason = None, cr_original_text = None,
        cr_deleted_at = None, cr_delete_reason = None \<rparr>"])
    (simp add: add_comment_def with_bead_def Let_def)

lemma comment_rows_cong [simp]:
  "comment_rows (set_row j f db) i = comment_rows db i" "comment_rows (touch now j db) i = comment_rows db i"
  "comment_rows (db\<lparr> db_deps := x \<rparr>) i = comment_rows db i" "comment_rows (db\<lparr> db_issues := y \<rparr>) i = comment_rows db i"
  "comment_rows (db\<lparr> db_events := z \<rparr>) i = comment_rows db i" "comment_rows (db\<lparr> db_fts := w \<rparr>) i = comment_rows db i"
  by (simp_all add: comment_rows_def touch_def)

lemma comment_rows_append:
  assumes "log_ready now i r db" "cr_issue c = i" "cr_created_at c = now" "cr_id c = db_next_comment db"
  shows "comment_rows (db\<lparr> db_comments := db_comments db @ [c], db_next_comment := n \<rparr>) i = comment_rows db i @ [c]"
proof -
  have "sort_key cr_id (filter (\<lambda>c. cr_issue c = i) (db_comments db) @ [c])
      = sort_key cr_id (filter (\<lambda>c. cr_issue c = i) (db_comments db)) @ [c]"
    by (rule sort_snoc) (use assms in \<open>auto simp: log_ready_def less_imp_le\<close>)
  moreover have "sort_key cr_created_at (sort_key cr_id (filter (\<lambda>c. cr_issue c = i) (db_comments db)) @ [c])
      = comment_rows db i @ [c]"
    unfolding comment_rows_def by (rule sort_snoc) (use assms in \<open>auto simp: log_ready_def\<close>)
  ultimately show ?thesis using assms(2) by (simp add: comment_rows_def)
qed

lemma log_ready_touch: "log_ready now i r db \<Longrightarrow> log_ready now i r (touch now i db)"
  by (auto simp: log_ready_def touch_def row_of_set_row keeps_id_def)

lemma append_comment_ok:
  assumes "log_ready now i r db"
  shows "\<exists>db'. append_comment now i c db = Inr db' \<and> log_ready now i r db'
    \<and> log_of i db' = log_of i db @ [(scrub_and_warn (fst c), snd c)]"
proof -
  obtain r' where r: "row_of db i = Some r'" using assms by (auto simp: log_ready_def)
  obtain q where q: "add_comment now i (fst c) (snd c) db
      = Inr (touch now i (db\<lparr> db_comments := db_comments db @ [q], db_next_comment := db_next_comment db + 1 \<rparr>))"
    "cr_issue q = i" "cr_text q = scrub_and_warn (fst c)" "cr_author q = snd c" "cr_created_at q = now" "cr_id q = db_next_comment db"
    using add_comment_row [OF r, of now "fst c" "snd c"] by blast
  have "log_ready now i r (db\<lparr> db_comments := db_comments db @ [q], db_next_comment := db_next_comment db + 1 \<rparr>)"
    using assms q by (auto simp: log_ready_def less_Suc_eq)
  then show ?thesis
    using q comment_rows_append [OF assms q(2,5,6)] 
    by (simp add: append_comment_def log_of_def entry_of_def log_ready_touch)
qed

interpretation bead_log: comment_log "append_comment now i" "log_of i" "log_ready now i r" "\<lambda>c. (scrub_and_warn (fst c), snd c)" for now i r
  by unfold_locales (rule append_comment_ok)

end
