(* ===== verification/Default_Agents.thy ===== *)
theory Default_Agents
  imports Pipeline
begin

text \<open>
  The agents of an issue type as dispatch knows them (\<open>agent_pipeline\<close> and \<open>default_agent\<close> of
  \<open>src/dispatch/mod.rs\<close>) and as the configuration has them by default (\<open>default_pipelines\<close> of
  \<open>src/config/mod.rs\<close>).
\<close>

definition agent_pipeline :: "string \<Rightarrow> string list" where
  "agent_pipeline issue_type =
     (if issue_type = ''bug'' then [''scoping-agent'', ''dev-agent'', ''staging-agent'']
      else if issue_type = ''feature'' then [''scoping-agent'', ''dev-agent'', ''staging-agent'', ''prod-agent'']
      else if issue_type = ''task'' \<or> issue_type = ''chore'' then [''dev-agent'']
      else if issue_type = ''review'' then [''staging-agent'']
      else if issue_type = ''design'' \<or> issue_type = ''research'' then [''architect-agent'']
      else if issue_type = ''epic'' then [''pm-agent'']
      else [''dev-agent''])"

definition dispatch_default_agent :: "string \<Rightarrow> string" where
  "dispatch_default_agent issue_type = (case agent_pipeline issue_type of [] \<Rightarrow> ''dev-agent'' | a # _ \<Rightarrow> a)"

datatype permission_profile = ReadOnly | Plan | Implement

definition permission_profile :: "string \<Rightarrow> permission_profile" where
  "permission_profile issue_type =
     (if issue_type = ''review'' then ReadOnly
      else if issue_type \<in> {''epic'', ''design'', ''research''} then Plan
      else Implement)"

definition default_pipelines :: "string \<Rightarrow> string list option" where
  "default_pipelines =
     [''bug'' \<mapsto> [''scoping-agent'', ''dev-agent'', ''staging-agent''],
      ''feature'' \<mapsto> [''scoping-agent'', ''dev-agent'', ''staging-agent'', ''prod-agent''],
      ''task'' \<mapsto> [''dev-agent''], ''chore'' \<mapsto> [''dev-agent''], ''review'' \<mapsto> [''staging-agent''],
      ''design'' \<mapsto> [''architect-agent''], ''research'' \<mapsto> [''architect-agent''], ''epic'' \<mapsto> [''pm-agent'']]"

text \<open>The two tables agree, as the comment at the first one demands.\<close>

lemma pipelines_agree:
  "agents_for \<lparr> pe_definitions = default_pipelines, pe_max_depth = 0 \<rparr> issue_type = agent_pipeline issue_type"
  "default_agent \<lparr> pe_definitions = default_pipelines, pe_max_depth = 0 \<rparr> issue_type = dispatch_default_agent issue_type"
  by (simp_all add: agents_for_def agent_pipeline_def default_pipelines_def default_agent_def dispatch_default_agent_def
      DEFAULT_AGENT_def)

end
