(* ===== verification/Bead_Move.thy ===== *)
theory Bead_Move
  imports Comment_Log Default_Agents
begin

text \<open>
  Moving a bead to the store of another repository (\<open>src/bead_move.rs\<close>): the bead is created anew there
  with its comments, and the one it was is closed with a tombstone.

  \<open>now\<close> is the time of the move, \<open>parse\<close> reads timestamps.
\<close>

section \<open>The move\<close>

definition then_op :: "store_error + bead_db \<Rightarrow> (bead_db \<Rightarrow> store_error + bead_db) \<Rightarrow> store_error + bead_db" where
  "then_op r f = (case r of Inl e \<Rightarrow> Inl e | Inr d \<Rightarrow> f d)"

text \<open>The \<open>Debug\<close> form of a list of identifiers, characters that need an escape with one of two letters.\<close>

definition escape_char :: "char \<Rightarrow> string" where
  "escape_char c =
     (if c = CHR 0x22 \<or> c = CHR 0x5C then [CHR 0x5C, c]
      else if c = CHR 0x0A then [CHR 0x5C, CHR ''n'']
      else if c = CHR 0x0D then [CHR 0x5C, CHR ''r'']
      else if c = CHR 0x09 then [CHR 0x5C, CHR ''t'']
      else if c = CHR 0x00 then [CHR 0x5C, CHR ''0'']
      else [c])"

definition debug_str :: "string \<Rightarrow> string" where
  "debug_str s = CHR 0x22 # concat (map escape_char s) @ [CHR 0x22]"

definition debug_list :: "string list \<Rightarrow> string" where
  "debug_list xs = ''['' @ join_with '', '' (map debug_str xs) @ '']''"

text \<open>An arrow in UTF-8.\<close>

definition moved_arrow :: string where
  "moved_arrow = ''moved '' @ [CHR 0xE2, CHR 0x86, CHR 0x92]"

definition is_tombstone :: "comment \<Rightarrow> bool" where
  "is_tombstone c \<longleftrightarrow> cm_author c = ''rsry-move'' \<and> starts_with (cm_text c) moved_arrow"

record move_outcome =
  mv_new_id :: string
  mv_status :: string
  mv_comments_copied :: nat
  mv_dangling :: "string list"
  mv_orphaned :: "string list"

datatype move_error = MoveStore store_error | MoveNotFound string | AlreadyMoved string

definition relocated :: "bead \<Rightarrow> string \<Rightarrow> string \<Rightarrow> new_bead" where
  "relocated b source_repo new_id =
     default_new_bead\<lparr> nb_id := new_id, nb_title := b_title b, nb_description := b_description b,
       nb_priority := b_priority b, nb_issue_type := b_issue_type b,
       nb_owner := (case b_owner b of
                      None \<Rightarrow> dispatch_default_agent (b_issue_type b)
                    | Some w \<Rightarrow> if w = [] then dispatch_default_agent (b_issue_type b) else w),
       nb_files := b_files b, nb_test_files := b_test_files b, nb_created_by := b_created_by b,
       nb_scope := b_scope b,
       nb_derived_from := b_derived_from b @ [FromManual (''moved from '' @ b_id b @ '' ('' @ source_repo @ '')'')],
       nb_acceptance_criteria := b_acceptance_criteria b \<rparr>"

definition edge_note :: "string \<Rightarrow> string list \<Rightarrow> string list \<Rightarrow> string" where
  "edge_note source_repo dangling orphaned =
     ''cross-repo dependency edges after move from '' @ source_repo @ '': depends_on='' @ debug_list dangling
     @ '', dependents='' @ debug_list orphaned @ '' '' @ [CHR 0xE2, CHR 0x80, CHR 0x94]
     @ '' re-link manually (cross-repo dep rewrite is follow-up work)''"

definition copy_comments :: "string \<Rightarrow> string \<Rightarrow> comment list \<Rightarrow> bead_db \<Rightarrow> store_error + bead_db" where
  "copy_comments now i cs db = foldl (\<lambda>r c. then_op r (add_comment now i (cm_text c) (cm_author c))) (Inr db) cs"

text \<open>The destination after the bead was created in it: status, reference, comments and the note of the edges.\<close>

definition fill_destination :: "string \<Rightarrow> bead \<Rightarrow> string \<Rightarrow> string \<Rightarrow> comment list \<Rightarrow> string list \<Rightarrow> string list
    \<Rightarrow> bead_db \<Rightarrow> store_error + bead_db" where
  "fill_destination now b source_repo new_id live dangling orphaned d =
     then_op (then_op (then_op (then_op
       (if state_of_str (b_status b) = Done then close_bead now new_id d else Inr d)
       (\<lambda>d. case b_external_ref b of None \<Rightarrow> Inr d | Some ext \<Rightarrow> set_external_ref now new_id ext d))
       (copy_comments now new_id live))
       (\<lambda>d. if dangling \<noteq> [] \<or> orphaned \<noteq> []
            then add_comment now new_id (edge_note source_repo dangling orphaned) ''rsry-move'' d else Inr d))
       (\<lambda>d. Inr (log_event now new_id ''moved_from'' (b_id b @ '' ('' @ source_repo @ '')'') d))"

definition bury_source :: "string \<Rightarrow> string \<Rightarrow> string \<Rightarrow> string \<Rightarrow> bead_db \<Rightarrow> store_error + bead_db" where
  "bury_source now i new_id dest_repo s =
     then_op (add_comment now i (moved_arrow @ '' '' @ new_id @ '' ('' @ dest_repo @ '')'') ''rsry-move'' s)
       (\<lambda>s. close_bead now i (log_event now i ''moved_to'' (new_id @ '' ('' @ dest_repo @ '')'') s))"

text \<open>
  The two stores after the move and its result. That nothing fails after the bead was created is proved
  below; the stores are those before the failing part otherwise.
\<close>

definition move_bead :: "(string \<Rightarrow> int option) \<Rightarrow> string \<Rightarrow> bead_db \<Rightarrow> string \<Rightarrow> bead_db \<Rightarrow> string \<Rightarrow> string \<Rightarrow> string
    \<Rightarrow> bead_db \<times> bead_db \<times> (move_error + move_outcome)" where
  "move_bead parse now source source_repo dest dest_repo bead_id new_id =
     (case get_bead parse source bead_id source_repo of
        Inl e \<Rightarrow> (source, dest, Inl (MoveStore e))
      | Inr None \<Rightarrow> (source, dest, Inl (MoveNotFound bead_id))
      | Inr (Some b) \<Rightarrow>
          (case list_comments parse source (b_id b) True of
             Inl e \<Rightarrow> (source, dest, Inl (MoveStore e))
           | Inr source_comments \<Rightarrow>
               if \<exists>c \<in> set source_comments. is_tombstone c then (source, dest, Inl (AlreadyMoved (b_id b)))
               else
                 (let live = filter (\<lambda>c. cm_deleted_at c = None) source_comments;
                      dangling = get_dependencies source (b_id b);
                      orphaned = get_dependents source (b_id b)
                  in case create_bead_full now (relocated b source_repo new_id) dest of
                       Inl e \<Rightarrow> (source, dest, Inl (MoveStore e))
                     | Inr d \<Rightarrow>
                         (case fill_destination now b source_repo new_id live dangling orphaned d of
                            Inl e \<Rightarrow> (source, d, Inl (MoveStore e))
                          | Inr d' \<Rightarrow>
                              (case bury_source now (b_id b) new_id dest_repo source of
                                 Inl e \<Rightarrow> (source, d', Inl (MoveStore e))
                               | Inr s' \<Rightarrow> (s', d', Inr \<lparr> mv_new_id = new_id, mv_status = b_status b,
                                   mv_comments_copied = length live, mv_dangling = dangling,
                                   mv_orphaned = orphaned \<rparr>))))))"

section \<open>The destination\<close>

lemma resolve_ids:
  assumes "map ir_id (db_issues d) = map ir_id (db_issues db)"
  shows "resolve_id d j = resolve_id db j"
proof -
  have "ir_id ` set (db_issues d) = ir_id ` set (db_issues db)" by (simp only: set_map [symmetric] assms)
  then have none: "row_of d j = None \<longleftrightarrow> row_of db j = None" by (simp add: row_of_None)
  show ?thesis
  proof (cases "row_of d j")
    case None
    then show ?thesis using none by (simp add: resolve_id_def assms)
  next
    case (Some r)
    then obtain q where "row_of db j = Some q" using none by (cases "row_of db j") auto
    then show ?thesis using Some by (simp add: resolve_self)
  qed
qed

lemma copy_comments_log:
  "copy_comments now i cs db = bead_log.append_all now i (map (\<lambda>c. (cm_text c, cm_author c)) cs) db"
  by (simp add: copy_comments_def bead_log.append_all_def foldl_map then_op_def append_comment_def cong: sum.case_cong)

lemma log_ready_set_row:
  "log_ready now i r db \<Longrightarrow> keeps_id f \<Longrightarrow> (\<And>q. f (q\<lparr> ir_updated_at := now \<rparr>) = f q) \<Longrightarrow> f r = r'\<lparr> ir_updated_at := now \<rparr> \<Longrightarrow>
     log_ready now i r' (set_row i f db)"
  by (auto simp: log_ready_def row_of_set_row)

lemma log_of_cong [simp]:
  "log_of i (set_row j f db) = log_of i db" "log_of i (db\<lparr> db_events := z \<rparr>) = log_of i db"
  by (simp_all add: log_of_def)

lemma log_ready_events [simp]: "log_ready now i r (db\<lparr> db_events := z \<rparr>) = log_ready now i r db"
  by (simp add: log_ready_def)

lemma log_event_parts: "\<exists>z. log_event now i ty d db = db\<lparr> db_events := z \<rparr>"
  by (cases "if starts_with i ''_'' then Inr i else resolve_id db i")
    (auto simp: log_event_def intro: exI [of _ "db_events db"])

lemma log_ready_row: "log_ready now i r db \<Longrightarrow> resolve_id db i = Inr i"
  by (auto simp: log_ready_def intro: resolve_self)

text \<open>The row and the log of the new bead.\<close>

definition filled_row :: "bead \<Rightarrow> issue_row \<Rightarrow> issue_row" where
  "filled_row b r =
     r\<lparr> ir_status := (if state_of_str (b_status b) = Done then ''done'' else ir_status r),
        ir_external_ref := (case b_external_ref b of None \<Rightarrow> ir_external_ref r | Some e \<Rightarrow> Some e) \<rparr>"

definition filled_log :: "string \<Rightarrow> comment list \<Rightarrow> string list \<Rightarrow> string list \<Rightarrow> (string \<times> string) list" where
  "filled_log source_repo live dangling orphaned =
     map (\<lambda>c. (scrub_and_warn (cm_text c), cm_author c)) live
     @ (if dangling \<noteq> [] \<or> orphaned \<noteq> [] then [(scrub_and_warn (edge_note source_repo dangling orphaned), ''rsry-move'')] else [])"

lemma fill_ok:
  assumes "log_ready now i r d" "ir_updated_at r = now"
  shows "\<exists>d'. fill_destination now b source_repo i live dangling orphaned d = Inr d'
    \<and> log_ready now i (filled_row b r) d' \<and> log_of i d' = log_of i d @ filled_log source_repo live dangling orphaned"
proof -
  let ?r1 = "r\<lparr> ir_status := (if state_of_str (b_status b) = Done then ''done'' else ir_status r) \<rparr>"
  have same: "q\<lparr> ir_updated_at := now \<rparr> = q" if "ir_updated_at q = now" for q using that by (cases q) simp
  obtain d1 where d1: "(if state_of_str (b_status b) = Done then close_bead now i d else Inr d) = Inr d1"
    "log_ready now i ?r1 d1" "log_of i d1 = log_of i d"
  proof (cases "state_of_str (b_status b) = Done")
    case True
    have "log_ready now i ?r1 (set_row i (\<lambda>r. r\<lparr> ir_status := ''done'', ir_updated_at := now \<rparr>) d)"
      by (rule log_ready_set_row [OF assms(1)]) (simp_all add: keeps_id_def True)
    then show ?thesis using that True log_ready_row [OF assms(1)] by (simp add: close_bead_def with_bead_def)
  next
    case False
    then show ?thesis using that assms(1) by (cases r) simp
  qed
  obtain d2 where d2: "(case b_external_ref b of None \<Rightarrow> Inr d1 | Some ext \<Rightarrow> set_external_ref now i ext d1) = Inr d2"
    "log_ready now i (filled_row b r) d2" "log_of i d2 = log_of i d"
  proof (cases "b_external_ref b")
    case (Some e)
    have "log_ready now i (filled_row b r) (set_row i (\<lambda>r. r\<lparr> ir_external_ref := Some e, ir_updated_at := now \<rparr>) d1)"
      by (rule log_ready_set_row [OF d1(2)]) (simp_all add: keeps_id_def Some filled_row_def)
    then show ?thesis using that Some log_ready_row [OF d1(2)] d1(3) by (simp add: set_external_ref_def with_bead_def)
  next
    case None
    then show ?thesis using that d1 by (simp add: filled_row_def)
  qed
  obtain d3 where d3: "copy_comments now i live d2 = Inr d3" "log_ready now i (filled_row b r) d3"
    "log_of i d3 = log_of i d @ map (\<lambda>c. (scrub_and_warn (cm_text c), cm_author c)) live"
    using bead_log.append_all_ok [OF d2(2), of "map (\<lambda>c. (cm_text c, cm_author c)) live"] d2(3)
    by (auto simp: copy_comments_log o_def)
  obtain d4 where d4: "(if dangling \<noteq> [] \<or> orphaned \<noteq> []
      then add_comment now i (edge_note source_repo dangling orphaned) ''rsry-move'' d3 else Inr d3) = Inr d4"
    "log_ready now i (filled_row b r) d4" "log_of i d4 = log_of i d @ filled_log source_repo live dangling orphaned"
  proof (cases "dangling \<noteq> [] \<or> orphaned \<noteq> []")
    case True
    then show ?thesis
      using that bead_log.append_ok [OF d3(2), of "(edge_note source_repo dangling orphaned, ''rsry-move'')"] d3(3)
      by (auto simp: append_comment_def filled_log_def)
  next
    case False
    then show ?thesis using that d3 by (simp add: filled_log_def)
  qed
  obtain z where z: "log_event now i ''moved_from'' (b_id b @ '' ('' @ source_repo @ '')'') d4 = d4\<lparr> db_events := z \<rparr>"
    using log_event_parts by blast
  show ?thesis using d1(1) d2(1) d3(1) d4 z by (simp add: fill_destination_def then_op_def)
qed

section \<open>The source\<close>

lemma tombstone_kept: "\<exists>t. scrub_and_warn (moved_arrow @ s) = moved_arrow @ t"
proof -
  have "\<forall>r \<in> set rules. hd (ru_prefix r) \<notin> set moved_arrow" "CHR ''-'' \<notin> set moved_arrow"
    by (simp_all add: rules_def moved_arrow_def)
  then show ?thesis using scrub_skip [of moved_arrow s] by (simp add: scrub_and_warn_def)
qed

lemma bury_ok:
  assumes "row_of s i = Some r"
  shows "\<exists>s' q. bury_source now i new_id dest_repo s = Inr s'
    \<and> map ir_id (db_issues s') = map ir_id (db_issues s)
    \<and> row_of s' i = Some (r\<lparr> ir_status := ''done'', ir_updated_at := now \<rparr>)
    \<and> db_comments s' = db_comments s @ [q] \<and> cr_issue q = i \<and> cr_author q = ''rsry-move''
    \<and> starts_with (cr_text q) moved_arrow \<and> cr_created_at q = now \<and> cr_edited_at q = None \<and> cr_deleted_at q = None"
proof -
  let ?t = "moved_arrow @ '' '' @ new_id @ '' ('' @ dest_repo @ '')''"
  obtain q where q: "add_comment now i ?t ''rsry-move'' s
      = Inr (touch now i (s\<lparr> db_comments := db_comments s @ [q], db_next_comment := db_next_comment s + 1 \<rparr>))"
    "cr_issue q = i" "cr_text q = scrub_and_warn ?t" "cr_author q = ''rsry-move''" "cr_created_at q = now"
    "cr_edited_at q = None" "cr_deleted_at q = None"
    using add_comment_row [OF assms, of now ?t "''rsry-move''"] by blast
  let ?s1 = "touch now i (s\<lparr> db_comments := db_comments s @ [q], db_next_comment := db_next_comment s + 1 \<rparr>)"
  obtain z where z: "log_event now i ''moved_to'' (new_id @ '' ('' @ dest_repo @ '')'') ?s1 = ?s1\<lparr> db_events := z \<rparr>"
    using log_event_parts by blast
  have r1: "row_of (?s1\<lparr> db_events := z \<rparr>) i = Some (r\<lparr> ir_updated_at := now \<rparr>)"
    using assms by (simp add: touch_def row_of_set_row keeps_id_def)
  let ?f = "\<lambda>r. r\<lparr> ir_status := ''done'', ir_updated_at := now \<rparr>"
  have k: "keeps_id ?f" "keeps_id (\<lambda>r. r\<lparr> ir_updated_at := now \<rparr>)" by (simp_all add: keeps_id_def)
  have "map ir_id (db_issues (set_row i ?f (?s1\<lparr> db_events := z \<rparr>))) = map ir_id (db_issues s)"
    unfolding set_row_ids [OF k(1)] using set_row_ids [OF k(2)] by (simp add: touch_def)
  moreover have "row_of (set_row i ?f (?s1\<lparr> db_events := z \<rparr>)) i = Some (r\<lparr> ir_status := ''done'', ir_updated_at := now \<rparr>)"
    unfolding row_of_set_row [OF k(1)] r1 by simp
  moreover have "starts_with (cr_text q) moved_arrow"
    using q(3) tombstone_kept [of "'' '' @ new_id @ '' ('' @ dest_repo @ '')''"] by (auto simp: text_simps)
  ultimately show ?thesis
    using q(1,2,4-) z resolve_self [OF r1]
    by (intro exI [of _ "set_row i ?f (?s1\<lparr> db_events := z \<rparr>)"] exI [of _ q])
      (simp add: bury_source_def then_op_def close_bead_def with_bead_def touch_def)
qed

section \<open>Properties\<close>

lemma scrub_empty: "scrub_and_warn [] = []"
  by (rule scrub_id) (auto simp: clean_def is_token_def dest: rules_ok(2) markers_ok)

lemma get_bead_row:
  assumes "get_bead parse db i repo = Inr (Some b)"
  obtains r where "resolve_id db i = Inr (ir_id r)" "row_of db (ir_id r) = Some r" "read_bead parse db repo r = Some b"
    "b_id b = ir_id r"
proof -
  obtain full r where f: "resolve_id db i = Inr full" "row_of db full = Some r" "read_bead parse db repo r = Some b"
    using assms by (auto simp: get_bead_def split: sum.splits option.splits)
  moreover have "ir_id r = full" using row_of_Some [OF f(2)] by simp
  moreover have "b_id b = ir_id r"
    using f(3) by (auto simp: read_bead_def bead_from_row_def split: option.splits)
  ultimately show ?thesis using that by blast
qed

lemma list_comments_rows:
  "row_of db i = Some r \<Longrightarrow> list_comments parse db i True = Inr (List.map_filter (comment_from_row parse) (comment_rows db i))"
  using resolve_self [of db i r] by (simp add: list_comments_def comment_rows_def)

text \<open>Without an owner a bead goes to the default agent of its type.\<close>

definition moved_owner :: "bead \<Rightarrow> string" where
  "moved_owner b =
     (if b_owner b \<in> {None, Some []} then dispatch_default_agent (b_issue_type b) else the (b_owner b))"

lemma move_succeeds:
  assumes "store_ok source" "store_ok dest" "parse now = Some t" "row_of dest new_id = None" "comment_count dest new_id = 0"
    and "get_bead parse source bead_id source_repo = Inr (Some b)"
    and "list_comments parse source (b_id b) True = Inr cs" "\<not> (\<exists>c \<in> set cs. is_tombstone c)"
  shows "\<exists>s' d' m x. move_bead parse now source source_repo dest dest_repo bead_id new_id = (s', d', Inr m)
      \<and> get_bead parse d' new_id dest_repo = Inr (Some x)
      \<and> b_title x = b_title b \<and> b_description x = b_description b \<and> b_priority x = b_priority b
      \<and> b_issue_type x = b_issue_type b \<and> b_files x = b_files b \<and> b_test_files x = b_test_files b
      \<and> b_created_by x = b_created_by b \<and> b_scope x = b_scope b \<and> b_acceptance_criteria x = b_acceptance_criteria b
      \<and> b_external_ref x = b_external_ref b \<and> b_owner x = Some (moved_owner b)
      \<and> b_derived_from x = b_derived_from b @ [FromManual (''moved from '' @ b_id b @ '' ('' @ source_repo @ '')'')]
      \<and> b_status x = (if state_of_str (b_status b) = Done then ''done'' else ''open'') \<and> mv_status m = b_status b
      \<and> mv_new_id m = new_id \<and> mv_comments_copied m = length (filter (\<lambda>c. cm_deleted_at c = None) cs)
      \<and> mv_dangling m = get_dependencies source (b_id b) \<and> mv_orphaned m = get_dependents source (b_id b)
      \<and> log_of new_id d' = filled_log source_repo (filter (\<lambda>c. cm_deleted_at c = None) cs)
            (get_dependencies source (b_id b)) (get_dependents source (b_id b))
      \<and> status_at s' (b_id b) = Some Done
      \<and> (\<forall>new_id'. move_bead parse now s' source_repo d' dest_repo bead_id new_id' = (s', d', Inl (AlreadyMoved (b_id b))))"
proof -
  obtain r where r: "resolve_id source bead_id = Inr (ir_id r)" "row_of source (ir_id r) = Some r"
    "read_bead parse source source_repo r = Some b" "b_id b = ir_id r"
    using get_bead_row [OF assms(6)] by blast
  let ?nb = "relocated b source_repo new_id" and ?live = "filter (\<lambda>c. cm_deleted_at c = None) cs"
  let ?out = "get_dependencies source (b_id b)" and ?in = "get_dependents source (b_id b)"
  let ?r0 = "created_row now ?nb"
  have nid: "nb_id ?nb = new_id" by (simp add: relocated_def)
  define d where "d = dest\<lparr> db_issues := db_issues dest @ [?r0],
    db_deps := foldl (\<lambda>ds t. insert_or_ignore (nb_id ?nb) t ds) (db_deps dest) (nb_depends_on ?nb),
    db_fts := db_fts dest @ [fts_key ?r0] \<rparr>"
  have create: "create_bead_full now ?nb dest = Inr d" using assms(4) by (simp add: create_shape nid d_def)
  have none: "filter (\<lambda>c. cr_issue c = new_id) (db_comments dest) = []" using assms(5) by (simp add: comment_count_def)
  have log0: "log_of new_id d = []" using none by (simp add: log_of_def comment_rows_def d_def)
  have ready: "log_ready now new_id ?r0 d"
    using assms(2,4) none
    by (auto simp: log_ready_def d_def row_of_append nid store_ok_def comments_ok_def comment_ok_def list_all_iff filter_empty_conv)
  have u0: "ir_updated_at ?r0 = now" by (simp add: created_row_def)
  obtain d' where d': "fill_destination now b source_repo new_id ?live ?out ?in d = Inr d'"
    "log_ready now new_id (filled_row b ?r0) d'" "log_of new_id d' = filled_log source_repo ?live ?out ?in"
    using fill_ok [OF ready u0, of b source_repo ?live ?out ?in] log0 by auto
  obtain s' q where s': "bury_source now (b_id b) new_id dest_repo source = Inr s'"
    "map ir_id (db_issues s') = map ir_id (db_issues source)"
    "row_of s' (b_id b) = Some (r\<lparr> ir_status := ''done'', ir_updated_at := now \<rparr>)"
    and q: "db_comments s' = db_comments source @ [q]" "cr_issue q = b_id b" "cr_author q = ''rsry-move''"
      "starts_with (cr_text q) moved_arrow" "cr_created_at q = now" "cr_edited_at q = None" "cr_deleted_at q = None"
    using bury_ok [of source "b_id b" r now new_id dest_repo] r by auto
  have move: "move_bead parse now source source_repo dest dest_repo bead_id new_id
      = (s', d', Inr \<lparr> mv_new_id = new_id, mv_status = b_status b, mv_comments_copied = length ?live,
           mv_dangling = ?out, mv_orphaned = ?in \<rparr>)"
    using assms(6,7,8) create d'(1) s'(1) by (simp add: move_bead_def)
  have bead: "b_title b = ir_title r" "b_description b = (case ir_description r of None \<Rightarrow> [] | Some d \<Rightarrow> d)"
    using r(3) by (auto simp: read_bead_def bead_from_row_def split: option.splits)
  have byte: "b_priority b < 256"
    using r(3) by (auto simp: read_bead_def bead_from_row_def nat_less_iff split: option.splits)
  have clean: "scrub_and_warn (b_title b) = b_title b" "scrub_and_warn (b_description b) = b_description b"
    using assms(1) row_of_Some [OF r(2)]
    by (auto simp: bead store_ok_def issues_ok_def row_ok_def list_all_iff scrub_id scrub_empty split: option.splits)
  have row: "row_of d' new_id = Some (filled_row b ?r0)"
    using d'(2) u0 by (auto simp: log_ready_def filled_row_def)
  obtain x where x: "read_bead parse d' dest_repo (filled_row b ?r0) = Some x"
    "b_title x = b_title b" "b_description x = b_description b" "b_priority x = b_priority b" "b_issue_type x = b_issue_type b"
    "b_files x = b_files b" "b_test_files x = b_test_files b" "b_created_by x = b_created_by b" "b_scope x = b_scope b"
    "b_acceptance_criteria x = b_acceptance_criteria b" "b_external_ref x = b_external_ref b"
    "b_owner x = Some (moved_owner b)"
    "b_derived_from x = b_derived_from b @ [FromManual (''moved from '' @ b_id b @ '' ('' @ source_repo @ '')'')]"
    "b_status x = (if state_of_str (b_status b) = Done then ''done'' else ''open'')"
  proof -
    have n: "ir_notes ?r0 = created_notes ?nb" by (simp add: created_row_def)
    have "nb_owner ?nb = moved_owner b" by (simp add: relocated_def moved_owner_def split: option.splits)
    moreover have "moved_owner b \<noteq> []"
      by (auto simp: moved_owner_def dispatch_default_agent_def agent_pipeline_def split: list.splits if_splits)
    ultimately have "ir_assignee (filled_row b ?r0) = Some (moved_owner b)" by (simp add: filled_row_def created_row_def)
    then have "b_owner x = Some (moved_owner b)" if "read_bead parse d' dest_repo (filled_row b ?r0) = Some x" for x
      using that by (auto simp: read_bead_def bead_from_row_def split: option.splits)
    then show ?thesis
      using n that assms(3) byte clean
      by (simp add: read_bead_def bead_from_row_def filled_row_def created_row_def created_notes_read relocated_def split: option.splits)
  qed
  have gx: "get_bead parse d' new_id dest_repo = Inr (Some x)"
    using x(1) by (simp add: get_bead_def resolve_self [OF row] row)
  have again: "move_bead parse now s' source_repo d' dest_repo bead_id new_id' = (s', d', Inl (AlreadyMoved (b_id b)))" for new_id'
  proof -
    obtain b' where b': "get_bead parse s' bead_id source_repo = Inr (Some b')" "b_id b' = b_id b"
      using r assms(3) s'(3)
      by (auto simp: get_bead_def resolve_ids [OF s'(2)] read_bead_def bead_from_row_def split: option.splits)
    have "q \<in> set (comment_rows s' (b_id b))" using q by (simp add: comment_rows_def)
    moreover obtain c where c: "comment_from_row parse q = Some c" "is_tombstone c"
      using q assms(3) by (simp add: comment_from_row_def is_tombstone_def)
    ultimately have "c \<in> set (List.map_filter (comment_from_row parse) (comment_rows s' (b_id b)))"
      by (auto simp: List.map_filter_def image_iff intro!: bexI [of _ q])
    then show ?thesis using b' c(2) list_comments_rows [OF s'(3), of parse] by (auto simp: move_bead_def)
  qed
  have "status_at s' (b_id b) = Some Done" using s'(3) by (simp add: status_at_def state_of_str_def)
  then show ?thesis using move gx x d'(3) again by (intro exI [of _ s'] exI [of _ d'] exI [of _ x]) auto
qed

text \<open>What a move asks for: the bead and its comments are read, none of them is a tombstone, and the new
  identifier is free.\<close>

definition movable :: "(string \<Rightarrow> int option) \<Rightarrow> bead_db \<Rightarrow> string \<Rightarrow> bead_db \<Rightarrow> string \<Rightarrow> string \<Rightarrow> bool" where
  "movable parse source source_repo dest bead_id new_id \<longleftrightarrow>
     row_of dest new_id = None
     \<and> (\<exists>b cs. get_bead parse source bead_id source_repo = Inr (Some b)
          \<and> list_comments parse source (b_id b) True = Inr cs \<and> \<not> (\<exists>c \<in> set cs. is_tombstone c))"

lemma move_refused:
  assumes "\<not> movable parse source source_repo dest bead_id new_id"
  shows "\<exists>e. move_bead parse now source source_repo dest dest_repo bead_id new_id = (source, dest, Inl e)"
proof -
  have taken: "\<exists>e. create_bead_full now (relocated b source_repo new_id) dest = Inl e" if "row_of dest new_id \<noteq> None" for b
    using that by (auto simp: create_shape relocated_def split: option.splits)
  show ?thesis
    using assms taken unfolding movable_def move_bead_def
    by (auto simp: Let_def split: sum.splits option.splits if_splits) (metis sum.distinct(1) option.distinct(1))+
qed

text \<open>
  C33. Between well-formed stores, with a time of the move that can be read and no comments left over
  under the new identifier, a move succeeds exactly when the bead and its comments can be read, it was
  not moved before and the new identifier is free; when it fails both stores are as they were. The moved
  bead has the title, description, priority, type, files, test files, creator, scope, acceptance
  criteria and external reference of the bead, its owner or else the default agent of its type, and its
  provenance with the move at the end. Its comments are those that were not deleted, in their order,
  with scrubbed text and their author, followed by a note when dependencies are cut; the deleted comments
  and the dependencies themselves are not carried over, only named in the result. The status is done
  when the bead's was and open otherwise: also a rejected, blocked or dead-lettered bead is open again,
  while the result reports the status it had. The bead that was moved is done, and a second move of it is
  refused whatever the new identifier.
\<close>

theorem move_keeps_the_bead:
  assumes "store_ok source" "store_ok dest" "parse now = Some t" "comment_count dest new_id = 0"
  shows "((\<exists>s' d' m. move_bead parse now source source_repo dest dest_repo bead_id new_id = (s', d', Inr m))
        \<longleftrightarrow> movable parse source source_repo dest bead_id new_id)
    \<and> (\<not> movable parse source source_repo dest bead_id new_id \<longrightarrow>
        (\<exists>e. move_bead parse now source source_repo dest dest_repo bead_id new_id = (source, dest, Inl e)))
    \<and> (movable parse source source_repo dest bead_id new_id
        \<and> get_bead parse source bead_id source_repo = Inr (Some b)
        \<and> list_comments parse source (b_id b) True = Inr cs \<longrightarrow>
       (\<exists>s' d' m x. move_bead parse now source source_repo dest dest_repo bead_id new_id = (s', d', Inr m)
      \<and> get_bead parse d' new_id dest_repo = Inr (Some x)
      \<and> b_title x = b_title b \<and> b_description x = b_description b \<and> b_priority x = b_priority b
      \<and> b_issue_type x = b_issue_type b \<and> b_files x = b_files b \<and> b_test_files x = b_test_files b
      \<and> b_created_by x = b_created_by b \<and> b_scope x = b_scope b \<and> b_acceptance_criteria x = b_acceptance_criteria b
      \<and> b_external_ref x = b_external_ref b \<and> b_owner x = Some (moved_owner b)
      \<and> b_derived_from x = b_derived_from b @ [FromManual (''moved from '' @ b_id b @ '' ('' @ source_repo @ '')'')]
      \<and> b_status x = (if state_of_str (b_status b) = Done then ''done'' else ''open'') \<and> mv_status m = b_status b
      \<and> mv_new_id m = new_id \<and> mv_comments_copied m = length (filter (\<lambda>c. cm_deleted_at c = None) cs)
      \<and> mv_dangling m = get_dependencies source (b_id b) \<and> mv_orphaned m = get_dependents source (b_id b)
      \<and> log_of new_id d' = filled_log source_repo (filter (\<lambda>c. cm_deleted_at c = None) cs)
            (get_dependencies source (b_id b)) (get_dependents source (b_id b))
      \<and> status_at s' (b_id b) = Some Done
      \<and> (\<forall>new_id'. move_bead parse now s' source_repo d' dest_repo bead_id new_id' = (s', d', Inl (AlreadyMoved (b_id b))))))"
    (is "(?ok \<longleftrightarrow> ?mv) \<and> (\<not> ?mv \<longrightarrow> ?refused) \<and> (?mv \<and> ?b \<and> ?cs \<longrightarrow> ?moved)")
proof -
  note parts = move_succeeds [where parse = parse and now = now and t = t and dest = dest and new_id = new_id, OF assms(1-3) _ assms(4)]
  have refused: ?refused if "\<not> ?mv" using move_refused [OF that] .
  have moved: ?moved if h: ?mv ?b ?cs
  proof -
    have "row_of dest new_id = None" "\<not> (\<exists>c \<in> set cs. is_tombstone c)" using h by (auto simp: movable_def)
    from parts [OF this(1) h(2,3) this(2)] show ?thesis .
  qed
  have ok: ?ok if mv: ?mv
  proof -
    obtain b' cs' where "row_of dest new_id = None" "get_bead parse source bead_id source_repo = Inr (Some b')"
      "list_comments parse source (b_id b') True = Inr cs'" "\<not> (\<exists>c \<in> set cs'. is_tombstone c)"
      using mv unfolding movable_def by blast
    from parts [OF this, of dest_repo] show ?thesis by blast
  qed
  have "\<not> ?ok" if "\<not> ?mv" using refused [OF that] by auto
  then show ?thesis using refused moved ok by blast
qed

theorem move_keeps_the_bead_witness:
  "\<exists>s' d' m x. move_bead (\<lambda>_. Some 7) ''t'' sample_db ''app'' empty_db ''lib'' ''1'' ''lib-1'' = (s', d', Inr m)
     \<and> get_bead (\<lambda>_. Some 7) d' ''lib-1'' ''lib'' = Inr (Some x) \<and> b_title x = ''Fix login'' \<and> b_status x = ''done''"
proof -
  have "case get_bead (\<lambda>_. Some 7) sample_db ''1'' ''app'' of
      Inr (Some b) \<Rightarrow> b_id b = ''app-1'' \<and> b_title b = ''Fix login'' \<and> b_status b = ''done'' | _ \<Rightarrow> False"
    by code_simp
  then obtain b where b: "get_bead (\<lambda>_. Some 7) sample_db ''1'' ''app'' = Inr (Some b)"
    "b_id b = ''app-1''" "b_title b = ''Fix login''" "b_status b = ''done''"
    by (auto split: sum.splits option.splits)
  have "case list_comments (\<lambda>_. Some 7) sample_db ''app-1'' True of Inr cs \<Rightarrow> list_all (\<lambda>c. \<not> is_tombstone c) cs | _ \<Rightarrow> False"
    by code_simp
  then obtain cs where cs: "list_comments (\<lambda>_. Some 7) sample_db (b_id b) True = Inr cs" "\<not> (\<exists>c \<in> set cs. is_tombstone c)"
    by (auto simp: b(2) list_all_iff split: sum.splits)
  have e: "row_of empty_db ''lib-1'' = None" "comment_count empty_db ''lib-1'' = 0" by code_simp+
  have st: "state_of_str (b_status b) = Done" by (simp add: b(4) state_of_str_def)
  have mv: "movable (\<lambda>_. Some 7) sample_db ''app'' empty_db ''1'' ''lib-1''"
    using e(1) b(1) cs unfolding movable_def by blast
  show ?thesis
    using move_keeps_the_bead [OF sample_db_ok empty_ok, of "\<lambda>_. Some 7" "''t''" 7, OF refl e(2), of "''app''" "''lib''" "''1''",
        THEN conjunct2, THEN conjunct2, THEN mp, OF conjI [OF mv conjI [OF b(1) cs(1)]]] b(3) st
    by fastforce
qed

end
