(* ===== verification/Bead_Contract.thy ===== *)
theory Bead_Contract
  imports Bead_Store
begin

text \<open>
  Beads as JSON records, the contract between stores (\<open>src/import.rs\<close>, \<open>src/contract_deps.rs\<close>,
  \<open>src/bead_ext/mod.rs\<close>, and the derived \<open>serde\<close> implementations of \<open>Bead\<close>, \<open>Comment\<close> and \<open>NewBead\<close>).

  \<open>rfc3339\<close> writes an instant as text. A JSON object is built from its members; the last one with a key
  counts.
\<close>

definition json_obj :: "(string \<times> json) list \<Rightarrow> json" where
  "json_obj ms = JObj (foldl (\<lambda>m (k, v). bt_insert k v m) [] ms)"

lemma foldl_insert_get: "map_of (foldl (\<lambda>m (k, v). bt_insert k v m) m0 ms) = map_of m0 ++ map_of (rev ms)"
  by (induction ms arbitrary: m0) (auto simp: bt_simps map_add_def fun_eq_iff split: option.splits)

lemma json_get_obj: "json_get (json_obj ms) k = map_of (rev ms) k"
  by (simp add: json_obj_def foldl_insert_get)

definition opt_json :: "string option \<Rightarrow> json" where
  "opt_json v = (case v of None \<Rightarrow> JNull | Some s \<Rightarrow> JStr s)"

section \<open>Dependencies\<close>

definition DEFAULT_DEP_TYPE :: string where
  "DEFAULT_DEP_TYPE = ''blocks''"

definition encode_deps :: "(string \<times> string) list \<Rightarrow> string list \<times> (string \<times> json) list" where
  "encode_deps deps =
     (let ds = sort deps
      in (map fst ds,
          foldl (\<lambda>m (i, t). bt_insert i (JStr t) m) [] (filter (\<lambda>(_, t). t \<noteq> DEFAULT_DEP_TYPE) ds)))"

definition attach_types :: "json \<Rightarrow> (string \<times> json) list \<Rightarrow> json" where
  "attach_types record types = (if types \<noteq> [] then json_set record ''dependency_types'' (JObj types) else record)"

text \<open>\<open>as_object\<close> and the type of a target: what is not text is taken for the default.\<close>

definition dep_type_of :: "json \<Rightarrow> string \<Rightarrow> string" where
  "dep_type_of record i =
     (case Option.bind (Option.bind (json_get record ''dependency_types'') (\<lambda>m. json_get m i)) as_str of
        None \<Rightarrow> DEFAULT_DEP_TYPE | Some t \<Rightarrow> t)"

definition decode_deps :: "json \<Rightarrow> (string \<times> string) list" where
  "decode_deps record = map (\<lambda>i. (i, dep_type_of record i)) (get_strings record ''dependencies'')"

section \<open>Extensions\<close>

record ext_field =
  ef_name :: string
  ef_native :: bool

record extension =
  ex_namespace :: string
  ex_fields :: "ext_field list"

definition EXTENSIONS :: "extension list" where
  "EXTENSIONS =
     [\<lparr> ex_namespace = ''rosary'', ex_fields =
          [\<lparr> ef_name = ''files'', ef_native = True \<rparr>, \<lparr> ef_name = ''test_files'', ef_native = True \<rparr>,
           \<lparr> ef_name = ''derived_from'', ef_native = True \<rparr>] \<rparr>,
      \<lparr> ex_namespace = ''github'', ex_fields =
          [\<lparr> ef_name = ''branch'', ef_native = False \<rparr>, \<lparr> ef_name = ''pr_url'', ef_native = False \<rparr>] \<rparr>,
      \<lparr> ex_namespace = ''jj'', ex_fields = [\<lparr> ef_name = ''jj_change_id'', ef_native = False \<rparr>] \<rparr>]"

definition field_names :: "extension list \<Rightarrow> string list" where
  "field_names exts = concat (map (\<lambda>e. map ef_name (ex_fields e)) exts)"

text \<open>The members of the registered fields that are there and not null.\<close>

definition registered :: "json \<Rightarrow> extension list \<Rightarrow> (string \<times> json) list" where
  "registered v exts =
     List.map_filter (\<lambda>k. case json_get v k of None \<Rightarrow> None | Some JNull \<Rightarrow> None | Some x \<Rightarrow> Some (k, x))
       (field_names exts)"

definition project :: "json \<Rightarrow> extension list \<Rightarrow> (string \<times> json) list" where
  "project bead_json exts = foldl (\<lambda>m (k, x). bt_insert k x m) [] (registered bead_json exts)"

definition absorb :: "(string \<times> json) list \<Rightarrow> json \<Rightarrow> extension list \<Rightarrow> (string \<times> json) list" where
  "absorb target source exts = foldl (\<lambda>m (k, x). bt_insert k x m) target (registered source exts)"

section \<open>Export\<close>

definition bead_json :: "(int \<Rightarrow> string) \<Rightarrow> bead \<Rightarrow> json" where
  "bead_json rfc3339 b = json_obj
     [(''id'', JStr (b_id b)), (''title'', JStr (b_title b)), (''description'', JStr (b_description b)),
      (''status'', JStr (b_status b)), (''priority'', JNum (int (b_priority b))),
      (''issue_type'', JStr (b_issue_type b)), (''owner'', opt_json (b_owner b)), (''repo'', JStr (b_repo b)),
      (''created_at'', JStr (rfc3339 (b_created_at b))), (''updated_at'', JStr (rfc3339 (b_updated_at b))),
      (''dependency_count'', JNum (int (b_dependency_count b))),
      (''dependent_count'', JNum (int (b_dependent_count b))), (''comment_count'', JNum (int (b_comment_count b))),
      (''branch'', opt_json (b_branch b)), (''pr_url'', opt_json (b_pr_url b)),
      (''jj_change_id'', opt_json (b_jj_change_id b)), (''external_ref'', opt_json (b_external_ref b)),
      (''files'', json_strings (b_files b)), (''test_files'', json_strings (b_test_files b)),
      (''created_by'', opt_json (b_created_by b)), (''scope'', JStr (b_scope b)),
      (''derived_from'', JArr (map prov_to_json (b_derived_from b))),
      (''acceptance_criteria'', JStr (b_acceptance_criteria b))]"

definition comment_json :: "(int \<Rightarrow> string) \<Rightarrow> comment \<Rightarrow> json" where
  "comment_json rfc3339 c = json_obj
     ([(''id'', JStr (cm_id c)), (''issue_id'', JStr (cm_issue_id c)), (''text'', JStr (cm_text c)),
       (''author'', JStr (cm_author c)), (''created_at'', JStr (rfc3339 (cm_created_at c)))]
      @ opt_member ''edited_at'' (map_option rfc3339 (cm_edited_at c)) @ opt_member ''edit_reason'' (cm_edit_reason c)
      @ opt_member ''original_text'' (cm_original_text c) @ opt_member ''deleted_at'' (map_option rfc3339 (cm_deleted_at c))
      @ opt_member ''delete_reason'' (cm_delete_reason c))"

definition BEAD_CONTRACT_SCHEMA_VERSION :: int where
  "BEAD_CONTRACT_SCHEMA_VERSION = 1"

definition bead_to_contract_value :: "(int \<Rightarrow> string) \<Rightarrow> bead \<Rightarrow> (string \<times> string) list \<Rightarrow> comment list \<Rightarrow> json" where
  "bead_to_contract_value rfc3339 b deps comments =
     (let (dep_ids, dep_types) = encode_deps deps;
          contract = json_obj
            [(''schema_version'', JNum BEAD_CONTRACT_SCHEMA_VERSION), (''id'', JStr (b_id b)),
             (''title'', JStr (b_title b)), (''description'', JStr (b_description b)),
             (''status'', JStr (b_status b)), (''priority'', JNum (int (b_priority b))),
             (''issue_type'', JStr (b_issue_type b)), (''owner'', opt_json (b_owner b)),
             (''created_at'', JStr (rfc3339 (b_created_at b))), (''updated_at'', JStr (rfc3339 (b_updated_at b))),
             (''created_by'', opt_json (b_created_by b)),
             (''dependency_count'', JNum (int (b_dependency_count b))),
             (''dependent_count'', JNum (int (b_dependent_count b))),
             (''comment_count'', JNum (int (b_comment_count b))),
             (''dependencies'', json_strings dep_ids), (''comments'', JArr (map (comment_json rfc3339) comments)),
             (''repo'', JStr (b_repo b)), (''scope'', JStr (b_scope b)), (''external_ref'', opt_json (b_external_ref b)),
             (''branch'', opt_json (b_branch b)), (''pr_url'', opt_json (b_pr_url b)),
             (''acceptance_criteria'', JStr (b_acceptance_criteria b))];
          typed = attach_types contract dep_types
      in foldl (\<lambda>v (k, x). json_set v k x) typed (project (bead_json rfc3339 b) EXTENSIONS))"

text \<open>The records of the beads sorted by identifier, or the first error of the store.\<close>

definition contract_of :: "(string \<Rightarrow> int option) \<Rightarrow> (int \<Rightarrow> string) \<Rightarrow> bead_db \<Rightarrow> bead \<Rightarrow> store_error + json" where
  "contract_of parse rfc3339 db b =
     (case list_comments parse db (b_id b) True of
        Inl e \<Rightarrow> Inl e
      | Inr comments \<Rightarrow> Inr (bead_to_contract_value rfc3339 b (get_dependencies_typed db (b_id b)) comments))"

fun collect_results :: "('e + 'a) list \<Rightarrow> 'e + 'a list" where
  "collect_results [] = Inr []"
| "collect_results (r # rs) =
     (case r of Inl e \<Rightarrow> Inl e
      | Inr x \<Rightarrow> (case collect_results rs of Inl e \<Rightarrow> Inl e | Inr xs \<Rightarrow> Inr (x # xs)))"

definition export_beads_contract :: "(string \<Rightarrow> int option) \<Rightarrow> (int \<Rightarrow> string) \<Rightarrow> bead_db \<Rightarrow> bead list \<Rightarrow> store_error + json list" where
  "export_beads_contract parse rfc3339 db beads = collect_results (map (contract_of parse rfc3339 db) (sort_key b_id beads))"

text \<open>The lines of the file end with a newline each (\<open>src/jsonl.rs\<close>).\<close>

definition jsonl_join :: "string list \<Rightarrow> string" where
  "jsonl_join ls = (if ls = [] then [] else join_with [CHR 0x0A] ls @ [CHR 0x0A])"

section \<open>Schema version\<close>

fun as_i64 :: "json \<Rightarrow> int option" where
  "as_i64 (JNum n) = (if - (2 ^ 63) \<le> n \<and> n < 2 ^ 63 then Some n else None)"
| "as_i64 _ = None"

datatype version_warning = NewerVersion int | UnreadableVersion

definition schema_version_warning :: "json list \<Rightarrow> version_warning option" where
  "schema_version_warning beads =
     (let vs = List.map_filter (\<lambda>b. json_get b ''schema_version'') beads;
          ns = List.map_filter as_i64 vs
      in if ns \<noteq> [] \<and> Max (set ns) > BEAD_CONTRACT_SCHEMA_VERSION then Some (NewerVersion (Max (set ns)))
         else if list_ex (\<lambda>v. as_i64 v = None) vs then Some UnreadableVersion
         else None)"

section \<open>A new bead from JSON\<close>

text \<open>
  Every member has a default. One that is there must have its type: text, a byte, a list of texts, a list
  of provenances, and for the creator text or null.
\<close>

definition member_or :: "json \<Rightarrow> string \<Rightarrow> 'a \<Rightarrow> (json \<Rightarrow> 'a option) \<Rightarrow> 'a option" where
  "member_or v k d f = (case json_get v k of None \<Rightarrow> Some d | Some x \<Rightarrow> f x)"

fun as_byte :: "json \<Rightarrow> nat option" where
  "as_byte (JNum n) = (if 0 \<le> n \<and> n < 256 then Some (nat n) else None)"
| "as_byte _ = None"

definition as_strings :: "json \<Rightarrow> string list option" where
  "as_strings v = Option.bind (as_array v) (read_all as_str)"

definition new_bead_of_json :: "json \<Rightarrow> new_bead option" where
  "new_bead_of_json v =
     (case (member_or v ''id'' [] as_str, member_or v ''title'' [] as_str, member_or v ''description'' [] as_str,
            member_or v ''priority'' 2 as_byte, member_or v ''issue_type'' ''task'' as_str,
            member_or v ''owner'' [] as_str) of
        (Some i, Some t, Some d, Some p, Some y, Some w) \<Rightarrow>
          (case (member_or v ''files'' [] as_strings, member_or v ''test_files'' [] as_strings,
                 member_or v ''depends_on'' [] as_strings, opt_str (json_get v ''created_by''),
                 member_or v ''scope'' [] as_str, member_or v ''derived_from'' [] provs_of_json,
                 member_or v ''acceptance_criteria'' [] as_str) of
             (Some fs, Some ts, Some ds, Some c, Some s, Some ps, Some a) \<Rightarrow>
               Some \<lparr> nb_id = i, nb_title = t, nb_description = d, nb_priority = p, nb_issue_type = y, nb_owner = w,
                      nb_files = fs, nb_test_files = ts, nb_depends_on = ds, nb_created_by = c, nb_scope = s,
                      nb_derived_from = ps, nb_acceptance_criteria = a \<rparr>
           | _ \<Rightarrow> None)
      | _ \<Rightarrow> None)"

section \<open>Dependencies come back\<close>

lemma get_strings_obj: "get_strings v ''dependencies'' = xs" if "json_get v ''dependencies'' = Some (json_strings xs)"
  using that by (simp add: get_strings_def json_strings_def List.map_filter_def o_def)

lemma types_get:
  "distinct (map fst ds) \<Longrightarrow> map_of (foldl (\<lambda>m (i, t). bt_insert i (JStr t) m) m0 ds) i =
     (case map_of ds i of None \<Rightarrow> map_of m0 i | Some t \<Rightarrow> Some (JStr t))"
proof (induction ds arbitrary: m0)
  case (Cons d ds)
  obtain j t where d: "d = (j, t)" by (cases d)
  then have "map_of ds j = None" using Cons.prems by (auto simp: map_of_eq_None_iff)
  then show ?case using Cons d by (auto simp: bt_simps split: option.splits)
qed simp

lemma types_empty:
  fixes ds :: "('a::linorder \<times> string) list"
  shows "foldl (\<lambda>m (i, t). bt_insert i (JStr t) m) [] ds = [] \<longleftrightarrow> ds = []"
proof -
  have ne: "bt_insert k v m \<noteq> []" for k :: 'a and v :: json and m by (cases m) (auto split: if_splits)
  have *: "m \<noteq> [] \<Longrightarrow> foldl (\<lambda>m (i, t). bt_insert i (JStr t) m) m ds \<noteq> []" for m and ds :: "('a \<times> string) list"
  proof (induction ds arbitrary: m)
    case (Cons d ds)
    show ?case using Cons.IH [OF ne, of "fst d" "JStr (snd d)" m] by (simp add: case_prod_unfold)
  qed simp
  show ?thesis
  proof (cases ds)
    case (Cons d ds')
    then show ?thesis using * [OF ne, of "fst d" "JStr (snd d)" "[]" ds'] by (simp add: case_prod_unfold)
  qed simp
qed

text \<open>What a record has of the encoding, whatever else it holds.\<close>

definition holds_deps :: "json \<Rightarrow> (string \<times> string) list \<Rightarrow> bool" where
  "holds_deps v deps \<longleftrightarrow> json_get v ''dependencies'' = Some (json_strings (fst (encode_deps deps)))
     \<and> json_get v ''dependency_types'' = (if snd (encode_deps deps) = [] then None else Some (JObj (snd (encode_deps deps))))"

lemma decode_encode:
  assumes "distinct (map fst deps)" "holds_deps v deps"
  shows "decode_deps v = sort deps"
proof -
  let ?ts = "filter (\<lambda>(_, t). t \<noteq> DEFAULT_DEP_TYPE) (sort deps)"
  have d: "distinct (map fst (sort deps))"
    using assms(1) by (metis distinct_map distinct_sort set_sort)
  then have dts: "distinct (map fst ?ts)" by (rule distinct_map_filter)
  have ty: "dep_type_of v i = t" if it: "(i, t) \<in> set deps" for i t
  proof -
    have "map_of ?ts i = (if t = DEFAULT_DEP_TYPE then None else Some t)"
    proof (cases "t = DEFAULT_DEP_TYPE")
      case True
      have "(i, t') \<notin> set ?ts" for t'
        using it True d by (auto dest: eq_key_imp_eq_value)
      then show ?thesis using True by (auto simp: map_of_eq_None_iff)
    next
      case False
      then have "(i, t) \<in> set ?ts" using it by simp
      then show ?thesis using False dts by simp
    qed
    then have "map_of (snd (encode_deps deps)) i = (if t = DEFAULT_DEP_TYPE then None else Some (JStr t))"
      using types_get [OF dts, of "[]" i] by (simp add: encode_deps_def Let_def)
    then show ?thesis using assms(2) by (auto simp: dep_type_of_def holds_deps_def split: if_splits)
  qed
  have "decode_deps v = map (\<lambda>i. (i, dep_type_of v i)) (map fst (sort deps))"
    using assms(2) by (simp add: decode_deps_def holds_deps_def get_strings_obj encode_deps_def Let_def)
  also have "\<dots> = sort deps" by (simp, rule map_idI) (use ty in auto)
  finally show ?thesis .
qed

end
