(* ===== verification/Bead_Restore.thy ===== *)
theory Bead_Restore
  imports Bead_Contract Comment_Log
begin

text \<open>
  The restore of beads from their records (\<open>src/restore/mod.rs\<close>): beads that are not in the store are
  created under their identifiers, beads that are there are updated when the record is newer.

  \<open>parse\<close> reads the timestamps of the store, \<open>parse_ts\<close> those of a record in whole seconds, \<open>fmt\<close> writes
  an instant in the format of the store, and \<open>now\<close> is the time of the restore in that format.
\<close>

record clock =
  ck_parse :: "string \<Rightarrow> int option"
  ck_parse_ts :: "string \<Rightarrow> int option"
  ck_fmt :: "int \<Rightarrow> string"
  ck_now :: string

datatype restore_error = MissingId | BadRecord string | RestoreStore store_error

record restore_result =
  rr_restored :: nat
  rr_updated :: nat
  rr_skipped :: nat
  rr_dependencies :: nat
  rr_comments :: nat

definition no_result :: restore_result where
  "no_result = \<lparr> rr_restored = 0, rr_updated = 0, rr_skipped = 0, rr_dependencies = 0, rr_comments = 0 \<rparr>"

text \<open>A step on the store that can fail: the writes before the failure stay.\<close>

type_synonym 'a attempt = "bead_db \<times> (restore_error + 'a)"

definition followed_by :: "'a attempt \<Rightarrow> ('a \<Rightarrow> bead_db \<Rightarrow> 'b attempt) \<Rightarrow> 'b attempt" where
  "followed_by m f = (case snd m of Inl e \<Rightarrow> (fst m, Inl e) | Inr x \<Rightarrow> f x (fst m))"

definition attempt :: "bead_db \<Rightarrow> store_error + bead_db \<Rightarrow> unit attempt" where
  "attempt db r = (case r of Inl e \<Rightarrow> (db, Inl (RestoreStore e)) | Inr d \<Rightarrow> (d, Inr ()))"

section \<open>One record\<close>

definition ts_of :: "clock \<Rightarrow> json \<Rightarrow> string \<Rightarrow> int option" where
  "ts_of ck bead k = Option.bind (get_str bead k) (ck_parse_ts ck)"

definition restore_ts :: "clock \<Rightarrow> json \<Rightarrow> string \<Rightarrow> bead_db \<Rightarrow> unit attempt" where
  "restore_ts ck bead i db =
     (case (ts_of ck bead ''created_at'', ts_of ck bead ''updated_at'') of
        (Some c, Some u) \<Rightarrow> attempt db (restore_timestamps i (ck_fmt ck c) (ck_fmt ck u) db)
      | _ \<Rightarrow> (db, Inr ()))"

definition incoming_update :: "json \<Rightarrow> bead_update" where
  "incoming_update bead =
     \<lparr> u_title = get_str bead ''title'', u_description = get_str bead ''description'',
       u_priority = map_option (\<lambda>p. p mod 256) (Option.bind (json_get bead ''priority'') as_u64),
       u_issue_type = get_str bead ''issue_type'',
       u_owner = (case get_str bead ''owner'' of None \<Rightarrow> None | Some s \<Rightarrow> if s = [] then None else Some s),
       u_files = None, u_test_files = None, u_acceptance_criteria = get_str bead ''acceptance_criteria'' \<rparr>"

definition apply_incoming :: "clock \<Rightarrow> json \<Rightarrow> string \<Rightarrow> bead_db \<Rightarrow> unit attempt" where
  "apply_incoming ck bead i db =
     followed_by
       (followed_by
          (if update_is_empty (incoming_update bead) then (db, Inr ())
           else (case update_bead_fields (ck_now ck) i (incoming_update bead) db of
                   Inl e \<Rightarrow> (db, Inl (RestoreStore e)) | Inr (d, _) \<Rightarrow> (d, Inr ())))
          (\<lambda>_ db. case get_str bead ''status'' of
                    None \<Rightarrow> (db, Inr ())
                  | Some s \<Rightarrow> attempt db (restore_status (ck_now ck) i s db)))
       (\<lambda>_ db. restore_ts ck bead i db)"

definition restored_fields :: "json \<Rightarrow> string \<Rightarrow> json" where
  "restored_fields bead i =
     (let m1 = foldl (\<lambda>m k. case json_get bead k of None \<Rightarrow> m | Some JNull \<Rightarrow> m | Some x \<Rightarrow> bt_insert k x m) []
            [''id'', ''title'', ''description'', ''priority'', ''issue_type'', ''owner'', ''created_by'', ''scope'',
             ''acceptance_criteria''];
          m2 = bt_insert ''id'' (JStr i) m1;
          m3 = absorb m2 bead EXTENSIONS
      in JObj (filter (\<lambda>(k, _). k \<noteq> ''depends_on'') m3))"

definition create_from :: "clock \<Rightarrow> json \<Rightarrow> string \<Rightarrow> bead_db \<Rightarrow> unit attempt" where
  "create_from ck bead i db =
     (case new_bead_of_json (restored_fields bead i) of
        None \<Rightarrow> (db, Inl (BadRecord i))
      | Some nb \<Rightarrow>
          (let status = (case get_str bead ''status'' of None \<Rightarrow> ''open'' | Some s \<Rightarrow> s)
           in followed_by
                (followed_by
                   (followed_by (attempt db (create_bead_full (ck_now ck) nb db))
                      (\<lambda>_ db. if status \<noteq> ''open'' then attempt db (restore_status (ck_now ck) i status db) else (db, Inr ())))
                   (\<lambda>_ db. case get_str bead ''external_ref'' of
                             None \<Rightarrow> (db, Inr ())
                           | Some e \<Rightarrow> if e = [] then (db, Inr ())
                                       else attempt db (set_external_ref (ck_now ck) i e db)))
                (\<lambda>_ db. restore_ts ck bead i db)))"

text \<open>The first pass: the result so far and the identifiers that were created or updated.\<close>

type_synonym pass_state = "restore_result \<times> string set"

definition lww_newer :: "int option \<Rightarrow> int \<Rightarrow> bool" where
  "lww_newer incoming local \<longleftrightarrow> (\<exists>t. incoming = Some t \<and> local < t)"

definition restore_one :: "clock \<Rightarrow> string \<Rightarrow> json \<Rightarrow> pass_state \<Rightarrow> bead_db \<Rightarrow> pass_state attempt" where
  "restore_one ck repo bead rs db =
     (case get_str bead ''id'' of
        None \<Rightarrow> (db, Inl MissingId)
      | Some i \<Rightarrow>
          (case get_bead (ck_parse ck) db i repo of
             Inl e \<Rightarrow> (db, Inl (RestoreStore e))
           | Inr (Some local) \<Rightarrow>
               if lww_newer (ts_of ck bead ''updated_at'') (b_updated_at local)
               then followed_by (apply_incoming ck bead i db)
                      (\<lambda>_ db. (db, Inr ((fst rs)\<lparr> rr_updated := rr_updated (fst rs) + 1 \<rparr>, insert i (snd rs))))
               else (db, Inr ((fst rs)\<lparr> rr_skipped := rr_skipped (fst rs) + 1 \<rparr>, snd rs))
           | Inr None \<Rightarrow>
               followed_by (create_from ck bead i db)
                 (\<lambda>_ db. (db, Inr ((fst rs)\<lparr> rr_restored := rr_restored (fst rs) + 1 \<rparr>, insert i (snd rs))))))"

section \<open>Edges and comments\<close>

definition comment_body :: "json \<Rightarrow> string" where
  "comment_body c =
     (case Option.bind (case json_get c ''text'' of None \<Rightarrow> json_get c ''body'' | Some t \<Rightarrow> Some t) as_str of
        None \<Rightarrow> [] | Some s \<Rightarrow> s)"

definition comment_author :: "json \<Rightarrow> string" where
  "comment_author c = (case get_str c ''author'' of None \<Rightarrow> ''restore'' | Some a \<Rightarrow> a)"

text \<open>\<open>existing\<close> are the authors and texts that are stored before the comments of the record are added.\<close>

definition wanted_comments :: "(string \<times> string) set \<Rightarrow> json list \<Rightarrow> (string \<times> string) list" where
  "wanted_comments existing cs =
     filter (\<lambda>(body, author). trim body \<noteq> [] \<and> (author, body) \<notin> existing)
       (map (\<lambda>c. (comment_body c, comment_author c)) cs)"

definition add_comments :: "clock \<Rightarrow> string \<Rightarrow> (string \<times> string) list \<Rightarrow> bead_db \<Rightarrow> unit attempt" where
  "add_comments ck i cs db =
     foldl (\<lambda>m (body, author). followed_by m (\<lambda>_ db. attempt db (add_comment (ck_now ck) i body author db))) (db, Inr ()) cs"

definition wire_one :: "clock \<Rightarrow> string set \<Rightarrow> json \<Rightarrow> restore_result \<Rightarrow> bead_db \<Rightarrow> restore_result attempt" where
  "wire_one ck restored bead res db =
     (let i = (case get_str bead ''id'' of None \<Rightarrow> [] | Some s \<Rightarrow> s) in
      if i \<notin> restored then (db, Inr res)
      else
        (let deps = decode_deps bead
         in followed_by (attempt db (replace_dependencies i deps db))
              (\<lambda>_ db. let res1 = res\<lparr> rr_dependencies := rr_dependencies res + length deps \<rparr> in
                followed_by
                  (case Option.bind (json_get bead ''comments'') as_array of
                     None \<Rightarrow> (db, Inr res1)
                   | Some cs \<Rightarrow>
                       (let existing = (case list_comments (ck_parse ck) db i True of
                                          Inl _ \<Rightarrow> {} | Inr ks \<Rightarrow> set (map (\<lambda>c. (cm_author c, cm_text c)) ks));
                            wanted = wanted_comments existing cs
                        in followed_by (add_comments ck i wanted db)
                             (\<lambda>_ db. (db, Inr (res1\<lparr> rr_comments := rr_comments res1 + length wanted \<rparr>)))))
                  (\<lambda>res2 db. followed_by (restore_ts ck bead i db) (\<lambda>_ db. (db, Inr res2))))))"

definition restore_beads_from_contract :: "clock \<Rightarrow> json list \<Rightarrow> string \<Rightarrow> bead_db \<Rightarrow> restore_result attempt" where
  "restore_beads_from_contract ck beads repo db =
     followed_by
       (foldl (\<lambda>m bead. followed_by m (restore_one ck repo bead)) (db, Inr (no_result, {})) beads)
       (\<lambda>rs db. foldl (\<lambda>m bead. followed_by m (wire_one ck (snd rs) bead)) (db, Inr (fst rs)) beads)"

end
