(* ===== verification/Restore_Records.thy ===== *)
theory Restore_Records
  imports Bead_Restore
begin

text \<open>
  What the record of a bead holds, member by member, and the new bead that a restore makes of it.
\<close>

section \<open>What a record holds\<close>

lemma bt_rev: "distinct (map fst ps) \<Longrightarrow> map_of (rev ps) = map_of ps"
  by (subst map_of_inject_set) (simp_all add: rev_map [symmetric])

lemma json_set_fold: "foldl (\<lambda>v (k, x). json_set v k x) (JObj m) ps = JObj (foldl (\<lambda>m (k, x). bt_insert k x m) m ps)"
  by (induction ps arbitrary: m) (auto simp: json_set_def)

lemma bt_ok_fold: "bt_ok m \<Longrightarrow> bt_ok (foldl (\<lambda>m (k, x). bt_insert k x m) m ps)"
  by (induction ps arbitrary: m) auto

lemma registered_bead:
  "registered (bead_json rfc b) EXTENSIONS =
     [(''files'', json_strings (b_files b)), (''test_files'', json_strings (b_test_files b)),
      (''derived_from'', JArr (map prov_to_json (b_derived_from b)))]
     @ opt_member ''branch'' (b_branch b) @ opt_member ''pr_url'' (b_pr_url b) @ opt_member ''jj_change_id'' (b_jj_change_id b)"
  by (simp add: registered_def field_names_def EXTENSIONS_def bead_json_def json_get_obj json_strings_def opt_json_def
      opt_member_def List.map_filter_simps split: option.splits)

definition contract_members :: "(int \<Rightarrow> string) \<Rightarrow> bead \<Rightarrow> (string \<times> string) list \<Rightarrow> comment list \<Rightarrow> (string \<times> json) list" where
  "contract_members rfc b deps cs =
     [(''schema_version'', JNum BEAD_CONTRACT_SCHEMA_VERSION), (''id'', JStr (b_id b)),
      (''title'', JStr (b_title b)), (''description'', JStr (b_description b)),
      (''status'', JStr (b_status b)), (''priority'', JNum (int (b_priority b))),
      (''issue_type'', JStr (b_issue_type b)), (''owner'', opt_json (b_owner b)),
      (''created_at'', JStr (rfc (b_created_at b))), (''updated_at'', JStr (rfc (b_updated_at b))),
      (''created_by'', opt_json (b_created_by b)),
      (''dependency_count'', JNum (int (b_dependency_count b))),
      (''dependent_count'', JNum (int (b_dependent_count b))),
      (''comment_count'', JNum (int (b_comment_count b))),
      (''dependencies'', json_strings (fst (encode_deps deps))), (''comments'', JArr (map (comment_json rfc) cs)),
      (''repo'', JStr (b_repo b)), (''scope'', JStr (b_scope b)), (''external_ref'', opt_json (b_external_ref b)),
      (''branch'', opt_json (b_branch b)), (''pr_url'', opt_json (b_pr_url b)),
      (''acceptance_criteria'', JStr (b_acceptance_criteria b))]"

lemma contract_get:
  "json_get (bead_to_contract_value rfc b deps cs) k =
     (case map_of (rev (registered (bead_json rfc b) EXTENSIONS)) k of
        Some x \<Rightarrow> Some x
      | None \<Rightarrow> if k = ''dependency_types'' \<and> snd (encode_deps deps) \<noteq> [] then Some (JObj (snd (encode_deps deps)))
                else map_of (contract_members rfc b deps cs) k)"
proof -
  let ?ps = "project (bead_json rfc b) EXTENSIONS" and ?L = "contract_members rfc b deps cs"
  have d: "distinct (map fst ?ps)" unfolding project_def by (intro bt_ok_distinct bt_ok_fold) simp
  have g: "map_of ?ps k = map_of (rev (registered (bead_json rfc b) EXTENSIONS)) k"
    by (simp add: project_def foldl_insert_get)
  have set: "json_get (foldl (\<lambda>v (k, x). json_set v k x) v ?ps) k = (case map_of ?ps k of Some x \<Rightarrow> Some x | None \<Rightarrow> json_get v k)"
    if "is_object v" for v
    using that by (cases v) (auto simp: json_set_fold foldl_insert_get bt_rev [OF d] map_add_def split: option.splits)
  have o: "is_object (json_obj ms)" for ms by (simp add: json_obj_def)
  have dl: "distinct (map fst ?L)" by (simp add: contract_members_def)
  have t: "is_object (attach_types (json_obj ?L) ts)"
    "json_get (attach_types (json_obj ?L) ts) k = (if k = ''dependency_types'' \<and> ts \<noteq> [] then Some (JObj ts) else map_of ?L k)" for ts
    by (simp_all add: attach_types_def o json_get_set json_get_obj bt_rev [OF dl])
  have eq: "bead_to_contract_value rfc b deps cs
      = foldl (\<lambda>v (k, x). json_set v k x) (attach_types (json_obj ?L) (snd (encode_deps deps))) ?ps"
    by (simp add: bead_to_contract_value_def Let_def case_prod_unfold contract_members_def)
  show ?thesis unfolding eq set [OF t(1)] g t(2) ..
qed

lemma contract_core:
  assumes "k \<notin> {''files'', ''test_files'', ''derived_from'', ''branch'', ''pr_url'', ''jj_change_id'', ''dependency_types''}"
  shows "json_get (bead_to_contract_value rfc b deps cs) k = map_of (contract_members rfc b deps cs) k"
proof -
  have "k \<notin> fst ` set (rev (registered (bead_json rfc b) EXTENSIONS))"
    using assms by (auto simp: registered_bead opt_member_def split: option.splits)
  then have "map_of (rev (registered (bead_json rfc b) EXTENSIONS)) k = None" by (simp add: map_of_eq_None_iff)
  then show ?thesis using assms by (simp add: contract_get)
qed

lemma contract_ext:
  "json_get (bead_to_contract_value rfc b deps cs) ''files'' = Some (json_strings (b_files b))"
  "json_get (bead_to_contract_value rfc b deps cs) ''test_files'' = Some (json_strings (b_test_files b))"
  "json_get (bead_to_contract_value rfc b deps cs) ''derived_from'' = Some (JArr (map prov_to_json (b_derived_from b)))"
  "json_get (bead_to_contract_value rfc b deps cs) ''depends_on'' = None"
  unfolding contract_get registered_bead
  by (simp_all add: opt_member_def contract_members_def split: option.splits)

lemma contract_holds_deps: "holds_deps (bead_to_contract_value rfc b deps cs) deps"
proof -
  have "json_get (bead_to_contract_value rfc b deps cs) ''dependencies'' = Some (json_strings (fst (encode_deps deps)))"
    by (simp add: contract_core contract_members_def)
  moreover have "''dependency_types'' \<notin> fst ` set (rev (registered (bead_json rfc b) EXTENSIONS))"
    by (auto simp: registered_bead opt_member_def split: option.splits)
  then have "map_of (rev (registered (bead_json rfc b) EXTENSIONS)) ''dependency_types'' = None" by (simp add: map_of_eq_None_iff)
  then have "json_get (bead_to_contract_value rfc b deps cs) ''dependency_types'' =
      (if snd (encode_deps deps) = [] then None else Some (JObj (snd (encode_deps deps))))"
    by (simp add: contract_get contract_members_def)
  ultimately show ?thesis by (simp add: holds_deps_def)
qed

section \<open>The bead of a record\<close>

definition non_null :: "json option \<Rightarrow> json option" where
  "non_null x = (case x of Some JNull \<Rightarrow> None | _ \<Rightarrow> x)"

definition core_keys :: "string list" where
  "core_keys = [''id'', ''title'', ''description'', ''priority'', ''issue_type'', ''owner'', ''created_by'', ''scope'',
     ''acceptance_criteria'']"

lemma keep_members:
  "map_of (foldl (\<lambda>m k. case json_get v k of None \<Rightarrow> m | Some JNull \<Rightarrow> m | Some x \<Rightarrow> bt_insert k x m) m0 ks) k =
     (if k \<in> set ks \<and> non_null (json_get v k) \<noteq> None then json_get v k else map_of m0 k)"
  by (induction ks arbitrary: m0) (auto simp: non_null_def bt_simps split: option.splits json.splits)

lemma registered_get:
  "map_of (rev (registered v exts)) k = (if k \<in> set (field_names exts) then non_null (json_get v k) else None)"
proof -
  have eq: "(case x of None \<Rightarrow> None | Some JNull \<Rightarrow> None | Some y \<Rightarrow> Some (k, y)) = map_option (Pair k) (non_null x)" for x and k :: string
    by (auto simp: non_null_def split: option.splits json.splits)
  have "map_of (rev (List.map_filter (\<lambda>k. map_option (Pair k) (f k)) ks)) k = (if k \<in> set ks then f k else None)"
    for ks and k :: string and f :: "string \<Rightarrow> json option"
    by (induction ks) (auto simp: List.map_filter_simps map_add_def split: option.splits if_splits)
  then show ?thesis by (simp add: registered_def eq)
qed

lemma restored_get:
  "json_get (restored_fields v i) k =
     (if k = ''depends_on'' then None
      else if k \<in> set (field_names EXTENSIONS) \<and> non_null (json_get v k) \<noteq> None then json_get v k
      else if k = ''id'' then Some (JStr i)
      else if k \<in> set core_keys \<and> non_null (json_get v k) \<noteq> None then json_get v k
      else None)"
proof -
  have f: "map_of (filter (\<lambda>(k, _). k \<noteq> ''depends_on'') m) k = (if k = ''depends_on'' then None else map_of m k)" for m :: "(string \<times> json) list"
    by (induction m) auto
  have n: "non_null x = Some y \<Longrightarrow> x = Some y" for x y by (auto simp: non_null_def split: option.splits json.splits)
  show ?thesis
    unfolding restored_fields_def Let_def json_get.simps f absorb_def foldl_insert_get registered_get core_keys_def [symmetric]
      map_add_def bt_get_insert keep_members
    by (auto split: option.splits dest!: n)
qed

lemma fields_in: "''files'' \<in> set (field_names EXTENSIONS)" "''test_files'' \<in> set (field_names EXTENSIONS)"
  "''derived_from'' \<in> set (field_names EXTENSIONS)" "k \<in> set core_keys \<Longrightarrow> k \<notin> set (field_names EXTENSIONS)"
  by (auto simp: field_names_def EXTENSIONS_def core_keys_def)

text \<open>The new bead of the record of a bead.\<close>

definition bead_as_new :: "bead \<Rightarrow> new_bead" where
  "bead_as_new b =
     \<lparr> nb_id = b_id b, nb_title = b_title b, nb_description = b_description b, nb_priority = b_priority b,
       nb_issue_type = b_issue_type b, nb_owner = (case b_owner b of None \<Rightarrow> [] | Some w \<Rightarrow> w),
       nb_files = b_files b, nb_test_files = b_test_files b, nb_depends_on = [], nb_created_by = b_created_by b,
       nb_scope = b_scope b, nb_derived_from = b_derived_from b, nb_acceptance_criteria = b_acceptance_criteria b \<rparr>"

lemma as_strings_json [simp]: "as_strings (json_strings xs) = Some xs"
  by (simp add: as_strings_def json_strings_def read_all_map)

lemma non_null_simps [simp]: "non_null None = None" "non_null (Some JNull) = None" "non_null (Some (JStr s)) = Some (JStr s)"
  "non_null (Some (JNum n)) = Some (JNum n)" "non_null (Some (JArr xs)) = Some (JArr xs)"
  "non_null (Some (json_strings ys)) = Some (json_strings ys)"
  by (simp_all add: non_null_def json_strings_def)

lemma contract_restored:
  assumes "b_priority b < 256"
  shows "new_bead_of_json (restored_fields (bead_to_contract_value rfc b deps cs) (b_id b)) = Some (bead_as_new b)"
proof -
  let ?v = "bead_to_contract_value rfc b deps cs"
  have core: "json_get (restored_fields ?v (b_id b)) k
      = (if non_null (map_of (contract_members rfc b deps cs) k) \<noteq> None then map_of (contract_members rfc b deps cs) k else None)"
    if "k \<in> set core_keys" "k \<noteq> ''id''" for k
  proof -
    have k1: "k \<notin> {''files'', ''test_files'', ''derived_from'', ''branch'', ''pr_url'', ''jj_change_id'', ''dependency_types''}"
      and k2: "k \<noteq> ''depends_on''"
      using that(1) by (auto simp: core_keys_def)
    show ?thesis unfolding restored_get contract_core [OF k1] using that k2 fields_in(4) [OF that(1)] by simp
  qed
  have i: "json_get (restored_fields ?v (b_id b)) ''id'' = Some (JStr (b_id b))"
    using fields_in(4) [of "''id''"] unfolding restored_get by (simp add: core_keys_def)
  have ext: "json_get (restored_fields ?v (b_id b)) ''files'' = Some (json_strings (b_files b))"
    "json_get (restored_fields ?v (b_id b)) ''test_files'' = Some (json_strings (b_test_files b))"
    "json_get (restored_fields ?v (b_id b)) ''derived_from'' = Some (JArr (map prov_to_json (b_derived_from b)))"
    "json_get (restored_fields ?v (b_id b)) ''depends_on'' = None"
    by (simp_all add: restored_get fields_in contract_ext)
  have m: "map_of (contract_members rfc b deps cs) ''title'' = Some (JStr (b_title b))"
    "map_of (contract_members rfc b deps cs) ''description'' = Some (JStr (b_description b))"
    "map_of (contract_members rfc b deps cs) ''priority'' = Some (JNum (int (b_priority b)))"
    "map_of (contract_members rfc b deps cs) ''issue_type'' = Some (JStr (b_issue_type b))"
    "map_of (contract_members rfc b deps cs) ''owner'' = Some (opt_json (b_owner b))"
    "map_of (contract_members rfc b deps cs) ''created_by'' = Some (opt_json (b_created_by b))"
    "map_of (contract_members rfc b deps cs) ''scope'' = Some (JStr (b_scope b))"
    "map_of (contract_members rfc b deps cs) ''acceptance_criteria'' = Some (JStr (b_acceptance_criteria b))"
    by (simp_all add: contract_members_def)
  have o: "non_null (Some (opt_json x)) = map_option JStr x" for x by (cases x) (simp_all add: opt_json_def)
  have "member_or (restored_fields ?v (b_id b)) ''id'' [] as_str = Some (b_id b)"
    "member_or (restored_fields ?v (b_id b)) ''title'' [] as_str = Some (b_title b)"
    "member_or (restored_fields ?v (b_id b)) ''description'' [] as_str = Some (b_description b)"
    "member_or (restored_fields ?v (b_id b)) ''priority'' 2 as_byte = Some (b_priority b)"
    "member_or (restored_fields ?v (b_id b)) ''issue_type'' ''task'' as_str = Some (b_issue_type b)"
    "member_or (restored_fields ?v (b_id b)) ''owner'' [] as_str = Some (case b_owner b of None \<Rightarrow> [] | Some w \<Rightarrow> w)"
    "opt_str (json_get (restored_fields ?v (b_id b)) ''created_by'') = Some (b_created_by b)"
    "member_or (restored_fields ?v (b_id b)) ''scope'' [] as_str = Some (b_scope b)"
    "member_or (restored_fields ?v (b_id b)) ''acceptance_criteria'' [] as_str = Some (b_acceptance_criteria b)"
    using assms core [of "''title''"] core [of "''description''"] core [of "''priority''"] core [of "''issue_type''"]
      core [of "''owner''"] core [of "''created_by''"] core [of "''scope''"] core [of "''acceptance_criteria''"]
    by (simp_all add: member_or_def i core_keys_def m o opt_json_def split: option.splits)
  moreover have "member_or (restored_fields ?v (b_id b)) ''files'' [] as_strings = Some (b_files b)"
    "member_or (restored_fields ?v (b_id b)) ''test_files'' [] as_strings = Some (b_test_files b)"
    "member_or (restored_fields ?v (b_id b)) ''depends_on'' [] as_strings = Some []"
    "member_or (restored_fields ?v (b_id b)) ''derived_from'' [] provs_of_json = Some (b_derived_from b)"
    by (simp_all add: member_or_def ext)
  ultimately show ?thesis by (simp add: new_bead_of_json_def bead_as_new_def)
qed

end
