(* ===== verification/Restore_Behaviour.thy ===== *)
theory Restore_Behaviour
  imports Restore_Records
begin

text \<open>
  What a restore of records does: the beads it creates, the edges and comments it writes, and what a record
  that is newer changes.
\<close>

section \<open>Creating from a record\<close>

definition stamped :: "string \<Rightarrow> string \<Rightarrow> issue_row \<Rightarrow> issue_row" where
  "stamped c u r = r\<lparr> ir_created_at := c, ir_updated_at := u \<rparr>"

text \<open>The row a record is restored to.\<close>

definition restored_row :: "clock \<Rightarrow> json \<Rightarrow> new_bead \<Rightarrow> int \<Rightarrow> int \<Rightarrow> issue_row" where
  "restored_row ck v nb c u =
     stamped (ck_fmt ck c) (ck_fmt ck u)
       ((created_row (ck_now ck) nb)
         \<lparr> ir_status := (case get_str v ''status'' of None \<Rightarrow> ''open'' | Some s \<Rightarrow> canonical_status s),
           ir_external_ref := (case get_str v ''external_ref'' of None \<Rightarrow> None | Some e \<Rightarrow> if e = [] then None else Some e) \<rparr>)"

text \<open>A record that can be restored: its parts.\<close>

definition readable_record :: "clock \<Rightarrow> json \<Rightarrow> string \<Rightarrow> new_bead \<Rightarrow> int \<Rightarrow> int \<Rightarrow> bool" where
  "readable_record ck v i nb c u \<longleftrightarrow> get_str v ''id'' = Some i \<and> new_bead_of_json (restored_fields v i) = Some nb
     \<and> ts_of ck v ''created_at'' = Some c \<and> ts_of ck v ''updated_at'' = Some u"

lemma new_bead_id: "new_bead_of_json (restored_fields v i) = Some nb \<Longrightarrow> nb_id nb = i \<and> nb_depends_on nb = []"
proof -
  have g: "json_get (restored_fields v i) ''id'' = Some (JStr i)" "json_get (restored_fields v i) ''depends_on'' = None"
    using fields_in(4) [of "''id''"] unfolding restored_get by (simp_all add: core_keys_def)
  have m: "member_or (restored_fields v i) ''id'' [] as_str = Some i"
    "member_or (restored_fields v i) ''depends_on'' [] as_strings = Some []"
    by (simp_all add: member_or_def g)
  show "new_bead_of_json (restored_fields v i) = Some nb \<Longrightarrow> nb_id nb = i \<and> nb_depends_on nb = []"
    unfolding new_bead_of_json_def m by (auto split: option.split_asm)
qed

lemma set_last_row:
  assumes "row_of db (ir_id r) = None"
  shows "set_row (ir_id r) f (db\<lparr> db_issues := db_issues db @ [r], db_fts := w \<rparr>) = db\<lparr> db_issues := db_issues db @ [f r], db_fts := w \<rparr>"
    "resolve_id (db\<lparr> db_issues := db_issues db @ [r], db_fts := w \<rparr>) (ir_id r) = Inr (ir_id r)"
proof -
  have "ir_id r \<notin> ir_id ` set (db_issues db)" using assms by (simp add: row_of_None)
  then have "map (\<lambda>q. if ir_id q = ir_id r then f q else q) (db_issues db) = db_issues db"
    by (intro map_idI) (metis image_eqI)
  then show "set_row (ir_id r) f (db\<lparr> db_issues := db_issues db @ [r], db_fts := w \<rparr>) = db\<lparr> db_issues := db_issues db @ [f r], db_fts := w \<rparr>"
    by (simp add: set_row_def)
  have "row_of (db\<lparr> db_issues := db_issues db @ [r] \<rparr>) (ir_id r) = Some r" using assms by (simp add: row_of_append)
  then have "row_of (db\<lparr> db_issues := db_issues db @ [r], db_fts := w \<rparr>) (ir_id r) = Some r" by (simp add: row_of_def)
  then show "resolve_id (db\<lparr> db_issues := db_issues db @ [r], db_fts := w \<rparr>) (ir_id r) = Inr (ir_id r)" by (rule resolve_self)
qed

lemma create_from_ok:
  assumes "readable_record ck v i nb c u" "row_of db i = None"
  shows "create_from ck v i db
    = (db\<lparr> db_issues := db_issues db @ [restored_row ck v nb c u], db_fts := db_fts db @ [fts_key (created_row (ck_now ck) nb)] \<rparr>, Inr ())"
proof -
  have nb: "new_bead_of_json (restored_fields v i) = Some nb" "nb_id nb = i" "nb_depends_on nb = []"
    "ts_of ck v ''created_at'' = Some c" "ts_of ck v ''updated_at'' = Some u"
    using assms(1) new_bead_id [of v i nb] by (auto simp: readable_record_def)
  let ?now = "ck_now ck"
  let ?w = "db_fts db @ [fts_key (created_row ?now nb)]"
  define D where "D r = db\<lparr> db_issues := db_issues db @ [r], db_fts := ?w \<rparr>" for r
  let ?r0 = "created_row ?now nb"
  have create: "create_bead_full ?now nb db = Inr (D ?r0)"
    using assms(2) by (simp add: create_shape nb(2,3) D_def)
  have set: "set_row i f (D r) = D (f r)" "resolve_id (D r) i = Inr i" if "ir_id r = i" for r f
    using set_last_row [of db r] assms(2) that by (simp_all add: D_def)
  define s where "s = (case get_str v ''status'' of None \<Rightarrow> ''open'' | Some s \<Rightarrow> s)"
  obtain r1 where r1: "followed_by (D ?r0, Inr ())
      (\<lambda>_ db. if s \<noteq> ''open'' then attempt db (restore_status ?now i s db) else (db, Inr ())) = (D r1, Inr ())"
    "r1 = ?r0\<lparr> ir_status := canonical_status s \<rparr>"
  proof (cases "s = ''open''")
    case True
    then show ?thesis using that [of ?r0] by (simp add: created_row_def followed_by_def)
  next
    case False
    have "?r0\<lparr> ir_status := canonical_status s, ir_updated_at := ?now \<rparr> = ?r0\<lparr> ir_status := canonical_status s \<rparr>"
      by (simp add: created_row_def)
    then show ?thesis using that [of "?r0\<lparr> ir_status := canonical_status s \<rparr>"] False
      by (simp add: restore_status_def with_bead_def attempt_def set nb(2) followed_by_def)
  qed
  have id1: "ir_id r1 = i" by (simp add: r1(2) nb(2))
  let ?ext = "case get_str v ''external_ref'' of None \<Rightarrow> None | Some e \<Rightarrow> if e = [] then None else Some e"
  obtain r2 where r2: "followed_by (D r1, Inr ()) (\<lambda>_ db. case get_str v ''external_ref'' of None \<Rightarrow> (db, Inr ())
      | Some e \<Rightarrow> if e = [] then (db, Inr ()) else attempt db (set_external_ref ?now i e db)) = (D r2, Inr ())"
    "r2 = r1\<lparr> ir_external_ref := ?ext \<rparr>"
  proof (cases "?ext")
    case None
    then show ?thesis using that [of r1] r1(2) by (auto simp: created_row_def followed_by_def split: option.splits if_splits)
  next
    case (Some e)
    then have e: "get_str v ''external_ref'' = Some e" "e \<noteq> []" by (auto split: option.splits if_splits)
    have u: "r1\<lparr> ir_external_ref := Some e, ir_updated_at := ?now \<rparr> = r1\<lparr> ir_external_ref := Some e \<rparr>"
      by (simp add: r1(2) created_row_def)
    have "set_external_ref ?now i e (D r1) = Inr (D (r1\<lparr> ir_external_ref := Some e \<rparr>))"
      by (simp add: set_external_ref_def with_bead_def set [OF id1] u)
    then show ?thesis using e by (intro that [of "r1\<lparr> ir_external_ref := Some e \<rparr>"]) (simp_all add: followed_by_def attempt_def)
  qed
  have r3: "followed_by (D r2, Inr ()) (\<lambda>_ db. restore_ts ck v i db) = (D (stamped (ck_fmt ck c) (ck_fmt ck u) r2), Inr ())"
  proof -
    have "ir_id r2 = i" by (simp add: r2(2) id1)
    then show ?thesis by (simp add: followed_by_def restore_ts_def nb(4,5) attempt_def restore_timestamps_def with_bead_def set stamped_def)
  qed
  have row: "stamped (ck_fmt ck c) (ck_fmt ck u) r2 = restored_row ck v nb c u"
    unfolding r2(2) r1(2) restored_row_def s_def by (cases "get_str v ''status''") simp_all
  have a: "attempt db (create_bead_full ?now nb db) = (D ?r0, Inr ())" by (simp add: create attempt_def)
  show ?thesis unfolding create_from_def nb(1) option.case Let_def s_def [symmetric] a r1(1) r2(1) r3 row by (simp add: D_def)
qed

section \<open>The first pass\<close>

definition record_id :: "json \<Rightarrow> string" where
  "record_id v = (case get_str v ''id'' of None \<Rightarrow> [] | Some s \<Rightarrow> s)"

definition record_ok :: "clock \<Rightarrow> json \<Rightarrow> bool" where
  "record_ok ck v \<longleftrightarrow> (\<exists>i nb c u. readable_record ck v i nb c u)"

definition record_row :: "clock \<Rightarrow> json \<Rightarrow> issue_row" where
  "record_row ck v =
     restored_row ck v (the (new_bead_of_json (restored_fields v (record_id v))))
       (the (ts_of ck v ''created_at'')) (the (ts_of ck v ''updated_at''))"

lemma record_parts:
  assumes "record_ok ck v"
  obtains nb c u where "readable_record ck v (record_id v) nb c u" "record_row ck v = restored_row ck v nb c u"
    "ts_of ck v ''created_at'' = Some c" "ts_of ck v ''updated_at'' = Some u" "get_str v ''id'' = Some (record_id v)"
proof -
  obtain i nb c u where r: "readable_record ck v i nb c u" using assms by (auto simp: record_ok_def)
  then have i: "record_id v = i" by (simp add: readable_record_def record_id_def)
  show ?thesis by (rule that [of nb c u]) (use r in \<open>simp_all add: i record_row_def readable_record_def\<close>)
qed

lemma record_row_id: "record_ok ck v \<Longrightarrow> ir_id (record_row ck v) = record_id v"
  by (elim record_parts) (auto simp: restored_row_def stamped_def readable_record_def dest: new_bead_id)

lemma restored_fts: "fts_key (restored_row ck v nb c u) = fts_key (created_row (ck_now ck) nb)"
  by (simp add: restored_row_def stamped_def fts_key_def created_row_def)

text \<open>No identifier is the end of another after a dash.\<close>

definition ids_apart :: "string list \<Rightarrow> bool" where
  "ids_apart is \<longleftrightarrow> distinct is \<and> (\<forall>i \<in> set is. \<forall>j \<in> set is. i \<noteq> j \<longrightarrow> \<not> like (''%-'' @ i) j)"

lemma get_bead_none:
  assumes "i \<notin> ir_id ` set (db_issues db)" "\<And>r. r \<in> set (db_issues db) \<Longrightarrow> \<not> like (''%-'' @ i) (ir_id r)"
  shows "get_bead parse db i repo = Inr None"
proof -
  have "filter (like (''%-'' @ i)) (map ir_id (db_issues db)) = []" using assms(2) by (auto simp: filter_empty_conv)
  moreover have "row_of db i = None" using assms(1) by (simp add: row_of_None)
  ultimately show ?thesis by (simp add: get_bead_def resolve_id_def)
qed

lemma first_pass:
  assumes "\<forall>v \<in> set (vs0 @ vs). record_ok ck v" "ids_apart (map record_id (vs0 @ vs))"
    and "db_issues db = map (record_row ck) vs0"
  shows "foldl (\<lambda>m v. followed_by m (restore_one ck repo v)) (db, Inr (res, S)) vs
    = (db\<lparr> db_issues := map (record_row ck) (vs0 @ vs), db_fts := db_fts db @ map (\<lambda>v. fts_key (record_row ck v)) vs \<rparr>,
       Inr (res\<lparr> rr_restored := rr_restored res + length vs \<rparr>, S \<union> record_id ` set vs))"
  using assms
proof (induction vs arbitrary: vs0 db res S)
  case Nil
  then show ?case by simp
next
  case (Cons v vs)
  have ok: "record_ok ck v" using Cons.prems(1) by simp
  then obtain nb c u where v: "readable_record ck v (record_id v) nb c u" "record_row ck v = restored_row ck v nb c u"
    "get_str v ''id'' = Some (record_id v)"
    by (rule record_parts)
  have old: "ir_id ` set (db_issues db) = record_id ` set vs0"
    unfolding Cons.prems(3) set_map image_image using Cons.prems(1) by (intro image_cong) (auto simp: record_row_id)
  have new: "record_id v \<notin> ir_id ` set (db_issues db)" using Cons.prems(2) unfolding old by (auto simp: ids_apart_def)
  have none: "get_bead (ck_parse ck) db (record_id v) repo = Inr None"
  proof (rule get_bead_none [OF new])
    fix r
    assume "r \<in> set (db_issues db)"
    then have "ir_id r \<in> record_id ` set vs0" using old by blast
    then show "\<not> like (''%-'' @ record_id v) (ir_id r)" using Cons.prems(2) new old by (auto simp: ids_apart_def)
  qed
  let ?db1 = "db\<lparr> db_issues := map (record_row ck) (vs0 @ [v]), db_fts := db_fts db @ [fts_key (record_row ck v)] \<rparr>"
  let ?res1 = "res\<lparr> rr_restored := rr_restored res + 1 \<rparr>"
  have "create_from ck v (record_id v) db = (?db1, Inr ())"
    using create_from_ok [OF v(1), of db] new by (simp add: row_of_None v(2) restored_fts Cons.prems(3))
  then have one: "followed_by (db, Inr (res, S)) (restore_one ck repo v) = (?db1, Inr (?res1, insert (record_id v) S))"
    by (simp add: followed_by_def restore_one_def v(3) none)
  have "foldl (\<lambda>m v. followed_by m (restore_one ck repo v)) (?db1, Inr (?res1, insert (record_id v) S)) vs
    = (?db1\<lparr> db_issues := map (record_row ck) ((vs0 @ [v]) @ vs), db_fts := db_fts ?db1 @ map (\<lambda>v. fts_key (record_row ck v)) vs \<rparr>,
       Inr (?res1\<lparr> rr_restored := rr_restored ?res1 + length vs \<rparr>, insert (record_id v) S \<union> record_id ` set vs))"
    by (rule Cons.IH) (use Cons.prems in auto)
  then show ?case unfolding foldl_Cons one by simp
qed

section \<open>The second pass\<close>

text \<open>The edges and the comments of a record as rows; the comments of the store are numbered from \<open>n\<close>.\<close>

definition record_edges :: "json \<Rightarrow> dep_row list" where
  "record_edges v = map (\<lambda>(t, ty). \<lparr> dr_issue = record_id v, dr_target = t, dr_type = ty \<rparr>) (decode_deps v)"

definition record_comments :: "json \<Rightarrow> (string \<times> string) list" where
  "record_comments v =
     (case Option.bind (json_get v ''comments'') as_array of None \<Rightarrow> [] | Some cs \<Rightarrow> wanted_comments {} cs)"

fun numbered :: "string \<Rightarrow> string \<Rightarrow> nat \<Rightarrow> (string \<times> string) list \<Rightarrow> comment_row list" where
  "numbered now i n [] = []"
| "numbered now i n ((b, a) # cs) =
     \<lparr> cr_id = n, cr_issue = i, cr_text = scrub_and_warn b, cr_author = a, cr_created_at = now, cr_edited_at = None,
       cr_edit_reason = None, cr_original_text = None, cr_deleted_at = None, cr_delete_reason = None \<rparr>
     # numbered now i (n + 1) cs"

lemma numbered_issue: "c \<in> set (numbered now i n cs) \<Longrightarrow> cr_issue c = i"
  by (induction now i n cs rule: numbered.induct) auto

lemma numbered_length [simp]: "length (numbered now i n cs) = length cs"
  by (induction now i n cs rule: numbered.induct) auto

lemma touch_twice: "touch now i ((touch now i db)\<lparr> db_comments := cs, db_next_comment := n \<rparr>)
    = touch now i (db\<lparr> db_comments := cs, db_next_comment := n \<rparr>)"
  by (simp add: touch_def set_row_def comp_def)

lemma add_comments_ok:
  assumes "row_of db i \<noteq> None"
  shows "add_comments ck i cs db
    = ((if cs = [] then db
        else touch (ck_now ck) i (db\<lparr> db_comments := db_comments db @ numbered (ck_now ck) i (db_next_comment db) cs,
               db_next_comment := db_next_comment db + length cs \<rparr>)), Inr ())"
  using assms
proof (induction cs arbitrary: db)
  case Nil
  then show ?case by (simp add: add_comments_def)
next
  case (Cons c cs)
  obtain b a where c: "c = (b, a)" by (cases c)
  let ?now = "ck_now ck"
  let ?db1 = "touch ?now i (db\<lparr> db_comments := db_comments db @ numbered ?now i (db_next_comment db) [c],
    db_next_comment := db_next_comment db + 1 \<rparr>)"
  obtain r where "row_of db i = Some r" using Cons.prems by auto
  then have "resolve_id db i = Inr i" by (rule resolve_self)
  then have a: "add_comment ?now i b a db = Inr ?db1" by (simp add: add_comment_def with_bead_def Let_def c)
  have s: "add_comments ck i (c # cs) db = add_comments ck i cs ?db1"
    by (simp add: add_comments_def c followed_by_def attempt_def a [unfolded c])
  have p: "row_of ?db1 i \<noteq> None" using Cons.prems by (simp add: touch_def row_of_set_row keeps_id_def)
  have t: "db_comments (touch ?now i d) = db_comments d" "db_next_comment (touch ?now i d) = db_next_comment d" for d
    by (simp_all add: touch_def set_row_def)
  show ?case unfolding s Cons.IH [OF p] t touch_twice by (cases cs) (simp_all add: c t)
qed

definition wired :: "clock \<Rightarrow> json \<Rightarrow> bead_db \<Rightarrow> bead_db" where
  "wired ck v db = db\<lparr> db_deps := db_deps db @ record_edges v,
     db_comments := db_comments db @ numbered (ck_now ck) (record_id v) (db_next_comment db) (record_comments v),
     db_next_comment := db_next_comment db + length (record_comments v) \<rparr>"

lemma stamp_rows:
  assumes "record_ok ck v" "record_row ck v \<in> set (db_issues db)" "issues_ok db"
  shows "restore_ts ck v (record_id v) db = (db, Inr ())"
    "restore_ts ck v (record_id v) (touch now (record_id v) db) = (db, Inr ())"
proof -
  obtain nb c u where v: "record_row ck v = restored_row ck v nb c u"
    "ts_of ck v ''created_at'' = Some c" "ts_of ck v ''updated_at'' = Some u"
    using assms(1) by (rule record_parts)
  have id: "ir_id (record_row ck v) = record_id v" using assms(1) by (rule record_row_id)
  have r: "row_of db (record_id v) = Some (record_row ck v)" using row_of_unique [OF assms(3,2)] id by simp
  have one: "q = record_row ck v" if "q \<in> set (db_issues db)" "ir_id q = record_id v" for q
    using row_of_unique [OF assms(3) that(1)] that(2) r by simp
  let ?s = "\<lambda>r. r\<lparr> ir_created_at := ck_fmt ck c, ir_updated_at := ck_fmt ck u \<rparr>"
  have "?s (record_row ck v) = record_row ck v" by (simp add: v(1) restored_row_def stamped_def)
  then have "map (\<lambda>q. if ir_id q = record_id v then ?s q else q) (db_issues db) = db_issues db"
    by (intro map_idI) (auto dest: one)
  then have same: "set_row (record_id v) ?s db = db" by (simp add: set_row_def)
  moreover have "set_row (record_id v) ?s (touch now (record_id v) db) = set_row (record_id v) ?s db"
    by (auto simp: touch_def set_row_def)
  moreover have "resolve_id (touch now (record_id v) db) (record_id v) = resolve_id db (record_id v)"
    unfolding touch_def by (rule resolve_set_row) (simp add: keeps_id_def)
  ultimately show "restore_ts ck v (record_id v) db = (db, Inr ())"
    "restore_ts ck v (record_id v) (touch now (record_id v) db) = (db, Inr ())"
    using resolve_self [OF r] by (simp_all add: restore_ts_def v(2,3) attempt_def restore_timestamps_def with_bead_def)
qed

lemma followed_assoc: "followed_by (followed_by m f) g = followed_by m (\<lambda>x db. followed_by (f x db) g)"
  by (simp add: followed_by_def split: sum.split)

lemma wire_one_ok:
  assumes "record_ok ck v" "record_row ck v \<in> set (db_issues db)" "issues_ok db" "record_id v \<in> S"
    "distinct (map fst (decode_deps v))"
    "record_id v \<notin> dr_issue ` set (db_deps db)" "record_id v \<notin> cr_issue ` set (db_comments db)"
  shows "wire_one ck S v res db
    = (wired ck v db, Inr (res\<lparr> rr_dependencies := rr_dependencies res + length (decode_deps v),
         rr_comments := rr_comments res + length (record_comments v) \<rparr>))"
proof -
  let ?i = "record_id v"
  have id: "ir_id (record_row ck v) = ?i" "get_str v ''id'' = Some ?i"
    using assms(1) by (simp_all add: record_row_id) (elim record_parts, simp)
  have r: "row_of db ?i = Some (record_row ck v)" using row_of_unique [OF assms(3,2)] id by simp
  define d1 where "d1 = db\<lparr> db_deps := db_deps db @ record_edges v \<rparr>"
  have p: "db_comments d1 = db_comments db" "db_next_comment d1 = db_next_comment db" by (simp_all add: d1_def)
  define D where "D cs n = d1\<lparr> db_comments := cs, db_next_comment := n \<rparr>" for cs n
  have w: "wired ck v db = D (db_comments db @ numbered (ck_now ck) ?i (db_next_comment db) (record_comments v))
      (db_next_comment db + length (record_comments v))"
    by (simp add: wired_def D_def d1_def)
  have f: "filter (\<lambda>d. dr_issue d \<noteq> ?i) (db_deps db) = db_deps db" using assms(6) by (intro filter_True) (metis imageI)
  have rep: "attempt db (replace_dependencies ?i (decode_deps v) db) = (d1, Inr ())"
    by (simp add: replace_dependencies_def assms(5) attempt_def d1_def record_edges_def f)
  have d1: "issues_ok d1" "record_row ck v \<in> set (db_issues d1)" "row_of d1 ?i = Some (record_row ck v)"
    using assms(2,3) r by (simp_all add: d1_def issues_ok_def row_of_def)
  have D: "issues_ok (D cs n)" "record_row ck v \<in> set (db_issues (D cs n))" for cs n
    using d1 by (simp_all add: D_def issues_ok_def)
  have ex0: "filter (\<lambda>c. cr_issue c = ?i) (db_comments db) = []" using assms(7) unfolding filter_empty_conv by (metis imageI)
  have ex: "list_comments (ck_parse ck) d1 ?i True = Inr []"
    using ex0 p resolve_self [OF d1(3)] by (simp add: list_comments_def List.map_filter_simps)
  have row: "row_of d1 ?i \<noteq> None" by (simp add: d1(3))
  note stamps = stamp_rows(1) [OF assms(1) d1(2,1)] stamp_rows(2) [OF assms(1) D(2,1)]
  have add: "followed_by (add_comments ck ?i ks d1) (\<lambda>_ db. followed_by (db, Inr x) (\<lambda>y db. followed_by (restore_ts ck v ?i db) (\<lambda>_ db. (db, Inr y))))
      = (D (db_comments db @ numbered (ck_now ck) ?i (db_next_comment db) ks) (db_next_comment db + length ks), Inr x)" for ks x
  proof (cases "ks = []")
    case True
    have "D (db_comments db) (db_next_comment db) = d1" by (simp add: D_def d1_def)
    then show ?thesis unfolding add_comments_ok [OF row] using stamps(1) by (simp add: True followed_by_def)
  next
    case False
    then show ?thesis unfolding add_comments_ok [OF row] p D_def [symmetric] using stamps(2) by (simp add: followed_by_def)
  qed
  show ?thesis
  proof (cases "Option.bind (json_get v ''comments'') as_array")
    case None
    then have c: "record_comments v = []" by (simp add: record_comments_def)
    have "D (db_comments db) (db_next_comment db) = d1" by (simp add: D_def d1_def)
    then show ?thesis unfolding wire_one_def id(2) option.case Let_def rep None w
      using stamps(1) assms(4) by (simp add: followed_by_def c)
  next
    case (Some cs)
    then have c: "record_comments v = wanted_comments {} cs" by (simp add: record_comments_def)
    have next_step: "followed_by (d1, Inr ()) X = X () d1" for X :: "unit \<Rightarrow> bead_db \<Rightarrow> restore_result attempt" by (simp add: followed_by_def)
    show ?thesis unfolding wire_one_def id(2) option.case Let_def rep Some w next_step
      using assms(4) by (simp add: ex followed_assoc add c)
  qed
qed

definition counted :: "restore_result \<Rightarrow> json list \<Rightarrow> restore_result" where
  "counted res vs = res\<lparr> rr_dependencies := rr_dependencies res + sum_list (map (\<lambda>v. length (decode_deps v)) vs),
     rr_comments := rr_comments res + sum_list (map (\<lambda>v. length (record_comments v)) vs) \<rparr>"

lemma wired_parts [simp]: "db_issues (wired ck v db) = db_issues db" "db_deps (wired ck v db) = db_deps db @ record_edges v"
  by (simp_all add: wired_def)

lemma second_pass:
  assumes "\<forall>v \<in> set ws. record_ok ck v \<and> record_row ck v \<in> set (db_issues db) \<and> record_id v \<in> S \<and> distinct (map fst (decode_deps v))
      \<and> record_id v \<notin> dr_issue ` set (db_deps db) \<and> record_id v \<notin> cr_issue ` set (db_comments db)"
    "issues_ok db" "distinct (map record_id ws)"
  shows "foldl (\<lambda>m v. followed_by m (wire_one ck S v)) (db, Inr res) ws
    = (foldl (\<lambda>db v. wired ck v db) db ws, Inr (counted res ws))"
  using assms
proof (induction ws arbitrary: db res)
  case Nil
  then show ?case by (simp add: counted_def)
next
  case (Cons v ws)
  let ?res1 = "res\<lparr> rr_dependencies := rr_dependencies res + length (decode_deps v),
         rr_comments := rr_comments res + length (record_comments v) \<rparr>"
  have one: "followed_by (db, Inr res) (wire_one ck S v) = (wired ck v db, Inr ?res1)"
    using Cons.prems(1,2) wire_one_ok [of ck v db S res] by (simp add: followed_by_def)
  have "foldl (\<lambda>m v. followed_by m (wire_one ck S v)) (wired ck v db, Inr ?res1) ws
      = (foldl (\<lambda>db v. wired ck v db) (wired ck v db) ws, Inr (counted ?res1 ws))"
  proof (rule Cons.IH)
    have "dr_issue d = record_id v" if "d \<in> set (record_edges v)" for d using that by (auto simp: record_edges_def)
    moreover have "record_id w \<noteq> record_id v" if "w \<in> set ws" for w using that Cons.prems(3) by (metis distinct.simps(2) image_eqI list.set_map list.simps(9))
    ultimately show "\<forall>w \<in> set ws. record_ok ck w \<and> record_row ck w \<in> set (db_issues (wired ck v db)) \<and> record_id w \<in> S
        \<and> distinct (map fst (decode_deps w)) \<and> record_id w \<notin> dr_issue ` set (db_deps (wired ck v db))
        \<and> record_id w \<notin> cr_issue ` set (db_comments (wired ck v db))"
      using Cons.prems(1) by (fastforce simp: wired_def dest: numbered_issue)
    show "issues_ok (wired ck v db)" using Cons.prems(2) by (simp add: issues_ok_def)
    show "distinct (map record_id ws)" using Cons.prems(3) by simp
  qed
  moreover have "counted ?res1 ws = counted res (v # ws)" by (simp add: counted_def)
  ultimately show ?case unfolding foldl_Cons one by simp
qed

section \<open>What the second pass writes\<close>

definition entry :: "comment_row \<Rightarrow> string \<times> string \<times> string" where
  "entry c = (cr_issue c, entry_of c)"

definition record_entries :: "json \<Rightarrow> (string \<times> string \<times> string) list" where
  "record_entries v = map (\<lambda>(b, a). (record_id v, scrub_and_warn b, a)) (record_comments v)"

definition comments_at :: "string \<Rightarrow> bead_db \<Rightarrow> bool" where
  "comments_at now db \<longleftrightarrow> sorted (map cr_id (db_comments db)) \<and> (\<forall>c \<in> set (db_comments db). cr_id c < db_next_comment db)
     \<and> (\<forall>c \<in> set (db_comments db). cr_created_at c = now \<and> cr_deleted_at c = None)"

lemma numbered_at:
  "sorted (map cr_id (numbered now i n cs)) \<and> (\<forall>c \<in> set (numbered now i n cs). n \<le> cr_id c \<and> cr_id c < n + length cs
     \<and> cr_created_at c = now \<and> cr_deleted_at c = None)
   \<and> map entry (numbered now i n cs) = map (\<lambda>(b, a). (i, scrub_and_warn b, a)) cs"
  by (induction now i n cs rule: numbered.induct) (auto simp: entry_def entry_of_def Suc_le_eq less_imp_le)

lemma wired_at: "comments_at (ck_now ck) db \<Longrightarrow> comments_at (ck_now ck) (wired ck v db)"
  using numbered_at [of "ck_now ck" "record_id v" "db_next_comment db" "record_comments v"]
  by (fastforce simp: comments_at_def wired_def sorted_append)

lemma all_wired:
  assumes "comments_at (ck_now ck) db"
  shows "db_issues (foldl (\<lambda>db v. wired ck v db) db ws) = db_issues db"
    "db_deps (foldl (\<lambda>db v. wired ck v db) db ws) = db_deps db @ concat (map record_edges ws)"
    "map entry (db_comments (foldl (\<lambda>db v. wired ck v db) db ws)) = map entry (db_comments db) @ concat (map record_entries ws)"
    "comments_at (ck_now ck) (foldl (\<lambda>db v. wired ck v db) db ws)"
proof -
  have e: "map entry (db_comments (wired ck v db)) = map entry (db_comments db) @ record_entries v" for v db
    using numbered_at [of "ck_now ck" "record_id v" "db_next_comment db" "record_comments v"]
    by (simp add: wired_def record_entries_def)
  show "db_issues (foldl (\<lambda>db v. wired ck v db) db ws) = db_issues db"
    "db_deps (foldl (\<lambda>db v. wired ck v db) db ws) = db_deps db @ concat (map record_edges ws)"
    "map entry (db_comments (foldl (\<lambda>db v. wired ck v db) db ws)) = map entry (db_comments db) @ concat (map record_entries ws)"
    by (induction ws arbitrary: db) (simp_all add: e)
  show "comments_at (ck_now ck) (foldl (\<lambda>db v. wired ck v db) db ws)"
    using assms by (induction ws arbitrary: db) (simp_all add: wired_at)
qed

lemma log_sorted:
  assumes "comments_at now db"
  shows "log_of i db = map snd (filter (\<lambda>e. fst e = i) (map entry (db_comments db)))"
proof -
  let ?cs = "filter (\<lambda>c. cr_issue c = i) (db_comments db)"
  have "sorted (map cr_id ?cs)" using assms by (simp add: comments_at_def sorted_filter)
  then have "sort_key cr_id ?cs = ?cs" by (rule sort_key_id_if_sorted)
  moreover have "sorted (map cr_created_at ?cs)"
  proof -
    have "map cr_created_at ?cs = map (\<lambda>_. now) ?cs" using assms by (auto simp: comments_at_def)
    then show ?thesis by (simp add: map_replicate_const)
  qed
  then have "sort_key cr_created_at ?cs = ?cs" by (rule sort_key_id_if_sorted)
  ultimately show ?thesis by (simp add: log_of_def comment_rows_def entry_def filter_map comp_def)
qed

lemma select_own:
  assumes "distinct (map k ws)" "v \<in> set ws" "\<And>w x. x \<in> set (f w) \<Longrightarrow> g x = k w"
  shows "filter (\<lambda>x. g x = k v) (concat (map f ws)) = f v"
  using assms(1,2)
proof (induction ws)
  case (Cons w ws)
  have "filter (\<lambda>x. g x = k v) (concat (map f ws)) = []" if "v = w"
    using Cons.prems(1) that by (auto simp: filter_empty_conv dest!: assms(3))
  moreover have "filter (\<lambda>x. g x = k v) (f w) = (if v = w then f w else [])"
    using Cons.prems by (auto simp: filter_empty_conv filter_id_conv dest!: assms(3)) (metis image_eqI)
  ultimately show ?case using Cons by auto
qed simp

section \<open>A whole restore\<close>

lemma followed_ok: "followed_by (db, Inr x) f = f x db"
  by (simp add: followed_by_def)

definition restored_store :: "clock \<Rightarrow> json list \<Rightarrow> bead_db" where
  "restored_store ck vs = foldl (\<lambda>db v. wired ck v db)
     (empty_db\<lparr> db_issues := map (record_row ck) vs, db_fts := map (\<lambda>v. fts_key (record_row ck v)) vs \<rparr>) vs"

lemma new_bead_priority: "new_bead_of_json v = Some nb \<Longrightarrow> nb_priority nb < 256"
proof -
  have b: "as_byte x = Some p \<Longrightarrow> p < 256" for x p by (cases x) (auto split: if_splits)
  have m: "member_or v ''priority'' 2 as_byte = Some p \<Longrightarrow> p < 256" for p by (auto simp: member_or_def split: option.splits dest: b)
  show "new_bead_of_json v = Some nb \<Longrightarrow> nb_priority nb < 256"
    unfolding new_bead_of_json_def using m by (auto split: option.split_asm)
qed

lemma restore_all:
  assumes "\<forall>v \<in> set vs. record_ok ck v \<and> distinct (map fst (decode_deps v))" "ids_apart (map record_id vs)"
  shows "restore_beads_from_contract ck vs repo empty_db
    = (restored_store ck vs, Inr (counted (no_result\<lparr> rr_restored := length vs \<rparr>) vs))"
proof -
  let ?db = "empty_db\<lparr> db_issues := map (record_row ck) vs, db_fts := map (\<lambda>v. fts_key (record_row ck v)) vs \<rparr>"
  have e: "rr_restored no_result = 0" "db_issues empty_db = []" "db_fts empty_db = []" "db_deps empty_db = []" "db_comments empty_db = []"
    by (simp_all add: no_result_def empty_db_def)
  have p1: "foldl (\<lambda>m v. followed_by m (restore_one ck repo v)) (empty_db, Inr (no_result, {})) vs
      = (?db, Inr (no_result\<lparr> rr_restored := length vs \<rparr>, record_id ` set vs))"
    using first_pass [of "[]" vs ck empty_db repo no_result "{}"] assms by (simp add: e)
  have d: "distinct (map record_id vs)" using assms(2) by (simp add: ids_apart_def)
  have ok: "issues_ok ?db"
  proof -
    have "row_ok (record_row ck v)" if v: "v \<in> set vs" for v
    proof -
      obtain nb c u where n: "readable_record ck v (record_id v) nb c u" "record_row ck v = restored_row ck v nb c u"
        using assms(1) v by (meson record_parts)
      then have "nb_priority nb < 256" by (auto simp: readable_record_def intro: new_bead_priority)
      then have "row_ok (created_row (ck_now ck) nb)" by (rule created_row_ok)
      then show ?thesis by (auto simp: n(2) restored_row_def stamped_def row_ok_def split: option.split)
    qed
    moreover have "map ir_id (map (record_row ck) vs) = map record_id vs" using assms(1) by (simp add: record_row_id)
    then have "distinct (map ir_id (map (record_row ck) vs))" using d by (simp only:)
    ultimately show ?thesis by (simp add: issues_ok_def list_all_iff)
  qed
  have "foldl (\<lambda>m v. followed_by m (wire_one ck (record_id ` set vs) v)) (?db, Inr (no_result\<lparr> rr_restored := length vs \<rparr>)) vs
      = (restored_store ck vs, Inr (counted (no_result\<lparr> rr_restored := length vs \<rparr>) vs))"
    unfolding restored_store_def by (rule second_pass) (use assms(1) d ok in \<open>auto simp: e\<close>)
  then show ?thesis unfolding restore_beads_from_contract_def p1 followed_ok by simp
qed

lemma restored_parts:
  "db_issues (restored_store ck vs) = map (record_row ck) vs"
  "db_deps (restored_store ck vs) = concat (map record_edges vs)"
  "map entry (db_comments (restored_store ck vs)) = concat (map record_entries vs)"
  "comments_at (ck_now ck) (restored_store ck vs)"
proof -
  let ?db = "empty_db\<lparr> db_issues := map (record_row ck) vs, db_fts := map (\<lambda>v. fts_key (record_row ck v)) vs \<rparr>"
  have at: "comments_at (ck_now ck) ?db" by (simp add: comments_at_def empty_db_def)
  have e: "db_issues ?db = map (record_row ck) vs" "db_deps ?db = []" "db_comments ?db = []" by (simp_all add: empty_db_def)
  show "db_issues (restored_store ck vs) = map (record_row ck) vs"
    "db_deps (restored_store ck vs) = concat (map record_edges vs)"
    "map entry (db_comments (restored_store ck vs)) = concat (map record_entries vs)"
    "comments_at (ck_now ck) (restored_store ck vs)"
    unfolding restored_store_def all_wired [OF at] e by (simp_all add: all_wired(4) [OF at])
qed

lemma find_record: "\<forall>w \<in> set ws. ir_id (record_row ck w) = record_id w \<Longrightarrow> distinct (map record_id ws) \<Longrightarrow> v \<in> set ws
    \<Longrightarrow> List.find (\<lambda>r. ir_id r = record_id v) (map (record_row ck) ws) = Some (record_row ck v)"
  by (induction ws) (auto simp: image_iff)

lemma restored_reads:
  assumes "\<forall>v \<in> set vs. record_ok ck v \<and> distinct (map fst (decode_deps v))" "ids_apart (map record_id vs)" "v \<in> set vs"
  shows "row_of (restored_store ck vs) (record_id v) = Some (record_row ck v)"
    "get_dependencies_typed (restored_store ck vs) (record_id v) = decode_deps v"
    "log_of (record_id v) (restored_store ck vs) = map (\<lambda>(b, a). (scrub_and_warn b, a)) (record_comments v)"
proof -
  have d: "distinct (map record_id vs)" using assms(2) by (simp add: ids_apart_def)
  have id: "\<forall>w \<in> set vs. ir_id (record_row ck w) = record_id w" using assms(1) by (simp add: record_row_id)
  show row: "row_of (restored_store ck vs) (record_id v) = Some (record_row ck v)"
    unfolding row_of_def restored_parts by (rule find_record [OF id d assms(3)])
  have own: "filter (\<lambda>x. dr_issue x = record_id v) (concat (map record_edges vs)) = record_edges v"
    by (rule select_own [OF d assms(3)]) (auto simp: record_edges_def)
  show "get_dependencies_typed (restored_store ck vs) (record_id v) = decode_deps v"
    unfolding get_dependencies_typed_def select_deps_def resolve_self [OF row] restored_parts sum.case own
    by (simp only: record_edges_def map_map comp_def case_prod_unfold dep_row.simps prod.collapse list.map_ident)
  have own: "filter (\<lambda>e. fst e = record_id v) (concat (map record_entries vs)) = record_entries v"
    by (rule select_own [OF d assms(3)]) (auto simp: record_entries_def)
  show "log_of (record_id v) (restored_store ck vs) = map (\<lambda>(b, a). (scrub_and_warn b, a)) (record_comments v)"
    unfolding log_sorted [OF restored_parts(4)] restored_parts own by (simp add: record_entries_def case_prod_unfold comp_def)
qed

section \<open>Records that are not newer\<close>

lemma skip_pass:
  assumes "\<forall>v \<in> set vs. \<exists>local. get_str v ''id'' \<noteq> None \<and> get_bead (ck_parse ck) db (record_id v) repo = Inr (Some local)
      \<and> \<not> lww_newer (ts_of ck v ''updated_at'') (b_updated_at local)"
  shows "foldl (\<lambda>m v. followed_by m (restore_one ck repo v)) (db, Inr (res, S)) vs
    = (db, Inr (res\<lparr> rr_skipped := rr_skipped res + length vs \<rparr>, S))"
  using assms
proof (induction vs arbitrary: res)
  case (Cons v vs)
  obtain local where l: "get_bead (ck_parse ck) db (record_id v) repo = Inr (Some local)" "get_str v ''id'' \<noteq> None"
    "\<not> lww_newer (ts_of ck v ''updated_at'') (b_updated_at local)"
    using Cons.prems by (meson list.set_intros(1))
  have i: "get_str v ''id'' = Some (record_id v)" using l(2) by (auto simp: record_id_def)
  have "followed_by (db, Inr (res, S)) (restore_one ck repo v) = (db, Inr (res\<lparr> rr_skipped := rr_skipped res + 1 \<rparr>, S))"
    using l(1,3) by (simp add: followed_by_def restore_one_def i)
  then show ?case using Cons by simp
qed simp

lemma skip_all:
  assumes "\<forall>v \<in> set vs. \<exists>local. get_str v ''id'' \<noteq> None \<and> get_bead (ck_parse ck) db (record_id v) repo = Inr (Some local)
      \<and> \<not> lww_newer (ts_of ck v ''updated_at'') (b_updated_at local)"
  shows "restore_beads_from_contract ck vs repo db = (db, Inr (no_result\<lparr> rr_skipped := length vs \<rparr>))"
proof -
  have "foldl (\<lambda>m v. followed_by m (wire_one ck {} v)) (db, Inr res) vs = (db, Inr res)" for res
    by (induction vs) (simp_all add: followed_by_def wire_one_def Let_def)
  then show ?thesis
    unfolding restore_beads_from_contract_def skip_pass [OF assms] by (simp add: followed_ok) (simp add: no_result_def)
qed

section \<open>Exported beads\<close>

text \<open>
  What a bead has to be for its record to hold all of it: its texts are free of secrets, its status is one of
  the states, its instants survive the formats, and no optional text is there but empty.
\<close>

definition exportable :: "clock \<Rightarrow> (int \<Rightarrow> string) \<Rightarrow> bead \<Rightarrow> bool" where
  "exportable ck rfc b \<longleftrightarrow> b_priority b < 256 \<and> clean (b_title b) \<and> clean (b_description b)
     \<and> canonical_status (b_status b) = b_status b \<and> b_owner b \<noteq> Some [] \<and> b_external_ref b \<noteq> Some []
     \<and> ck_parse_ts ck (rfc (b_created_at b)) = Some (b_created_at b) \<and> ck_parse_ts ck (rfc (b_updated_at b)) = Some (b_updated_at b)
     \<and> ck_parse ck (ck_fmt ck (b_created_at b)) = Some (b_created_at b) \<and> ck_parse ck (ck_fmt ck (b_updated_at b)) = Some (b_updated_at b)"

lemma contract_strs:
  "get_str (bead_to_contract_value rfc b ds cs) ''id'' = Some (b_id b)"
  "get_str (bead_to_contract_value rfc b ds cs) ''status'' = Some (b_status b)"
  "get_str (bead_to_contract_value rfc b ds cs) ''external_ref'' = b_external_ref b"
  "get_str (bead_to_contract_value rfc b ds cs) ''created_at'' = Some (rfc (b_created_at b))"
  "get_str (bead_to_contract_value rfc b ds cs) ''updated_at'' = Some (rfc (b_updated_at b))"
  "json_get (bead_to_contract_value rfc b ds cs) ''comments'' = Some (JArr (map (comment_json rfc) cs))"
  by (simp_all add: get_str_def contract_core contract_members_def opt_json_def split: option.split)

lemma comment_parts: "comment_body (comment_json rfc c) = cm_text c" "comment_author (comment_json rfc c) = cm_author c"
proof -
  have "json_get (comment_json rfc c) ''text'' = Some (JStr (cm_text c))" "json_get (comment_json rfc c) ''author'' = Some (JStr (cm_author c))"
    by (simp_all add: comment_json_def json_get_obj opt_member_def split: option.splits)
  then show "comment_body (comment_json rfc c) = cm_text c" "comment_author (comment_json rfc c) = cm_author c"
    by (simp_all add: comment_body_def comment_author_def get_str_def)
qed

lemma contract_comments:
  "record_comments (bead_to_contract_value rfc b ds cs) = map (\<lambda>c. (cm_text c, cm_author c)) (filter (\<lambda>c. trim (cm_text c) \<noteq> []) cs)"
  by (simp add: record_comments_def contract_strs wanted_comments_def comment_parts filter_map comp_def)

lemma contract_readable:
  assumes "exportable ck rfc b"
  shows "readable_record ck (bead_to_contract_value rfc b ds cs) (b_id b) (bead_as_new b) (b_created_at b) (b_updated_at b)"
  using assms by (simp add: readable_record_def exportable_def contract_strs contract_restored ts_of_def)

lemma contract_record:
  assumes "exportable ck rfc b"
  shows "record_ok ck (bead_to_contract_value rfc b ds cs)" "record_id (bead_to_contract_value rfc b ds cs) = b_id b"
    "record_row ck (bead_to_contract_value rfc b ds cs)
      = restored_row ck (bead_to_contract_value rfc b ds cs) (bead_as_new b) (b_created_at b) (b_updated_at b)"
proof -
  note r = contract_readable [OF assms, of ds cs]
  show "record_ok ck (bead_to_contract_value rfc b ds cs)" using r by (auto simp: record_ok_def)
  show i: "record_id (bead_to_contract_value rfc b ds cs) = b_id b" by (simp add: record_id_def contract_strs)
  show "record_row ck (bead_to_contract_value rfc b ds cs)
      = restored_row ck (bead_to_contract_value rfc b ds cs) (bead_as_new b) (b_created_at b) (b_updated_at b)"
    using r by (simp add: record_row_def i readable_record_def)
qed

text \<open>The bead as another store reads it.\<close>

definition bead_in :: "bead_db \<Rightarrow> string \<Rightarrow> bead \<Rightarrow> bead" where
  "bead_in db repo b = b\<lparr> b_repo := repo, b_branch := None, b_pr_url := None, b_jj_change_id := None,
     b_dependency_count := dependency_count db (b_id b), b_dependent_count := dependent_count db (b_id b),
     b_comment_count := comment_count db (b_id b) \<rparr>"

lemma restored_bead:
  assumes "exportable ck rfc b" "row_of db (b_id b) = Some (record_row ck (bead_to_contract_value rfc b ds cs))"
  shows "get_bead (ck_parse ck) db (b_id b) repo = Inr (Some (bead_in db repo b))"
proof -
  let ?r = "record_row ck (bead_to_contract_value rfc b ds cs)"
  have p: "- (2 ^ 31) \<le> int (b_priority b) \<and> int (b_priority b) < 2 ^ 31 \<and> nat (int (b_priority b) mod 256) = b_priority b"
    using assms(1) by (simp add: exportable_def)
  have own: "b_owner b \<noteq> Some []" "b_external_ref b \<noteq> Some []" using assms(1) by (simp_all add: exportable_def)
  have r: "ir_assignee ?r = b_owner b"
    unfolding contract_record(3) [OF assms(1)] using own(1)
    by (cases "b_owner b") (simp_all add: restored_row_def stamped_def created_row_def bead_as_new_def)
  have x: "ir_external_ref ?r = b_external_ref b"
    unfolding contract_record(3) [OF assms(1)] using own(2)
    by (cases "b_external_ref b") (simp_all add: restored_row_def stamped_def contract_strs)
  have rs: "ir_id ?r = b_id b" "ir_title ?r = b_title b" "ir_description ?r = Some (b_description b)" "ir_status ?r = b_status b"
    "ir_priority ?r = int (b_priority b)" "ir_issue_type ?r = b_issue_type b" "ir_created_by ?r = b_created_by b"
    "ir_scope ?r = b_scope b" "ir_acceptance_criteria ?r = Some (b_acceptance_criteria b)" "ir_notes ?r = created_notes (bead_as_new b)"
    "ir_created_at ?r = ck_fmt ck (b_created_at b)" "ir_updated_at ?r = ck_fmt ck (b_updated_at b)"
    unfolding contract_record(3) [OF assms(1)] using assms(1)
    by (simp_all add: restored_row_def stamped_def created_row_def bead_as_new_def contract_strs exportable_def
        scrub_and_warn_def scrub_unchanged)
  have t: "ck_parse ck (ck_fmt ck (b_created_at b)) = Some (b_created_at b)" "ck_parse ck (ck_fmt ck (b_updated_at b)) = Some (b_updated_at b)"
    using assms(1) by (simp_all add: exportable_def)
  have "bead_from_row (ck_parse ck) n m k repo ?r = Some (b\<lparr> b_repo := repo, b_branch := None, b_pr_url := None,
      b_jj_change_id := None, b_dependency_count := n, b_dependent_count := m, b_comment_count := k \<rparr>)" for n m k
    unfolding bead_from_row_def r x rs t using p by (simp add: created_notes_read) (simp add: bead_as_new_def)
  then show ?thesis
    by (simp add: get_bead_def resolve_self [OF assms(2)] assms(2) read_bead_def bead_in_def rs(1))
qed

section \<open>Properties\<close>

definition record_of :: "(int \<Rightarrow> string) \<Rightarrow> bead \<times> (string \<times> string) list \<times> comment list \<Rightarrow> json" where
  "record_of rfc x = bead_to_contract_value rfc (fst x) (fst (snd x)) (snd (snd x))"

text \<open>The comments of a bead that are written out: blank ones are not.\<close>

definition told :: "comment list \<Rightarrow> comment list" where
  "told cs = filter (\<lambda>c. trim (cm_text c) \<noteq> []) cs"

lemma restored_export_parts:
  assumes "ids_apart (map (b_id \<circ> fst) xs)" "\<forall>x \<in> set xs. exportable ck rfc (fst x) \<and> distinct (map fst (fst (snd x)))"
  defines "db \<equiv> restored_store ck (map (record_of rfc) xs)"
  shows "restore_beads_from_contract ck (map (record_of rfc) xs) repo empty_db
      = (db, Inr \<lparr> rr_restored = length xs, rr_updated = 0, rr_skipped = 0,
                   rr_dependencies = sum_list (map (\<lambda>x. length (fst (snd x))) xs),
                   rr_comments = sum_list (map (\<lambda>x. length (told (snd (snd x)))) xs) \<rparr>)"
    "x \<in> set xs \<Longrightarrow> get_bead (ck_parse ck) db (b_id (fst x)) repo = Inr (Some (bead_in db repo (fst x)))"
    "x \<in> set xs \<Longrightarrow> get_dependencies_typed db (b_id (fst x)) = sort (fst (snd x))"
    "x \<in> set xs \<Longrightarrow> log_of (b_id (fst x)) db = map (\<lambda>c. (scrub_and_warn (cm_text c), cm_author c)) (told (snd (snd x)))"
    "restore_beads_from_contract ck (map (record_of rfc) xs) repo db = (db, Inr (no_result\<lparr> rr_skipped := length xs \<rparr>))"
proof -
  let ?vs = "map (record_of rfc) xs"
  have e: "exportable ck rfc (fst x)" "distinct (map fst (fst (snd x)))" if "x \<in> set xs" for x using assms(2) that by auto
  have id: "record_id (record_of rfc x) = b_id (fst x)" for x by (simp add: record_of_def record_id_def contract_strs)
  have ok: "record_ok ck (record_of rfc x)" if "x \<in> set xs" for x
    unfolding record_of_def by (rule contract_record(1) [OF e(1) [OF that]])
  have dep: "decode_deps (record_of rfc x) = sort (fst (snd x))" if "x \<in> set xs" for x
    unfolding record_of_def by (rule decode_encode [OF e(2) [OF that] contract_holds_deps])
  have com: "record_comments (record_of rfc x) = map (\<lambda>c. (cm_text c, cm_author c)) (told (snd (snd x)))" for x
    by (simp add: record_of_def contract_comments told_def)
  have dist: "distinct (map fst (sort (fst (snd x))))" if "x \<in> set xs" for x
    using e(2) [OF that] by (simp add: distinct_map)
  have a: "\<forall>v \<in> set ?vs. record_ok ck v \<and> distinct (map fst (decode_deps v))" using ok dep dist by auto
  have i: "ids_apart (map record_id ?vs)" using assms(1) by (simp add: comp_def id)
  have c: "counted (no_result\<lparr> rr_restored := length ?vs \<rparr>) ?vs
      = \<lparr> rr_restored = length xs, rr_updated = 0, rr_skipped = 0,
          rr_dependencies = sum_list (map (\<lambda>x. length (fst (snd x))) xs),
          rr_comments = sum_list (map (\<lambda>x. length (told (snd (snd x)))) xs) \<rparr>"
    by (simp add: counted_def no_result_def comp_def com dep cong: map_cong)
  show "restore_beads_from_contract ck ?vs repo empty_db
      = (db, Inr \<lparr> rr_restored = length xs, rr_updated = 0, rr_skipped = 0,
                   rr_dependencies = sum_list (map (\<lambda>x. length (fst (snd x))) xs),
                   rr_comments = sum_list (map (\<lambda>x. length (told (snd (snd x)))) xs) \<rparr>)"
    using restore_all [OF a i] unfolding c db_def .
  have v: "record_of rfc x \<in> set ?vs" if "x \<in> set xs" for x using that by simp
  note reads = restored_reads [OF a i v, unfolded id, folded db_def]
  show get: "get_bead (ck_parse ck) db (b_id (fst x)) repo = Inr (Some (bead_in db repo (fst x)))" if "x \<in> set xs" for x
    using restored_bead [OF e(1) [OF that]] reads(1) [OF that] by (simp add: record_of_def)
  show "get_dependencies_typed db (b_id (fst x)) = sort (fst (snd x))" if "x \<in> set xs"
    using reads(2) [OF that] dep [OF that] by simp
  show "log_of (b_id (fst x)) db = map (\<lambda>c. (scrub_and_warn (cm_text c), cm_author c)) (told (snd (snd x)))" if "x \<in> set xs"
    using reads(3) [OF that] by (simp add: com)
  have "restore_beads_from_contract ck ?vs repo db = (db, Inr (no_result\<lparr> rr_skipped := length ?vs \<rparr>))"
  proof (rule skip_all, intro ballI)
    fix v assume "v \<in> set ?vs"
    then obtain x where x: "x \<in> set xs" "v = record_of rfc x" by auto
    have "get_str v ''id'' \<noteq> None" by (simp add: x(2) record_of_def contract_strs)
    moreover have "get_bead (ck_parse ck) db (record_id v) repo = Inr (Some (bead_in db repo (fst x)))"
      using get [OF x(1)] by (simp add: x(2) id)
    moreover have "\<not> lww_newer (ts_of ck v ''updated_at'') (b_updated_at (bead_in db repo (fst x)))"
      using e(1) [OF x(1)] by (simp add: lww_newer_def ts_of_def x(2) record_of_def contract_strs exportable_def bead_in_def)
    ultimately show "\<exists>local. get_str v ''id'' \<noteq> None \<and> get_bead (ck_parse ck) db (record_id v) repo = Inr (Some local)
        \<and> \<not> lww_newer (ts_of ck v ''updated_at'') (b_updated_at local)" by blast
  qed
  then show "restore_beads_from_contract ck ?vs repo db = (db, Inr (no_result\<lparr> rr_skipped := length xs \<rparr>))" by simp
qed

text \<open>
  C26. For beads that can be exported (see \<open>exportable\<close>: clean texts, a canonical status, a priority below 256,
  instants that survive the formats, no optional text that is there but empty), whose identifiers do not end
  one another and whose dependencies have distinct targets: an empty store restored from their records
  has each bead with all fields but the repository, which is the one restored to, the branch, pull request
  and change, which the record does not hold, and the three counts, which are derived anew. It has their
  dependencies, sorted, and of every comment that is not blank the scrubbed text and the author, in
  order; times, edits and deletion of a comment are not restored, so that a deleted comment is back.
  A second restore of the same records leaves the store alone.
\<close>

theorem restored_export_reads_back:
  assumes "ids_apart (map (b_id \<circ> fst) xs)" "\<forall>x \<in> set xs. exportable ck rfc (fst x) \<and> distinct (map fst (fst (snd x)))"
  shows "\<exists>db. restore_beads_from_contract ck (map (record_of rfc) xs) repo empty_db
      = (db, Inr \<lparr> rr_restored = length xs, rr_updated = 0, rr_skipped = 0,
                   rr_dependencies = sum_list (map (\<lambda>x. length (fst (snd x))) xs),
                   rr_comments = sum_list (map (\<lambda>x. length (told (snd (snd x)))) xs) \<rparr>)
    \<and> (\<forall>x \<in> set xs. get_bead (ck_parse ck) db (b_id (fst x)) repo = Inr (Some (bead_in db repo (fst x)))
         \<and> get_dependencies_typed db (b_id (fst x)) = sort (fst (snd x))
         \<and> log_of (b_id (fst x)) db = map (\<lambda>c. (scrub_and_warn (cm_text c), cm_author c)) (told (snd (snd x))))
    \<and> restore_beads_from_contract ck (map (record_of rfc) xs) repo db = (db, Inr (no_result\<lparr> rr_skipped := length xs \<rparr>))"
  using restored_export_parts [OF assms] by blast

definition sample_clock :: clock where
  "sample_clock = \<lparr> ck_parse = (\<lambda>_. Some 7), ck_parse_ts = (\<lambda>_. Some 7), ck_fmt = (\<lambda>_. ''7''), ck_now = ''8'' \<rparr>"

definition sample_comment :: comment where
  "sample_comment = \<lparr> cm_id = ''1'', cm_issue_id = ''app-1'', cm_text = ''gone'', cm_author = ''ann'', cm_created_at = 7,
     cm_edited_at = None, cm_edit_reason = None, cm_original_text = None, cm_deleted_at = Some 7, cm_delete_reason = None \<rparr>"

theorem restored_export_reads_back_witness:
  "\<exists>db b. get_bead (\<lambda>_. Some 7) sample_db ''1'' ''app'' = Inr (Some b)
     \<and> restore_beads_from_contract sample_clock [record_of (\<lambda>_. ''7'') (b, [(''x-9'', ''blocks'')], [sample_comment])] ''lib'' empty_db
         = (db, Inr \<lparr> rr_restored = 1, rr_updated = 0, rr_skipped = 0, rr_dependencies = 1, rr_comments = 1 \<rparr>)
     \<and> get_bead (\<lambda>_. Some 7) db ''app-1'' ''lib'' = Inr (Some (bead_in db ''lib'' b))
     \<and> log_of ''app-1'' db = [(''gone'', ''ann'')]"
proof -
  let ?ok = "\<lambda>b. b_id b = ''app-1'' \<and> b_priority b < 256 \<and> scrub_and_warn (b_title b) = b_title b
      \<and> scrub_and_warn (b_description b) = b_description b \<and> canonical_status (b_status b) = b_status b \<and> b_owner b \<noteq> Some []
      \<and> b_external_ref b \<noteq> Some [] \<and> b_created_at b = 7 \<and> b_updated_at b = 7"
  have "case get_bead (\<lambda>_. Some 7) sample_db ''1'' ''app'' of Inr (Some b) \<Rightarrow> ?ok b | _ \<Rightarrow> False"
    by code_simp
  then obtain b where b: "get_bead (\<lambda>_. Some 7) sample_db ''1'' ''app'' = Inr (Some b)" "?ok b"
    by (auto split: sum.splits option.splits)
  let ?x = "(b, [(''x-9'', ''blocks'')], [sample_comment])"
  have "clean (b_title b)" "clean (b_description b)" using b(2) by (metis clean_scrub)+
  then have e: "exportable sample_clock (\<lambda>_. ''7'') b" using b(2) by (simp add: exportable_def sample_clock_def)
  have t: "told [sample_comment] = [sample_comment]" "scrub_and_warn (cm_text sample_comment) = ''gone''"
    "cm_author sample_comment = ''ann''"
    by code_simp+
  show ?thesis
    using restored_export_reads_back [of "[?x]" sample_clock "\<lambda>_. ''7''" "''lib''"] e b t
    by (simp add: ids_apart_def) (simp add: sample_clock_def, blast)
qed

section \<open>Newer records\<close>

lemma column_row:
  assumes "row_of (fst dn) i = Some r" "\<And>x. keeps_id (f x)"
  shows "row_of (fst (update_column now i n v f dn)) i = Some (case v of None \<Rightarrow> r | Some x \<Rightarrow> (f x r)\<lparr> ir_updated_at := now \<rparr>)"
  using assms by (cases v) (simp_all add: update_column_def row_of_set_row keeps_id_def)

definition columns :: "string \<Rightarrow> bead_update \<Rightarrow> issue_row \<Rightarrow> issue_row \<Rightarrow> bool" where
  "columns now u r r' \<longleftrightarrow> ir_title r' = (case u_title u of None \<Rightarrow> ir_title r | Some t \<Rightarrow> scrub_and_warn t)
     \<and> ir_description r' = (case u_description u of None \<Rightarrow> ir_description r | Some d \<Rightarrow> Some (scrub_and_warn d))
     \<and> ir_priority r' = (case u_priority u of None \<Rightarrow> ir_priority r | Some p \<Rightarrow> int p)
     \<and> ir_issue_type r' = (case u_issue_type u of None \<Rightarrow> ir_issue_type r | Some t \<Rightarrow> t)
     \<and> ir_assignee r' = (case u_owner u of None \<Rightarrow> ir_assignee r | Some w \<Rightarrow> Some w)
     \<and> ir_acceptance_criteria r' = (case u_acceptance_criteria u of None \<Rightarrow> ir_acceptance_criteria r | Some a \<Rightarrow> Some a)
     \<and> ir_id r' = ir_id r \<and> ir_notes r' = ir_notes r \<and> ir_status r' = ir_status r \<and> ir_created_by r' = ir_created_by r
     \<and> ir_scope r' = ir_scope r \<and> ir_external_ref r' = ir_external_ref r \<and> ir_user_id r' = ir_user_id r"

lemma fields_row:
  assumes "row_of db i = Some r" "u_files u = None" "u_test_files u = None"
  shows "\<exists>db' ns r'. update_bead_fields now i u db = Inr (db', ns) \<and> row_of db' i = Some r' \<and> columns now u r r'"
proof -
  let ?c = "\<lambda>v g (r :: issue_row). case v of None \<Rightarrow> r | Some x \<Rightarrow> (g x r)\<lparr> ir_updated_at := now \<rparr>"
  let ?r1 = "?c (map_option scrub_and_warn (u_title u)) (\<lambda>x r. r\<lparr> ir_title := x \<rparr>) r"
  let ?r2 = "?c (map_option scrub_and_warn (u_description u)) (\<lambda>x r. r\<lparr> ir_description := Some x \<rparr>) ?r1"
  let ?r3 = "?c (u_priority u) (\<lambda>x r. r\<lparr> ir_priority := int x \<rparr>) ?r2"
  let ?r4 = "?c (u_issue_type u) (\<lambda>x r. r\<lparr> ir_issue_type := x \<rparr>) ?r3"
  let ?r5 = "?c (u_owner u) (\<lambda>x r. r\<lparr> ir_assignee := Some x \<rparr>) ?r4"
  let ?r6 = "?c (u_acceptance_criteria u) (\<lambda>x r. r\<lparr> ir_acceptance_criteria := Some x \<rparr>) ?r5"
  have "columns now u r ?r6"
    unfolding columns_def by (intro conjI) (simp_all split: option.split)
  moreover define dn where "dn = update_column now i ''acceptance_criteria'' (u_acceptance_criteria u) (\<lambda>x r. r\<lparr> ir_acceptance_criteria := Some x \<rparr>)
    (update_column now i ''owner'' (u_owner u) (\<lambda>x r. r\<lparr> ir_assignee := Some x \<rparr>)
    (update_column now i ''issue_type'' (u_issue_type u) (\<lambda>x r. r\<lparr> ir_issue_type := x \<rparr>)
    (update_column now i ''priority'' (u_priority u) (\<lambda>x r. r\<lparr> ir_priority := int x \<rparr>)
    (update_column now i ''description'' (map_option scrub_and_warn (u_description u)) (\<lambda>x r. r\<lparr> ir_description := Some x \<rparr>)
    (update_column now i ''title'' (map_option scrub_and_warn (u_title u)) (\<lambda>x r. r\<lparr> ir_title := x \<rparr>) (db, []))))))"
  have "row_of (fst dn) i = Some ?r6"
    unfolding dn_def by (intro column_row) (simp_all add: assms(1) keeps_id_def)
  moreover have "row_of (resync_fts i d) i = row_of d i" for d by (simp add: resync_fts_def row_of_def)
  moreover have "update_bead_fields now i u db
      = Inr (if ''title'' \<in> set (snd dn) \<or> ''description'' \<in> set (snd dn) then resync_fts i (fst dn) else fst dn, snd dn)"
    by (simp add: update_bead_fields_def resolve_self [OF assms(1)] update_files_def assms(2,3) dn_def [symmetric] case_prod_unfold Let_def)
  ultimately show ?thesis by auto
qed

text \<open>
  A newer record changes the text, the kind, the priority and the status of the bead that is there, and stamps
  it with its own instants. It never changes the files, the provenance, the author, the scope, the external
  reference or the user of the bead, and it cannot take an owner away: two stores that exchange
  their records do not come to agree on those. A priority is cut to a byte.
\<close>

theorem newer_record_leaves_the_notes:
  assumes "get_str v ''id'' = Some i" "row_of db i = Some r" "get_bead (ck_parse ck) db i repo = Inr (Some local)"
    and "ts_of ck v ''created_at'' = Some c" "ts_of ck v ''updated_at'' = Some u" "b_updated_at local < u"
  shows "\<exists>db' r'. restore_one ck repo v (res, S) db = (db', Inr (res\<lparr> rr_updated := rr_updated res + 1 \<rparr>, insert i S))
    \<and> row_of db' i = Some r' \<and> ir_created_at r' = ck_fmt ck c \<and> ir_updated_at r' = ck_fmt ck u
    \<and> ir_status r' = (case get_str v ''status'' of None \<Rightarrow> ir_status r | Some s \<Rightarrow> canonical_status s)
    \<and> columns (ck_now ck) (incoming_update v) r (r'\<lparr> ir_status := ir_status r \<rparr>)"
proof -
  let ?n = "ck_now ck" and ?u = "incoming_update v"
  have uf: "u_files ?u = None" "u_test_files ?u = None" by (simp_all add: incoming_update_def)
  have "\<exists>db1 r1. (if update_is_empty ?u then (db, Inr ())
       else (case update_bead_fields ?n i ?u db of Inl e \<Rightarrow> (db, Inl (RestoreStore e)) | Inr (d, _) \<Rightarrow> (d, Inr ()))) = (db1, Inr ())
     \<and> row_of db1 i = Some r1 \<and> columns ?n ?u r r1"
  proof (cases "update_is_empty ?u")
    case True
    then have "columns ?n ?u r r" by (simp add: update_is_empty_def columns_def)
    then show ?thesis using True assms(2) by simp
  next
    case False
    then show ?thesis using fields_row [OF assms(2) uf, of ?n] by auto
  qed
  then obtain db1 r1 where s1: "(if update_is_empty ?u then (db, Inr ())
       else (case update_bead_fields ?n i ?u db of Inl e \<Rightarrow> (db, Inl (RestoreStore e)) | Inr (d, _) \<Rightarrow> (d, Inr ()))) = (db1, Inr ())"
    "row_of db1 i = Some r1" "columns ?n ?u r r1" by blast
  define r2 where "r2 = (case get_str v ''status'' of None \<Rightarrow> r1 | Some s \<Rightarrow> r1\<lparr> ir_status := canonical_status s, ir_updated_at := ?n \<rparr>)"
  obtain db2 where s2: "(case get_str v ''status'' of None \<Rightarrow> (db1, Inr ()) | Some s \<Rightarrow> attempt db1 (restore_status ?n i s db1)) = (db2, Inr ())"
    "row_of db2 i = Some r2"
    using s1(2) resolve_self [OF s1(2)] that
    by (cases "get_str v ''status''") (auto simp: r2_def attempt_def restore_status_def with_bead_def row_of_set_row keeps_id_def)
  let ?r3 = "r2\<lparr> ir_created_at := ck_fmt ck c, ir_updated_at := ck_fmt ck u \<rparr>"
  have "restore_ts ck v i db2 = (set_row i (\<lambda>r. r\<lparr> ir_created_at := ck_fmt ck c, ir_updated_at := ck_fmt ck u \<rparr>) db2, Inr ())"
    using resolve_self [OF s2(2)] by (simp add: restore_ts_def assms(4,5) attempt_def restore_timestamps_def with_bead_def)
  moreover have "row_of (set_row i (\<lambda>r. r\<lparr> ir_created_at := ck_fmt ck c, ir_updated_at := ck_fmt ck u \<rparr>) db2) i = Some ?r3"
    by (simp add: row_of_set_row keeps_id_def s2(2))
  ultimately obtain db3 where s3: "restore_ts ck v i db2 = (db3, Inr ())" "row_of db3 i = Some ?r3" by blast
  have "apply_incoming ck v i db = (db3, Inr ())" by (simp add: apply_incoming_def s1(1) s2(1) s3(1) followed_ok)
  moreover have "columns ?n ?u r (?r3\<lparr> ir_status := ir_status r \<rparr>)" using s1(3) by (simp add: columns_def r2_def split: option.split)
  moreover have "ir_status ?r3 = (case get_str v ''status'' of None \<Rightarrow> ir_status r | Some s \<Rightarrow> canonical_status s)"
    using s1(3) by (simp add: columns_def r2_def split: option.split)
  ultimately show ?thesis using assms(1,3,5,6) s3(2)
    by (intro exI [of _ db3] exI [of _ ?r3]) (simp add: restore_one_def lww_newer_def followed_ok)
qed

definition sample_record :: json where
  "sample_record = json_obj [(''id'', JStr ''app-1''), (''title'', JStr ''New''), (''files'', json_strings [''b.rs'']),
     (''created_at'', JStr ''9''), (''updated_at'', JStr ''9'')]"

theorem newer_record_leaves_the_notes_witness:
  "\<exists>db' r r'. row_of sample_db ''app-1'' = Some r \<and> row_of db' ''app-1'' = Some r'
     \<and> restore_one (sample_clock\<lparr> ck_parse_ts := \<lambda>_. Some 9 \<rparr>) ''app'' sample_record (no_result, {}) sample_db
         = (db', Inr (no_result\<lparr> rr_updated := rr_updated no_result + 1 \<rparr>, {''app-1''}))
     \<and> ir_title r' = ''New'' \<and> ir_notes r' = ir_notes r"
proof -
  let ?ck = "sample_clock\<lparr> ck_parse_ts := \<lambda>_. Some 9 \<rparr>"
  have "row_of sample_db ''app-1'' \<noteq> None" by code_simp
  then obtain r where r: "row_of sample_db ''app-1'' = Some r" by blast
  have "case get_bead (ck_parse ?ck) sample_db ''app-1'' ''app'' of Inr (Some b) \<Rightarrow> b_updated_at b < 9 | _ \<Rightarrow> False" by code_simp
  then obtain b where b: "get_bead (ck_parse ?ck) sample_db ''app-1'' ''app'' = Inr (Some b)" "b_updated_at b < 9"
    by (auto split: sum.splits option.splits)
  have v: "get_str sample_record ''id'' = Some ''app-1''" "ts_of ?ck sample_record ''created_at'' = Some 9"
    "ts_of ?ck sample_record ''updated_at'' = Some 9" "u_title (incoming_update sample_record) = Some ''New''"
    "scrub_and_warn ''New'' = ''New''"
    by code_simp+
  show ?thesis
    using newer_record_leaves_the_notes [OF v(1) r b(1) v(2,3) b(2), of no_result "{}"] r
    by (simp add: columns_def v(4,5)) blast
qed

end
