(* ===== verification/Backend_Store.thy ===== *)
theory Backend_Store
  imports Store_Types Keyed_Tables
begin

text \<open>
  The store of the orchestrator (\<open>src/store_sqlite.rs\<close>): decades, threads and their members, the states of
  pipelines, dispatches and the events of runs, dependencies between repositories, links to the external
  tracker, and the repositories of users.

  A row is a record of its columns, an instant its text in RFC 3339. What depends on the clock and on the
  formats of instants is in the record \<open>backend_clock\<close>: the format and its reader, the current instant, and
  the text of SQL's \<open>datetime('now')\<close>. Rows without \<open>ORDER BY\<close> come in the order of the table.
\<close>

section \<open>Records\<close>

record decade_record =
  dc_id :: string
  dc_title :: string
  dc_source_path :: string
  dc_status :: string

record thread_record =
  tr_id :: string
  tr_name :: string
  tr_decade_id :: string
  tr_feature_branch :: "string option"

type_synonym agent_session_ref = "string \<times> string"

record dispatch_record =
  dp_id :: string
  dp_bead_ref :: work_ref
  dp_agent :: string
  dp_provider :: string
  dp_started_at :: int
  dp_completed_at :: "int option"
  dp_outcome :: "string option"
  dp_work_dir :: string
  dp_session_id :: "string option"
  dp_session_ref :: "agent_session_ref option"
  dp_workspace_path :: "string option"
  dp_chain_hash :: "string option"

record linear_link =
  ll_bead_ref :: work_ref
  ll_linear_id :: string
  ll_linear_type :: string

record user_repo =
  ur_user_id :: string
  ur_repo_url :: string
  ur_repo_name :: string
  ur_github_token_ref :: "string option"

section \<open>Tables\<close>

record pipeline_row =
  pr_repo :: string
  pr_bead_id :: string
  pr_phase :: nat
  pr_agent :: string
  pr_status :: string
  pr_retries :: nat
  pr_reverts :: nat
  pr_tier :: "nat option"
  pr_generation :: int
  pr_backoff :: "string option"

record dispatch_row =
  dr_id :: string
  dr_repo :: string
  dr_bead_id :: string
  dr_agent :: string
  dr_provider :: string
  dr_started :: string
  dr_completed :: "string option"
  dr_outcome :: "string option"
  dr_work_dir :: string
  dr_session_id :: "string option"
  dr_ref_provider :: "string option"
  dr_ref_id :: "string option"
  dr_workspace :: "string option"
  dr_chain_hash :: "string option"

record run_event_row =
  rr_id :: string
  rr_dispatch_id :: string
  rr_ref :: work_ref
  rr_ref_provider :: "string option"
  rr_ref_id :: "string option"
  rr_type :: string
  rr_summary :: string
  rr_payload :: json
  rr_created :: string

record edge_row =
  eg_from :: "string \<times> string"
  eg_to :: "string \<times> string"
  eg_type :: string
  eg_tier :: string
  eg_source :: string
  eg_observed :: string

record backend_db =
  bk_decades :: "decade_record list"
  bk_threads :: "thread_record list"
  bk_members :: "(string \<times> work_ref) list"
  bk_pipelines :: "pipeline_row list"
  bk_dispatches :: "dispatch_row list"
  bk_events :: "run_event_row list"
  bk_edges :: "edge_row list"
  bk_links :: "linear_link list"
  bk_repos :: "user_repo list"

definition empty_backend :: backend_db where
  "empty_backend = \<lparr> bk_decades = [], bk_threads = [], bk_members = [], bk_pipelines = [], bk_dispatches = [],
     bk_events = [], bk_edges = [], bk_links = [], bk_repos = [] \<rparr>"

datatype backend_error =
    ForeignKey string
  | UniqueKey string
  | CycleRefused work_ref work_ref
  | BadColumn

record backend_clock =
  bc_fmt :: "int \<Rightarrow> string"
  bc_parse :: "string \<Rightarrow> int option"
  bc_now :: int
  bc_sql_now :: string

text \<open>The keys of the tables.\<close>

definition member_key :: "string \<times> work_ref \<Rightarrow> string \<times> string \<times> string" where
  "member_key m = (fst m, wr_repo (snd m), wr_bead_id (snd m))"

definition pipeline_key :: "pipeline_row \<Rightarrow> string \<times> string" where
  "pipeline_key r = (pr_repo r, pr_bead_id r)"

definition edge_key :: "edge_row \<Rightarrow> (string \<times> string) \<times> string \<times> string" where
  "edge_key e = (eg_from e, eg_to e)"

definition link_key :: "linear_link \<Rightarrow> string \<times> string" where
  "link_key l = (wr_repo (ll_bead_ref l), wr_bead_id (ll_bead_ref l))"

definition repo_key :: "user_repo \<Rightarrow> string \<times> string" where
  "repo_key u = (ur_user_id u, ur_repo_name u)"

section \<open>Decades and threads\<close>

definition upsert_decade :: "decade_record \<Rightarrow> backend_db \<Rightarrow> backend_db" where
  "upsert_decade d db = db\<lparr> bk_decades := insert_update dc_id (\<lambda>_ d. d) d (bk_decades db) \<rparr>"

definition get_decade :: "backend_db \<Rightarrow> string \<Rightarrow> decade_record option" where
  "get_decade db i = row_at dc_id (bk_decades db) i"

definition list_decades :: "backend_db \<Rightarrow> string option \<Rightarrow> decade_record list" where
  "list_decades db status =
     (case status of None \<Rightarrow> bk_decades db | Some s \<Rightarrow> filter (\<lambda>d. dc_status d = s) (bk_decades db))"

text \<open>Foreign keys are enforced: the decade of a thread must be there.\<close>

definition upsert_thread :: "thread_record \<Rightarrow> backend_db \<Rightarrow> backend_error + backend_db" where
  "upsert_thread t db =
     (if get_decade db (tr_decade_id t) = None then Inl (ForeignKey (tr_decade_id t))
      else Inr (db\<lparr> bk_threads := insert_update tr_id (\<lambda>_ t. t) t (bk_threads db) \<rparr>))"

definition get_thread :: "backend_db \<Rightarrow> string \<Rightarrow> thread_record option" where
  "get_thread db i = row_at tr_id (bk_threads db) i"

definition list_threads :: "backend_db \<Rightarrow> string \<Rightarrow> thread_record list" where
  "list_threads db decade_id = sort_key tr_id (filter (\<lambda>t. tr_decade_id t = decade_id) (bk_threads db))"

definition add_bead_to_thread :: "string \<Rightarrow> work_ref \<Rightarrow> backend_db \<Rightarrow> backend_db" where
  "add_bead_to_thread thread_id w db = db\<lparr> bk_members := insert_ignore member_key (thread_id, w) (bk_members db) \<rparr>"

definition list_beads_in_thread :: "backend_db \<Rightarrow> string \<Rightarrow> work_ref list" where
  "list_beads_in_thread db thread_id =
     sort_key (\<lambda>w. (wr_repo w, wr_bead_id w)) (map snd (filter (\<lambda>m. fst m = thread_id) (bk_members db)))"

definition find_thread_for_bead :: "backend_db \<Rightarrow> work_ref \<Rightarrow> string option" where
  "find_thread_for_bead db w = map_option fst (List.find (\<lambda>m. snd m = w) (bk_members db))"

section \<open>Pipelines\<close>

text \<open>\<open>as i64\<close> and back \<open>as u64\<close>.\<close>

definition to_i64 :: "nat \<Rightarrow> int" where
  "to_i64 n = (let m = int n mod 2 ^ 64 in if m < 2 ^ 63 then m else m - 2 ^ 64)"

definition of_i64 :: "int \<Rightarrow> nat" where
  "of_i64 i = nat (i mod 2 ^ 64)"

definition pipeline_to_row :: "backend_clock \<Rightarrow> pipeline_state \<Rightarrow> pipeline_row" where
  "pipeline_to_row ck p =
     \<lparr> pr_repo = wr_repo (ps_bead_ref p), pr_bead_id = wr_bead_id (ps_bead_ref p), pr_phase = ps_pipeline_phase p,
       pr_agent = ps_pipeline_agent p, pr_status = ps_phase_status p, pr_retries = ps_retries p,
       pr_reverts = ps_consecutive_reverts p, pr_tier = ps_highest_verify_tier p,
       pr_generation = to_i64 (ps_last_generation p), pr_backoff = map_option (bc_fmt ck) (ps_backoff_until p) \<rparr>"

text \<open>Bytes and words that do not fit are errors, a backoff that cannot be read is none.\<close>

definition row_to_pipeline :: "backend_clock \<Rightarrow> pipeline_row \<Rightarrow> pipeline_state option" where
  "row_to_pipeline ck r =
     (if pr_phase r < 256 \<and> pr_retries r < 2 ^ 32 \<and> pr_reverts r < 2 ^ 32
         \<and> (case pr_tier r of None \<Rightarrow> True | Some t \<Rightarrow> t < 256)
      then Some \<lparr> ps_bead_ref = WorkRef (pr_repo r) [] (pr_bead_id r), ps_pipeline_phase = pr_phase r,
                  ps_pipeline_agent = pr_agent r, ps_phase_status = pr_status r, ps_retries = pr_retries r,
                  ps_consecutive_reverts = pr_reverts r, ps_highest_verify_tier = pr_tier r,
                  ps_last_generation = of_i64 (pr_generation r),
                  ps_backoff_until = Option.bind (pr_backoff r) (bc_parse ck) \<rparr>
      else None)"

text \<open>\<open>collect\<close>: the rows, or an error when one cannot be read.\<close>

definition read_rows :: "('r \<Rightarrow> 'a option) \<Rightarrow> 'r list \<Rightarrow> backend_error + 'a list" where
  "read_rows f rs = (case read_all f rs of None \<Rightarrow> Inl BadColumn | Some xs \<Rightarrow> Inr xs)"

definition upsert_pipeline :: "backend_clock \<Rightarrow> pipeline_state \<Rightarrow> backend_db \<Rightarrow> backend_db" where
  "upsert_pipeline ck p db = db\<lparr> bk_pipelines := insert_replace pipeline_key (pipeline_to_row ck p) (bk_pipelines db) \<rparr>"

definition get_pipeline :: "backend_clock \<Rightarrow> backend_db \<Rightarrow> work_ref \<Rightarrow> backend_error + pipeline_state option" where
  "get_pipeline ck db w =
     (case row_at pipeline_key (bk_pipelines db) (wr_repo w, wr_bead_id w) of
        None \<Rightarrow> Inr None
      | Some r \<Rightarrow> (case row_to_pipeline ck r of None \<Rightarrow> Inl BadColumn | Some p \<Rightarrow> Inr (Some p)))"

definition list_active_pipelines :: "backend_clock \<Rightarrow> backend_db \<Rightarrow> backend_error + pipeline_state list" where
  "list_active_pipelines ck db = read_rows (row_to_pipeline ck) (bk_pipelines db)"

definition clear_pipeline :: "work_ref \<Rightarrow> backend_db \<Rightarrow> backend_db" where
  "clear_pipeline w db = db\<lparr> bk_pipelines := delete_at pipeline_key (wr_repo w, wr_bead_id w) (bk_pipelines db) \<rparr>"

section \<open>Dispatches\<close>

definition dispatch_to_row :: "backend_clock \<Rightarrow> dispatch_record \<Rightarrow> dispatch_row" where
  "dispatch_to_row ck d =
     \<lparr> dr_id = dp_id d, dr_repo = wr_repo (dp_bead_ref d), dr_bead_id = wr_bead_id (dp_bead_ref d),
       dr_agent = dp_agent d, dr_provider = dp_provider d, dr_started = bc_fmt ck (dp_started_at d),
       dr_completed = map_option (bc_fmt ck) (dp_completed_at d), dr_outcome = dp_outcome d,
       dr_work_dir = dp_work_dir d, dr_session_id = dp_session_id d,
       dr_ref_provider = map_option fst (dp_session_ref d), dr_ref_id = map_option snd (dp_session_ref d),
       dr_workspace = dp_workspace_path d, dr_chain_hash = dp_chain_hash d \<rparr>"

text \<open>\<open>Option::zip\<close>.\<close>

fun zip_opt :: "'a option \<Rightarrow> 'b option \<Rightarrow> ('a \<times> 'b) option" where
  "zip_opt (Some a) (Some b) = Some (a, b)"
| "zip_opt _ _ = None"

definition row_to_dispatch :: "backend_clock \<Rightarrow> dispatch_row \<Rightarrow> dispatch_record option" where
  "row_to_dispatch ck r =
     (case bc_parse ck (dr_started r) of
        None \<Rightarrow> None
      | Some started \<Rightarrow>
          Some \<lparr> dp_id = dr_id r, dp_bead_ref = WorkRef (dr_repo r) [] (dr_bead_id r), dp_agent = dr_agent r,
                 dp_provider = dr_provider r, dp_started_at = started,
                 dp_completed_at = Option.bind (dr_completed r) (bc_parse ck), dp_outcome = dr_outcome r,
                 dp_work_dir = dr_work_dir r, dp_session_id = dr_session_id r,
                 dp_session_ref = zip_opt (dr_ref_provider r) (dr_ref_id r),
                 dp_workspace_path = dr_workspace r, dp_chain_hash = dr_chain_hash r \<rparr>)"

definition record_dispatch :: "backend_clock \<Rightarrow> dispatch_record \<Rightarrow> backend_db \<Rightarrow> backend_error + backend_db" where
  "record_dispatch ck d db =
     (if has_key dr_id (dp_id d) (bk_dispatches db) then Inl (UniqueKey (dp_id d))
      else Inr (db\<lparr> bk_dispatches := bk_dispatches db @ [dispatch_to_row ck d] \<rparr>))"

text \<open>What an upsert changes of a dispatch that is there.\<close>

definition merge_dispatch :: "dispatch_row \<Rightarrow> dispatch_row \<Rightarrow> dispatch_row" where
  "merge_dispatch old r =
     old\<lparr> dr_completed := dr_completed r, dr_outcome := dr_outcome r, dr_session_id := dr_session_id r,
          dr_ref_provider := dr_ref_provider r, dr_ref_id := dr_ref_id r, dr_workspace := dr_workspace r \<rparr>"

definition upsert_dispatch :: "backend_clock \<Rightarrow> dispatch_record \<Rightarrow> backend_db \<Rightarrow> backend_db" where
  "upsert_dispatch ck d db = db\<lparr> bk_dispatches := insert_update dr_id merge_dispatch (dispatch_to_row ck d) (bk_dispatches db) \<rparr>"

definition complete_dispatch :: "backend_clock \<Rightarrow> string \<Rightarrow> string \<Rightarrow> backend_db \<Rightarrow> backend_db" where
  "complete_dispatch ck i outcome db = db\<lparr> bk_dispatches := update_at dr_id i
     (\<lambda>r. r\<lparr> dr_completed := Some (bc_fmt ck (bc_now ck)), dr_outcome := Some outcome \<rparr>) (bk_dispatches db) \<rparr>"

definition update_dispatch_session :: "string \<Rightarrow> string \<Rightarrow> backend_db \<Rightarrow> backend_db" where
  "update_dispatch_session i session_id db = db\<lparr> bk_dispatches := update_at dr_id i
     (\<lambda>r. r\<lparr> dr_session_id := Some session_id \<rparr>) (bk_dispatches db) \<rparr>"

definition update_dispatch_session_ref :: "string \<Rightarrow> agent_session_ref \<Rightarrow> backend_db \<Rightarrow> backend_db" where
  "update_dispatch_session_ref i session_ref db = db\<lparr> bk_dispatches := update_at dr_id i
     (\<lambda>r. r\<lparr> dr_ref_provider := Some (fst session_ref), dr_ref_id := Some (snd session_ref) \<rparr>) (bk_dispatches db) \<rparr>"

definition active_dispatches :: "backend_clock \<Rightarrow> backend_db \<Rightarrow> backend_error + dispatch_record list" where
  "active_dispatches ck db = read_rows (row_to_dispatch ck) (filter (\<lambda>r. dr_completed r = None) (bk_dispatches db))"

definition dispatches_for_bead :: "backend_clock \<Rightarrow> backend_db \<Rightarrow> work_ref \<Rightarrow> backend_error + dispatch_record list" where
  "dispatches_for_bead ck db w =
     read_rows (row_to_dispatch ck)
       (sort_key dr_started (filter (\<lambda>r. dr_repo r = wr_repo w \<and> dr_bead_id r = wr_bead_id w) (bk_dispatches db)))"

section \<open>Events of runs\<close>

definition event_to_row :: "backend_clock \<Rightarrow> agent_run_event \<Rightarrow> run_event_row" where
  "event_to_row ck e =
     \<lparr> rr_id = re_id e, rr_dispatch_id = re_dispatch_id e, rr_ref = re_bead_ref e,
       rr_ref_provider = map_option fst (re_session_ref e), rr_ref_id = map_option snd (re_session_ref e),
       rr_type = re_event_type e, rr_summary = re_summary e, rr_payload = re_payload e,
       rr_created = bc_fmt ck (re_created_at e) \<rparr>"

definition row_to_event :: "backend_clock \<Rightarrow> run_event_row \<Rightarrow> agent_run_event option" where
  "row_to_event ck r =
     (case bc_parse ck (rr_created r) of
        None \<Rightarrow> None
      | Some created \<Rightarrow>
          Some \<lparr> re_id = rr_id r, re_dispatch_id = rr_dispatch_id r, re_bead_ref = rr_ref r,
                 re_session_ref = zip_opt (rr_ref_provider r) (rr_ref_id r), re_event_type = rr_type r,
                 re_summary = rr_summary r, re_payload = rr_payload r, re_created_at = created \<rparr>)"

definition record_agent_run_event :: "backend_clock \<Rightarrow> agent_run_event \<Rightarrow> backend_db \<Rightarrow> backend_db" where
  "record_agent_run_event ck e db = db\<lparr> bk_events := insert_ignore rr_id (event_to_row ck e) (bk_events db) \<rparr>"

definition agent_run_events_for_bead :: "backend_clock \<Rightarrow> backend_db \<Rightarrow> work_ref \<Rightarrow> backend_error + agent_run_event list" where
  "agent_run_events_for_bead ck db w =
     read_rows (row_to_event ck) (sort_key (\<lambda>r. (rr_created r, rr_id r)) (filter (\<lambda>r. rr_ref r = w) (bk_events db)))"

section \<open>Dependencies\<close>

text \<open>
  The search of \<open>sqlite_dfs_can_reach\<close>: the top of the stack is its first element, and the successors of a
  node are pushed in the order of the edges.
\<close>

definition successors :: "(string \<times> string) list \<Rightarrow> string \<Rightarrow> string list" where
  "successors edges node = map snd (filter (\<lambda>e. fst e = node) edges)"

function dfs_loop :: "(string \<times> string) list \<Rightarrow> string \<Rightarrow> string set \<Rightarrow> string list \<Rightarrow> bool" where
  "dfs_loop edges target visited [] = False"
| "dfs_loop edges target visited (node # stack) =
     (if node = target then True
      else if node \<in> visited then dfs_loop edges target visited stack
      else dfs_loop edges target (insert node visited) (rev (successors edges node) @ stack))"
  by pat_completeness auto

definition unseen :: "(string \<times> string) list \<Rightarrow> string set \<Rightarrow> string list \<Rightarrow> string set" where
  "unseen edges visited stack = (snd ` set edges \<union> set stack) - visited"

lemma unseen_push:
  assumes "node \<notin> visited"
  shows "card (unseen edges (insert node visited) (rev (successors edges node) @ stack)) < card (unseen edges visited (node # stack))"
proof (rule psubset_card_mono)
  show "finite (unseen edges visited (node # stack))" by (simp add: unseen_def)
  have "set (successors edges node) \<subseteq> snd ` set edges" by (auto simp: successors_def)
  then show "unseen edges (insert node visited) (rev (successors edges node) @ stack) \<subset> unseen edges visited (node # stack)"
    using assms by (auto simp: unseen_def)
qed

lemma unseen_pop: "card (unseen edges visited stack) \<le> card (unseen edges visited (node # stack))"
  by (rule card_mono) (auto simp: unseen_def)

termination dfs_loop
proof (relation "measures [\<lambda>(edges, _, visited, stack). card (unseen edges visited stack), \<lambda>(_, _, _, stack). length stack]", simp)
  fix edges :: "(string \<times> string) list" and target visited node stack
  show "((edges, target, visited, stack), edges, target, visited, node # stack)
      \<in> measures [\<lambda>(edges, _, visited, stack). card (unseen edges visited stack), \<lambda>(_, _, _, stack). length stack]"
    using unseen_pop [of edges visited stack node] by (simp add: le_less)
  show "((edges, target, insert node visited, rev (successors edges node) @ stack), edges, target, visited, node # stack)
      \<in> measures [\<lambda>(edges, _, visited, stack). card (unseen edges visited stack), \<lambda>(_, _, _, stack). length stack]"
    if "node \<notin> visited"
    using unseen_push [OF that] by simp
qed

definition sqlite_dfs_can_reach :: "(string \<times> string) list \<Rightarrow> string \<Rightarrow> string \<Rightarrow> bool" where
  "sqlite_dfs_can_reach edges start target = dfs_loop edges target {} [start]"

text \<open>The edges within a repository.\<close>

definition repo_edges :: "backend_db \<Rightarrow> string \<Rightarrow> (string \<times> string) list" where
  "repo_edges db repo =
     map (\<lambda>e. (snd (eg_from e), snd (eg_to e))) (filter (\<lambda>e. fst (eg_from e) = repo \<and> fst (eg_to e) = repo) (bk_edges db))"

definition dep_to_row :: "backend_clock \<Rightarrow> cross_repo_dep \<Rightarrow> edge_row" where
  "dep_to_row ck d =
     \<lparr> eg_from = (wr_repo (cd_from d), wr_bead_id (cd_from d)), eg_to = (wr_repo (cd_to d), wr_bead_id (cd_to d)),
       eg_type = cd_dep_type d, eg_tier = tier_as_str (cd_evidence_tier d), eg_source = cd_source d,
       eg_observed = bc_sql_now ck \<rparr>"

definition backend_add_dependency :: "backend_clock \<Rightarrow> cross_repo_dep \<Rightarrow> backend_db \<Rightarrow> backend_error + backend_db" where
  "backend_add_dependency ck d db =
     (if wr_repo (cd_from d) = wr_repo (cd_to d)
         \<and> sqlite_dfs_can_reach (repo_edges db (wr_repo (cd_from d))) (wr_bead_id (cd_to d)) (wr_bead_id (cd_from d))
      then Inl (CycleRefused (cd_from d) (cd_to d))
      else Inr (db\<lparr> bk_edges := insert_replace edge_key (dep_to_row ck d) (bk_edges db) \<rparr>))"

text \<open>An instant that is not in RFC 3339 is read as the current one, an unknown tier as asserted.\<close>

definition row_to_dep :: "backend_clock \<Rightarrow> edge_row \<Rightarrow> cross_repo_dep" where
  "row_to_dep ck e =
     \<lparr> cd_from = WorkRef (fst (eg_from e)) [] (snd (eg_from e)), cd_to = WorkRef (fst (eg_to e)) [] (snd (eg_to e)),
       cd_dep_type = eg_type e,
       cd_evidence_tier = (case tier_from_str (eg_tier e) of Inl _ \<Rightarrow> Asserted | Inr t \<Rightarrow> t),
       cd_source = eg_source e,
       cd_observed_at = (case bc_parse ck (eg_observed e) of None \<Rightarrow> bc_now ck | Some t \<Rightarrow> t) \<rparr>"

definition dependencies_of :: "backend_clock \<Rightarrow> backend_db \<Rightarrow> work_ref \<Rightarrow> cross_repo_dep list" where
  "dependencies_of ck db w = map (row_to_dep ck) (filter (\<lambda>e. eg_from e = (wr_repo w, wr_bead_id w)) (bk_edges db))"

definition dependents_of :: "backend_clock \<Rightarrow> backend_db \<Rightarrow> work_ref \<Rightarrow> cross_repo_dep list" where
  "dependents_of ck db w = map (row_to_dep ck) (filter (\<lambda>e. eg_to e = (wr_repo w, wr_bead_id w)) (bk_edges db))"

definition all_blocking_deps :: "backend_clock \<Rightarrow> backend_db \<Rightarrow> cross_repo_dep list" where
  "all_blocking_deps ck db =
     map (row_to_dep ck) (filter (\<lambda>e. eg_type e = ''blocks'' \<and> eg_tier e \<in> {''asserted'', ''derived''}) (bk_edges db))"

definition remove_cross_repo_dep :: "work_ref \<Rightarrow> work_ref \<Rightarrow> backend_db \<Rightarrow> backend_db" where
  "remove_cross_repo_dep f t db = db\<lparr> bk_edges := delete_at edge_key ((wr_repo f, wr_bead_id f), wr_repo t, wr_bead_id t) (bk_edges db) \<rparr>"

text \<open>\<open>cutoff\<close> is the text of \<open>datetime('now', '-N days')\<close>. The result counts the edges that are demoted.\<close>

definition demote_stale_derived :: "string \<Rightarrow> backend_db \<Rightarrow> backend_db \<times> nat" where
  "demote_stale_derived cutoff db =
     (let stale = (\<lambda>e. eg_tier e = ''derived'' \<and> eg_observed e < cutoff)
      in (db\<lparr> bk_edges := map (\<lambda>e. if stale e then e\<lparr> eg_tier := ''conjectured'' \<rparr> else e) (bk_edges db) \<rparr>,
          length (filter stale (bk_edges db))))"

section \<open>Links and repositories\<close>

text \<open>The identifier in the tracker is unique too: a row with either key is replaced.\<close>

definition upsert_linear_link :: "linear_link \<Rightarrow> backend_db \<Rightarrow> backend_db" where
  "upsert_linear_link l db = db\<lparr> bk_links :=
     filter (\<lambda>q. link_key q \<noteq> link_key l \<and> ll_linear_id q \<noteq> ll_linear_id l) (bk_links db)
     @ [l\<lparr> ll_bead_ref := WorkRef (wr_repo (ll_bead_ref l)) [] (wr_bead_id (ll_bead_ref l)) \<rparr>] \<rparr>"

definition find_by_linear_id :: "backend_db \<Rightarrow> string \<Rightarrow> linear_link option" where
  "find_by_linear_id db i = row_at ll_linear_id (bk_links db) i"

definition register_repo :: "user_repo \<Rightarrow> backend_db \<Rightarrow> backend_db" where
  "register_repo u db = db\<lparr> bk_repos := insert_replace repo_key u (bk_repos db) \<rparr>"

definition list_user_repos :: "backend_db \<Rightarrow> string \<Rightarrow> user_repo list" where
  "list_user_repos db user_id = filter (\<lambda>u. ur_user_id u = user_id) (bk_repos db)"

definition unregister_repo :: "string \<Rightarrow> string \<Rightarrow> backend_db \<Rightarrow> backend_db" where
  "unregister_repo user_id repo_name db = db\<lparr> bk_repos := delete_at repo_key (user_id, repo_name) (bk_repos db) \<rparr>"

section \<open>Exports\<close>

definition all_threads :: "backend_db \<Rightarrow> thread_record list" where
  "all_threads db = sort_key tr_id (bk_threads db)"

definition all_thread_members :: "backend_db \<Rightarrow> (string \<times> work_ref) list" where
  "all_thread_members db = sort_key member_key (bk_members db)"

definition all_dispatches :: "backend_clock \<Rightarrow> backend_db \<Rightarrow> backend_error + dispatch_record list" where
  "all_dispatches ck db = read_rows (row_to_dispatch ck) (sort_key dr_started (bk_dispatches db))"

definition all_agent_run_events :: "backend_clock \<Rightarrow> backend_db \<Rightarrow> backend_error + agent_run_event list" where
  "all_agent_run_events ck db = read_rows (row_to_event ck) (sort_key (\<lambda>r. (rr_created r, rr_id r)) (bk_events db))"

definition all_dependencies :: "backend_clock \<Rightarrow> backend_db \<Rightarrow> cross_repo_dep list" where
  "all_dependencies ck db = map (row_to_dep ck) (bk_edges db)"

definition all_linear_links :: "backend_db \<Rightarrow> linear_link list" where
  "all_linear_links db = bk_links db"

definition all_user_repos :: "backend_db \<Rightarrow> user_repo list" where
  "all_user_repos db = bk_repos db"

section \<open>Opening\<close>

text \<open>
  The one-time renaming of the automatic decade to the backlog: one transaction, which fails as a whole when
  a thread or a member already has its new name.
\<close>

definition LEGACY_DECADES :: "string set" where
  "LEGACY_DECADES = {''auto'', ''auto-discovered''}"

definition backlog_decade :: decade_record where
  "backlog_decade = \<lparr> dc_id = ''backlog'', dc_title = ''Backlog: auto-clustered beads awaiting triage'',
     dc_source_path = [], dc_status = ''active'' \<rparr>"

definition rename_auto :: "string \<Rightarrow> string" where
  "rename_auto i = (if like ''auto/%'' i then ''backlog/'' @ drop 5 i else i)"

definition migrate_auto_to_backlog :: "backend_db \<Rightarrow> backend_error + backend_db" where
  "migrate_auto_to_backlog db =
     (if \<not> (list_ex (\<lambda>d. dc_id d \<in> LEGACY_DECADES) (bk_decades db) \<or> list_ex (\<lambda>t. like ''auto/%'' (tr_id t)) (bk_threads db))
      then Inr db
      else
        (let decades = insert_ignore dc_id backlog_decade (bk_decades db);
             threads = map (\<lambda>t. t\<lparr> tr_id := rename_auto (tr_id t),
                tr_decade_id := (if tr_decade_id t \<in> LEGACY_DECADES then ''backlog'' else tr_decade_id t) \<rparr>) (bk_threads db);
             members = map (\<lambda>(t, w). (rename_auto t, w)) (bk_members db)
         in if \<not> distinct (map tr_id threads) then Inl (UniqueKey ''threads'')
            else if \<not> distinct (map member_key members) then Inl (UniqueKey ''thread_members'')
            else Inr (db\<lparr> bk_decades := filter (\<lambda>d. dc_id d \<notin> LEGACY_DECADES) decades, bk_threads := threads,
                          bk_members := members \<rparr>)))"

definition backend_connect :: "backend_db option \<Rightarrow> backend_error + backend_db" where
  "backend_connect file = migrate_auto_to_backlog (case file of None \<Rightarrow> empty_backend | Some db \<Rightarrow> db)"

end
