(* ===== verification/Backend_Behaviour.thy ===== *)
theory Backend_Behaviour
  imports Backend_Store
begin

text \<open>
  What the store of the orchestrator keeps: keys are unique, threads have their decade, and the dependencies
  within a repository have no cycle; and what its tables promise to the reconciler as maps.
\<close>

section \<open>The search decides reachability\<close>

lemma successors_iff [simp]: "y \<in> set (successors edges x) \<longleftrightarrow> (x, y) \<in> set edges"
  by (force simp: successors_def image_iff)

text \<open>A path out of a set whose successors lie in it or in \<open>S\<close> passes through \<open>S\<close>.\<close>

lemma leaves_through:
  assumes "(v, t) \<in> R\<^sup>*" "v \<in> V" "t \<notin> V" "\<And>x y. x \<in> V \<Longrightarrow> (x, y) \<in> R \<Longrightarrow> y \<in> V \<union> S"
  shows "\<exists>s \<in> S. (s, t) \<in> R\<^sup>*"
  using assms(1,2)
proof (induction rule: converse_rtrancl_induct)
  case base
  then show ?case using assms(3) by simp
next
  case (step x y)
  then show ?case using assms(4) [of x y] by auto
qed

lemma dfs_reaches:
  assumes "target \<notin> visited" "\<And>x y. x \<in> visited \<Longrightarrow> (x, y) \<in> set edges \<Longrightarrow> y \<in> visited \<union> set stack"
  shows "dfs_loop edges target visited stack \<longleftrightarrow> (\<exists>s \<in> set stack. (s, target) \<in> (set edges)\<^sup>*)"
  using assms
proof (induction edges target visited stack rule: dfs_loop.induct)
  case (1 edges target visited)
  then show ?case by simp
next
  case (2 edges target visited node stack)
  let ?R = "set edges"
  consider (found) "node = target" | (old) "node \<noteq> target" "node \<in> visited" | (new) "node \<noteq> target" "node \<notin> visited" by blast
  then show ?case
  proof cases
    case found
    then show ?thesis by auto
  next
    case old
    have closed: "\<And>x y. x \<in> visited \<Longrightarrow> (x, y) \<in> ?R \<Longrightarrow> y \<in> visited \<union> set stack"
      using "2.prems"(2) old(2) by auto
    have eq: "dfs_loop edges target visited stack \<longleftrightarrow> (\<exists>s \<in> set stack. (s, target) \<in> ?R\<^sup>*)"
      by (rule "2.IH"(1)) (use old "2.prems"(1) closed in auto)
    have "\<exists>s \<in> set stack. (s, target) \<in> ?R\<^sup>*" if "(node, target) \<in> ?R\<^sup>*"
      using leaves_through [OF that old(2) "2.prems"(1) closed] .
    then show ?thesis using eq old by auto
  next
    case new
    let ?stack = "rev (successors edges node) @ stack"
    have eq: "dfs_loop edges target (insert node visited) ?stack \<longleftrightarrow> (\<exists>s \<in> set ?stack. (s, target) \<in> ?R\<^sup>*)"
    proof (rule "2.IH"(2) [OF new])
      show "target \<notin> insert node visited" using new(1) "2.prems"(1) by simp
      show "y \<in> insert node visited \<union> set ?stack" if "x \<in> insert node visited" "(x, y) \<in> ?R" for x y
        using "2.prems"(2) [of x y] that by auto
    qed
    have "(node, target) \<in> ?R\<^sup>* \<longleftrightarrow> (\<exists>s. (node, s) \<in> ?R \<and> (s, target) \<in> ?R\<^sup>*)"
      using new(1) by (auto intro: converse_rtrancl_into_rtrancl elim: converse_rtranclE)
    then show ?thesis using eq new by auto
  qed
qed

lemma dfs_correct: "sqlite_dfs_can_reach edges start target \<longleftrightarrow> (start, target) \<in> (set edges)\<^sup>*"
  unfolding sqlite_dfs_can_reach_def by (subst dfs_reaches) auto

section \<open>The invariant\<close>

definition repo_graph :: "backend_db \<Rightarrow> string \<Rightarrow> (string \<times> string) set" where
  "repo_graph db repo = {(a, b). \<exists>e \<in> set (bk_edges db). eg_from e = (repo, a) \<and> eg_to e = (repo, b)}"

lemma repo_graph_edges: "repo_graph db repo = set (repo_edges db repo)"
proof -
  have "(a, b) \<in> set (repo_edges db repo) \<longleftrightarrow> (a, b) \<in> repo_graph db repo" for a b
    unfolding repo_graph_def repo_edges_def by (auto simp: image_iff prod_eq_iff)
  then show ?thesis by auto
qed

definition graphs_acyclic :: "backend_db \<Rightarrow> bool" where
  "graphs_acyclic db \<longleftrightarrow> (\<forall>repo. acyclic (repo_graph db repo))"

definition keys_unique :: "backend_db \<Rightarrow> bool" where
  "keys_unique db \<longleftrightarrow> unique_keys dc_id (bk_decades db) \<and> unique_keys tr_id (bk_threads db)
     \<and> unique_keys member_key (bk_members db) \<and> unique_keys pipeline_key (bk_pipelines db)
     \<and> unique_keys dr_id (bk_dispatches db) \<and> unique_keys rr_id (bk_events db) \<and> unique_keys edge_key (bk_edges db)
     \<and> unique_keys link_key (bk_links db) \<and> unique_keys ll_linear_id (bk_links db) \<and> unique_keys repo_key (bk_repos db)"

definition threads_rooted :: "backend_db \<Rightarrow> bool" where
  "threads_rooted db \<longleftrightarrow> (\<forall>t \<in> set (bk_threads db). tr_decade_id t \<in> dc_id ` set (bk_decades db))"

definition backend_ok :: "backend_db \<Rightarrow> bool" where
  "backend_ok db \<longleftrightarrow> keys_unique db \<and> threads_rooted db \<and> graphs_acyclic db"

text \<open>What the columns and their Rust types can hold.\<close>

definition fits_columns :: "pipeline_state \<Rightarrow> bool" where
  "fits_columns p \<longleftrightarrow> ps_pipeline_phase p < 256 \<and> ps_retries p < 2 ^ 32 \<and> ps_consecutive_reverts p < 2 ^ 32
     \<and> (case ps_highest_verify_tier p of None \<Rightarrow> True | Some t \<Rightarrow> t < 256) \<and> ps_last_generation p < 2 ^ 64"

text \<open>The writes that succeed, as steps.\<close>

inductive backend_step :: "backend_clock \<Rightarrow> backend_db \<Rightarrow> backend_db \<Rightarrow> bool" for ck where
  decade: "backend_step ck db (upsert_decade d db)"
| thread: "upsert_thread t db = Inr db' \<Longrightarrow> backend_step ck db db'"
| member: "backend_step ck db (add_bead_to_thread i w db)"
| pipeline: "fits_columns p \<Longrightarrow> backend_step ck db (upsert_pipeline ck p db)"
| cleared: "backend_step ck db (clear_pipeline w db)"
| dispatched: "record_dispatch ck d db = Inr db' \<Longrightarrow> backend_step ck db db'"
| redispatched: "backend_step ck db (upsert_dispatch ck d db)"
| completed: "backend_step ck db (complete_dispatch ck i s db)"
| session: "backend_step ck db (update_dispatch_session i s db)"
| session_ref: "backend_step ck db (update_dispatch_session_ref i r db)"
| event: "backend_step ck db (record_agent_run_event ck e db)"
| depends: "backend_add_dependency ck d db = Inr db' \<Longrightarrow> backend_step ck db db'"
| undepends: "backend_step ck db (remove_cross_repo_dep f t db)"
| demoted: "backend_step ck db (fst (demote_stale_derived cutoff db))"
| linked: "backend_step ck db (upsert_linear_link l db)"
| registered: "backend_step ck db (register_repo u db)"
| unregistered: "backend_step ck db (unregister_repo i n db)"
| reopened: "migrate_auto_to_backlog db = Inr db' \<Longrightarrow> backend_step ck db db'"

lemma graphs_acyclic_mono:
  assumes "graphs_acyclic db" "\<And>e. e \<in> set (bk_edges db') \<Longrightarrow> \<exists>e' \<in> set (bk_edges db). edge_key e' = edge_key e"
  shows "graphs_acyclic db'"
proof -
  have "repo_graph db' repo \<subseteq> repo_graph db repo" for repo
    using assms(2) by (fastforce simp: repo_graph_def edge_key_def)
  then show ?thesis using assms(1) by (auto simp: graphs_acyclic_def intro: acyclic_subset)
qed

lemma graphs_acyclic_same: "graphs_acyclic db \<Longrightarrow> bk_edges db' = bk_edges db \<Longrightarrow> graphs_acyclic db'"
  by (rule graphs_acyclic_mono) auto

text \<open>What is refused is exactly what would close a cycle within a repository.\<close>

lemma add_refuses:
  assumes "graphs_acyclic db"
  shows "(\<exists>db'. backend_add_dependency ck d db = Inr db') \<longleftrightarrow>
    \<not> (wr_repo (cd_from d) = wr_repo (cd_to d)
       \<and> \<not> acyclic (insert (wr_bead_id (cd_from d), wr_bead_id (cd_to d)) (repo_graph db (wr_repo (cd_from d)))))"
  using assms by (auto simp: backend_add_dependency_def dfs_correct repo_graph_edges [symmetric] graphs_acyclic_def acyclic_insert)

lemma add_keeps_acyclic:
  assumes "graphs_acyclic db" "backend_add_dependency ck d db = Inr db'"
  shows "graphs_acyclic db'"
proof -
  let ?f = "(wr_repo (cd_from d), wr_bead_id (cd_from d))" and ?t = "(wr_repo (cd_to d), wr_bead_id (cd_to d))"
  have db': "db' = db\<lparr> bk_edges := insert_replace edge_key (dep_to_row ck d) (bk_edges db) \<rparr>"
    using assms(2) by (auto simp: backend_add_dependency_def split: if_splits)
  have sub: "repo_graph db' repo \<subseteq> (if fst ?f = repo \<and> fst ?t = repo then insert (snd ?f, snd ?t) (repo_graph db repo) else repo_graph db repo)" for repo
    by (auto simp: repo_graph_def db' insert_replace_def dep_to_row_def)
  have "acyclic (insert (snd ?f, snd ?t) (repo_graph db (fst ?f)))" if "fst ?f = fst ?t"
    using add_refuses [OF assms(1), of ck d] assms(2) that by auto
  then have "acyclic (if fst ?f = repo \<and> fst ?t = repo then insert (snd ?f, snd ?t) (repo_graph db repo) else repo_graph db repo)" for repo
    using assms(1) by (auto simp: graphs_acyclic_def)
  then show ?thesis using sub unfolding graphs_acyclic_def by (meson acyclic_subset)
qed

lemma migrate_ok:
  assumes "backend_ok db" "migrate_auto_to_backlog db = Inr db'"
  shows "backend_ok db'"
proof (cases "db' = db")
  case False
  let ?ds = "filter (\<lambda>d. dc_id d \<notin> LEGACY_DECADES) (insert_ignore dc_id backlog_decade (bk_decades db))"
  let ?ts = "map (\<lambda>t. t\<lparr> tr_id := rename_auto (tr_id t),
                tr_decade_id := (if tr_decade_id t \<in> LEGACY_DECADES then ''backlog'' else tr_decade_id t) \<rparr>) (bk_threads db)"
  let ?ms = "map (\<lambda>(t, w). (rename_auto t, w)) (bk_members db)"
  have d: "db' = db\<lparr> bk_decades := ?ds, bk_threads := ?ts, bk_members := ?ms \<rparr>" "distinct (map tr_id ?ts)" "distinct (map member_key ?ms)"
    using assms(2) False by (auto simp: migrate_auto_to_backlog_def Let_def split: if_splits)
  have "unique_keys dc_id ?ds" using assms(1) by (intro unique_filter unique_ops) (simp add: backend_ok_def keys_unique_def)
  then have "keys_unique db'" using assms(1) d by (simp add: backend_ok_def keys_unique_def unique_keys_def)
  moreover have "threads_rooted db'"
  proof -
    have "''backlog'' \<in> dc_id ` set ?ds"
      by (auto simp: insert_ignore_def has_key_iff backlog_decade_def LEGACY_DECADES_def image_iff)
    moreover have "i \<in> dc_id ` set ?ds" if "i \<in> dc_id ` set (bk_decades db)" "i \<notin> LEGACY_DECADES" for i
      using that by (auto simp: insert_ignore_def)
    ultimately show ?thesis using assms(1) by (auto simp: d(1) threads_rooted_def backend_ok_def)
  qed
  ultimately show ?thesis using assms(1) graphs_acyclic_same [of db db'] by (simp add: backend_ok_def d(1))
qed (use assms(1) in simp)

lemma edge_writes_ok: "unique_keys edge_key es \<Longrightarrow> unique_keys edge_key (map (\<lambda>e. if c e then e\<lparr> eg_tier := t \<rparr> else e) es)"
proof -
  have "map edge_key (map (\<lambda>e. if c e then e\<lparr> eg_tier := t \<rparr> else e) es) = map edge_key es" by (simp add: edge_key_def)
  then show "unique_keys edge_key es \<Longrightarrow> unique_keys edge_key (map (\<lambda>e. if c e then e\<lparr> eg_tier := t \<rparr> else e) es)"
    unfolding unique_keys_def by (simp only:)
qed

lemma decade_rooted: "dc_id ` set (insert_update dc_id (\<lambda>_ d. d) d ds) \<supseteq> dc_id ` set ds"
  by (auto simp: insert_update_def image_iff)

lemmas decade_rooted' = decade_rooted [THEN subsetD]

lemma link_keys: "unique_keys link_key ls \<Longrightarrow> unique_keys link_key (bk_links (upsert_linear_link l (db\<lparr> bk_links := ls \<rparr>)))"
  "unique_keys ll_linear_id ls \<Longrightarrow> unique_keys ll_linear_id (bk_links (upsert_linear_link l (db\<lparr> bk_links := ls \<rparr>)))"
proof -
  have f: "unique_keys key ls \<Longrightarrow> key x \<notin> key ` set (filter p ls) \<Longrightarrow> unique_keys key (filter p ls @ [x])" for key :: "linear_link \<Rightarrow> 'k" and x p
    by (simp add: unique_keys_def distinct_map_filter)
  show "unique_keys link_key ls \<Longrightarrow> unique_keys link_key (bk_links (upsert_linear_link l (db\<lparr> bk_links := ls \<rparr>)))"
    by (auto simp: upsert_linear_link_def link_key_def intro!: f)
  show "unique_keys ll_linear_id ls \<Longrightarrow> unique_keys ll_linear_id (bk_links (upsert_linear_link l (db\<lparr> bk_links := ls \<rparr>)))"
    by (auto simp: upsert_linear_link_def intro!: f)
qed

lemma step_ok: "backend_step ck db db' \<Longrightarrow> backend_ok db \<Longrightarrow> backend_ok db'"
proof (induction rule: backend_step.induct)
  case (decade db d)
  then show ?case using graphs_acyclic_same [of db "upsert_decade d db"]
    by (auto simp: backend_ok_def keys_unique_def threads_rooted_def upsert_decade_def decade_rooted' intro!: unique_update)
next
  case (thread t db db')
  then have d: "db' = db\<lparr> bk_threads := insert_update tr_id (\<lambda>_ t. t) t (bk_threads db) \<rparr>"
    "tr_decade_id t \<in> dc_id ` set (bk_decades db)"
    by (auto simp: upsert_thread_def get_decade_def row_at_None split: if_splits)
  have "x = t \<or> x \<in> set (bk_threads db)" if "x \<in> set (insert_update tr_id (\<lambda>_ t. t) t (bk_threads db))" for x
    using that by (auto simp: insert_update_def split: if_splits)
  then show ?case using thread d(2) graphs_acyclic_same [of db db']
    by (auto simp: d(1) backend_ok_def keys_unique_def threads_rooted_def intro!: unique_update)
next
  case (depends d db db')
  then show ?case using add_keeps_acyclic [of db ck d db']
    by (auto simp: backend_ok_def backend_add_dependency_def keys_unique_def threads_rooted_def split: if_splits)
next
  case (undepends db f t)
  then show ?case using graphs_acyclic_mono [of db "remove_cross_repo_dep f t db"]
    by (auto simp: backend_ok_def remove_cross_repo_dep_def keys_unique_def threads_rooted_def delete_at_def)
next
  case (demoted db cutoff)
  let ?c = "\<lambda>e. eg_tier e = ''derived'' \<and> eg_observed e < cutoff"
  let ?f = "\<lambda>e. if ?c e then e\<lparr> eg_tier := ''conjectured'' \<rparr> else e"
  have d: "fst (demote_stale_derived cutoff db) = db\<lparr> bk_edges := map ?f (bk_edges db) \<rparr>"
    by (simp add: demote_stale_derived_def Let_def)
  have "graphs_acyclic (db\<lparr> bk_edges := map ?f (bk_edges db) \<rparr>)"
  proof (rule graphs_acyclic_mono)
    show "graphs_acyclic db" using demoted by (simp add: backend_ok_def)
    fix e assume "e \<in> set (bk_edges (db\<lparr> bk_edges := map ?f (bk_edges db) \<rparr>))"
    then have "e \<in> ?f ` set (bk_edges db)" by simp
    then obtain e' where "e = ?f e'" "e' \<in> set (bk_edges db)" by (rule imageE)
    then show "\<exists>e' \<in> set (bk_edges db). edge_key e' = edge_key e" by (intro bexI [of _ e']) (simp_all add: edge_key_def)
  qed
  moreover have "unique_keys edge_key (map ?f (bk_edges db))"
    using demoted by (intro edge_writes_ok) (simp add: backend_ok_def keys_unique_def)
  ultimately show ?case using demoted unfolding d by (simp add: backend_ok_def keys_unique_def threads_rooted_def)
next
  case (linked db l)
  let ?db' = "upsert_linear_link l db"
  have k: "unique_keys link_key (bk_links ?db')" "unique_keys ll_linear_id (bk_links ?db')"
    using link_keys [of "bk_links db" l db] linked by (simp_all add: backend_ok_def keys_unique_def)
  have same: "bk_decades ?db' = bk_decades db" "bk_threads ?db' = bk_threads db" "bk_members ?db' = bk_members db"
    "bk_pipelines ?db' = bk_pipelines db" "bk_dispatches ?db' = bk_dispatches db" "bk_events ?db' = bk_events db"
    "bk_edges ?db' = bk_edges db" "bk_repos ?db' = bk_repos db"
    by (simp_all add: upsert_linear_link_def)
  show ?case using linked k graphs_acyclic_same [OF _ same(7)] unfolding backend_ok_def keys_unique_def threads_rooted_def same
    by blast
next
  case (reopened db db')
  then show ?case using migrate_ok by blast
next
  case (dispatched d db db')
  then show ?case using graphs_acyclic_same [of db db']
    by (auto simp: backend_ok_def record_dispatch_def keys_unique_def threads_rooted_def unique_keys_def has_key_iff
        dispatch_to_row_def split: if_splits)
next
  case (redispatched db d)
  then show ?case using graphs_acyclic_same [of db "upsert_dispatch ck d db"]
    by (auto simp: backend_ok_def upsert_dispatch_def keys_unique_def threads_rooted_def merge_dispatch_def intro!: unique_update)
next
  case (completed db i s)
  then show ?case using graphs_acyclic_same [of db "complete_dispatch ck i s db"]
    by (auto simp: backend_ok_def complete_dispatch_def keys_unique_def threads_rooted_def intro!: unique_update)
next
  case (session db i s)
  then show ?case using graphs_acyclic_same [of db "update_dispatch_session i s db"]
    by (auto simp: backend_ok_def update_dispatch_session_def keys_unique_def threads_rooted_def intro!: unique_update)
next
  case (session_ref db i r)
  then show ?case using graphs_acyclic_same [of db "update_dispatch_session_ref i r db"]
    by (auto simp: backend_ok_def update_dispatch_session_ref_def keys_unique_def threads_rooted_def intro!: unique_update)
qed (auto simp: backend_ok_def keys_unique_def threads_rooted_def add_bead_to_thread_def upsert_pipeline_def
    clear_pipeline_def record_agent_run_event_def register_repo_def unregister_repo_def elim: graphs_acyclic_same)

lemma empty_backend_ok: "backend_ok empty_backend"
  by (auto simp: backend_ok_def empty_backend_def keys_unique_def threads_rooted_def graphs_acyclic_def repo_graph_def
      acyclic_def)

lemma steps_ok: "(backend_step ck)\<^sup>*\<^sup>* db db' \<Longrightarrow> backend_ok db \<Longrightarrow> backend_ok db'"
  by (induction rule: rtranclp_induct) (auto intro: step_ok)

text \<open>
  C27. Whatever is written from an empty store on, every table has unique keys, every thread has its decade, and
  within each repository the dependencies have no cycle; and a dependency is refused exactly when it would
  close one there.
\<close>

theorem repository_graphs_stay_acyclic:
  assumes "(backend_step ck)\<^sup>*\<^sup>* empty_backend db"
  shows "acyclic (repo_graph db repo) \<and> keys_unique db \<and> threads_rooted db
    \<and> ((\<exists>db'. backend_add_dependency ck d db = Inr db') \<longleftrightarrow>
        \<not> (wr_repo (cd_from d) = wr_repo (cd_to d)
           \<and> \<not> acyclic (insert (wr_bead_id (cd_from d), wr_bead_id (cd_to d)) (repo_graph db (wr_repo (cd_from d))))))"
proof -
  have "backend_ok db" by (rule steps_ok [OF assms empty_backend_ok])
  then show ?thesis using add_refuses by (auto simp: backend_ok_def graphs_acyclic_def)
qed

text \<open>A clock for the witnesses: an instant is written as that many letters, after a mark when it is negative.\<close>

definition letter_clock :: backend_clock where
  "letter_clock =
     \<lparr> bc_fmt = (\<lambda>t. if t < 0 then CHR ''n'' # replicate (nat (- t)) CHR ''t'' else replicate (nat t) CHR ''t''),
       bc_parse = (\<lambda>s. if s = [] then Some 0 else if hd s = CHR ''t'' then Some (int (length s))
                        else if hd s = CHR ''n'' then Some (1 - int (length s)) else None),
       bc_now = 5, bc_sql_now = ''2026-01-01 00:00:00'' \<rparr>"

lemma letter_clock_reads_back: "bc_parse letter_clock (bc_fmt letter_clock t) = Some t"
  by (cases "nat t") (auto simp: letter_clock_def)

definition sample_dep :: "string \<Rightarrow> string \<Rightarrow> cross_repo_dep" where
  "sample_dep a b = \<lparr> cd_from = WorkRef ''r'' [] a, cd_to = WorkRef ''r'' [] b, cd_dep_type = ''blocks'',
     cd_evidence_tier = Asserted, cd_source = ''test'', cd_observed_at = 0 \<rparr>"

theorem repository_graphs_stay_acyclic_witness:
  "\<exists>db. backend_add_dependency letter_clock (sample_dep ''a'' ''b'') empty_backend = Inr db \<and> acyclic (repo_graph db ''r'')
     \<and> backend_add_dependency letter_clock (sample_dep ''b'' ''a'') db = Inl (CycleRefused (WorkRef ''r'' [] ''b'') (WorkRef ''r'' [] ''a''))"
proof -
  let ?db = "empty_backend\<lparr> bk_edges := [dep_to_row letter_clock (sample_dep ''a'' ''b'')] \<rparr>"
  have db: "backend_add_dependency letter_clock (sample_dep ''a'' ''b'') empty_backend = Inr ?db"
    by (simp add: backend_add_dependency_def sqlite_dfs_can_reach_def repo_edges_def sample_dep_def empty_backend_def
        successors_def insert_replace_def)
  then have "(backend_step letter_clock)\<^sup>*\<^sup>* empty_backend ?db" by (intro r_into_rtranclp backend_step.depends)
  then have "acyclic (repo_graph ?db ''r'')" using repository_graphs_stay_acyclic by blast
  moreover have "backend_add_dependency letter_clock (sample_dep ''b'' ''a'') ?db = Inl (CycleRefused (WorkRef ''r'' [] ''b'') (WorkRef ''r'' [] ''a''))"
    by (simp add: backend_add_dependency_def sqlite_dfs_can_reach_def repo_edges_def sample_dep_def empty_backend_def
        successors_def dep_to_row_def)
  ultimately show ?thesis using db by blast
qed

section \<open>Pipelines as a map\<close>

text \<open>
  What the reconciler sees of the table: a map from repository and identifier to states. A scope is not
  stored, so it is empty when a state is read.
\<close>

definition without_scope :: "pipeline_state \<Rightarrow> pipeline_state" where
  "without_scope p = p\<lparr> ps_bead_ref := WorkRef (wr_repo (ps_bead_ref p)) [] (wr_bead_id (ps_bead_ref p)) \<rparr>"

definition state_key :: "pipeline_state \<Rightarrow> string \<times> string" where
  "state_key p = (wr_repo (ps_bead_ref p), wr_bead_id (ps_bead_ref p))"

interpretation pipelines: keyed_table "upsert_pipeline ck" "\<lambda>k. clear_pipeline (WorkRef (fst k) [] (snd k))"
  "\<lambda>db. row_at pipeline_key (bk_pipelines db)" state_key "pipeline_to_row ck" for ck
  by unfold_locales (simp_all add: upsert_pipeline_def clear_pipeline_def row_at_ops pipeline_key_def state_key_def pipeline_to_row_def)

interpretation repos: keyed_table register_repo "\<lambda>k. unregister_repo (fst k) (snd k)"
  "\<lambda>db. row_at repo_key (bk_repos db)" repo_key id
  by unfold_locales (simp_all add: register_repo_def unregister_repo_def row_at_ops repo_key_def)

lemma i64_back: "n < 2 ^ 64 \<Longrightarrow> of_i64 (to_i64 n) = n"
  by (auto simp: of_i64_def to_i64_def Let_def)

lemma instant_reads_back:
  "(\<And>t. bc_parse ck (bc_fmt ck t) = Some t) \<Longrightarrow> Option.bind (map_option (bc_fmt ck) t) (bc_parse ck) = t"
  by (cases t) auto

lemma row_reads_back:
  assumes "fits_columns p" "\<And>t. bc_parse ck (bc_fmt ck t) = Some t"
  shows "row_to_pipeline ck (pipeline_to_row ck p) = Some (without_scope p)"
  using assms instant_reads_back [OF assms(2)]
  by (cases p) (auto simp: row_to_pipeline_def pipeline_to_row_def fits_columns_def without_scope_def i64_back
      split: option.splits)

text \<open>The writes of a run: a state (\<open>Inl\<close>) or the end of a pipeline (\<open>Inr\<close>), and the map they make.\<close>

definition pipeline_write :: "backend_clock \<Rightarrow> backend_db \<Rightarrow> pipeline_state + work_ref \<Rightarrow> backend_db" where
  "pipeline_write ck db w = (case w of Inl p \<Rightarrow> upsert_pipeline ck p db | Inr r \<Rightarrow> clear_pipeline r db)"

definition pipeline_map :: "(string \<times> string \<Rightarrow> pipeline_state option) \<Rightarrow> pipeline_state + work_ref \<Rightarrow> string \<times> string \<Rightarrow> pipeline_state option" where
  "pipeline_map m w = (case w of Inl p \<Rightarrow> m(state_key p \<mapsto> without_scope p) | Inr r \<Rightarrow> m((wr_repo r, wr_bead_id r) := None))"

lemma pipeline_writes:
  assumes "\<And>t. bc_parse ck (bc_fmt ck t) = Some t" "\<And>p. Inl p \<in> set ws \<Longrightarrow> fits_columns p"
    "\<And>k. m k = Option.bind (row_at pipeline_key (bk_pipelines db) k) (row_to_pipeline ck)"
    "\<And>r. r \<in> set (bk_pipelines db) \<Longrightarrow> row_to_pipeline ck r \<noteq> None"
  shows "foldl pipeline_map m ws k = Option.bind (row_at pipeline_key (bk_pipelines (foldl (pipeline_write ck) db ws)) k) (row_to_pipeline ck)
    \<and> (\<forall>r \<in> set (bk_pipelines (foldl (pipeline_write ck) db ws)). row_to_pipeline ck r \<noteq> None)"
  using assms(2-)
proof (induction ws arbitrary: m db)
  case (Cons w ws)
  have clear: "clear_pipeline r db = clear_pipeline (WorkRef (wr_repo r) [] (wr_bead_id r)) db" for r
    by (simp add: clear_pipeline_def)
  let ?db = "pipeline_write ck db w" and ?m = "pipeline_map m w"
  have "?m k = Option.bind (row_at pipeline_key (bk_pipelines ?db) k) (row_to_pipeline ck)" for k
  proof (cases w)
    case (Inl p)
    then show ?thesis using Cons.prems(1) [of p] Cons.prems(2) [of k] row_reads_back [OF _ assms(1), of p]
      by (simp add: pipeline_write_def pipeline_map_def pipelines.fetch_put)
  next
    case (Inr r)
    then show ?thesis using Cons.prems(2) [of k] clear [of r] pipelines.fetch_drop [of "(wr_repo r, wr_bead_id r)" db k]
      by (simp add: pipeline_write_def pipeline_map_def)
  qed
  moreover have "row_to_pipeline ck r \<noteq> None" if "r \<in> set (bk_pipelines ?db)" for r
    using that Cons.prems(1) Cons.prems(3) row_reads_back [OF _ assms(1)]
    by (auto simp: pipeline_write_def upsert_pipeline_def insert_replace_def clear_pipeline_def delete_at_def split: sum.splits)
  moreover have "\<And>p. Inl p \<in> set ws \<Longrightarrow> fits_columns p" using Cons.prems(1) by simp
  ultimately show ?case unfolding foldl_Cons by (intro Cons.IH)
qed simp

lemma pipeline_writes_unique: "unique_keys pipeline_key (bk_pipelines db)
    \<Longrightarrow> unique_keys pipeline_key (bk_pipelines (foldl (pipeline_write ck) db ws))"
proof (induction ws arbitrary: db)
  case (Cons w ws)
  have "unique_keys pipeline_key (bk_pipelines (pipeline_write ck db w))"
    using Cons.prems by (cases w) (simp_all add: pipeline_write_def upsert_pipeline_def clear_pipeline_def)
  then show ?case using Cons.IH by simp
qed simp

text \<open>
  C28. Starting from an empty store, after any run of writes the state of a bead is the one that was written last
  for its repository and identifier, without its scope, or none when the pipeline has ended; no read fails,
  and the list of active pipelines holds exactly these states, each once.
\<close>

theorem pipeline_states_read_back:
  assumes "\<And>t. bc_parse ck (bc_fmt ck t) = Some t" "\<And>p. Inl p \<in> set ws \<Longrightarrow> fits_columns p"
  shows "get_pipeline ck (foldl (pipeline_write ck) empty_backend ws) w = Inr (foldl pipeline_map Map.empty ws (wr_repo w, wr_bead_id w))
    \<and> (\<exists>ps. list_active_pipelines ck (foldl (pipeline_write ck) empty_backend ws) = Inr ps
          \<and> set ps = ran (foldl pipeline_map Map.empty ws) \<and> distinct (map state_key ps))"
proof -
  let ?db = "foldl (pipeline_write ck) empty_backend ws" and ?m = "foldl pipeline_map Map.empty ws"
  let ?rs = "bk_pipelines ?db" and ?f = "row_to_pipeline ck"
  have all: "?m k = Option.bind (row_at pipeline_key ?rs k) ?f \<and> (\<forall>r \<in> set ?rs. ?f r \<noteq> None)" for k
    by (rule pipeline_writes [OF assms]) (simp_all add: empty_backend_def row_at_def)
  have m: "?m k = Option.bind (row_at pipeline_key ?rs k) ?f" and ok: "\<And>r. r \<in> set ?rs \<Longrightarrow> ?f r \<noteq> None" for k
    using all by blast+
  have key: "state_key p = pipeline_key r" if "?f r = Some p" for r p
    using that by (auto simp: row_to_pipeline_def state_key_def pipeline_key_def split: if_splits)
  let ?ps = "map (\<lambda>r. the (?f r)) ?rs"
  have "get_pipeline ck ?db w = Inr (?m (wr_repo w, wr_bead_id w))"
  proof (cases "row_at pipeline_key ?rs (wr_repo w, wr_bead_id w)")
    case (Some r)
    then obtain p where "?f r = Some p" using ok [of r] row_at_Some by fast
    then show ?thesis using Some by (simp add: get_pipeline_def m)
  qed (simp add: get_pipeline_def m)
  moreover have "list_active_pipelines ck ?db = Inr ?ps"
    by (simp add: list_active_pipelines_def read_rows_def read_all_total [OF ok])
  moreover have unique: "unique_keys pipeline_key ?rs" by (rule pipeline_writes_unique) (simp add: empty_backend_def)
  have "state_key (the (?f r)) = pipeline_key r" if "r \<in> set ?rs" for r
    using ok [OF that] key by auto
  then have keys: "map state_key ?ps = map pipeline_key ?rs" by simp
  moreover have "set ?ps = ran ?m"
  proof (intro set_eqI iffI)
    fix p assume "p \<in> set ?ps"
    then obtain r where r: "r \<in> set ?rs" "p = the (?f r)" by auto
    then have "?m (pipeline_key r) = Some p" using ok [OF r(1)] row_at_member [OF unique r(1)] by (auto simp: m)
    then show "p \<in> ran ?m" by (rule ranI)
  next
    fix p assume "p \<in> ran ?m"
    then obtain k where "?m k = Some p" by (auto simp: ran_def)
    then obtain r where "row_at pipeline_key ?rs k = Some r" "?f r = Some p" by (auto simp: m bind_eq_Some_conv)
    then show "p \<in> set ?ps" using row_at_Some [of pipeline_key ?rs k r] by (auto intro!: image_eqI [of _ _ r])
  qed
  ultimately show ?thesis using unique unfolding unique_keys_def by metis
qed

definition sample_pipeline :: "string \<Rightarrow> pipeline_state" where
  "sample_pipeline status = \<lparr> ps_bead_ref = WorkRef ''r'' ''s'' ''a'', ps_pipeline_phase = 1, ps_pipeline_agent = ''dev-agent'',
     ps_phase_status = status, ps_retries = 2, ps_consecutive_reverts = 0, ps_highest_verify_tier = Some 3,
     ps_last_generation = 2 ^ 63 + 1, ps_backoff_until = Some 4 \<rparr>"

theorem pipeline_states_read_back_witness:
  "get_pipeline letter_clock (foldl (pipeline_write letter_clock) empty_backend [Inl (sample_pipeline ''pending''), Inl (sample_pipeline ''executing'')])
     (WorkRef ''r'' ''other'' ''a'') = Inr (Some (without_scope (sample_pipeline ''executing'')))"
proof -
  have "fits_columns (sample_pipeline st)" for st by (simp add: sample_pipeline_def fits_columns_def)
  then have "p \<in> sample_pipeline ` UNIV \<Longrightarrow> fits_columns p" for p by blast
  then show ?thesis
    using pipeline_states_read_back [of letter_clock "[Inl (sample_pipeline ''pending''), Inl (sample_pipeline ''executing'')]" "WorkRef ''r'' ''other'' ''a''",
      OF letter_clock_reads_back]
    by (auto simp: pipeline_map_def state_key_def sample_pipeline_def)
qed

end
