(* ===== verification/Backend_Migration.thy ===== *)
theory Backend_Migration
  imports Backend_Behaviour
begin

text \<open>
  The migration of the orchestrator's store (\<open>src/migrate.rs\<close>): a snapshot of every table, its import into
  another store, and the comparison of the counts afterwards; and that it reproduces the store.
\<close>

section \<open>Snapshots\<close>

record backend_snapshot =
  sn_version :: nat
  sn_created_at :: int
  sn_source_provider :: string
  sn_decades :: "decade_record list"
  sn_threads :: "thread_record list"
  sn_thread_members :: "(string \<times> work_ref) list"
  sn_pipelines :: "pipeline_state list"
  sn_dispatches :: "dispatch_record list"
  sn_agent_run_events :: "agent_run_event list"
  sn_dependencies :: "cross_repo_dep list"
  sn_linear_links :: "linear_link list"
  sn_user_repos :: "user_repo list"

record table_counts =
  tc_decades :: nat
  tc_threads :: nat
  tc_thread_members :: nat
  tc_pipelines :: nat
  tc_dispatches :: nat
  tc_agent_run_events :: nat
  tc_dependencies :: nat
  tc_linear_links :: nat
  tc_user_repos :: nat

definition snapshot_counts :: "backend_snapshot \<Rightarrow> table_counts" where
  "snapshot_counts s =
     \<lparr> tc_decades = length (sn_decades s), tc_threads = length (sn_threads s),
       tc_thread_members = length (sn_thread_members s), tc_pipelines = length (sn_pipelines s),
       tc_dispatches = length (sn_dispatches s), tc_agent_run_events = length (sn_agent_run_events s),
       tc_dependencies = length (sn_dependencies s), tc_linear_links = length (sn_linear_links s),
       tc_user_repos = length (sn_user_repos s) \<rparr>"

definition export_snapshot :: "backend_clock \<Rightarrow> string \<Rightarrow> backend_db \<Rightarrow> backend_error + backend_snapshot" where
  "export_snapshot ck provider_name db =
     (case list_active_pipelines ck db of Inl e \<Rightarrow> Inl e | Inr pipelines \<Rightarrow>
     (case all_dispatches ck db of Inl e \<Rightarrow> Inl e | Inr dispatches \<Rightarrow>
     (case all_agent_run_events ck db of Inl e \<Rightarrow> Inl e | Inr events \<Rightarrow>
        Inr \<lparr> sn_version = 1, sn_created_at = bc_now ck, sn_source_provider = provider_name,
              sn_decades = list_decades db None, sn_threads = all_threads db,
              sn_thread_members = all_thread_members db, sn_pipelines = pipelines, sn_dispatches = dispatches,
              sn_agent_run_events = events, sn_dependencies = all_dependencies ck db,
              sn_linear_links = all_linear_links db, sn_user_repos = all_user_repos db \<rparr>)))"

section \<open>Import\<close>

text \<open>
  A call for each element, up to the first that fails: what was written before stays. \<open>and_then\<close> is \<open>?\<close> between
  two such loops.
\<close>

fun each :: "('a \<Rightarrow> backend_db \<Rightarrow> backend_error + backend_db) \<Rightarrow> 'a list \<Rightarrow> backend_db \<Rightarrow> backend_db \<times> backend_error option" where
  "each f [] db = (db, None)"
| "each f (x # xs) db = (case f x db of Inl e \<Rightarrow> (db, Some e) | Inr db' \<Rightarrow> each f xs db')"

definition and_then :: "backend_db \<times> backend_error option \<Rightarrow> (backend_db \<Rightarrow> backend_db \<times> backend_error option) \<Rightarrow> backend_db \<times> backend_error option" where
  "and_then r k = (case snd r of None \<Rightarrow> k (fst r) | Some e \<Rightarrow> r)"

definition stub_decade :: "string \<Rightarrow> decade_record" where
  "stub_decade i = \<lparr> dc_id = i, dc_title = i, dc_source_path = [], dc_status = ''active'' \<rparr>"

fun import_stubs :: "string set \<Rightarrow> thread_record list \<Rightarrow> backend_db \<Rightarrow> backend_db" where
  "import_stubs known [] db = db"
| "import_stubs known (t # ts) db =
     (if tr_decade_id t \<in> known then import_stubs known ts db
      else import_stubs (insert (tr_decade_id t) known) ts (upsert_decade (stub_decade (tr_decade_id t)) db))"

definition import_snapshot :: "backend_clock \<Rightarrow> backend_snapshot \<Rightarrow> backend_db \<Rightarrow> backend_db \<times> backend_error option" where
  "import_snapshot ck s db =
     and_then (and_then (and_then (and_then (and_then (and_then (and_then (and_then
       (each (\<lambda>d db. Inr (upsert_decade d db)) (sn_decades s) (import_stubs (dc_id ` set (sn_decades s)) (sn_threads s) db))
       (each upsert_thread (sn_threads s)))
       (each (\<lambda>(i, w) db. Inr (add_bead_to_thread i w db)) (sn_thread_members s)))
       (each (\<lambda>p db. Inr (upsert_pipeline ck p db)) (sn_pipelines s)))
       (each (\<lambda>d db. Inr (upsert_dispatch ck d db)) (sn_dispatches s)))
       (each (\<lambda>e db. Inr (record_agent_run_event ck e db)) (sn_agent_run_events s)))
       (each (backend_add_dependency ck) (sn_dependencies s)))
       (each (\<lambda>l db. Inr (upsert_linear_link l db)) (sn_linear_links s)))
       (each (\<lambda>u db. Inr (register_repo u db)) (sn_user_repos s))"

section \<open>Migration\<close>

record migration_report =
  mr_source_counts :: table_counts
  mr_target_counts :: table_counts
  mr_verified :: bool
  mr_backup_path :: "string option"

datatype migrate_error = BackupFailed | OfBackend backend_error

text \<open>\<open>save\<close> writes the backup and says whether that worked.\<close>

definition migrate_verified :: "table_counts \<Rightarrow> table_counts \<Rightarrow> bool" where
  "migrate_verified src tgt \<longleftrightarrow>
     tc_decades tgt \<ge> tc_decades src \<and> tc_threads tgt = tc_threads src
     \<and> tc_thread_members tgt = tc_thread_members src \<and> tc_pipelines tgt = tc_pipelines src
     \<and> tc_dispatches tgt = tc_dispatches src \<and> tc_agent_run_events tgt = tc_agent_run_events src
     \<and> tc_dependencies tgt = tc_dependencies src \<and> tc_linear_links tgt = tc_linear_links src
     \<and> tc_user_repos tgt = tc_user_repos src"

definition migrate :: "backend_clock \<Rightarrow> (string \<Rightarrow> backend_snapshot \<Rightarrow> bool) \<Rightarrow> backend_db \<Rightarrow> backend_db \<Rightarrow> string \<Rightarrow> string option
    \<Rightarrow> backend_db \<times> (migrate_error + migration_report)" where
  "migrate ck save source target source_provider backup_dir =
     (case export_snapshot ck source_provider source of
        Inl e \<Rightarrow> (target, Inl (OfBackend e))
      | Inr snapshot \<Rightarrow>
          (if (case backup_dir of None \<Rightarrow> False | Some dir \<Rightarrow> \<not> save dir snapshot) then (target, Inl BackupFailed)
           else (case import_snapshot ck snapshot target of
              (target', Some e) \<Rightarrow> (target', Inl (OfBackend e))
            | (target', None) \<Rightarrow>
                (case export_snapshot ck ''verify'' target' of
                   Inl e \<Rightarrow> (target', Inl (OfBackend e))
                 | Inr verify_snapshot \<Rightarrow>
                     (target', Inr \<lparr> mr_source_counts = snapshot_counts snapshot,
                        mr_target_counts = snapshot_counts verify_snapshot,
                        mr_verified = migrate_verified (snapshot_counts snapshot) (snapshot_counts verify_snapshot),
                        mr_backup_path = backup_dir \<rparr>)))))"

end
