(* ===== verification/Migration_Behaviour.thy ===== *)
theory Migration_Behaviour
  imports Backend_Migration
begin

text \<open>
  What a migration promises: the rows that the store's own operations write can all be read again, an import
  fails only at a dependency that closes a cycle, and the migration of such a store into an empty one
  reproduces every table.
\<close>

section \<open>Rows that were written are read\<close>

definition rows_written :: "backend_clock \<Rightarrow> backend_db \<Rightarrow> bool" where
  "rows_written ck db \<longleftrightarrow>
     set (bk_pipelines db) \<subseteq> pipeline_to_row ck ` Collect fits_columns
     \<and> set (bk_dispatches db) \<subseteq> range (dispatch_to_row ck)
     \<and> set (bk_events db) \<subseteq> range (event_to_row ck)
     \<and> eg_tier ` set (bk_edges db) \<subseteq> range tier_as_str
     \<and> (\<forall>l \<in> set (bk_links db). wr_scope (ll_bead_ref l) = [])"

lemma rows_of_inserts:
  "set (insert_ignore key r rs) \<subseteq> insert r (set rs)"
  "set (insert_replace key r rs) \<subseteq> insert r (set rs)"
  "set (delete_at key k rs) \<subseteq> set rs"
  "set (update_at key k f rs) \<subseteq> set rs \<union> f ` set rs"
  "set (insert_update key upd r rs) \<subseteq> insert r (set rs \<union> (\<lambda>q. upd q r) ` set rs)"
  by (auto simp: insert_ignore_def insert_replace_def delete_at_def update_at_def insert_update_def)

text \<open>Every change of a dispatch row is the row of a changed dispatch.\<close>

lemma dispatch_rows_closed:
  "merge_dispatch (dispatch_to_row ck d) (dispatch_to_row ck d') \<in> range (dispatch_to_row ck)"
  "(dispatch_to_row ck d)\<lparr> dr_completed := Some (bc_fmt ck t), dr_outcome := q \<rparr> \<in> range (dispatch_to_row ck)"
  "(dispatch_to_row ck d)\<lparr> dr_session_id := q \<rparr> \<in> range (dispatch_to_row ck)"
  "(dispatch_to_row ck d)\<lparr> dr_ref_provider := Some a, dr_ref_id := Some b \<rparr> \<in> range (dispatch_to_row ck)"
proof -
  have "merge_dispatch (dispatch_to_row ck d) (dispatch_to_row ck d')
      = dispatch_to_row ck (d\<lparr> dp_completed_at := dp_completed_at d', dp_outcome := dp_outcome d', dp_session_id := dp_session_id d',
          dp_session_ref := dp_session_ref d', dp_workspace_path := dp_workspace_path d' \<rparr>)"
    by (simp add: merge_dispatch_def dispatch_to_row_def)
  then show "merge_dispatch (dispatch_to_row ck d) (dispatch_to_row ck d') \<in> range (dispatch_to_row ck)" by simp
  have "(dispatch_to_row ck d)\<lparr> dr_completed := Some (bc_fmt ck t), dr_outcome := q \<rparr>
      = dispatch_to_row ck (d\<lparr> dp_completed_at := Some t, dp_outcome := q \<rparr>)" by (simp add: dispatch_to_row_def)
  then show "(dispatch_to_row ck d)\<lparr> dr_completed := Some (bc_fmt ck t), dr_outcome := q \<rparr> \<in> range (dispatch_to_row ck)" by simp
  have "(dispatch_to_row ck d)\<lparr> dr_session_id := q \<rparr> = dispatch_to_row ck (d\<lparr> dp_session_id := q \<rparr>)" by (simp add: dispatch_to_row_def)
  then show "(dispatch_to_row ck d)\<lparr> dr_session_id := q \<rparr> \<in> range (dispatch_to_row ck)" by simp
  have "(dispatch_to_row ck d)\<lparr> dr_ref_provider := Some a, dr_ref_id := Some b \<rparr> = dispatch_to_row ck (d\<lparr> dp_session_ref := Some (a, b) \<rparr>)"
    by (simp add: dispatch_to_row_def)
  then show "(dispatch_to_row ck d)\<lparr> dr_ref_provider := Some a, dr_ref_id := Some b \<rparr> \<in> range (dispatch_to_row ck)" by simp
qed

lemma dispatch_updates_closed:
  assumes "set rs \<subseteq> range (dispatch_to_row ck)"
  shows "set (insert_update dr_id merge_dispatch (dispatch_to_row ck d) rs) \<subseteq> range (dispatch_to_row ck)"
    "(\<And>d. f (dispatch_to_row ck d) \<in> range (dispatch_to_row ck)) \<Longrightarrow> set (update_at dr_id i f rs) \<subseteq> range (dispatch_to_row ck)"
proof -
  have "merge_dispatch q (dispatch_to_row ck d) \<in> range (dispatch_to_row ck)" if "q \<in> set rs" for q
    using assms that dispatch_rows_closed(1) by blast
  then show "set (insert_update dr_id merge_dispatch (dispatch_to_row ck d) rs) \<subseteq> range (dispatch_to_row ck)"
    using rows_of_inserts(5) [of dr_id merge_dispatch "dispatch_to_row ck d" rs] assms by blast
  assume "\<And>d. f (dispatch_to_row ck d) \<in> range (dispatch_to_row ck)"
  then have "f q \<in> range (dispatch_to_row ck)" if "q \<in> set rs" for q using assms that by blast
  then show "set (update_at dr_id i f rs) \<subseteq> range (dispatch_to_row ck)"
    using rows_of_inserts(4) [of dr_id i f rs] assms by blast
qed

lemma written_steps: "backend_step ck db db' \<Longrightarrow> rows_written ck db \<Longrightarrow> rows_written ck db'"
proof (induction rule: backend_step.induct)
  case (pipeline p db)
  then show ?case using rows_of_inserts(2) [of pipeline_key "pipeline_to_row ck p" "bk_pipelines db"]
    by (auto simp: rows_written_def upsert_pipeline_def)
next
  case (cleared db w)
  then show ?case by (auto simp: rows_written_def clear_pipeline_def delete_at_def)
next
  case (dispatched d db db')
  then show ?case by (auto simp: rows_written_def record_dispatch_def split: if_splits)
next
  case (redispatched db d)
  then show ?case using dispatch_updates_closed(1) by (simp add: rows_written_def upsert_dispatch_def)
next
  case (completed db i s)
  then have "set (bk_dispatches db) \<subseteq> range (dispatch_to_row ck)" by (simp add: rows_written_def)
  from dispatch_updates_closed(2) [OF this] dispatch_rows_closed(2)
  show ?case using completed unfolding rows_written_def complete_dispatch_def by simp
next
  case (session db i s)
  then have "set (bk_dispatches db) \<subseteq> range (dispatch_to_row ck)" by (simp add: rows_written_def)
  from dispatch_updates_closed(2) [OF this] dispatch_rows_closed(3)
  show ?case using session unfolding rows_written_def update_dispatch_session_def by simp
next
  case (session_ref db i r)
  then have "set (bk_dispatches db) \<subseteq> range (dispatch_to_row ck)" by (simp add: rows_written_def)
  from dispatch_updates_closed(2) [OF this] dispatch_rows_closed(4)
  show ?case using session_ref unfolding rows_written_def update_dispatch_session_ref_def by simp
next
  case (event db e)
  then show ?case by (auto simp: rows_written_def record_agent_run_event_def insert_ignore_def)
next
  case (depends d db db')
  then show ?case by (auto simp: rows_written_def backend_add_dependency_def insert_replace_def dep_to_row_def image_subset_iff split: if_splits)
next
  case (undepends db f t)
  then show ?case by (auto simp: rows_written_def remove_cross_repo_dep_def delete_at_def)
next
  case (demoted db cutoff)
  have "''conjectured'' \<in> range tier_as_str" by (rule image_eqI [of _ _ Conjectured]) simp_all
  then show ?case using demoted by (auto simp: rows_written_def demote_stale_derived_def Let_def image_subset_iff)
next
  case (linked db l)
  then show ?case by (auto simp: rows_written_def upsert_linear_link_def)
next
  case (reopened db db')
  then show ?case by (auto simp: rows_written_def migrate_auto_to_backlog_def Let_def split: if_splits)
qed (auto simp: rows_written_def upsert_decade_def upsert_thread_def add_bead_to_thread_def register_repo_def
    unregister_repo_def split: if_splits)

lemma written_from_empty:
  assumes "(backend_step ck)\<^sup>*\<^sup>* empty_backend db"
  shows "rows_written ck db" "backend_ok db"
proof -
  show "rows_written ck db"
    using assms
  proof (induction rule: rtranclp_induct)
    case base
    show ?case by (simp add: rows_written_def empty_backend_def)
  qed (rule written_steps)
  show "backend_ok db" by (rule steps_ok [OF assms empty_backend_ok])
qed

section \<open>Imports fail only at cycles\<close>

lemma each_steps: "(\<And>x db db'. x \<in> set xs \<Longrightarrow> f x db = Inr db' \<Longrightarrow> backend_step ck db db') \<Longrightarrow> (backend_step ck)\<^sup>*\<^sup>* db (fst (each f xs db))"
proof (induction xs arbitrary: db)
  case (Cons x xs)
  show ?case
  proof (cases "f x db")
    case (Inr db')
    then have "backend_step ck db db'" using Cons.prems [of x] by simp
    moreover have "(backend_step ck)\<^sup>*\<^sup>* db' (fst (each f xs db'))"
      by (rule Cons.IH) (rule Cons.prems, simp_all)
    ultimately show ?thesis using Inr by (simp add: converse_rtranclp_into_rtranclp)
  qed simp
qed simp

lemma and_then_steps:
  "(backend_step ck)\<^sup>*\<^sup>* db (fst r) \<Longrightarrow> (\<And>db'. (backend_step ck)\<^sup>*\<^sup>* db' (fst (k db'))) \<Longrightarrow> (backend_step ck)\<^sup>*\<^sup>* db (fst (and_then r k))"
  by (auto simp: and_then_def split: option.split intro: rtranclp_trans)

lemma stubs_steps: "(backend_step ck)\<^sup>*\<^sup>* db (import_stubs known ts db)"
  by (induction known ts db rule: import_stubs.induct)
    (auto intro: converse_rtranclp_into_rtranclp backend_step.decade)

lemma import_steps:
  assumes "\<And>p. p \<in> set (sn_pipelines s) \<Longrightarrow> fits_columns p"
  shows "(backend_step ck)\<^sup>*\<^sup>* db (fst (import_snapshot ck s db))"
proof -
  have "(backend_step ck)\<^sup>*\<^sup>* db (fst (each (\<lambda>d db. Inr (upsert_decade d db)) (sn_decades s)
      (import_stubs (dc_id ` set (sn_decades s)) (sn_threads s) db)))"
    by (rule rtranclp_trans [OF stubs_steps each_steps]) (auto intro: backend_step.intros)
  then show ?thesis unfolding import_snapshot_def
    by (intro and_then_steps each_steps) (auto intro: backend_step.intros assms)
qed

text \<open>The decades of the threads are there once the stubs and the decades are.\<close>

definition decade_ids :: "backend_db \<Rightarrow> string set" where
  "decade_ids db = dc_id ` set (bk_decades db)"

lemma decade_ids_upsert: "decade_ids (upsert_decade d db) = insert (dc_id d) (decade_ids db)"
  by (auto simp: decade_ids_def upsert_decade_def insert_update_def has_key_iff image_iff)

lemma decade_ids_stubs: "decade_ids (import_stubs known ts db) = decade_ids db \<union> (tr_decade_id ` set ts - known)"
  by (induction known ts db rule: import_stubs.induct) (auto simp: decade_ids_upsert stub_decade_def)

lemma decade_ids_each: "decade_ids (fst (each (\<lambda>d db. Inr (upsert_decade d db)) ds db)) = decade_ids db \<union> dc_id ` set ds"
  by (induction ds arbitrary: db) (auto simp: decade_ids_upsert)

lemma threads_import:
  "tr_decade_id ` set ts \<subseteq> decade_ids db \<Longrightarrow> snd (each upsert_thread ts db) = None"
proof (induction ts arbitrary: db)
  case (Cons t ts)
  then have "upsert_thread t db = Inr (db\<lparr> bk_threads := insert_update tr_id (\<lambda>_ t. t) t (bk_threads db) \<rparr>)"
    by (auto simp: upsert_thread_def get_decade_def row_at_None decade_ids_def)
  then show ?case using Cons by (simp add: decade_ids_def)
qed simp

lemma each_total: "snd (each (\<lambda>x db. Inr (g x db)) xs db) = None"
  by (induction xs arbitrary: db) auto

lemma each_error: "snd (each f xs db) = Some e \<Longrightarrow> \<exists>x \<in> set xs. \<exists>db. f x db = Inl e"
  by (induction xs arbitrary: db) (auto split: sum.splits)

lemma and_then_error: "snd (and_then r k) = Some e \<Longrightarrow> snd r = Some e \<or> snd (k (fst r)) = Some e"
  by (auto simp: and_then_def split: option.splits)

lemma import_error:
  assumes "snd (import_snapshot ck s db) = Some e"
  obtains d where "d \<in> set (sn_dependencies s)" "wr_repo (cd_from d) = wr_repo (cd_to d)" "e = CycleRefused (cd_from d) (cd_to d)"
proof -
  let ?db0 = "import_stubs (dc_id ` set (sn_decades s)) (sn_threads s) db"
  let ?r = "each (\<lambda>d db. Inr (upsert_decade d db)) (sn_decades s) ?db0"
  have "tr_decade_id ` set (sn_threads s) \<subseteq> decade_ids (fst ?r)"
    by (auto simp: decade_ids_each decade_ids_stubs)
  then have t: "snd (each upsert_thread (sn_threads s) (fst ?r)) = None" by (rule threads_import)
  have m: "snd (each (\<lambda>(i, w) db. Inr (add_bead_to_thread i w db)) ms db') = None" for ms db'
    by (induction ms arbitrary: db') auto
  from assms have "\<exists>db'. snd (each (backend_add_dependency ck) (sn_dependencies s) db') = Some e"
    unfolding import_snapshot_def using t by (auto dest!: and_then_error simp: each_total m)
  then obtain d db' where "d \<in> set (sn_dependencies s)" "backend_add_dependency ck d db' = Inl e"
    using each_error by meson
  then show ?thesis using that by (auto simp: backend_add_dependency_def split: if_splits)
qed

text \<open>
  Whatever snapshot is imported into a store that the program has written, the store stays well-formed also
  when the import stops, and it stops at nothing but a dependency within a repository that closes a cycle:
  a thread without its decade is given one.
\<close>

theorem import_stops_only_at_cycles:
  assumes "(backend_step ck)\<^sup>*\<^sup>* empty_backend db" "\<And>p. p \<in> set (sn_pipelines s) \<Longrightarrow> fits_columns p"
  shows "backend_ok (fst (import_snapshot ck s db))
    \<and> (case snd (import_snapshot ck s db) of None \<Rightarrow> True
       | Some e \<Rightarrow> (\<exists>d. d \<in> set (sn_dependencies s) \<and> wr_repo (cd_from d) = wr_repo (cd_to d) \<and> e = CycleRefused (cd_from d) (cd_to d)))"
proof -
  have "backend_ok (fst (import_snapshot ck s db))"
    by (rule steps_ok [OF import_steps [OF assms(2)] written_from_empty(2) [OF assms(1)]])
  then show ?thesis by (auto split: option.split elim: import_error)
qed

section \<open>Tables filled row by row\<close>

text \<open>Rows whose keys are new are appended by every way of inserting them.\<close>

lemma fresh_row:
  assumes "key r \<notin> key ` set rs"
  shows "insert_ignore key r rs = rs @ [r]" "insert_replace key r rs = rs @ [r]" "insert_update key upd r rs = rs @ [r]"
proof -
  have "\<not> has_key key (key r) rs" using assms by (simp add: has_key_iff)
  then show "insert_ignore key r rs = rs @ [r]" "insert_update key upd r rs = rs @ [r]"
    by (simp_all add: insert_ignore_def insert_update_def)
  have "filter (\<lambda>q. key q \<noteq> key r) rs = rs" using assms by (auto simp: filter_id_conv image_iff)
  then show "insert_replace key r rs = rs @ [r]" by (simp add: insert_replace_def)
qed

lemma fill_table:
  assumes "unique_keys key (rs @ map row xs)" "\<And>x rs. key (row x) \<notin> key ` set rs \<Longrightarrow> ins x rs = rs @ [row x]"
  shows "foldl (\<lambda>rs x. ins x rs) rs xs = rs @ map row xs"
  using assms(1)
proof (induction xs arbitrary: rs)
  case (Cons x xs)
  have "key (row x) \<notin> key ` set rs" using Cons.prems by (auto simp: unique_keys_def)
  then have "ins x rs = rs @ [row x]" by (rule assms(2))
  then show ?case using Cons by simp
qed simp

lemma each_inserts:
  "each (\<lambda>d db. Inr (upsert_decade d db)) ds db = (db\<lparr> bk_decades := foldl (\<lambda>rs d. insert_update dc_id (\<lambda>_ d. d) d rs) (bk_decades db) ds \<rparr>, None)"
  "each (\<lambda>(i, w) db. Inr (add_bead_to_thread i w db)) ms db = (db\<lparr> bk_members := foldl (\<lambda>rs m. insert_ignore member_key m rs) (bk_members db) ms \<rparr>, None)"
  "each (\<lambda>p db. Inr (upsert_pipeline ck p db)) ps db
     = (db\<lparr> bk_pipelines := foldl (\<lambda>rs p. insert_replace pipeline_key (pipeline_to_row ck p) rs) (bk_pipelines db) ps \<rparr>, None)"
  "each (\<lambda>d db. Inr (upsert_dispatch ck d db)) xs db
     = (db\<lparr> bk_dispatches := foldl (\<lambda>rs d. insert_update dr_id merge_dispatch (dispatch_to_row ck d) rs) (bk_dispatches db) xs \<rparr>, None)"
  "each (\<lambda>e db. Inr (record_agent_run_event ck e db)) es db
     = (db\<lparr> bk_events := foldl (\<lambda>rs e. insert_ignore rr_id (event_to_row ck e) rs) (bk_events db) es \<rparr>, None)"
  "each (\<lambda>u db. Inr (register_repo u db)) us db = (db\<lparr> bk_repos := foldl (\<lambda>rs u. insert_replace repo_key u rs) (bk_repos db) us \<rparr>, None)"
  by (induction ds arbitrary: db, simp_all add: upsert_decade_def)
    (induction ms arbitrary: db, auto simp: add_bead_to_thread_def,
     induction ps arbitrary: db, auto simp: upsert_pipeline_def,
     induction xs arbitrary: db, auto simp: upsert_dispatch_def,
     induction es arbitrary: db, auto simp: record_agent_run_event_def,
     induction us arbitrary: db, auto simp: register_repo_def)

lemma each_links:
  assumes "unique_keys link_key (bk_links db @ ls)" "unique_keys ll_linear_id (bk_links db @ ls)"
    "\<And>l. l \<in> set ls \<Longrightarrow> wr_scope (ll_bead_ref l) = []"
  shows "each (\<lambda>l db. Inr (upsert_linear_link l db)) ls db = (db\<lparr> bk_links := bk_links db @ ls \<rparr>, None)"
  using assms
proof (induction ls arbitrary: db)
  case (Cons l ls)
  have "link_key l \<notin> link_key ` set (bk_links db)" "ll_linear_id l \<notin> ll_linear_id ` set (bk_links db)"
    using Cons.prems(1,2) by (auto simp: unique_keys_def)
  then have f: "filter (\<lambda>q. link_key q \<noteq> link_key l \<and> ll_linear_id q \<noteq> ll_linear_id l) (bk_links db) = bk_links db"
    by (auto simp: filter_id_conv image_iff)
  have "WorkRef (wr_repo (ll_bead_ref l)) [] (wr_bead_id (ll_bead_ref l)) = ll_bead_ref l"
    using Cons.prems(3) [of l] by (cases "ll_bead_ref l") simp
  then have u: "upsert_linear_link l db = db\<lparr> bk_links := bk_links db @ [l] \<rparr>" by (simp add: upsert_linear_link_def f)
  have "each (\<lambda>l db. Inr (upsert_linear_link l db)) ls (db\<lparr> bk_links := bk_links db @ [l] \<rparr>) = (db\<lparr> bk_links := bk_links db @ [l] @ ls \<rparr>, None)"
    using Cons.IH [of "db\<lparr> bk_links := bk_links db @ [l] \<rparr>"] Cons.prems by simp
  then show ?case by (simp add: u)
qed simp

lemma each_threads:
  assumes "unique_keys tr_id (bk_threads db @ ts)" "tr_decade_id ` set ts \<subseteq> decade_ids db"
  shows "each upsert_thread ts db = (db\<lparr> bk_threads := bk_threads db @ ts \<rparr>, None)"
  using assms
proof (induction ts arbitrary: db)
  case (Cons t ts)
  have "tr_id t \<notin> tr_id ` set (bk_threads db)" using Cons.prems(1) by (auto simp: unique_keys_def)
  then have "upsert_thread t db = Inr (db\<lparr> bk_threads := bk_threads db @ [t] \<rparr>)"
    using Cons.prems(2) by (auto simp: upsert_thread_def get_decade_def row_at_None decade_ids_def fresh_row)
  then show ?case using Cons.IH [of "db\<lparr> bk_threads := bk_threads db @ [t] \<rparr>"] Cons.prems by (simp add: decade_ids_def)
qed simp

lemma stubs_none: "tr_decade_id ` set ts \<subseteq> known \<Longrightarrow> import_stubs known ts db = db"
  by (induction ts) auto

text \<open>Edges without a cycle within a repository can be added one after the other.\<close>

lemma each_dependencies:
  assumes "unique_keys edge_key (bk_edges db @ map (dep_to_row ck) ds)"
    "graphs_acyclic (db\<lparr> bk_edges := bk_edges db @ map (dep_to_row ck) ds \<rparr>)"
  shows "each (backend_add_dependency ck) ds db = (db\<lparr> bk_edges := bk_edges db @ map (dep_to_row ck) ds \<rparr>, None)"
  using assms
proof (induction ds arbitrary: db)
  case (Cons d ds)
  let ?row = "dep_to_row ck d" and ?all = "db\<lparr> bk_edges := bk_edges db @ map (dep_to_row ck) (d # ds) \<rparr>"
  let ?a = "wr_bead_id (cd_from d)" and ?b = "wr_bead_id (cd_to d)" and ?repo = "wr_repo (cd_from d)"
  have ac: "graphs_acyclic db" by (rule graphs_acyclic_mono [OF Cons.prems(2)]) auto
  have "insert (?a, ?b) (repo_graph db ?repo) \<subseteq> repo_graph ?all ?repo" if "wr_repo (cd_from d) = wr_repo (cd_to d)"
    using that by (auto simp: repo_graph_def dep_to_row_def)
  then have "acyclic (insert (?a, ?b) (repo_graph db ?repo))" if "wr_repo (cd_from d) = wr_repo (cd_to d)"
    using that Cons.prems(2) unfolding graphs_acyclic_def by (meson acyclic_subset)
  then obtain db' where "backend_add_dependency ck d db = Inr db'" using add_refuses [OF ac] by blast
  moreover have "edge_key ?row \<notin> edge_key ` set (bk_edges db)" using Cons.prems(1) by (auto simp: unique_keys_def)
  ultimately have db': "backend_add_dependency ck d db = Inr (db\<lparr> bk_edges := bk_edges db @ [?row] \<rparr>)"
    by (auto simp: backend_add_dependency_def fresh_row split: if_splits)
  have "each (backend_add_dependency ck) ds (db\<lparr> bk_edges := bk_edges db @ [?row] \<rparr>)
      = (db\<lparr> bk_edges := bk_edges db @ [?row] @ map (dep_to_row ck) ds \<rparr>, None)"
    using Cons.IH [of "db\<lparr> bk_edges := bk_edges db @ [?row] \<rparr>"] Cons.prems by simp
  then show ?case by (simp add: db')
qed simp

section \<open>What an export reads of rows that were written\<close>

lemma zip_opt_back: "zip_opt (map_option fst s) (map_option snd s) = s"
  by (cases s) auto

lemma rows_read_back:
  assumes "\<And>t. bc_parse ck (bc_fmt ck t) = Some t"
  shows "r \<in> pipeline_to_row ck ` Collect fits_columns \<Longrightarrow> \<exists>p. row_to_pipeline ck r = Some p \<and> fits_columns p \<and> pipeline_to_row ck p = r"
    "r' \<in> range (dispatch_to_row ck) \<Longrightarrow> \<exists>d. row_to_dispatch ck r' = Some d \<and> dispatch_to_row ck d = r'"
    "r'' \<in> range (event_to_row ck) \<Longrightarrow> \<exists>e. row_to_event ck r'' = Some e \<and> event_to_row ck e = r''"
proof -
  assume "r \<in> pipeline_to_row ck ` Collect fits_columns"
  then obtain p where p: "fits_columns p" "r = pipeline_to_row ck p" by auto
  moreover have "fits_columns (without_scope p)" "pipeline_to_row ck (without_scope p) = pipeline_to_row ck p"
    using p(1) by (simp_all add: fits_columns_def without_scope_def pipeline_to_row_def)
  ultimately show "\<exists>p. row_to_pipeline ck r = Some p \<and> fits_columns p \<and> pipeline_to_row ck p = r"
    using row_reads_back [OF p(1) assms] by auto
next
  assume "r' \<in> range (dispatch_to_row ck)"
  then obtain d where "r' = dispatch_to_row ck d" by auto
  then show "\<exists>d. row_to_dispatch ck r' = Some d \<and> dispatch_to_row ck d = r'"
    by (simp add: row_to_dispatch_def dispatch_to_row_def assms instant_reads_back [OF assms] zip_opt_back)
next
  assume "r'' \<in> range (event_to_row ck)"
  then obtain e where "r'' = event_to_row ck e" by auto
  then show "\<exists>e. row_to_event ck r'' = Some e \<and> event_to_row ck e = r''"
    by (simp add: row_to_event_def event_to_row_def assms zip_opt_back)
qed

lemma read_rows_back:
  assumes "\<And>r. r \<in> set rs \<Longrightarrow> \<exists>x. f r = Some x \<and> P x \<and> g x = r"
  obtains xs where "read_rows f rs = Inr xs" "map g xs = rs" "\<And>x. x \<in> set xs \<Longrightarrow> P x"
proof -
  have ok: "f r \<noteq> None" if "r \<in> set rs" for r using assms [OF that] by auto
  have "P (the (f r)) \<and> g (the (f r)) = r" if "r \<in> set rs" for r using assms [OF that] by auto
  then have "map g (map (\<lambda>r. the (f r)) rs) = rs" "\<And>x. x \<in> set (map (\<lambda>r. the (f r)) rs) \<Longrightarrow> P x"
    by (auto simp: map_idI)
  then show thesis using that [of "map (\<lambda>r. the (f r)) rs"] by (simp add: read_rows_def read_all_total [OF ok])
qed

section \<open>Migration into an empty store\<close>

text \<open>What the migrated store is: the tables in the order of the export, the edges with a new instant.\<close>

definition migrated :: "backend_clock \<Rightarrow> backend_db \<Rightarrow> backend_db" where
  "migrated ck db = db\<lparr> bk_threads := all_threads db, bk_members := all_thread_members db,
     bk_dispatches := sort_key dr_started (bk_dispatches db),
     bk_events := sort_key (\<lambda>r. (rr_created r, rr_id r)) (bk_events db),
     bk_edges := map (\<lambda>e. e\<lparr> eg_observed := bc_sql_now ck \<rparr>) (bk_edges db) \<rparr>"

lemma unique_sort: "unique_keys key rs \<Longrightarrow> unique_keys key (sort_key f rs)"
  unfolding unique_keys_def by (simp add: distinct_map)

lemma dep_row_back:
  assumes "eg_tier e \<in> range tier_as_str"
  shows "dep_to_row ck (row_to_dep ck e) = e\<lparr> eg_observed := bc_sql_now ck \<rparr>"
  using assms by (cases e) (auto simp: dep_to_row_def row_to_dep_def tier_roundtrip)

lemma import_exported:
  assumes clock: "\<And>t. bc_parse ck (bc_fmt ck t) = Some t" and ok: "backend_ok db" and written: "rows_written ck db"
  obtains snap where "export_snapshot ck provider db = Inr snap" "import_snapshot ck snap empty_backend = (migrated ck db, None)"
    "\<And>p. p \<in> set (sn_pipelines snap) \<Longrightarrow> fits_columns p"
proof -
  have w: "set (bk_pipelines db) \<subseteq> pipeline_to_row ck ` Collect fits_columns" "set (bk_dispatches db) \<subseteq> range (dispatch_to_row ck)"
    "set (bk_events db) \<subseteq> range (event_to_row ck)" "eg_tier ` set (bk_edges db) \<subseteq> range tier_as_str"
    "\<And>l. l \<in> set (bk_links db) \<Longrightarrow> wr_scope (ll_bead_ref l) = []"
    using written by (auto simp: rows_written_def)
  note reads = rows_read_back [OF clock]
  obtain ps where ps: "list_active_pipelines ck db = Inr ps" "map (pipeline_to_row ck) ps = bk_pipelines db" "\<And>p. p \<in> set ps \<Longrightarrow> fits_columns p"
    unfolding list_active_pipelines_def
    by (rule read_rows_back [of "bk_pipelines db" "row_to_pipeline ck" fits_columns "pipeline_to_row ck"]) (use w(1) reads(1) in blast, blast)
  obtain ds where ds: "all_dispatches ck db = Inr ds" "map (dispatch_to_row ck) ds = sort_key dr_started (bk_dispatches db)"
    unfolding all_dispatches_def
    by (rule read_rows_back [of "sort_key dr_started (bk_dispatches db)" "row_to_dispatch ck" "\<lambda>_. True" "dispatch_to_row ck"])
      (use w(2) reads(2) in auto)
  obtain es where es: "all_agent_run_events ck db = Inr es" "map (event_to_row ck) es = sort_key (\<lambda>r. (rr_created r, rr_id r)) (bk_events db)"
    unfolding all_agent_run_events_def
    by (rule read_rows_back [of "sort_key (\<lambda>r. (rr_created r, rr_id r)) (bk_events db)" "row_to_event ck" "\<lambda>_. True" "event_to_row ck"])
      (use w(3) reads(3) in auto)
  let ?snap = "\<lparr> sn_version = 1, sn_created_at = bc_now ck, sn_source_provider = provider,
    sn_decades = bk_decades db, sn_threads = all_threads db, sn_thread_members = all_thread_members db,
    sn_pipelines = ps, sn_dispatches = ds, sn_agent_run_events = es, sn_dependencies = all_dependencies ck db,
    sn_linear_links = bk_links db, sn_user_repos = bk_repos db \<rparr>"
  have snap: "export_snapshot ck provider db = Inr ?snap"
    by (simp add: export_snapshot_def ps ds es list_decades_def all_linear_links_def all_user_repos_def)
  have k: "unique_keys dc_id (bk_decades db)" "unique_keys tr_id (bk_threads db)"
     "unique_keys member_key (bk_members db)" "unique_keys pipeline_key (bk_pipelines db)"
     "unique_keys dr_id (bk_dispatches db)" "unique_keys rr_id (bk_events db)" "unique_keys edge_key (bk_edges db)"
     "unique_keys link_key (bk_links db)" "unique_keys ll_linear_id (bk_links db)" "unique_keys repo_key (bk_repos db)"
    using ok by (simp_all add: backend_ok_def keys_unique_def)
  have roots: "tr_decade_id ` set (all_threads db) \<subseteq> dc_id ` set (bk_decades db)"
    using ok by (auto simp: backend_ok_def threads_rooted_def all_threads_def)
  have edges: "map (dep_to_row ck) (all_dependencies ck db) = map (\<lambda>e. e\<lparr> eg_observed := bc_sql_now ck \<rparr>) (bk_edges db)"
    using w(4) by (auto simp: all_dependencies_def image_subset_iff intro!: dep_row_back)
  have f: "foldl (\<lambda>rs d. insert_update dc_id (\<lambda>_ d. d) d rs) [] (bk_decades db) = bk_decades db"
    "foldl (\<lambda>rs m. insert_ignore member_key m rs) [] (all_thread_members db) = all_thread_members db"
    "foldl (\<lambda>rs p. insert_replace pipeline_key (pipeline_to_row ck p) rs) [] ps = bk_pipelines db"
    "foldl (\<lambda>rs d. insert_update dr_id merge_dispatch (dispatch_to_row ck d) rs) [] ds = sort_key dr_started (bk_dispatches db)"
    "foldl (\<lambda>rs e. insert_ignore rr_id (event_to_row ck e) rs) [] es = sort_key (\<lambda>r. (rr_created r, rr_id r)) (bk_events db)"
    "foldl (\<lambda>rs u. insert_replace repo_key u rs) [] (bk_repos db) = bk_repos db"
    using fill_table [of dc_id "[]" "\<lambda>d. d" "bk_decades db" "insert_update dc_id (\<lambda>_ d. d)"]
      fill_table [of member_key "[]" "\<lambda>d. d" "all_thread_members db" "insert_ignore member_key"]
      fill_table [of pipeline_key "[]" "pipeline_to_row ck" ps "\<lambda>p. insert_replace pipeline_key (pipeline_to_row ck p)"]
      fill_table [of dr_id "[]" "dispatch_to_row ck" ds "\<lambda>d. insert_update dr_id merge_dispatch (dispatch_to_row ck d)"]
      fill_table [of rr_id "[]" "event_to_row ck" es "\<lambda>e. insert_ignore rr_id (event_to_row ck e)"]
      fill_table [of repo_key "[]" "\<lambda>d. d" "bk_repos db" "insert_replace repo_key"] k
    by (simp_all add: fresh_row ps(2) ds(2) es(2) all_thread_members_def unique_sort)
  let ?d1 = "empty_backend\<lparr> bk_decades := bk_decades db \<rparr>" let ?d2 = "?d1\<lparr> bk_threads := all_threads db \<rparr>"
  let ?d6 = "?d2\<lparr> bk_members := all_thread_members db, bk_pipelines := bk_pipelines db,
    bk_dispatches := sort_key dr_started (bk_dispatches db), bk_events := sort_key (\<lambda>r. (rr_created r, rr_id r)) (bk_events db) \<rparr>"
  let ?d7 = "?d6\<lparr> bk_edges := map (\<lambda>e. e\<lparr> eg_observed := bc_sql_now ck \<rparr>) (bk_edges db) \<rparr>"
  have threads: "each upsert_thread (all_threads db) ?d1 = (?d2, None)"
    using each_threads [of ?d1 "all_threads db"] k(2) roots by (simp add: empty_backend_def decade_ids_def all_threads_def unique_sort)
  have ek: "edge_key (e\<lparr> eg_observed := t \<rparr>) = edge_key e" for e t by (simp add: edge_key_def)
  have "graphs_acyclic ?d7"
    by (rule graphs_acyclic_mono [of db]) (use ok ek in \<open>auto simp: backend_ok_def\<close>)
  moreover have "unique_keys edge_key (map (\<lambda>e. e\<lparr> eg_observed := bc_sql_now ck \<rparr>) (bk_edges db))"
    using k(7) by (simp add: unique_keys_def comp_def ek)
  ultimately have deps: "each (backend_add_dependency ck) (all_dependencies ck db) ?d6 = (?d7, None)"
    using each_dependencies [of ?d6 ck "all_dependencies ck db"] by (simp add: edges empty_backend_def)
  have links: "each (\<lambda>l db. Inr (upsert_linear_link l db)) (bk_links db) ?d7 = (?d7\<lparr> bk_links := bk_links db \<rparr>, None)"
    using each_links [of ?d7 "bk_links db"] k(8,9) w(5) by (simp add: empty_backend_def)
  have final: "?d7\<lparr> bk_links := bk_links db, bk_repos := bk_repos db \<rparr> = migrated ck db"
    by (simp add: migrated_def empty_backend_def)
  have e: "bk_decades empty_backend = []" "bk_members empty_backend = []" "bk_pipelines empty_backend = []" "bk_dispatches empty_backend = []"
    "bk_events empty_backend = []" "bk_repos empty_backend = []"
    by (simp_all add: empty_backend_def)
  have "import_snapshot ck ?snap empty_backend = (migrated ck db, None)"
    unfolding import_snapshot_def and_then_def
    by (simp add: stubs_none [OF roots] each_inserts e f threads deps links final)
  then show thesis using snap that [of ?snap] ps(3) by simp
qed

lemma read_rows_length: "read_rows f rs = Inr xs \<Longrightarrow> length xs = length rs"
proof (induction rs arbitrary: xs)
  case (Cons r rs)
  then show ?case by (cases "read_all f rs") (auto simp: read_rows_def split: option.splits)
qed (simp add: read_rows_def)

lemma export_counts:
  assumes "export_snapshot ck provider db = Inr s"
  shows "snapshot_counts s = \<lparr> tc_decades = length (bk_decades db), tc_threads = length (bk_threads db),
       tc_thread_members = length (bk_members db), tc_pipelines = length (bk_pipelines db),
       tc_dispatches = length (bk_dispatches db), tc_agent_run_events = length (bk_events db),
       tc_dependencies = length (bk_edges db), tc_linear_links = length (bk_links db), tc_user_repos = length (bk_repos db) \<rparr>"
  using assms
  by (auto simp: export_snapshot_def snapshot_counts_def list_decades_def all_threads_def all_thread_members_def
      all_dependencies_def all_linear_links_def all_user_repos_def list_active_pipelines_def all_dispatches_def
      all_agent_run_events_def dest!: read_rows_length split: sum.splits)

text \<open>
  C29. The store that the program has written is migrated into an empty one without an error and verified: decades,
  pipelines, links and repositories are the same rows, threads, members, dispatches and events the same in the
  order of the export, and the dependencies the same but for the instant at which they were observed.
\<close>

theorem migration_reproduces_the_store:
  assumes "\<And>t. bc_parse ck (bc_fmt ck t) = Some t" "(backend_step ck)\<^sup>*\<^sup>* empty_backend db"
  shows "\<exists>report. migrate ck save db empty_backend provider None = (migrated ck db, Inr report)
    \<and> mr_verified report \<and> mr_target_counts report = mr_source_counts report"
proof -
  obtain snap where snap: "export_snapshot ck provider db = Inr snap" "import_snapshot ck snap empty_backend = (migrated ck db, None)"
    "\<And>p. p \<in> set (sn_pipelines snap) \<Longrightarrow> fits_columns p"
    using import_exported [OF assms(1) written_from_empty(2,1) [OF assms(2)]] by blast
  have "(backend_step ck)\<^sup>*\<^sup>* empty_backend (migrated ck db)"
    using import_steps [where s = snap and ck = ck and db = empty_backend, OF snap(3)] by (simp add: snap(2))
  then obtain snap' where snap': "export_snapshot ck ''verify'' (migrated ck db) = Inr snap'"
    using import_exported [OF assms(1)] written_from_empty by metis
  have "snapshot_counts snap' = snapshot_counts snap"
    by (simp add: export_counts [OF snap(1)] export_counts [OF snap'] migrated_def all_threads_def all_thread_members_def)
  then show ?thesis by (simp add: migrate_def snap(1,2) snap' migrate_verified_def)
qed

text \<open>A store with a bead in the thread of a decade, its pipeline and a dependency.\<close>

definition sample_backend :: backend_db where
  "sample_backend = upsert_pipeline letter_clock (sample_pipeline ''pending'') (add_bead_to_thread ''d/t'' (WorkRef ''r'' [] ''a'')
     (upsert_decade (stub_decade ''d'') empty_backend))"

lemma sample_backend_written: "(backend_step letter_clock)\<^sup>*\<^sup>* empty_backend sample_backend"
proof -
  have "fits_columns (sample_pipeline ''pending'')" by (simp add: sample_pipeline_def fits_columns_def)
  then show ?thesis unfolding sample_backend_def
    by (meson backend_step.decade backend_step.member backend_step.pipeline rtranclp.intros)
qed

theorem migration_reproduces_the_store_witness:
  "\<exists>report. migrate letter_clock (\<lambda>_ _. False) sample_backend empty_backend ''sqlite'' None = (sample_backend, Inr report) \<and> mr_verified report"
proof -
  have "migrated letter_clock sample_backend = sample_backend"
    by (simp add: migrated_def sample_backend_def upsert_pipeline_def add_bead_to_thread_def upsert_decade_def empty_backend_def
        insert_update_def insert_ignore_def insert_replace_def has_key_def all_threads_def all_thread_members_def)
  then show ?thesis
    using migration_reproduces_the_store [OF letter_clock_reads_back sample_backend_written, of "\<lambda>_ _. False" "''sqlite''"] by auto
qed

definition cyclic_snapshot :: backend_snapshot where
  "cyclic_snapshot = \<lparr> sn_version = 1, sn_created_at = 0, sn_source_provider = ''dolt'', sn_decades = [],
     sn_threads = [\<lparr> tr_id = ''m/t'', tr_name = ''T'', tr_decade_id = ''m'', tr_feature_branch = None \<rparr>], sn_thread_members = [],
     sn_pipelines = [], sn_dispatches = [], sn_agent_run_events = [],
     sn_dependencies = [sample_dep ''a'' ''b'', sample_dep ''b'' ''a''], sn_linear_links = [], sn_user_repos = [] \<rparr>"

theorem import_stops_only_at_cycles_witness:
  "snd (import_snapshot letter_clock cyclic_snapshot empty_backend) = Some (CycleRefused (WorkRef ''r'' [] ''b'') (WorkRef ''r'' [] ''a''))
     \<and> backend_ok (fst (import_snapshot letter_clock cyclic_snapshot empty_backend))"
proof -
  have "snd (import_snapshot letter_clock cyclic_snapshot empty_backend) = Some (CycleRefused (WorkRef ''r'' [] ''b'') (WorkRef ''r'' [] ''a''))"
    by (simp add: import_snapshot_def cyclic_snapshot_def and_then_def upsert_decade_def stub_decade_def insert_update_def has_key_def
        empty_backend_def upsert_thread_def get_decade_def row_at_def backend_add_dependency_def sample_dep_def dep_to_row_def
        sqlite_dfs_can_reach_def repo_edges_def successors_def insert_replace_def)
  moreover have "backend_ok (fst (import_snapshot letter_clock cyclic_snapshot empty_backend))"
    using import_stops_only_at_cycles [of letter_clock empty_backend cyclic_snapshot] by (simp add: cyclic_snapshot_def)
  ultimately show ?thesis by blast
qed

end
