(* ===== verification/Observation_Store.thy ===== *)
theory Observation_Store
  imports Observation_Lattice Provenance Keyed_Tables "HOL-Library.Countable"
begin

text \<open>
  The observation log in SQLite (\<open>src/observation/log_sqlite.rs\<close>) and the quarantine of observations whose
  certificate was refused (\<open>src/observation/quarantine.rs\<close>); the table refines the log in memory, whatever is
  put into quarantine.

  serde's printer and reader, the formats of instants and the clock are in the record \<open>obs_codec\<close>.
\<close>

section \<open>Quarantine\<close>

datatype quarantine_reason = InvalidCert string | OtherReason string string

record quarantine_entry =
  qe_observation :: observation
  qe_reason :: quarantine_reason
  qe_quarantined_at :: int

type_synonym quarantine_log = "quarantine_entry list"

definition quarantine_add :: "int \<Rightarrow> observation \<Rightarrow> quarantine_reason \<Rightarrow> quarantine_log \<Rightarrow> quarantine_log" where
  "quarantine_add now ob reason q = q @ [\<lparr> qe_observation = ob, qe_reason = reason, qe_quarantined_at = now \<rparr>]"

definition iter_quarantined :: "quarantine_log \<Rightarrow> quarantine_entry list" where
  "iter_quarantined q = q"

text \<open>No certificate is verified yet: every observation passes.\<close>

definition validate_cert :: "observation \<Rightarrow> quarantine_reason + unit" where
  "validate_cert ob = Inr ()"

section \<open>Tables\<close>

record obs_codec =
  oc_field :: "field_name \<Rightarrow> string"
  oc_field_in :: "string \<Rightarrow> field_name option"
  oc_value :: "field_value \<Rightarrow> string"
  oc_value_in :: "string \<Rightarrow> field_value option"
  oc_cert :: "signet_cert \<Rightarrow> string"
  oc_cert_in :: "string \<Rightarrow> signet_cert option"
  oc_obs :: "observation \<Rightarrow> string"
  oc_obs_in :: "string \<Rightarrow> observation option"
  oc_reason :: "quarantine_reason \<Rightarrow> string"
  oc_reason_in :: "string \<Rightarrow> quarantine_reason option"
  oc_fmt :: "int \<Rightarrow> string"
  oc_parse :: "string \<Rightarrow> int option"
  oc_parse_naive :: "string \<Rightarrow> int option"
  oc_now :: int

record observation_row =
  ow_work :: work_ref
  ow_source :: string
  ow_source_event_id :: string
  ow_field :: string
  ow_value_json :: string
  ow_observed_at :: string
  ow_cert_json :: "string option"
  ow_payload_hash :: string

record quarantine_row =
  qw_observation_json :: string
  qw_reason_json :: string
  qw_quarantined_at :: string

record observation_db =
  os_observations :: "observation_row list"
  os_quarantine :: "quarantine_row list"

definition empty_observation_db :: observation_db where
  "empty_observation_db = \<lparr> os_observations = [], os_quarantine = [] \<rparr>"

text \<open>The unique index.\<close>

definition row_dedup :: "observation_row \<Rightarrow> string \<times> string \<times> string" where
  "row_dedup r = (ow_source r, ow_source_event_id r, ow_payload_hash r)"

definition observation_to_row :: "obs_codec \<Rightarrow> observation \<Rightarrow> observation_row" where
  "observation_to_row c ob =
     \<lparr> ow_work = ob_work_item ob, ow_source = ob_source ob, ow_source_event_id = ob_source_event_id ob,
       ow_field = oc_field c (ob_field ob), ow_value_json = oc_value c (ob_value ob),
       ow_observed_at = oc_fmt c (ob_observed_at ob), ow_cert_json = map_option (oc_cert c) (ob_cert ob),
       ow_payload_hash = ob_payload_hash ob \<rparr>"

text \<open>A source is brought into its canonical form, an instant that cannot be read is the current one.\<close>

definition row_to_observation :: "obs_codec \<Rightarrow> observation_row \<Rightarrow> observation option" where
  "row_to_observation c r =
     (case oc_value_in c (ow_value_json r) of None \<Rightarrow> None | Some v \<Rightarrow>
     (case oc_field_in c (ow_field r) of None \<Rightarrow> None | Some f \<Rightarrow>
     (case (case ow_cert_json r of None \<Rightarrow> Some None | Some s \<Rightarrow> map_option Some (oc_cert_in c s)) of None \<Rightarrow> None | Some cert \<Rightarrow>
        Some \<lparr> ob_work_item = ow_work r, ob_source = canonicalize_source (ow_source r),
               ob_source_event_id = ow_source_event_id r, ob_field = f, ob_value = v,
               ob_observed_at = (case oc_parse c (ow_observed_at r) of None \<Rightarrow> oc_now c | Some t \<Rightarrow> t),
               ob_cert = cert, ob_payload_hash = ow_payload_hash r \<rparr>)))"

section \<open>Operations\<close>

text \<open>\<open>INSERT OR IGNORE\<close>, and whether a row was inserted.\<close>

definition sqlite_log_insert :: "obs_codec \<Rightarrow> observation \<Rightarrow> observation_db \<Rightarrow> bool \<times> observation_db" where
  "sqlite_log_insert c ob db =
     (\<not> has_key row_dedup (row_dedup (observation_to_row c ob)) (os_observations db),
      db\<lparr> os_observations := insert_ignore row_dedup (observation_to_row c ob) (os_observations db) \<rparr>)"

text \<open>\<open>sql_now\<close> is the text of the column's default, \<open>datetime('now')\<close>.\<close>

definition sqlite_quarantine :: "obs_codec \<Rightarrow> string \<Rightarrow> observation \<Rightarrow> quarantine_reason \<Rightarrow> observation_db \<Rightarrow> observation_db" where
  "sqlite_quarantine c sql_now ob reason db = db\<lparr> os_quarantine := os_quarantine db
     @ [\<lparr> qw_observation_json = oc_obs c ob, qw_reason_json = oc_reason c reason, qw_quarantined_at = sql_now \<rparr>] \<rparr>"

definition sqlite_log_len :: "observation_db \<Rightarrow> nat" where
  "sqlite_log_len db = length (os_observations db)"

definition row_order :: "observation_row \<Rightarrow> string \<times> string \<times> string" where
  "row_order r = (ow_observed_at r, ow_source r, ow_source_event_id r)"

definition sqlite_for_field :: "obs_codec \<Rightarrow> observation_db \<Rightarrow> work_ref \<Rightarrow> field_name \<Rightarrow> observation list option" where
  "sqlite_for_field c db work field =
     read_all (row_to_observation c)
       (sort_key row_order (filter (\<lambda>r. ow_work r = work \<and> ow_field r = oc_field c field) (os_observations db)))"

definition sqlite_for_work_item :: "obs_codec \<Rightarrow> observation_db \<Rightarrow> work_ref \<Rightarrow> observation list option" where
  "sqlite_for_work_item c db work =
     read_all (row_to_observation c) (sort_key row_order (filter (\<lambda>r. ow_work r = work) (os_observations db)))"

definition quarantine_time :: "obs_codec \<Rightarrow> string \<Rightarrow> int" where
  "quarantine_time c s =
     (case oc_parse c s of Some t \<Rightarrow> t | None \<Rightarrow> (case oc_parse_naive c s of Some t \<Rightarrow> t | None \<Rightarrow> oc_now c))"

definition row_to_quarantined :: "obs_codec \<Rightarrow> quarantine_row \<Rightarrow> quarantine_entry option" where
  "row_to_quarantined c r =
     (case oc_obs_in c (qw_observation_json r) of None \<Rightarrow> None | Some ob \<Rightarrow>
     (case oc_reason_in c (qw_reason_json r) of None \<Rightarrow> None | Some reason \<Rightarrow>
        Some \<lparr> qe_observation = ob, qe_reason = reason, qe_quarantined_at = quarantine_time c (qw_quarantined_at r) \<rparr>))"

definition sqlite_iter_quarantined :: "obs_codec \<Rightarrow> observation_db \<Rightarrow> quarantine_entry list option" where
  "sqlite_iter_quarantined c db = read_all (row_to_quarantined c) (sort_key qw_quarantined_at (os_quarantine db))"

section \<open>The table refines the log\<close>

text \<open>What serde and chrono promise: what is printed is read again.\<close>

definition codec_ok :: "obs_codec \<Rightarrow> bool" where
  "codec_ok c \<longleftrightarrow>
     (\<forall>f. oc_field_in c (oc_field c f) = Some f) \<and> (\<forall>v. oc_value_in c (oc_value c v) = Some v)
     \<and> (\<forall>s. oc_cert_in c (oc_cert c s) = Some s) \<and> (\<forall>ob. oc_obs_in c (oc_obs c ob) = Some ob)
     \<and> (\<forall>r. oc_reason_in c (oc_reason c r) = Some r) \<and> (\<forall>t. oc_parse c (oc_fmt c t) = Some t)"

lemma field_text: "codec_ok c \<Longrightarrow> oc_field c f = oc_field c g \<longleftrightarrow> f = g"
  unfolding codec_ok_def by (metis option.inject)

lemma observation_reads_back:
  assumes "codec_ok c" "canonicalize_source (ob_source ob) = ob_source ob"
  shows "row_to_observation c (observation_to_row c ob) = Some ob"
  using assms by (cases "ob_cert ob") (simp_all add: row_to_observation_def observation_to_row_def codec_ok_def)

text \<open>
  What a run of the intake does: an observation is inserted (\<open>Inl\<close>) or put into quarantine (\<open>Inr\<close>, with the
  text of the instant); and the same with the log in memory.
\<close>

definition sqlite_step :: "obs_codec \<Rightarrow> observation_db \<Rightarrow> observation + (string \<times> observation \<times> quarantine_reason) \<Rightarrow> observation_db" where
  "sqlite_step c db e = (case e of Inl ob \<Rightarrow> snd (sqlite_log_insert c ob db) | Inr (now, ob, reason) \<Rightarrow> sqlite_quarantine c now ob reason db)"

definition memory_step :: "obs_codec \<Rightarrow> observation_log \<times> quarantine_log \<Rightarrow> observation + (string \<times> observation \<times> quarantine_reason)
    \<Rightarrow> observation_log \<times> quarantine_log" where
  "memory_step c lq e =
     (case e of Inl ob \<Rightarrow> (snd (log_insert ob (fst lq)), snd lq)
      | Inr (now, ob, reason) \<Rightarrow> (fst lq, quarantine_add (quarantine_time c now) ob reason (snd lq)))"

section \<open>Refinement\<close>

definition log_matches :: "obs_codec \<Rightarrow> observation_row list \<Rightarrow> observation_log \<Rightarrow> bool" where
  "log_matches c rs l \<longleftrightarrow> bt_ok l \<and> map fst l = map (\<lambda>e. dedup_key (snd e)) l \<and> mset rs = mset (map (observation_to_row c) (log_iter l))"

lemma mset_bt_insert: "k \<notin> fst ` set m \<Longrightarrow> mset (bt_insert k v m) = add_mset (k, v) (mset m)"
  by (induction k v m rule: bt_insert.induct) (auto simp: image_iff)

lemma bt_insert_labels:
  "map fst m = map (\<lambda>e. g (snd e)) m \<Longrightarrow> k = g v \<Longrightarrow> map fst (bt_insert k v m) = map (\<lambda>e. g (snd e)) (bt_insert k v m)"
  by (induction k v m rule: bt_insert.induct) auto

lemma same_keys:
  assumes "log_matches c rs l"
  shows "has_key row_dedup (row_dedup (observation_to_row c ob)) rs \<longleftrightarrow> map_of l (dedup_key ob) \<noteq> None"
proof -
  have "fst ` set l = dedup_key ` set (log_iter l)"
    using arg_cong [of _ _ set, OF conjunct1 [OF conjunct2 [OF assms [unfolded log_matches_def]]]]
    by (simp add: log_iter_def image_image)
  moreover have "set rs = observation_to_row c ` set (log_iter l)"
    using assms unfolding log_matches_def by (metis mset_eq_setD set_map)
  moreover have "row_dedup (observation_to_row c ob) = dedup_key ob" for ob
    by (simp add: row_dedup_def observation_to_row_def dedup_key_def)
  ultimately show ?thesis by (simp add: has_key_iff image_image map_of_eq_None_iff)
qed

lemma insert_matches:
  assumes "log_matches c (os_observations db) l"
  shows "log_matches c (os_observations (snd (sqlite_log_insert c ob db))) (snd (log_insert ob l))"
    "fst (sqlite_log_insert c ob db) = fst (log_insert ob l)"
proof -
  let ?k = "dedup_key ob" and ?rs = "os_observations db"
  show "fst (sqlite_log_insert c ob db) = fst (log_insert ob l)"
    using same_keys [OF assms] by (auto simp: sqlite_log_insert_def log_insert_def Let_def split: option.split)
  show "log_matches c (os_observations (snd (sqlite_log_insert c ob db))) (snd (log_insert ob l))"
  proof (cases "map_of l ?k")
    case None
    then have k: "?k \<notin> fst ` set l" by (simp add: map_of_eq_None_iff)
    have "\<not> has_key row_dedup (row_dedup (observation_to_row c ob)) ?rs" using same_keys [OF assms] None by simp
    then have "os_observations (snd (sqlite_log_insert c ob db)) = ?rs @ [observation_to_row c ob]"
      by (simp add: sqlite_log_insert_def insert_ignore_def)
    moreover have "snd (log_insert ob l) = bt_insert ?k ob l" using None by (simp add: log_insert_def)
    ultimately show ?thesis
      using assms bt_ok_insert [of l ?k ob] bt_insert_labels [of l dedup_key ?k ob] mset_bt_insert [OF k, of ob]
      by (simp add: log_matches_def log_iter_def)
  next
    case (Some o1)
    then have "has_key row_dedup (row_dedup (observation_to_row c ob)) ?rs" using same_keys [OF assms] by simp
    then show ?thesis using Some assms by (simp add: sqlite_log_insert_def insert_ignore_def log_insert_def)
  qed
qed

definition canonical_intake :: "(observation + (string \<times> observation \<times> quarantine_reason)) list \<Rightarrow> bool" where
  "canonical_intake es \<longleftrightarrow> list_all (\<lambda>e. case e of Inl ob \<Rightarrow> canonicalize_source (ob_source ob) = ob_source ob | Inr _ \<Rightarrow> True) es"

definition ingested :: "(observation + (string \<times> observation \<times> quarantine_reason)) list \<Rightarrow> observation list" where
  "ingested es = List.map_filter (\<lambda>e. case e of Inl ob \<Rightarrow> Some ob | Inr _ \<Rightarrow> None) es"

lemma intake_steps:
  "sqlite_step c db (Inl ob) = snd (sqlite_log_insert c ob db)"
  "sqlite_step c db (Inr (now, ob, reason)) = sqlite_quarantine c now ob reason db"
  "memory_step c (l, q) (Inl ob) = (snd (log_insert ob l), q)"
  "memory_step c (l, q) (Inr (now, ob, reason)) = (l, quarantine_add (quarantine_time c now) ob reason q)"
  by (simp_all add: sqlite_step_def memory_step_def)

lemma ingested_simps [simp]:
  "ingested [] = []" "ingested (Inl ob # es) = ob # ingested es" "ingested (Inr x # es) = ingested es"
  by (simp_all add: ingested_def List.map_filter_def)

lemma steps_match:
  assumes "log_matches c (os_observations db) l"
  shows "log_matches c (os_observations (foldl (sqlite_step c) db es)) (fst (foldl (memory_step c) (l, q) es))
    \<and> fst (foldl (memory_step c) (l, q) es) = foldl (\<lambda>l ob. snd (log_insert ob l)) l (ingested es)"
  using assms
proof (induction es arbitrary: db l q)
  case (Cons e es)
  show ?case
  proof (cases e)
    case (Inl ob)
    show ?thesis unfolding Inl foldl_Cons intake_steps ingested_simps
      by (rule Cons.IH [OF insert_matches(1) [OF Cons.prems]])
  next
    case (Inr x)
    obtain now ob reason where x: "x = (now, ob, reason)" by (cases x)
    have "log_matches c (os_observations (sqlite_quarantine c now ob reason db)) l" using Cons.prems by (simp add: sqlite_quarantine_def)
    then show ?thesis unfolding Inr x foldl_Cons intake_steps ingested_simps by (rule Cons.IH)
  qed
qed simp

lemma quarantine_match:
  assumes "codec_ok c" "map (row_to_quarantined c) (os_quarantine db) = map Some q"
  shows "map (row_to_quarantined c) (os_quarantine (foldl (sqlite_step c) db es)) = map Some (snd (foldl (memory_step c) (l, q) es))"
  using assms(2)
proof (induction es arbitrary: db l q)
  case (Cons e es)
  show ?case
  proof (cases e)
    case (Inl ob)
    have "map (row_to_quarantined c) (os_quarantine (sqlite_step c db e)) = map Some q"
      using Cons.prems Inl by (simp add: intake_steps sqlite_log_insert_def)
    then show ?thesis using Cons.IH Inl by (simp add: intake_steps)
  next
    case (Inr x)
    obtain now ob reason where x: "x = (now, ob, reason)" by (cases x)
    have row: "row_to_quarantined c \<lparr> qw_observation_json = oc_obs c ob, qw_reason_json = oc_reason c reason, qw_quarantined_at = now \<rparr>
        = Some \<lparr> qe_observation = ob, qe_reason = reason, qe_quarantined_at = quarantine_time c now \<rparr>"
      using assms(1) by (simp add: row_to_quarantined_def codec_ok_def)
    have "map (row_to_quarantined c) (os_quarantine (sqlite_step c db e))
        = map Some (quarantine_add (quarantine_time c now) ob reason q)"
      using Cons.prems row by (simp add: Inr x intake_steps sqlite_quarantine_def quarantine_add_def)
    then show ?thesis using Cons.IH Inr x by (simp add: intake_steps)
  qed
qed simp

lemma read_all_mset:
  assumes "mset rs = mset (map g xs)" "\<And>x. x \<in> set xs \<Longrightarrow> f (g x) = Some x"
  shows "\<exists>ys. read_all f rs = Some ys \<and> mset ys = mset xs"
proof -
  have ok: "f r \<noteq> None" if "r \<in> set rs" for r
  proof -
    have "r \<in> g ` set xs" using that assms(1) by (metis mset_eq_setD set_map)
    then show ?thesis using assms(2) by auto
  qed
  have "mset (map (\<lambda>r. the (f r)) rs) = image_mset (\<lambda>r. the (f r)) (mset (map g xs))" by (metis assms(1) mset_map)
  also have "\<dots> = mset (map (\<lambda>x. the (f (g x))) xs)" by (simp add: image_mset.compositionality comp_def)
  also have "map (\<lambda>x. the (f (g x))) xs = xs" using assms(2) by (simp add: map_idI)
  finally show ?thesis by (simp add: read_all_total [OF ok])
qed

lemma read_all_permuted:
  assumes "map f rs = map Some q" "mset rs' = mset rs"
  shows "\<exists>ys. read_all f rs' = Some ys \<and> mset ys = mset q"
proof -
  have ok: "f r \<noteq> None" if "r \<in> set rs'" for r
  proof -
    have "f r \<in> set (map f rs)" using that mset_eq_setD [OF assms(2)] by simp
    then show ?thesis unfolding assms(1) by auto
  qed
  have "mset (map (\<lambda>r. the (f r)) rs') = mset (map the (map f rs))"
    by (metis (no_types, lifting) assms(2) comp_def map_eq_conv map_map mset_map)
  then have "mset (map (\<lambda>r. the (f r)) rs') = mset q" unfolding assms(1) by (simp add: comp_def)
  then show ?thesis by (simp add: read_all_total [OF ok])
qed

lemma query_matches:
  assumes "codec_ok c" "log_matches c rs l" "\<And>ob. ob \<in> set (log_iter l) \<Longrightarrow> canonicalize_source (ob_source ob) = ob_source ob"
    "\<And>ob. p (observation_to_row c ob) \<longleftrightarrow> P ob"
  shows "\<exists>os. read_all (row_to_observation c) (sort_key row_order (filter p rs)) = Some os \<and> mset os = mset (filter P (log_iter l))"
proof (rule read_all_mset)
  have "mset (filter p rs) = mset (filter p (map (observation_to_row c) (log_iter l)))"
    using assms(2) unfolding log_matches_def mset_filter by metis
  also have "\<dots> = mset (map (observation_to_row c) (filter P (log_iter l)))"
    using assms(4) by (simp add: filter_map comp_def)
  finally show "mset (sort_key row_order (filter p rs)) = mset (map (observation_to_row c) (filter P (log_iter l)))" by simp
  show "ob \<in> set (filter P (log_iter l)) \<Longrightarrow> row_to_observation c (observation_to_row c ob) = Some ob" for ob
    using observation_reads_back [OF assms(1)] assms(3) by simp
qed

lemma log_from_ingested: "set (log_iter (foldl (\<lambda>l ob. snd (log_insert ob l)) l es)) \<subseteq> set (log_iter l) \<union> set es"
proof (induction es arbitrary: l)
  case (Cons ob es)
  have i: "set (bt_insert k v m) \<subseteq> insert (k, v) (set m)" for k v and m :: observation_log
    by (induction k v m rule: bt_insert.induct) auto
  have "set (log_iter (snd (log_insert ob l))) \<subseteq> insert ob (set (log_iter l))"
    using i [of "dedup_key ob" ob l] by (auto simp: log_insert_def log_iter_def Let_def split: option.splits)
  then show ?case using Cons.IH [of "snd (log_insert ob l)"] by auto
qed simp

text \<open>
  C30. Whatever is inserted and put into quarantine in whatever order, the table counts, answers and accepts what
  the log in memory does: the same observations for a field and for a work item, as a multiset, and the same
  flag for the next observation. The log is the one of the inserted observations alone, and the quarantine
  returns every entry that was put there.
\<close>

theorem sqlite_log_refines_memory:
  assumes "codec_ok c" "canonical_intake es"
    "db = foldl (sqlite_step c) empty_observation_db es" "(l, q) = foldl (memory_step c) ([], []) es"
  shows "l = log_of (ingested es) \<and> sqlite_log_len db = length l \<and> fst (sqlite_log_insert c ob db) = fst (log_insert ob l)
    \<and> (\<exists>os. sqlite_for_field c db work field = Some os \<and> mset os = mset (log_for_field l work field))
    \<and> (\<exists>os. sqlite_for_work_item c db work = Some os \<and> mset os = mset (log_for_work_item l work))
    \<and> (\<exists>es. sqlite_iter_quarantined c db = Some es \<and> mset es = mset (iter_quarantined q))"
proof -
  have start: "log_matches c (os_observations empty_observation_db) []"
    by (simp add: log_matches_def log_iter_def empty_observation_db_def)
  have m: "log_matches c (os_observations db) l" and l: "l = log_of (ingested es)"
    using steps_match [OF start, of es "[]"] assms(3,4) by (metis fst_conv, metis fst_conv log_of_def)
  have "set (log_iter l) \<subseteq> set (ingested es)" using log_from_ingested [of "[]" "ingested es"] by (simp add: l log_of_def log_iter_def)
  moreover have "canonicalize_source (ob_source ob) = ob_source ob" if "ob \<in> set (ingested es)" for ob
    using assms(2) that by (auto simp: canonical_intake_def ingested_def List.map_filter_def list_all_iff split: sum.splits)
  ultimately have canon: "\<And>ob. ob \<in> set (log_iter l) \<Longrightarrow> canonicalize_source (ob_source ob) = ob_source ob" by blast
  have "size (mset (os_observations db)) = size (mset (map (observation_to_row c) (log_iter l)))"
    using m unfolding log_matches_def by simp
  then have len: "sqlite_log_len db = length l" by (simp add: sqlite_log_len_def log_iter_def)
  have field: "\<exists>os. sqlite_for_field c db work field = Some os \<and> mset os = mset (log_for_field l work field)"
    unfolding sqlite_for_field_def log_for_field_def
    by (rule query_matches [OF assms(1) m canon]) (simp_all add: observation_to_row_def field_text [OF assms(1)])
  have item: "\<exists>os. sqlite_for_work_item c db work = Some os \<and> mset os = mset (log_for_work_item l work)"
    unfolding sqlite_for_work_item_def log_for_work_item_def
    by (rule query_matches [OF assms(1) m canon]) (simp_all add: observation_to_row_def)
  have "map (row_to_quarantined c) (os_quarantine db) = map Some q"
    using quarantine_match [OF assms(1), of empty_observation_db "[]" es "[]"] assms(3,4)
    by (metis empty_observation_db_def list.simps(8) observation_db.select_convs(2) snd_conv)
  then have "\<exists>es. sqlite_iter_quarantined c db = Some es \<and> mset es = mset (iter_quarantined q)"
    unfolding sqlite_iter_quarantined_def iter_quarantined_def by (rule read_all_permuted) simp
  then show ?thesis using l len field item insert_matches(2) [OF m] by blast
qed

text \<open>A codec for the witness: every value is written as that many letters.\<close>

instance work_ref :: countable by countable_datatype

instance verdict :: countable by countable_datatype

instance json :: countable by countable_datatype

instance field_name :: countable by countable_datatype

instance field_value :: countable by countable_datatype

instance quarantine_reason :: countable by countable_datatype

definition letters :: "'a::countable \<Rightarrow> string" where
  "letters x = replicate (to_nat x) CHR ''x''"

definition of_letters :: "string \<Rightarrow> 'a::countable" where
  "of_letters s = from_nat (length s)"

lemma of_letters_back: "of_letters (letters x) = x"
  by (simp add: letters_def of_letters_def)

definition letter_codec :: obs_codec where
  "letter_codec = \<lparr> oc_field = letters, oc_field_in = (\<lambda>s. Some (of_letters s)), oc_value = letters,
     oc_value_in = (\<lambda>s. Some (of_letters s)),
     oc_cert = (\<lambda>c. letters (sc_key_id c, sc_signature c)),
     oc_cert_in = (\<lambda>s. Some (case of_letters s of (k, g) \<Rightarrow> \<lparr> sc_key_id = k, sc_signature = g \<rparr>)),
     oc_obs = (\<lambda>ob. letters (ob_work_item ob, ob_source ob, ob_source_event_id ob, ob_field ob, ob_value ob, ob_observed_at ob,
        map_option (\<lambda>c. (sc_key_id c, sc_signature c)) (ob_cert ob), ob_payload_hash ob)),
     oc_obs_in = (\<lambda>s. Some (case of_letters s of (w, src, i, f, v, t, c, h) \<Rightarrow>
        \<lparr> ob_work_item = w, ob_source = src, ob_source_event_id = i, ob_field = f, ob_value = v, ob_observed_at = t,
          ob_cert = map_option (\<lambda>(k, g). \<lparr> sc_key_id = k, sc_signature = g \<rparr>) c, ob_payload_hash = h \<rparr>)),
     oc_reason = letters, oc_reason_in = (\<lambda>s. Some (of_letters s)), oc_fmt = letters, oc_parse = (\<lambda>s. Some (of_letters s)),
     oc_parse_naive = (\<lambda>_. None), oc_now = 0 \<rparr>"

lemma letter_codec_ok: "codec_ok letter_codec"
proof -
  have "(\<lambda>x :: signet_cert. \<lparr> sc_key_id = sc_key_id x, sc_signature = sc_signature x \<rparr>) = (\<lambda>x. x)" by (rule ext) simp
  then have "map_option (\<lambda>x. \<lparr> sc_key_id = sc_key_id x, sc_signature = sc_signature x \<rparr>) c = c" for c :: "signet_cert option"
    by (simp only: option.map_ident)
  then show ?thesis by (simp add: codec_ok_def letter_codec_def of_letters_back option.map_comp comp_def)
qed

definition sample_observation :: "string \<Rightarrow> observation" where
  "sample_observation i = \<lparr> ob_work_item = WorkRef ''r'' [] ''b'', ob_source = ''github'', ob_source_event_id = i, ob_field = Assignee,
     ob_value = FvOptString (Some ''alice''), ob_observed_at = 1000, ob_cert = None, ob_payload_hash = ''h'' \<rparr>"

theorem sqlite_log_refines_memory_witness:
  "\<exists>os. sqlite_for_work_item letter_codec (foldl (sqlite_step letter_codec) empty_observation_db
      [Inl (sample_observation ''e''), Inr (''t'', sample_observation ''q'', InvalidCert ''d''), Inl (sample_observation ''e'')]) (WorkRef ''r'' [] ''b'')
     = Some os \<and> mset os = {# sample_observation ''e'' #}"
proof -
  let ?es = "[Inl (sample_observation ''e''), Inr (''t'', sample_observation ''q'', InvalidCert ''d''), Inl (sample_observation ''e'')]"
  have "canonicalize_source ''github'' = ''github''" by code_simp
  then have "canonical_intake ?es" by (simp add: canonical_intake_def sample_observation_def)
  moreover have "fst (foldl (memory_step letter_codec) ([], []) ?es) = [(dedup_key (sample_observation ''e''), sample_observation ''e'')]"
    by (simp add: intake_steps log_insert_def)
  ultimately show ?thesis
    using sqlite_log_refines_memory [where work = "WorkRef ''r'' [] ''b''" and es = ?es, OF letter_codec_ok _ refl prod.collapse]
    by (simp add: log_for_work_item_def log_iter_def sample_observation_def)
qed

end
