(* ===== verification/Bead_Projection.thy ===== *)
theory Bead_Projection
  imports Bead_Contract Restore_Merge
begin

text \<open>
  The public projection of a bead store (\<open>src/jsonl_sync.rs\<close>): the file of bead records that is tracked by
  git, its refresh from the store, the update of one record, and the publication of named beads.

  The file is its text; whether the repository has opted in (the file is there and tracked, the store is
  not Dolt's) and whether a replacement of the file succeeds are inputs, and so are serde's reader and
  printer of JSON and the clock's.
\<close>

section \<open>Records by identifier\<close>

datatype projection_error =
    StoreFailed store_error
  | Unreadable string
  | WithoutId
  | DuplicateId string
  | ReplaceFailed

definition json_id :: "json \<Rightarrow> string option" where
  "json_id v = Option.bind (json_get v ''id'') as_str"

text \<open>
  The loops that fill the map of records: \<open>value\<close> makes the new record of a published one, and a second
  record with an identifier is refused.
\<close>

fun fill_records :: "(string \<Rightarrow> json \<Rightarrow> projection_error + json) \<Rightarrow> json list \<Rightarrow> (string \<times> json) list \<Rightarrow> projection_error + (string \<times> json) list" where
  "fill_records new_value [] out = Inr out"
| "fill_records new_value (r # rs) out =
     (case json_id r of
        None \<Rightarrow> Inl WithoutId
      | Some i \<Rightarrow>
          (case new_value i r of
             Inl e \<Rightarrow> Inl e
           | Inr v \<Rightarrow> if map_of out i \<noteq> None then Inl (DuplicateId i) else fill_records new_value rs (bt_insert i v out)))"

definition serialize_records :: "(json \<Rightarrow> string) \<Rightarrow> (string \<times> json) list \<Rightarrow> string" where
  "serialize_records write records = jsonl_join (map write (map snd records))"

section \<open>The projection\<close>

record projection_env =
  pe_parse :: "string \<Rightarrow> json option"
  pe_write :: "json \<Rightarrow> string"
  pe_instant :: "string \<Rightarrow> int option"
  pe_rfc3339 :: "int \<Rightarrow> string"
  pe_repo :: string
  pe_opted_in :: bool
  pe_replace_ok :: bool

definition of_store :: "store_error + 'a \<Rightarrow> projection_error + 'a" where
  "of_store r = (case r of Inl e \<Rightarrow> Inl (StoreFailed e) | Inr x \<Rightarrow> Inr x)"

definition live_contract_value :: "projection_env \<Rightarrow> bead_db \<Rightarrow> bead \<Rightarrow> projection_error + json" where
  "live_contract_value ev db b = of_store (contract_of (pe_instant ev) (pe_rfc3339 ev) db b)"

definition render_bead_line :: "projection_env \<Rightarrow> bead_db \<Rightarrow> bead \<Rightarrow> projection_error + string" where
  "render_bead_line ev db b = map_sum id (pe_write ev) (live_contract_value ev db b)"

definition refreshed_value :: "projection_env \<Rightarrow> bead_db \<Rightarrow> bead list \<Rightarrow> string \<Rightarrow> json \<Rightarrow> projection_error + json" where
  "refreshed_value ev db live i r =
     (case map_of (rev (map (\<lambda>b. (b_id b, b)) live)) i of
        Some b \<Rightarrow> live_contract_value ev db b
      | None \<Rightarrow> Inr r)"

definition export_published_beads :: "projection_env \<Rightarrow> bead_db \<Rightarrow> json list \<Rightarrow> projection_error + string" where
  "export_published_beads ev db published =
     (case of_store (list_all_beads (pe_instant ev) db (pe_repo ev)) of
        Inl e \<Rightarrow> Inl e
      | Inr live \<Rightarrow> map_sum id (serialize_records (pe_write ev)) (fill_records (refreshed_value ev db live) published []))"

definition read_projection :: "projection_env \<Rightarrow> string \<Rightarrow> projection_error + json list" where
  "read_projection ev txt = (case read_beads_jsonl (pe_parse ev) txt of Inl e \<Rightarrow> Inl (Unreadable e) | Inr vs \<Rightarrow> Inr vs)"

text \<open>The write of a temporary file and its renaming: all of the new text, or the old one.\<close>

definition atomic_replace :: "projection_env \<Rightarrow> string \<Rightarrow> string \<Rightarrow> string \<times> (projection_error + bool)" where
  "atomic_replace ev old new = (if pe_replace_ok ev then (new, Inr True) else (old, Inl ReplaceFailed))"

definition refresh_tracked :: "projection_env \<Rightarrow> bead_db \<Rightarrow> string \<Rightarrow> string \<times> (projection_error + bool)" where
  "refresh_tracked ev db txt =
     (if \<not> pe_opted_in ev then (txt, Inr False)
      else (case read_projection ev txt of
          Inl e \<Rightarrow> (txt, Inl e)
        | Inr published \<Rightarrow>
            (case export_published_beads ev db published of
               Inl e \<Rightarrow> (txt, Inl e)
             | Inr new \<Rightarrow> atomic_replace ev txt new)))"

definition upsert_tracked_bead :: "projection_env \<Rightarrow> bead_db \<Rightarrow> string \<Rightarrow> bool \<Rightarrow> string \<Rightarrow> string \<times> (projection_error + bool)" where
  "upsert_tracked_bead ev db bead_id allow_insert txt =
     (if \<not> pe_opted_in ev then (txt, Inr False)
      else (case read_projection ev txt of
          Inl e \<Rightarrow> (txt, Inl e)
        | Inr published \<Rightarrow>
            (if \<not> list_ex (\<lambda>r. json_id r = Some bead_id) published \<and> \<not> allow_insert then (txt, Inr False)
             else (case of_store (get_bead (pe_instant ev) db bead_id (pe_repo ev)) of
                Inl e \<Rightarrow> (txt, Inl e)
              | Inr None \<Rightarrow> (txt, Inr False)
              | Inr (Some b) \<Rightarrow>
                  (case live_contract_value ev db b of
                     Inl e \<Rightarrow> (txt, Inl e)
                   | Inr rendered \<Rightarrow>
                       (case fill_records (\<lambda>_ r. Inr r) published [] of
                          Inl e \<Rightarrow> (txt, Inl e)
                        | Inr records \<Rightarrow>
                            (let new = serialize_records (pe_write ev) (bt_insert bead_id rendered records)
                             in if txt = new then (txt, Inr False) else atomic_replace ev txt new)))))))"

section \<open>Publishing named beads\<close>

record publish_report =
  pb_inserted :: "string list"
  pb_updated :: "string list"
  pb_unchanged :: "string list"
  pb_missing :: "string list"

definition empty_report :: publish_report where
  "empty_report = \<lparr> pb_inserted = [], pb_updated = [], pb_unchanged = [], pb_missing = [] \<rparr>"

fun publish_loop :: "projection_env \<Rightarrow> bead_db \<Rightarrow> string set \<Rightarrow> string set \<Rightarrow> string list \<Rightarrow> publish_report \<Rightarrow> string
    \<Rightarrow> string \<times> (projection_error + publish_report)" where
  "publish_loop ev db before seen [] rep txt = (txt, Inr rep)"
| "publish_loop ev db before seen (i # is) rep txt =
     (if i \<in> seen then publish_loop ev db before seen is rep txt
      else (case of_store (get_bead (pe_instant ev) db i (pe_repo ev)) of
          Inl e \<Rightarrow> (txt, Inl e)
        | Inr None \<Rightarrow> publish_loop ev db before (insert i seen) is (rep\<lparr> pb_missing := pb_missing rep @ [i] \<rparr>) txt
        | Inr (Some _) \<Rightarrow>
            (case upsert_tracked_bead ev db i True txt of
               (txt', Inl e) \<Rightarrow> (txt', Inl e)
             | (txt', Inr changed) \<Rightarrow>
                 publish_loop ev db before (insert i seen) is
                   (if \<not> changed then rep\<lparr> pb_unchanged := pb_unchanged rep @ [i] \<rparr>
                    else if i \<in> before then rep\<lparr> pb_updated := pb_updated rep @ [i] \<rparr>
                    else rep\<lparr> pb_inserted := pb_inserted rep @ [i] \<rparr>) txt')))"

definition publish_ids :: "projection_env \<Rightarrow> bead_db \<Rightarrow> string list \<Rightarrow> string \<Rightarrow> string \<times> (projection_error + publish_report)" where
  "publish_ids ev db ids txt =
     (if \<not> pe_opted_in ev then (txt, Inr empty_report)
      else (case read_projection ev txt of
          Inl e \<Rightarrow> (txt, Inl e)
        | Inr published \<Rightarrow> publish_loop ev db (set (List.map_filter json_id published)) {} ids empty_report txt))"

end
