(* ===== verification/Bead_Ids.thy ===== *)
theory Bead_Ids
  imports Doc_Parse Secrets
begin

text \<open>
  Identifiers of beads: how they are made (\<open>src/main.rs\<close>) and how they are found in commit messages
  (\<open>src/vcs.rs\<close>): references to beads, and the closures of merged pull requests.
\<close>

section \<open>Making identifiers\<close>

definition is_ascii_alphanumeric :: "char \<Rightarrow> bool" where
  "is_ascii_alphanumeric c \<longleftrightarrow> is_alphabetic c \<or> is_ascii_digit c"

definition is_ascii_lowercase :: "char \<Rightarrow> bool" where
  "is_ascii_lowercase c \<longleftrightarrow> is_alphabetic c \<and> lower_char c = c"

text \<open>The loop over the characters: the text so far and whether it ends with a separator.\<close>

definition sanitize_char :: "string \<times> bool \<Rightarrow> char \<Rightarrow> string \<times> bool" where
  "sanitize_char acc c =
     (let (out, prev_sep) = acc; lc = lower_char c
      in if is_ascii_alphanumeric lc \<or> lc = CHR ''_'' then (out @ [lc], False)
         else if out \<noteq> [] \<and> \<not> prev_sep then (out @ [CHR ''-''], True)
         else (out, prev_sep))"

definition trim_matches :: "(char \<Rightarrow> bool) \<Rightarrow> string \<Rightarrow> string" where
  "trim_matches p s = rev (dropWhile p (rev (dropWhile p s)))"

definition try_sanitize_prefix :: "string \<Rightarrow> string option" where
  "try_sanitize_prefix input =
     (let base = (case List.find (\<lambda>s. s \<noteq> []) (rev (split_on (CHR ''/'') input)) of None \<Rightarrow> [] | Some s \<Rightarrow> s);
          trimmed = trim_matches (\<lambda>c. c = CHR ''-'' \<or> c = CHR ''_'') (fst (foldl sanitize_char ([], False) base))
      in if trimmed = [] then None else Some trimmed)"

definition sanitize_prefix :: "string \<Rightarrow> string" where
  "sanitize_prefix input = (case try_sanitize_prefix input of None \<Rightarrow> ''bead'' | Some p \<Rightarrow> p)"

definition resolve_bead_prefix :: "string option \<Rightarrow> string \<Rightarrow> string option \<Rightarrow> string \<Rightarrow> string" where
  "resolve_bead_prefix explicit repo_name git_remote dir_basename =
     (case List.map_filter try_sanitize_prefix
        [case explicit of None \<Rightarrow> [] | Some s \<Rightarrow> s, repo_name, case git_remote of None \<Rightarrow> [] | Some s \<Rightarrow> s, dir_basename] of
        [] \<Rightarrow> ''bead'' | p # _ \<Rightarrow> p)"

text \<open>\<open>{:06x}\<close> of a number of at most six digits.\<close>

definition hex_digit :: "nat \<Rightarrow> char" where
  "hex_digit n = ''0123456789abcdef'' ! (n mod 16)"

definition hex6 :: "nat \<Rightarrow> string" where
  "hex6 n = map (\<lambda>i. hex_digit (n div 16 ^ i)) [5, 4, 3, 2, 1, 0]"

text \<open>The milliseconds, the counter of the process and its number are inputs; the sums are of type \<open>u128\<close>.\<close>

definition bead_serial :: "nat \<Rightarrow> nat \<Rightarrow> nat \<Rightarrow> nat" where
  "bead_serial millis n pid = ((millis + n) mod 2 ^ 128 + pid * 256) mod 2 ^ 128 mod 2 ^ 24"

definition generate_bead_id :: "string \<Rightarrow> nat \<Rightarrow> nat \<Rightarrow> nat \<Rightarrow> string" where
  "generate_bead_id pre millis n pid = sanitize_prefix pre @ ''-'' @ hex6 (bead_serial millis n pid)"

section \<open>Identifiers in brackets\<close>

definition valid_bead_id :: "string \<Rightarrow> string option" where
  "valid_bead_id s =
     (case rsplit_once (CHR ''-'') s of
        None \<Rightarrow> None
      | Some (pre, suf) \<Rightarrow>
          (if pre \<noteq> [] \<and> suf \<noteq> []
              \<and> list_all (\<lambda>c. is_ascii_lowercase c \<or> is_ascii_digit c \<or> c \<in> set ''.-_'') pre
              \<and> list_all is_ascii_alphanumeric suf
           then Some s else None))"

function extract_bracket_ids :: "string \<Rightarrow> string list" where
  "extract_bracket_ids rest =
     (case split_once (CHR ''['') rest of
        None \<Rightarrow> []
      | Some (_, after_open) \<Rightarrow>
          (case split_once (CHR '']'') after_open of
             None \<Rightarrow> []
           | Some (content, after_close) \<Rightarrow>
               (case valid_bead_id content of None \<Rightarrow> [] | Some i \<Rightarrow> [i]) @ extract_bracket_ids after_close))"
  by pat_completeness auto

termination extract_bracket_ids
  by (relation "measure length") (auto dest!: split_once_shorter)

declare extract_bracket_ids.simps [simp del]

text \<open>The text after the last occurrence of a pattern.\<close>

fun after_last :: "string \<Rightarrow> string \<Rightarrow> string option" where
  "after_last p [] = (if p = [] then Some [] else None)"
| "after_last p (c # s) =
     (case after_last p s of
        Some t \<Rightarrow> Some t
      | None \<Rightarrow> if starts_with (c # s) p then Some (drop (length p) (c # s)) else None)"

definition trailing_pr_number :: "string \<Rightarrow> nat option" where
  "trailing_pr_number subject =
     (case after_last ''(#'' subject of
        None \<Rightarrow> None
      | Some after \<Rightarrow>
          (let digits = takeWhile is_ascii_digit after
           in if digits = [] \<or> \<not> starts_with (drop (length digits) after) '')'' then None
              else parse_unsigned (2 ^ 64) digits))"

definition subject_of :: "string \<Rightarrow> string" where
  "subject_of message = (case lines_of message of [] \<Rightarrow> [] | l # _ \<Rightarrow> l)"

definition parse_merged_closures :: "string \<Rightarrow> (string \<times> nat) list" where
  "parse_merged_closures message =
     (case trailing_pr_number (subject_of message) of
        None \<Rightarrow> []
      | Some n \<Rightarrow> map (\<lambda>i. (i, n)) (rev (remdups (rev (extract_bracket_ids (subject_of message))))))"

definition subject_bead_ids :: "string \<Rightarrow> string list" where
  "subject_bead_ids message = extract_bracket_ids (subject_of message)"

section \<open>References in descriptions\<close>

record vcs_ref =
  vr_id :: string
  vr_closes :: bool

definition is_bead_id :: "string \<Rightarrow> bool" where
  "is_bead_id s =
     (case rsplit_once (CHR ''-'') s of
        None \<Rightarrow> False
      | Some (pre, suf) \<Rightarrow>
          pre \<noteq> [] \<and> suf \<noteq> []
          \<and> list_all (\<lambda>c. is_ascii_lowercase c \<or> is_ascii_digit c \<or> c = CHR ''-'' \<or> c = CHR ''.'') pre
          \<and> list_all is_ascii_alphanumeric suf)"

definition bracket_ref :: "string \<Rightarrow> vcs_ref list" where
  "bracket_ref line =
     (case strip_prefix (trim line) ''['' of
        None \<Rightarrow> []
      | Some rest \<Rightarrow>
          (case split_once (CHR '']'') rest of
             None \<Rightarrow> []
           | Some (i, _) \<Rightarrow> if is_bead_id i then [\<lparr> vr_id = i, vr_closes = False \<rparr>] else []))"

definition trim_end :: "string \<Rightarrow> string" where
  "trim_end s = rev (dropWhile is_whitespace (rev s))"

definition closing_words :: "string \<Rightarrow> bool" where
  "closing_words s \<longleftrightarrow> ends_with s ''closes'' \<or> ends_with s ''fixes'' \<or> ends_with s ''close'' \<or> ends_with s ''fix''"

text \<open>
  The search for \<open>bead:\<close> in the text after \<open>before\<close>. The next search starts behind the identifier, and at
  least one byte behind the colon: \<open>None\<close> when that is not a position of the text, where the slice panics.
\<close>

function bead_colon_refs :: "string \<Rightarrow> string \<Rightarrow> vcs_ref list option" where
  "bead_colon_refs before rest =
     (case split_str ''bead:'' rest of
        None \<Rightarrow> Some []
      | Some (a, b) \<Rightarrow>
          (let i = takeWhile (\<lambda>c. is_ascii_alphanumeric c \<or> c = CHR ''-'') b;
               refs = (if is_bead_id i then [\<lparr> vr_id = i, vr_closes = closing_words (trim_end (before @ a)) \<rparr>] else []);
               adv = max (length i) 1
           in case slice_from b adv of
                None \<Rightarrow> None
              | Some rest' \<Rightarrow> map_option (append refs) (bead_colon_refs (before @ a @ ''bead:'' @ take adv b) rest')))"
  by pat_completeness auto

termination bead_colon_refs
proof (relation "measure (\<lambda>(_, rest). length rest)", simp)
  fix before rest x a b i refs adv rest'
  assume "split_str ''bead:'' rest = Some x" "(a, b) = x" "slice_from b adv = Some rest'"
  then have "length b < length rest" "rest' = drop adv b"
    using split_str_shorter [of "''bead:''" rest a b] by (auto simp: slice_from_def split: if_splits)
  then show "((before @ a @ ''bead:'' @ take adv b, rest'), before, rest) \<in> measure (\<lambda>(_, rest). length rest)" by simp
qed

declare bead_colon_refs.simps [simp del]

fun dedup_refs :: "vcs_ref list \<Rightarrow> vcs_ref list" where
  "dedup_refs [] = []"
| "dedup_refs [r] = [r]"
| "dedup_refs (r # q # rs) =
     (if vr_id q = vr_id r then dedup_refs (r\<lparr> vr_closes := vr_closes r \<or> vr_closes q \<rparr> # rs) else r # dedup_refs (q # rs))"

definition extract_bead_refs :: "string \<Rightarrow> vcs_ref list option" where
  "extract_bead_refs message =
     (let lower = to_lowercase message
      in map_option (\<lambda>refs. dedup_refs (sort_key vr_id (concat (map bracket_ref (lines_of lower)) @ refs))) (bead_colon_refs [] lower))"

definition extract_bead_ids :: "string \<Rightarrow> string list option" where
  "extract_bead_ids message = map_option (map vr_id) (extract_bead_refs message)"

section \<open>Records of git and jj\<close>

text \<open>\<open>split\<close> at a text that is not empty.\<close>

function split_all :: "string \<Rightarrow> string \<Rightarrow> string list" where
  "split_all p s = (if p = [] then [s] else case split_str p s of None \<Rightarrow> [s] | Some (a, b) \<Rightarrow> a # split_all p b)"
  by pat_completeness auto

termination split_all
  by (relation "measure (\<lambda>(_, s). length s)") (auto dest: split_str_shorter)

declare split_all.simps [simp del]

definition NUL :: char where
  "NUL = CHR 0x00"

definition parse_jj_log_output :: "string \<Rightarrow> (string \<times> string) list" where
  "parse_jj_log_output output =
     List.map_filter (\<lambda>entry. case split_once NUL entry of
         None \<Rightarrow> None
       | Some (change_id, description) \<Rightarrow> if trim change_id = [] then None else Some (trim change_id, trim description))
       (filter (\<lambda>entry. trim entry \<noteq> []) (split_all [NUL, NUL] output))"

definition trim_newlines :: "string \<Rightarrow> string" where
  "trim_newlines s = dropWhile (\<lambda>c. c = CHR 0x0A) s"

definition scan_merged_closures :: "string \<Rightarrow> (string \<times> nat) list" where
  "scan_merged_closures output =
     concat (map parse_merged_closures (filter (\<lambda>m. trim m \<noteq> []) (map trim_newlines (split_on NUL output))))"

text \<open>The scan of the recent descriptions, when \<open>jj log\<close> has printed \<open>output\<close>.\<close>

definition scan_vcs_bead_refs :: "string \<Rightarrow> (string \<times> vcs_ref) list option" where
  "scan_vcs_bead_refs output =
     map_option concat (read_all (\<lambda>(change_id, description). map_option (map (Pair change_id)) (extract_bead_refs description))
       (parse_jj_log_output output))"

definition strip_suffix :: "string \<Rightarrow> string \<Rightarrow> string" where
  "strip_suffix s p = (if ends_with s p then take (length s - length p) s else s)"

definition github_slug :: "string \<Rightarrow> string option" where
  "github_slug url =
     (case List.map_filter (strip_prefix url)
        [''git@github.com:'', ''https://github.com/'', ''http://github.com/'', ''ssh://git@github.com/''] of
        [] \<Rightarrow> None
      | rest # _ \<Rightarrow>
          (case split_on (CHR ''/'') (trim_matches (\<lambda>c. c = CHR ''/'') (strip_suffix rest ''.git'')) of
             [owner, repo] \<Rightarrow> if owner \<noteq> [] \<and> repo \<noteq> [] then Some (owner @ ''/'' @ repo) else None
           | _ \<Rightarrow> None))"

section \<open>Identifiers of a repository\<close>

definition is_own_repo_id :: "string \<Rightarrow> string \<Rightarrow> bool" where
  "is_own_repo_id i repo_name =
     (case rsplit_once (CHR ''-'') i of None \<Rightarrow> False | Some (pre, _) \<Rightarrow> pre = repo_name \<or> pre = sanitize_prefix repo_name)"

definition prefix_char :: "char \<Rightarrow> bool" where
  "prefix_char c \<longleftrightarrow> is_ascii_lowercase c \<or> is_ascii_digit c \<or> c = CHR ''_'' \<or> c = CHR ''-''"

lemma lower_char_idem: "lower_char (lower_char c) = lower_char c"
  using nat_of_char_less_256 [of c] by (auto simp: lower_char_def Let_def)

lemma lower_alnum: "is_ascii_alphanumeric (lower_char c) \<Longrightarrow> is_ascii_lowercase (lower_char c) \<or> is_ascii_digit (lower_char c)"
  by (auto simp: is_ascii_alphanumeric_def is_ascii_lowercase_def lower_char_idem)

definition single_dashes :: "string \<Rightarrow> bool" where
  "single_dashes s \<longleftrightarrow> list_all prefix_char s \<and> successively (\<lambda>a b. \<not> (a = CHR ''-'' \<and> b = CHR ''-'')) s"

lemma sanitize_step_ok:
  assumes "single_dashes out" "prev \<longleftrightarrow> out \<noteq> [] \<and> last out = CHR ''-''"
  shows "single_dashes (fst (sanitize_char (out, prev) c)) \<and> (snd (sanitize_char (out, prev) c)
    \<longleftrightarrow> fst (sanitize_char (out, prev) c) \<noteq> [] \<and> last (fst (sanitize_char (out, prev) c)) = CHR ''-'')"
proof -
  have "lower_char c \<noteq> CHR ''-''" if "is_ascii_alphanumeric (lower_char c) \<or> lower_char c = CHR ''_''"
    using that by (auto simp: is_ascii_alphanumeric_def is_alphabetic_def is_ascii_digit_def)
  then show ?thesis using assms lower_alnum [of c]
    by (auto simp: sanitize_char_def Let_def single_dashes_def successively_append_iff prefix_char_def)
qed

lemma sanitized_ok: "single_dashes (fst (foldl sanitize_char ([], False) s))"
proof -
  have "single_dashes (fst (foldl sanitize_char (out, prev) s))"
    if "single_dashes out" "prev \<longleftrightarrow> out \<noteq> [] \<and> last out = CHR ''-''" for out prev
    using that
  proof (induction s arbitrary: out prev)
    case (Cons c s)
    obtain out' prev' where st: "sanitize_char (out, prev) c = (out', prev')" by (cases "sanitize_char (out, prev) c")
    have "single_dashes out'" "prev' \<longleftrightarrow> out' \<noteq> [] \<and> last out' = CHR ''-''"
      using sanitize_step_ok [OF Cons.prems, of c] by (simp_all add: st)
    then show ?case using Cons.IH by (simp add: st)
  qed simp
  from this [of "[]" False] show ?thesis by (simp add: single_dashes_def)
qed

lemma trimmed_ok:
  assumes "single_dashes s"
  shows "single_dashes (trim_matches p s)"
proof -
  obtain a b where "s = a @ trim_matches p s @ b"
    by (metis append.assoc dropWhile_eq_drop rev_append rev_rev_ident takeWhile_dropWhile_id trim_matches_def)
  then show ?thesis using assms unfolding single_dashes_def by (metis list_all_append successively_append_iff)
qed

lemma sanitize_prefix_ok: "sanitize_prefix s \<noteq> [] \<and> single_dashes (sanitize_prefix s)"
proof -
  have "single_dashes ''bead''" by code_simp
  then show ?thesis using trimmed_ok [OF sanitized_ok]
    by (auto simp: sanitize_prefix_def try_sanitize_prefix_def Let_def split: option.splits if_splits)
qed

text \<open>The six digits.\<close>

lemma hex_digit_char: "is_ascii_alphanumeric (hex_digit n) \<and> hex_digit n \<noteq> CHR ''-'' \<and> hex_digit n \<noteq> CHR '']''"
proof -
  have "list_all (\<lambda>k. is_ascii_alphanumeric (''0123456789abcdef'' ! k) \<and> ''0123456789abcdef'' ! k \<noteq> CHR ''-'' \<and> ''0123456789abcdef'' ! k \<noteq> CHR '']'') [0..<16]"
    by code_simp
  then show ?thesis unfolding hex_digit_def list_all_iff by simp
qed

lemma hex_digit_inj: "hex_digit m = hex_digit n \<longleftrightarrow> m mod 16 = n mod 16"
proof -
  have "distinct (''0123456789abcdef'')" by simp
  then show ?thesis unfolding hex_digit_def by (subst nth_eq_iff_index_eq) simp_all
qed

lemma digit_step:
  fixes m n :: nat
  assumes "m div 16 ^ Suc i = n div 16 ^ Suc i" "m div 16 ^ i mod 16 = n div 16 ^ i mod 16"
  shows "m div 16 ^ i = n div 16 ^ i"
proof -
  have "k div 16 ^ i = 16 * (k div 16 ^ Suc i) + k div 16 ^ i mod 16" for k :: nat
    by (metis div_mult2_eq mult_div_mod_eq power_Suc2)
  then show ?thesis using assms by metis
qed

lemma hex6_inj:
  assumes "m < 2 ^ 24" "n < 2 ^ 24"
  shows "hex6 m = hex6 n \<longleftrightarrow> m = n"
proof
  assume h: "hex6 m = hex6 n"
  have d: "m div 16 ^ i mod 16 = n div 16 ^ i mod 16" if "i \<in> {0, 1, 2, 3, 4, 5}" for i
  proof -
    have "\<forall>i \<in> set [5, 4, 3, 2, 1, 0]. hex_digit (m div 16 ^ i) = hex_digit (n div 16 ^ i)"
      using h unfolding hex6_def by (simp only: map_eq_conv)
    then have "hex_digit (m div 16 ^ i) = hex_digit (n div 16 ^ i)" using that by (simp only: list.set insert_iff ball_simps) blast
    then show ?thesis by (simp only: hex_digit_inj)
  qed
  have "m div 16 ^ 6 = 0" "n div 16 ^ 6 = 0" using assms by (simp_all add: div_less)
  then have "m div 16 ^ Suc 5 = n div 16 ^ Suc 5" by simp
  then have "m div 16 ^ 5 = n div 16 ^ 5" by (rule digit_step) (rule d, simp)
  then have "m div 16 ^ 4 = n div 16 ^ 4" using digit_step [of m 4 n] d [of 4] by simp
  then have "m div 16 ^ 3 = n div 16 ^ 3" using digit_step [of m 3 n] d [of 3] by simp
  then have "m div 16 ^ 2 = n div 16 ^ 2" using digit_step [of m 2 n] d [of 2] by simp
  then have "m div 16 ^ 1 = n div 16 ^ 1" using digit_step [of m 1 n] d [of 1] by simp
  then show "m = n" using digit_step [of m 0 n] d [of 0] by simp
qed simp

lemma hex6_chars: "list_all (\<lambda>c. is_ascii_alphanumeric c \<and> c \<noteq> CHR ''-'' \<and> c \<noteq> CHR '']'') (hex6 n)"
  using hex_digit_char by (simp add: hex6_def)

lemma serial_bound: "bead_serial millis n pid < 2 ^ 24"
  by (simp add: bead_serial_def)

lemma serial_mod: "bead_serial millis n pid = (millis + n + pid * 256) mod 2 ^ 24"
proof -
  have "(2 :: nat) ^ 24 dvd 2 ^ 128" by (rule le_imp_power_dvd) simp
  then show ?thesis unfolding bead_serial_def by (simp only: mod_mod_cancel mod_add_left_eq mod_simps)
qed

lemma generated_parts: "rsplit_once (CHR ''-'') (generate_bead_id pre millis n pid) = Some (sanitize_prefix pre, hex6 (bead_serial millis n pid))"
  using hex6_chars [of "bead_serial millis n pid"] by (auto simp: rsplit_once_Some generate_bead_id_def list_all_iff)

lemma generated_valid: "valid_bead_id (generate_bead_id pre millis n pid) = Some (generate_bead_id pre millis n pid)"
proof -
  have "list_all (\<lambda>c. is_ascii_lowercase c \<or> is_ascii_digit c \<or> c \<in> set ''.-_'') (sanitize_prefix pre)"
    using sanitize_prefix_ok [of pre] by (auto simp: single_dashes_def prefix_char_def list_all_iff)
  moreover have "list_all is_ascii_alphanumeric (hex6 m)" "hex6 m \<noteq> []" for m using hex_digit_char by (simp_all add: hex6_def)
  ultimately show ?thesis using sanitize_prefix_ok by (simp add: valid_bead_id_def generated_parts)
qed

lemma generated_no_bracket: "CHR '']'' \<notin> set (generate_bead_id pre millis n pid)" "CHR 0x0A \<notin> set (generate_bead_id pre millis n pid)"
proof -
  have "\<not> prefix_char (CHR '']'')" "\<not> prefix_char (CHR 0x0A)" by code_simp+
  moreover have "\<not> is_ascii_alphanumeric (CHR 0x0A)" by code_simp
  ultimately show "CHR '']'' \<notin> set (generate_bead_id pre millis n pid)" "CHR 0x0A \<notin> set (generate_bead_id pre millis n pid)"
    using sanitize_prefix_ok [of pre] hex6_chars [of "bead_serial millis n pid"]
    by (auto simp: generate_bead_id_def single_dashes_def list_all_iff)
qed

lemma bracket_first:
  assumes "CHR '']'' \<notin> set i" "valid_bead_id i = Some i"
  shows "extract_bracket_ids (CHR ''['' # i @ CHR '']'' # rest) = i # extract_bracket_ids rest"
proof -
  have "split_once (CHR '']'') (i @ CHR '']'' # rest) = Some (i, rest)" using assms(1) by (simp add: split_once_Some)
  then show ?thesis using assms(2) by (subst extract_bracket_ids.simps) simp
qed

lemma no_brackets: "CHR ''['' \<notin> set s \<Longrightarrow> extract_bracket_ids s = []"
proof -
  assume "CHR ''['' \<notin> set s"
  then have "split_once (CHR ''['') s = None" by (simp add: split_once_None)
  then show ?thesis by (subst extract_bracket_ids.simps) simp
qed

section \<open>What was made is found again\<close>

lemma after_last_none: "c \<notin> set t \<Longrightarrow> after_last (c # p) t = None"
  by (induction t) (auto simp: starts_with_def)

lemma after_last_append: "after_last p s = Some t \<Longrightarrow> after_last p (x @ s) = Some t"
  by (induction x) auto

lemma pr_number:
  assumes "n < 2 ^ 64"
  shows "trailing_pr_number (s @ ''(#'' @ show_nat n @ '')'') = Some n"
proof -
  have d: "list_all is_ascii_digit (show_nat n)" "show_nat n \<noteq> []" using show_nat_digits [of n] by simp_all
  have "CHR ''('' \<notin> set (show_nat n)"
    using d(1) by (auto simp: list_all_iff is_ascii_digit_def)
  then have "after_last ''(#'' (CHR ''#'' # show_nat n @ '')'') = None" by (intro after_last_none) auto
  then have "after_last ''(#'' (''(#'' @ show_nat n @ '')'') = Some (show_nat n @ '')'')" by (simp add: starts_with_def)
  then have a: "after_last ''(#'' (s @ ''(#'' @ show_nat n @ '')'') = Some (show_nat n @ '')'')" by (rule after_last_append)
  have "\<not> is_ascii_digit (CHR '')'')" by code_simp
  then have "takeWhile is_ascii_digit (show_nat n @ '')'') = show_nat n"
    using d(1) by (simp add: takeWhile_append2 list_all_iff)
  then show ?thesis using d(2) assms unfolding trailing_pr_number_def a by (simp add: parse_show_nat starts_with_def)
qed

lemma subject_line: "CHR 0x0A \<notin> set s \<Longrightarrow> CHR 0x0D \<notin> set s \<Longrightarrow> subject_of s = s"
  by (auto simp: subject_of_def lines_of_def split_on_plain Let_def)

text \<open>
  C38. An identifier that is made for a repository has the form that the scanners ask for and belongs to the
  repository, whatever its name is; a commit that names it in front of a title is found to name it, and when
  a pull request number ends the subject, to close it. Two identifiers of one repository are the same
  exactly when their serial numbers differ by a multiple of \<open>2 ^ 24\<close>; the number of the process counts 256.
\<close>

theorem generated_ids_are_recognized:
  assumes "CHR ''['' \<notin> set title" "CHR 0x0A \<notin> set title" "CHR 0x0D \<notin> set title" "pr < 2 ^ 64"
  shows "valid_bead_id (generate_bead_id repo millis n pid) = Some (generate_bead_id repo millis n pid)
    \<and> is_own_repo_id (generate_bead_id repo millis n pid) repo
    \<and> parse_merged_closures (''['' @ generate_bead_id repo millis n pid @ ''] '' @ title @ ''(#'' @ show_nat pr @ '')'')
        = [(generate_bead_id repo millis n pid, pr)]
    \<and> (generate_bead_id repo millis n pid = generate_bead_id repo millis' n' pid'
        \<longleftrightarrow> (millis + n + pid * 256) mod 2 ^ 24 = (millis' + n' + pid' * 256) mod 2 ^ 24)"
proof (intro conjI)
  let ?i = "generate_bead_id repo millis n pid"
  show v: "valid_bead_id ?i = Some ?i" by (rule generated_valid)
  show "is_own_repo_id ?i repo" by (simp add: is_own_repo_id_def generated_parts)
  let ?tail = "CHR '' '' # title @ ''(#'' @ show_nat pr @ '')''"
  let ?s = "CHR ''['' # ?i @ CHR '']'' # ?tail"
  have digits: "c \<notin> set (show_nat pr)" if "\<not> is_ascii_digit c" for c
    using show_nat_digits [of pr] that by (auto simp: list_all_iff)
  have "\<not> is_ascii_digit (CHR ''['')" "\<not> is_ascii_digit (CHR 0x0A)" "\<not> is_ascii_digit (CHR 0x0D)" by code_simp+
  note d = this [THEN digits]
  have "CHR 0x0D \<notin> set ?i"
  proof -
    have "\<not> prefix_char (CHR 0x0D)" "\<not> is_ascii_alphanumeric (CHR 0x0D)" by code_simp+
    then show ?thesis using sanitize_prefix_ok [of repo] hex6_chars [of "bead_serial millis n pid"]
      by (auto simp: generate_bead_id_def single_dashes_def list_all_iff)
  qed
  then have "subject_of ?s = ?s" using generated_no_bracket(2) assms(2,3) d by (intro subject_line) auto
  moreover have "trailing_pr_number ?s = Some pr" using pr_number [OF assms(4), of "CHR ''['' # ?i @ CHR '']'' # CHR '' '' # title"] by simp
  moreover have "extract_bracket_ids ?s = [?i]"
    using bracket_first [OF generated_no_bracket(1) v, of ?tail] no_brackets [of ?tail] assms(1) d(1) by simp
  ultimately show "parse_merged_closures (''['' @ ?i @ ''] '' @ title @ ''(#'' @ show_nat pr @ '')'') = [(?i, pr)]"
    by (simp add: parse_merged_closures_def)
  have "?i = generate_bead_id repo millis' n' pid' \<longleftrightarrow> hex6 (bead_serial millis n pid) = hex6 (bead_serial millis' n' pid')"
    by (simp add: generate_bead_id_def)
  also have "\<dots> \<longleftrightarrow> bead_serial millis n pid = bead_serial millis' n' pid'" by (rule hex6_inj [OF serial_bound serial_bound])
  finally show "?i = generate_bead_id repo millis' n' pid' \<longleftrightarrow> (millis + n + pid * 256) mod 2 ^ 24 = (millis' + n' + pid' * 256) mod 2 ^ 24"
    by (simp only: serial_mod)
qed

theorem generated_ids_are_recognized_witness:
  "parse_merged_closures (''['' @ generate_bead_id ''My Repo!'' 256 0 1 @ ''] '' @ ''fix: it '' @ ''(#'' @ show_nat 7 @ '')'') = [(generate_bead_id ''My Repo!'' 256 0 1, 7)]
    \<and> generate_bead_id ''My Repo!'' 256 0 1 = generate_bead_id ''My Repo!'' 0 0 2"
proof -
  have "CHR ''['' \<notin> set ''fix: it ''" "CHR 0x0A \<notin> set ''fix: it ''" "CHR 0x0D \<notin> set ''fix: it ''" "(7 :: nat) < 2 ^ 64" by simp_all
  moreover have "(256 + 0 + 1 * 256) mod 2 ^ 24 = (0 + 0 + 2 * 256) mod (2 ^ 24 :: nat)" by simp
  ultimately show ?thesis using generated_ids_are_recognized [of "''fix: it ''" 7 "''My Repo!''" 256 0 1 0 0 2] by blast
qed

section \<open>The search for references\<close>

lemma bead_colon_none: "split_str ''bead:'' rest = None \<Longrightarrow> bead_colon_refs before rest = Some []"
  by (subst bead_colon_refs.simps) simp

lemma ascii_boundary: "list_all (\<lambda>c. \<not> is_continuation c) s \<Longrightarrow> n \<le> length s \<Longrightarrow> is_char_boundary s n"
  by (auto simp: is_char_boundary_def list_all_length)

text \<open>A search in text without bytes above 127 panics only behind a colon that ends the text.\<close>

lemma panic_at_end:
  "bead_colon_refs before rest = None \<Longrightarrow> list_all (\<lambda>c. \<not> is_continuation c) rest \<Longrightarrow> ends_with rest ''bead:''"
proof (induction before rest rule: bead_colon_refs.induct)
  case (1 before rest)
  from "1.prems"(1) obtain a b where ab: "split_str ''bead:'' rest = Some (a, b)"
    by (subst (asm) bead_colon_refs.simps) (auto split: option.splits)
  have rest: "rest = a @ ''bead:'' @ b" using split_str_Some [OF ab] by simp
  define i where "i = takeWhile (\<lambda>c. is_ascii_alphanumeric c \<or> c = CHR ''-'') b"
  define adv where "adv = max (length i) 1"
  show ?case
  proof (cases "b = []")
    case False
    have "length i \<le> length b" by (simp add: i_def length_takeWhile_le)
    then have le: "adv \<le> length b" using False by (cases b) (auto simp: adv_def)
    have "list_all (\<lambda>c. \<not> is_continuation c) b" using "1.prems"(2) by (simp add: rest)
    then have sl: "slice_from b adv = Some (drop adv b)" using ascii_boundary [OF _ le] by (simp add: slice_from_def)
    have "\<exists>refs. bead_colon_refs before rest = map_option (append refs) (bead_colon_refs (before @ a @ ''bead:'' @ take adv b) (drop adv b))"
      by (subst bead_colon_refs.simps) (auto simp: ab Let_def adv_def i_def sl [unfolded adv_def i_def] simp del: One_nat_def)
    then have "bead_colon_refs (before @ a @ ''bead:'' @ take adv b) (drop adv b) = None"
      using "1.prems"(1) by auto
    moreover have "list_all (\<lambda>c. \<not> is_continuation c) (drop adv b)"
      using \<open>list_all (\<lambda>c. \<not> is_continuation c) b\<close> by (simp add: list_all_length)
    ultimately have "ends_with (drop adv b) ''bead:''"
      using "1.IH" [OF ab refl i_def refl adv_def sl] by blast
    then obtain t where "drop adv b = t @ ''bead:''" by (auto simp: ends_with_iff)
    then have "rest = (a @ ''bead:'' @ take adv b @ t) @ ''bead:''" by (metis append.assoc append_take_drop_id rest)
    then show ?thesis unfolding ends_with_iff by blast
  qed (simp add: rest ends_with_iff)
qed

lemma first_at_end:
  assumes "s = t @ p @ [c]" "\<not> sublist (p @ [c]) (t @ p)"
  shows "split_str (p @ [c]) s = Some (t, [])"
proof (cases "split_str (p @ [c]) s")
  case None
  then show ?thesis using split_str_None [OF None] assms(1) by (auto simp: sublist_def)
next
  case (Some ab)
  then obtain a b where ab: "split_str (p @ [c]) s = Some (a, b)" by (cases ab) auto
  then have s: "s = a @ (p @ [c]) @ b" using split_str_Some by blast
  show ?thesis
  proof (cases b rule: rev_cases)
    case Nil
    then show ?thesis using ab s assms(1) by simp
  next
    case (snoc b' d)
    then have "t @ p = a @ (p @ [c]) @ b'" using s assms(1) by simp
    then show ?thesis using assms(2) by (metis sublist_appendI)
  qed
qed

text \<open>
  A description without bytes above 127 is read unless it ends with \<open>bead:\<close>; one that does, with no other
  \<open>bead:\<close> before it, panics.
\<close>

theorem references_panic_at_the_end:
  assumes "list_all (\<lambda>c. \<not> is_continuation c) (to_lowercase message)"
  shows "(\<not> ends_with (to_lowercase message) ''bead:'' \<longrightarrow> extract_bead_refs message \<noteq> None)
    \<and> (\<forall>t. to_lowercase message = t @ ''bead:'' \<and> \<not> sublist ''bead:'' (t @ ''bead'') \<longrightarrow> extract_bead_refs message = None)"
proof (intro conjI impI allI)
  show "extract_bead_refs message \<noteq> None" if "\<not> ends_with (to_lowercase message) ''bead:''"
    using panic_at_end [of "[]" "to_lowercase message"] that assms by (auto simp: extract_bead_refs_def Let_def)
  fix t assume t: "to_lowercase message = t @ ''bead:'' \<and> \<not> sublist ''bead:'' (t @ ''bead'')"
  have "split_str ''bead:'' (to_lowercase message) = Some (t, [])"
    using first_at_end [of "to_lowercase message" t "''bead''" "CHR '':''"] t by simp
  then have "bead_colon_refs [] (to_lowercase message) = None"
    by (subst bead_colon_refs.simps) (simp add: slice_from_def is_char_boundary_def)
  then show "extract_bead_refs message = None" by (simp add: extract_bead_refs_def Let_def)
qed

theorem references_panic_at_the_end_witness:
  "extract_bead_refs ''Fixes bead:'' = None \<and> extract_bead_refs ''Fixes bead:a-1.'' \<noteq> None"
proof -
  have l: "to_lowercase ''Fixes bead:'' = ''fixes '' @ ''bead:''" "to_lowercase ''Fixes bead:a-1.'' = ''fixes bead:a-1.''" by code_simp+
  have c: "list_all (\<lambda>c. \<not> is_continuation c) ''fixes bead:''" "list_all (\<lambda>c. \<not> is_continuation c) ''fixes bead:a-1.''" by code_simp+
  have "\<not> ends_with ''fixes bead:a-1.'' ''bead:''" "\<not> sublist ''bead:'' (''fixes '' @ ''bead'')" by code_simp+
  then show ?thesis using references_panic_at_the_end [of "''Fixes bead:''"] references_panic_at_the_end [of "''Fixes bead:a-1.''"]
    unfolding l using c by simp
qed

end
