(* ===== verification/Bead_Publish.thy ===== *)
theory Bead_Publish
  imports Bead_Projection Bead_Ids Restore_Records
begin

text \<open>
  Publication of beads with commits (\<open>src/publish/\<close> \<open>commit.rs\<close>, \<open>push.rs\<close>, \<open>trunk.rs\<close>): the commit hook
  publishes the beads that the subject names, the gate before a push compares the pushed records with the
  store, and the refresh of the trunk brings every published record up to date.

  What git answers is input: the subjects and the file of a pushed commit, and where a refresh runs. The
  git commands the refresh of the trunk runs, each of which may fail, are a parameter of it.
\<close>

section \<open>The commit hook\<close>

datatype publish_error =
    NoStore "string list"
  | UnknownBead string
  | OfProjection projection_error

text \<open>The first occurrence of each element stays.\<close>

definition dedup_first :: "'a list \<Rightarrow> 'a list" where
  "dedup_first xs = rev (remdups (rev xs))"

fun check_known :: "projection_env \<Rightarrow> bead_db \<Rightarrow> string list \<Rightarrow> publish_error option" where
  "check_known ev db [] = None"
| "check_known ev db (i # is) =
     (case of_store (get_bead (pe_instant ev) db i (pe_repo ev)) of
        Inl e \<Rightarrow> Some (OfProjection e)
      | Inr None \<Rightarrow> Some (UnknownBead i)
      | Inr (Some _) \<Rightarrow> check_known ev db is)"

fun publish_each :: "projection_env \<Rightarrow> bead_db \<Rightarrow> string list \<Rightarrow> string \<Rightarrow> string list \<Rightarrow> string \<times> (publish_error + string list)" where
  "publish_each ev db [] txt printed = (txt, Inr printed)"
| "publish_each ev db (i # is) txt printed =
     (case upsert_tracked_bead ev db i True txt of
        (txt', Inl e) \<Rightarrow> (txt', Inl (OfProjection e))
      | (txt', Inr changed) \<Rightarrow> publish_each ev db is txt' (if changed then printed @ [i] else printed))"

text \<open>The identifiers that the call and the message name and that belong to the repository.\<close>

definition own_ids :: "string \<Rightarrow> string option \<Rightarrow> string list \<Rightarrow> string list" where
  "own_ids repo_name msg ids =
     filter (\<lambda>i. is_own_repo_id i repo_name) (dedup_first (ids @ (case msg of None \<Rightarrow> [] | Some m \<Rightarrow> subject_bead_ids m)))"

text \<open>\<open>usable\<close>: there is a store of exactly one kind. The result lists the identifiers that are printed.\<close>

definition publish_from_commit :: "projection_env \<Rightarrow> bool \<Rightarrow> bead_db \<Rightarrow> string option \<Rightarrow> string list \<Rightarrow> string
    \<Rightarrow> string \<times> (publish_error + string list)" where
  "publish_from_commit ev usable db msg ids txt =
     (let own = own_ids (pe_repo ev) msg ids
      in if own = [] then (txt, Inr [])
         else if \<not> usable then (txt, Inl (NoStore own))
         else (case check_known ev db own of
                 Some e \<Rightarrow> (txt, Inl e)
               | None \<Rightarrow> publish_each ev db own txt []))"

section \<open>The gate before a push\<close>

record pushed_ref =
  pu_local_sha :: string
  pu_remote_sha :: string

definition is_null_sha :: "string \<Rightarrow> bool" where
  "is_null_sha sha \<longleftrightarrow> sha \<noteq> [] \<and> list_all (\<lambda>c. c = CHR ''0'') sha"

fun parse_prepush_lines :: "string list \<Rightarrow> string + pushed_ref list" where
  "parse_prepush_lines [] = Inr []"
| "parse_prepush_lines (l # ls) =
     (case split_whitespace l of
        [_, local_sha, _, remote_sha] \<Rightarrow>
          (case parse_prepush_lines ls of
             Inl e \<Rightarrow> Inl e
           | Inr refs \<Rightarrow> Inr (if is_null_sha local_sha then refs else \<lparr> pu_local_sha = local_sha, pu_remote_sha = remote_sha \<rparr> # refs))
      | _ \<Rightarrow> Inl l)"

definition parse_prepush_stdin :: "string \<Rightarrow> string + pushed_ref list" where
  "parse_prepush_stdin input = parse_prepush_lines (filter (\<lambda>l. trim l \<noteq> []) (lines_of input))"

definition named_bead_ids :: "string list \<Rightarrow> string list" where
  "named_bead_ids subjects = remdups_adj (sort (concat (map extract_bracket_ids subjects)))"

record blob_index =
  bx_records :: "(string \<times> string) list"
  bx_duplicates :: "string list"

definition index_line :: "(string \<Rightarrow> json option) \<Rightarrow> blob_index \<Rightarrow> string \<Rightarrow> blob_index" where
  "index_line parse ix l =
     (case Option.bind (parse l) json_id of
        None \<Rightarrow> ix
      | Some i \<Rightarrow>
          \<lparr> bx_records = bt_insert i l (bx_records ix),
            bx_duplicates = (if map_of (bx_records ix) i \<noteq> None then sort (remdups (i # bx_duplicates ix)) else bx_duplicates ix) \<rparr>)"

definition parse_blob :: "(string \<Rightarrow> json option) \<Rightarrow> string \<Rightarrow> blob_index" where
  "parse_blob parse txt =
     foldl (index_line parse) \<lparr> bx_records = [], bx_duplicates = [] \<rparr> (filter (\<lambda>l. trim l \<noteq> []) (lines_of txt))"

record disagreement =
  dg_missing :: "string list"
  dg_stale :: "string list"

definition no_disagreement :: disagreement where
  "no_disagreement = \<lparr> dg_missing = [], dg_stale = [] \<rparr>"

definition is_agreement :: "disagreement \<Rightarrow> bool" where
  "is_agreement d \<longleftrightarrow> dg_missing d = [] \<and> dg_stale d = []"

fun compare_loop :: "projection_env \<Rightarrow> bead_db \<Rightarrow> blob_index \<Rightarrow> string list \<Rightarrow> disagreement \<Rightarrow> projection_error + disagreement" where
  "compare_loop ev db blob [] d = Inr d"
| "compare_loop ev db blob (i # is) d =
     (case of_store (get_bead (pe_instant ev) db i (pe_repo ev)) of
        Inl e \<Rightarrow> Inl e
      | Inr None \<Rightarrow> compare_loop ev db blob is d
      | Inr (Some b) \<Rightarrow>
          (case render_bead_line ev db b of
             Inl e \<Rightarrow> Inl e
           | Inr rendered \<Rightarrow>
               compare_loop ev db blob is
                 (case map_of (bx_records blob) i of
                    None \<Rightarrow> d\<lparr> dg_missing := dg_missing d @ [i] \<rparr>
                  | Some line \<Rightarrow>
                      if i \<in> set (bx_duplicates blob) \<or> line \<noteq> rendered then d\<lparr> dg_stale := dg_stale d @ [i] \<rparr> else d)))"

definition compare_pushed :: "projection_env \<Rightarrow> bead_db \<Rightarrow> string list \<Rightarrow> blob_index \<Rightarrow> projection_error + disagreement" where
  "compare_pushed ev db ids blob = compare_loop ev db blob ids no_disagreement"

text \<open>
  What git says of the pushed commits: whether a tip tracks the file, the subjects of the commits that a ref
  adds (\<open>None\<close> when git fails), and the file of a tip.
\<close>

record push_view =
  pv_tracks :: "string \<Rightarrow> bool"
  pv_subjects :: "pushed_ref \<Rightarrow> string list option"
  pv_blob :: "string \<Rightarrow> string option"

datatype gate_error =
    BadStdin string
  | GitFailed
  | GateStore projection_error
  | Refused "(string \<times> disagreement) list"

fun pushed_work :: "push_view \<Rightarrow> pushed_ref list \<Rightarrow> gate_error + (pushed_ref \<times> string list) list" where
  "pushed_work pv [] = Inr []"
| "pushed_work pv (r # rs) =
     (if \<not> pv_tracks pv (pu_local_sha r) then pushed_work pv rs
      else (case pv_subjects pv r of
          None \<Rightarrow> Inl GitFailed
        | Some subjects \<Rightarrow>
            (case pushed_work pv rs of
               Inl e \<Rightarrow> Inl e
             | Inr work \<Rightarrow> Inr (if named_bead_ids subjects = [] then work else (r, named_bead_ids subjects) # work))))"

definition blob_records :: "projection_env \<Rightarrow> push_view \<Rightarrow> string \<Rightarrow> blob_index" where
  "blob_records ev pv sha = parse_blob (pe_parse ev) (case pv_blob pv sha of None \<Rightarrow> [] | Some t \<Rightarrow> t)"

fun gate_failures :: "projection_env \<Rightarrow> bead_db \<Rightarrow> push_view \<Rightarrow> (pushed_ref \<times> string list) list \<Rightarrow> projection_error + (string \<times> disagreement) list" where
  "gate_failures ev db pv [] = Inr []"
| "gate_failures ev db pv ((r, ids) # work) =
     (case compare_pushed ev db ids (blob_records ev pv (pu_local_sha r)) of
        Inl e \<Rightarrow> Inl e
      | Inr d \<Rightarrow>
          (case gate_failures ev db pv work of
             Inl e \<Rightarrow> Inl e
           | Inr fs \<Rightarrow> Inr (if is_agreement d then fs else (pu_local_sha r, d) # fs)))"

text \<open>The store: \<open>None\<close> where there is none to gate (Dolt pushes its own), \<open>Inl\<close> where it cannot vouch for anything.\<close>

definition verify_pushed :: "projection_env \<Rightarrow> projection_error + bead_db option \<Rightarrow> push_view \<Rightarrow> string \<Rightarrow> gate_error + unit" where
  "verify_pushed ev store pv input =
     (case parse_prepush_stdin input of
        Inl l \<Rightarrow> Inl (BadStdin l)
      | Inr refs \<Rightarrow>
          (case pushed_work pv refs of
             Inl e \<Rightarrow> Inl e
           | Inr work \<Rightarrow>
               (if work = [] then Inr ()
                else (case store of
                    Inl e \<Rightarrow> Inl (GateStore e)
                  | Inr None \<Rightarrow> Inr ()
                  | Inr (Some db) \<Rightarrow>
                      (case gate_failures ev db pv work of
                         Inl e \<Rightarrow> Inl (GateStore e)
                       | Inr fs \<Rightarrow> if fs = [] then Inr () else Inl (Refused fs))))))"

definition failure_line :: "string \<times> disagreement \<Rightarrow> string" where
  "failure_line f =
     (case f of (sha, d) \<Rightarrow>
        ''  '' @ take 12 sha @ '': ''
        @ join_with ''; ''
            ((if dg_missing d = [] then [] else [''missing '' @ join_with '', '' (dg_missing d)])
             @ (if dg_stale d = [] then [] else [''stale '' @ join_with '', '' (dg_stale d)])))"

definition refusal_message :: "(string \<times> disagreement) list \<Rightarrow> string" where
  "refusal_message failures =
     (let all_ids = remdups_adj (sort (concat (map (\<lambda>(_, d). dg_missing d @ dg_stale d) failures)))
      in ''the pushed .beads/beads.jsonl disagrees with the bead store for beads the pushed commits name:'' @ [CHR 0x0A]
         @ join_with [CHR 0x0A] (map failure_line failures) @ [CHR 0x0A]
         @ ''  fix: rsry bead publish '' @ join_with '' '' all_ids @ '' && git commit --amend --no-edit'' @ [CHR 0x0A]
         @ ''  (or commit the publish as a follow-up), then push again'')"

section \<open>The refresh of the trunk\<close>

definition changed_ids :: "(string \<Rightarrow> json option) \<Rightarrow> string \<Rightarrow> string \<Rightarrow> string list" where
  "changed_ids parse before after =
     (let a = bx_records (parse_blob parse before); b = bx_records (parse_blob parse after)
      in remdups_adj (sort (filter (\<lambda>i. map_of a i \<noteq> map_of b i) (map fst a @ map fst b))))"

definition refresh_message :: "string list \<Rightarrow> string" where
  "refresh_message ids =
     ''['' @ (case ids of [] \<Rightarrow> ''rosary-000000'' | i # _ \<Rightarrow> i) @ ''] chore(beads): trunk refresh ''
     @ [CHR 0xE2, CHR 0x80, CHR 0x94] @ '' '' @ show_nat (length ids) @ '' record(s)'' @ [CHR 0x0A, CHR 0x0A]
     @ ''Re-rendered from the store after a merge (ADR-0024 amendment A, rosary-e5c0a0):'' @ [CHR 0x0A]
     @ concat (map (\<lambda>i. ''  '' @ i @ [CHR 0x0A]) ids)"

text \<open>The reasons of a refresh that has nothing to do here, and the git step that failed.\<close>

datatype trunk_outcome =
    Skipped string
  | NoChange
  | Committed "string list" bool
  | Parked "string list"

datatype git_step = GitQuery | GitAdd | GitCommit | GitPush | GitBranch | GitReset

datatype trunk_error = StepFailed git_step | DirtyFile | TrunkProjection projection_error

definition TRUNK_JSONL_PATH :: string where
  "TRUNK_JSONL_PATH = ''.beads/beads.jsonl''"

definition PARKING_BRANCH :: string where
  "PARKING_BRANCH = ''rsry/trunk-refresh''"

text \<open>
  Git, on a checkout of any kind: the commands the refresh runs, with whether they succeeded (\<open>None\<close>
  when the command could not be run), and what there is to see: the working tree, the index, the trees of
  the tip and of the commit before it, and the one of a branch. \<open>gt_status\<close> is whether the status of the
  tracked file prints anything. What is relied on is \<open>git_laws\<close> of \<open>Publish_Behaviour\<close>.
\<close>

type_synonym tree_view = "string \<Rightarrow> string option"

record 'g git =
  gt_status :: "'g \<Rightarrow> bool option"
  gt_write :: "string \<Rightarrow> string \<Rightarrow> 'g \<Rightarrow> 'g"
  gt_add :: "string \<Rightarrow> 'g \<Rightarrow> 'g \<times> bool"
  gt_commit :: "string \<Rightarrow> 'g \<Rightarrow> 'g \<times> bool"
  gt_push :: "string \<Rightarrow> 'g \<Rightarrow> 'g \<times> bool option"
  gt_branch_force :: "string \<Rightarrow> 'g \<Rightarrow> 'g \<times> bool"
  gt_reset_hard :: "'g \<Rightarrow> 'g \<times> bool"
  gt_work :: "'g \<Rightarrow> tree_view"
  gt_index :: "'g \<Rightarrow> tree_view"
  gt_tip :: "'g \<Rightarrow> tree_view"
  gt_parent :: "'g \<Rightarrow> tree_view"
  gt_branch_tree :: "'g \<Rightarrow> string \<Rightarrow> tree_view option"

text \<open>What git answers on where the refresh runs; the branches that are there, no one when git fails.\<close>

record trunk_view =
  tv_git_dir :: "string option"
  tv_common_dir :: "string option"
  tv_has_branch :: "string \<Rightarrow> bool"
  tv_current :: "string option"
  tv_tracked :: "bool option"

definition trunk_branch :: "trunk_view \<Rightarrow> string option" where
  "trunk_branch tv = List.find (tv_has_branch tv) [''main'', ''master'']"

definition then_git :: "git_step \<Rightarrow> 'g \<times> bool \<Rightarrow> ('g \<Rightarrow> 'g \<times> (trunk_error + trunk_outcome))
    \<Rightarrow> 'g \<times> (trunk_error + trunk_outcome)" where
  "then_git step r f = (if snd r then f (fst r) else (fst r, Inl (StepFailed step)))"

text \<open>The commit of what was refreshed, its push, and its parking when the push is refused.\<close>

definition commit_refresh :: "'g git \<Rightarrow> string \<Rightarrow> bool \<Rightarrow> string list \<Rightarrow> 'g \<Rightarrow> 'g \<times> (trunk_error + trunk_outcome)" where
  "commit_refresh G trunk push ids g =
     then_git GitAdd (gt_add G TRUNK_JSONL_PATH g) (\<lambda>g.
     then_git GitCommit (gt_commit G (refresh_message ids) g) (\<lambda>g.
       if \<not> push then (g, Inr (Committed ids False))
       else (case gt_push G trunk g of
           (g, None) \<Rightarrow> (g, Inl (StepFailed GitPush))
         | (g, Some True) \<Rightarrow> (g, Inr (Committed ids True))
         | (g, Some False) \<Rightarrow>
             then_git GitBranch (gt_branch_force G PARKING_BRANCH g) (\<lambda>g.
             then_git GitReset (gt_reset_hard G g) (\<lambda>g. (g, Inr (Parked ids)))))))"

definition projection_text :: "'g git \<Rightarrow> 'g \<Rightarrow> string" where
  "projection_text G g = (case gt_work G g TRUNK_JSONL_PATH of None \<Rightarrow> [] | Some t \<Rightarrow> t)"

definition refresh_on_trunk :: "'g git \<Rightarrow> projection_env \<Rightarrow> bead_db \<Rightarrow> string \<Rightarrow> bool \<Rightarrow> 'g
    \<Rightarrow> 'g \<times> (trunk_error + trunk_outcome)" where
  "refresh_on_trunk G ev db trunk push g =
     (case gt_status G g of
        None \<Rightarrow> (g, Inl (StepFailed GitQuery))
      | Some True \<Rightarrow> (g, Inl DirtyFile)
      | Some False \<Rightarrow>
          (let before = projection_text G g; (txt, r) = refresh_tracked ev db before;
               g1 = (if txt = before then g else gt_write G TRUNK_JSONL_PATH txt g)
           in case r of
                Inl e \<Rightarrow> (g1, Inl (TrunkProjection e))
              | Inr _ \<Rightarrow>
                  (let ids = changed_ids (pe_parse ev) before txt
                   in if ids = [] then (g1, Inr NoChange) else commit_refresh G trunk push ids g1)))"

definition refresh_trunk :: "'g git \<Rightarrow> projection_env \<Rightarrow> bead_db \<Rightarrow> trunk_view \<Rightarrow> bool \<Rightarrow> 'g
    \<Rightarrow> 'g \<times> (trunk_error + trunk_outcome)" where
  "refresh_trunk G ev db tv push g =
     (case (tv_git_dir tv, tv_common_dir tv) of
        (Some git_dir, Some common) \<Rightarrow>
          if git_dir \<noteq> common
          then (g, Inr (Skipped (''linked worktree '' @ [CHR 0xE2, CHR 0x80, CHR 0x94]
                 @ '' the canonical checkout refreshes the trunk'')))
          else (case trunk_branch tv of
              None \<Rightarrow> (g, Inr (Skipped ''no main/master branch''))
            | Some trunk \<Rightarrow>
                (case tv_current tv of
                   None \<Rightarrow> (g, Inl (StepFailed GitQuery))
                 | Some current \<Rightarrow>
                     if current \<noteq> trunk then (g, Inr (Skipped ''not on the trunk''))
                     else (case tv_tracked tv of
                         None \<Rightarrow> (g, Inl (StepFailed GitQuery))
                       | Some False \<Rightarrow> (g, Inr (Skipped ''the trunk does not track .beads/beads.jsonl''))
                       | Some True \<Rightarrow> refresh_on_trunk G ev db trunk push g)))
      | _ \<Rightarrow> (g, Inl (StepFailed GitQuery)))"

end
