(* ===== verification/Publish_Behaviour.thy ===== *)
theory Publish_Behaviour
  imports Bead_Publish Store_Behaviour
begin

text \<open>
  What the publication of beads promises: the file of records is a map from identifiers to records, the
  commit hook sets exactly the records of the identifiers it publishes to what the store renders, so that
  the gate before the push finds nothing to refuse, and a refresh never adds or loses an identifier.

  serde's reader and printer are parameters; \<open>codec_ok\<close> is what the code relies on: a value is printed on one
  line with no white space around it, and read back as it was.
\<close>

section \<open>The file as a map of records\<close>

definition codec_ok :: "projection_env \<Rightarrow> bool" where
  "codec_ok ev \<longleftrightarrow> (\<forall>v. pe_parse ev (pe_write ev v) = Some v \<and> own_line (pe_write ev v))"

definition published_records :: "projection_env \<Rightarrow> string \<Rightarrow> projection_error + (string \<times> json) list" where
  "published_records ev t =
     (case read_projection ev t of Inl e \<Rightarrow> Inl e | Inr vs \<Rightarrow> fill_records (\<lambda>_ r. Inr r) vs [])"

definition labelled :: "(string \<times> json) list \<Rightarrow> bool" where
  "labelled m \<longleftrightarrow> bt_ok m \<and> (\<forall>(k, v) \<in> set m. json_id v = Some k)"

lemma bt_insert_set: "set (bt_insert k v m) \<subseteq> insert (k, v) (set m)"
  by (induction k v m rule: bt_insert.induct) auto

lemma labelled_insert: "labelled m \<Longrightarrow> json_id v = Some k \<Longrightarrow> labelled (bt_insert k v m)"
  using bt_insert_set [of k v m] by (auto simp: labelled_def)

lemma fill_labelled:
  assumes "\<And>i r v. json_id r = Some i \<Longrightarrow> f i r = Inr v \<Longrightarrow> json_id v = Some i"
  shows "labelled m0 \<Longrightarrow> fill_records f rs m0 = Inr m \<Longrightarrow> labelled m"
  by (induction rs arbitrary: m0) (auto split: option.splits sum.splits if_splits intro: labelled_insert assms)

text \<open>A map of records that is written out in its order is filled back as it was.\<close>

lemma bt_insert_last: "bt_ok (a @ [(k, v)]) \<Longrightarrow> bt_insert k v a = a @ [(k, v)]"
proof (induction a)
  case (Cons p a)
  obtain k' v' where p: "p = (k', v')" by force
  have "bt_ok (a @ [(k, v)])" "k' < k" using Cons.prems p by (auto simp: bt_ok_Cons)
  then show ?case using Cons.IH p by auto
qed simp

lemma bt_ok_append: "bt_ok (a @ b) \<Longrightarrow> bt_ok a"
  by (simp add: bt_ok_def sorted_wrt_append)

lemma fill_back: "labelled (a @ b) \<Longrightarrow> fill_records (\<lambda>_ r. Inr r) (map snd b) a = Inr (a @ b)"
proof (induction b arbitrary: a)
  case (Cons p b)
  obtain k v where p: "p = (k, v)" by force
  have l: "labelled ((a @ [(k, v)]) @ b)" using Cons.prems p by simp
  have v: "json_id v = Some k" using l by (simp add: labelled_def)
  have ok: "bt_ok (a @ [(k, v)])" using l bt_ok_append unfolding labelled_def by blast
  have "map_of a k = None"
    using bt_ok_distinct [OF ok] by (auto simp: map_of_eq_None_iff)
  then show ?case using p v Cons.IH [OF l] by (simp add: bt_insert_last [OF ok])
qed simp

lemma lines_of_jsonl_join:
  assumes "\<forall>l \<in> set ls. own_line l"
  shows "lines_of (jsonl_join ls) = ls"
proof (cases "ls = []")
  case False
  have ne: "\<forall>l \<in> set ls. CHR 0x0A \<notin> set l \<and> l \<noteq> [] \<and> last l \<noteq> CHR 0x0D" using assms own_line_facts by blast
  have "split_on (CHR 0x0A) (join_with [CHR 0x0A] ls @ [CHR 0x0A]) = ls @ [[]]"
  proof -
    have "join_with [CHR 0x0A] (ls @ [[]]) = join_with [CHR 0x0A] ls @ [CHR 0x0A]"
      using False by (induction "[CHR 0x0A]" ls rule: join_with.induct) auto
    then show ?thesis using split_join [of "ls @ [[]]" "CHR 0x0A"] ne by auto
  qed
  moreover have "map strip_cr ls = ls"
    by (rule map_idI) (use ne in \<open>force simp: strip_cr_def\<close>)
  ultimately show ?thesis using False by (simp add: jsonl_join_def lines_of_def)
qed (simp add: jsonl_join_def lines_of_def)

lemma written_records:
  assumes "codec_ok ev" "labelled m"
  shows "published_records ev (serialize_records (pe_write ev) m) = Inr m"
proof -
  let ?vs = "map snd m"
  have "lines_of (serialize_records (pe_write ev) m) = map (pe_write ev) ?vs"
    unfolding serialize_records_def by (rule lines_of_jsonl_join) (use assms(1) in \<open>auto simp: codec_ok_def\<close>)
  then have "read_projection ev (serialize_records (pe_write ev) m) = Inr ?vs"
    using read_written [of "pe_parse ev" "pe_write ev" 0 ?vs] assms(1)
    by (simp add: read_projection_def read_beads_jsonl_def codec_ok_def)
  then show ?thesis using fill_back [of "[]" m] assms(2) by (simp add: published_records_def)
qed

lemma published_labelled: "published_records ev t = Inr m \<Longrightarrow> labelled m"
  using fill_labelled [of "\<lambda>_ r. Inr r" "[]"]
  by (auto simp: published_records_def labelled_def [of "[]"] split: sum.splits)

section \<open>The record of a bead\<close>

lemma contract_id: "json_id (bead_to_contract_value rfc b ds cs) = Some (b_id b)"
  by (simp add: json_id_def contract_core contract_members_def)

lemma live_id: "live_contract_value ev db b = Inr v \<Longrightarrow> json_id v = Some (b_id b)"
  by (auto simp: live_contract_value_def of_store_def contract_of_def contract_id split: sum.splits)

lemma read_bead_id: "read_bead parse db repo r = Some b \<Longrightarrow> b_id b = ir_id r"
  by (auto simp: read_bead_def bead_from_row_def Let_def split: option.splits)

lemma get_exact_id:
  assumes "row_of db i \<noteq> None" "get_bead parse db i repo = Inr (Some b)"
  shows "b_id b = i"
proof -
  obtain r where r: "row_of db i = Some r" using assms(1) by blast
  then have "read_bead parse db repo r = Some b"
    using assms(2) by (auto simp: get_bead_def resolve_self split: option.splits)
  then show ?thesis using read_bead_id row_of_Some [OF r] by force
qed

text \<open>What the store renders for an identifier.\<close>

definition rendered_record :: "projection_env \<Rightarrow> bead_db \<Rightarrow> string \<Rightarrow> json option" where
  "rendered_record ev db i =
     (case get_bead (pe_instant ev) db i (pe_repo ev) of
        Inr (Some b) \<Rightarrow> (case live_contract_value ev db b of Inl _ \<Rightarrow> None | Inr v \<Rightarrow> Some v)
      | _ \<Rightarrow> None)"

lemma rendered_id: "row_of db i \<noteq> None \<Longrightarrow> rendered_record ev db i = Some v \<Longrightarrow> json_id v = Some i"
  using get_exact_id live_id by (fastforce simp: rendered_record_def split: sum.splits option.splits)

lemma upsert_result:
  assumes "codec_ok ev" "pe_opted_in ev" "row_of db i \<noteq> None"
    and "upsert_tracked_bead ev db i True old = (new, Inr changed)"
    and "get_bead (pe_instant ev) db i (pe_repo ev) \<noteq> Inr None"
  shows "\<exists>m v. published_records ev old = Inr m \<and> rendered_record ev db i = Some v
    \<and> new = serialize_records (pe_write ev) (bt_insert i v m) \<and> (changed \<longleftrightarrow> new \<noteq> old)"
  using assms
  by (auto simp: upsert_tracked_bead_def published_records_def rendered_record_def of_store_def atomic_replace_def Let_def
      split: sum.splits option.splits if_splits)

lemma get_known: "check_known ev db is = None \<Longrightarrow> i \<in> set is \<Longrightarrow> \<exists>b. get_bead (pe_instant ev) db i (pe_repo ev) = Inr (Some b)"
  by (induction ev db "is" rule: check_known.induct) (auto simp: of_store_def split: sum.splits option.splits)

text \<open>The records with those of some identifiers set to what the store renders.\<close>

definition set_rendered :: "projection_env \<Rightarrow> bead_db \<Rightarrow> string list \<Rightarrow> (string \<times> json) list \<Rightarrow> (string \<times> json) list" where
  "set_rendered ev db is m = foldl (\<lambda>m i. bt_insert i (the (rendered_record ev db i)) m) m is"

lemma set_rendered_get:
  "map_of (set_rendered ev db is m) i = (if i \<in> set is then Some (the (rendered_record ev db i)) else map_of m i)"
  by (induction "is" arbitrary: m) (simp_all add: set_rendered_def bt_get_insert)

lemma set_rendered_labelled:
  assumes "\<forall>i \<in> set is. row_of db i \<noteq> None \<and> rendered_record ev db i \<noteq> None"
  shows "labelled m \<Longrightarrow> labelled (set_rendered ev db is m)"
  using assms
proof (induction "is" arbitrary: m)
  case (Cons i js)
  then have "labelled (bt_insert i (the (rendered_record ev db i)) m)" by (auto intro!: labelled_insert rendered_id)
  then show ?case using Cons by (auto simp: set_rendered_def)
qed (simp add: set_rendered_def)

lemma publish_each_result:
  assumes "codec_ok ev" "pe_opted_in ev" "check_known ev db is = None" "\<forall>i \<in> set is. row_of db i \<noteq> None"
    and "publish_each ev db is old printed = (new, Inr out)" "is \<noteq> []"
  shows "(\<forall>i \<in> set is. rendered_record ev db i \<noteq> None)
    \<and> (\<exists>m. published_records ev old = Inr m \<and> new = serialize_records (pe_write ev) (set_rendered ev db is m))"
  using assms(3-6)
proof (induction "is" arbitrary: old printed)
  case (Cons i js)
  obtain t1 changed where u: "upsert_tracked_bead ev db i True old = (t1, Inr changed)"
    and rest: "publish_each ev db js t1 (if changed then printed @ [i] else printed) = (new, Inr out)"
    using Cons.prems(3) by (auto split: prod.splits sum.splits)
  obtain b where "get_bead (pe_instant ev) db i (pe_repo ev) = Inr (Some b)" using get_known [OF Cons.prems(1)] by auto
  then obtain m v where m: "published_records ev old = Inr m" and v: "rendered_record ev db i = Some v"
    and t1: "t1 = serialize_records (pe_write ev) (bt_insert i v m)"
    using upsert_result [OF assms(1,2) _ u] Cons.prems(2) by auto
  have known: "check_known ev db js = None" using Cons.prems(1) by (auto split: sum.splits option.splits)
  have "labelled (bt_insert i v m)" 
    by (rule labelled_insert [OF published_labelled [OF m] rendered_id [OF _ v]]) (use Cons.prems(2) in simp)
  then have p1: "published_records ev t1 = Inr (bt_insert i v m)" using written_records assms(1) t1 by simp
  show ?case
  proof (cases "js = []")
    case True
    then show ?thesis using rest m v t1 by (simp add: set_rendered_def)
  next
    case False
    have "(\<forall>i \<in> set js. rendered_record ev db i \<noteq> None)
      \<and> (\<exists>m'. published_records ev t1 = Inr m' \<and> new = serialize_records (pe_write ev) (set_rendered ev db js m'))"
      by (rule Cons.IH [OF known _ rest False]) (use Cons.prems(2) in auto)
    then show ?thesis using m v p1 by (auto simp: set_rendered_def)
  qed
qed simp

section \<open>The file as the gate reads it\<close>

lemma blob_fold:
  assumes "codec_ok ev"
  shows "labelled m \<Longrightarrow> (\<forall>k \<in> fst ` set m. map_of (bx_records ix) k = None) \<Longrightarrow>
    (let ix' = foldl (index_line (pe_parse ev)) ix (map (pe_write ev) (map snd m))
     in bx_duplicates ix' = bx_duplicates ix
       \<and> map_of (bx_records ix') = (\<lambda>k. case map_of m k of None \<Rightarrow> map_of (bx_records ix) k | Some v \<Rightarrow> Some (pe_write ev v)))"
proof (induction m arbitrary: ix)
  case (Cons p m)
  obtain k v where p: "p = (k, v)" by force
  have l: "labelled m" "json_id v = Some k" "k \<notin> fst ` set m"
    using Cons.prems(1) p by (auto simp: labelled_def bt_ok_Cons)
  let ?ix = "index_line (pe_parse ev) ix (pe_write ev v)"
  have ix: "bx_duplicates ?ix = bx_duplicates ix" "map_of (bx_records ?ix) = (map_of (bx_records ix))(k \<mapsto> pe_write ev v)"
    using assms l(2) Cons.prems(2) p by (auto simp: index_line_def codec_ok_def bt_get_insert)
  have "\<forall>k' \<in> fst ` set m. map_of (bx_records ?ix) k' = None" using Cons.prems(2) p l(3) by (auto simp: ix(2))
  note ih = Cons.IH [OF l(1) this]
  have "map_of m k = None" using l(3) by (simp add: map_of_eq_None_iff)
  then show ?case using ih by (auto simp: p ix Let_def fun_eq_iff split: option.splits)
qed (simp add: fun_eq_iff)

lemma blob_of_written:
  assumes "codec_ok ev" "labelled m"
  shows "bx_duplicates (parse_blob (pe_parse ev) (serialize_records (pe_write ev) m)) = []"
    "map_of (bx_records (parse_blob (pe_parse ev) (serialize_records (pe_write ev) m))) k = map_option (pe_write ev) (map_of m k)"
proof -
  have ls: "lines_of (serialize_records (pe_write ev) m) = map (pe_write ev) (map snd m)"
    unfolding serialize_records_def by (rule lines_of_jsonl_join) (use assms(1) in \<open>auto simp: codec_ok_def\<close>)
  have "filter (\<lambda>l. trim l \<noteq> []) (map (pe_write ev) (map snd m)) = map (pe_write ev) (map snd m)"
    using assms(1) own_line_facts by (fastforce simp: codec_ok_def intro!: filter_True)
  then have eq: "parse_blob (pe_parse ev) (serialize_records (pe_write ev) m)
      = foldl (index_line (pe_parse ev)) \<lparr> bx_records = [], bx_duplicates = [] \<rparr> (map (pe_write ev) (map snd m))"
    unfolding parse_blob_def ls by (simp only:)
  note f = blob_fold [OF assms, of "\<lparr> bx_records = [], bx_duplicates = [] \<rparr>", unfolded Let_def]
  show "bx_duplicates (parse_blob (pe_parse ev) (serialize_records (pe_write ev) m)) = []" unfolding eq using f by simp
  show "map_of (bx_records (parse_blob (pe_parse ev) (serialize_records (pe_write ev) m))) k = map_option (pe_write ev) (map_of m k)"
    unfolding eq using f by (auto split: option.splits)
qed

text \<open>The gate agrees with every identifier that is not in the store or whose line is the rendered one.\<close>

definition line_agrees :: "projection_env \<Rightarrow> bead_db \<Rightarrow> blob_index \<Rightarrow> string \<Rightarrow> bool" where
  "line_agrees ev db blob i \<longleftrightarrow>
     get_bead (pe_instant ev) db i (pe_repo ev) = Inr None
     \<or> (\<exists>v. rendered_record ev db i = Some v \<and> map_of (bx_records blob) i = Some (pe_write ev v) \<and> i \<notin> set (bx_duplicates blob))"

lemma compare_agrees: "\<forall>i \<in> set is. line_agrees ev db blob i \<Longrightarrow> compare_loop ev db blob is d = Inr d"
  by (induction ev db blob "is" d rule: compare_loop.induct)
     (auto simp: line_agrees_def rendered_record_def render_bead_line_def of_store_def split: sum.splits option.splits)

section \<open>The hook and the gate\<close>

lemma set_dedup_first [simp]: "set (dedup_first xs) = set xs"
  by (simp add: dedup_first_def)

lemma own_ids_set:
  "set (own_ids repo (Some msg) []) = {i \<in> set (subject_bead_ids msg). is_own_repo_id i repo}"
  by (auto simp: own_ids_def)

lemma named_one_subject: "set (named_bead_ids [subject_of msg]) = set (subject_bead_ids msg)"
  by (simp add: named_bead_ids_def subject_bead_ids_def)

lemma verify_one_ref:
  assumes "parse_prepush_stdin input = Inr [r]" "pv_subjects pv r = Some [subject_of msg]" "pv_tracks pv (pu_local_sha r)"
  shows "verify_pushed ev (Inr (Some db)) pv input =
    (if subject_bead_ids msg = [] then Inr ()
     else (case compare_pushed ev db (named_bead_ids [subject_of msg]) (blob_records ev pv (pu_local_sha r)) of
        Inl e \<Rightarrow> Inl (GateStore e)
      | Inr d \<Rightarrow> if is_agreement d then Inr () else Inl (Refused [(pu_local_sha r, d)])))"
proof -
  have "named_bead_ids [subject_of msg] = [] \<longleftrightarrow> subject_bead_ids msg = []"
    using named_one_subject [of msg] by (metis set_empty)
  then show ?thesis using assms by (auto simp: verify_pushed_def split: sum.splits)
qed

lemma hook_records:
  assumes "codec_ok ev" "pe_opted_in ev" "\<forall>i \<in> set (own_ids (pe_repo ev) msg ids). row_of db i \<noteq> None"
    and "publish_from_commit ev usable db msg ids old = (new, Inr printed)" "own_ids (pe_repo ev) msg ids \<noteq> []"
  shows "\<exists>m m'. published_records ev old = Inr m \<and> labelled m' \<and> new = serialize_records (pe_write ev) m'
    \<and> (\<forall>i. map_of m' i = (if i \<in> set (own_ids (pe_repo ev) msg ids) then rendered_record ev db i else map_of m i))
    \<and> (\<forall>i \<in> set (own_ids (pe_repo ev) msg ids). rendered_record ev db i \<noteq> None)"
proof -
  let ?own = "own_ids (pe_repo ev) msg ids"
  have known: "check_known ev db ?own = None" and each: "publish_each ev db ?own old [] = (new, Inr printed)"
    using assms(4,5) by (auto simp: publish_from_commit_def Let_def split: if_splits option.splits)
  obtain m where m: "published_records ev old = Inr m" "new = serialize_records (pe_write ev) (set_rendered ev db ?own m)"
    and some: "\<forall>i \<in> set ?own. rendered_record ev db i \<noteq> None"
    using publish_each_result [OF assms(1,2) known assms(3) each assms(5)] by blast
  have "labelled (set_rendered ev db ?own m)"
    using set_rendered_labelled published_labelled [OF m(1)] some assms(3) by blast
  then show ?thesis using m some by (intro exI [of _ m] exI [of _ "set_rendered ev db ?own m"]) (auto simp: set_rendered_get)
qed

text \<open>
  C31. What the commit hook has written passes the gate: when every identifier that the subject names is one of the
  repository's that the store holds, or one that the store does not know, and the hook succeeds, a push of
  that commit with the file the hook left is let through by the same store. The hook has set the records of
  its own identifiers, and no others, to what the store renders.
\<close>

theorem hook_output_passes_the_gate:
  assumes "codec_ok ev" "pe_opted_in ev"
    and "\<forall>i \<in> set (subject_bead_ids msg).
      is_own_repo_id i (pe_repo ev) \<and> row_of db i \<noteq> None \<or> get_bead (pe_instant ev) db i (pe_repo ev) = Inr None"
    and "publish_from_commit ev usable db (Some msg) [] old = (new, Inr printed)"
    and "parse_prepush_stdin input = Inr [r]" "pv_tracks pv (pu_local_sha r)"
    and "pv_subjects pv r = Some [subject_of msg]" "pv_blob pv (pu_local_sha r) = Some new"
  shows "verify_pushed ev (Inr (Some db)) pv input = Inr ()
    \<and> (own_ids (pe_repo ev) (Some msg) [] = [] \<and> new = old
       \<or> (\<exists>m m'. published_records ev old = Inr m \<and> published_records ev new = Inr m'
          \<and> (\<forall>i. map_of m' i = (if i \<in> set (own_ids (pe_repo ev) (Some msg) []) then rendered_record ev db i else map_of m i))))"
proof -
  let ?own = "own_ids (pe_repo ev) (Some msg) []"
  let ?blob = "blob_records ev pv (pu_local_sha r)"
  note pub = assms(4) [unfolded publish_from_commit_def Let_def]
  have exact: "row_of db i \<noteq> None" if i: "i \<in> set ?own" for i
  proof -
    have "check_known ev db ?own = None" using pub i by (auto split: if_splits option.splits)
    from get_known [OF this i] show ?thesis using assms(3) i by (auto simp: own_ids_set)
  qed
  have unknown: "get_bead (pe_instant ev) db i (pe_repo ev) = Inr None" if "i \<in> set (subject_bead_ids msg)" "i \<notin> set ?own" for i
    using assms(3) that by (auto simp: own_ids_set)
  show ?thesis
  proof (cases "?own = []")
    case True
    then have "compare_pushed ev db (named_bead_ids [subject_of msg]) ?blob = Inr no_disagreement"
      unfolding compare_pushed_def by (intro compare_agrees) (auto simp: line_agrees_def named_one_subject intro: unknown)
    then show ?thesis using True pub
      by (simp add: verify_one_ref [OF assms(5,7,6)] is_agreement_def no_disagreement_def)
  next
    case False
    then obtain m m' where m: "published_records ev old = Inr m" "labelled m'" "new = serialize_records (pe_write ev) m'"
      "\<forall>i. map_of m' i = (if i \<in> set ?own then rendered_record ev db i else map_of m i)"
      and some: "\<forall>i \<in> set ?own. rendered_record ev db i \<noteq> None"
      using hook_records [OF assms(1,2) _ assms(4)] exact by blast
    have blob: "?blob = parse_blob (pe_parse ev) (serialize_records (pe_write ev) m')" using assms(8) m(3) by (simp add: blob_records_def)
    have "line_agrees ev db ?blob i" if "i \<in> set (subject_bead_ids msg)" for i
      using unknown [OF that] some m(4) by (cases "i \<in> set ?own") (auto simp: line_agrees_def blob blob_of_written [OF assms(1) m(2)])
    then have "compare_pushed ev db (named_bead_ids [subject_of msg]) ?blob = Inr no_disagreement"
      unfolding compare_pushed_def by (intro compare_agrees) (auto simp: named_one_subject)
    then show ?thesis using m written_records [OF assms(1) m(2)]
      by (auto simp: verify_one_ref [OF assms(5,7,6)] is_agreement_def no_disagreement_def)
  qed
qed







section \<open>Refreshing\<close>

lemma fill_same:
  assumes "\<forall>r \<in> set rs. \<forall>i. json_id r = Some i \<longrightarrow> f i r = Inr r"
  shows "fill_records f rs out = fill_records (\<lambda>_ r. Inr r) rs out"
  using assms by (induction rs arbitrary: out) (auto split: option.splits)

lemma fill_related:
  assumes "\<forall>k. rel_option (\<lambda>r v. f k r = Inr v) (map_of a k) (map_of b k)" "fill_records f rs b = Inr m'"
  shows "\<exists>m. fill_records (\<lambda>_ r. Inr r) rs a = Inr m \<and> (\<forall>k. rel_option (\<lambda>r v. f k r = Inr v) (map_of m k) (map_of m' k))"
  using assms
proof (induction rs arbitrary: a b)
  case (Cons r rs)
  obtain i v where i: "json_id r = Some i" "f i r = Inr v" "map_of b i = None" "fill_records f rs (bt_insert i v b) = Inr m'"
    using Cons.prems(2) by (auto split: option.splits sum.splits if_splits)
  have "map_of a i = None" using Cons.prems(1) i(3) by (metis option.rel_distinct(2) not_None_eq)
  moreover have "\<forall>k. rel_option (\<lambda>r v. f k r = Inr v) (map_of (bt_insert i r a) k) (map_of (bt_insert i v b) k)"
    using Cons.prems(1) i(2) by (simp add: bt_get_insert)
  ultimately show ?case using Cons.IH [OF _ i(4)] i(1) by simp
qed simp

lemma refreshed_id: "json_id r = Some i \<Longrightarrow> refreshed_value ev db live i r = Inr v \<Longrightarrow> json_id v = Some i"
  by (auto simp: refreshed_value_def split: option.splits dest!: map_of_SomeD live_id)

lemma refreshed_again: "refreshed_value ev db live i r = Inr v \<Longrightarrow> refreshed_value ev db live i v = Inr v"
  by (auto simp: refreshed_value_def split: option.splits)

definition live_beads :: "projection_env \<Rightarrow> bead_db \<Rightarrow> bead list" where
  "live_beads ev db = (case list_all_beads (pe_instant ev) db (pe_repo ev) of Inl _ \<Rightarrow> [] | Inr bs \<Rightarrow> bs)"

lemma refresh_parts:
  assumes "codec_ok ev" "pe_opted_in ev" "refresh_tracked ev db old = (new, Inr changed)"
  shows "\<exists>m m'. published_records ev old = Inr m \<and> labelled m' \<and> new = serialize_records (pe_write ev) m'
    \<and> (\<forall>i. rel_option (\<lambda>r v. refreshed_value ev db (live_beads ev db) i r = Inr v) (map_of m i) (map_of m' i))
    \<and> refresh_tracked ev db new = (new, Inr True)"
proof -
  let ?f = "refreshed_value ev db (live_beads ev db)"
  obtain bs where bs: "list_all_beads (pe_instant ev) db (pe_repo ev) = Inr bs"
    using assms(2,3) by (auto simp: refresh_tracked_def export_published_beads_def of_store_def split: if_splits sum.splits)
  have live: "live_beads ev db = bs" using bs by (simp add: live_beads_def)
  obtain vs m' where vs: "read_projection ev old = Inr vs" and m': "fill_records ?f vs [] = Inr m'"
    and new: "new = serialize_records (pe_write ev) m'" and ok: "pe_replace_ok ev"
    using assms(2,3) bs by (auto simp: refresh_tracked_def export_published_beads_def of_store_def atomic_replace_def live map_sum_def
        split: if_splits sum.splits)
  obtain m where m: "fill_records (\<lambda>_ r. Inr r) vs [] = Inr m" "\<forall>i. rel_option (\<lambda>r v. ?f i r = Inr v) (map_of m i) (map_of m' i)"
    using fill_related [of ?f "[]" "[]", OF _ m'] by auto
  have l: "labelled m'" by (rule fill_labelled [OF _ _ m']) (auto simp: labelled_def dest: refreshed_id)
  have same: "?f k v = Inr v" if "(k, v) \<in> set m'" for k v
  proof -
    have "map_of m' k = Some v" using l by (auto simp: labelled_def intro: map_of_is_SomeI bt_ok_distinct that)
    then obtain r where "?f k r = Inr v" using spec [OF m(2), of k] by (cases "map_of m k") auto
    then show ?thesis by (rule refreshed_again)
  qed
  have "published_records ev new = Inr m'" using written_records assms(1) l new by simp
  then obtain vs' where vs': "read_projection ev new = Inr vs'" "fill_records (\<lambda>_ r. Inr r) vs' [] = Inr m'"
    by (auto simp: published_records_def split: sum.splits)
  have "vs' = map snd m'"
    using read_written [of "pe_parse ev" "pe_write ev" 0 "map snd m'"] lines_of_jsonl_join [of "map (pe_write ev) (map snd m')"]
      assms(1) vs'(1) new
    by (auto simp: read_projection_def read_beads_jsonl_def serialize_records_def codec_ok_def split: sum.splits)
  then have "fill_records ?f vs' [] = Inr m'"
    using fill_same [of vs' ?f "[]"] vs'(2) same l by (fastforce simp: labelled_def)
  then have "refresh_tracked ev db new = (new, Inr True)"
    using assms(2) vs'(1) bs ok new by (simp add: refresh_tracked_def export_published_beads_def of_store_def live atomic_replace_def)
  then show ?thesis using vs m l new by (auto simp: published_records_def)
qed

text \<open>
  A refresh of the file neither adds nor loses a record: those of the store's beads become what the store
  renders, the others stay; and refreshing again changes nothing.
\<close>

theorem refresh_renders_each_record_once:
  assumes "codec_ok ev" "pe_opted_in ev" "refresh_tracked ev db old = (new, Inr changed)"
  shows "\<exists>m m'. published_records ev old = Inr m \<and> published_records ev new = Inr m'
    \<and> (\<forall>i. rel_option (\<lambda>r v. refreshed_value ev db (live_beads ev db) i r = Inr v) (map_of m i) (map_of m' i))
    \<and> refresh_tracked ev db new = (new, Inr True)"
  using refresh_parts [OF assms] written_records [OF assms(1)] by metis

lemma changed_ids_same: "changed_ids parse t t = []"
  by (simp add: changed_ids_def Let_def)

text \<open>
  What git does to a checkout, as it documents its commands: \<open>add\<close> takes the file into the index,
  \<open>commit\<close> makes the whole index the new tip and does nothing when it fails, \<open>push\<close> leaves the checkout
  alone, \<open>branch -f\<close> sets a branch to the tip, and \<open>reset --hard HEAD~1\<close> goes back to the commit before:
  every file that the index or that commit has becomes what it is there, whatever was edited, and
  untracked files stay. The status of the file is empty when it is the same in the working tree, the
  index and the tip. No hook of the commit changes the index or the working tree.
\<close>

definition git_laws :: "'g git \<Rightarrow> bool" where
  "git_laws G \<longleftrightarrow>
     (\<forall>g d. gt_status G g = Some d \<longrightarrow>
        (d \<longleftrightarrow> \<not> (gt_work G g TRUNK_JSONL_PATH = gt_index G g TRUNK_JSONL_PATH
                 \<and> gt_index G g TRUNK_JSONL_PATH = gt_tip G g TRUNK_JSONL_PATH)))
     \<and> (\<forall>g p t. gt_work G (gt_write G p t g) = (gt_work G g)(p \<mapsto> t) \<and> gt_index G (gt_write G p t g) = gt_index G g
          \<and> gt_tip G (gt_write G p t g) = gt_tip G g)
     \<and> (\<forall>g p g' ok. gt_add G p g = (g', ok) \<longrightarrow>
          gt_work G g' = gt_work G g \<and> gt_tip G g' = gt_tip G g
          \<and> gt_index G g' = (if ok then (gt_index G g)(p := gt_work G g p) else gt_index G g))
     \<and> (\<forall>g m g' ok. gt_commit G m g = (g', ok) \<longrightarrow>
          gt_work G g' = gt_work G g \<and> gt_index G g' = gt_index G g
          \<and> gt_tip G g' = (if ok then gt_index G g else gt_tip G g) \<and> (ok \<longrightarrow> gt_parent G g' = gt_tip G g))
     \<and> (\<forall>g b g' ok. gt_push G b g = (g', ok) \<longrightarrow>
          gt_work G g' = gt_work G g \<and> gt_index G g' = gt_index G g \<and> gt_tip G g' = gt_tip G g \<and> gt_parent G g' = gt_parent G g)
     \<and> (\<forall>g b g' ok. gt_branch_force G b g = (g', ok) \<longrightarrow>
          gt_work G g' = gt_work G g \<and> gt_index G g' = gt_index G g \<and> gt_tip G g' = gt_tip G g \<and> gt_parent G g' = gt_parent G g
          \<and> (ok \<longrightarrow> gt_branch_tree G g' b = Some (gt_tip G g)))
     \<and> (\<forall>g g' b. gt_reset_hard G g = (g', True) \<longrightarrow>
          gt_tip G g' = gt_parent G g \<and> gt_index G g' = gt_parent G g
          \<and> gt_work G g' = (\<lambda>p. if gt_index G g p = None \<and> gt_parent G g p = None then gt_work G g p else gt_parent G g p)
          \<and> gt_branch_tree G g' b = gt_branch_tree G g b)"

lemmas git_laws_facts =
  git_laws_def [THEN iffD1, THEN conjunct1, rule_format]
  git_laws_def [THEN iffD1, THEN conjunct2, THEN conjunct1, rule_format]
  git_laws_def [THEN iffD1, THEN conjunct2, THEN conjunct2, THEN conjunct1, rule_format]
  git_laws_def [THEN iffD1, THEN conjunct2, THEN conjunct2, THEN conjunct2, THEN conjunct1, rule_format]
  git_laws_def [THEN iffD1, THEN conjunct2, THEN conjunct2, THEN conjunct2, THEN conjunct2, THEN conjunct1, rule_format]
  git_laws_def [THEN iffD1, THEN conjunct2, THEN conjunct2, THEN conjunct2, THEN conjunct2, THEN conjunct2, THEN conjunct1, rule_format]
  git_laws_def [THEN iffD1, THEN conjunct2, THEN conjunct2, THEN conjunct2, THEN conjunct2, THEN conjunct2, THEN conjunct2, rule_format]

text \<open>What a refresh may end with, told of the trees.\<close>

definition committed_tree :: "'g git \<Rightarrow> string \<Rightarrow> 'g \<Rightarrow> tree_view" where
  "committed_tree G new g = (gt_index G g)(TRUNK_JSONL_PATH \<mapsto> new)"

definition refreshed_tree :: "'g git \<Rightarrow> string \<Rightarrow> 'g \<Rightarrow> tree_view" where
  "refreshed_tree G new g = (gt_work G g)(TRUNK_JSONL_PATH \<mapsto> new)"

text \<open>Every later refresh on this trunk, whatever the store then has, stops at the dirty file.\<close>

definition blocked :: "'g git \<Rightarrow> trunk_view \<Rightarrow> 'g \<Rightarrow> bool" where
  "blocked G tv g \<longleftrightarrow> gt_status G g \<noteq> None \<longrightarrow>
     (\<forall>ev db push. refresh_trunk G ev db tv push g = (g, Inl DirtyFile))"

lemma commit_refresh_ends:
  assumes "git_laws G" "commit_refresh G trunk push ids g1 = (g', out)"
    and "gt_work G g1 = refreshed_tree G new g" "gt_index G g1 = gt_index G g" "gt_tip G g1 = gt_tip G g"
  shows "case out of
      Inr (Committed ids' p) \<Rightarrow> ids' = ids \<and> p = push \<and> gt_tip G g' = committed_tree G new g
        \<and> gt_index G g' = committed_tree G new g \<and> gt_work G g' = refreshed_tree G new g
    | Inr (Parked ids') \<Rightarrow> ids' = ids \<and> push \<and> gt_branch_tree G g' PARKING_BRANCH = Some (committed_tree G new g)
        \<and> gt_tip G g' = gt_tip G g \<and> gt_index G g' = gt_tip G g
        \<and> gt_work G g' = (\<lambda>p. if committed_tree G new g p = None \<and> gt_tip G g p = None then refreshed_tree G new g p else gt_tip G g p)
    | Inl (StepFailed step) \<Rightarrow>
        (step = GitAdd \<or> step = GitCommit) \<and> gt_tip G g' = gt_tip G g \<and> gt_work G g' = refreshed_tree G new g
        \<or> push \<and> (step = GitPush \<or> step = GitBranch) \<and> gt_tip G g' = committed_tree G new g
            \<and> gt_work G g' = refreshed_tree G new g
        \<or> push \<and> step = GitReset
    | _ \<Rightarrow> False"
proof -
  note L = git_laws_facts [OF assms(1)]
  let ?F = TRUNK_JSONL_PATH
  obtain g2 ok2 where g2: "gt_add G ?F g1 = (g2, ok2)" by force
  note f2 = L(3) [OF g2]
  obtain g3 ok3 where g3: "gt_commit G (refresh_message ids) g2 = (g3, ok3)" by force
  note f3 = L(4) [OF g3]
  have tree: "(gt_index G g1)(?F := gt_work G g1 ?F) = committed_tree G new g"
    using assms(3,4) by (simp add: committed_tree_def refreshed_tree_def)
  show ?thesis
  proof (cases "ok2 \<and> ok3 \<and> push")
    case False
    then have e: "commit_refresh G trunk push ids g1 = (if \<not> ok2 then (g2, Inl (StepFailed GitAdd))
        else if \<not> ok3 then (g3, Inl (StepFailed GitCommit)) else (g3, Inr (Committed ids False)))"
      by (auto simp: commit_refresh_def then_git_def g2 g3)
    show ?thesis
      using assms(2-5) f2 f3 tree False unfolding e by (cases ok2; cases ok3) auto
  next
    case True
    obtain g4 q where g4: "gt_push G trunk g3 = (g4, q)" by force
    note f4 = L(5) [OF g4]
    obtain g5 ok5 where g5: "gt_branch_force G PARKING_BRANCH g4 = (g5, ok5)" by force
    note f5 = L(6) [OF g5]
    obtain g6 ok6 where g6: "gt_reset_hard G g5 = (g6, ok6)" by force
    have f6: "ok6 \<Longrightarrow> gt_tip G g6 = gt_parent G g5 \<and> gt_index G g6 = gt_parent G g5
          \<and> gt_work G g6 = (\<lambda>p. if gt_index G g5 p = None \<and> gt_parent G g5 p = None then gt_work G g5 p else gt_parent G g5 p)
          \<and> gt_branch_tree G g6 PARKING_BRANCH = gt_branch_tree G g5 PARKING_BRANCH"
      using L(7) [of g5 g6] g6 by simp
    have e: "commit_refresh G trunk push ids g1 = (case q of None \<Rightarrow> (g4, Inl (StepFailed GitPush))
        | Some True \<Rightarrow> (g4, Inr (Committed ids True))
        | Some False \<Rightarrow> if ok5 then if ok6 then (g6, Inr (Parked ids)) else (g6, Inl (StepFailed GitReset))
            else (g5, Inl (StepFailed GitBranch)))"
      using True by (simp add: commit_refresh_def then_git_def g2 g3 g4 g5 g6 split: option.split bool.split)
    show ?thesis
      using assms(2-5) f2 f3 f4 f5 f6 tree True unfolding e
      by (cases q; cases "the q"; cases ok5; cases ok6) (auto cong: if_cong)
  qed
qed

lemma refresh_trunk_cases:
  "(\<exists>trunk. \<forall>ev db push g. refresh_trunk G ev db tv push g = refresh_on_trunk G ev db trunk push g)
   \<or> (\<forall>ev db push g. refresh_trunk G ev db tv push g = (g, Inl (StepFailed GitQuery)))
   \<or> (\<exists>why. \<forall>ev db push g. refresh_trunk G ev db tv push g = (g, Inr (Skipped why)))"
proof (cases "(tv_git_dir tv, tv_common_dir tv)")
  case (Pair d c)
  show ?thesis
    by (cases d; cases c; cases "d = c"; cases "trunk_branch tv"; cases "tv_current tv"; cases "tv_current tv = trunk_branch tv";
        cases "tv_tracked tv"; cases "the (tv_tracked tv)")
      (use Pair in \<open>auto simp: refresh_trunk_def\<close>)
qed

lemma dirty_blocks:
  assumes "git_laws G" "\<And>ev db push g. refresh_trunk G ev db tv push g = refresh_on_trunk G ev db trunk push g"
    and "gt_work G g TRUNK_JSONL_PATH \<noteq> gt_tip G g TRUNK_JSONL_PATH"
  shows "blocked G tv g"
  unfolding blocked_def
proof
  assume "gt_status G g \<noteq> None"
  then obtain d where d: "gt_status G g = Some d" by blast
  then have "d" using git_laws_facts(1) [OF assms(1) d] assms(3) by metis
  then show "\<forall>ev db push. refresh_trunk G ev db tv push g = (g, Inl DirtyFile)"
    using assms(2) d by (simp add: refresh_on_trunk_def)
qed

text \<open>A refresh that gets as far as the file, with the outcome of the commit.\<close>

lemma refresh_on_trunk_elim:
  assumes "git_laws G" "refresh_on_trunk G ev db trunk push g = (g', out)" "gt_status G g = Some False"
    and "refresh_tracked ev db (projection_text G g) = (new, r)"
  shows "(case r of Inl e \<Rightarrow> out = Inl (TrunkProjection e) | Inr _ \<Rightarrow>
      if changed_ids (pe_parse ev) (projection_text G g) new = []
      then out = Inr NoChange \<and> (g' = g \<or> new \<noteq> projection_text G g \<and> g' = gt_write G TRUNK_JSONL_PATH new g)
      else new \<noteq> projection_text G g
        \<and> commit_refresh G trunk push (changed_ids (pe_parse ev) (projection_text G g) new) (gt_write G TRUNK_JSONL_PATH new g) = (g', out))"
  using assms(2-4) by (auto simp: refresh_on_trunk_def Let_def changed_ids_same split: sum.splits if_splits)

text \<open>
  C32. For a store whose records read back and git as its commands are documented (a commit takes the whole
  index and does nothing when it fails, no hook changes index or tree; \<open>reset --hard\<close> restores every
  tracked file): a refresh of the trunk that committed has made the index, with the refreshed file in it,
  the tip, changed no other file of the working tree, and the next refresh finds nothing to do. One that
  was parked has that commit on the parking branch, and tip and index are those of before; every tracked
  file of the working tree is the one of the tip, so that whatever else was edited or staged is gone
  from it. One that reports no change has changed nothing, or has rewritten the file without a commit (the
  records were not in their order); one that fails at adding or committing leaves the refreshed file;
  and in both cases every later refresh stops at the dirty file. When the push cannot be run or the
  branch not be set the commit stays on the trunk. What is skipped, refused for a dirty file or failed
  before the commit otherwise has changed nothing.
\<close>

theorem trunk_refresh_settles_or_blocks_itself:
  assumes "codec_ok ev" "pe_opted_in ev" "git_laws G"
    and "refresh_trunk G ev db tv push g = (g', out)" "new = fst (refresh_tracked ev db (projection_text G g))"
  shows "case out of
      Inr (Committed ids p) \<Rightarrow> ids \<noteq> [] \<and> p = push \<and> gt_tip G g' = committed_tree G new g
        \<and> gt_work G g' = refreshed_tree G new g
        \<and> (gt_status G g' \<noteq> None \<longrightarrow> refresh_trunk G ev db tv push g' = (g', Inr NoChange))
    | Inr (Parked ids) \<Rightarrow> ids \<noteq> [] \<and> push \<and> gt_branch_tree G g' PARKING_BRANCH = Some (committed_tree G new g)
        \<and> gt_tip G g' = gt_tip G g \<and> gt_index G g' = gt_tip G g
        \<and> (\<forall>p. gt_index G g p \<noteq> None \<or> gt_tip G g p \<noteq> None \<longrightarrow> gt_work G g' p = gt_tip G g p)
    | Inr NoChange \<Rightarrow> g' = g \<or> gt_tip G g' = gt_tip G g \<and> gt_index G g' = gt_index G g
        \<and> gt_work G g' = refreshed_tree G new g \<and> blocked G tv g'
    | Inl (StepFailed step) \<Rightarrow> g' = g
        \<or> (step = GitAdd \<or> step = GitCommit) \<and> gt_tip G g' = gt_tip G g \<and> gt_work G g' = refreshed_tree G new g
            \<and> blocked G tv g'
        \<or> push \<and> (step = GitPush \<or> step = GitBranch) \<and> gt_tip G g' = committed_tree G new g
            \<and> gt_work G g' = refreshed_tree G new g
        \<or> push \<and> step = GitReset
    | _ \<Rightarrow> g' = g"
proof -
  note L = git_laws_facts [OF assms(3)]
  let ?F = TRUNK_JSONL_PATH and ?old = "projection_text G g"
  consider (skip) "(g', out) = (g, Inl (StepFailed GitQuery))" | (why) why where "(g', out) = (g, Inr (Skipped why))"
    | (run) trunk where "\<And>ev db push g. refresh_trunk G ev db tv push g = refresh_on_trunk G ev db trunk push g"
    using refresh_trunk_cases [of G tv] assms(4) by metis
  then show ?thesis
  proof cases
    case run
    then have r: "refresh_on_trunk G ev db trunk push g = (g', out)" using assms(4) by metis
    obtain res where t: "refresh_tracked ev db ?old = (new, res)" using assms(5) by (metis prod.collapse)
    consider (none) "gt_status G g = None" | (dirty) "gt_status G g = Some True" | (clean) "gt_status G g = Some False"
      by (metis (full_types) not_Some_eq)
    then show ?thesis
    proof cases
      case clean
      have same: "gt_work G g ?F = gt_index G g ?F" "gt_index G g ?F = gt_tip G g ?F" using L(1) [OF clean] by simp_all
      have wr: "gt_work G (gt_write G ?F new g) = refreshed_tree G new g" "gt_index G (gt_write G ?F new g) = gt_index G g"
        "gt_tip G (gt_write G ?F new g) = gt_tip G g" using L(2) by (simp_all add: refreshed_tree_def)
      have block: "blocked G tv h" if "new \<noteq> ?old" "gt_work G h = refreshed_tree G new g" "gt_tip G h = gt_tip G g" for h
      proof (rule dirty_blocks [OF assms(3) run])
        show "gt_work G h ?F \<noteq> gt_tip G h ?F"
          using that same by (auto simp: refreshed_tree_def projection_text_def split: option.splits)
      qed
      note el = refresh_on_trunk_elim [OF assms(3) r clean t]
      show ?thesis
      proof (cases res)
        case (Inl e)
        then have "new = ?old" using t assms(2)
          by (auto simp: refresh_tracked_def atomic_replace_def split: if_splits sum.splits)
        then show ?thesis using Inl el r clean t by (auto simp: refresh_on_trunk_def)
      next
        case (Inr ch)
        show ?thesis
        proof (cases "changed_ids (pe_parse ev) ?old new = []")
          case True
          then show ?thesis using el Inr wr block by auto
        next
          case False
          have ne: "new \<noteq> ?old"
            and c: "commit_refresh G trunk push (changed_ids (pe_parse ev) ?old new) (gt_write G ?F new g) = (g', out)"
            using el Inr False by simp_all
          note ends = commit_refresh_ends [OF assms(3) c wr]
          have again: "refresh_trunk G ev db tv push g' = (g', Inr NoChange)"
            if h: "gt_status G g' \<noteq> None" "gt_tip G g' = committed_tree G new g" "gt_index G g' = committed_tree G new g"
              "gt_work G g' = refreshed_tree G new g"
          proof -
            obtain d where d: "gt_status G g' = Some d" using h(1) by blast
            have "\<not> d" using L(1) [OF d] h by (simp add: committed_tree_def refreshed_tree_def)
            moreover have "projection_text G g' = new" using h(4) by (simp add: projection_text_def refreshed_tree_def)
            moreover have "refresh_tracked ev db new = (new, Inr True)"
              using refresh_parts [OF assms(1,2)] t Inr by blast
            ultimately show ?thesis using run d by (simp add: refresh_on_trunk_def changed_ids_same)
          qed
          show ?thesis using ends ne block again False
            by (auto simp: committed_tree_def split: sum.splits trunk_outcome.splits trunk_error.splits)
        qed
      qed
    qed (use r in \<open>auto simp: refresh_on_trunk_def\<close>)
  qed auto
qed

section \<open>Instances\<close>

definition sample_env :: "string \<Rightarrow> projection_env" where
  "sample_env repo = \<lparr> pe_parse = unary_parse, pe_write = unary_write, pe_instant = (\<lambda>_. Some 7), pe_rfc3339 = (\<lambda>_. ''t''),
     pe_repo = repo, pe_opted_in = True, pe_replace_ok = True \<rparr>"

definition sample_push :: "string \<Rightarrow> push_view" where
  "sample_push file = \<lparr> pv_tracks = (\<lambda>_. True), pv_subjects = (\<lambda>_. Some [''[app-1] fix'']), pv_blob = (\<lambda>_. Some file) \<rparr>"

lemma sample_codec: "codec_ok (sample_env repo)"
  by (simp add: codec_ok_def sample_env_def unary_laws)

lemma sample_subject: "subject_bead_ids ''[app-1] fix'' = [''app-1'']" "subject_of ''[app-1] fix'' = ''[app-1] fix''"
  by code_simp+

lemma sample_own: "is_own_repo_id ''app-1'' ''app''" "\<not> is_own_repo_id ''app-1'' ''wt''"
  by code_simp+

lemma sample_stdin: "parse_prepush_stdin ''b 1 b 0'' = Inr [\<lparr> pu_local_sha = ''1'', pu_remote_sha = ''0'' \<rparr>]"
  by code_simp

lemma sample_row: "row_of sample_db ''app-1'' \<noteq> None"
  by code_simp

lemma sample_rendered: "\<exists>b v. get_bead (\<lambda>_. Some 7) sample_db ''app-1'' ''app'' = Inr (Some b)
    \<and> live_contract_value (sample_env ''app'') sample_db b = Inr v"
proof -
  have "case get_bead (\<lambda>_. Some 7) sample_db ''app-1'' ''app'' of Inr (Some b) \<Rightarrow> True | _ \<Rightarrow> False" by code_simp
  then obtain b where b: "get_bead (\<lambda>_. Some 7) sample_db ''app-1'' ''app'' = Inr (Some b)" by (auto split: sum.splits option.splits)
  have i: "b_id b = ''app-1''" using get_exact_id [OF sample_row b] .
  have "case list_comments (\<lambda>_. Some 7) sample_db ''app-1'' True of Inr cs \<Rightarrow> True | _ \<Rightarrow> False" by code_simp
  then show ?thesis using b i
    by (auto simp: live_contract_value_def of_store_def contract_of_def sample_env_def split: sum.splits)
qed

text \<open>The first publication of a bead, into an empty file.\<close>

lemma sample_published:
  "\<exists>new. publish_from_commit (sample_env ''app'') True sample_db (Some ''[app-1] fix'') [] [] = (new, Inr [''app-1''])"
proof -
  obtain b v where b: "get_bead (\<lambda>_. Some 7) sample_db ''app-1'' ''app'' = Inr (Some b)"
    and v: "live_contract_value (sample_env ''app'') sample_db b = Inr v" using sample_rendered by blast
  have own: "own_ids ''app'' (Some ''[app-1] fix'') [] = [''app-1'']"
    using sample_own(1) by (simp add: own_ids_def sample_subject dedup_first_def)
  have e: "pe_repo (sample_env ''app'') = ''app''" "pe_instant (sample_env ''app'') = (\<lambda>_. Some 7)" "pe_opted_in (sample_env ''app'')"
    "pe_replace_ok (sample_env ''app'')" "pe_write (sample_env ''app'') = unary_write"
    by (simp_all add: sample_env_def)
  have "read_projection (sample_env ''app'') [] = Inr []" by (simp add: read_projection_def read_beads_jsonl_def lines_of_def)
  then have "upsert_tracked_bead (sample_env ''app'') sample_db ''app-1'' True [] = (unary_write v @ [CHR 0x0A], Inr True)"
    by (simp add: upsert_tracked_bead_def e b v of_store_def serialize_records_def jsonl_join_def atomic_replace_def)
  then show ?thesis by (simp add: publish_from_commit_def own e b of_store_def Let_def)
qed

theorem hook_output_passes_the_gate_witness:
  "\<exists>new. publish_from_commit (sample_env ''app'') True sample_db (Some ''[app-1] fix'') [] [] = (new, Inr [''app-1''])
    \<and> verify_pushed (sample_env ''app'') (Inr (Some sample_db)) (sample_push new) ''b 1 b 0'' = Inr ()"
proof -
  obtain new where new: "publish_from_commit (sample_env ''app'') True sample_db (Some ''[app-1] fix'') [] [] = (new, Inr [''app-1''])"
    using sample_published by blast
  have "pe_opted_in (sample_env ''app'')" "pe_repo (sample_env ''app'') = ''app''" by (simp_all add: sample_env_def)
  then show ?thesis
    using hook_output_passes_the_gate [OF sample_codec _ _ new sample_stdin, of "sample_push new"] new sample_subject sample_own(1) sample_row
    by (simp add: sample_push_def)
qed


text \<open>Two records in the wrong order: refreshed they are the same records, in another text.\<close>

definition sample_file :: "string list \<Rightarrow> string" where
  "sample_file is = jsonl_join (map (\<lambda>i. unary_write (rec1 i 0)) is)"

lemma sample_read: "read_projection (sample_env repo) (sample_file is) = Inr (map (\<lambda>i. rec1 i 0) is)"
proof -
  have "lines_of (sample_file is) = map unary_write (map (\<lambda>i. rec1 i 0) is)"
    unfolding sample_file_def by (subst lines_of_jsonl_join) (auto simp: unary_laws)
  then show ?thesis using read_written [of unary_parse unary_write 0 "map (\<lambda>i. rec1 i 0) is"] unary_laws
    by (simp add: read_projection_def read_beads_jsonl_def sample_env_def)
qed

lemma a_before_b: "''a'' < ''b''" "\<not> ''b'' < ''a''" "''a'' \<noteq> ''b''"
  by code_simp+

lemma rec1_id: "json_id (rec1 i n) = Some i"
  by (simp add: json_id_def rec1_def)

lemma sample_refresh: "refresh_tracked (sample_env repo) empty_db (sample_file [''b'', ''a'']) = (sample_file [''a'', ''b''], Inr True)"
proof -
  have "bead_read_order [] = []" by code_simp
  then have "list_all_beads (pe_instant (sample_env repo)) empty_db (pe_repo (sample_env repo)) = Inr []"
    by (simp add: list_all_beads_def empty_db_def)
  moreover have "pe_opted_in (sample_env repo)" "pe_replace_ok (sample_env repo)" "pe_write (sample_env repo) = unary_write"
    "serialize_records unary_write [(''a'', rec1 ''a'' 0), (''b'', rec1 ''b'' 0)] = sample_file [''a'', ''b'']"
    by (simp_all add: sample_env_def serialize_records_def sample_file_def)
  ultimately show ?thesis
    by (simp add: refresh_tracked_def sample_read export_published_beads_def of_store_def rec1_id refreshed_value_def
        atomic_replace_def a_before_b)
qed

lemma sample_files_differ: "sample_file [''a'', ''b''] \<noteq> sample_file [''b'', ''a'']"
proof
  assume eq: "sample_file [''a'', ''b''] = sample_file [''b'', ''a'']"
  have "(Inr (map (\<lambda>i. rec1 i 0) [''a'', ''b'']) :: projection_error + json list) = read_projection (sample_env []) (sample_file [''a'', ''b''])"
    by (rule sample_read [symmetric])
  also have "\<dots> = Inr (map (\<lambda>i. rec1 i 0) [''b'', ''a''])" unfolding eq by (rule sample_read)
  finally show False by (simp add: rec1_def)
qed

lemma sample_unchanged: "changed_ids unary_parse (sample_file [''b'', ''a'']) (sample_file [''a'', ''b'']) = []"
proof -
  have ls: "lines_of (sample_file is) = map (\<lambda>i. unary_write (rec1 i 0)) is" for "is"
    unfolding sample_file_def by (subst lines_of_jsonl_join) (auto simp: unary_laws)
  have t: "trim (unary_write v) \<noteq> []" for v using own_line_facts [OF unary_laws(2) [of v]] by simp
  show ?thesis
    by (simp add: changed_ids_def parse_blob_def ls t index_line_def unary_laws rec1_id a_before_b Let_def)
qed

definition sample_trunk :: trunk_view where
  "sample_trunk = \<lparr> tv_git_dir = Some ''.git'', tv_common_dir = Some ''.git'', tv_has_branch = (\<lambda>b. b = ''main''),
     tv_current = Some ''main'', tv_tracked = Some True \<rparr>"

text \<open>A checkout in which every command succeeds and the remote accepts a push or not.\<close>

record checkout =
  co_work :: tree_view
  co_index :: tree_view
  co_tip :: tree_view
  co_parent :: tree_view
  co_branches :: "string \<Rightarrow> tree_view option"

definition checkout_git :: "bool \<Rightarrow> checkout git" where
  "checkout_git accepted =
     \<lparr> gt_status = (\<lambda>g. Some (\<not> (co_work g TRUNK_JSONL_PATH = co_index g TRUNK_JSONL_PATH
                 \<and> co_index g TRUNK_JSONL_PATH = co_tip g TRUNK_JSONL_PATH))),
       gt_write = (\<lambda>p t g. g\<lparr> co_work := (co_work g)(p \<mapsto> t) \<rparr>),
       gt_add = (\<lambda>p g. (g\<lparr> co_index := (co_index g)(p := co_work g p) \<rparr>, True)),
       gt_commit = (\<lambda>m g. (g\<lparr> co_tip := co_index g, co_parent := co_tip g \<rparr>, True)),
       gt_push = (\<lambda>b g. (g, Some accepted)),
       gt_branch_force = (\<lambda>b g. (g\<lparr> co_branches := (co_branches g)(b \<mapsto> co_tip g) \<rparr>, True)),
       gt_reset_hard = (\<lambda>g. (g\<lparr> co_tip := co_parent g, co_index := co_parent g,
          co_work := (\<lambda>p. if co_index g p = None \<and> co_parent g p = None then co_work g p else co_parent g p) \<rparr>, True)),
       gt_work = co_work, gt_index = co_index, gt_tip = co_tip, gt_parent = co_parent, gt_branch_tree = co_branches \<rparr>"

lemma checkout_laws: "git_laws (checkout_git accepted)"
  by (auto simp: git_laws_def checkout_git_def)

theorem refresh_renders_each_record_once_witness:
  "refresh_tracked (sample_env ''app'') empty_db (sample_file [''a'', ''b'']) = (sample_file [''a'', ''b''], Inr True)"
  using refresh_renders_each_record_once [OF sample_codec _ sample_refresh] by (auto simp: sample_env_def)

theorem trunk_refresh_settles_or_blocks_itself_witness:
  "\<exists>g g'. refresh_trunk (checkout_git True) (sample_env ''app'') empty_db sample_trunk True g = (g', Inr NoChange)
     \<and> refresh_trunk (checkout_git True) (sample_env ''app'') empty_db sample_trunk True g' = (g', Inl DirtyFile)"
proof -
  let ?f = "sample_file [''b'', ''a'']" and ?g = "sample_file [''a'', ''b'']"
  let ?t = "[TRUNK_JSONL_PATH \<mapsto> ?f]"
  let ?st = "\<lparr> co_work = ?t, co_index = ?t, co_tip = ?t, co_parent = (\<lambda>_. None), co_branches = (\<lambda>_. None) \<rparr>"
  let ?st' = "?st\<lparr> co_work := [TRUNK_JSONL_PATH \<mapsto> ?g] \<rparr>"
  have e: "pe_parse (sample_env ''app'') = unary_parse" by (simp add: sample_env_def)
  have p: "projection_text (checkout_git True) ?st = ?f" by (simp add: projection_text_def checkout_git_def)
  have s: "gt_status (checkout_git True) ?st = Some False" by (simp add: checkout_git_def)
  have w: "gt_write (checkout_git True) TRUNK_JSONL_PATH ?g ?st = ?st'" by (simp add: checkout_git_def)
  have r: "refresh_trunk (checkout_git True) (sample_env ''app'') empty_db sample_trunk True ?st = (?st', Inr NoChange)"
    by (simp add: refresh_trunk_def sample_trunk_def trunk_branch_def refresh_on_trunk_def p s w sample_refresh e sample_unchanged Let_def
        sample_files_differ)
  have "?st' \<noteq> ?st" using sample_files_differ by (auto dest: map_upd_eqD1)
  then have "blocked (checkout_git True) sample_trunk ?st'"
    using trunk_refresh_settles_or_blocks_itself [OF sample_codec _ checkout_laws r refl] by (simp add: sample_env_def)
  then have "refresh_trunk (checkout_git True) (sample_env ''app'') empty_db sample_trunk True ?st' = (?st', Inl DirtyFile)"
    by (simp add: blocked_def checkout_git_def)
  then show ?thesis using r by blast
qed

end
