(* ===== verification/Persistence.thy ===== *)
theory Persistence
  imports Dispatch Store_Behaviour Bead_Move Backend_Store Bead_Ids
begin

text \<open>
  What the reconciler reads from and writes to the stores around an iteration: the status of a bead and its
  mirror (\<open>src/reconcile/persistence.rs\<close>), the recovery of beads after a crash, the sweeps for dispatched
  beads without a worker (\<open>src/dispatch/sweep.rs\<close>, \<open>src/session.rs\<close>), the transitions that commits and pull
  requests ask for (\<open>src/reconcile/vcs.rs\<close>), and the assignment of owners (\<open>iterate\<close> of
  \<open>src/reconcile/mod.rs\<close>).

  The bead stores are the SQLite ones of \<open>Bead_Store\<close>, one for each repository that can be connected to.
  Whether a process is alive, a worktree is there, and what \<open>gh\<close> and \<open>jj\<close> print are inputs.
\<close>

section \<open>Stores\<close>

text \<open>The bead stores by repository, the store of the orchestrator, and what the issue tracker was told.\<close>

record world =
  ws_stores :: "string \<Rightarrow> bead_db option"
  ws_backend :: "backend_db option"
  ws_mirrored :: "(string \<times> string) list"

record persist_env =
  px_now :: string
  px_parse :: "string \<Rightarrow> int option"
  px_clock :: backend_clock
  px_tracker :: bool

definition on_store :: "string \<Rightarrow> (bead_db \<Rightarrow> bead_db) \<Rightarrow> world \<Rightarrow> world" where
  "on_store repo f w =
     (case ws_stores w repo of None \<Rightarrow> w | Some db \<Rightarrow> w\<lparr> ws_stores := (ws_stores w)(repo \<mapsto> f db) \<rparr>)"

definition on_backend :: "(backend_db \<Rightarrow> backend_db) \<Rightarrow> world \<Rightarrow> world" where
  "on_backend f w = w\<lparr> ws_backend := map_option f (ws_backend w) \<rparr>"

section \<open>Writing a status\<close>

text \<open>A status that is refused is logged as an event, and told to the tracker, all the same.\<close>

definition write_status :: "string \<Rightarrow> string \<Rightarrow> bead_state \<Rightarrow> bead_db \<Rightarrow> bead_db" where
  "write_status now bead_id st db =
     log_event now bead_id ''state_change'' ([CHR 0xE2, CHR 0x86, CHR 0x92] @ '' '' @ state_display st)
       (db_or db (update_status now bead_id (state_display st) db))"

definition persist_status :: "persist_env \<Rightarrow> string \<Rightarrow> string \<Rightarrow> bead_state \<Rightarrow> world \<Rightarrow> world" where
  "persist_status env bead_id repo st w =
     (case ws_stores w repo of
        None \<Rightarrow> w
      | Some db \<Rightarrow>
          (let db' = write_status (px_now env) bead_id st db
           in w\<lparr> ws_stores := (ws_stores w)(repo \<mapsto> db'),
                 ws_mirrored := ws_mirrored w @
                   (if px_tracker env
                    then (case get_external_ref db' bead_id of None \<Rightarrow> [] | Some e \<Rightarrow> [(e, state_display st)])
                    else []) \<rparr>))"

text \<open>The status writes among the calls that the reconciler has made, in their order.\<close>

definition persist_all :: "persist_env \<Rightarrow> effect list \<Rightarrow> world \<Rightarrow> world" where
  "persist_all env es w =
     foldl (\<lambda>w e. case e of PersistStatus i repo st \<Rightarrow> persist_status env i repo st w | _ \<Rightarrow> w) w es"

definition is_bead_agent_closed :: "world \<Rightarrow> string \<Rightarrow> string \<Rightarrow> bool" where
  "is_bead_agent_closed w bead_id repo =
     (case ws_stores w repo of
        None \<Rightarrow> False
      | Some db \<Rightarrow> get_status db bead_id = Some ''closed'' \<or> get_status db bead_id = Some ''done'')"

section \<open>Recovery after a crash\<close>

definition recovered_tracker :: "bead \<Rightarrow> pipeline_state \<Rightarrow> bead_tracker" where
  "recovered_tracker b p =
     \<lparr> tk_repo = b_repo b, tk_scope = b_scope b, tk_last_generation = 0, tk_retries = ps_retries p,
       tk_consecutive_reverts = ps_consecutive_reverts p, tk_highest_tier = ps_highest_verify_tier p,
       tk_current_agent = Some (ps_pipeline_agent p), tk_phase_index = ps_pipeline_phase p,
       tk_issue_type = b_issue_type b, tk_dispatch_id = None \<rparr>"

definition scan_stores :: "(string \<Rightarrow> int option) \<Rightarrow> string list \<Rightarrow> world \<Rightarrow> bead list" where
  "scan_stores parse repos w =
     scan_repos (map (\<lambda>repo. case ws_stores w repo of None \<Rightarrow> [] | Some db \<Rightarrow> db_list_beads parse db repo) repos)"

definition recover_bead :: "persist_env \<Rightarrow> (string \<times> pipeline_state) list \<Rightarrow> reconciler \<times> world \<Rightarrow> bead \<Rightarrow> reconciler \<times> world" where
  "recover_bead env pipelines sw b =
     (let (s, w) = sw
      in if bead_state_of b \<noteq> Dispatched then (s, w)
         else (case map_of (rev pipelines) (b_id b) of
                 None \<Rightarrow> s
               | Some p \<Rightarrow> s\<lparr> rc_trackers := (rc_trackers s)(b_id b \<mapsto> recovered_tracker b p) \<rparr>,
               persist_status env (b_id b) (b_repo b) Open w))"

definition abandon_dispatches :: "backend_clock \<Rightarrow> backend_db \<Rightarrow> backend_db" where
  "abandon_dispatches ck db =
     (case active_dispatches ck db of
        Inl _ \<Rightarrow> db
      | Inr ds \<Rightarrow> foldl (\<lambda>db d. complete_dispatch ck (dp_id d) ''abandoned'' db) db ds)"

definition recover_stuck_beads :: "persist_env \<Rightarrow> string list \<Rightarrow> reconciler \<times> world \<Rightarrow> reconciler \<times> world" where
  "recover_stuck_beads env repos sw =
     (let (s, w) = sw;
          stored = (case ws_backend w of
              None \<Rightarrow> []
            | Some bk \<Rightarrow> (case list_active_pipelines (px_clock env) bk of Inl _ \<Rightarrow> [] | Inr ps \<Rightarrow> ps));
          pipelines = map (\<lambda>p. (wr_bead_id (ps_bead_ref p), p)) stored;
          (s1, w1) = foldl (recover_bead env pipelines) (s, w) (scan_stores (px_parse env) repos w)
      in (s1, on_backend (abandon_dispatches (px_clock env)) w1))"

section \<open>Sessions\<close>

record session_entry =
  se_bead_id :: string
  se_repo :: string
  se_provider :: string
  se_pid :: "nat option"
  se_session_ref :: "agent_session_ref option"
  se_work_dir :: string
  se_started_at :: int
  se_title :: string
  se_agent :: string
  se_workspace_vcs :: string
  se_repo_path :: string
  se_last_activity :: "int option"
  se_last_comment :: "string option"

definition retain_addressable_sessions :: "session_entry list \<Rightarrow> session_entry list" where
  "retain_addressable_sessions = filter (\<lambda>s. se_pid s \<noteq> None \<or> se_session_ref s \<noteq> None)"

definition unregister_session :: "string \<Rightarrow> string \<Rightarrow> session_entry list \<Rightarrow> session_entry list" where
  "unregister_session bead_id repo = filter (\<lambda>s. \<not> (se_bead_id s = bead_id \<and> se_repo s = repo))"

definition register_session :: "session_entry \<Rightarrow> session_entry list \<Rightarrow> session_entry list" where
  "register_session e ss = unregister_session (se_bead_id e) (se_repo e) ss @ [e]"

text \<open>The first characters of a text, whose bytes are UTF-8.\<close>

fun take_chars :: "nat \<Rightarrow> string \<Rightarrow> string" where
  "take_chars n [] = []"
| "take_chars n (c # s) =
     (if is_continuation c then c # take_chars n s
      else if n = 0 then [] else c # take_chars (n - 1) s)"

fun touch_session :: "int \<Rightarrow> string \<Rightarrow> string \<Rightarrow> string \<Rightarrow> session_entry list \<Rightarrow> session_entry list" where
  "touch_session now bead_id repo note [] = []"
| "touch_session now bead_id repo note (s # ss) =
     (if se_bead_id s = bead_id \<and> se_repo s = repo
      then s\<lparr> se_last_activity := Some now, se_last_comment := Some (take_chars 200 note) \<rparr> # ss
      else s # touch_session now bead_id repo note ss)"

section \<open>Sweeps\<close>

text \<open>A sweep runs over the beads that are listed for the repository when it starts.\<close>

definition has_live_session :: "(nat \<Rightarrow> bool) \<Rightarrow> session_entry list \<Rightarrow> string \<Rightarrow> string \<Rightarrow> bool" where
  "has_live_session alive sessions bead_id repo =
     list_ex (\<lambda>s. se_bead_id s = bead_id \<and> se_repo s = repo \<and> (case se_pid s of None \<Rightarrow> False | Some p \<Rightarrow> alive p)) sessions"

definition revert_orphan :: "string \<Rightarrow> (nat \<Rightarrow> bool) \<Rightarrow> (string \<Rightarrow> bool) \<Rightarrow> session_entry list \<Rightarrow> string
    \<Rightarrow> string list \<times> bead_db \<Rightarrow> bead \<Rightarrow> string list \<times> bead_db" where
  "revert_orphan now alive worktree sessions repo rd b =
     (let (reverted, db) = rd
      in if bead_state_of b \<noteq> Dispatched \<or> has_live_session alive sessions (b_id b) repo \<or> worktree (b_id b) then (reverted, db)
         else (case update_status now (b_id b) ''open'' db of
                 Inl _ \<Rightarrow> (reverted, db)
               | Inr db' \<Rightarrow> (reverted @ [b_id b],
                   log_event now (b_id b) ''orphan_revert'' ''no live session + no worktree at sweep time'' db')))"

definition sweep_orphan_dispatches :: "string \<Rightarrow> (string \<Rightarrow> int option) \<Rightarrow> (nat \<Rightarrow> bool) \<Rightarrow> (string \<Rightarrow> bool)
    \<Rightarrow> session_entry list \<Rightarrow> string \<Rightarrow> bead_db \<Rightarrow> string list \<times> bead_db" where
  "sweep_orphan_dispatches now parse alive worktree sessions repo db =
     foldl (revert_orphan now alive worktree sessions repo) ([], db) (db_list_beads parse db repo)"

text \<open>The session of a bead: of two entries for it, the later one.\<close>

definition build_session_index :: "session_entry list \<Rightarrow> ((string \<times> string) \<times> session_entry) list" where
  "build_session_index sessions = rev (map (\<lambda>s. ((se_bead_id s, se_repo s), s)) sessions)"

definition dead_session :: "(nat \<Rightarrow> bool) \<Rightarrow> ((string \<times> string) \<times> session_entry) list \<Rightarrow> string \<Rightarrow> bead \<Rightarrow> (nat \<times> session_entry) option" where
  "dead_session alive index repo b =
     (if bead_state_of b \<noteq> Dispatched then None
      else (case map_of index (b_id b, repo) of
              None \<Rightarrow> None
            | Some s \<Rightarrow> (case se_pid s of None \<Rightarrow> None | Some p \<Rightarrow> if alive p then None else Some (p, s))))"

definition dead_detail :: "(int \<Rightarrow> string) \<Rightarrow> nat \<times> session_entry \<Rightarrow> string" where
  "dead_detail rfc3339 ps =
     ''pid='' @ show_nat (fst ps) @ '' started_at='' @ rfc3339 (se_started_at (snd ps)) @ '' last_activity=''
     @ (case se_last_activity (snd ps) of None \<Rightarrow> ''None'' | Some t \<Rightarrow> ''Some('' @ debug_str (rfc3339 t) @ '')'')
     @ '' work_dir='' @ se_work_dir (snd ps)"

definition sweep_dead_workers :: "string \<Rightarrow> (string \<Rightarrow> int option) \<Rightarrow> (int \<Rightarrow> string) \<Rightarrow> (nat \<Rightarrow> bool)
    \<Rightarrow> ((string \<times> string) \<times> session_entry) list \<Rightarrow> string \<Rightarrow> bead_db \<Rightarrow> (string \<times> string) list \<times> bead_db" where
  "sweep_dead_workers now parse rfc3339 alive index repo db =
     (let dead = List.map_filter (\<lambda>b. map_option (\<lambda>s. (b_id b, dead_detail rfc3339 s)) (dead_session alive index repo b))
                   (db_list_beads parse db repo)
      in (dead, foldl (\<lambda>db (i, detail). log_event now i ''deadletter_dead_worker'' detail db) db dead))"

text \<open>The repositories with a dispatched bead are swept in any order; here it is that of the scan.\<close>

definition sweep_repo :: "persist_env \<Rightarrow> (int \<Rightarrow> string) \<Rightarrow> (nat \<Rightarrow> bool) \<Rightarrow> ((string \<times> string) \<times> session_entry) list
    \<Rightarrow> (string \<times> string) list \<times> world \<Rightarrow> string \<Rightarrow> (string \<times> string) list \<times> world" where
  "sweep_repo env rfc3339 alive index cw repo =
     (let (candidates, w) = cw
      in case ws_stores w repo of
           None \<Rightarrow> (candidates, w)
         | Some db \<Rightarrow>
             (let (dead, db') = sweep_dead_workers (px_now env) (px_parse env) rfc3339 alive index repo db
              in (candidates @ map (\<lambda>(i, _). (repo, i)) dead, w\<lparr> ws_stores := (ws_stores w)(repo \<mapsto> db') \<rparr>)))"

definition bury_candidate :: "persist_env \<Rightarrow> string list \<times> world \<Rightarrow> string \<times> string \<Rightarrow> string list \<times> world" where
  "bury_candidate env dw candidate =
     (let (deadlettered, w) = dw; (repo, i) = candidate; w' = persist_status env i repo DeadLetter w
      in if (case ws_stores w' repo of None \<Rightarrow> False | Some db \<Rightarrow> get_status db i = Some ''dead_letter'')
         then (deadlettered @ [i], w') else (deadlettered, w'))"

definition liveness_sweep :: "persist_env \<Rightarrow> (int \<Rightarrow> string) \<Rightarrow> (nat \<Rightarrow> bool) \<Rightarrow> session_entry list \<Rightarrow> bead list \<Rightarrow> world
    \<Rightarrow> string list \<times> world" where
  "liveness_sweep env rfc3339 alive sessions beads w =
     (if sessions = [] then ([], w)
      else (let repos = remdups (map b_repo (filter (\<lambda>b. bead_state_of b = Dispatched) beads));
                (candidates, w') = foldl (sweep_repo env rfc3339 alive (build_session_index sessions)) ([], w) repos
            in foldl (bury_candidate env) ([], w') candidates))"

section \<open>Commits that name beads\<close>

text \<open>
  The references of the repositories whose log could be read. A closing reference is for any bead that is not
  done, another one for an open bead; not for a bead with a running agent.
\<close>

definition vcs_transition :: "bead list \<Rightarrow> string list \<Rightarrow> string \<times> vcs_ref \<Rightarrow> (string \<times> string \<times> string \<times> bool) option" where
  "vcs_transition beads active cr =
     (let (change_id, r) = cr
      in case List.find (\<lambda>b. b_id b = vr_id r) beads of
           None \<Rightarrow> None
         | Some b \<Rightarrow>
             (let wanted = (if vr_closes r then b_status b \<noteq> ''done'' \<and> b_status b \<noteq> ''closed'' else b_status b = ''open'')
              in if \<not> wanted \<or> List.member active (b_id b) then None
                 else Some (b_id b, b_repo b, change_id, vr_closes r)))"

definition apply_transition :: "persist_env \<Rightarrow> world \<Rightarrow> string \<times> string \<times> string \<times> bool \<Rightarrow> world" where
  "apply_transition env w t =
     (let (i, repo, change_id, closes) = t
      in persist_status env i repo (state_of_str (if closes then ''closed'' else ''dispatched''))
           (on_store repo (log_event (px_now env) i ''vcs_ref'' (''jj:'' @ change_id)) w))"

definition scan_vcs :: "persist_env \<Rightarrow> (string \<times> vcs_ref) list list \<Rightarrow> bead list \<Rightarrow> string list \<Rightarrow> world \<Rightarrow> nat \<times> world" where
  "scan_vcs env scans beads active w =
     (let pending = List.map_filter (vcs_transition beads active) (concat scans)
      in (length pending, foldl (apply_transition env) w pending))"

section \<open>Pull requests\<close>

text \<open>The four fields of a line: the last one holds every separator that follows.\<close>

definition parse_pr_status_line :: "string \<Rightarrow> string \<times> string \<times> string \<times> string" where
  "parse_pr_status_line line =
     (let parts = split_on (CHR ''|'') line; field = (\<lambda>i. if i < length parts then parts ! i else [])
      in (field 0, field 1, field 2, join_with ''|'' (drop 3 parts)))"

definition pr_feedback_detail :: "string \<Rightarrow> string \<Rightarrow> string" where
  "pr_feedback_detail reviewers url =
     (if reviewers = [] then ''CHANGES_REQUESTED'' else ''CHANGES_REQUESTED by '' @ reviewers)
     @ '' '' @ [CHR 0xE2, CHR 0x80, CHR 0x94] @ '' '' @ url"

definition note_feedback :: "string \<Rightarrow> string \<Rightarrow> string \<Rightarrow> bead_db \<Rightarrow> bead_db" where
  "note_feedback now i detail db =
     (if get_latest_event db i ''pr_feedback'' = Some detail then db else log_event now i ''pr_feedback'' detail db)"

definition note_merge :: "string \<Rightarrow> string \<Rightarrow> string \<Rightarrow> string \<Rightarrow> bead_db \<Rightarrow> bead_db" where
  "note_merge now i url sha db =
     (let db1 = (if sha = [] then db else log_event now i ''merge_sha'' sha db);
          body = ''Merged: '' @ url @ (if sha = [] then [] else '' (SHA: '' @ sha @ '')'')
      in db_or db1 (add_comment now i body ''rosary'' db1))"

text \<open>\<open>gh\<close>: the trimmed line that is printed for an address, when the call succeeds.\<close>

definition poll_pr :: "persist_env \<Rightarrow> (string \<Rightarrow> string option) \<Rightarrow> nat \<times> world \<Rightarrow> bead \<Rightarrow> nat \<times> world" where
  "poll_pr env gh cw b =
     (let (closed, w) = cw; i = b_id b; repo = b_repo b
      in case Option.bind (ws_stores w repo) (\<lambda>db. get_latest_event db i ''pr_url'') of
           None \<Rightarrow> (closed, w)
         | Some url \<Rightarrow>
             (case gh url of
                None \<Rightarrow> (closed, w)
              | Some line \<Rightarrow>
                  (let (state, merge_sha, decision, reviewers) = parse_pr_status_line line;
                       w1 = (if decision = ''CHANGES_REQUESTED''
                             then on_store repo (note_feedback (px_now env) i (pr_feedback_detail reviewers url)) w else w)
                   in if state \<noteq> ''MERGED'' then (closed, w1)
                      else (closed + 1,
                        on_backend (clear_pipeline (WorkRef repo [] i))
                          (persist_status env i repo Done (on_store repo (note_merge (px_now env) i url merge_sha) w1))))))"

definition poll_pr_status :: "persist_env \<Rightarrow> (string \<Rightarrow> string option) \<Rightarrow> bead list \<Rightarrow> world \<Rightarrow> nat \<times> world" where
  "poll_pr_status env gh beads w = foldl (poll_pr env gh) (0, w) (filter (\<lambda>b. b_status b = ''pr_open'') beads)"

section \<open>Owners\<close>

definition auto_assign :: "persist_env \<Rightarrow> pipeline_engine \<Rightarrow> bead list \<Rightarrow> world \<Rightarrow> world" where
  "auto_assign env engine beads w =
     foldl (\<lambda>w b. if b_owner b \<noteq> None \<or> b_status b = ''closed'' \<or> b_status b = ''done'' then w
              else on_store (b_repo b) (\<lambda>db. db_or db (set_assignee (px_now env) (b_id b) (default_agent engine (b_issue_type b)) db)) w)
       w beads"

end
