(* ===== verification/Threading.thy ===== *)
theory Threading
  imports Epic_Clusters Persistence
begin

text \<open>
  The threads of an iteration (\<open>src/reconcile/threading.rs\<close>): clusters of open beads become threads of the
  backlog, a map from beads to threads is built for the triage, and the pull request of a feature branch is
  opened when every bead of its thread is done (\<open>auto_thread\<close>, \<open>build_thread_map\<close>, \<open>assemble_feature_prs\<close>).
  The git commands that create a branch or open a pull request are not modelled, only which ones are
  asked for.
\<close>

section \<open>Branch names\<close>

text \<open>\<open>replace("--", "-")\<close>: left to right, without looking at the result again.\<close>

fun replace_dashes :: "string \<Rightarrow> string" where
  "replace_dashes [] = []"
| "replace_dashes [c] = [c]"
| "replace_dashes (c # d # s) =
     (if c = CHR ''-'' \<and> d = CHR ''-'' then CHR ''-'' # replace_dashes s else c # replace_dashes (d # s))"

definition trim_dashes :: "string \<Rightarrow> string" where
  "trim_dashes s = (let strip = dropWhile (\<lambda>c. c = CHR ''-'') in rev (strip (rev (strip s))))"

definition thread_branch_name :: "string \<Rightarrow> string \<Rightarrow> string" where
  "thread_branch_name pre thread_name =
     pre @ ''/'' @ trim_dashes (replace_dashes
       (map (\<lambda>c. if is_alphabetic c \<or> is_ascii_digit c \<or> c = CHR ''-'' then c else CHR ''-'') (to_lowercase thread_name)))"

section \<open>Threads of clusters\<close>

text \<open>\<open>{:?}\<close>\<close>

fun relationship_debug :: "cluster_relationship \<Rightarrow> string" where
  "relationship_debug NearDuplicate = ''NearDuplicate''"
| "relationship_debug Sequential = ''Sequential''"
| "relationship_debug SharedScope = ''SharedScope''"
| "relationship_debug Overlapping = ''Overlapping''"

text \<open>The reference to a bead: its repository is that of the first bead with the identifier.\<close>

definition member_ref :: "bead list \<Rightarrow> string \<Rightarrow> work_ref" where
  "member_ref owned i = WorkRef (case List.find (\<lambda>b. b_id b = i) owned of None \<Rightarrow> [] | Some b \<Rightarrow> b_repo b) [] i"

definition threadable :: "bead_cluster \<Rightarrow> bool" where
  "threadable c \<longleftrightarrow> (cl_relationship c = Sequential \<or> cl_relationship c = SharedScope) \<and> length (cl_bead_ids c) \<ge> 2"

definition auto_thread_id :: "bead_cluster \<Rightarrow> string" where
  "auto_thread_id c = ''backlog/'' @ cl_bead_ids c ! 0 @ ''-'' @ cl_bead_ids c ! 1"

definition thread_of_cluster :: "bead_cluster \<Rightarrow> thread_record" where
  "thread_of_cluster c =
     (let thread_name = relationship_debug (cl_relationship c) @ '' cluster''
      in \<lparr> tr_id = auto_thread_id c, tr_name = thread_name, tr_decade_id = ''backlog'',
           tr_feature_branch = Some (thread_branch_name ''feature'' thread_name) \<rparr>)"

definition thread_cluster :: "bead list \<Rightarrow> backend_db \<Rightarrow> bead_cluster \<Rightarrow> backend_db" where
  "thread_cluster owned db c =
     (if \<not> threadable c then db
      else if list_ex (\<lambda>i. find_thread_for_bead db (member_ref owned i) \<noteq> None) (cl_bead_ids c) then db
      else (let db1 = upsert_decade backlog_decade db
            in case upsert_thread (thread_of_cluster c) db1 of
                 Inl _ \<Rightarrow> db1
               | Inr db2 \<Rightarrow> foldl (\<lambda>db i. add_bead_to_thread (auto_thread_id c) (member_ref owned i) db) db2 (cl_bead_ids c)))"

definition open_beads :: "bead list \<Rightarrow> bead list" where
  "open_beads beads = filter (\<lambda>b. bead_state_of b = Open) beads"

definition auto_thread :: "bead list \<Rightarrow> backend_db \<Rightarrow> backend_db" where
  "auto_thread beads db =
     (let owned = open_beads beads
      in case cluster_beads owned of None \<Rightarrow> db | Some clusters \<Rightarrow> foldl (thread_cluster owned) db clusters)"

text \<open>A bead that comes later overwrites one with the same identifier.\<close>

definition build_thread_map :: "bead list \<Rightarrow> backend_db option \<Rightarrow> string \<Rightarrow> string option" where
  "build_thread_map beads hierarchy =
     (case hierarchy of
        None \<Rightarrow> (\<lambda>_. None)
      | Some db \<Rightarrow> map_of (rev (List.map_filter
          (\<lambda>b. map_option (Pair (b_id b)) (find_thread_for_bead db (WorkRef (b_repo b) [] (b_id b)))) beads)))"

section \<open>Feature assembly\<close>

record feature_candidate =
  fc_thread_id :: string
  fc_feature_branch :: string
  fc_bead_refs :: "work_ref list"
  fc_first_repo :: string

definition triggered_threads :: "backend_db \<Rightarrow> (string \<times> string) list \<Rightarrow> string list" where
  "triggered_threads db newly =
     foldl (\<lambda>ts (i, repo). case find_thread_for_bead db (WorkRef repo [] i) of
         None \<Rightarrow> ts | Some t \<Rightarrow> if List.member ts t then ts else ts @ [t]) [] newly"

definition feature_candidate_of :: "backend_db \<Rightarrow> string \<Rightarrow> feature_candidate option" where
  "feature_candidate_of db thread_id =
     (let decade_id = takeWhile (\<lambda>c. c \<noteq> CHR ''/'') thread_id
      in case Option.bind (List.find (\<lambda>t. tr_id t = thread_id) (list_threads db decade_id)) tr_feature_branch of
           None \<Rightarrow> None
         | Some branch \<Rightarrow>
             (case list_beads_in_thread db thread_id of
                [] \<Rightarrow> None
              | r # rs \<Rightarrow> Some \<lparr> fc_thread_id = thread_id, fc_feature_branch = branch, fc_bead_refs = r # rs,
                  fc_first_repo = wr_repo r \<rparr>))"

definition dev_done :: "world \<Rightarrow> work_ref \<Rightarrow> bool" where
  "dev_done w r =
     (case ws_stores w (wr_repo r) of
        None \<Rightarrow> False
      | Some db \<Rightarrow> get_status db (wr_bead_id r) = Some ''pr_open'' \<or> get_status db (wr_bead_id r) = Some ''closed''
          \<or> get_status db (wr_bead_id r) = Some ''done'')"

text \<open>The pull requests that are asked for: the thread, the feature branch and the path of the repository.\<close>

definition assemble_feature_prs :: "(string \<Rightarrow> string option) \<Rightarrow> (string \<times> string) list \<Rightarrow> world \<Rightarrow> (string \<times> string \<times> string) list" where
  "assemble_feature_prs repo_path newly w =
     (case ws_backend w of
        None \<Rightarrow> []
      | Some db \<Rightarrow>
          List.map_filter
            (\<lambda>c. case repo_path (fc_first_repo c) of
               None \<Rightarrow> None
             | Some path \<Rightarrow> if list_all (dev_done w) (fc_bead_refs c) then Some (fc_thread_id c, fc_feature_branch c, path) else None)
            (List.map_filter (feature_candidate_of db) (triggered_threads db newly)))"

section \<open>Finding a thread\<close>

definition unscoped :: "backend_db \<Rightarrow> bool" where
  "unscoped db \<longleftrightarrow> (\<forall>m \<in> set (bk_members db). wr_scope (snd m) = [])"

lemma member_ref_id [simp]: "wr_bead_id (member_ref owned i) = i" "wr_scope (member_ref owned i) = []"
  by (simp_all add: member_ref_def)

lemma find_thread_members: "bk_members db = bk_members db' \<Longrightarrow> find_thread_for_bead db = find_thread_for_bead db'"
  by (simp add: find_thread_for_bead_def fun_eq_iff)

lemma List_find_append: "List.find P (xs @ ys) = (case List.find P xs of None \<Rightarrow> List.find P ys | Some x \<Rightarrow> Some x)"
  by (induction xs) auto

lemma add_finds:
  assumes "unscoped db" "wr_scope w = []"
  shows "find_thread_for_bead (add_bead_to_thread t w db) r =
      (case find_thread_for_bead db r of Some t' \<Rightarrow> Some t' | None \<Rightarrow> if r = w then Some t else None)"
    and "unscoped (add_bead_to_thread t w db)"
proof -
  have there: "(t, w) \<in> set (bk_members db)" if k: "has_key member_key (member_key (t, w)) (bk_members db)"
  proof -
    obtain m where m: "m \<in> set (bk_members db)" "member_key m = member_key (t, w)"
      using k unfolding has_key_def list_ex_iff by blast
    have "snd m = w" using m assms by (auto simp: unscoped_def member_key_def intro: work_ref.expand)
    then show ?thesis using m by (cases m) (auto simp: member_key_def)
  qed
  have known: "find_thread_for_bead db w \<noteq> None" if "(t, w) \<in> set (bk_members db)"
    using that by (auto simp: find_thread_for_bead_def find_None_iff)
  show "find_thread_for_bead (add_bead_to_thread t w db) r =
      (case find_thread_for_bead db r of Some t' \<Rightarrow> Some t' | None \<Rightarrow> if r = w then Some t else None)"
    using there known
    by (cases "has_key member_key (member_key (t, w)) (bk_members db)")
       (auto simp: add_bead_to_thread_def insert_ignore_def find_thread_for_bead_def List_find_append split: option.splits)
  show "unscoped (add_bead_to_thread t w db)"
    using assms by (auto simp: unscoped_def add_bead_to_thread_def insert_ignore_def)
qed

lemma adds_find:
  assumes "unscoped db"
  shows "unscoped (foldl (\<lambda>db i. add_bead_to_thread t (member_ref owned i) db) db ids)
    \<and> find_thread_for_bead (foldl (\<lambda>db i. add_bead_to_thread t (member_ref owned i) db) db ids) r =
      (case find_thread_for_bead db r of Some t' \<Rightarrow> Some t' | None \<Rightarrow> if r \<in> member_ref owned ` set ids then Some t else None)"
  using assms
proof (induction ids arbitrary: db)
  case (Cons i ids)
  note a = add_finds [OF Cons.prems, of "member_ref owned i" t, simplified]
  show ?case using Cons.IH [OF a(2)] by (auto simp: a(1) split: option.splits)
qed (simp split: option.splits)

section \<open>One cluster\<close>

lemma thread_created:
  assumes "threadable c" "\<And>i. i \<in> set (cl_bead_ids c) \<Longrightarrow> find_thread_for_bead db (member_ref owned i) = None"
  obtains db2 where "thread_cluster owned db c =
      foldl (\<lambda>db i. add_bead_to_thread (auto_thread_id c) (member_ref owned i) db) db2 (cl_bead_ids c)"
    "bk_members db2 = bk_members db"
proof -
  have d: "get_decade (upsert_decade backlog_decade db) ''backlog'' \<noteq> None"
    by (simp add: get_decade_def upsert_decade_def row_at_update backlog_decade_def)
  then obtain db2 where u: "upsert_thread (thread_of_cluster c) (upsert_decade backlog_decade db) = Inr db2" "bk_members db2 = bk_members db"
    by (simp add: upsert_thread_def thread_of_cluster_def Let_def) (simp add: upsert_decade_def)
  have "\<not> list_ex (\<lambda>i. find_thread_for_bead db (member_ref owned i) \<noteq> None) (cl_bead_ids c)"
    using assms(2) by (simp add: list_ex_iff)
  then show thesis using that [OF _ u(2)] assms(1) u(1) by (simp add: thread_cluster_def)
qed

lemma thread_skipped:
  assumes "\<not> threadable c \<or> (\<exists>i \<in> set (cl_bead_ids c). find_thread_for_bead db (member_ref owned i) \<noteq> None)"
  shows "thread_cluster owned db c = db"
  using assms by (auto simp: thread_cluster_def list_ex_iff)

text \<open>A bead that has a thread keeps it; the beads of a cluster that gets a thread are all in it.\<close>

lemma thread_cluster_finds:
  assumes "unscoped db"
  shows "unscoped (thread_cluster owned db c)"
    and "find_thread_for_bead (thread_cluster owned db c) r =
      (case find_thread_for_bead db r of
         Some t \<Rightarrow> Some t
       | None \<Rightarrow> if threadable c \<and> (\<forall>i \<in> set (cl_bead_ids c). find_thread_for_bead db (member_ref owned i) = None)
              \<and> r \<in> member_ref owned ` set (cl_bead_ids c)
            then Some (auto_thread_id c) else None)"
proof -
  have "unscoped (thread_cluster owned db c) \<and> find_thread_for_bead (thread_cluster owned db c) r =
      (case find_thread_for_bead db r of
         Some t \<Rightarrow> Some t
       | None \<Rightarrow> if threadable c \<and> (\<forall>i \<in> set (cl_bead_ids c). find_thread_for_bead db (member_ref owned i) = None)
              \<and> r \<in> member_ref owned ` set (cl_bead_ids c)
            then Some (auto_thread_id c) else None)" for r
  proof (cases "threadable c \<and> (\<forall>i \<in> set (cl_bead_ids c). find_thread_for_bead db (member_ref owned i) = None)")
    case True
    then obtain db2 where d: "thread_cluster owned db c =
        foldl (\<lambda>db i. add_bead_to_thread (auto_thread_id c) (member_ref owned i) db) db2 (cl_bead_ids c)"
      "bk_members db2 = bk_members db" using thread_created by blast
    have "unscoped db2" using assms d(2) by (simp add: unscoped_def)
    then show ?thesis using adds_find [of db2 "auto_thread_id c" owned "cl_bead_ids c" r] True find_thread_members [OF d(2)]
      by (simp add: d(1))
  next
    case False
    then have "thread_cluster owned db c = db" by (intro thread_skipped) auto
    then show ?thesis using assms False by (auto split: option.splits)
  qed
  then show "unscoped (thread_cluster owned db c)" "find_thread_for_bead (thread_cluster owned db c) r =
      (case find_thread_for_bead db r of
         Some t \<Rightarrow> Some t
       | None \<Rightarrow> if threadable c \<and> (\<forall>i \<in> set (cl_bead_ids c). find_thread_for_bead db (member_ref owned i) = None)
              \<and> r \<in> member_ref owned ` set (cl_bead_ids c)
            then Some (auto_thread_id c) else None)" by blast+
qed

section \<open>All clusters\<close>

abbreviation thread_all :: "bead list \<Rightarrow> backend_db \<Rightarrow> bead_cluster list \<Rightarrow> backend_db" where
  "thread_all owned \<equiv> foldl (thread_cluster owned)"

lemma thread_all_keeps:
  "unscoped db \<Longrightarrow> unscoped (thread_all owned db cs) \<and>
     (\<forall>r t. find_thread_for_bead db r = Some t \<longrightarrow> find_thread_for_bead (thread_all owned db cs) r = Some t)"
proof (induction cs arbitrary: db)
  case (Cons c cs)
  then show ?case using Cons.IH [OF thread_cluster_finds(1) [OF Cons.prems]] thread_cluster_finds(2) [OF Cons.prems] by simp
qed simp

lemma thread_all_settles:
  assumes "unscoped db" "c \<in> set cs" "threadable c"
  shows "\<exists>i \<in> set (cl_bead_ids c). find_thread_for_bead (thread_all owned db cs) (member_ref owned i) \<noteq> None"
  using assms
proof (induction cs arbitrary: db)
  case (Cons d cs)
  note one = thread_cluster_finds [OF Cons.prems(1), of owned d]
  show ?case
  proof (cases "c = d")
    case True
    have i: "cl_bead_ids c ! 0 \<in> set (cl_bead_ids c)" using Cons.prems(3) by (auto simp: threadable_def intro!: nth_mem)
    have "\<exists>i \<in> set (cl_bead_ids c). find_thread_for_bead (thread_cluster owned db d) (member_ref owned i) \<noteq> None"
    proof (cases "\<forall>i \<in> set (cl_bead_ids c). find_thread_for_bead db (member_ref owned i) = None")
      case all: True
      then show ?thesis using i Cons.prems(3) True by (intro bexI [of _ "cl_bead_ids c ! 0"]) (simp_all add: one(2))
    next
      case False
      then obtain i t where it: "i \<in> set (cl_bead_ids c)" "find_thread_for_bead db (member_ref owned i) = Some t" by auto
      then have "find_thread_for_bead (thread_cluster owned db d) (member_ref owned i) = Some t" by (simp add: one(2))
      then show ?thesis using it(1) by blast
    qed
    then show ?thesis using thread_all_keeps [OF one(1), of owned cs] by fastforce
  next
    case False
    then show ?thesis using Cons.IH [OF one(1)] Cons.prems(2,3) by simp
  qed
qed simp

lemma thread_all_again:
  assumes "\<forall>c \<in> set cs. threadable c \<longrightarrow> (\<exists>i \<in> set (cl_bead_ids c). find_thread_for_bead db (member_ref owned i) \<noteq> None)"
  shows "thread_all owned db cs = db"
  using assms
proof (induction cs)
  case (Cons c cs)
  have "thread_cluster owned db c = db" by (rule thread_skipped) (use Cons.prems in auto)
  then show ?case using Cons by simp
qed simp

text \<open>A cluster of which no bead had a thread: later and earlier clusters share no bead with it.\<close>

lemma thread_all_whole:
  assumes "unscoped db" "sorted_wrt (\<lambda>c d. set (cl_bead_ids c) \<inter> set (cl_bead_ids d) = {}) cs" "c \<in> set cs" "threadable c"
    and "\<forall>i \<in> set (cl_bead_ids c). find_thread_for_bead db (member_ref owned i) = None" "i \<in> set (cl_bead_ids c)"
  shows "find_thread_for_bead (thread_all owned db cs) (member_ref owned i) = Some (auto_thread_id c)"
  using assms(1-5)
proof (induction cs arbitrary: db)
  case (Cons d cs)
  note one = thread_cluster_finds [OF Cons.prems(1), of owned d]
  show ?case
  proof (cases "c = d")
    case True
    then have "find_thread_for_bead (thread_cluster owned db d) (member_ref owned i) = Some (auto_thread_id c)"
      using Cons.prems(4,5) assms(6) by (auto simp: one(2))
    then show ?thesis using thread_all_keeps [OF one(1), of owned cs] by simp
  next
    case False
    have "set (cl_bead_ids d) \<inter> set (cl_bead_ids c) = {}" using Cons.prems(2,3) False by auto
    then have "member_ref owned j \<notin> member_ref owned ` set (cl_bead_ids d)" if "j \<in> set (cl_bead_ids c)" for j
      using that by (auto simp: member_ref_def)
    then have "\<forall>j \<in> set (cl_bead_ids c). find_thread_for_bead (thread_cluster owned db d) (member_ref owned j) = None"
      using Cons.prems(5) by (auto simp: one(2))
    then show ?thesis using Cons.IH [OF one(1)] Cons.prems(2,3,4) False by simp
  qed
qed simp

lemma clusters_share_nothing:
  assumes "distinct (map b_id beads)" "cluster_beads beads = Some cs"
  shows "sorted_wrt (\<lambda>c d. set (cl_bead_ids c) \<inter> set (cl_bead_ids d) = {}) cs"
proof -
  let ?cl = "\<lambda>ms. build_cluster beads ms (scored beads (index_pairs (length beads)))"
  obtain groups where g: "cs = map ?cl groups" "\<forall>ms \<in> set groups. \<forall>i \<in> set ms. i < length beads"
    "sorted_wrt (\<lambda>a b. set a \<inter> set b = {}) groups"
    using cluster_beads_groups [of beads] assms(2) by auto
  have "sorted_wrt (\<lambda>a b. set (cl_bead_ids (?cl a)) \<inter> set (cl_bead_ids (?cl b)) = {}) groups"
    using g(3)
  proof (rule sorted_wrt_mono_rel [rotated])
    fix a b assume "a \<in> set groups" "b \<in> set groups" "set a \<inter> set b = {}"
    then show "set (cl_bead_ids (?cl a)) \<inter> set (cl_bead_ids (?cl b)) = {}"
      using g(2) id_inj [OF assms(1)] unfolding build_cluster_members by blast
  qed
  then show ?thesis by (simp add: g(1) sorted_wrt_map)
qed

lemma clusters_come_back: "\<exists>cs. cluster_beads beads = Some cs"
  using cluster_beads_groups [of beads] by blast

text \<open>
  C19. Threading settles: done again with the same beads it changes nothing. A bead that has a thread keeps
  it, every cluster that is to be threaded has a bead with a thread, and one of which no bead had a thread is
  in its new thread as a whole. The feature branch is that of the kind of cluster, so the threads of all
  sequential clusters have one and the same branch.
\<close>

theorem auto_thread_settles:
  assumes "distinct (map b_id (open_beads beads))" "unscoped db" "cluster_beads (open_beads beads) = Some cs"
  shows "auto_thread beads (auto_thread beads db) = auto_thread beads db
    \<and> (\<forall>r t. find_thread_for_bead db r = Some t \<longrightarrow> find_thread_for_bead (auto_thread beads db) r = Some t)
    \<and> (\<forall>c \<in> set cs. threadable c \<longrightarrow>
        (\<exists>i \<in> set (cl_bead_ids c). find_thread_for_bead (auto_thread beads db) (member_ref (open_beads beads) i) \<noteq> None)
        \<and> ((\<forall>i \<in> set (cl_bead_ids c). find_thread_for_bead db (member_ref (open_beads beads) i) = None) \<longrightarrow>
           (\<forall>i \<in> set (cl_bead_ids c). find_thread_for_bead (auto_thread beads db) (member_ref (open_beads beads) i) = Some (auto_thread_id c)))
        \<and> tr_feature_branch (thread_of_cluster c) =
            Some (if cl_relationship c = Sequential then ''feature/sequential-cluster'' else ''feature/sharedscope-cluster''))"
proof -
  have run: "auto_thread beads db' = thread_all (open_beads beads) db' cs" for db' by (simp add: auto_thread_def assms(3))
  note dis = clusters_share_nothing [OF assms(1,3)]
  have name: "tr_feature_branch (thread_of_cluster c) =
      Some (if cl_relationship c = Sequential then ''feature/sequential-cluster'' else ''feature/sharedscope-cluster'')"
    if t: "threadable c" for c
  proof -
    have b: "thread_branch_name ''feature'' ''Sequential cluster'' = ''feature/sequential-cluster''"
      "thread_branch_name ''feature'' ''SharedScope cluster'' = ''feature/sharedscope-cluster''" by code_simp+
    show ?thesis using t b by (auto simp: threadable_def thread_of_cluster_def Let_def)
  qed
  show ?thesis unfolding run
    using thread_all_again [of cs "thread_all (open_beads beads) db cs" "open_beads beads"] thread_all_settles [OF assms(2)]
      thread_all_keeps [OF assms(2)] thread_all_whole [OF assms(2) dis] name
    by (intro conjI ballI impI) blast+
qed

section \<open>Pull requests of threads\<close>

lemma triggered_from:
  "set (triggered_threads db newly) = {t. \<exists>(i, repo) \<in> set newly. find_thread_for_bead db (WorkRef repo [] i) = Some t}
   \<and> distinct (triggered_threads db newly)"
proof -
  let ?f = "\<lambda>ts (i, repo). case find_thread_for_bead db (WorkRef repo [] i) of
         None \<Rightarrow> ts | Some t \<Rightarrow> if List.member ts t then ts else ts @ [t]"
  have "set (foldl ?f ts xs) = set ts \<union> {t. \<exists>(i, repo) \<in> set xs. find_thread_for_bead db (WorkRef repo [] i) = Some t}
      \<and> (distinct ts \<longrightarrow> distinct (foldl ?f ts xs))" for ts xs
  proof (induction xs arbitrary: ts)
    case (Cons x xs)
    obtain i repo where x: "x = (i, repo)" by force
    show ?case
    proof (cases "find_thread_for_bead db (WorkRef repo [] i)")
      case None
      then show ?thesis using Cons.IH [of ts] by (auto simp: x)
    next
      case (Some t)
      then show ?thesis using Cons.IH [of "if List.member ts t then ts else ts @ [t]"] by (auto simp: x)
    qed
  qed simp
  from this [of "[]" newly] show ?thesis by (simp add: triggered_threads_def)
qed

lemma found_member: "List.find P xs = Some x \<Longrightarrow> x \<in> set xs \<and> P x"
  by (induction xs) (auto split: if_splits)

lemma members_listed: "set (list_beads_in_thread db t) = {w. (t, w) \<in> set (bk_members db)}"
  by (force simp: list_beads_in_thread_def)

text \<open>The thread that a candidate stands for.\<close>

definition ready_thread :: "(string \<Rightarrow> string option) \<Rightarrow> world \<Rightarrow> backend_db \<Rightarrow> string \<Rightarrow> (string \<times> string \<times> string) option" where
  "ready_thread repo_path w db t = Option.bind (feature_candidate_of db t)
     (\<lambda>c. case repo_path (fc_first_repo c) of
               None \<Rightarrow> None
             | Some path \<Rightarrow> if list_all (dev_done w) (fc_bead_refs c) then Some (fc_thread_id c, fc_feature_branch c, path) else None)"

lemma map_filter_twice: "List.map_filter g (List.map_filter f xs) = List.map_filter (\<lambda>x. Option.bind (f x) g) xs"
  by (induction xs) (auto simp: List.map_filter_def split: option.splits)

lemma assembled:
  "ws_backend w = Some db \<Longrightarrow>
     assemble_feature_prs repo_path newly w = List.map_filter (ready_thread repo_path w db) (triggered_threads db newly)"
  by (simp add: assemble_feature_prs_def map_filter_twice ready_thread_def [abs_def])

lemma ready_thread_parts:
  assumes "ready_thread repo_path w db t = Some x"
  obtains th branch path where "x = (t, branch, path)" "th \<in> set (bk_threads db)" "tr_id th = t" "tr_feature_branch th = Some branch"
    "\<And>r. (t, r) \<in> set (bk_members db) \<Longrightarrow> dev_done w r"
proof -
  obtain c path where c: "feature_candidate_of db t = Some c" "repo_path (fc_first_repo c) = Some path"
    "list_all (dev_done w) (fc_bead_refs c)" "x = (fc_thread_id c, fc_feature_branch c, path)"
    using assms by (auto simp: ready_thread_def split: bind_split_asm option.splits if_splits)
  obtain th branch r rs where th: "List.find (\<lambda>t'. tr_id t' = t) (list_threads db (takeWhile (\<lambda>c. c \<noteq> CHR ''/'') t)) = Some th"
    "tr_feature_branch th = Some branch" "list_beads_in_thread db t = r # rs"
    "c = \<lparr> fc_thread_id = t, fc_feature_branch = branch, fc_bead_refs = r # rs, fc_first_repo = wr_repo r \<rparr>"
    using c(1) by (auto simp: feature_candidate_of_def Let_def split: option.splits list.splits bind_split_asm)
  have "th \<in> set (bk_threads db)" "tr_id th = t" using found_member [OF th(1)] by (simp_all add: list_threads_def)
  moreover have "dev_done w m" if "(t, m) \<in> set (bk_members db)" for m
    using that c(3) th(3,4) members_listed [of db t] by (auto simp: list_all_iff)
  ultimately show thesis using that [of branch path th] c(4) th(2,4) by simp
qed

lemma ready_thread_if:
  assumes "distinct (map tr_id (bk_threads db))" "th \<in> set (bk_threads db)" "tr_feature_branch th = Some branch"
    and "tr_decade_id th = takeWhile (\<lambda>c. c \<noteq> CHR ''/'') (tr_id th)" "(tr_id th, r) \<in> set (bk_members db)"
    and "\<And>r. (tr_id th, r) \<in> set (bk_members db) \<Longrightarrow> dev_done w r \<and> repo_path (wr_repo r) \<noteq> None"
  shows "\<exists>path. ready_thread repo_path w db (tr_id th) = Some (tr_id th, branch, path)"
proof -
  let ?ts = "list_threads db (takeWhile (\<lambda>c. c \<noteq> CHR ''/'') (tr_id th))"
  have "th \<in> set ?ts" using assms(2,4) by (simp add: list_threads_def)
  moreover have "x = th" if "x \<in> set ?ts" "tr_id x = tr_id th" for x
    using that assms(1,2) by (auto simp: list_threads_def distinct_map dest: inj_onD)
  ultimately have f: "List.find (\<lambda>t'. tr_id t' = tr_id th) ?ts = Some th"
    by (cases "List.find (\<lambda>t'. tr_id t' = tr_id th) ?ts") (auto simp: find_None_iff dest: found_member)
  obtain m ms where m: "list_beads_in_thread db (tr_id th) = m # ms"
    using members_listed [of db "tr_id th"] assms(5) by (cases "list_beads_in_thread db (tr_id th)") auto
  have all: "dev_done w x \<and> repo_path (wr_repo x) \<noteq> None" if "x \<in> set (m # ms)" for x
    using that assms(6) members_listed [of db "tr_id th"] m by auto
  then have "list_all (dev_done w) (m # ms)" by (auto simp: list_all_iff)
  moreover obtain path where "repo_path (wr_repo m) = Some path" using all [of m] by auto
  ultimately show ?thesis using f m assms(3) by (simp add: ready_thread_def feature_candidate_of_def)
qed

lemma map_filter_fst_distinct:
  assumes "distinct xs" "\<And>x y. x \<in> set xs \<Longrightarrow> f x = Some y \<Longrightarrow> fst y = x"
  shows "distinct (map fst (List.map_filter f xs)) \<and> set (map fst (List.map_filter f xs)) \<subseteq> set xs"
  using assms
proof (induction xs)
  case (Cons x xs)
  have "distinct (map fst (List.map_filter f xs)) \<and> set (map fst (List.map_filter f xs)) \<subseteq> set xs"
    using Cons by simp
  moreover have "fst y = x" if "f x = Some y" for y using Cons.prems(2) that by simp
  ultimately show ?case using Cons.prems(1) by (cases "f x") (auto simp: List.map_filter_simps)
qed (simp add: List.map_filter_simps)

text \<open>
  C20. A pull request for a feature branch is asked for at most once in an iteration, only for a thread to which a
  bead belongs that has just got its own, and only when every bead of the thread has one, or is done. It is
  asked for when all that is so, the thread has a branch and the name of its decade in its identifier, and the
  repositories of its beads are known.
\<close>

theorem feature_prs_are_complete_threads:
  assumes "ws_backend w = Some db" "distinct (map tr_id (bk_threads db))"
  shows "distinct (map fst (assemble_feature_prs repo_path newly w))
    \<and> (\<forall>t branch path. (t, branch, path) \<in> set (assemble_feature_prs repo_path newly w) \<longrightarrow>
        (\<exists>i repo. (i, repo) \<in> set newly \<and> find_thread_for_bead db (WorkRef repo [] i) = Some t)
        \<and> (\<exists>th \<in> set (bk_threads db). tr_id th = t \<and> tr_feature_branch th = Some branch)
        \<and> (\<forall>r. (t, r) \<in> set (bk_members db) \<longrightarrow> dev_done w r))
    \<and> (\<forall>i repo th branch. (i, repo) \<in> set newly \<and> find_thread_for_bead db (WorkRef repo [] i) = Some (tr_id th)
        \<and> th \<in> set (bk_threads db) \<and> tr_feature_branch th = Some branch
        \<and> tr_decade_id th = takeWhile (\<lambda>c. c \<noteq> CHR ''/'') (tr_id th)
        \<and> (\<forall>r. (tr_id th, r) \<in> set (bk_members db) \<longrightarrow> dev_done w r \<and> repo_path (wr_repo r) \<noteq> None) \<longrightarrow>
          (\<exists>path. (tr_id th, branch, path) \<in> set (assemble_feature_prs repo_path newly w)))"
proof -
  note run = assembled [OF assms(1), of repo_path newly]
  note ts = triggered_from [of db newly]
  have mem: "x \<in> set (assemble_feature_prs repo_path newly w) \<longleftrightarrow>
      (\<exists>t \<in> set (triggered_threads db newly). ready_thread repo_path w db t = Some x)" for x
    unfolding run by (rule mem_filter_map_of)
  have once: "distinct (map fst (assemble_feature_prs repo_path newly w))"
    unfolding run by (rule map_filter_fst_distinct [THEN conjunct1]) (use ts in \<open>auto elim: ready_thread_parts\<close>)
  have only: "(\<exists>i repo. (i, repo) \<in> set newly \<and> find_thread_for_bead db (WorkRef repo [] i) = Some t)
        \<and> (\<exists>th \<in> set (bk_threads db). tr_id th = t \<and> tr_feature_branch th = Some branch)
        \<and> (\<forall>r. (t, r) \<in> set (bk_members db) \<longrightarrow> dev_done w r)"
    if x: "(t, branch, path) \<in> set (assemble_feature_prs repo_path newly w)" for t branch path
  proof -
    obtain t' where t': "t' \<in> set (triggered_threads db newly)" "ready_thread repo_path w db t' = Some (t, branch, path)"
      using x mem by blast
    show ?thesis by (rule ready_thread_parts [OF t'(2)]) (use t'(1) ts in auto)
  qed
  have all: "\<exists>path. (tr_id th, branch, path) \<in> set (assemble_feature_prs repo_path newly w)"
    if h: "(i, repo) \<in> set newly" "find_thread_for_bead db (WorkRef repo [] i) = Some (tr_id th)"
      "th \<in> set (bk_threads db)" "tr_feature_branch th = Some branch" "tr_decade_id th = takeWhile (\<lambda>c. c \<noteq> CHR ''/'') (tr_id th)"
      "\<forall>r. (tr_id th, r) \<in> set (bk_members db) \<longrightarrow> dev_done w r \<and> repo_path (wr_repo r) \<noteq> None" for i repo th branch
  proof -
    have m: "(tr_id th, WorkRef repo [] i) \<in> set (bk_members db)"
      using h(2) by (auto simp: find_thread_for_bead_def dest: found_member)
    have "tr_id th \<in> set (triggered_threads db newly)" using h(1,2) ts by blast
    then show ?thesis using ready_thread_if [OF assms(2) h(3-5) m, of w repo_path] h(6) mem by blast
  qed
  show ?thesis using once only all by blast
qed

theorem auto_thread_settles_witness:
  "\<exists>cs. cluster_beads (open_beads twins) = Some cs
     \<and> auto_thread twins (auto_thread twins empty_backend) = auto_thread twins empty_backend"
proof -
  obtain cs where cs: "cluster_beads (open_beads twins) = Some cs" using clusters_come_back by blast
  have "distinct (map b_id (open_beads twins))" "unscoped empty_backend"
    by (simp_all add: open_beads_def twins_def titled_def unscoped_def empty_backend_def)
  then show ?thesis using auto_thread_settles [OF _ _ cs] cs by simp
qed

definition thread_backend :: backend_db where
  "thread_backend = empty_backend\<lparr>
     bk_threads := [\<lparr> tr_id = ''d/t'', tr_name = ''t'', tr_decade_id = ''d'', tr_feature_branch = Some ''feature/t'' \<rparr>],
     bk_members := [(''d/t'', WorkRef ''app'' [] ''app-1'')] \<rparr>"

theorem feature_prs_are_complete_threads_witness:
  "\<exists>path. (''d/t'', ''feature/t'', path) \<in> set (assemble_feature_prs (\<lambda>_. Some ''/r'') [(''app-1'', ''app'')]
     \<lparr> ws_stores = [''app'' \<mapsto> sample_db], ws_backend = Some thread_backend, ws_mirrored = [] \<rparr>)"
proof -
  let ?w = "\<lparr> ws_stores = [''app'' \<mapsto> sample_db], ws_backend = Some thread_backend, ws_mirrored = [] \<rparr>"
  let ?th = "\<lparr> tr_id = ''d/t'', tr_name = ''t'', tr_decade_id = ''d'', tr_feature_branch = Some ''feature/t'' \<rparr>"
  have d: "dev_done ?w (WorkRef ''app'' [] ''app-1'')" by code_simp
  have h: "ws_backend ?w = Some thread_backend" "distinct (map tr_id (bk_threads thread_backend))"
    "(''app-1'', ''app'') \<in> set [(''app-1'', ''app'')]"
    "find_thread_for_bead thread_backend (WorkRef ''app'' [] ''app-1'') = Some (tr_id ?th)" "?th \<in> set (bk_threads thread_backend)"
    "tr_feature_branch ?th = Some ''feature/t''" "tr_decade_id ?th = takeWhile (\<lambda>c. c \<noteq> CHR ''/'') (tr_id ?th)"
    "\<forall>r. (tr_id ?th, r) \<in> set (bk_members thread_backend) \<longrightarrow> dev_done ?w r \<and> (\<lambda>_. Some ''/r'') (wr_repo r) \<noteq> None"
    using d by (simp_all add: thread_backend_def find_thread_for_bead_def)
  from feature_prs_are_complete_threads [OF h(1,2), THEN conjunct2, THEN conjunct2, rule_format,
      where i = "''app-1''" and repo = "''app''" and th = ?th and branch = "''feature/t''" and repo_path = "\<lambda>_. Some ''/r''"
        and newly = "[(''app-1'', ''app'')]"]
  show ?thesis using h(3-8) by (simp only: thread_record.simps)
qed

end
