(* ===== verification/Persistence_Behaviour.thy ===== *)
theory Persistence_Behaviour
  imports Persistence Backend_Behaviour
begin

text \<open>
  How the writes of the reconciler and the lifecycle of the store fit together: which of the statuses that the
  flat and the hierarchical mode write are accepted, and which are refused.
\<close>

section \<open>What a status write does\<close>

text \<open>The state that is stored for a bead.\<close>

definition stored_state :: "world \<Rightarrow> string \<Rightarrow> string \<Rightarrow> bead_state option" where
  "stored_state w repo i = Option.bind (ws_stores w repo) (\<lambda>db. status_at db i)"

lemmas status_at_log [simp] = status_comments(6)

lemma stored_on_store:
  assumes "\<And>db. status_at (f db) = status_at db"
  shows "stored_state (on_store repo f w) = stored_state w"
  using assms by (auto simp: stored_state_def on_store_def fun_eq_iff split: option.splits)

lemma stored_on_backend [simp]: "stored_state (on_backend f w) = stored_state w"
  by (simp add: stored_state_def on_backend_def fun_eq_iff)

text \<open>A status is written exactly when the lifecycle has the transition; a bead that is addressed by its
  whole identifier is the only one that is touched.\<close>

lemma write_status_state:
  assumes "status_at db i = Some current"
  shows "status_at (write_status now i st db) j =
    (if j = i \<and> can_transition_to current st then Some st else status_at db j)"
proof -
  obtain r where r: "row_of db i = Some r" "state_of_str (ir_status r) = current"
    using assms by (auto simp: status_at_def)
  have d: "state_of_str (state_display st) = st" by (cases st) (simp_all add: state_of_str_def)
  then have u: "update_status now i (state_display st) db =
      (if can_transition_to current st
       then Inr (set_row i (\<lambda>r. r\<lparr> ir_status := state_display st, ir_updated_at := now \<rparr>) db)
       else Inl (InvalidTransition current st i))"
    using r by (simp add: update_status_def with_bead_def resolve_self)
  show ?thesis using r d
    by (auto simp: write_status_def u db_or_def status_at_def row_of_set_row keeps_id_def)
qed

lemma persist_status_state:
  assumes "stored_state w repo i = Some current"
  shows "stored_state (persist_status env i repo st w) repo' j =
    (if repo' = repo \<and> j = i \<and> can_transition_to current st then Some st else stored_state w repo' j)"
proof -
  obtain db where db: "ws_stores w repo = Some db" "status_at db i = Some current"
    using assms by (auto simp: stored_state_def split: bind_split_asm)
  have s: "ws_stores (persist_status env i repo st w) = (ws_stores w)(repo \<mapsto> write_status (px_now env) i st db)"
    using db(1) by (simp add: persist_status_def Let_def)
  show ?thesis using write_status_state [OF db(2)] db(1) by (simp add: stored_state_def s)
qed

text \<open>The status that a bead has after some writes, each of which is refused or not.\<close>

fun settle :: "bead_state \<Rightarrow> bead_state list \<Rightarrow> bead_state" where
  "settle s [] = s"
| "settle s (t # ts) = settle (if can_transition_to s t then t else s) ts"

lemma settle_append: "settle s (xs @ ys) = settle (settle s xs) ys"
  by (induction xs arbitrary: s) auto

definition status_part :: "effect list \<Rightarrow> (string \<times> string \<times> bead_state) list" where
  "status_part es = List.map_filter (\<lambda>e. case e of PersistStatus i repo st \<Rightarrow> Some (i, repo, st) | _ \<Rightarrow> None) es"

lemma status_part_simps [simp]:
  "status_part [] = []"
  "status_part (e # es) = (case e of PersistStatus i repo st \<Rightarrow> [(i, repo, st)] | _ \<Rightarrow> []) @ status_part es"
  "status_part (xs @ ys) = status_part xs @ status_part ys"
  by (auto simp: status_part_def List.map_filter_def split: effect.splits)

lemma persist_all_part:
  "persist_all env es w = foldl (\<lambda>w (i, repo, st). persist_status env i repo st w) w (status_part es)"
  by (induction es arbitrary: w) (auto simp: persist_all_def split: effect.splits)

text \<open>The writes for one bead, when no other bead is written to.\<close>

lemma persist_run:
  assumes "stored_state w repo i = Some current"
  shows "stored_state (foldl (\<lambda>w (i, repo, st). persist_status env i repo st w) w (map (\<lambda>st. (i, repo, st)) sts)) repo' j =
    (if repo' = repo \<and> j = i then Some (settle current sts) else stored_state w repo' j)"
  using assms
proof (induction sts arbitrary: w current)
  case (Cons st sts)
  have "stored_state (persist_status env i repo st w) repo i = Some (if can_transition_to current st then st else current)"
    using persist_status_state [OF Cons.prems, of env st repo i] Cons.prems by simp
  from Cons.IH [OF this] show ?case
    by (simp add: persist_status_state [OF Cons.prems])
qed auto

section \<open>The flat mode\<close>

definition action_writes :: "action_outcome \<Rightarrow> bead_state list \<Rightarrow> bool" where
  "action_writes r ws \<longleftrightarrow>
     (case r of Advanced _ \<Rightarrow> ws = [] \<or> ws = [Open] | Completed \<Rightarrow> ws = [PrOpen] | Retrying \<Rightarrow> ws = [Open]
      | Deadlettered \<Rightarrow> ws = [DeadLetter])"

abbreviation writes_for :: "string \<Rightarrow> string \<Rightarrow> bead_state list \<Rightarrow> (string \<times> string \<times> bead_state) list" where
  "writes_for i repo ws \<equiv> map (\<lambda>st. (i, repo, st)) ws"

lemma failure_effects:
  "status_part (rc_effects (handle_failure env b ok su r s)) = status_part (rc_effects s)"
  by (auto simp: handle_failure_def on_fail_def on_fail_exit_def Let_def split: option.splits prod.splits)

lemma execute_writes:
  assumes "execute_action env b repo a cl su s = (r, s')"
  shows "\<exists>ws. status_part (rc_effects s') = status_part (rc_effects s) @ writes_for b repo ws \<and> action_writes r ws"
proof (cases a)
  case (Advance nx ph)
  have w: "status_part (rc_effects (write_handoff_and_advance env b repo nx x)) = status_part (rc_effects x)
      \<or> status_part (rc_effects (write_handoff_and_advance env b repo nx x)) = status_part (rc_effects x) @ [(b, repo, Open)]" for x
    by (auto simp: write_handoff_and_advance_def advance_tracker_def Let_def split: prod.splits)
  obtain x where x: "s' = write_handoff_and_advance env b repo nx x" "status_part (rc_effects x) = status_part (rc_effects s)" "r = Advanced nx"
    using assms Advance by (auto simp: execute_action_def Let_def on_pass_fields split: prod.splits)
  from w [of x] show ?thesis
  proof
    assume "status_part (rc_effects (write_handoff_and_advance env b repo nx x)) = status_part (rc_effects x)"
    then show ?thesis using x by (intro exI [of _ "[]"]) (simp add: action_writes_def)
  next
    assume "status_part (rc_effects (write_handoff_and_advance env b repo nx x)) = status_part (rc_effects x) @ [(b, repo, Open)]"
    then show ?thesis using x by (intro exI [of _ "[Open]"]) (simp add: action_writes_def)
  qed
next
  case Terminal
  then show ?thesis using assms
    by (auto simp: execute_action_def Let_def on_pass_fields action_writes_def split: prod.splits)
next
  case Retry
  then show ?thesis using assms
    by (auto simp: execute_action_def Let_def failure_effects action_writes_def split: prod.splits)
next
  case Deadletter
  then show ?thesis using assms
    by (auto simp: execute_action_def Let_def failure_effects action_writes_def split: prod.splits)
qed

lemma signal_writes: "status_part (rc_effects (signal_verifying b repo s)) = status_part (rc_effects s) @ [(b, repo, Verifying)]"
  by (simp add: signal_verifying_def split: prod.splits)

lemma complete_writes: "status_part (rc_effects (complete_dispatch_of b cl r s)) = status_part (rc_effects s)"
  by (auto simp: complete_dispatch_of_def split: option.splits)

lemma settle_accepted:
  assumes "action_writes r ws" "ok \<or> (r = Retrying \<or> r = Deadlettered)"
  shows "settle Dispatched ((if ok then [Verifying] else []) @ ws) =
    (case r of Advanced _ \<Rightarrow> if ws = [] then Verifying else Open | Completed \<Rightarrow> PrOpen | Retrying \<Rightarrow> Open | Deadlettered \<Rightarrow> DeadLetter)"
  using assms by (auto simp: action_writes_def can_transition_to_def split: action_outcome.splits)

text \<open>A failed run never passes.\<close>

lemma failed_outcome:
  assumes "verify_and_decide env b False beads s = ((a, su), s2)"
    and "execute_action env b repo (feedback_gate env b repo a s2) cl su s2 = (r, s3)"
  shows "r = Retrying \<or> r = Deadlettered"
proof -
  have "a = Retry \<or> a = Deadletter"
    using assms(1) by (auto simp: verify_and_decide_def verify_outcome_def decide_def Let_def split: prod.splits if_splits)
  then show ?thesis using assms(2) by (auto simp: feedback_gate_def passes_def execute_action_def Let_def split: prod.splits)
qed

text \<open>The world after the calls that the reconciler has made so far.\<close>

abbreviation persisted :: "persist_env \<Rightarrow> world \<Rightarrow> reconciler \<Rightarrow> world" where
  "persisted pe w s \<equiv> persist_all pe (rc_effects s) w"

lemma persisted_more:
  assumes "status_part (rc_effects s') = status_part (rc_effects s) @ writes_for i repo ws"
    and "stored_state (persisted pe w s) repo i = Some current"
  shows "stored_state (persisted pe w s') repo' j =
    (if repo' = repo \<and> j = i then Some (settle current ws) else stored_state (persisted pe w s) repo' j)"
proof -
  have "persisted pe w s' = foldl (\<lambda>w (i, repo, st). persist_status pe i repo st w) (persisted pe w s) (writes_for i repo ws)"
    by (simp add: persist_all_part assms(1))
  then show ?thesis using persist_run [OF assms(2), of pe ws repo' j] by simp
qed

lemma flat_writes:
  assumes "rc_orchestrators s b = None" "\<not> ev_agent_closed env b (repo_of_bead beads b s)"
    and "verify_one env beads (b, exited) (c, s) = (c', s')"
  obtains ok r ws where "status_part (rc_effects s') =
      status_part (rc_effects s) @ writes_for b (repo_of_bead beads b s) ((if ok then [Verifying] else []) @ ws)"
    "action_writes r ws" "ok \<or> r = Retrying \<or> r = Deadlettered"
    "c' = tally b (repo_of_bead beads b s) r
      (if ok then c\<lparr> vr_status_updates := vr_status_updates c @ [(b, repo_of_bead beads b s, ''verifying'')] \<rparr> else c)"
proof -
  let ?repo = "repo_of_bead beads b s"
  obtain cl ok w where cl: "classify_completion env b exited s = (cl, ok, w)" by (metis prod_cases3)
  let ?s1 = "if ok then signal_verifying b ?repo s else s"
  obtain a su s2 where v: "verify_and_decide env b ok beads ?s1 = ((a, su), s2)" by (metis prod.exhaust)
  obtain r s3 where e: "execute_action env b ?repo (feedback_gate env b ?repo a s2) cl su s2 = (r, s3)" by (metis prod.exhaust)
  have s': "s' = complete_dispatch_of b cl r (defer_retry env b ?repo w r s3)"
    and c': "c' = tally b ?repo r (if ok then c\<lparr> vr_status_updates := vr_status_updates c @ [(b, ?repo, ''verifying'')] \<rparr> else c)"
    using assms cl v e by (auto simp: verify_one_def Let_def)
  obtain ws where ws: "status_part (rc_effects s3) = status_part (rc_effects s2) @ writes_for b ?repo ws" "action_writes r ws"
    using execute_writes [OF e] by blast
  have "status_part (rc_effects s') = status_part (rc_effects ?s1) @ writes_for b ?repo ws"
    using ws(1) vad_fields(3) [OF v] by (simp add: s' complete_writes other_fields)
  moreover have "ok \<or> r = Retrying \<or> r = Deadlettered" using failed_outcome v e by (cases ok) auto
  ultimately show ?thesis using that [of ok ws r] ws(2) c' by (auto simp: signal_writes)
qed

text \<open>
  C14. In the flat mode the store follows the reconciler: when the bead of a completed agent is stored as
  dispatched, every status that its verification writes is accepted, the stored status is the one that is
  reported last, and no other bead changes. A bead that advanced is open again, or, when its handoff could
  not be written, left verifying.
\<close>

theorem flat_statuses_are_stored_as_reported:
  assumes "rc_orchestrators s b = None" "\<not> ev_agent_closed env b (repo_of_bead beads b s)"
    and "verify_one env beads (b, exited) (c, s) = (c', s')"
    and "stored_state (persisted pe w s) (repo_of_bead beads b s) b = Some Dispatched"
  shows "\<exists>st. stored_state (persisted pe w s') (repo_of_bead beads b s) b = Some st
    \<and> ((\<exists>nxt. vr_phase_advances c' = vr_phase_advances c @ [(b, repo_of_bead beads b s, nxt)] \<and> (st = Open \<or> st = Verifying))
       \<or> vr_phase_advances c' = vr_phase_advances c \<and> last (vr_status_updates c') = (b, repo_of_bead beads b s, state_display st))
    \<and> (\<forall>repo i. repo = repo_of_bead beads b s \<and> i = b \<or> stored_state (persisted pe w s') repo i = stored_state (persisted pe w s) repo i)"
proof -
  obtain ok r ws where p: "status_part (rc_effects s') =
      status_part (rc_effects s) @ writes_for b (repo_of_bead beads b s) ((if ok then [Verifying] else []) @ ws)"
    and a: "action_writes r ws" and k: "ok \<or> r = Retrying \<or> r = Deadlettered"
    and c': "c' = tally b (repo_of_bead beads b s) r
      (if ok then c\<lparr> vr_status_updates := vr_status_updates c @ [(b, repo_of_bead beads b s, ''verifying'')] \<rparr> else c)"
    using flat_writes [OF assms(1-3)] by blast
  note st = persisted_more [OF p assms(4)]
  have sn: "settle Dispatched ((if ok then [Verifying] else []) @ ws) =
      (case r of Advanced _ \<Rightarrow> if ws = [] then Verifying else Open | Completed \<Rightarrow> PrOpen | Retrying \<Rightarrow> Open | Deadlettered \<Rightarrow> DeadLetter)"
    by (rule settle_accepted [OF a k])
  show ?thesis by (cases r) (auto simp: st sn c' tally_def)
qed

section \<open>The hierarchical mode\<close>

lemma advance_ref: "fo_bead_ref (advance_to_next_phase fo) = fo_bead_ref fo"
  by (simp add: advance_to_next_phase_def Let_def)

lemma tick_keeps_ref: "fo_bead_ref (snd (tick poll fo)) = fo_bead_ref fo"
proof (induction poll fo rule: tick.induct)
  case (1 poll fo)
  show ?case
  proof (cases "fo_state fo")
    case OIdle
    then show ?thesis by (cases "fo_current_phase fo < length (fo_pipeline fo)") (simp_all add: tick_simps)
  next
    case (AwaitingWorker a p)
    then show ?thesis by (auto simp: tick_simps poll_worker_def split: option.splits poll_result.splits)
  next
    case Synthesizing
    then show ?thesis by (cases "fo_current_phase fo < length (fo_pipeline fo)") (simp_all add: tick_simps)
  next
    case (PlanApproval plan)
    show ?thesis unfolding tick_simps(7) [OF PlanApproval] using "1.IH" PlanApproval by (simp add: advance_ref)
  next
    case (ResearchFanOut w c fs)
    show ?thesis unfolding tick_simps(8) [OF ResearchFanOut] using "1.IH" ResearchFanOut by (simp add: advance_ref)
  qed (simp_all add: tick_simps)
qed

lemma completed_ref: "fo_bead_ref (on_worker_completed p n fo) = fo_bead_ref fo"
  by (simp add: on_worker_completed_def Let_def)

text \<open>A bead has an orchestrator, whose repository the reconciler mirrors.\<close>

definition orchestrated :: "string \<Rightarrow> string \<Rightarrow> hierarchical \<Rightarrow> bool" where
  "orchestrated b repo h \<longleftrightarrow>
     (\<exists>fo. hr_orchestrators h b = Some fo \<and> wr_repo (fo_bead_ref fo) = repo) \<and> rc_orchestrators (hr_rec h) b = Some repo"

abbreviation written :: "hierarchical \<Rightarrow> (string \<times> string \<times> bead_state) list" where
  "written h \<equiv> status_part (rc_effects (hr_rec h))"

lemma put_written [simp]: "written (put_orchestrator b fo h) = written h"
  by (simp add: put_orchestrator_def)

lemma put_orchestrated: "wr_repo (fo_bead_ref fo) = repo \<Longrightarrow> orchestrated b repo (put_orchestrator b fo h)"
  by (simp add: orchestrated_def put_orchestrator_def)

lemma spawn_writes:
  assumes "orchestrated b repo h"
  shows "written (snd (spawn_phase env b agent (r, h))) = written h \<and> orchestrated b repo (snd (spawn_phase env b agent (r, h)))"
  using assms
  by (auto simp: spawn_phase_def Let_def orchestrated_def put_orchestrator_def completed_ref split: option.splits)

lemma finish_writes:
  assumes "orchestrated b repo h"
  shows "written (snd (finish_phase env b ok (r, h))) = written h \<and> orchestrated b repo (snd (finish_phase env b ok (r, h)))"
proof -
  obtain a su s where v: "verify_and_decide (he_env env) b ok (he_beads env) (hr_rec h) = ((a, su), s)" by (metis prod.exhaust)
  show ?thesis using assms vad_fields(3,6) [OF v]
    by (auto simp: finish_phase_def v Let_def orchestrated_def put_orchestrator_def completed_ref split: option.splits)
qed

lemma tick_one_writes:
  assumes "orchestrated b repo h"
  shows "(written (snd (tick_one env b (r, h))) = written h \<and> orchestrated b repo (snd (tick_one env b (r, h))))
    \<or> (\<exists>st \<in> {PrOpen, DeadLetter}. written (snd (tick_one env b (r, h))) = written h @ [(b, repo, st)]
          \<and> hr_orchestrators (snd (tick_one env b (r, h))) b = None)"
proof -
  obtain fo where fo: "hr_orchestrators h b = Some fo" "wr_repo (fo_bead_ref fo) = repo" using assms by (auto simp: orchestrated_def)
  obtain oc fo' where t: "tick (he_poll env) fo = (oc, fo')" by (metis prod.exhaust)
  have ref: "wr_repo (fo_bead_ref fo') = repo" using tick_keeps_ref [of "he_poll env" fo] t fo(2) by simp
  let ?h = "put_orchestrator b fo' h"
  have o: "orchestrated b repo ?h" by (rule put_orchestrated [OF ref])
  show ?thesis
  proof (cases oc)
    case TickIdle
    then show ?thesis using o fo t by (simp add: tick_one_def)
  next
    case (NeedsSpawn agent p d)
    then show ?thesis using spawn_writes [OF o, of env agent r] fo t by (simp add: tick_one_def)
  next
    case (WorkerCompleted ok)
    then show ?thesis using finish_writes [OF o, of env ok r] fo t by (simp add: tick_one_def)
  next
    case TickTerminal
    then show ?thesis using fo t ref by (simp add: tick_one_def drop_orchestrator_def Let_def put_orchestrator_def)
  next
    case (TickFailed reason)
    then show ?thesis using fo t ref by (simp add: tick_one_def drop_orchestrator_def Let_def put_orchestrator_def)
  qed
qed

lemma verify_one_orchestrated:
  assumes "rc_orchestrators s b \<noteq> None"
  shows "status_part (rc_effects (snd (verify_one env beads (b, exited) (c, s)))) = status_part (rc_effects s)
    \<and> rc_orchestrators (snd (verify_one env beads (b, exited) (c, s))) = rc_orchestrators s"
proof -
  obtain cl ok w where cl: "classify_completion env b exited s = (cl, ok, w)" by (metis prod_cases3)
  obtain a su s2 where v: "verify_and_decide env b ok beads s = ((a, su), s2)" by (metis prod.exhaust)
  show ?thesis using assms vad_fields(3,6) [OF v] by (simp add: verify_one_def cl v Let_def)
qed

text \<open>What happens to a bead while it has an orchestrator: the passes over it, and the completion of its agents.\<close>

inductive orchestrated_step :: "string \<Rightarrow> hierarchical \<Rightarrow> hierarchical \<Rightarrow> bool" for b where
  ticked: "hr_orchestrators h b \<noteq> None \<Longrightarrow> orchestrated_step b h (snd (tick_one env b (r, h)))"
| completed: "hr_orchestrators h b \<noteq> None \<Longrightarrow>
    orchestrated_step b h (feed_back env b passed (h\<lparr> hr_rec := snd (verify_one (he_env env) beads (b, exited) (c, hr_rec h)) \<rparr>))"

lemma step_writes:
  assumes "orchestrated_step b h h'" "orchestrated b repo h"
  shows "(written h' = written h \<and> orchestrated b repo h')
    \<or> (\<exists>st \<in> {PrOpen, DeadLetter}. written h' = written h @ [(b, repo, st)] \<and> hr_orchestrators h' b = None)"
  using assms
proof (cases rule: orchestrated_step.cases)
  case (ticked env r)
  then show ?thesis using tick_one_writes [OF assms(2)] by simp
next
  case (completed env passed beads exited c)
  have v: "rc_orchestrators (hr_rec h) b \<noteq> None" using assms(2) by (simp add: orchestrated_def)
  show ?thesis using completed assms(2) verify_one_orchestrated [OF v, of "he_env env" beads exited c]
    by (auto simp: feed_back_def orchestrated_def put_orchestrator_def completed_ref split: option.splits)
qed

lemma steps_write:
  assumes "(orchestrated_step b)\<^sup>*\<^sup>* h h'" "orchestrated b repo h"
  shows "(written h' = written h \<and> orchestrated b repo h')
    \<or> (\<exists>st \<in> {PrOpen, DeadLetter}. written h' = written h @ [(b, repo, st)] \<and> hr_orchestrators h' b = None)"
  using assms
proof (induction rule: rtranclp_induct)
  case (step x y)
  have "hr_orchestrators x b \<noteq> None" using step.hyps(2) by (auto elim: orchestrated_step.cases)
  then have x: "written x = written h" "orchestrated b repo x" using step.IH [OF step.prems] by auto
  show ?case using step_writes [OF step.hyps(2) x(2)] x(1) by simp
qed simp

text \<open>
  C15. A bead in the hierarchical mode never gets past dispatched: while it has an orchestrator no status is
  written, and the one that ends its pipeline (a pull request is open) is refused by the store, because
  verifying is never written; only the end in failure is stored. The orchestrator is gone all the same.
\<close>

theorem orchestrated_beads_stay_dispatched:
  assumes "orchestrated b repo h" "stored_state (persisted pe w (hr_rec h)) repo b = Some Dispatched"
    and "(orchestrated_step b)\<^sup>*\<^sup>* h h'"
  shows "stored_state (persisted pe w (hr_rec h')) repo b =
      Some (if written h' = written h @ [(b, repo, DeadLetter)] then DeadLetter else Dispatched)
    \<and> (if hr_orchestrators h' b = None
       then written h' = written h @ [(b, repo, PrOpen)] \<or> written h' = written h @ [(b, repo, DeadLetter)]
       else written h' = written h)"
proof -
  have same: "stored_state (persisted pe w (hr_rec h')) repo b = Some (settle Dispatched sts)"
    if "written h' = written h @ writes_for b repo sts" for sts
    using persisted_more [OF that assms(2), of repo b] by simp
  have refused: "\<not> can_transition_to Dispatched PrOpen" "can_transition_to Dispatched DeadLetter"
    by (simp_all add: can_transition_to_def)
  from steps_write [OF assms(3,1)] consider (kept) "written h' = written h" "hr_orchestrators h' b \<noteq> None"
    | (opened) "written h' = written h @ [(b, repo, PrOpen)]" "hr_orchestrators h' b = None"
    | (buried) "written h' = written h @ [(b, repo, DeadLetter)]" "hr_orchestrators h' b = None"
    by (auto simp: orchestrated_def)
  then show ?thesis
  proof cases
    case kept
    then show ?thesis using same [of "[]"] by simp
  next
    case opened
    then show ?thesis using same [of "[PrOpen]"] refused by simp
  next
    case buried
    then show ?thesis using same [of "[DeadLetter]"] refused by simp
  qed
qed

section \<open>A store with a dispatched bead\<close>

definition sample_persist :: persist_env where
  "sample_persist = \<lparr> px_now = ''t'', px_parse = (\<lambda>_. Some 7), px_clock = letter_clock, px_tracker = False \<rparr>"

definition sample_stored :: bead_db where
  "sample_stored = write_status ''t'' ''app-1'' Dispatched (run_ops (take 1 sample_ops) empty_db)"

definition sample_world :: world where
  "sample_world = \<lparr> ws_stores = [''app'' \<mapsto> sample_stored], ws_backend = Some empty_backend, ws_mirrored = [] \<rparr>"

lemma sample_dispatched: "stored_state sample_world ''app'' ''app-1'' = Some Dispatched"
  by code_simp

definition sample_run :: reconciler where
  "sample_run = (sample_reconciler (sample_tracker ''dev-agent'' 0))
     \<lparr> rc_trackers := [''app-1'' \<mapsto> (sample_tracker ''dev-agent'' 0)\<lparr> tk_repo := ''app'' \<rparr>] \<rparr>"

theorem flat_statuses_are_stored_as_reported_witness:
  "\<exists>c' s' st. verify_one (sample_env True []) [] (''app-1'', True) (no_counts, sample_run) = (c', s')
     \<and> stored_state (persisted sample_persist sample_world s') ''app'' ''app-1'' = Some st"
proof -
  obtain c' s' where v: "verify_one (sample_env True []) [] (''app-1'', True) (no_counts, sample_run) = (c', s')" by (metis prod.exhaust)
  have p: "rc_orchestrators sample_run ''app-1'' = None" "repo_of_bead [] ''app-1'' sample_run = ''app''"
    "\<not> ev_agent_closed (sample_env True []) ''app-1'' ''app''" "persisted sample_persist sample_world sample_run = sample_world"
    by (simp_all add: sample_run_def sample_reconciler_def sample_env_def repo_of_bead_def persist_all_def)
  show ?thesis
    using flat_statuses_are_stored_as_reported [of sample_run "''app-1''" "sample_env True []" "[]" True no_counts c' s' sample_persist sample_world]
      p v sample_dispatched by (simp only: simp_thms) blast
qed

definition finished_orchestrator :: feature_orchestrator where
  "finished_orchestrator = small_orchestrator\<lparr> fo_bead_ref := WorkRef ''app'' [] ''app-1'', fo_state := OTerminal \<rparr>"

definition sample_hierarchical :: hierarchical where
  "sample_hierarchical = put_orchestrator ''app-1'' finished_orchestrator \<lparr> hr_rec = sample_run, hr_orchestrators = (\<lambda>_. None), hr_active = [] \<rparr>"

theorem orchestrated_beads_stay_dispatched_witness:
  "\<exists>h'. orchestrated_step ''app-1'' sample_hierarchical h' \<and> hr_orchestrators h' ''app-1'' = None
     \<and> written h' = written sample_hierarchical @ [(''app-1'', ''app'', PrOpen)]
     \<and> stored_state (persisted sample_persist sample_world (hr_rec h')) ''app'' ''app-1'' = Some Dispatched"
proof -
  let ?env = "\<lparr> he_env = sample_env True [], he_beads = [], he_repos = (\<lambda>_. None), he_max_concurrent = 1, he_spawn = (\<lambda>_ _. True),
     he_poll = (\<lambda>_. PollError), he_behavior = default_behavior, he_now = 0, he_started_at = (\<lambda>_. 0) \<rparr>"
  let ?h = "snd (tick_one ?env ''app-1'' (no_ticks, sample_hierarchical))"
  have o: "orchestrated ''app-1'' ''app'' sample_hierarchical"
    unfolding sample_hierarchical_def by (rule put_orchestrated) (simp add: finished_orchestrator_def)
  have fo: "hr_orchestrators sample_hierarchical ''app-1'' = Some finished_orchestrator"
    by (simp add: sample_hierarchical_def put_orchestrator_def)
  have st: "orchestrated_step ''app-1'' sample_hierarchical ?h" by (rule orchestrated_step.ticked) (simp add: fo)
  have t: "fo_state finished_orchestrator = OTerminal" by (simp add: finished_orchestrator_def)
  have w: "written ?h = written sample_hierarchical @ [(''app-1'', ''app'', PrOpen)]" "hr_orchestrators ?h ''app-1'' = None"
    by (simp_all add: tick_one_def fo tick_simps t put_orchestrator_def drop_orchestrator_def finished_orchestrator_def Let_def)
  have p: "stored_state (persisted sample_persist sample_world (hr_rec sample_hierarchical)) ''app'' ''app-1'' = Some Dispatched"
    using sample_dispatched by (simp add: sample_hierarchical_def put_orchestrator_def sample_run_def sample_reconciler_def persist_all_def)
  have "written ?h \<noteq> written sample_hierarchical @ [(''app-1'', ''app'', DeadLetter)]" unfolding w(1) by simp
  then show ?thesis
    using orchestrated_beads_stay_dispatched [OF o p r_into_rtranclp [of "orchestrated_step ''app-1''", OF st]] st w by auto
qed

end
