(* ===== verification/Cross_Refs.thy ===== *)
theory Cross_Refs
  imports Persistence_Behaviour
begin

text \<open>
  Beads that refer to another repository (\<open>src/xref.rs\<close>): a bead whose external reference is
  \<open>repository:label\<close> gets a mirror in that repository, and the status of the mirror is set to that of the bead
  whenever a scan sees them differ.
\<close>

section \<open>References and mirrors\<close>

record external_ref =
  xr_source_bead_id :: string
  xr_source_repo :: string
  xr_target_repo :: string
  xr_label :: string
  xr_source_status :: string
  xr_source_title :: string

definition external_ref_of :: "bead \<Rightarrow> external_ref option" where
  "external_ref_of b =
     (if starts_with (b_id b) ''xref-'' then None
      else case Option.bind (b_external_ref b) (split_once (CHR '':'')) of
             None \<Rightarrow> None
           | Some (target_repo, label) \<Rightarrow>
               Some \<lparr> xr_source_bead_id = b_id b, xr_source_repo = b_repo b, xr_target_repo = target_repo,
                 xr_label = label, xr_source_status = b_status b, xr_source_title = b_title b \<rparr>)"

definition find_external_refs :: "bead list \<Rightarrow> external_ref list" where
  "find_external_refs = List.map_filter external_ref_of"

definition back_ref :: "external_ref \<Rightarrow> string" where
  "back_ref r = xr_source_repo r @ '':'' @ xr_source_bead_id r"

definition mirror_id :: "external_ref \<Rightarrow> string" where
  "mirror_id r = ''xref-'' @ xr_source_repo r @ ''-'' @ xr_source_bead_id r"

definition mirror_of :: "bead list \<Rightarrow> external_ref \<Rightarrow> bead option" where
  "mirror_of all_beads r =
     List.find (\<lambda>b. b_repo b = xr_target_repo r \<and> b_external_ref b = Some (back_ref r)) all_beads"

definition mirror_bead :: "external_ref \<Rightarrow> new_bead" where
  "mirror_bead r = default_new_bead\<lparr> nb_id := mirror_id r,
     nb_title := ''[cross-repo] '' @ xr_source_title r @ '' (from '' @ xr_source_repo r @ '')'',
     nb_description := ''Mirror of '' @ xr_source_bead_id r @ '' in '' @ xr_source_repo r @ '' repo.'' @ [CHR 0x0A]
       @ ''External ref: '' @ back_ref r @ [CHR 0x0A] @ ''Label: '' @ xr_label r,
     nb_priority := 2, nb_issue_type := ''task'' \<rparr>"

definition create_mirror :: "string \<Rightarrow> external_ref \<Rightarrow> bead_db \<Rightarrow> bead_db" where
  "create_mirror now r db =
     (case create_bead_full now (mirror_bead r) db of
        Inl _ \<Rightarrow> db
      | Inr db1 \<Rightarrow>
          (let db2 = log_event now (mirror_id r) ''xref_created'' (back_ref r) db1
           in db_or db2 (set_external_ref now (mirror_id r) (back_ref r) db2)))"

text \<open>Only repositories whose store has been opened already are looked at.\<close>

definition sync_external_ref :: "string \<Rightarrow> (string \<Rightarrow> bool) \<Rightarrow> bead list \<Rightarrow> world \<Rightarrow> external_ref \<Rightarrow> world" where
  "sync_external_ref now opened all_beads w r =
     (if \<not> opened (xr_target_repo r) then w
      else case mirror_of all_beads r of
             Some mirror \<Rightarrow>
               (if b_status mirror \<noteq> xr_source_status r
                then on_store (xr_target_repo r) (\<lambda>db. db_or db (update_status now (b_id mirror) (xr_source_status r) db)) w
                else w)
           | None \<Rightarrow> on_store (xr_target_repo r) (create_mirror now r) w)"

definition sync_external_refs :: "string \<Rightarrow> (string \<Rightarrow> bool) \<Rightarrow> bead list \<Rightarrow> external_ref list \<Rightarrow> world \<Rightarrow> world" where
  "sync_external_refs now opened all_beads refs w = foldl (sync_external_ref now opened all_beads) w refs"

section \<open>What the mirrors follow\<close>

lemma update_state:
  assumes "status_at db i = Some current"
  shows "status_at (db_or db (update_status now i s db)) j =
    (if j = i \<and> can_transition_to current (state_of_str s) then Some (state_of_str s) else status_at db j)"
proof -
  obtain r where r: "row_of db i = Some r" "state_of_str (ir_status r) = current"
    using assms by (auto simp: status_at_def)
  have u: "update_status now i s db =
      (if can_transition_to current (state_of_str s)
       then Inr (set_row i (\<lambda>r. r\<lparr> ir_status := canonical_status s, ir_updated_at := now \<rparr>) db)
       else Inl (InvalidTransition current (state_of_str s) i))"
    using r by (simp add: update_status_def with_bead_def resolve_self canonical_status_def)
  show ?thesis using r by (auto simp: u db_or_def status_at_def row_of_set_row keeps_id_def)
qed

lemma created_mirror:
  assumes "status_at db (mirror_id r) = None"
  shows "status_at (create_mirror now r db) j = (if j = mirror_id r then Some Open else status_at db j)"
proof -
  have "row_of db (mirror_id r) = None" using assms by (simp add: status_at_def)
  then obtain db1 where c: "create_bead_full now (mirror_bead r) db = Inr db1"
    "status_at db1 = (\<lambda>j. if j = mirror_id r then Some Open else status_at db j)"
    by (auto simp: create_shape mirror_bead_def status_at_def row_of_append fun_eq_iff split: option.splits)
  have "status_at (db_or x (set_external_ref now i e x)) = status_at x" for i e x by (rule status_setters)
  then show ?thesis using c by (simp add: create_mirror_def Let_def)
qed

lemma scanned_sources:
  assumes "r \<in> set (find_external_refs (scan_repos stored))"
  shows "state_of_str (xr_source_status r) \<noteq> Done"
proof -
  obtain b where b: "b \<in> set (scan_repos stored)" "external_ref_of b = Some r"
    using assms by (auto simp: find_external_refs_def mem_filter_map_of)
  have "b_status b \<noteq> ''closed''" "b_status b \<noteq> ''done''" using b(1) by (auto simp: scan_repos_def list_beads_def)
  moreover have "xr_source_status r = b_status b"
    using b(2) by (auto simp: external_ref_of_def split: if_splits option.splits)
  ultimately show ?thesis by (simp add: state_of_str_def)
qed

text \<open>Whatever bead an identifier resolves to, an update gives it the status that is asked for, or none.\<close>

lemma update_gives:
  "status_at (db_or db (update_status now i s db)) j = status_at db j
   \<or> status_at (db_or db (update_status now i s db)) j = Some (state_of_str s)"
proof (cases "update_status now i s db")
  case (Inr d)
  then obtain k r where r: "row_of db k = Some r"
      "d = set_row k (\<lambda>r. r\<lparr> ir_status := canonical_status s, ir_updated_at := now \<rparr>) db"
    by (auto simp: update_status_def with_bead_def Let_def canonical_status_def split: sum.splits option.splits if_splits)
  then show ?thesis by (simp add: Inr db_or_def status_at_def row_of_set_row keeps_id_def)
qed (simp add: db_or_def)

lemma create_gives: "status_at (create_mirror now r db) j = status_at db j \<or> status_at (create_mirror now r db) j = Some Open"
proof -
  have "status_at (db_or x (set_external_ref now i e x)) = status_at x" for i e x by (rule status_setters)
  then show ?thesis using status_create [of db now "mirror_bead r" j]
    by (auto simp: create_mirror_def Let_def db_or_def split: sum.splits)
qed

lemma on_store_gives:
  assumes "\<And>db. status_at (f db) i = status_at db i \<or> status_at (f db) i = Some s"
  shows "stored_state (on_store repo f w) repo' i = stored_state w repo' i \<or> stored_state (on_store repo f w) repo' i = Some s"
  using assms by (auto simp: stored_state_def on_store_def split: option.splits)

lemma sync_gives:
  "stored_state (sync_external_ref now opened bs w r) repo i = stored_state w repo i
   \<or> stored_state (sync_external_ref now opened bs w r) repo i \<in> {Some Open, Some (state_of_str (xr_source_status r))}"
  using on_store_gives [of "create_mirror now r" i Open "xr_target_repo r" w repo]
    on_store_gives [of "\<lambda>db. db_or db (update_status now m (xr_source_status r) db)" i "state_of_str (xr_source_status r)"
      "xr_target_repo r" w repo for m]
    update_gives create_gives
  by (auto simp: sync_external_ref_def split: option.splits)

lemma sync_never_completes:
  assumes "\<forall>r \<in> set refs. state_of_str (xr_source_status r) \<noteq> Done"
    and "stored_state (sync_external_refs now opened bs refs w) repo i = Some Done"
  shows "stored_state w repo i = Some Done"
  using assms
proof (induction refs arbitrary: w)
  case (Cons r rs)
  have "stored_state (sync_external_ref now opened bs w r) repo i = Some Done"
    using Cons by (simp add: sync_external_refs_def)
  then show ?case using sync_gives [of now opened bs w r repo i] Cons.prems(1) by auto
qed (simp add: sync_external_refs_def)

text \<open>
  C21. A bead of another repository is mirrored there as an open bead. Afterwards the status of the mirror
  follows only where the lifecycle has the transition, although the source is meant to win, and a mirror is
  never completed: a bead that is done is not in the scan that the references are taken from.
\<close>

theorem mirrors_are_never_completed:
  assumes "r \<in> set (find_external_refs (scan_repos stored))" "opened (xr_target_repo r)"
  shows "(stored_state (sync_external_refs now opened bs (find_external_refs (scan_repos stored)) w) repo i = Some Done \<longrightarrow>
       stored_state w repo i = Some Done)
    \<and> (mirror_of bs r = None \<and> ws_stores w (xr_target_repo r) \<noteq> None \<and> stored_state w (xr_target_repo r) (mirror_id r) = None \<longrightarrow>
       stored_state (sync_external_ref now opened bs w r) (xr_target_repo r) (mirror_id r) = Some Open)
    \<and> (\<forall>m current. mirror_of bs r = Some m \<and> b_status m \<noteq> xr_source_status r
        \<and> stored_state w (xr_target_repo r) (b_id m) = Some current \<longrightarrow>
       stored_state (sync_external_ref now opened bs w r) (xr_target_repo r) (b_id m) =
         Some (if can_transition_to current (state_of_str (xr_source_status r)) then state_of_str (xr_source_status r) else current))"
proof -
  have "\<forall>r \<in> set (find_external_refs (scan_repos stored)). state_of_str (xr_source_status r) \<noteq> Done"
    using scanned_sources by blast
  note never = sync_never_completes [OF this, of now opened bs w repo i]
  have made: "stored_state (sync_external_ref now opened bs w r) (xr_target_repo r) (mirror_id r) = Some Open"
    if n: "mirror_of bs r = None" "ws_stores w (xr_target_repo r) \<noteq> None" "stored_state w (xr_target_repo r) (mirror_id r) = None"
  proof -
    obtain db where db: "ws_stores w (xr_target_repo r) = Some db" using n(2) by auto
    then have "status_at db (mirror_id r) = None" using n(3) by (simp add: stored_state_def)
    then show ?thesis using n(1) assms(2) db by (simp add: sync_external_ref_def stored_state_def on_store_def created_mirror)
  qed
  have follows: "stored_state (sync_external_ref now opened bs w r) (xr_target_repo r) (b_id m) =
      Some (if can_transition_to current (state_of_str (xr_source_status r)) then state_of_str (xr_source_status r) else current)"
    if m: "mirror_of bs r = Some m" "b_status m \<noteq> xr_source_status r" "stored_state w (xr_target_repo r) (b_id m) = Some current" for m current
  proof -
    obtain db where db: "ws_stores w (xr_target_repo r) = Some db" "status_at db (b_id m) = Some current"
      using m(3) by (auto simp: stored_state_def split: bind_split_asm)
    then show ?thesis using m(1,2) assms(2) by (simp add: sync_external_ref_def stored_state_def on_store_def update_state [OF db(2)])
  qed
  show ?thesis using never made follows by blast
qed

theorem mirrors_are_never_completed_witness:
  "\<exists>r. r \<in> set (find_external_refs (scan_repos [[sample_bead\<lparr> b_external_ref := Some ''app:login'' \<rparr>]]))
     \<and> stored_state (sync_external_ref ''t'' (\<lambda>_. True) [] sample_world r) ''app'' (mirror_id r) = Some Open"
proof -
  let ?b = "sample_bead\<lparr> b_external_ref := Some ''app:login'' \<rparr>"
  have "scan_repos [[?b]] = [?b]" by (simp add: scan_repos_def list_beads_def sample_bead_def)
  moreover obtain r where r: "external_ref_of ?b = Some r" "xr_target_repo r = ''app''" "xr_source_repo r = b_repo sample_bead"
      "xr_source_bead_id r = b_id sample_bead"
    by (simp add: external_ref_of_def sample_bead_def starts_with_def)
  ultimately have m: "r \<in> set (find_external_refs (scan_repos [[?b]]))"
    by (simp add: find_external_refs_def List.map_filter_def)
  have "ws_stores sample_world ''app'' \<noteq> None" by (simp add: sample_world_def)
  moreover have "stored_state sample_world ''app'' (''xref-'' @ b_repo sample_bead @ ''-'' @ b_id sample_bead) = None" by code_simp
  ultimately show ?thesis
    using mirrors_are_never_completed [OF m, of "\<lambda>_. True" "''t''" "[]" sample_world] r m
    by (intro exI [of _ r]) (simp add: mirror_of_def mirror_id_def)
qed

end
