(* ===== verification/Recovery_Behaviour.thy ===== *)
theory Recovery_Behaviour
  imports Persistence_Behaviour
begin

text \<open>
  What the writes outside of an iteration leave in the stores: the recovery of beads after a crash, the
  liveness sweep, the commits that name beads, and the pull requests that were merged.
\<close>

section \<open>Recovery\<close>

text \<open>The stores of the scanned repositories: identifiers are unique, and every row can be read.\<close>

definition readable_stores :: "persist_env \<Rightarrow> string list \<Rightarrow> world \<Rightarrow> bool" where
  "readable_stores env repos w \<longleftrightarrow>
     (\<forall>repo \<in> set repos. \<forall>db. ws_stores w repo = Some db \<longrightarrow>
        distinct (map ir_id (db_issues db)) \<and> (\<forall>r \<in> set (db_issues db). read_bead (px_parse env) db repo r \<noteq> None))"

lemma read_bead_parts:
  "read_bead parse db repo r = Some b \<Longrightarrow> b_id b = ir_id r \<and> b_repo b = repo \<and> b_status b = ir_status r"
  by (auto simp: read_bead_def bead_from_row_def Let_def split: option.splits)

lemma listed_beads:
  "set (db_list_beads parse db repo) = {b. \<exists>r \<in> set (db_issues db). is_listed r \<and> read_bead parse db repo r = Some b}"
  by (force simp: db_list_beads_def bead_read_order_def descending_def List.map_filter_def)

lemma scanned_beads:
  "set (scan_stores parse repos w) =
    {b. \<exists>repo \<in> set repos. \<exists>db. ws_stores w repo = Some db \<and> b \<in> set (db_list_beads parse db repo)}"
proof -
  have ne: "b_status b \<noteq> ''closed'' \<and> b_status b \<noteq> ''done''" if b: "b \<in> set (db_list_beads parse db repo)" for b db repo
  proof -
    obtain r where r: "is_listed r" "read_bead parse db repo r = Some b" using b unfolding listed_beads by blast
    show ?thesis using r(1) read_bead_parts [OF r(2)] by (simp add: is_listed_def)
  qed
  show ?thesis by (auto simp: scan_stores_def scan_repos_def list_beads_def split: option.splits dest: ne) (metis)+
qed

lemma scanned_state:
  assumes "readable_stores env repos w" "b \<in> set (scan_stores (px_parse env) repos w)"
  shows "b_repo b \<in> set repos" "stored_state w (b_repo b) (b_id b) = Some (bead_state_of b)"
proof -
  obtain repo db r where r: "repo \<in> set repos" "ws_stores w repo = Some db" "r \<in> set (db_issues db)"
    "read_bead (px_parse env) db repo r = Some b"
    using assms(2) by (auto simp: scanned_beads listed_beads)
  have p: "b_id b = ir_id r" "b_repo b = repo" "b_status b = ir_status r" using read_bead_parts [OF r(4)] by auto
  have "distinct (map ir_id (db_issues db))" using assms(1) r(1,2) by (auto simp: readable_stores_def)
  then have "row_of db (ir_id r) = Some r" using r(3) by (simp add: row_of_def find_unique)
  then show "stored_state w (b_repo b) (b_id b) = Some (bead_state_of b)"
    using r(2) by (simp add: p stored_state_def status_at_def bead_state_of_def)
  show "b_repo b \<in> set repos" using r(1) p by simp
qed

lemma dispatched_is_scanned:
  assumes "readable_stores env repos w" "repo \<in> set repos" "stored_state w repo i = Some Dispatched"
  shows "\<exists>b \<in> set (scan_stores (px_parse env) repos w). b_id b = i \<and> b_repo b = repo \<and> bead_state_of b = Dispatched"
proof -
  obtain db r where r: "ws_stores w repo = Some db" "row_of db i = Some r" "state_of_str (ir_status r) = Dispatched"
    using assms(3) by (auto simp: stored_state_def status_at_def split: bind_split_asm)
  have m: "r \<in> set (db_issues db)" "ir_id r = i" using row_of_Some [OF r(2)] by auto
  then obtain b where b: "read_bead (px_parse env) db repo r = Some b"
    using assms(1,2) r(1) unfolding readable_stores_def by blast
  have l: "is_listed r" using r(3) by (auto simp: is_listed_def state_of_str_def)
  have "b \<in> set (scan_stores (px_parse env) repos w)" using assms(2) r(1) m(1) b l by (auto simp: scanned_beads listed_beads)
  then show ?thesis using read_bead_parts [OF b] m(2) r(3) by (auto simp: bead_state_of_def)
qed

text \<open>One status for several beads of which each is addressed by its whole identifier.\<close>

lemma persist_many:
  assumes "\<forall>(repo, i) \<in> set ts. stored_state w repo i \<noteq> None" "\<not> can_transition_to st st"
  shows "stored_state (foldl (\<lambda>w (repo, i). persist_status env i repo st w) w ts) repo j =
    (if (repo, j) \<in> set ts then map_option (\<lambda>cur. if can_transition_to cur st then st else cur) (stored_state w repo j)
     else stored_state w repo j)"
  using assms(1)
proof (induction ts arbitrary: w)
  case (Cons t ts)
  obtain r1 i1 where t: "t = (r1, i1)" by force
  obtain cur where cur: "stored_state w r1 i1 = Some cur" using Cons.prems t by auto
  note p = persist_status_state [OF cur, of env st]
  have "\<forall>(repo, i) \<in> set ts. stored_state (persist_status env i1 r1 st w) repo i \<noteq> None" using Cons.prems by (auto simp: p)
  from Cons.IH [OF this] show ?case using assms(2) cur by (auto simp: t p split: if_splits)
qed simp

lemma recover_world:
  "snd (foldl (recover_bead env pipelines) (s, w) bs) =
    foldl (\<lambda>w (repo, i). persist_status env i repo Open w) w
      (map (\<lambda>b. (b_repo b, b_id b)) (filter (\<lambda>b. bead_state_of b = Dispatched) bs))"
  by (induction bs arbitrary: s w) (auto simp: recover_bead_def Let_def split: option.splits)

lemma abandoned_rows:
  "bk_dispatches (foldl (\<lambda>db d. complete_dispatch ck (dp_id d) ''abandoned'' db) db ds)
    = map (\<lambda>r. if dr_id r \<in> dp_id ` set ds
        then r\<lparr> dr_completed := Some (bc_fmt ck (bc_now ck)), dr_outcome := Some ''abandoned'' \<rparr> else r) (bk_dispatches db)"
  by (induction ds arbitrary: db) (auto simp: complete_dispatch_def update_at_def)

lemma dispatch_id_read: "row_to_dispatch ck r = Some d \<Longrightarrow> dp_id d = dr_id r"
  by (auto simp: row_to_dispatch_def split: option.splits)

lemma read_rows_ids:
  assumes "read_rows (row_to_dispatch ck) rs = Inr ds"
  shows "dp_id ` set ds = dr_id ` set rs"
proof -
  have "read_all (row_to_dispatch ck) rs = Some ds" using assms by (simp add: read_rows_def split: option.splits)
  then show ?thesis
  proof (induction rs arbitrary: ds)
    case (Cons r rs)
    obtain d ds' where "row_to_dispatch ck r = Some d" "read_all (row_to_dispatch ck) rs = Some ds'" "ds = d # ds'"
      using Cons.prems by (auto split: option.splits)
    then show ?case using Cons.IH dispatch_id_read by simp
  qed simp
qed

lemma abandoned_all:
  assumes "active_dispatches ck db = Inr ds"
  shows "active_dispatches ck (abandon_dispatches ck db) = Inr []"
proof -
  have ids: "dp_id ` set ds = dr_id ` set (filter (\<lambda>r. dr_completed r = None) (bk_dispatches db))"
    using assms read_rows_ids by (simp add: active_dispatches_def)
  have "filter (\<lambda>r. dr_completed r = None) (bk_dispatches (abandon_dispatches ck db)) = []"
    using ids by (auto simp: abandon_dispatches_def assms abandoned_rows filter_empty_conv image_iff)
  then show ?thesis by (simp add: active_dispatches_def read_rows_def)
qed

lemma active_after_abandon: "active_dispatches ck (abandon_dispatches ck db) = Inr ds \<Longrightarrow> ds = []"
  using abandoned_all by (cases "active_dispatches ck db") (auto simp: abandon_dispatches_def)

lemma recover_trackers:
  assumes "\<exists>b \<in> set bs. b_id b = i \<and> bead_state_of b = Dispatched" "map_of (rev pipelines) i = Some p"
  shows "\<exists>b. rc_trackers (fst (foldl (recover_bead env pipelines) (s, w) bs)) i = Some (recovered_tracker b p)"
  using assms(1)
proof (induction bs rule: rev_induct)
  case (snoc x xs)
  obtain s1 w1 where sw: "foldl (recover_bead env pipelines) (s, w) xs = (s1, w1)" by force
  show ?case
  proof (cases "b_id x = i \<and> bead_state_of x = Dispatched")
    case True
    have "recover_bead env pipelines (s1, w1) x =
        (s1\<lparr> rc_trackers := (rc_trackers s1)(b_id x \<mapsto> recovered_tracker x p) \<rparr>, persist_status env (b_id x) (b_repo x) Open w1)"
      using True assms(2) by (simp add: recover_bead_def)
    then show ?thesis using True by (intro exI [of _ x]) (simp add: sw)
  next
    case False
    then obtain b where b: "rc_trackers s1 i = Some (recovered_tracker b p)" using snoc by (auto simp: sw)
    have "rc_trackers (fst (recover_bead env pipelines (s1, w1) x)) i = rc_trackers s1 i"
      using False by (cases "map_of (rev pipelines) (b_id x)") (auto simp: recover_bead_def)
    then show ?thesis using b by (intro exI [of _ b]) (simp add: sw)
  qed
qed simp

lemma reopened:
  assumes "readable_stores env repos w"
  shows "stored_state (snd (foldl (recover_bead env pipelines) (s, w) (scan_stores (px_parse env) repos w))) repo i =
    (if repo \<in> set repos \<and> stored_state w repo i = Some Dispatched then Some Open else stored_state w repo i)"
proof -
  let ?bs = "scan_stores (px_parse env) repos w"
  let ?ts = "map (\<lambda>b. (b_repo b, b_id b)) (filter (\<lambda>b. bead_state_of b = Dispatched) ?bs)"
  have m: "(repo, i) \<in> set ?ts \<longleftrightarrow> repo \<in> set repos \<and> stored_state w repo i = Some Dispatched" for repo i
    using scanned_state [OF assms] dispatched_is_scanned [OF assms] by (fastforce simp: image_iff)
  have "\<forall>(repo, i) \<in> set ?ts. stored_state w repo i \<noteq> None" using m by auto
  from persist_many [OF this, of Open env repo i] show ?thesis
    unfolding recover_world m by (auto simp: can_transition_to_def)
qed

lemma recovered_parts:
  assumes "recover_stuck_beads env repos (s, w) = (s', w')"
  obtains pipelines s1 w1 where
    "pipelines = map (\<lambda>p. (wr_bead_id (ps_bead_ref p), p)) (case ws_backend w of
              None \<Rightarrow> []
            | Some bk \<Rightarrow> (case list_active_pipelines (px_clock env) bk of Inl _ \<Rightarrow> [] | Inr ps \<Rightarrow> ps))"
    "foldl (recover_bead env pipelines) (s, w) (scan_stores (px_parse env) repos w) = (s1, w1)"
    "s' = s1" "w' = on_backend (abandon_dispatches (px_clock env)) w1"
  using assms by (simp add: recover_stuck_beads_def Let_def split: prod.splits)

lemma persist_backend [simp]: "ws_backend (persist_status env i repo st w) = ws_backend w"
  by (simp add: persist_status_def Let_def split: option.splits)

lemma recover_backend: "ws_backend (snd (foldl (recover_bead env pipelines) (s, w) bs)) = ws_backend w"
  by (induction bs arbitrary: s w) (auto simp: recover_bead_def Let_def)

lemma unique_map_of:
  assumes "p \<in> set ps" "\<And>q. q \<in> set ps \<Longrightarrow> f q = f p \<Longrightarrow> q = p"
  shows "map_of (rev (map (\<lambda>p. (f p, p)) ps)) (f p) = Some p"
proof -
  let ?l = "rev (map (\<lambda>p. (f p, p)) ps)"
  have "f p \<in> fst ` set ?l" using assms(1) by force
  then obtain q where q: "map_of ?l (f p) = Some q" by (metis domD dom_map_of_conv_image_fst)
  have "(f p, q) \<in> set ?l" using map_of_SomeD [OF q] .
  then have "q = p" using assms(2) by auto
  then show ?thesis using q by simp
qed

lemma resumed:
  assumes ok: "readable_stores env repos w"
    and pipelines: "pipelines = map (\<lambda>p. (wr_bead_id (ps_bead_ref p), p)) (case ws_backend w of
              None \<Rightarrow> []
            | Some bk \<Rightarrow> (case list_active_pipelines (px_clock env) bk of Inl _ \<Rightarrow> [] | Inr ps \<Rightarrow> ps))"
    and run: "foldl (recover_bead env pipelines) (s, w) (scan_stores (px_parse env) repos w) = (s1, w1)" "s' = s1"
    and p: "ws_backend w = Some bk" "list_active_pipelines (px_clock env) bk = Inr ps" "p \<in> set ps" "wr_bead_id (ps_bead_ref p) = i"
      "\<forall>q \<in> set ps. wr_bead_id (ps_bead_ref q) = i \<longrightarrow> q = p" "repo \<in> set repos" "stored_state w repo i = Some Dispatched"
  shows "\<exists>b. rc_trackers s' i = Some (recovered_tracker b p)"
proof -
  have m: "map_of (rev pipelines) i = Some p"
    unfolding pipelines p(1,2) option.case sum.case p(4) [symmetric]
    by (rule unique_map_of [OF p(3)]) (use p(4,5) in blast)
  have "\<exists>b \<in> set (scan_stores (px_parse env) repos w). b_id b = i \<and> bead_state_of b = Dispatched"
    using dispatched_is_scanned [OF ok p(6,7)] by blast
  from recover_trackers [OF this m, of env s w] show ?thesis by (simp add: run)
qed

text \<open>
  C16. Recovery reopens exactly the beads that are stored as dispatched, in the repositories that are scanned: a bead
  that was being verified stays verifying. A reopened bead whose identifier has one stored
  pipeline resumes at the phase, with the agent and the retries of that pipeline, and no dispatch is left
  running in the backend.
\<close>

theorem recovery_reopens_exactly_the_dispatched:
  assumes "readable_stores env repos w" "recover_stuck_beads env repos (s, w) = (s', w')"
  shows "stored_state w' repo i =
      (if repo \<in> set repos \<and> stored_state w repo i = Some Dispatched then Some Open else stored_state w repo i)
    \<and> (\<forall>bk ds. ws_backend w' = Some bk \<and> active_dispatches (px_clock env) bk = Inr ds \<longrightarrow> ds = [])
    \<and> (\<forall>bk ps p. ws_backend w = Some bk \<and> list_active_pipelines (px_clock env) bk = Inr ps \<and> p \<in> set ps
        \<and> wr_bead_id (ps_bead_ref p) = i \<and> (\<forall>q \<in> set ps. wr_bead_id (ps_bead_ref q) = i \<longrightarrow> q = p)
        \<and> repo \<in> set repos \<and> stored_state w repo i = Some Dispatched \<longrightarrow>
          (\<exists>t. rc_trackers s' i = Some t \<and> tk_phase_index t = ps_pipeline_phase p \<and> tk_retries t = ps_retries p
            \<and> tk_current_agent t = Some (ps_pipeline_agent p) \<and> tk_dispatch_id t = None))"
proof -
  obtain pipelines s1 w1 where r:
    "pipelines = map (\<lambda>p. (wr_bead_id (ps_bead_ref p), p)) (case ws_backend w of
              None \<Rightarrow> []
            | Some bk \<Rightarrow> (case list_active_pipelines (px_clock env) bk of Inl _ \<Rightarrow> [] | Inr ps \<Rightarrow> ps))"
    "foldl (recover_bead env pipelines) (s, w) (scan_stores (px_parse env) repos w) = (s1, w1)"
    "s' = s1" "w' = on_backend (abandon_dispatches (px_clock env)) w1"
    by (rule recovered_parts [OF assms(2)])
  have state: "stored_state w' repo i =
      (if repo \<in> set repos \<and> stored_state w repo i = Some Dispatched then Some Open else stored_state w repo i)"
    using reopened [OF assms(1), of pipelines s repo i] by (simp add: r(2,4))
  have "ws_backend w1 = ws_backend w" using recover_backend [of env pipelines s w "scan_stores (px_parse env) repos w"] by (simp add: r(2))
  then have wb: "ws_backend w' = map_option (abandon_dispatches (px_clock env)) (ws_backend w)" by (simp add: r(4) on_backend_def)
  have none: "ds = []" if h: "ws_backend w' = Some bk'" "active_dispatches (px_clock env) bk' = Inr ds" for bk' ds
  proof -
    obtain bk where "bk' = abandon_dispatches (px_clock env) bk" using h(1) wb by (cases "ws_backend w") auto
    then show ?thesis using active_after_abandon h(2) by metis
  qed
  show ?thesis
  proof (intro conjI allI impI, goal_cases)
    case 1
    show ?case by (rule state)
  next
    case (2 bk ds)
    then show ?case using none by blast
  next
    case (3 bk ps p)
    then obtain b where "rc_trackers s' i = Some (recovered_tracker b p)" using resumed [OF assms(1) r(1-3)] by blast
    then show ?case by (simp add: recovered_tracker_def)
  qed
qed

lemma sample_readable: "readable_stores sample_persist [''app''] sample_world"
proof -
  have "distinct (map ir_id (db_issues sample_stored))
     \<and> list_all (\<lambda>r. read_bead (\<lambda>_. Some 7) sample_stored ''app'' r \<noteq> None)
         (db_issues sample_stored)"
    by code_simp
  then show ?thesis by (simp add: readable_stores_def sample_world_def sample_persist_def list_all_iff)
qed

theorem recovery_reopens_exactly_the_dispatched_witness:
  "\<exists>s' w'. recover_stuck_beads sample_persist [''app''] (sample_run, sample_world) = (s', w')
     \<and> stored_state w' ''app'' ''app-1'' = Some Open"
proof -
  obtain s' w' where r: "recover_stuck_beads sample_persist [''app''] (sample_run, sample_world) = (s', w')" by (metis prod.exhaust)
  from recovery_reopens_exactly_the_dispatched [THEN conjunct1, OF sample_readable r, of "''app''" "''app-1''"]
  show ?thesis using r sample_dispatched by simp
qed

section \<open>Dead workers\<close>

definition dead_worker :: "(nat \<Rightarrow> bool) \<Rightarrow> session_entry list \<Rightarrow> string \<Rightarrow> string \<Rightarrow> bool" where
  "dead_worker alive sessions repo i \<longleftrightarrow>
     (\<exists>s p. map_of (build_session_index sessions) (i, repo) = Some s \<and> se_pid s = Some p \<and> \<not> alive p)"

text \<open>The beads that a sweep of a repository names.\<close>

definition swept :: "persist_env \<Rightarrow> (nat \<Rightarrow> bool) \<Rightarrow> ((string \<times> string) \<times> session_entry) list \<Rightarrow> world \<Rightarrow> string \<Rightarrow> (string \<times> string) list" where
  "swept env alive index w repo =
     (case ws_stores w repo of
        None \<Rightarrow> []
      | Some db \<Rightarrow> map (\<lambda>b. (repo, b_id b)) (filter (\<lambda>b. dead_session alive index repo b \<noteq> None) (db_list_beads (px_parse env) db repo)))"

lemma log_all_status:
  "status_at (foldl (\<lambda>db (i, detail). log_event now i ty detail db) db ds) = status_at db"
  by (induction ds arbitrary: db) auto

lemma guarded_pairs:
  "map (\<lambda>(i, _). (repo, i)) (List.map_filter (\<lambda>b. map_option (\<lambda>s. (f b, g s)) (h b)) bs)
    = map (\<lambda>b. (repo, f b)) (filter (\<lambda>b. h b \<noteq> None) bs)"
  by (induction bs) (auto simp: List.map_filter_def)

lemma sweep_one:
  assumes "sweep_repo env rfc3339 alive index (cs, w) repo = (cs', w')"
  shows "cs' = cs @ swept env alive index w repo" "stored_state w' = stored_state w"
    "\<And>r. r \<noteq> repo \<Longrightarrow> ws_stores w' r = ws_stores w r"
proof -
  show "cs' = cs @ swept env alive index w repo"
    using assms by (auto simp: sweep_repo_def sweep_dead_workers_def Let_def swept_def guarded_pairs split: option.splits)
  show "stored_state w' = stored_state w"
    using assms by (auto simp: sweep_repo_def sweep_dead_workers_def Let_def stored_state_def fun_eq_iff log_all_status split: option.splits)
  show "\<And>r. r \<noteq> repo \<Longrightarrow> ws_stores w' r = ws_stores w r"
    using assms by (auto simp: sweep_repo_def sweep_dead_workers_def Let_def split: option.splits)
qed

lemma swept_cong: "ws_stores w' repo = ws_stores w repo \<Longrightarrow> swept env alive index w' repo = swept env alive index w repo"
  by (simp add: swept_def)

lemma sweep_repos:
  assumes "distinct repos" "foldl (sweep_repo env rfc3339 alive index) (cs, w) repos = (cs', w')"
  shows "cs' = cs @ concat (map (swept env alive index w) repos) \<and> stored_state w' = stored_state w"
  using assms
proof (induction repos arbitrary: cs w)
  case (Cons r rs)
  obtain cs1 w1 where one: "sweep_repo env rfc3339 alive index (cs, w) r = (cs1, w1)" by force
  have f: "foldl (sweep_repo env rfc3339 alive index) (cs1, w1) rs = (cs', w')" using Cons.prems(2) by (simp add: one)
  have ih: "cs' = cs1 @ concat (map (swept env alive index w1) rs) \<and> stored_state w' = stored_state w1"
    by (rule Cons.IH [OF _ f]) (use Cons.prems(1) in simp)
  have same: "map (swept env alive index w1) rs = map (swept env alive index w) rs"
    by (intro map_cong refl swept_cong sweep_one(3) [OF one]) (use Cons.prems(1) in auto)
  show ?case using ih sweep_one(1,2) [OF one] unfolding same by simp
qed simp

lemma bury_world:
  "snd (foldl (bury_candidate env) (ds, w) cs) = foldl (\<lambda>w (repo, i). persist_status env i repo DeadLetter w) w cs"
proof (induction cs arbitrary: ds w)
  case (Cons c cs)
  obtain ds' w1 where b: "bury_candidate env (ds, w) c = (ds', w1)" by force
  then have "w1 = (case c of (repo, i) \<Rightarrow> persist_status env i repo DeadLetter w)"
    by (auto simp: bury_candidate_def Let_def split: prod.splits if_splits)
  then show ?case using Cons.IH b by simp
qed simp

lemma dead_session_iff:
  "dead_session alive (build_session_index sessions) repo b \<noteq> None
    \<longleftrightarrow> bead_state_of b = Dispatched \<and> dead_worker alive sessions repo (b_id b)"
  by (auto simp: dead_session_def dead_worker_def split: option.splits)

lemma listed_state:
  assumes "distinct (map ir_id (db_issues db))" "b \<in> set (db_list_beads parse db repo)"
  shows "status_at db (b_id b) = Some (bead_state_of b)"
proof -
  obtain r where r: "r \<in> set (db_issues db)" "read_bead parse db repo r = Some b" using assms(2) unfolding listed_beads by blast
  have "row_of db (ir_id r) = Some r" using r(1) assms(1) by (simp add: row_of_def find_unique)
  then show ?thesis using read_bead_parts [OF r(2)] by (simp add: status_at_def bead_state_of_def)
qed

lemma dispatched_is_listed:
  assumes "\<And>r. r \<in> set (db_issues db) \<Longrightarrow> read_bead parse db repo r \<noteq> None" "status_at db i = Some Dispatched"
  shows "\<exists>b \<in> set (db_list_beads parse db repo). b_id b = i \<and> bead_state_of b = Dispatched"
proof -
  obtain r where r: "row_of db i = Some r" "state_of_str (ir_status r) = Dispatched"
    using assms(2) by (auto simp: status_at_def)
  have m: "r \<in> set (db_issues db)" "ir_id r = i" using row_of_Some [OF r(1)] by auto
  obtain b where b: "read_bead parse db repo r = Some b" using assms(1) [OF m(1)] by blast
  have "is_listed r" using r(2) by (auto simp: is_listed_def state_of_str_def)
  then have "b \<in> set (db_list_beads parse db repo)" using m(1) b unfolding listed_beads by blast
  then show ?thesis using read_bead_parts [OF b] m(2) r(2) by (auto simp: bead_state_of_def)
qed

lemma swept_iff:
  assumes "readable_stores env [repo] w"
  shows "(repo', i) \<in> set (swept env alive (build_session_index sessions) w repo)
    \<longleftrightarrow> repo' = repo \<and> stored_state w repo i = Some Dispatched \<and> dead_worker alive sessions repo i"
proof (cases "ws_stores w repo")
  case None
  then show ?thesis by (simp add: swept_def stored_state_def)
next
  case (Some db)
  have d: "distinct (map ir_id (db_issues db))" "\<And>r. r \<in> set (db_issues db) \<Longrightarrow> read_bead (px_parse env) db repo r \<noteq> None"
    using assms Some by (auto simp: readable_stores_def)
  have "(repo', i) \<in> set (swept env alive (build_session_index sessions) w repo)
    \<longleftrightarrow> repo' = repo \<and> (\<exists>b \<in> set (db_list_beads (px_parse env) db repo). b_id b = i \<and> bead_state_of b = Dispatched \<and> dead_worker alive sessions repo i)"
    unfolding swept_def dead_session_iff by (auto simp: Some)
  also have "\<dots> \<longleftrightarrow> repo' = repo \<and> status_at db i = Some Dispatched \<and> dead_worker alive sessions repo i"
    using listed_state [OF d(1)] dispatched_is_listed [OF d(2)] by (metis option.inject)
  finally show ?thesis by (simp add: stored_state_def Some)
qed

text \<open>
  C17. The liveness sweep buries exactly the beads that are stored as dispatched and whose latest session names
  a process that is not alive, in the repositories in which the scan saw a dispatched bead; no other bead
  changes. A dispatched bead without a session, or whose session has no process, is left to the sweep for
  orphans.
\<close>

theorem liveness_sweep_buries_dead_workers:
  assumes "readable_stores env (map b_repo beads) w"
    and "liveness_sweep env rfc3339 alive sessions beads w = (buried, w')"
  shows "stored_state w' repo i =
    (if stored_state w repo i = Some Dispatched \<and> dead_worker alive sessions repo i
        \<and> (\<exists>b \<in> set beads. b_repo b = repo \<and> bead_state_of b = Dispatched)
     then Some DeadLetter else stored_state w repo i)"
proof (cases "sessions = []")
  case True
  then show ?thesis using assms(2) by (simp add: liveness_sweep_def dead_worker_def build_session_index_def)
next
  case False
  let ?repos = "remdups (map b_repo (filter (\<lambda>b. bead_state_of b = Dispatched) beads))"
  let ?index = "build_session_index sessions"
  obtain cs w1 where f: "foldl (sweep_repo env rfc3339 alive ?index) ([], w) ?repos = (cs, w1)" by force
  have s: "cs = concat (map (swept env alive ?index w) ?repos)" "stored_state w1 = stored_state w"
    using sweep_repos [OF distinct_remdups f] by simp_all
  have "foldl (bury_candidate env) ([], w1) cs = (buried, w')" using assms(2) False f by (simp add: liveness_sweep_def Let_def)
  then have w': "w' = foldl (\<lambda>w (repo, i). persist_status env i repo DeadLetter w) w1 cs"
    using bury_world [of env "[]" w1 cs] by simp
  have r: "readable_stores env [repo] w" if "repo \<in> set ?repos" for repo
    using assms(1) that by (auto simp: readable_stores_def)
  have m: "(repo, i) \<in> set cs \<longleftrightarrow> repo \<in> set ?repos \<and> stored_state w repo i = Some Dispatched \<and> dead_worker alive sessions repo i" for repo i
  proof -
    have "(repo, i) \<in> set cs \<longleftrightarrow> (\<exists>x \<in> set ?repos. (repo, i) \<in> set (swept env alive ?index w x))" by (simp add: s(1))
    also have "\<dots> \<longleftrightarrow> (\<exists>x \<in> set ?repos. repo = x \<and> stored_state w x i = Some Dispatched \<and> dead_worker alive sessions x i)"
      by (rule bex_cong) (simp_all only: swept_iff [OF r])
    finally show ?thesis by blast
  qed
  have all: "\<forall>(repo, i) \<in> set cs. stored_state w1 repo i \<noteq> None"
  proof (rule ballI, rule case_prodI2)
    fix x repo i assume "x \<in> set cs" "x = (repo, i)"
    then show "stored_state w1 repo i \<noteq> None" using m [of repo i] s(2) by simp
  qed
  from persist_many [OF all, of DeadLetter env repo i] show ?thesis
    unfolding w' [symmetric] m s(2) by (auto simp: can_transition_to_def)
qed

definition sample_session :: session_entry where
  "sample_session = \<lparr> se_bead_id = ''app-1'', se_repo = ''app'', se_provider = ''claude'', se_pid = Some 42, se_session_ref = None,
     se_work_dir = ''/w'', se_started_at = 0, se_title = ''Fix login'', se_agent = ''dev-agent'', se_workspace_vcs = ''none'',
     se_repo_path = ''/r'', se_last_activity = None, se_last_comment = None \<rparr>"

theorem liveness_sweep_buries_dead_workers_witness:
  "\<exists>beads buried w'. liveness_sweep sample_persist (\<lambda>_. ''t'') (\<lambda>_. False) [sample_session] beads sample_world = (buried, w')
     \<and> stored_state w' ''app'' ''app-1'' = Some DeadLetter"
proof -
  let ?beads = "scan_stores (px_parse sample_persist) [''app''] sample_world"
  obtain buried w' where l: "liveness_sweep sample_persist (\<lambda>_. ''t'') (\<lambda>_. False) [sample_session] ?beads sample_world = (buried, w')"
    by (metis prod.exhaust)
  have b: "\<exists>b \<in> set ?beads. b_repo b = ''app'' \<and> bead_state_of b = Dispatched"
    using dispatched_is_scanned [OF sample_readable _ sample_dispatched] by auto
  have "\<And>b. b \<in> set ?beads \<Longrightarrow> b_repo b = ''app''" using scanned_state(1) [OF sample_readable] by simp
  then have "readable_stores sample_persist (map b_repo ?beads) sample_world"
    using sample_readable by (auto simp: readable_stores_def)
  from liveness_sweep_buries_dead_workers [OF this l, of "''app''" "''app-1''"]
  have "stored_state w' ''app'' ''app-1'' = Some DeadLetter"
    using b sample_dispatched by (simp add: dead_worker_def build_session_index_def sample_session_def)
  then show ?thesis using l by blast
qed

section \<open>Commits and pull requests\<close>

text \<open>A commit that closes a bead asks for done, another reference for dispatched; a refusal leaves the bead
  as it is, although the transition is counted.\<close>

lemma apply_transition_state:
  assumes "stored_state w repo i = Some current"
  shows "stored_state (apply_transition env w (i, repo, change, closes)) repo' j =
    (let st = if closes then Done else Dispatched
     in if repo' = repo \<and> j = i \<and> can_transition_to current st then Some st else stored_state w repo' j)"
proof -
  have l: "stored_state (on_store repo (log_event now i ty d) w) = stored_state w" for now ty d
    by (rule stored_on_store) simp
  have c: "stored_state (on_store repo (log_event (px_now env) i ''vcs_ref'' (''jj:'' @ change)) w) repo i = Some current"
    using assms by (simp add: l)
  have st: "state_of_str (if closes then ''closed'' else ''dispatched'') = (if closes then Done else Dispatched)"
    by (simp add: state_of_str_def)
  show ?thesis using persist_status_state [OF c] by (simp only: apply_transition_def Let_def prod.case st l)
qed

lemma open_beads_are_not_closed_by_commits:
  assumes "stored_state w repo i = Some Open"
  shows "stored_state (apply_transition env w (i, repo, change, True)) = stored_state w"
  using apply_transition_state [OF assms, of env change True] by (simp add: fun_eq_iff can_transition_to_def)

lemma note_merge_status: "status_at (note_merge now i url sha db) = status_at db"
  by (simp add: note_merge_def Let_def status_setters(8))

lemma note_feedback_status: "status_at (note_feedback now i detail db) = status_at db"
  by (simp add: note_feedback_def)

text \<open>A pull request that is reported as merged completes its bead, whatever its review said; one that is not
  merged leaves every status.\<close>

lemma polled_pull_request:
  assumes "stored_state w (b_repo b) (b_id b) = Some PrOpen" "poll_pr env gh (n, w) b = (n', w')"
  shows "stored_state w' repo i = (if n' = n + 1 \<and> repo = b_repo b \<and> i = b_id b then Some Done else stored_state w repo i)
    \<and> (n' = n + 1 \<longleftrightarrow> (\<exists>db url line. ws_stores w (b_repo b) = Some db \<and> get_latest_event db (b_id b) ''pr_url'' = Some url
        \<and> gh url = Some line \<and> fst (parse_pr_status_line line) = ''MERGED''))
    \<and> (n' = n \<or> n' = n + 1)"
proof (cases "Option.bind (ws_stores w (b_repo b)) (\<lambda>db. get_latest_event db (b_id b) ''pr_url'')")
  case None
  then show ?thesis using assms(2) by (auto simp: poll_pr_def Let_def split: bind_split_asm)
next
  case (Some url)
  then obtain db where db: "ws_stores w (b_repo b) = Some db" "get_latest_event db (b_id b) ''pr_url'' = Some url"
    by (auto split: bind_split_asm)
  show ?thesis
  proof (cases "gh url")
    case None
    then show ?thesis using assms(2) db by (auto simp: poll_pr_def Let_def)
  next
    case (Some line)
    obtain st sha dec rev where p: "parse_pr_status_line line = (st, sha, dec, rev)" by (metis prod_cases4)
    let ?w1 = "if dec = ''CHANGES_REQUESTED''
      then on_store (b_repo b) (note_feedback (px_now env) (b_id b) (pr_feedback_detail rev url)) w else w"
    let ?w2 = "on_store (b_repo b) (note_merge (px_now env) (b_id b) url sha) ?w1"
    have s1: "stored_state ?w1 = stored_state w" by (simp add: stored_on_store note_feedback_status)
    have s2: "stored_state ?w2 = stored_state w" using s1 by (simp only: stored_on_store [OF note_merge_status])
    have r: "(n', w') = (if st \<noteq> ''MERGED'' then (n, ?w1)
        else (n + 1, on_backend (clear_pipeline (WorkRef (b_repo b) [] (b_id b))) (persist_status env (b_id b) (b_repo b) Done ?w2)))"
      unfolding assms(2) [symmetric] by (simp only: poll_pr_def Let_def prod.case db bind.simps option.case Some p)
    have m: "(\<exists>db url line. ws_stores w (b_repo b) = Some db \<and> get_latest_event db (b_id b) ''pr_url'' = Some url
        \<and> gh url = Some line \<and> fst (parse_pr_status_line line) = ''MERGED'') \<longleftrightarrow> st = ''MERGED''"
      using db Some p by simp
    have c: "stored_state ?w2 (b_repo b) (b_id b) = Some PrOpen" using assms(1) s2 by simp
    have t: "can_transition_to PrOpen Done" by (simp add: can_transition_to_def)
    show ?thesis unfolding m
    proof (cases "st = ''MERGED''")
      case True
      then have "n' = n + 1" "stored_state w' = stored_state (persist_status env (b_id b) (b_repo b) Done ?w2)" using r by auto
      then show "stored_state w' repo i = (if n' = n + 1 \<and> repo = b_repo b \<and> i = b_id b then Some Done else stored_state w repo i)
          \<and> (n' = n + 1 \<longleftrightarrow> st = ''MERGED'') \<and> (n' = n \<or> n' = n + 1)"
        using persist_status_state [OF c, of env Done repo i] t True by (simp add: s2)
    next
      case False
      then have "n' = n" "w' = ?w1" using r by auto
      then show "stored_state w' repo i = (if n' = n + 1 \<and> repo = b_repo b \<and> i = b_id b then Some Done else stored_state w repo i)
          \<and> (n' = n + 1 \<longleftrightarrow> st = ''MERGED'') \<and> (n' = n \<or> n' = n + 1)"
        using s1 False by simp
    qed
  qed
qed

end
