(* ===== verification/Iteration.thy ===== *)
theory Iteration
  imports Wait_Verify Threading Cross_Refs Recovery_Behaviour
begin

text \<open>
  One iteration of the reconciler as a whole (\<open>iterate\<close> of \<open>src/reconcile/mod.rs\<close>), composed of its phases
  over the state of the reconciler and the stores, and the loop of the daemon around it (\<open>run\<close> without a
  target and without \<open>--once\<close>). The calls that a phase has made on the stores are carried out before the
  next phase reads them.

  The clones of remote repositories that are tried again at the start of an iteration are not modelled. The
  records of orchestrators that are written at its end touch none of this state: they are
  \<open>persist_orchestrator_records\<close>, and the records that a daemon starts with, those that \<open>found_records\<close>
  finds, are an argument of \<open>run_daemon\<close>. That the file of a finished run is removed is not modelled.
\<close>

section \<open>Inputs\<close>

record iteration_env =
  ie_dispatch :: dispatch_env
  ie_triage :: triage_env
  ie_persist :: persist_env
  ie_repos :: "string list"
  ie_vcs :: "(string \<times> vcs_ref) list list"
  ie_gh :: "string \<Rightarrow> string option"
  ie_opened :: "string \<Rightarrow> bool"
  ie_sessions :: "session_entry list"
  ie_alive :: "nat \<Rightarrow> bool"
  ie_rfc3339 :: "int \<Rightarrow> string"
  ie_poll :: "string \<Rightarrow> poll_result"
  ie_handle :: "string \<Rightarrow> agent_handle"
  ie_orchestrators :: "string list"
  ie_verdict_text :: "string \<Rightarrow> string \<Rightarrow> string \<Rightarrow> nat \<Rightarrow> verdict \<Rightarrow> string \<Rightarrow> string"
  ie_dispatch_record :: "string \<Rightarrow> work_ref \<Rightarrow> string \<Rightarrow> dispatch_record"

record iteration_summary =
  is_scanned :: nat
  is_triaged :: nat
  is_dispatched :: nat
  is_completed :: nat
  is_passed :: nat
  is_failed :: nat
  is_deadlettered :: nat
  is_deadlettered_ids :: "string list"
  is_agent_closed :: nat
  is_vcs_transitions :: nat

section \<open>Calls on the stores\<close>

text \<open>
  The calls that the reconciler has recorded, run against the stores. Close hooks, workspaces, handoffs, retry
  notes and the start of agents leave the stores alone.
\<close>

fun run_effect :: "iteration_env \<Rightarrow> world \<Rightarrow> effect \<Rightarrow> world" where
  "run_effect env w (PersistStatus i repo st) = persist_status (ie_persist env) i repo st w"
| "run_effect env w (AppendObservation i repo agent phase v detail) =
     on_store repo (log_event (px_now (ie_persist env)) i ''observation'' (ie_verdict_text env i repo agent phase v detail)) w"
| "run_effect env w (effect.LogEvent repo i ty detail) = on_store repo (log_event (px_now (ie_persist env)) i ty detail) w"
| "run_effect env w (effect.SetAssignee repo i a) =
     on_store repo (\<lambda>db. db_or db (set_assignee (px_now (ie_persist env)) i a db)) w"
| "run_effect env w (UpsertPipeline p) = on_backend (upsert_pipeline (px_clock (ie_persist env)) p) w"
| "run_effect env w (ClearPipeline r) = on_backend (clear_pipeline r) w"
| "run_effect env w (CompleteDispatch d r) = on_backend (complete_dispatch (px_clock (ie_persist env)) d r) w"
| "run_effect env w (RecordDispatch d r agent) =
     on_backend (\<lambda>db. case record_dispatch (px_clock (ie_persist env)) (ie_dispatch_record env d r agent) db of
        Inl _ \<Rightarrow> db | Inr db' \<Rightarrow> db') w"
| "run_effect env w _ = w"

definition flush :: "iteration_env \<Rightarrow> reconciler \<times> world \<Rightarrow> reconciler \<times> world" where
  "flush env sw = (let (s, w) = sw in (s\<lparr> rc_effects := [] \<rparr>, foldl (run_effect env) w (rc_effects s)))"

definition flush_all :: "iteration_env \<Rightarrow> hierarchical \<times> world \<Rightarrow> hierarchical \<times> world" where
  "flush_all env hw = (let (h, w) = hw; (s, w') = flush env (hr_rec h, w) in (h\<lparr> hr_rec := s \<rparr>, w'))"

section \<open>Agents that ended\<close>

definition poll_agents :: "(string \<Rightarrow> poll_result) \<Rightarrow> (string \<Rightarrow> agent_handle) \<Rightarrow> hierarchical
    \<Rightarrow> (string \<times> bool) list \<times> hierarchical" where
  "poll_agents poll handle h =
     (let (completed, w) = check_completed poll \<lparr> wt_rec = hr_rec h, wt_active = map (\<lambda>i. (i, handle i)) (hr_active h) \<rparr>
      in (completed, h\<lparr> hr_rec := wt_rec w, hr_active := map fst (wt_active w) \<rparr>))"

text \<open>The verification of one agent; an orchestrator is told of the result.\<close>

definition verify_next :: "iteration_env \<Rightarrow> environment \<Rightarrow> bead list \<Rightarrow> verify_result_counts \<times> hierarchical \<times> world
    \<Rightarrow> string \<times> bool \<Rightarrow> verify_result_counts \<times> hierarchical \<times> world" where
  "verify_next env ev beads chw x =
     (let (c, h, w) = chw;
          (c', s) = verify_one (ev\<lparr> ev_agent_closed := is_bead_agent_closed w \<rparr>) beads x (c, hr_rec h);
          h' = h\<lparr> hr_rec := s \<rparr>;
          h'' = feed_back (hierarchical_env.truncate (ie_dispatch env)) (fst x) (vr_passed c' > vr_passed c) h'
      in (c', flush_all env (h'', w)))"

definition verify_agents :: "iteration_env \<Rightarrow> environment \<Rightarrow> bead list \<Rightarrow> (string \<times> bool) list \<Rightarrow> hierarchical \<times> world
    \<Rightarrow> verify_result_counts \<times> hierarchical \<times> world" where
  "verify_agents env ev beads completed hw = foldl (verify_next env ev beads) (no_counts, hw) completed"

section \<open>The iteration\<close>

text \<open>The phases before the agents are polled only touch the stores.\<close>

definition store_phases :: "iteration_env \<Rightarrow> bead list \<Rightarrow> string list \<Rightarrow> world \<Rightarrow> nat \<times> string list \<times> world" where
  "store_phases env beads active w =
     (let px = ie_persist env; engine = ev_pipeline (he_env (ie_dispatch env));
          (transitions, w1) = scan_vcs px (ie_vcs env) beads active w;
          (_, w2) = poll_pr_status px (ie_gh env) beads w1;
          w3 = sync_external_refs (px_now px) (ie_opened env) beads (find_external_refs beads) w2;
          (dead, w4) = liveness_sweep px (ie_rfc3339 env) (ie_alive env) (ie_sessions env) beads w3
      in (transitions, dead, auto_assign px engine beads w4))"

definition tick_phase :: "iteration_env \<Rightarrow> dispatch_env \<Rightarrow> hierarchical \<times> world
    \<Rightarrow> orchestrator_tick_result \<times> hierarchical \<times> world" where
  "tick_phase env denv hw =
     (let (h, w) = hw
      in if de_hierarchical denv
         then (let (r, h') = orchestrator_tick (hierarchical_env.truncate denv) (ie_orchestrators env) h in (r, flush_all env (h', w)))
         else (no_ticks, hw))"

definition dispatch_phase :: "iteration_env \<Rightarrow> dispatch_env \<Rightarrow> bead list \<Rightarrow> (string \<Rightarrow> string option) \<Rightarrow> hierarchical \<times> world
    \<Rightarrow> nat \<times> nat \<times> hierarchical \<times> world" where
  "dispatch_phase env denv beads thread_map hw =
     (let (h, w) = hw;
          deps = map_option (all_blocking_deps (px_clock (ie_persist env))) (ws_backend w);
          te = (ie_triage env)\<lparr> te_thread_map := thread_map, te_cross_blocked := compute_cross_repo_blocked deps beads,
                 te_active := hr_active h \<rparr>;
          (triaged, s) = triage te beads (hr_rec h);
          (dispatched, h') = dispatch_loop denv (0, h\<lparr> hr_rec := s \<rparr>)
      in (triaged, dispatched, flush_all env (h', w)))"

definition iterate :: "iteration_env \<Rightarrow> hierarchical \<times> world
    \<Rightarrow> iteration_summary \<times> (string \<times> string \<times> string) list \<times> hierarchical \<times> world" where
  "iterate env hw =
     (let (h0, w0) = hw;
          beads = scan_stores (px_parse (ie_persist env)) (ie_repos env) w0;
          denv = (ie_dispatch env)\<lparr> he_beads := beads \<rparr>;
          (transitions, dead, w1) = store_phases env beads (hr_active h0) w0;
          (completed, h1) = poll_agents (ie_poll env) (ie_handle env) h0;
          (ot, h2, w2) = tick_phase env denv (h1, w1);
          w3 = on_backend (auto_thread beads) w2;
          thread_map = build_thread_map beads (ws_backend w3);
          (triaged, dispatched, h4, w4) = dispatch_phase env denv beads thread_map (h2, w3);
          (vr, h5, w5) = verify_agents env ((he_env denv)\<lparr> ev_thread_map := thread_map \<rparr>) beads completed (h4, w4);
          newly = map (\<lambda>(i, repo, _). (i, repo)) (filter (\<lambda>(_, _, status). status = ''pr_open'') (vr_status_updates vr));
          prs = assemble_feature_prs (he_repos denv) newly w5
      in (\<lparr> is_scanned = length beads, is_triaged = triaged, is_dispatched = ot_dispatched ot + dispatched,
            is_completed = length completed, is_passed = ot_passed ot + vr_passed vr, is_failed = ot_failed ot + vr_failed vr,
            is_deadlettered = length dead + ot_deadlettered ot + vr_deadlettered vr,
            is_deadlettered_ids = dead @ vr_deadlettered_ids vr, is_agent_closed = vr_agent_closed vr,
            is_vcs_transitions = transitions \<rparr>, prs, h5, w5))"

section \<open>The daemon\<close>

text \<open>
  The record files \<open>.rsry-orchestrator.json\<close> by directory. An orchestrator writes its record to its own
  work directory; when the daemon starts they are looked for in the directories below the workspace
  roots of the repositories (\<open>entries\<close> lists a directory, and is empty for one that cannot be read).
\<close>

definition persist_orchestrator_records :: "int \<Rightarrow> string list \<Rightarrow> hierarchical
    \<Rightarrow> (string \<Rightarrow> orchestrator_record option) \<Rightarrow> string \<Rightarrow> orchestrator_record option" where
  "persist_orchestrator_records now bead_ids h files =
     foldl (\<lambda>files i. case hr_orchestrators h i of
         None \<Rightarrow> files
       | Some fo \<Rightarrow> files(fo_work_dir fo \<mapsto> persist_record now fo)) files bead_ids"

definition workspace_roots :: "(string \<Rightarrow> string) \<Rightarrow> (string \<Rightarrow> string option) \<Rightarrow> string \<Rightarrow> string list" where
  "workspace_roots current legacy repo_path =
     (case legacy repo_path of
        Some l \<Rightarrow> if l \<noteq> current repo_path then [current repo_path, l] else [current repo_path]
      | None \<Rightarrow> [current repo_path])"

definition found_records :: "(string \<Rightarrow> string list) \<Rightarrow> (string \<Rightarrow> string list) \<Rightarrow> (string \<Rightarrow> orchestrator_record option)
    \<Rightarrow> string list \<Rightarrow> (string \<times> orchestrator_record) list" where
  "found_records roots entries files repo_paths =
     List.map_filter (\<lambda>d. map_option (\<lambda>r. (d, r)) (files d))
       (concat (map (\<lambda>p. concat (map entries (roots p))) repo_paths))"

text \<open>
  Orchestrators are restored from the records that were found, then the dispatched beads are reopened:
  all of them.
\<close>

definition recover_orchestrators :: "dispatch_env \<Rightarrow> (string \<times> orchestrator_record) list \<Rightarrow> hierarchical \<Rightarrow> hierarchical" where
  "recover_orchestrators denv records h =
     (if \<not> de_hierarchical denv then h
      else foldl (\<lambda>h (work_dir, r).
          case recover_orchestrator (ev_pipeline (he_env denv)) (he_behavior denv) (he_now denv) work_dir r of
            None \<Rightarrow> h | Some fo \<Rightarrow> put_orchestrator (wr_bead_id (or_bead_ref r)) fo h) h records)"

definition start_daemon :: "iteration_env \<Rightarrow> (string \<times> orchestrator_record) list \<Rightarrow> hierarchical \<times> world \<Rightarrow> hierarchical \<times> world" where
  "start_daemon env records hw =
     (let (h, w) = hw;
          h1 = recover_orchestrators (ie_dispatch env) records h;
          (s, w1) = recover_stuck_beads (ie_persist env) (ie_repos env) (hr_rec h1, w)
      in (h1\<lparr> hr_rec := s \<rparr>, w1))"

text \<open>The first iterations of a daemon, with the inputs that each of them sees.\<close>

definition run_daemon :: "iteration_env \<Rightarrow> (string \<times> orchestrator_record) list \<Rightarrow> iteration_env list \<Rightarrow> hierarchical \<times> world
    \<Rightarrow> hierarchical \<times> world" where
  "run_daemon env records envs hw = foldl (\<lambda>hw env. snd (snd (iterate env hw))) (start_daemon env records hw) envs"

end
