(* ===== verification/Iteration_Behaviour.thy ===== *)
theory Iteration_Behaviour
  imports Iteration
begin

text \<open>
  What holds of whole iterations, and of a daemon that runs any number of them: the statuses in the stores move
  along the lifecycle through every phase, and no more agents run than there are slots; and what a restart does
  to the beads of the orchestrators that it restores.
\<close>

section \<open>Statuses move along the lifecycle\<close>

text \<open>What may become of a stored status; a bead that is new starts open.\<close>

definition moves :: "bead_state option \<Rightarrow> bead_state option \<Rightarrow> bool" where
  "moves s t \<longleftrightarrow>
     (case s of
        None \<Rightarrow> t = None \<or> (\<exists>us v. t = Some v \<and> lifecycle_run Open us v)
      | Some u \<Rightarrow> \<exists>us v. t = Some v \<and> lifecycle_run u us v)"

named_theorems follow_intros

lemma moves_refl [simp]: "moves s s"
  by (auto simp: moves_def intro: run_stop split: option.splits)

lemma moves_trans: "moves s t \<Longrightarrow> moves t u \<Longrightarrow> moves s u"
  unfolding moves_def by (cases s; cases t) (auto intro: run_append)

lemma moves_step: "can_transition_to s t \<Longrightarrow> moves (Some s) (Some t)"
  by (auto simp: moves_def intro: run_one)

lemma moves_new: "moves None (Some Open)"
  by (auto simp: moves_def intro: run_stop)

definition db_follows :: "bead_db \<Rightarrow> bead_db \<Rightarrow> bool" where
  "db_follows db db' \<longleftrightarrow> (\<forall>i. moves (status_at db i) (status_at db' i))"

definition follows :: "world \<Rightarrow> world \<Rightarrow> bool" where
  "follows w w' \<longleftrightarrow> (\<forall>repo i. moves (stored_state w repo i) (stored_state w' repo i))"

lemma db_follows_trans: "db_follows a b \<Longrightarrow> db_follows b c \<Longrightarrow> db_follows a c"
  unfolding db_follows_def using moves_trans by blast

lemma db_follows_same [follow_intros]: "status_at db' = status_at db \<Longrightarrow> db_follows db db'"
  by (simp add: db_follows_def)

lemma db_follows_update [follow_intros]: "db_follows db (db_or db (update_status now i s db))"
  unfolding db_follows_def using status_update [of db now i s] moves_step by (metis moves_refl)

lemma db_follows_create [follow_intros]: "db_follows db (db_or db (create_bead_full now b db))"
  unfolding db_follows_def using status_create [of db now b] moves_new by (metis moves_refl)

lemma follows_refl [simp, follow_intros]: "follows w w"
  by (simp add: follows_def)

lemma follows_trans [trans]: "follows a b \<Longrightarrow> follows b c \<Longrightarrow> follows a c"
  unfolding follows_def using moves_trans by blast

lemma follows_same: "stored_state w' = stored_state w \<Longrightarrow> follows w w'"
  by (simp add: follows_def)

lemma on_store_follows [follow_intros]: "(\<And>db. db_follows db (f db)) \<Longrightarrow> follows w (on_store repo f w)"
  by (auto simp: follows_def db_follows_def stored_state_def on_store_def split: option.splits)

lemma on_backend_follows [follow_intros]: "follows w (on_backend f w)"
  by (rule follows_same) simp

lemma foldl_follows: "(\<And>w x. follows w (f w x)) \<Longrightarrow> follows w (foldl f w xs)"
  by (induction xs arbitrary: w) (simp, metis foldl_Cons follows_trans)

lemma foldl_snd_follows: "(\<And>c x. follows (snd c) (snd (f c x))) \<Longrightarrow> follows (snd c) (snd (foldl f c xs))"
  by (induction xs arbitrary: c) (simp, metis foldl_Cons follows_trans)

section \<open>The phases on the stores\<close>

lemma write_follows: "db_follows db (write_status now i st db)"
  using db_follows_trans [OF db_follows_update db_follows_same] by (simp add: write_status_def)

lemma persist_follows [follow_intros]: "follows w (persist_status env i repo st w)"
  using write_follows by (auto simp: follows_def db_follows_def persist_status_def Let_def stored_state_def split: option.splits)

lemma log_follows [follow_intros]: "follows w (on_store repo (log_event now i ty d) w)"
  by (intro follow_intros) simp

lemma scan_vcs_follows: "follows w (snd (scan_vcs env scans beads active w))"
  unfolding scan_vcs_def Let_def snd_conv
proof (rule foldl_follows)
  fix w t
  show "follows w (apply_transition env w t)"
    by (cases t) (auto simp: apply_transition_def Let_def intro: follows_trans [OF log_follows persist_follows])
qed

lemma poll_pr_follows: "follows (snd cw) (snd (poll_pr env gh cw b))"
proof (cases "Option.bind (ws_stores (snd cw) (b_repo b)) (\<lambda>db. get_latest_event db (b_id b) ''pr_url'')")
  case None
  then show ?thesis by (simp add: poll_pr_def case_prod_unfold Let_def)
next
  case url: (Some url)
  show ?thesis
  proof (cases "gh url")
    case None
    then show ?thesis using url by (simp add: poll_pr_def case_prod_unfold Let_def)
  next
    case (Some line)
    obtain st sha dec rev where p: "parse_pr_status_line line = (st, sha, dec, rev)" by (metis prod_cases4)
    let ?w1 = "if dec = ''CHANGES_REQUESTED''
      then on_store (b_repo b) (note_feedback (px_now env) (b_id b) (pr_feedback_detail rev url)) (snd cw) else snd cw"
    have f: "follows (snd cw) ?w1" by (auto intro!: follow_intros simp: note_feedback_status)
    have m: "follows w (on_store (b_repo b) (note_merge (px_now env) (b_id b) url sha) w)" for w
      by (intro follow_intros) (simp add: note_merge_status)
    show ?thesis using url Some p f follows_trans [OF f follows_trans [OF m follows_trans [OF persist_follows on_backend_follows]]]
      by (cases "dec = ''CHANGES_REQUESTED''"; cases "st = ''MERGED''") (simp_all add: poll_pr_def case_prod_unfold Let_def)
  qed
qed

lemma poll_prs_follow: "follows w (snd (poll_pr_status env gh beads w))"
  unfolding poll_pr_status_def using foldl_snd_follows [of "poll_pr env gh" "(0, w)"] poll_pr_follows by simp

lemma mirror_follows: "db_follows db (create_mirror now r db)"
proof -
  have "status_at (db_or x (set_external_ref now i e x)) = status_at x" for i e x by (rule status_setters)
  then show ?thesis using db_follows_create [of db now "mirror_bead r"]
    by (auto simp: create_mirror_def Let_def db_or_def db_follows_def split: sum.splits)
qed

lemma sync_follows: "follows w (sync_external_refs now opened bs refs w)"
  unfolding sync_external_refs_def
proof (rule foldl_follows)
  fix w r
  show "follows w (sync_external_ref now opened bs w r)"
    by (auto simp: sync_external_ref_def split: option.splits intro!: follow_intros mirror_follows)
qed

lemma liveness_follows: "follows w (snd (liveness_sweep env rfc3339 alive sessions beads w))"
proof (cases "sessions = []")
  case False
  obtain cs w1 where f: "foldl (sweep_repo env rfc3339 alive (build_session_index sessions)) ([], w)
      (remdups (map b_repo (filter (\<lambda>b. bead_state_of b = Dispatched) beads))) = (cs, w1)" by force
  have "stored_state w1 = stored_state w" using sweep_repos [OF distinct_remdups f] by simp
  then have "follows w w1" by (rule follows_same)
  moreover have "follows w1 (snd (foldl (bury_candidate env) ([], w1) cs))"
    unfolding bury_world by (rule foldl_follows) (auto intro: follow_intros)
  ultimately have "follows w (snd (foldl (bury_candidate env) ([], w1) cs))" by (rule follows_trans)
  then show ?thesis using False f by (simp add: liveness_sweep_def)
qed (simp add: liveness_sweep_def)

lemma assign_follows: "follows w (auto_assign env engine beads w)"
  unfolding auto_assign_def
  by (rule foldl_follows) (auto intro!: follow_intros simp: status_setters)

lemma store_phases_follow: "follows w (snd (snd (store_phases env beads active w)))"
proof -
  obtain t w1 where 1: "scan_vcs (ie_persist env) (ie_vcs env) beads active w = (t, w1)" by force
  obtain n w2 where 2: "poll_pr_status (ie_persist env) (ie_gh env) beads w1 = (n, w2)" by force
  let ?w3 = "sync_external_refs (px_now (ie_persist env)) (ie_opened env) beads (find_external_refs beads) w2"
  obtain d w4 where 4: "liveness_sweep (ie_persist env) (ie_rfc3339 env) (ie_alive env) (ie_sessions env) beads ?w3 = (d, w4)" by force
  have "follows w w1" using scan_vcs_follows [of w "ie_persist env" "ie_vcs env" beads active] 1 by simp
  also have "follows w1 w2" using poll_prs_follow [of w1 "ie_persist env" "ie_gh env" beads] 2 by simp
  also have "follows w2 ?w3" by (rule sync_follows)
  also have "follows ?w3 w4"
    using liveness_follows [of ?w3 "ie_persist env" "ie_rfc3339 env" "ie_alive env" "ie_sessions env" beads] 4 by simp
  finally show ?thesis using follows_trans [OF _ assign_follows] by (simp add: store_phases_def Let_def 1 2 4)
qed

section \<open>The calls of the reconciler\<close>

lemma run_effect_follows: "follows w (run_effect env w e)"
  by (cases e) (auto intro!: follow_intros simp: status_setters)

lemma flush_follows: "follows w (snd (flush_all env (h, w)))"
  unfolding flush_all_def flush_def by (auto intro!: foldl_follows run_effect_follows)

lemma flush_keeps:
  "hr_active (fst (flush_all env (h, w))) = hr_active h" "hr_orchestrators (fst (flush_all env (h, w))) = hr_orchestrators h"
  by (simp_all add: flush_all_def flush_def)

lemma tick_phase_follows: "follows (snd hw) (snd (snd (tick_phase env denv hw)))"
  by (cases hw) (auto simp: tick_phase_def Let_def case_prod_unfold intro: flush_follows)

lemma dispatch_phase_follows: "follows (snd hw) (snd (snd (snd (dispatch_phase env denv beads tm hw))))"
  by (cases hw) (auto simp: dispatch_phase_def Let_def case_prod_unfold intro: flush_follows)

lemma verify_next_follows: "follows (snd (snd chw)) (snd (snd (verify_next env ev beads chw x)))"
  by (cases chw) (auto simp: verify_next_def Let_def case_prod_unfold intro: flush_follows)

lemma verify_agents_follow: "follows (snd hw) (snd (snd (verify_agents env ev beads completed hw)))"
proof -
  have "follows (snd (snd chw)) (snd (snd (foldl (verify_next env ev beads) chw completed)))" for chw
  proof (induction completed arbitrary: chw)
    case (Cons x xs)
    show ?case using follows_trans [OF verify_next_follows Cons.IH] by simp
  qed simp
  from this [of "(no_counts, hw)"] show ?thesis by (simp add: verify_agents_def)
qed

section \<open>Slots\<close>

abbreviation fits :: "nat \<Rightarrow> hierarchical \<Rightarrow> bool" where
  "fits n h \<equiv> length (hr_active h) \<le> n"

lemma check_one_active: "set (map fst (wt_active (snd (check_one poll ih (c, w))))) \<subseteq> set (map fst (wt_active w))
   \<and> length (wt_active (snd (check_one poll ih (c, w)))) \<le> length (wt_active w)"
  by (cases ih) (auto simp: check_one_def Let_def stash_handle_def split: option.splits intro: length_filter_le)

lemma poll_agents_fits: "fits n h \<Longrightarrow> fits n (snd (poll_agents poll handle h))"
proof -
  have "length (wt_active (snd (foldl (\<lambda>cw ih. check_one poll ih cw) cw xs))) \<le> length (wt_active (snd cw))" for cw xs
  proof (induction xs arbitrary: cw)
    case (Cons x xs)
    obtain c w where cw: "cw = (c, w)" by force
    show ?case using Cons.IH [of "check_one poll x cw"] check_one_active [of poll x c w] by (simp add: cw)
  qed simp
  from this [of "([], \<lparr> wt_rec = hr_rec h, wt_active = map (\<lambda>i. (i, handle i)) (hr_active h) \<rparr>)" "map (\<lambda>i. (i, handle i)) (hr_active h)"] show "fits n h \<Longrightarrow> ?thesis"
    by (simp add: poll_agents_def check_completed_def Let_def case_prod_unfold del: split_paired_All)
qed

lemma drop_put_active [simp]:
  "hr_active (put_orchestrator b fo h) = hr_active h" "hr_active (drop_orchestrator b h) = hr_active h"
  by (simp_all add: put_orchestrator_def drop_orchestrator_def)

lemma tick_one_fits: "fits (he_max_concurrent env) (snd rh) \<Longrightarrow> fits (he_max_concurrent env) (snd (tick_one env b rh))"
proof -
  assume w: "fits (he_max_concurrent env) (snd rh)"
  have s: "fits (he_max_concurrent env) (snd (spawn_phase env b agent (r, h)))" if "fits (he_max_concurrent env) h" for agent r h
    using that activate_length [of b "hr_active h"]
    by (auto simp: spawn_phase_def Let_def split: option.splits)
  have f: "fits (he_max_concurrent env) (snd (finish_phase env b ok (r, h)))" if "fits (he_max_concurrent env) h" for ok r h
    using that by (auto simp: finish_phase_def Let_def case_prod_unfold split: option.splits)
  show ?thesis using w s f
    by (cases rh) (auto simp: tick_one_def Let_def split: option.splits prod.splits tick_outcome.splits)
qed

lemma tick_phase_fits:
  assumes "fits (he_max_concurrent denv) (fst hw)"
  shows "fits (he_max_concurrent denv) (fst (snd (tick_phase env denv hw)))"
proof -
  obtain h w where hw: "hw = (h, w)" by force
  have "fits (he_max_concurrent e) (snd (foldl (\<lambda>rh b. tick_one e b rh) rh bs))"
    if "fits (he_max_concurrent e) (snd rh)" for e :: hierarchical_env and rh bs
    using that
  proof (induction bs arbitrary: rh)
    case (Cons b bs)
    then show ?case using Cons.IH [OF tick_one_fits [OF Cons.prems]] by simp
  qed simp
  from this [where e = "hierarchical_env.truncate denv" and rh = "(no_ticks, h)" and bs = "ie_orchestrators env"] show ?thesis
    using assms by (simp add: hw tick_phase_def orchestrator_tick_def case_prod_unfold Let_def flush_keeps hierarchical_env.defs)
qed

lemma dispatch_phase_fits:
  assumes "fits (he_max_concurrent denv) (fst hw)"
  shows "fits (he_max_concurrent denv) (fst (snd (snd (dispatch_phase env denv beads tm hw))))"
proof -
  obtain h w where hw: "hw = (h, w)" by force
  show ?thesis using assms dispatch_loop_active [of denv 0 "h\<lparr> hr_rec := s \<rparr>" for s]
    by (simp add: hw dispatch_phase_def Let_def case_prod_unfold flush_keeps)
qed

lemma verify_next_fits: "fits n (fst (snd chw)) \<Longrightarrow> fits n (fst (snd (verify_next env ev beads chw x)))"
proof -
  have "fits n h \<Longrightarrow> fits n (feed_back e b p h)" for e b p h
    by (auto simp: feed_back_def intro: order_trans [OF length_removeAll_less_eq] split: option.splits)
  then show "fits n (fst (snd chw)) \<Longrightarrow> ?thesis"
    by (cases chw) (simp add: verify_next_def Let_def case_prod_unfold flush_keeps)
qed

lemma verify_agents_fits: "fits n (fst hw) \<Longrightarrow> fits n (fst (snd (verify_agents env ev beads completed hw)))"
proof -
  have "fits n (fst (snd (foldl (verify_next env ev beads) chw completed)))" if "fits n (fst (snd chw))" for chw
    using that
  proof (induction completed arbitrary: chw)
    case (Cons x xs)
    show ?case using Cons.IH [OF verify_next_fits [OF Cons.prems]] by simp
  qed simp
  from this [of "(no_counts, hw)"] show "fits n (fst hw) \<Longrightarrow> ?thesis" by (simp add: verify_agents_def)
qed

section \<open>Pull requests of features\<close>

lemma verify_next_pr_open:
  assumes "verify_next env ev beads (c, h, w) x = (c', h', w')" "rc_orchestrators (hr_rec h) (fst x) \<noteq> None"
  shows "vr_status_updates c' = vr_status_updates c"
proof -
  obtain b ok0 where x: "x = (b, ok0)" by force
  let ?ev = "ev\<lparr> ev_agent_closed := is_bead_agent_closed w \<rparr>"
  obtain cl ok wt where cl: "classify_completion ?ev b ok0 (hr_rec h) = (cl, ok, wt)" by (metis prod_cases3)
  obtain a su s2 where v: "verify_and_decide ?ev b ok beads (hr_rec h) = ((a, su), s2)" by (metis prod.exhaust)
  have "vr_status_updates (fst (verify_one ?ev beads x (c, hr_rec h))) = vr_status_updates c"
    using assms(2) by (simp add: verify_one_def x cl v Let_def)
  moreover have "c' = fst (verify_one ?ev beads x (c, hr_rec h))"
    using assms(1) by (simp add: verify_next_def Let_def case_prod_unfold)
  ultimately show ?thesis by simp
qed

lemma verify_next_orchestrators:
  assumes "rc_orchestrators (hr_rec h) (fst x) \<noteq> None" "rc_orchestrators (hr_rec h) b \<noteq> None"
    and "\<And>b. rc_orchestrators (hr_rec h) b \<noteq> None \<longleftrightarrow> hr_orchestrators h b \<noteq> None"
  shows "rc_orchestrators (hr_rec (fst (snd (verify_next env ev beads (c, h, w) x)))) b \<noteq> None"
proof -
  obtain i ok0 where x: "x = (i, ok0)" by force
  let ?ev = "ev\<lparr> ev_agent_closed := is_bead_agent_closed w \<rparr>"
  have "rc_orchestrators (snd (verify_one ?ev beads (i, ok0) (c, hr_rec h))) = rc_orchestrators (hr_rec h)"
    using verify_one_orchestrated [of "hr_rec h" i ?ev beads ok0 c] assms(1) by (simp add: x)
  then show ?thesis using assms(2)
    by (auto simp: verify_next_def x Let_def case_prod_unfold flush_all_def flush_def feed_back_def put_orchestrator_def split: option.splits)
qed

section \<open>The whole run\<close>

lemma iterate_parts:
  assumes "iterate env (h, w) = (sm, prs, h', w')"
  shows "follows w w'" and "fits (he_max_concurrent (ie_dispatch env)) h \<Longrightarrow> fits (he_max_concurrent (ie_dispatch env)) h'"
proof -
  let ?beads = "scan_stores (px_parse (ie_persist env)) (ie_repos env) w"
  let ?denv = "(ie_dispatch env)\<lparr> he_beads := ?beads \<rparr>"
  let ?n = "he_max_concurrent (ie_dispatch env)"
  obtain tr dead w1 where 1: "store_phases env ?beads (hr_active h) w = (tr, dead, w1)" by (metis prod_cases3)
  obtain completed h1 where 2: "poll_agents (ie_poll env) (ie_handle env) h = (completed, h1)" by force
  obtain ot h2 w2 where 3: "tick_phase env ?denv (h1, w1) = (ot, h2, w2)" by (metis prod_cases3)
  let ?w3 = "on_backend (auto_thread ?beads) w2"
  let ?tm = "build_thread_map ?beads (ws_backend ?w3)"
  obtain trg dis h4 w4 where 4: "dispatch_phase env ?denv ?beads ?tm (h2, ?w3) = (trg, dis, h4, w4)" by (metis prod_cases4)
  obtain vr h5 w5 where 5: "verify_agents env ((he_env ?denv)\<lparr> ev_thread_map := ?tm \<rparr>) ?beads completed (h4, w4) = (vr, h5, w5)"
    by (metis prod_cases3)
  have e: "h' = h5" "w' = w5" using assms 1 2 3 4 5 by (simp_all add: iterate_def Let_def)
  have "follows w w1" using store_phases_follow [of w env ?beads "hr_active h"] 1 by simp
  also have "follows w1 w2" using tick_phase_follows [of "(h1, w1)" env ?denv] 3 by simp
  also have "follows w2 ?w3" by (rule on_backend_follows)
  also have "follows ?w3 w4" using dispatch_phase_follows [of "(h2, ?w3)" env ?denv ?beads ?tm] 4 by simp
  also have "follows w4 w5"
    using verify_agents_follow [of "(h4, w4)" env "(he_env ?denv)\<lparr> ev_thread_map := ?tm \<rparr>" ?beads completed] 5 by simp
  finally show "follows w w'" by (simp add: e)
  assume "fits ?n h"
  then have "fits ?n h1" using poll_agents_fits [where h = h and n = ?n and poll = "ie_poll env" and handle = "ie_handle env"] 2 by simp
  then have "fits ?n h2" using tick_phase_fits [where denv = ?denv and hw = "(h1, w1)" and env = env] 3 by simp
  then have "fits ?n h4" using dispatch_phase_fits [where denv = ?denv and hw = "(h2, ?w3)" and env = env and beads = ?beads and tm = ?tm] 4 by simp
  then show "fits ?n h'"
    using verify_agents_fits [where hw = "(h4, w4)" and n = ?n and env = env and ev = "(he_env ?denv)\<lparr> ev_thread_map := ?tm \<rparr>" and beads = ?beads and completed = completed] 5 by (simp add: e)
qed

lemma recover_follows: "follows w (snd (recover_stuck_beads env repos (s, w)))"
proof -
  have f: "follows w (snd (foldl (recover_bead env pipelines) (s, w) bs))" for pipelines bs
    unfolding recover_world by (rule foldl_follows) (auto intro: follow_intros)
  show ?thesis using follows_trans [OF f on_backend_follows]
    by (simp add: recover_stuck_beads_def Let_def case_prod_unfold)
qed

lemma recover_orchestrators_active: "hr_active (recover_orchestrators denv records h) = hr_active h"
proof -
  have "hr_active (foldl (\<lambda>h (work_dir, r).
          case recover_orchestrator (ev_pipeline (he_env denv)) (he_behavior denv) (he_now denv) work_dir r of
            None \<Rightarrow> h | Some fo \<Rightarrow> put_orchestrator (wr_bead_id (or_bead_ref r)) fo h) h records) = hr_active h" for h
    by (induction records arbitrary: h) (auto split: option.splits)
  then show ?thesis by (simp add: recover_orchestrators_def)
qed

lemma start_parts:
  assumes "start_daemon env records (h, w) = (h', w')"
  shows "follows w w'" "hr_active h' = hr_active h"
  using assms recover_follows [of w "ie_persist env" "ie_repos env" "hr_rec (recover_orchestrators (ie_dispatch env) records h)"]
  by (auto simp: start_daemon_def Let_def case_prod_unfold recover_orchestrators_active)

lemma run_parts:
  assumes "run_daemon env records envs (h, w) = (h', w')" "\<forall>e \<in> set envs. he_max_concurrent (ie_dispatch e) = n" "fits n h"
  shows "follows w w' \<and> fits n h'"
proof -
  obtain h1 w1 where s: "start_daemon env records (h, w) = (h1, w1)" by force
  have "follows a b' \<and> fits n g'"
    if "foldl (\<lambda>hw env. snd (snd (iterate env hw))) (g, a) envs = (g', b')" "\<forall>e \<in> set envs. he_max_concurrent (ie_dispatch e) = n" "fits n g"
    for g a g' b'
    using that
  proof (induction envs arbitrary: g a)
    case (Cons e envs)
    obtain sm prs g1 a1 where i: "iterate e (g, a) = (sm, prs, g1, a1)" by (metis prod_cases4)
    have "follows a a1" "fits n g1" using iterate_parts [OF i] Cons.prems by auto
    moreover have "follows a1 b' \<and> fits n g'" using Cons.IH [of g1 a1] Cons.prems i \<open>fits n g1\<close> by simp
    ultimately show ?case using follows_trans by blast
  qed simp
  from this [of h1 w1 h' w'] have "follows w1 w' \<and> fits n h'"
    using assms start_parts(2) [OF s] by (simp add: run_daemon_def s)
  then show ?thesis using start_parts(1) [OF s] follows_trans by blast
qed

text \<open>
  C1. However many iterations a daemon runs, whatever agents, commits, pull requests and trackers answer: the
  status of every stored bead moves along the lifecycle and no bead is lost; a bead that is new starts open; a bead
  that is done stays done, and one that was open, or was not there, is done only after it was verifying or
  dead-lettered. No more agents run than there are slots.
\<close>

theorem daemon_follows_the_lifecycle:
  assumes "run_daemon env records envs (h, w) = (h', w')"
    and "\<forall>e \<in> set envs. he_max_concurrent (ie_dispatch e) = n" "length (hr_active h) \<le> n"
  shows "length (hr_active h') \<le> n
    \<and> (\<forall>s. stored_state w repo i = Some s \<longrightarrow> (\<exists>us t. stored_state w' repo i = Some t \<and> lifecycle_run s us t))
    \<and> (\<forall>t. stored_state w repo i = None \<and> stored_state w' repo i = Some t \<longrightarrow> (\<exists>us. lifecycle_run Open us t))
    \<and> (stored_state w repo i = Some Done \<longrightarrow> stored_state w' repo i = Some Done)
    \<and> ((stored_state w repo i = Some Open \<or> stored_state w repo i = None) \<and> stored_state w' repo i = Some Done \<longrightarrow>
        (\<exists>us. lifecycle_run Open us Done \<and> (Verifying \<in> set us \<or> DeadLetter \<in> set us)))"
proof -
  have f: "follows w w'" "length (hr_active h') \<le> n" using run_parts [OF assms] by auto
  have m: "moves (stored_state w repo i) (stored_state w' repo i)" using f(1) by (simp add: follows_def)
  have done1: "v = Done" if "lifecycle_run Done us v" for us v
    using that by (auto simp: can_transition_to_def elim: lifecycle_run.cases)
  have through: "\<exists>us. lifecycle_run Open us Done \<and> (Verifying \<in> set us \<or> DeadLetter \<in> set us)" if "lifecycle_run Open us Done" for us
    using run_unfinished [OF that] that by (auto simp: unfinished_def)
  show ?thesis using m f(2) done1 through by (cases "stored_state w repo i") (auto simp: moves_def)
qed

lemma recover_orchestrators_put:
  "hr_orchestrators (recover_orchestrators denv ((d, r) # records) h) =
     (if de_hierarchical denv then
       hr_orchestrators (recover_orchestrators denv records
         (case recover_orchestrator (ev_pipeline (he_env denv)) (he_behavior denv) (he_now denv) d r of
            None \<Rightarrow> h | Some fo \<Rightarrow> put_orchestrator (wr_bead_id (or_bead_ref r)) fo h))
      else hr_orchestrators h)"
  by (simp add: recover_orchestrators_def)

lemma recover_orchestrators_keep:
  "hr_orchestrators h b \<noteq> None \<Longrightarrow> hr_orchestrators (recover_orchestrators denv records h) b \<noteq> None"
  by (induction records arbitrary: h)
    (auto simp: recover_orchestrators_put put_orchestrator_def recover_orchestrators_def split: option.splits)

lemma recover_orchestrators_frame:
  "b \<notin> (\<lambda>(d, r). wr_bead_id (or_bead_ref r)) ` set records \<Longrightarrow>
     hr_orchestrators (recover_orchestrators denv records h) b = hr_orchestrators h b"
  by (induction records arbitrary: h)
    (auto simp: recover_orchestrators_put put_orchestrator_def recover_orchestrators_def split: option.splits)

lemma recover_orchestrators_restores:
  assumes "de_hierarchical denv" "(d, r) \<in> set records"
    and "recover_orchestrator (ev_pipeline (he_env denv)) (he_behavior denv) (he_now denv) d r = Some fo"
  shows "hr_orchestrators (recover_orchestrators denv records h) (wr_bead_id (or_bead_ref r)) \<noteq> None
    \<and> (distinct (map (\<lambda>(d, r). wr_bead_id (or_bead_ref r)) records) \<longrightarrow>
        hr_orchestrators (recover_orchestrators denv records h) (wr_bead_id (or_bead_ref r)) = Some fo)"
  using assms(2)
proof (induction records arbitrary: h)
  case (Cons x records)
  obtain d1 r1 where x: "x = (d1, r1)" by force
  show ?case
  proof (cases "x = (d, r)")
    case True
    then show ?thesis
      using recover_orchestrators_keep [of "put_orchestrator (wr_bead_id (or_bead_ref r)) fo h" "wr_bead_id (or_bead_ref r)" denv records]
        recover_orchestrators_frame [of "wr_bead_id (or_bead_ref r)" records denv "put_orchestrator (wr_bead_id (or_bead_ref r)) fo h"]
        assms(1,3)
      by (simp add: recover_orchestrators_put put_orchestrator_def)
  next
    case False
    then show ?thesis using Cons assms(1) by (auto simp: x recover_orchestrators_put split: option.split)
  qed
qed simp

lemma map_filter_same: "(\<And>x. x \<in> set xs \<Longrightarrow> f x = g x) \<Longrightarrow> List.map_filter f xs = List.map_filter g xs"
  by (induction xs) (auto simp: List.map_filter_simps split: option.splits)

text \<open>A record that lies in no directory below a workspace root is not found: recovery sees the same
  records with it as without.\<close>

lemma records_outside_are_not_found:
  assumes "\<forall>i fo. hr_orchestrators h i = Some fo \<longrightarrow>
    (\<forall>p \<in> set repo_paths. \<forall>root \<in> set (roots p). fo_work_dir fo \<notin> set (entries root))"
  shows "found_records roots entries (persist_orchestrator_records now bead_ids h files) repo_paths
    = found_records roots entries files repo_paths"
proof -
  have "persist_orchestrator_records now bead_ids h files d = files d"
    if d: "d \<in> set (concat (map (\<lambda>p. concat (map entries (roots p))) repo_paths))" for d
  proof -
    have "fo_work_dir fo \<noteq> d" if "hr_orchestrators h i = Some fo" for i fo using assms d that by fastforce
    then show ?thesis unfolding persist_orchestrator_records_def
      by (induction bead_ids arbitrary: files) (auto split: option.split)
  qed
  then show ?thesis unfolding found_records_def by (intro map_filter_same) auto
qed

text \<open>
  C18. The orchestrators that are restored when a daemon in the hierarchical mode starts do not claim their
  beads. Whatever records were found: for each one of an unfinished run, whose bead is stored as dispatched
  in a readable store of the daemon, the orchestrator is restored (from this record, when no two name the
  same bead), but the recovery that follows reopens the bead, so that the triage finds it again. And as
  long as the bead is open, from then on, both ends that its orchestrator can report, a pull request and a
  failure, are refused and leave it open.
\<close>

theorem restored_orchestrators_lose_their_beads:
  assumes "readable_stores (ie_persist env) (ie_repos env) w" "de_hierarchical (ie_dispatch env)"
    and "start_daemon env records (h, w) = (h', w')" "(d, r) \<in> set records"
    and "recover_orchestrator (ev_pipeline (he_env (ie_dispatch env))) (he_behavior (ie_dispatch env)) (he_now (ie_dispatch env)) d r = Some fo"
    and "wr_repo (or_bead_ref r) \<in> set (ie_repos env)"
    and "stored_state w (wr_repo (or_bead_ref r)) (wr_bead_id (or_bead_ref r)) = Some Dispatched"
  shows "hr_orchestrators h' (wr_bead_id (or_bead_ref r)) \<noteq> None
    \<and> (distinct (map (\<lambda>(d, r). wr_bead_id (or_bead_ref r)) records) \<longrightarrow>
        hr_orchestrators h' (wr_bead_id (or_bead_ref r)) = Some fo)
    \<and> stored_state w' (wr_repo (or_bead_ref r)) (wr_bead_id (or_bead_ref r)) = Some Open
    \<and> (\<forall>px st later. stored_state later (wr_repo (or_bead_ref r)) (wr_bead_id (or_bead_ref r)) = Some Open
         \<and> (st = PrOpen \<or> st = DeadLetter) \<longrightarrow>
        stored_state (persist_status px (wr_bead_id (or_bead_ref r)) (wr_repo (or_bead_ref r)) st later)
          (wr_repo (or_bead_ref r)) (wr_bead_id (or_bead_ref r)) = Some Open)"
proof -
  let ?b = "wr_bead_id (or_bead_ref r)" and ?repo = "wr_repo (or_bead_ref r)"
  let ?h1 = "recover_orchestrators (ie_dispatch env) records h"
  obtain s w1 where rec: "recover_stuck_beads (ie_persist env) (ie_repos env) (hr_rec ?h1, w) = (s, w1)" by force
  have e: "h' = ?h1\<lparr> hr_rec := s \<rparr>" "w' = w1" using assms(3) by (simp_all add: start_daemon_def rec)
  have "stored_state w1 ?repo ?b = Some Open"
    using reopened [OF assms(1)] assms(6,7) rec
    by (auto simp: recover_stuck_beads_def Let_def case_prod_unfold)
  moreover have "stored_state (persist_status px ?b ?repo st later) ?repo ?b = Some Open"
    if "stored_state later ?repo ?b = Some Open" "st = PrOpen \<or> st = DeadLetter" for px st later
    using persist_status_state [OF that(1), of px st ?repo ?b] that by (auto simp: can_transition_to_def)
  ultimately show ?thesis
    using recover_orchestrators_restores [OF assms(2,4,5), of h] by (auto simp: e)
qed

section \<open>Witnesses\<close>

definition sample_iteration :: iteration_env where
  "sample_iteration = \<lparr> ie_dispatch = small_dispatch, ie_triage = small_triage, ie_persist = sample_persist, ie_repos = [''app''],
     ie_vcs = [[(''c1'', \<lparr> vr_id = ''app-1'', vr_closes = True \<rparr>)]], ie_gh = (\<lambda>_. None), ie_opened = (\<lambda>_. True),
     ie_sessions = [sample_session], ie_alive = (\<lambda>_. True), ie_rfc3339 = (\<lambda>_. ''t''), ie_poll = (\<lambda>_. PollError),
     ie_handle = (\<lambda>_. \<lparr> ah_work_dir = ''/w'', ah_workspace = False, ah_started_at = 0 \<rparr>), ie_orchestrators = [],
     ie_verdict_text = (\<lambda>i repo agent phase v detail. detail), ie_dispatch_record = (\<lambda>d r agent. undefined) \<rparr>"

theorem daemon_follows_the_lifecycle_witness:
  "\<exists>h' w' us t. run_daemon sample_iteration [] [sample_iteration, sample_iteration] (one_queued, sample_world) = (h', w')
     \<and> length (hr_active h') \<le> 1 \<and> stored_state w' ''app'' ''app-1'' = Some t \<and> lifecycle_run Dispatched us t"
proof -
  obtain h' w' where r: "run_daemon sample_iteration [] [sample_iteration, sample_iteration] (one_queued, sample_world) = (h', w')" by force
  have n: "\<forall>e \<in> set [sample_iteration, sample_iteration]. he_max_concurrent (ie_dispatch e) = 1" "length (hr_active one_queued) \<le> 1"
    by (simp_all add: sample_iteration_def small_dispatch_fields one_queued_def)
  show ?thesis using daemon_follows_the_lifecycle [OF r n, of "''app''" "''app-1''"] r sample_dispatched by auto
qed

definition interrupted_record :: orchestrator_record where
  "interrupted_record = persist_record 0 (small_orchestrator\<lparr> fo_bead_ref := WorkRef ''app'' [] ''app-1'' \<rparr>)"

theorem restored_orchestrators_lose_their_beads_witness:
  "\<exists>h' w'. start_daemon (sample_iteration\<lparr> ie_dispatch := small_dispatch\<lparr> de_hierarchical := True \<rparr> \<rparr>) [(''/w'', interrupted_record)] (one_queued, sample_world) = (h', w')
     \<and> hr_orchestrators h' ''app-1'' \<noteq> None \<and> stored_state w' ''app'' ''app-1'' = Some Open"
proof -
  let ?env = "sample_iteration\<lparr> ie_dispatch := small_dispatch\<lparr> de_hierarchical := True \<rparr> \<rparr>"
  obtain h' w' where s: "start_daemon ?env [(''/w'', interrupted_record)] (one_queued, sample_world) = (h', w')" by force
  have f: "or_bead_ref interrupted_record = WorkRef ''app'' [] ''app-1''" "or_state interrupted_record = OIdle"
    by (simp_all add: interrupted_record_def persist_record_def small_orchestrator_def new_orchestrator_def)
  then obtain fo where fo: "recover_orchestrator (ev_pipeline (he_env (ie_dispatch ?env))) (he_behavior (ie_dispatch ?env))
      (he_now (ie_dispatch ?env)) ''/w'' interrupted_record = Some fo"
    by (simp add: recover_orchestrator_def)
  have r: "readable_stores (ie_persist ?env) (ie_repos ?env) sample_world" using sample_readable by (simp add: sample_iteration_def)
  show ?thesis
    using restored_orchestrators_lose_their_beads [OF r _ s _ fo] f sample_dispatched s
    by (simp add: sample_iteration_def)
qed

end
