(* ===== verification/Spec2Isabelle.thy ===== *)
theory Spec2Isabelle
  imports Wait_Verify Observation_Status Epic_Clusters Restore_Merge Decade Bead_Move Restore_Behaviour
    Migration_Behaviour Observation_Store Publish_Behaviour
    Iteration_Behaviour
begin

text \<open>
  A verification development for rosary, a reconciler that keeps work items (beads) of several
  repositories in stores and drives them through pipelines of agents.

  \<^bold>\<open>The program.\<close> The core is the loop of \<open>src/reconcile/mod.rs\<close> (\<open>iterate\<close>): it scans the open beads of
  the repositories, scores and queues the ones that may be dispatched (\<open>triage\<close>), starts agents for
  queued beads while slots are free, polls the running agents, verifies the work of the ones that
  exited, and lets the pipeline engine decide whether the bead advances to its next agent, is complete
  (a pull request), is retried or is dead-lettered. In the hierarchical mode one orchestrator per bead
  is a state machine between dispatch and completion. What happened to a bead is recorded as
  observations; its status is a fold of a log of observations whose field algebras make the fold
  independent of order and repetition.

  \<^bold>\<open>Theories, in the order of their imports.\<close>

  \<^item> \<open>Rosary_Prelude\<close>: text functions of Rust's \<open>str\<close> (trim, lower case, prefixes, splits, decimal
    numbers), lemmas on lists, options and sorting, and the collections of simplification rules.
  \<^item> \<open>Bead_Model\<close> (\<open>src/bead.rs\<close>, \<open>src/bead_close_condition.rs\<close>): the record \<open>bead\<close>, the lifecycle
    \<open>bead_state\<close> with its transitions, readiness predicates, close conditions, the generation, JSON.
  \<^item> \<open>Store_Types\<close> (\<open>src/store.rs\<close>, \<open>src/dolt/observations.rs\<close>): the records the stores exchange and
    the verdict lattice.
  \<^item> \<open>Pipeline\<close> (\<open>src/pipeline.rs\<close>, \<open>src/dispatch/provenance.rs\<close>): the agents of an issue type,
    \<open>next_agent\<close>, \<open>decide\<close>, dispatch identifiers, the feedback contract, failure classes and limits.
  \<^item> \<open>Work_Queue\<close> (\<open>src/queue.rs\<close>): the priority queue, its key set, backoff, triage scores.
  \<^item> \<open>Completion\<close> (\<open>src/verify.rs\<close>, \<open>src/reconcile/completion.rs\<close>, \<open>src/reconcile/verify.rs\<close>,
    \<open>src/reconcile/workspace_ops.rs\<close>): the verifier, the record \<open>reconciler\<close>, the bookkeeping of passes
    and failures, \<open>execute_action\<close>, and \<open>verify_completed\<close> as a fold of \<open>verify_one\<close>.
  \<^item> \<open>Triage\<close> (\<open>src/epic.rs\<close>, \<open>src/scanner.rs\<close>, \<open>src/reconcile/triage.rs\<close>): similarity of beads, file
    overlap, cross-repository blocking, and \<open>triage\<close> as a fold of \<open>triage_one\<close>.
  \<^item> \<open>Orchestrator\<close> (\<open>src/orchestrate/mod.rs\<close>, \<open>src/reconcile/orchestration.rs\<close>): the state machine of
    one bead (\<open>tick\<close>, \<open>on_worker_completed\<close>), the pass of the reconciler over all of them, recovery.
  \<^item> \<open>Dispatch\<close> (the dispatch phase of \<open>iterate\<close>): \<open>dispatch_loop\<close> over the queue in both modes, and its
    composition with triage and completion.
  \<^item> \<open>Wait_Verify\<close> (\<open>wait_and_verify\<close>, \<open>check_completed\<close>): the wait of a run with \<open>--once\<close>.
  \<^item> \<open>Observation_Lattice\<close> (\<open>src/observation/\<close> \<open>mod.rs\<close>, \<open>log.rs\<close>, \<open>fold.rs\<close>, \<open>registry.rs\<close> and the
    \<open>algebra_*.rs\<close>): observations, dedup keys, the log, the five field algebras and the fold.
  \<^item> \<open>Observation_Status\<close> (\<open>resolve.rs\<close>, \<open>tree_fold.rs\<close>, \<open>shadow.rs\<close>, \<open>backfill.rs\<close>, \<open>audit.rs\<close> there):
    resolution by authority, roll-ups, the status derived from legacy events, backfill and audit.
  \<^item> \<open>Union_Find\<close>, \<open>Epic_Clusters\<close> (\<open>src/epic.rs\<close>): the union-find structure and the clusters of similar
    beads, with their relationship, order and action.
  \<^item> \<open>Text_Lines\<close>, \<open>Restore_Merge\<close> (\<open>src/restore/mod.rs\<close>, \<open>src/restore/merge.rs\<close>): lines of text, and the
    git merge driver for bead exports.
  \<^item> \<open>Doc_Parse\<close>, \<open>Decade\<close> (\<open>crates/bdr/src/\<close>): the parser of design documents, and the decomposition of
    their atoms into beads, threads and decades, with the accretion of completions.
  \<^item> \<open>Provenance\<close>, \<open>Secrets\<close> (\<open>crates/bdr/src/provenance.rs\<close>, \<open>src/secrets.rs\<close>): references to the origin of a
    bead with their JSON form, and the redaction of secrets.
  \<^item> \<open>Bead_Store\<close> (\<open>src/bead_sqlite/\<close>, \<open>src/bead_backend.rs\<close>): the tables of the bead store and its
    operations; \<open>Store_Invariant\<close> and \<open>Store_Behaviour\<close> show what they keep and do.
  \<^item> \<open>Default_Agents\<close>, \<open>Comment_Log\<close>, \<open>Bead_Move\<close> (\<open>src/dispatch/mod.rs\<close>, \<open>src/config/mod.rs\<close>,
    \<open>src/bead_move.rs\<close>): the agents of issue types, the comments of a bead as a log, the move of a bead.
  \<^item> \<open>Bead_Contract\<close>, \<open>Bead_Restore\<close>, \<open>Restore_Records\<close>, \<open>Restore_Behaviour\<close> (\<open>src/import.rs\<close>,
    \<open>src/contract_deps.rs\<close>, \<open>src/bead_ext/mod.rs\<close>, \<open>src/restore/mod.rs\<close>): the record of a bead in an export,
    and the restore of records into a store.
  \<^item> \<open>Keyed_Tables\<close>, \<open>Backend_Store\<close>, \<open>Backend_Behaviour\<close> (\<open>src/store_sqlite.rs\<close>, \<open>src/store.rs\<close>): the store of
    the orchestrator: decades, threads, pipelines, dispatches, dependencies, links and repositories.
  \<^item> \<open>Backend_Migration\<close>, \<open>Migration_Behaviour\<close> (\<open>src/migrate.rs\<close>): snapshots of that store and the migration
    between two stores.
  \<^item> \<open>Observation_Store\<close> (\<open>log_sqlite.rs\<close>, \<open>quarantine.rs\<close> in \<open>src/observation/\<close>): the log in SQLite, the quarantine.
  \<^item> \<open>Bead_Ids\<close> (\<open>src/vcs.rs\<close>, \<open>src/main.rs\<close>): identifiers, and the references to them in commit messages.
  \<^item> \<open>Bead_Projection\<close>, \<open>Bead_Publish\<close>, \<open>Publish_Behaviour\<close> (\<open>src/jsonl_sync.rs\<close>, \<open>src/publish/\<close>): the tracked file
    of bead records, the commit hook, the gate before a push, the refresh of the trunk.
  \<^item> \<open>Persistence\<close>, \<open>Persistence_Behaviour\<close>, \<open>Recovery_Behaviour\<close> (\<open>src/reconcile/persistence.rs\<close>, \<open>src/session.rs\<close>,
    \<open>src/dispatch/sweep.rs\<close>, \<open>src/reconcile/vcs.rs\<close>): the writes of the reconciler to the bead stores, recovery
    after a crash, sweeps, sessions, commits and pull requests.
  \<^item> \<open>Threading\<close>, \<open>Cross_Refs\<close> (\<open>src/reconcile/threading.rs\<close>, \<open>src/xref.rs\<close>): threads of related beads and the
    pull requests of their features; mirrors of beads in other repositories.
  \<^item> \<open>Iteration\<close>, \<open>Iteration_Behaviour\<close> (\<open>iterate\<close> and \<open>run\<close> of \<open>src/reconcile/mod.rs\<close>): the phases of an iteration
    composed over the reconciler and the stores, and a daemon that runs iterations.

  \<^bold>\<open>How state and effects are modelled.\<close> A struct is a record with the fields its operations use, an
  operation is a function from the state to the state. What the reconciler does to the outside is a
  list of \<open>effect\<close>s in the order of the calls (\<open>rc_effects\<close>): statuses written, observations appended,
  agents started, pull requests opened. What the outside answers (the tiers of the verifier, logs,
  polls, the store, the clock, SHA-256) is a field of an environment record, so that a theorem holds
  for every answer. Calls of a store that the code makes best-effort are taken to succeed. The interface
  to the heap of the standard library is the locale \<open>max_heap\<close>, interpreted on the model's heap; the
  laws of the field algebras are a locale too, interpreted on each algebra, and so is what clustering
  needs of disjoint sets (\<open>disjoint_sets\<close>), interpreted on the union-find structure, the laws of a sorted map
  (\<open>keyed_store\<close>), interpreted on the association lists that stand for a \<open>BTreeMap\<close>, and the log of
  comments (\<open>comment_log\<close>) through which a move copies a bead, interpreted on the bead store. A table with
  a key is the locale \<open>keyed_table\<close>, interpreted on the pipelines and the repositories of the backend. The
  tables of a store are lists of rows; a statement of SQL is the function it computes on them, a
  transaction is the state after its statements or the old state, \<open>now\<close> is the text of the time, and the
  reader of timestamps is a parameter. \<open>Persistence\<close> connects the two sides:
  \<open>persist_all\<close> runs the status writes of an effect list against the bead stores, where the lifecycle can
  refuse them; \<open>run_effect\<close> of \<open>Iteration\<close> does so for every call that changes a store.

  \<^bold>\<open>Numbers and text.\<close> Text is a list of bytes and taken to be ASCII where the code asks for character
  classes. \<open>f64\<close> scores and similarities are real numbers without rounding. Instants and durations are
  numbers of nanoseconds or milliseconds. Counters of type \<open>u32\<close> are natural numbers, which is exact
  below \<open>2 ^ 32\<close>; where a narrowing cast is in the code (\<open>as u8\<close>, \<open>as u32\<close>) the \<open>mod\<close> is written out.
  That JSON reads back what was written is assumed of every value of the model's type (\<open>codec_ok\<close>), also of
  objects with unsorted or repeated keys, which the sorted maps of the code never hold. The migration is
  shown for a run without a directory for backups.

  \<^bold>\<open>Loops.\<close> Loops over a collection are folds. The drain of the queue takes fuel \<open>Suc (length heap)\<close>,
  which is proved enough. The dispatch loop ends because each turn takes an entry from the queue. A tick
  of an orchestrator passes through at most three states. The wait runs over a list of rounds and is
  \<open>None\<close> when they are over too early; how many are enough is proved. The search for a root of the
  union-find is a partial function; that it returns on every forest is proved.

  \<^bold>\<open>What is shown.\<close> Of the whole: through any number of iterations the stored statuses move along the lifecycle
  and the slots are kept (C1). Of the reconciler: verification by the daemon opens a pull request only for work
  it verified (C2); the retry budget is exact (C3); triage queues the beads that may be dispatched and no other (C4); the dispatch loop keeps
  to slots and disjoint files (C5); the queue yields the best eligible entry and no duplicates (C6, C10);
  orchestrators refine a counter of phases and failures (C7); the wait ends and runs whole pipelines, when
  handoffs can be read and pipelines name no agent twice (C8, C9). Of the reconciler and its stores together: in the flat mode every status it writes is accepted, in
  the hierarchical mode the one of a finished pipeline is refused (C14, C15); recovery reopens the dispatched
  beads and nothing else (C16), the liveness sweep buries those of dead workers (C17); threading settles
  and feature pull requests are for complete threads (C19, C20); mirrors follow the lifecycle only (C21). Of
  observations: replicas without conflicting observations converge, agreeing verdicts give the status, authority decides, the table refines the
  log (C11, C37, C34, C30). Clusters are the components of similarity (C12); the merge of exports is a symmetric
  three-way merge (C13). Of the bead store: the invariant of its tables (C24), statuses follow the
  lifecycle (C25), what is restored or moved is read back (C26, C33), no secret is stored (C36). Of the
  store of the orchestrator: graphs stay acyclic, states are read back, a migration reproduces the store (C27,
  C28, C29). Of the projection: what the hook writes passes the gate, a refresh of the trunk settles or blocks
  itself, identifiers are found again (C31, C32, C38). Of documents: a decade partitions the beads of its
  atoms (C35). Of the parts: pipeline order, lifecycle, waits (C22, C23, C40). Several theorems state
  faults of the code: a pull request that is never recorded (C15), restored orchestrators whose beads are
  taken from them (C18), mirrors that are never completed (C21), a trunk refresh that blocks itself or
  throws away other edits when it is parked (C32), a worktree whose beads are refused (C39); others are
  among the theorems without a number.

  \<^bold>\<open>Git and files.\<close> The refresh of the trunk runs git commands in sequence: they are a parameter (the record
  \<open>git\<close> of \<open>Bead_Publish\<close>, over a checkout of any kind), each may fail, and \<open>git_laws\<close> states what git documents of
  them for the working tree, the index, the tip and branches; hooks that rewrite the index are left out. The
  daemon restores orchestrators from the records that \<open>found_records\<close> finds below the workspace roots,
  which are an argument of \<open>run_daemon\<close>; what it writes itself (\<open>persist_orchestrator_records\<close>) goes to the work
  directory of an orchestrator, for dispatched beads the path of the repository, where
  \<open>records_outside_are_not_found\<close> shows that it is not found unless that path lies below a root.

  \<^bold>\<open>Not modelled.\<close> The Dolt stores (the SQLite stores have the same interface), the HTTP, MCP and
  command-line servers, GitHub and Linear clients, the commands of git, jj and gh (their output is an input),
  process spawning, prompts and workspaces: input and output without decisions of their own, or libraries
  that the sources only call. Of \<open>iterate\<close> the clones that are tried again, of \<open>run\<close> the mode with a
  target. Of the bead tools the differences of exports and the
  encryption of a projection.
\<close>

end
